(* ===== verification/Prelude.thy ===== *)
theory Prelude
  imports Main "HOL-Library.Word"
begin

text \<open>
  Vocabulary shared by the components: the C integer conversions, the clamping and
  truncating operations of the code, intrusive lists as HOL lists, and bit masks.

  A value of a C integer type is an \<^typ>\<open>int\<close>; the conversions the compiler inserts are
  written out with \<open>u32\<close> (to \<open>uint32_t\<close>, reducing modulo \<open>2 ^ 32\<close>) and \<open>s32\<close> (to
  \<open>int32_t\<close>, two's complement).  Bit fields are 32-bit words.  A \<open>struct wl_list\<close> of the
  code is the list of its elements in the order \<open>wl_list_for_each\<close> visits them.
\<close>

unbundle bit_operations_syntax

named_theorems c_int \<open>facts about C integer conversions\<close>
named_theorems list_ops \<open>facts about intrusive lists\<close>

type_synonym mask = "32 word"

section \<open>C integers\<close>

abbreviation INT32_MIN :: int where "INT32_MIN \<equiv> - 2147483648"
abbreviation INT32_MAX :: int where "INT32_MAX \<equiv> 2147483647"
abbreviation UINT32_MAX :: int where "UINT32_MAX \<equiv> 4294967295"

definition u32 :: "int \<Rightarrow> int" where
  "u32 x = x mod 4294967296"

definition s32 :: "int \<Rightarrow> int" where
  "s32 x = (x + 2147483648) mod 4294967296 - 2147483648"

definition in_u32 :: "int \<Rightarrow> bool" where
  "in_u32 x \<longleftrightarrow> 0 \<le> x \<and> x \<le> UINT32_MAX"

definition in_s32 :: "int \<Rightarrow> bool" where
  "in_s32 x \<longleftrightarrow> INT32_MIN \<le> x \<and> x \<le> INT32_MAX"

lemma in_s32_max: "in_s32 x \<Longrightarrow> x \<le> INT32_MAX"
  by (simp add: in_s32_def)

lemma in_s32_min: "in_s32 x \<Longrightarrow> INT32_MIN \<le> x"
  by (simp add: in_s32_def)

lemma u32_id [c_int]: "in_u32 x \<Longrightarrow> u32 x = x"
  by (simp add: u32_def in_u32_def)

lemma s32_id [c_int]: "in_s32 x \<Longrightarrow> s32 x = x"
  by (simp add: s32_def in_s32_def)

lemma in_u32_u32 [c_int, simp]: "in_u32 (u32 x)"
  using pos_mod_bound [of 4294967296 x] pos_mod_sign [of 4294967296 x]
  unfolding in_u32_def u32_def by linarith

lemma in_s32_s32 [c_int, simp]: "in_s32 (s32 x)"
  using pos_mod_bound [of 4294967296 "x + 2147483648"]
    pos_mod_sign [of 4294967296 "x + 2147483648"]
  unfolding in_s32_def s32_def by linarith

lemma u32_idem [simp]: "u32 (u32 x) = u32 x"
  by (simp add: u32_def)

lemma s32_u32 [simp]: "s32 (u32 x) = s32 x"
  by (simp add: u32_def s32_def mod_add_left_eq)

lemma u32_add_wrap [simp]: "u32 (x + 4294967296) = u32 x" "u32 (x + 4294967296 - y) = u32 (x - y)"
proof -
  show "u32 (x + 4294967296) = u32 x" by (simp add: u32_def)
  have "u32 (x + 4294967296 - y) = u32 ((x - y) + 4294967296)" by (simp add: algebra_simps)
  then show "u32 (x + 4294967296 - y) = u32 (x - y)" by (simp add: u32_def)
qed

lemma u32_wrap_neg:
  assumes "- 4294967296 \<le> x" and "x < 0"
  shows "u32 x = x + 4294967296"
proof -
  have "u32 x = (x + 4294967296) mod 4294967296" by (simp add: u32_def)
  also have "\<dots> = x + 4294967296" using assms by (intro mod_pos_pos_trivial) auto
  finally show ?thesis .
qed

lemma s32_add_u32 [simp]: "s32 (x + u32 y) = s32 (x + y)"
proof -
  have "(x + y mod 4294967296 + 2147483648) mod 4294967296 =
      (x + 2147483648 + y mod 4294967296) mod 4294967296"
    by (simp add: ac_simps)
  also have "\<dots> = (x + 2147483648 + y) mod 4294967296" by (rule mod_add_right_eq)
  finally show ?thesis by (simp add: s32_def u32_def ac_simps)
qed

text \<open>\<open>MIN(MAX(value, INT32_MIN), INT32_MAX)\<close>, the clamp of \<open>xdg_shell.c\<close> and others.\<close>

definition clamp_s32 :: "int \<Rightarrow> int" where
  "clamp_s32 x = min (max x INT32_MIN) INT32_MAX"

lemma in_s32_clamp [c_int, simp]: "in_s32 (clamp_s32 x)"
  by (simp add: clamp_s32_def in_s32_def)

lemma clamp_s32_id [c_int]: "in_s32 x \<Longrightarrow> clamp_s32 x = x"
  by (simp add: clamp_s32_def in_s32_def)

lemma clamp_s32_mono: "x \<le> y \<Longrightarrow> clamp_s32 x \<le> clamp_s32 y"
  by (simp add: clamp_s32_def min_def max_def)

text \<open>C division truncates towards zero.\<close>

definition cdiv :: "int \<Rightarrow> int \<Rightarrow> int" where
  "cdiv a b = sgn a * sgn b * (\<bar>a\<bar> div \<bar>b\<bar>)"

lemma cdiv_nonneg [c_int]: "0 \<le> a \<Longrightarrow> 0 < b \<Longrightarrow> cdiv a b = a div b"
  by (cases "a = 0") (simp_all add: cdiv_def)

lemma cdiv_neg [c_int]: "a \<le> 0 \<Longrightarrow> 0 < b \<Longrightarrow> cdiv a b = - (- a div b)"
  by (cases "a = 0") (simp_all add: cdiv_def)

section \<open>Bit masks\<close>

text \<open>The C test \<open>if (a & b)\<close>.\<close>

definition has :: "mask \<Rightarrow> mask \<Rightarrow> bool" where
  "has a b \<longleftrightarrow> a AND b \<noteq> 0"

lemma has_or: "has a (b OR c) \<longleftrightarrow> has a b \<or> has a c"
  by (simp add: has_def bit.conj_disj_distrib or_eq_0_iff)

lemma has_or_left: "has (a OR b) c \<longleftrightarrow> has a c \<or> has b c"
  by (simp add: has_def bit.conj_disj_distrib2 or_eq_0_iff)

section \<open>Intrusive lists\<close>

text \<open>
  \<open>drop_through P xs\<close> unlinks the elements of \<open>xs\<close> from the first one up to and including
  the first that satisfies \<open>P\<close>: the shape of every acknowledge loop of the code.
\<close>

fun drop_through :: "('a \<Rightarrow> bool) \<Rightarrow> 'a list \<Rightarrow> 'a list" where
  "drop_through P [] = []"
| "drop_through P (x # xs) = (if P x then xs else drop_through P xs)"

text \<open>\<open>wl_list_insert(&y->link, &x->link)\<close> and \<open>wl_list_insert(y->link.prev, &x->link)\<close>.\<close>

fun insert_after :: "'a \<Rightarrow> 'a \<Rightarrow> 'a list \<Rightarrow> 'a list" where
  "insert_after y x [] = []"
| "insert_after y x (z # zs) = (if z = y then z # x # zs else z # insert_after y x zs)"

fun insert_before :: "'a \<Rightarrow> 'a \<Rightarrow> 'a list \<Rightarrow> 'a list" where
  "insert_before y x [] = []"
| "insert_before y x (z # zs) = (if z = y then x # z # zs else z # insert_before y x zs)"

lemma drop_through_append_notin [list_ops]:
  "\<forall>x \<in> set xs. \<not> P x \<Longrightarrow> drop_through P (xs @ ys) = drop_through P ys"
  by (induction xs) auto

lemma drop_through_False [simp]: "drop_through (\<lambda>_. False) xs = []"
  by (induction xs) auto

lemma set_drop_through: "set (drop_through P xs) \<subseteq> set xs"
  by (induction xs) auto

lemma length_drop_through_le: "length (drop_through P xs) \<le> length xs"
  by (induction xs) auto

lemma length_drop_through_less [list_ops]:
  "\<exists>x \<in> set xs. P x \<Longrightarrow> length (drop_through P xs) < length xs"
  by (induction xs) (auto intro: less_SucI)

lemma find_append_None: "find P xs = None \<Longrightarrow> find P (xs @ ys) = find P ys"
  by (induction xs) (auto split: if_splits)

lemma map_drop_through: "map f (drop_through (\<lambda>x. P (f x)) xs) = drop_through P (map f xs)"
  by (induction xs) auto

lemma set_insert_after_subset: "set (insert_after y x xs) \<subseteq> insert x (set xs)"
  by (induction xs) auto

lemma set_insert_before_subset: "set (insert_before y x xs) \<subseteq> insert x (set xs)"
  by (induction xs) auto

lemma set_insert_after [list_ops]: "y \<in> set xs \<Longrightarrow> set (insert_after y x xs) = insert x (set xs)"
  by (induction xs) auto

lemma set_insert_before [list_ops]: "y \<in> set xs \<Longrightarrow> set (insert_before y x xs) = insert x (set xs)"
  by (induction xs) auto

lemma distinct_insert_after [list_ops]:
  "distinct xs \<Longrightarrow> x \<notin> set xs \<Longrightarrow> distinct (insert_after y x xs)"
  using set_insert_after_subset by (induction xs) fastforce+

lemma distinct_insert_before [list_ops]:
  "distinct xs \<Longrightarrow> x \<notin> set xs \<Longrightarrow> distinct (insert_before y x xs)"
  using set_insert_before_subset by (induction xs) fastforce+

lemma count_list_remove1 [list_ops]:
  "count_list (remove1 x xs) y = (if x = y then count_list xs y - 1 else count_list xs y)"
  by (induction xs) (auto simp: count_list_0_iff)

lemma count_list_pos_iff: "0 < count_list xs x \<longleftrightarrow> x \<in> set xs"
  by (metis count_list_0_iff gr0I less_irrefl)

end
