(* ===== verification/Geometry.thy ===== *)
theory Geometry
  imports Prelude
begin

text \<open>
  Rectangles (\<open>libswc/util.h\<close>, \<open>struct swc_rectangle\<close> of \<open>libswc/swc.h\<close>), the extents
  arithmetic of \<open>libswc/compositor.c\<close>, and the view of \<open>libswc/view.c\<close>: a geometry, the
  mask of screens it is on, the buffer it holds a reference to, and the handlers told of
  every change.
\<close>

section \<open>Rectangles\<close>

record swc_rectangle =
  rect_x :: int
  rect_y :: int
  rect_width :: int
  rect_height :: int

definition mk_rect :: "int \<Rightarrow> int \<Rightarrow> int \<Rightarrow> int \<Rightarrow> swc_rectangle" where
  "mk_rect x y w h = \<lparr>rect_x = x, rect_y = y, rect_width = w, rect_height = h\<rparr>"

lemma mk_rect_sel [simp]:
  "rect_x (mk_rect x y w h) = x" "rect_y (mk_rect x y w h) = y"
  "rect_width (mk_rect x y w h) = w" "rect_height (mk_rect x y w h) = h"
  by (simp_all add: mk_rect_def)

text \<open>The C types of the fields: \<open>int32_t x, y; uint32_t width, height\<close>.\<close>

definition rect_typed :: "swc_rectangle \<Rightarrow> bool" where
  "rect_typed r \<longleftrightarrow> in_s32 (rect_x r) \<and> in_s32 (rect_y r) \<and>
     in_u32 (rect_width r) \<and> in_u32 (rect_height r)"

text \<open>Rectangles whose right and bottom edges are coordinates as well.\<close>

definition rect_wf :: "swc_rectangle \<Rightarrow> bool" where
  "rect_wf r \<longleftrightarrow> rect_typed r \<and> rect_x r + rect_width r \<le> INT32_MAX \<and>
     rect_y r + rect_height r \<le> INT32_MAX"

text \<open>
  The additions are signed: where \<open>x + (int32_t)width\<close> overflows, C leaves the comparison
  undefined, and this definition (which adds exactly) says nothing about the code.
\<close>

definition rectangle_contains_point :: "swc_rectangle \<Rightarrow> int \<Rightarrow> int \<Rightarrow> bool" where
  "rectangle_contains_point r x y \<longleftrightarrow>
     x \<ge> rect_x r \<and> x < rect_x r + s32 (rect_width r) \<and>
     y \<ge> rect_y r \<and> y < rect_y r + s32 (rect_height r)"

text \<open>
  In \<open>r1->x + r1->width\<close> the signed operand is converted to unsigned, so the sums, the
  \<open>MAX\<close>, the difference and the comparison are all modulo \<open>2 ^ 32\<close>; only the \<open>MIN\<close> is
  signed.  \<open>span_overlap\<close> is one of the two conjuncts, for either axis.
\<close>

definition span_overlap :: "int \<Rightarrow> int \<Rightarrow> int \<Rightarrow> int \<Rightarrow> bool" where
  "span_overlap x1 w1 x2 w2 \<longleftrightarrow>
     u32 (max (u32 (x1 + w1)) (u32 (x2 + w2)) - min x1 x2) < u32 (w1 + w2)"

definition rectangle_overlap :: "swc_rectangle \<Rightarrow> swc_rectangle \<Rightarrow> bool" where
  "rectangle_overlap r1 r2 \<longleftrightarrow>
     span_overlap (rect_x r1) (rect_width r1) (rect_x r2) (rect_width r2) \<and>
     span_overlap (rect_y r1) (rect_height r1) (rect_y r2) (rect_height r2)"

text \<open>What overlapping means: the rectangles have a pixel in common.\<close>

definition share_pixel :: "swc_rectangle \<Rightarrow> swc_rectangle \<Rightarrow> bool" where
  "share_pixel r1 r2 \<longleftrightarrow>
     max (rect_x r1) (rect_x r2) < min (rect_x r1 + rect_width r1) (rect_x r2 + rect_width r2) \<and>
     max (rect_y r1) (rect_y r2) < min (rect_y r1 + rect_height r1) (rect_y r2 + rect_height r2)"

definition clamp_i32 :: "int \<Rightarrow> int" where
  "clamp_i32 v = (if v > INT32_MAX then INT32_MAX else if v < INT32_MIN then INT32_MIN else v)"

definition span_u32 :: "int \<Rightarrow> int \<Rightarrow> int" where
  "span_u32 a b =
     (let d = b - a in if d \<le> 0 then 0 else if d > UINT32_MAX then UINT32_MAX else d)"

text \<open>
  \<open>array_remove\<close> on an array of elements of one size: the element at the index goes, what
  follows moves down.
\<close>

definition array_remove :: "nat \<Rightarrow> 'a list \<Rightarrow> 'a list" where
  "array_remove i xs = take i xs @ drop (Suc i) xs"

lemma clamp_i32_eq [simp]: "clamp_i32 v = clamp_s32 v"
  by (simp add: clamp_i32_def clamp_s32_def)

lemma rect_wf_typed: "rect_wf r \<Longrightarrow> rect_typed r"
  by (simp add: rect_wf_def)

lemma u32_edge:
  assumes "in_s32 x" and "in_u32 w" and "x + w \<le> INT32_MAX"
  shows "u32 (x + w) = (if x + w < 0 then x + w + 4294967296 else x + w)"
  using assms u32_wrap_neg [of "x + w"] u32_id [of "x + w"]
  unfolding in_s32_def in_u32_def by auto

text \<open>
  What the unsigned comparison amounts to: when exactly one of the two far edges is left of
  the origin, \<open>MAX\<close> picks that one, because as an unsigned number it is the larger.
\<close>

definition picked_edge :: "int \<Rightarrow> int \<Rightarrow> int" where
  "picked_edge e1 e2 =
     (if e1 < 0 \<and> 0 \<le> e2 then e1 else if e2 < 0 \<and> 0 \<le> e1 then e2 else max e1 e2)"

lemma max_u32_edges:
  assumes "INT32_MIN \<le> e1" "e1 \<le> INT32_MAX" "INT32_MIN \<le> e2" "e2 \<le> INT32_MAX"
  shows "u32 (max (u32 e1) (u32 e2) - m) = u32 (picked_edge e1 e2 - m)"
proof -
  have neg: "u32 e = e + 4294967296" if "INT32_MIN \<le> e" "e < 0" for e
    using that by (intro u32_wrap_neg) auto
  have pos: "u32 e = e" if "0 \<le> e" "e \<le> INT32_MAX" for e
    using that by (intro u32_id) (auto simp: in_u32_def)
  consider "e1 < 0" "e2 < 0" | "e1 < 0" "0 \<le> e2" | "0 \<le> e1" "e2 < 0" | "0 \<le> e1" "0 \<le> e2"
    by linarith
  then show ?thesis
  proof cases
    case 1
    then have "max (u32 e1) (u32 e2) = max e1 e2 + 4294967296"
      using assms neg by (simp add: max_def)
    then show ?thesis using 1 by (simp add: picked_edge_def)
  next
    case 2
    then have "max (u32 e1) (u32 e2) = e1 + 4294967296"
      using assms neg pos by (simp add: max_def)
    then show ?thesis using 2 by (simp add: picked_edge_def)
  next
    case 3
    then have "max (u32 e1) (u32 e2) = e2 + 4294967296"
      using assms neg pos by (simp add: max_def)
    then show ?thesis using 3 by (simp add: picked_edge_def)
  next
    case 4
    then show ?thesis using assms pos by (simp add: picked_edge_def)
  qed
qed

lemma span_overlap_eq:
  assumes "in_s32 x1" "in_u32 w1" "x1 + w1 \<le> INT32_MAX"
    and "in_s32 x2" "in_u32 w2" "x2 + w2 \<le> INT32_MAX" and "w1 + w2 \<le> UINT32_MAX"
  shows "span_overlap x1 w1 x2 w2 \<longleftrightarrow>
    picked_edge (x1 + w1) (x2 + w2) - min x1 x2 < w1 + w2"
proof -
  have e: "INT32_MIN \<le> x1 + w1" "INT32_MIN \<le> x2 + w2" "0 \<le> w1" "0 \<le> w2"
    using assms by (auto simp: in_s32_def in_u32_def)
  have w: "u32 (w1 + w2) = w1 + w2"
    using assms e by (intro u32_id) (auto simp: in_u32_def)
  have "in_u32 (picked_edge (x1 + w1) (x2 + w2) - min x1 x2)"
    using assms e by (auto simp: in_s32_def in_u32_def picked_edge_def max_def min_def)
  then show ?thesis
    unfolding span_overlap_def w using max_u32_edges [OF e(1) assms(3) e(2) assms(6)] u32_id
    by simp
qed

section \<open>Views (\<open>libswc/view.c\<close>)\<close>

text \<open>
  A handler is known by a number; its method table says which of the optional callbacks it
  has.  The \<open>HANDLE\<close> macro calls the callback of every handler that has one, in list order.
  \<open>View_reference\<close> and \<open>View_unreference\<close> are \<open>wld_buffer_reference\<close> and
  \<open>wld_buffer_unreference\<close>; the others are the calls of the handler methods.
\<close>

record view_handler_impl =
  has_frame :: bool
  has_attach :: bool
  has_move :: bool
  has_resize :: bool
  has_screens :: bool

record view =
  geometry :: swc_rectangle
  view_screens :: mask
  buffer :: "nat option"
  handlers :: "(nat \<times> view_handler_impl) list"

datatype view_event =
    View_reference nat
  | View_unreference nat
  | On_attach nat
  | On_move nat
  | On_resize nat int int
  | On_screens nat mask mask
  | On_frame nat int

record wld_buffer =
  buf_width :: int
  buf_height :: int

record screen =
  screen_id :: nat
  screen_geometry :: swc_rectangle
  usable_geometry :: swc_rectangle

definition HANDLE ::
  "(view_handler_impl \<Rightarrow> bool) \<Rightarrow> (nat \<Rightarrow> view_event) \<Rightarrow> view \<Rightarrow> view_event list" where
  "HANDLE method call v = map (call \<circ> fst) (filter (method \<circ> snd) (handlers v))"

definition screen_mask :: "screen \<Rightarrow> mask" where
  "screen_mask s = push_bit (screen_id s) 1"

definition view_initialize :: "view" where
  "view_initialize = \<lparr>geometry = mk_rect 0 0 0 0, view_screens = 0, buffer = None, handlers = []\<rparr>"

definition view_finalize :: "view \<Rightarrow> view \<times> view_event list" where
  "view_finalize v =
     (v\<lparr>handlers := [], buffer := None\<rparr>,
      (case buffer v of Some b \<Rightarrow> [View_unreference b] | None \<Rightarrow> []))"

text \<open>\<open>ret\<close> is what \<open>impl->attach\<close> of the view returns for this buffer.\<close>

definition view_attach :: "int \<Rightarrow> nat option \<Rightarrow> view \<Rightarrow> int \<times> view \<times> view_event list" where
  "view_attach ret b v =
     (if ret < 0 then (ret, v, [])
      else
        let retain = (case b of Some n \<Rightarrow> [View_reference n] | None \<Rightarrow> []);
            release = (case buffer v of Some n \<Rightarrow> [View_unreference n] | None \<Rightarrow> []);
            v' = v\<lparr>buffer := b\<rparr>
        in (0, v', retain @ release @ HANDLE has_attach On_attach v'))"

definition view_set_position :: "int \<Rightarrow> int \<Rightarrow> view \<Rightarrow> bool \<times> view \<times> view_event list" where
  "view_set_position x y v =
     (if x = rect_x (geometry v) \<and> y = rect_y (geometry v) then (False, v, [])
      else
        let v' = v\<lparr>geometry := (geometry v)\<lparr>rect_x := x, rect_y := y\<rparr>\<rparr>
        in (True, v', HANDLE has_move On_move v'))"

definition view_set_size :: "int \<Rightarrow> int \<Rightarrow> view \<Rightarrow> bool \<times> view \<times> view_event list" where
  "view_set_size width height v =
     (if rect_width (geometry v) = width \<and> rect_height (geometry v) = height
      then (False, v, [])
      else
        let old_width = rect_width (geometry v); old_height = rect_height (geometry v);
            v' = v\<lparr>geometry := (geometry v)\<lparr>rect_width := width, rect_height := height\<rparr>\<rparr>
        in (True, v', HANDLE has_resize (\<lambda>h. On_resize h old_width old_height) v'))"

definition view_set_size_from_buffer ::
  "wld_buffer option \<Rightarrow> view \<Rightarrow> bool \<times> view \<times> view_event list" where
  "view_set_size_from_buffer b v =
     view_set_size (case b of Some w \<Rightarrow> buf_width w | None \<Rightarrow> 0)
       (case b of Some w \<Rightarrow> buf_height w | None \<Rightarrow> 0) v"

definition view_set_screens :: "mask \<Rightarrow> view \<Rightarrow> view \<times> view_event list" where
  "view_set_screens screens v =
     (if view_screens v = screens then (v, [])
      else
        let entered = screens AND NOT (view_screens v);
            left = view_screens v AND NOT screens;
            v' = v\<lparr>view_screens := screens\<rparr>
        in (v', HANDLE has_screens (\<lambda>h. On_screens h entered left) v'))"

fun overlapping_screens :: "swc_rectangle \<Rightarrow> screen list \<Rightarrow> mask \<Rightarrow> mask" where
  "overlapping_screens g [] acc = acc"
| "overlapping_screens g (s # ss) acc =
     overlapping_screens g ss
       (if rectangle_overlap (screen_geometry s) g then acc OR screen_mask s else acc)"

definition view_update_screens :: "screen list \<Rightarrow> view \<Rightarrow> view \<times> view_event list" where
  "view_update_screens swc_screens v =
     view_set_screens (overlapping_screens (geometry v) swc_screens 0) v"

definition view_frame :: "int \<Rightarrow> view \<Rightarrow> view_event list" where
  "view_frame time v = HANDLE has_frame (\<lambda>h. On_frame h time) v"

subsection \<open>References to buffers\<close>

text \<open>
  The reference counts of the buffers along a sequence of events: \<open>None\<close> when a buffer is
  touched after its count has reached zero (it has been freed by then).
\<close>

fun run_refs :: "(nat \<Rightarrow> nat) \<Rightarrow> view_event list \<Rightarrow> (nat \<Rightarrow> nat) option" where
  "run_refs rc [] = Some rc"
| "run_refs rc (View_reference b # es) =
     (if rc b = 0 then None else run_refs (rc(b := rc b + 1)) es)"
| "run_refs rc (View_unreference b # es) =
     (if rc b = 0 then None else run_refs (rc(b := rc b - 1)) es)"
| "run_refs rc (_ # es) = run_refs rc es"

definition no_ref_event :: "view_event \<Rightarrow> bool" where
  "no_ref_event e \<longleftrightarrow> (\<forall>b. e \<noteq> View_reference b \<and> e \<noteq> View_unreference b)"

lemma run_refs_no_ref: "\<forall>e \<in> set es. no_ref_event e \<Longrightarrow> run_refs rc es = Some rc"
proof (induction es)
  case (Cons e es)
  then show ?case by (cases e) (auto simp: no_ref_event_def)
qed simp

lemma HANDLE_no_ref: "(\<And>h. no_ref_event (call h)) \<Longrightarrow> \<forall>e \<in> set (HANDLE m call v). no_ref_event e"
  by (auto simp: HANDLE_def)

lemma run_refs_attach [simp]: "run_refs rc (HANDLE has_attach On_attach v) = Some rc"
  by (intro run_refs_no_ref HANDLE_no_ref) (simp add: no_ref_event_def)

lemma overlapping_screens_bit:
  "bit (overlapping_screens g ss acc) n \<longleftrightarrow>
     bit acc n \<or> (n < 32 \<and> (\<exists>s \<in> set ss. screen_id s = n \<and> rectangle_overlap (screen_geometry s) g))"
  by (induction g ss acc rule: overlapping_screens.induct)
    (auto simp: screen_mask_def bit_simps)

section \<open>Properties\<close>

lemma share_pixel_commute: "share_pixel r1 r2 = share_pixel r2 r1"
  by (auto simp: share_pixel_def max.commute min.commute)

lemma rect_wf_spans:
  "rect_wf r \<Longrightarrow> in_s32 (rect_x r) \<and> in_u32 (rect_width r) \<and> rect_x r + rect_width r \<le> INT32_MAX"
  "rect_wf r \<Longrightarrow> in_s32 (rect_y r) \<and> in_u32 (rect_height r) \<and> rect_y r + rect_height r \<le> INT32_MAX"
  by (auto simp: rect_wf_def rect_typed_def)

lemma span_overlap_complete:
  assumes "in_s32 x1" "in_u32 w1" "x1 + w1 \<le> INT32_MAX"
    and "in_s32 x2" "in_u32 w2" "x2 + w2 \<le> INT32_MAX" and "w1 + w2 \<le> UINT32_MAX"
    and "max x1 x2 < min (x1 + w1) (x2 + w2)"
  shows "span_overlap x1 w1 x2 w2"
  using assms(8) unfolding span_overlap_eq [OF assms(1-7)]
  by (auto simp: picked_edge_def max_def min_def split: if_splits)

lemma span_overlap_exact:
  assumes "in_s32 x1" "in_u32 w1" "x1 + w1 \<le> INT32_MAX"
    and "in_s32 x2" "in_u32 w2" "x2 + w2 \<le> INT32_MAX" and "w1 + w2 \<le> UINT32_MAX"
    and "x1 + w1 < 0 \<longleftrightarrow> x2 + w2 < 0"
  shows "span_overlap x1 w1 x2 w2 \<longleftrightarrow> max x1 x2 < min (x1 + w1) (x2 + w2)"
  using assms(8) unfolding span_overlap_eq [OF assms(1-7)]
  by (auto simp: picked_edge_def max_def min_def)

lemma span_overlap_left_of_origin:
  assumes "in_s32 x1" "in_u32 w1" "x1 + w1 \<le> INT32_MAX"
    and "in_s32 x2" "in_u32 w2" "x2 + w2 \<le> INT32_MAX" and "w1 + w2 \<le> UINT32_MAX"
    and "x1 + w1 < 0" "x1 \<le> x2" "0 \<le> x2 + w2" "0 < w2"
  shows "span_overlap x1 w1 x2 w2"
  using assms(8-11) unfolding span_overlap_eq [OF assms(1-7)]
  by (auto simp: picked_edge_def)

text \<open>C15: the overlap test that decides which screens a view is on (\<open>view_update_screens\<close>)
  never misses an overlap, and it is exact whenever the far edges of the two rectangles are on
  the same side of the origin on each axis.\<close>

theorem rectangle_overlap_complete:
  assumes "rect_wf r1" "rect_wf r2"
    and "rect_width r1 + rect_width r2 \<le> UINT32_MAX"
    and "rect_height r1 + rect_height r2 \<le> UINT32_MAX"
  shows "(share_pixel r1 r2 \<longrightarrow> rectangle_overlap r1 r2) \<and>
    ((rect_x r1 + rect_width r1 < 0 \<longleftrightarrow> rect_x r2 + rect_width r2 < 0) \<and>
     (rect_y r1 + rect_height r1 < 0 \<longleftrightarrow> rect_y r2 + rect_height r2 < 0) \<longrightarrow>
       (rectangle_overlap r1 r2 \<longleftrightarrow> share_pixel r1 r2))"
proof -
  note s = rect_wf_spans [OF assms(1)] rect_wf_spans [OF assms(2)] assms(3,4)
  have "share_pixel r1 r2 \<Longrightarrow> rectangle_overlap r1 r2"
    unfolding share_pixel_def rectangle_overlap_def
    by (intro conjI span_overlap_complete) (use s in auto)
  moreover have "rectangle_overlap r1 r2 \<longleftrightarrow> share_pixel r1 r2"
    if "rect_x r1 + rect_width r1 < 0 \<longleftrightarrow> rect_x r2 + rect_width r2 < 0"
      and "rect_y r1 + rect_height r1 < 0 \<longleftrightarrow> rect_y r2 + rect_height r2 < 0"
    using s that by (simp add: share_pixel_def rectangle_overlap_def span_overlap_exact)
  ultimately show ?thesis by blast
qed

theorem rectangle_overlap_complete_witness:
  "rectangle_overlap (mk_rect 0 0 1920 1080) (mk_rect 1900 (-20) 400 300) \<and>
   \<not> rectangle_overlap (mk_rect 0 0 1920 1080) (mk_rect 1920 0 1280 1024)"
  using rectangle_overlap_complete [of "mk_rect 0 0 1920 1080" "mk_rect 1900 (-20) 400 300"]
    rectangle_overlap_complete [of "mk_rect 0 0 1920 1080" "mk_rect 1920 0 1280 1024"]
  by (simp add: rect_wf_def rect_typed_def in_s32_def in_u32_def share_pixel_def)

text \<open>C35: left of the origin the test is wrong.  A rectangle whose right edge is at a negative
  coordinate is reported to overlap every rectangle that starts no further left and reaches
  the origin, however far apart the two are: the negative edge, read as unsigned, wins the
  \<open>MAX\<close>, and the wrapped difference is just the first rectangle's width.  A window dragged off
  the left of the leftmost monitor therefore stays on that monitor's mask.\<close>

theorem rectangle_overlap_left_of_origin:
  assumes "rect_wf r1" "rect_wf r2"
    and "rect_width r1 + rect_width r2 \<le> UINT32_MAX"
    and "rect_height r1 + rect_height r2 \<le> UINT32_MAX"
    and "rect_x r1 + rect_width r1 < 0" "0 \<le> rect_x r2" "0 < rect_width r2"
    and "max (rect_y r1) (rect_y r2) < min (rect_y r1 + rect_height r1) (rect_y r2 + rect_height r2)"
  shows "rectangle_overlap r1 r2 \<and> \<not> share_pixel r1 r2"
proof -
  note s = rect_wf_spans [OF assms(1)] rect_wf_spans [OF assms(2)] assms(3-8)
  have "span_overlap (rect_x r1) (rect_width r1) (rect_x r2) (rect_width r2)"
    by (rule span_overlap_left_of_origin) (use s in \<open>auto simp: in_u32_def\<close>)
  moreover have "span_overlap (rect_y r1) (rect_height r1) (rect_y r2) (rect_height r2)"
    by (rule span_overlap_complete) (use s in auto)
  ultimately show ?thesis
    using assms(5,6) by (auto simp: rectangle_overlap_def share_pixel_def)
qed

theorem rectangle_overlap_left_of_origin_witness:
  "rectangle_overlap (mk_rect (-300) 0 200 600) (mk_rect 0 0 1920 1080) \<and>
   \<not> share_pixel (mk_rect (-300) 0 200 600) (mk_rect 0 0 1920 1080)"
  by (rule rectangle_overlap_left_of_origin)
    (simp_all add: rect_wf_def rect_typed_def in_s32_def in_u32_def)

text \<open>containment is half open, so two rectangles that adjoin tile: a point of the
  rectangle they make up together is in exactly one of them.  No pixel of a row of monitors
  is on none, and none is on two.\<close>

theorem contains_point_tiles:
  assumes "rect_wf (mk_rect a b (w1 + w2) h)" "in_s32 (w1 + w2)" "in_s32 h" "0 \<le> w1" "0 \<le> w2"
    and "rectangle_contains_point (mk_rect a b (w1 + w2) h) x y"
  shows "rectangle_contains_point (mk_rect a b w1 h) x y \<noteq>
    rectangle_contains_point (mk_rect (a + w1) b w2 h) x y"
proof -
  have "s32 (w1 + w2) = w1 + w2" "s32 w1 = w1" "s32 w2 = w2" "s32 h = h"
    using assms by (auto intro!: s32_id simp: in_s32_def)
  then show ?thesis
    using assms by (auto simp: rectangle_contains_point_def)
qed

theorem contains_point_tiles_witness:
  "rectangle_contains_point (mk_rect 0 0 1920 1080) 1920 5 \<noteq>
   rectangle_contains_point (mk_rect 1920 0 1280 1080) 1920 5"
  using contains_point_tiles [of 0 0 1920 1280 1080 1920 5]
  by (simp add: rect_wf_def rect_typed_def in_s32_def in_u32_def rectangle_contains_point_def s32_def)

text \<open>attaching a buffer keeps the reference counts: as long as the caller and the view
  hold their references, no buffer is touched after its count reached zero, the new buffer
  ends up with the view's reference added and the old one with it dropped, and attaching the
  buffer the view already has leaves every count as it was.\<close>

theorem view_attach_refs:
  assumes "0 \<le> ret" and "\<And>b'. b = Some b' \<Longrightarrow> 0 < rc b'"
    and "\<And>b'. buffer v = Some b' \<Longrightarrow> 0 < rc b'"
  shows "\<exists>rc'. run_refs rc (snd (snd (view_attach ret b v))) = Some rc' \<and>
    buffer (fst (snd (view_attach ret b v))) = b \<and>
    (\<forall>n. rc' n + (if buffer v = Some n then 1 else 0) = rc n + (if b = Some n then 1 else 0))"
  using assms
  by (cases b; cases "buffer v") (auto simp: view_attach_def Let_def)

theorem view_attach_refs_witness:
  "\<exists>rc'. run_refs (\<lambda>_. 1) (snd (snd (view_attach 0 (Some 3) (view_initialize\<lparr>buffer := Some 3\<rparr>)))) =
     Some rc' \<and> rc' 3 = 1"
  using view_attach_refs [of 0 "Some 3" "\<lambda>_. 1" "view_initialize\<lparr>buffer := Some 3\<rparr>"]
  by (auto simp: view_initialize_def)

text \<open>the mask a view ends up with has exactly the bits of the screens the overlap test
  accepts, and what the handlers are told is the difference: the bits entered were not set
  before and are now, the bits left were and are not, and nobody is told anything when the
  mask stays the same.\<close>

theorem view_update_screens_mask:
  "\<forall>v' events. view_update_screens ss v = (v', events) \<longrightarrow>
     (\<forall>n. bit (view_screens v') n \<longleftrightarrow>
        n < 32 \<and> (\<exists>s \<in> set ss. screen_id s = n \<and>
          rectangle_overlap (screen_geometry s) (geometry v))) \<and>
     (if view_screens v' = view_screens v then events = []
      else events = HANDLE has_screens (\<lambda>h. On_screens h
        (view_screens v' AND NOT (view_screens v)) (view_screens v AND NOT (view_screens v'))) v')"
  by (auto simp: view_update_screens_def view_set_screens_def overlapping_screens_bit Let_def)

theorem view_update_screens_mask_witness:
  "view_update_screens [] view_initialize = (view_initialize, []) \<and>
   \<not> bit (view_screens view_initialize) 0"
proof -
  have e: "view_update_screens [] view_initialize = (view_initialize, [])"
    by (simp add: view_update_screens_def view_set_screens_def view_initialize_def)
  then show ?thesis
    using view_update_screens_mask [of "[]" view_initialize] by simp
qed

end
