(* ===== verification/Positioner.thy ===== *)
theory Positioner
  imports Geometry
begin

text \<open>
  \<open>xdg_positioner\<close> of \<open>libswc/xdg_shell.c\<close>: the requests that fill it in, the position it
  asks for, and \<open>calculate_position\<close>, which flips, slides and resizes a popup until it is on
  the screen.

  The anchor and the gravity are what the client sent; the code only ever switches over the
  values the protocol names, so any other value is \<open>Other\<close>.  The constraint adjustment is
  the set of its bits.  The arithmetic of the code is on \<open>int64_t\<close> and every operand is a
  32-bit value, so it is exact.
\<close>

section \<open>State\<close>

datatype place = No_place | Top | Bottom | Left | Right | Top_Left | Bottom_Left | Top_Right
  | Bottom_Right | Other nat

datatype adjustment = SLIDE_X | SLIDE_Y | FLIP_X | FLIP_Y | RESIZE_X | RESIZE_Y

record xdg_positioner =
  width :: int
  height :: int
  anchor_x :: int
  anchor_y :: int
  anchor_width :: int
  anchor_height :: int
  has_anchor_rect :: bool
  anchor :: place
  gravity :: place
  constraint :: "adjustment set"
  offset_x :: int
  offset_y :: int
  reactive :: bool
  has_parent_size :: bool
  parent_width :: int
  parent_height :: int
  has_parent_configure :: bool
  parent_configure :: int

text \<open>\<open>calloc\<close>: what \<open>create_positioner\<close> starts from.\<close>

definition positioner_zero :: xdg_positioner where
  "positioner_zero = \<lparr>width = 0, height = 0, anchor_x = 0, anchor_y = 0, anchor_width = 0,
     anchor_height = 0, has_anchor_rect = False, anchor = No_place, gravity = No_place,
     constraint = {}, offset_x = 0, offset_y = 0, reactive = False, has_parent_size = False,
     parent_width = 0, parent_height = 0, has_parent_configure = False, parent_configure = 0\<rparr>"

section \<open>Requests\<close>

text \<open>A request either posts \<open>XDG_POSITIONER_ERROR_INVALID_INPUT\<close> or changes the positioner.\<close>

datatype positioner_error = INVALID_INPUT

type_synonym positioner_result = "positioner_error + xdg_positioner"

definition set_size :: "int \<Rightarrow> int \<Rightarrow> xdg_positioner \<Rightarrow> positioner_result" where
  "set_size w h p =
     (if w \<le> 0 \<or> h \<le> 0 then Inl INVALID_INPUT else Inr (p\<lparr>width := w, height := h\<rparr>))"

definition set_anchor_rect ::
  "int \<Rightarrow> int \<Rightarrow> int \<Rightarrow> int \<Rightarrow> xdg_positioner \<Rightarrow> positioner_result" where
  "set_anchor_rect x y w h p =
     (if w < 0 \<or> h < 0 then Inl INVALID_INPUT
      else Inr (p\<lparr>has_anchor_rect := True, anchor_x := x, anchor_y := y,
        anchor_width := w, anchor_height := h\<rparr>))"

definition set_anchor :: "place \<Rightarrow> xdg_positioner \<Rightarrow> positioner_result" where
  "set_anchor a p = Inr (p\<lparr>anchor := a\<rparr>)"

definition set_gravity :: "place \<Rightarrow> xdg_positioner \<Rightarrow> positioner_result" where
  "set_gravity g p = Inr (p\<lparr>gravity := g\<rparr>)"

definition set_constraint_adjustment :: "adjustment set \<Rightarrow> xdg_positioner \<Rightarrow> positioner_result" where
  "set_constraint_adjustment c p = Inr (p\<lparr>constraint := c\<rparr>)"

definition set_offset :: "int \<Rightarrow> int \<Rightarrow> xdg_positioner \<Rightarrow> positioner_result" where
  "set_offset x y p = Inr (p\<lparr>offset_x := x, offset_y := y\<rparr>)"

definition set_reactive :: "xdg_positioner \<Rightarrow> positioner_result" where
  "set_reactive p = Inr (p\<lparr>reactive := True\<rparr>)"

definition set_parent_size :: "int \<Rightarrow> int \<Rightarrow> xdg_positioner \<Rightarrow> positioner_result" where
  "set_parent_size w h p =
     (if w < 0 \<or> h < 0 then Inl INVALID_INPUT
      else Inr (p\<lparr>has_parent_size := True, parent_width := w, parent_height := h\<rparr>))"

definition set_parent_configure :: "int \<Rightarrow> xdg_positioner \<Rightarrow> positioner_result" where
  "set_parent_configure serial p =
     Inr (p\<lparr>has_parent_configure := True, parent_configure := serial\<rparr>)"

section \<open>The position asked for\<close>

definition unadjusted_position :: "xdg_positioner \<Rightarrow> swc_rectangle" where
  "unadjusted_position p =
     (let x = offset_x p; y = offset_y p;
          y = (if anchor p \<in> {Top, Top_Left, Top_Right} then y + anchor_y p
               else if anchor p \<in> {Bottom, Bottom_Left, Bottom_Right}
                 then y + (anchor_y p + anchor_height p)
               else y + (anchor_y p + cdiv (anchor_height p) 2));
          x = (if anchor p \<in> {Left, Top_Left, Bottom_Left} then x + anchor_x p
               else if anchor p \<in> {Right, Top_Right, Bottom_Right}
                 then x + (anchor_x p + anchor_width p)
               else x + (anchor_x p + cdiv (anchor_width p) 2));
          y = (if gravity p \<in> {Top, Top_Left, Top_Right} then y - height p
               else if gravity p \<in> {Bottom, Bottom_Left, Bottom_Right} then y
               else y - cdiv (height p) 2);
          x = (if gravity p \<in> {Left, Top_Left, Bottom_Left} then x - width p
               else if gravity p \<in> {Right, Top_Right, Bottom_Right} then x
               else x - cdiv (width p) 2)
      in mk_rect (clamp_s32 x) (clamp_s32 y) (u32 (width p)) (u32 (height p)))"

fun anchor_flip_x :: "place \<Rightarrow> place" where
  "anchor_flip_x Left = Right"
| "anchor_flip_x Right = Left"
| "anchor_flip_x Top_Left = Top_Right"
| "anchor_flip_x Top_Right = Top_Left"
| "anchor_flip_x Bottom_Left = Bottom_Right"
| "anchor_flip_x Bottom_Right = Bottom_Left"
| "anchor_flip_x a = a"

fun anchor_flip_y :: "place \<Rightarrow> place" where
  "anchor_flip_y Top = Bottom"
| "anchor_flip_y Bottom = Top"
| "anchor_flip_y Top_Left = Bottom_Left"
| "anchor_flip_y Bottom_Left = Top_Left"
| "anchor_flip_y Top_Right = Bottom_Right"
| "anchor_flip_y Bottom_Right = Top_Right"
| "anchor_flip_y a = a"

fun gravity_flip_x :: "place \<Rightarrow> place" where
  "gravity_flip_x Left = Right"
| "gravity_flip_x Right = Left"
| "gravity_flip_x Top_Left = Top_Right"
| "gravity_flip_x Top_Right = Top_Left"
| "gravity_flip_x Bottom_Left = Bottom_Right"
| "gravity_flip_x Bottom_Right = Bottom_Left"
| "gravity_flip_x g = g"

fun gravity_flip_y :: "place \<Rightarrow> place" where
  "gravity_flip_y Top = Bottom"
| "gravity_flip_y Bottom = Top"
| "gravity_flip_y Top_Left = Bottom_Left"
| "gravity_flip_y Bottom_Left = Top_Left"
| "gravity_flip_y Top_Right = Bottom_Right"
| "gravity_flip_y Bottom_Right = Top_Right"
| "gravity_flip_y g = g"

section \<open>Fitting the popup on the screen\<close>

text \<open>
  The parent view enters with its geometry and the mask of screens it is on.  \<open>None\<close> is the
  code's \<open>false\<close>: there is no screen, or its geometry is empty.
\<close>

fun find_screen :: "(screen \<Rightarrow> bool) \<Rightarrow> screen list \<Rightarrow> screen option" where
  "find_screen P [] = None"
| "find_screen P (s # ss) = (if P s then Some s else find_screen P ss)"

definition constraint_box ::
  "xdg_positioner \<Rightarrow> swc_rectangle \<Rightarrow> mask \<Rightarrow> screen list \<Rightarrow> swc_rectangle option" where
  "constraint_box p parent_geometry parent_screens swc_screens =
     (let x = clamp_s32 (rect_x parent_geometry + anchor_x p + cdiv (anchor_width p) 2);
          y = clamp_s32 (rect_y parent_geometry + anchor_y p + cdiv (anchor_height p) 2);
          found = find_screen (\<lambda>s. rectangle_contains_point (screen_geometry s) x y) swc_screens;
          found = (case found of Some s \<Rightarrow> Some s
            | None \<Rightarrow> find_screen (\<lambda>s. has parent_screens (screen_mask s)) swc_screens);
          found = (case found of Some s \<Rightarrow> Some s
            | None \<Rightarrow> (case swc_screens of s # _ \<Rightarrow> Some s | [] \<Rightarrow> None))
      in case found of None \<Rightarrow> None
         | Some s \<Rightarrow>
             (let box = usable_geometry s;
                  box = (if rect_width box = 0 \<or> rect_height box = 0 then screen_geometry s else box)
              in if rect_width box > 0 \<and> rect_height box > 0 then Some box else None))"

definition fits :: "int \<Rightarrow> int \<Rightarrow> int \<Rightarrow> int \<Rightarrow> bool" where
  "fits position sz mn mx \<longleftrightarrow> position \<ge> mn \<and> position + sz \<le> mx"

text \<open>\<open>if (x + w > max) x = max - w; if (x < min) x = min;\<close>\<close>

definition slide_into :: "int \<Rightarrow> int \<Rightarrow> int \<Rightarrow> int \<Rightarrow> int" where
  "slide_into x w mn mx =
     (let x = (if x + w > mx then mx - w else x) in if x < mn then mn else x)"

definition resize_into :: "int \<Rightarrow> int \<Rightarrow> int \<Rightarrow> int \<Rightarrow> int \<times> int" where
  "resize_into x w mn mx =
     (let (x, w) = (if x < mn then (mn, w - (mn - x)) else (x, w));
          w = (if x + w > mx then mx - x else w);
          w = (if w < 1 then 1 else w)
      in (x, w))"

text \<open>
  The steps for one axis, which the code writes out for \<open>x\<close> and again for \<open>y\<close>: flip, slide,
  resize, and the slide that happens regardless.  The three booleans are the bits of
  \<open>constraint\<close>, \<open>candidate\<close> the coordinate of the flipped positioner.
\<close>

definition constrain_axis ::
  "bool \<Rightarrow> bool \<Rightarrow> bool \<Rightarrow> int \<Rightarrow> int \<Rightarrow> int \<Rightarrow> int \<Rightarrow> int \<Rightarrow> int \<times> int" where
  "constrain_axis flip slide resize candidate mn mx x w =
     (let x = (if \<not> fits x w mn mx \<and> flip \<and> fits candidate w mn mx then candidate else x);
          x = (if \<not> fits x w mn mx \<and> slide then slide_into x w mn mx else x);
          (x, w) =
            (if \<not> fits x w mn mx \<and> resize
             then resize_into x w mn mx else (x, w))
      in (slide_into x w mn mx, w))"

text \<open>\<open>parent\<close> is \<open>None\<close> for the code's null parent.\<close>

definition calculate_position ::
  "xdg_positioner \<Rightarrow> (swc_rectangle \<times> mask) option \<Rightarrow> screen list \<Rightarrow> swc_rectangle" where
  "calculate_position p parent swc_screens =
     (let rect = unadjusted_position p in
      case parent of None \<Rightarrow> rect
      | Some (parent_geometry, parent_screens) \<Rightarrow>
          if rect_width rect = 0 \<or> rect_height rect = 0 then rect
          else case constraint_box p parent_geometry parent_screens swc_screens of None \<Rightarrow> rect
          | Some box \<Rightarrow>
              (let px = rect_x parent_geometry; py = rect_y parent_geometry;
                   flipped_x = p\<lparr>anchor := anchor_flip_x (anchor p),
                     gravity := gravity_flip_x (gravity p)\<rparr>;
                   flipped_y = p\<lparr>anchor := anchor_flip_y (anchor p),
                     gravity := gravity_flip_y (gravity p)\<rparr>;
                   (x, w) = constrain_axis (FLIP_X \<in> constraint p) (SLIDE_X \<in> constraint p)
                     (RESIZE_X \<in> constraint p) (px + rect_x (unadjusted_position flipped_x))
                     (rect_x box) (rect_x box + rect_width box)
                     (px + rect_x rect) (rect_width rect);
                   (y, h) = constrain_axis (FLIP_Y \<in> constraint p) (SLIDE_Y \<in> constraint p)
                     (RESIZE_Y \<in> constraint p) (py + rect_y (unadjusted_position flipped_y))
                     (rect_y box) (rect_y box + rect_height box)
                     (py + rect_y rect) (rect_height rect)
               in mk_rect (clamp_s32 (x - px)) (clamp_s32 (y - py)) (u32 w) (u32 h)))"

section \<open>Lemmas\<close>

text \<open>
  What the requests keep true: sizes are not negative, and every coordinate is a 32-bit value.
\<close>

definition positioner_wf :: "xdg_positioner \<Rightarrow> bool" where
  "positioner_wf p \<longleftrightarrow> 0 \<le> width p \<and> width p \<le> INT32_MAX \<and> 0 \<le> height p \<and> height p \<le> INT32_MAX \<and>
     in_s32 (anchor_x p) \<and> in_s32 (anchor_y p) \<and>
     0 \<le> anchor_width p \<and> anchor_width p \<le> INT32_MAX \<and>
     0 \<le> anchor_height p \<and> anchor_height p \<le> INT32_MAX \<and>
     in_s32 (offset_x p) \<and> in_s32 (offset_y p)"

datatype positioner_request =
    Set_size int int | Set_anchor_rect int int int int | Set_anchor place | Set_gravity place
  | Set_constraint_adjustment "adjustment set" | Set_offset int int | Set_reactive
  | Set_parent_size int int | Set_parent_configure int

fun positioner_step :: "positioner_request \<Rightarrow> xdg_positioner \<Rightarrow> positioner_result" where
  "positioner_step (Set_size w h) p = set_size w h p"
| "positioner_step (Set_anchor_rect x y w h) p = set_anchor_rect x y w h p"
| "positioner_step (Set_anchor a) p = set_anchor a p"
| "positioner_step (Set_gravity g) p = set_gravity g p"
| "positioner_step (Set_constraint_adjustment c) p = set_constraint_adjustment c p"
| "positioner_step (Set_offset x y) p = set_offset x y p"
| "positioner_step Set_reactive p = set_reactive p"
| "positioner_step (Set_parent_size w h) p = set_parent_size w h p"
| "positioner_step (Set_parent_configure s) p = set_parent_configure s p"

lemmas positioner_requests =
  set_size_def set_anchor_rect_def set_anchor_def set_gravity_def set_constraint_adjustment_def
  set_offset_def set_reactive_def set_parent_size_def set_parent_configure_def

text \<open>The arguments of a request are \<open>int32_t\<close> values.\<close>

fun request_typed :: "positioner_request \<Rightarrow> bool" where
  "request_typed (Set_size w h) \<longleftrightarrow> in_s32 w \<and> in_s32 h"
| "request_typed (Set_anchor_rect x y w h) \<longleftrightarrow> in_s32 x \<and> in_s32 y \<and> in_s32 w \<and> in_s32 h"
| "request_typed (Set_offset x y) \<longleftrightarrow> in_s32 x \<and> in_s32 y"
| "request_typed (Set_parent_size w h) \<longleftrightarrow> in_s32 w \<and> in_s32 h"
| "request_typed _ \<longleftrightarrow> True"

fun positioner_run :: "positioner_request list \<Rightarrow> xdg_positioner \<Rightarrow> positioner_result" where
  "positioner_run [] p = Inr p"
| "positioner_run (r # rs) p =
     (case positioner_step r p of Inl e \<Rightarrow> Inl e | Inr p' \<Rightarrow> positioner_run rs p')"

lemma positioner_wf_zero: "positioner_wf positioner_zero"
  by (simp add: positioner_wf_def positioner_zero_def in_s32_def)

lemma positioner_step_wf:
  "positioner_wf p \<Longrightarrow> request_typed r \<Longrightarrow> positioner_step r p = Inr p' \<Longrightarrow> positioner_wf p'"
  by (cases r; clarsimp simp: positioner_requests positioner_wf_def in_s32_max split: if_splits)

lemma positioner_run_wf:
  "positioner_wf p \<Longrightarrow> \<forall>r \<in> set rs. request_typed r \<Longrightarrow> positioner_run rs p = Inr p' \<Longrightarrow>
     positioner_wf p'"
proof (induction rs arbitrary: p)
  case (Cons r rs)
  then show ?case
    by (auto split: sum.splits dest: positioner_step_wf)
qed simp

lemma anchor_flip_involutive [simp]:
  "anchor_flip_x (anchor_flip_x a) = a" "anchor_flip_y (anchor_flip_y a) = a"
  "gravity_flip_x (gravity_flip_x a) = a" "gravity_flip_y (gravity_flip_y a) = a"
  by (cases a; simp)+

lemma anchor_flip_commute: "anchor_flip_x (anchor_flip_y a) = anchor_flip_y (anchor_flip_x a)"
  by (cases a) simp_all

lemma slide_into_min: "mn \<le> slide_into x w mn mx"
  by (simp add: slide_into_def Let_def)

lemma slide_into_max: "w \<le> mx - mn \<Longrightarrow> slide_into x w mn mx + w \<le> mx"
  by (simp add: slide_into_def Let_def)

lemma slide_into_wide: "mx - mn \<le> w \<Longrightarrow> slide_into x w mn mx = mn"
  by (simp add: slide_into_def Let_def)

lemmas slide_into_bounds = slide_into_min slide_into_max slide_into_wide

lemma slide_into_id: "fits x w mn mx \<Longrightarrow> slide_into x w mn mx = x"
  by (simp add: slide_into_def fits_def)

lemma constrain_axis_fits:
  "fits x w mn mx \<Longrightarrow> constrain_axis fl sl re c mn mx x w = (x, w)"
  by (simp add: constrain_axis_def slide_into_id)

lemma constrain_axis_flip:
  "\<not> fits x w mn mx \<Longrightarrow> fits c w mn mx \<Longrightarrow> constrain_axis True sl re c mn mx x w = (c, w)"
  by (simp add: constrain_axis_def slide_into_id)

lemma resize_into_bounds:
  assumes "resize_into x w mn mx = (x', w')" and "mn < mx" and "1 \<le> w"
  shows "1 \<le> w'" "w' \<le> w" "w' \<le> mx - mn"
  using assms by (auto simp: resize_into_def Let_def split: if_splits)

lemma constrain_axis_eq:
  "\<exists>y. constrain_axis fl sl re c mn mx x w =
     (case (if \<not> fits y w mn mx \<and> re then resize_into y w mn mx else (y, w)) of
        (x', w') \<Rightarrow> (slide_into x' w' mn mx, w'))"
  unfolding constrain_axis_def Let_def by (rule exI, rule refl)

lemma constrain_axis_visible:
  assumes "constrain_axis fl sl re c mn mx x w = (x', w')" and "mn < mx" and "1 \<le> w"
  shows "mn \<le> x' \<and> 1 \<le> w' \<and> w' \<le> w \<and> (w \<le> mx - mn \<or> re \<longrightarrow> x' + w' \<le> mx) \<and>
    (x' + w' \<le> mx \<or> x' = mn)"
proof -
  obtain y where y: "(case (if \<not> fits y w mn mx \<and> re then resize_into y w mn mx else (y, w)) of
      (x', w') \<Rightarrow> (slide_into x' w' mn mx, w')) = (x', w')"
    using constrain_axis_eq [of fl sl re c mn mx x w] assms(1) by auto
  show ?thesis
  proof (cases "\<not> fits y w mn mx \<and> re")
    case True
    then obtain z where z: "resize_into y w mn mx = (z, w')" "x' = slide_into z w' mn mx"
      using y by (auto split: prod.splits)
    show ?thesis
      using resize_into_bounds [OF z(1) assms(2,3)] z(2) slide_into_min slide_into_max by simp
  next
    case False
    then have "x' = slide_into y w mn mx" "w' = w" and "re \<Longrightarrow> w \<le> mx - mn"
      using y by (auto simp: fits_def)
    then show ?thesis
      using assms(2,3) slide_into_min slide_into_max slide_into_wide [of mx mn w y]
      by (cases "w \<le> mx - mn") auto
  qed
qed

text \<open>Coordinates far enough from the ends of \<open>int32_t\<close> for differences to be coordinates.\<close>

definition desktop :: "int \<Rightarrow> bool" where
  "desktop c \<longleftrightarrow> - 1073741823 \<le> c \<and> c \<le> 1073741823"

lemma axis_result:
  assumes "constrain_axis fl sl re c mn mx x w = (x', w')" and "mn < mx" "1 \<le> w" "w \<le> UINT32_MAX"
    and "desktop mn" "desktop mx" "desktop q"
  shows "q + clamp_s32 (x' - q) = x'" "u32 w' = w'"
proof -
  note v = constrain_axis_visible [OF assms(1-3)]
  have "x' \<le> mx" using v assms(2) by auto
  then have "in_s32 (x' - q)" using v assms(5-7) by (auto simp: desktop_def in_s32_def)
  then show "q + clamp_s32 (x' - q) = x'" by (simp add: clamp_s32_id)
  show "u32 w' = w'" using v assms(4) by (intro u32_id) (auto simp: in_u32_def)
qed

lemma unadjusted_size:
  "positioner_wf p \<Longrightarrow> rect_width (unadjusted_position p) = width p"
  "positioner_wf p \<Longrightarrow> rect_height (unadjusted_position p) = height p"
  by (auto simp: unadjusted_position_def positioner_wf_def Let_def in_u32_def intro!: u32_id)

lemma constraint_box_Some:
  "constraint_box p g m ss = Some box \<Longrightarrow> 0 < rect_width box \<and> 0 < rect_height box"
  unfolding constraint_box_def Let_def by (auto split: option.splits if_splits)

text \<open>The two coordinates of the position, in closed form.\<close>

definition edge_x :: "place \<Rightarrow> int \<Rightarrow> int \<Rightarrow> int" where
  "edge_x a x w = (if a \<in> {Left, Top_Left, Bottom_Left} then x
     else if a \<in> {Right, Top_Right, Bottom_Right} then x + w else x + cdiv w 2)"

definition hang_x :: "place \<Rightarrow> int \<Rightarrow> int" where
  "hang_x g w = (if g \<in> {Left, Top_Left, Bottom_Left} then w
     else if g \<in> {Right, Top_Right, Bottom_Right} then 0 else cdiv w 2)"

lemma unadjusted_x:
  "rect_x (unadjusted_position p) = clamp_s32 (offset_x p +
     edge_x (anchor p) (anchor_x p) (anchor_width p) - hang_x (gravity p) (width p))"
  by (simp only: unadjusted_position_def Let_def mk_rect_sel edge_x_def hang_x_def
      if_distrib [of "\<lambda>e. offset_x p + e"]) simp

definition x_sides :: "place set" where
  "x_sides = {Left, Right, Top_Left, Top_Right, Bottom_Left, Bottom_Right}"

lemma edge_x_flip:
  "a \<in> x_sides \<Longrightarrow> edge_x a x w + edge_x (anchor_flip_x a) x w = 2 * x + w"
  "a \<in> x_sides \<Longrightarrow> edge_x a x w = x \<or> edge_x a x w = x + w"
  by (auto simp: edge_x_def x_sides_def)

lemma hang_x_flip:
  "g \<in> x_sides \<Longrightarrow> hang_x g w + hang_x (gravity_flip_x g) w = w"
  "g \<in> x_sides \<Longrightarrow> hang_x g w = 0 \<or> hang_x g w = w"
  by (auto simp: hang_x_def x_sides_def)

definition edge_y :: "place \<Rightarrow> int \<Rightarrow> int \<Rightarrow> int" where
  "edge_y a y h = (if a \<in> {Top, Top_Left, Top_Right} then y
     else if a \<in> {Bottom, Bottom_Left, Bottom_Right} then y + h else y + cdiv h 2)"

definition hang_y :: "place \<Rightarrow> int \<Rightarrow> int" where
  "hang_y g h = (if g \<in> {Top, Top_Left, Top_Right} then h
     else if g \<in> {Bottom, Bottom_Left, Bottom_Right} then 0 else cdiv h 2)"

lemma unadjusted_y:
  "rect_y (unadjusted_position p) = clamp_s32 (offset_y p +
     edge_y (anchor p) (anchor_y p) (anchor_height p) - hang_y (gravity p) (height p))"
  by (simp only: unadjusted_position_def Let_def mk_rect_sel edge_y_def hang_y_def
      if_distrib [of "\<lambda>e. offset_y p + e"]) simp

lemma flip_x_keeps_y:
  "edge_y (anchor_flip_x a) y h = edge_y a y h" "hang_y (gravity_flip_x a) h = hang_y a h"
  by (cases a; simp add: edge_y_def hang_y_def)+

lemma unadjusted_y_flip_x:
  assumes "q = p\<lparr>anchor := anchor_flip_x (anchor p), gravity := gravity_flip_x (gravity p)\<rparr>"
  shows "rect_y (unadjusted_position q) = rect_y (unadjusted_position p)"
  by (simp add: assms unadjusted_y flip_x_keeps_y)

section \<open>Properties\<close>

text \<open>C40: whatever requests a client makes of a fresh positioner, in whatever order, either one
  of them is refused with an invalid-input error or the positioner stays well formed: sizes
  are not negative and every field is a value of its C type, so that the 64-bit sums of
  \<open>unadjusted_position\<close> cannot overflow.\<close>

theorem positioner_requests_wf:
  assumes "\<forall>r \<in> set rs. request_typed r" and "positioner_run rs positioner_zero = Inr p"
  shows "positioner_wf p \<and> rect_typed (unadjusted_position p)"
proof -
  have "positioner_wf p"
    using positioner_run_wf [OF positioner_wf_zero assms] .
  moreover have "rect_typed (unadjusted_position p)"
    by (simp add: unadjusted_position_def Let_def rect_typed_def)
  ultimately show ?thesis by blast
qed

theorem positioner_requests_wf_witness:
  "\<exists>p. positioner_run [Set_size 200 300, Set_anchor_rect 10 20 0 0, Set_anchor Bottom_Left,
     Set_gravity Bottom_Right] positioner_zero = Inr p \<and> positioner_wf p"
proof -
  let ?rs = "[Set_size 200 300, Set_anchor_rect 10 20 0 0, Set_anchor Bottom_Left,
     Set_gravity Bottom_Right]"
  obtain p where p: "positioner_run ?rs positioner_zero = Inr p"
    by (simp add: positioner_requests)
  have "\<forall>r \<in> set ?rs. request_typed r" by (simp add: in_s32_def)
  from positioner_requests_wf [OF this p] p show ?thesis by blast
qed

text \<open>C39: a popup always ends up on the screen.  In global coordinates its left and top edges
  are inside the constraint box; where the requested size fits the box, or the client allowed
  resizing, the far edges are inside as well; a popup that is wider or higher than the box
  keeps its left or top edge exactly at the edge of the box.  It is never enlarged and never
  vanishes.\<close>

theorem popup_on_screen:
  assumes "positioner_wf p" "1 \<le> width p" "1 \<le> height p"
    and "constraint_box p g m ss = Some box"
    and "desktop (rect_x g)" "desktop (rect_y g)"
    and "desktop (rect_x box)" "desktop (rect_x box + rect_width box)"
    and "desktop (rect_y box)" "desktop (rect_y box + rect_height box)"
    and "r = calculate_position p (Some (g, m)) ss"
  shows "rect_x box \<le> rect_x g + rect_x r \<and> rect_y box \<le> rect_y g + rect_y r \<and>
    1 \<le> rect_width r \<and> rect_width r \<le> width p \<and> 1 \<le> rect_height r \<and> rect_height r \<le> height p \<and>
    (width p \<le> rect_width box \<or> RESIZE_X \<in> constraint p \<longrightarrow>
       rect_x g + rect_x r + rect_width r \<le> rect_x box + rect_width box) \<and>
    (height p \<le> rect_height box \<or> RESIZE_Y \<in> constraint p \<longrightarrow>
       rect_y g + rect_y r + rect_height r \<le> rect_y box + rect_height box) \<and>
    (rect_x box + rect_width box < rect_x g + rect_x r + rect_width r \<longrightarrow>
       rect_x g + rect_x r = rect_x box) \<and>
    (rect_y box + rect_height box < rect_y g + rect_y r + rect_height r \<longrightarrow>
       rect_y g + rect_y r = rect_y box)"
proof -
  note size = unadjusted_size [OF assms(1)] and box = constraint_box_Some [OF assms(4)]
  have u: "width p \<le> UINT32_MAX" "height p \<le> UINT32_MAX"
    using assms(1) by (auto simp: positioner_wf_def)
  obtain x w where x: "constrain_axis (FLIP_X \<in> constraint p) (SLIDE_X \<in> constraint p)
      (RESIZE_X \<in> constraint p) (rect_x g + rect_x (unadjusted_position
        (p\<lparr>anchor := anchor_flip_x (anchor p), gravity := gravity_flip_x (gravity p)\<rparr>)))
      (rect_x box) (rect_x box + rect_width box)
      (rect_x g + rect_x (unadjusted_position p)) (width p) = (x, w)"
    by fastforce
  obtain y h where y: "constrain_axis (FLIP_Y \<in> constraint p) (SLIDE_Y \<in> constraint p)
      (RESIZE_Y \<in> constraint p) (rect_y g + rect_y (unadjusted_position
        (p\<lparr>anchor := anchor_flip_y (anchor p), gravity := gravity_flip_y (gravity p)\<rparr>)))
      (rect_y box) (rect_y box + rect_height box)
      (rect_y g + rect_y (unadjusted_position p)) (height p) = (y, h)"
    by fastforce
  have r: "r = mk_rect (clamp_s32 (x - rect_x g)) (clamp_s32 (y - rect_y g)) (u32 w) (u32 h)"
    using assms(2-4,11) size x y by (simp add: calculate_position_def Let_def)
  have e: "rect_x box < rect_x box + rect_width box" "rect_y box < rect_y box + rect_height box"
    using box by auto
  note X = axis_result [OF x e(1) assms(2) u(1) assms(7,8,5)]
    and Y = axis_result [OF y e(2) assms(3) u(2) assms(9,10,6)]
  show ?thesis
    using constrain_axis_visible [OF x e(1) assms(2)] constrain_axis_visible [OF y e(2) assms(3)]
    unfolding r mk_rect_sel X Y by auto
qed

theorem popup_on_screen_witness:
  "\<exists>r. calculate_position
     (positioner_zero\<lparr>width := 300, height := 200, anchor := Bottom_Right, gravity := Bottom_Right,
        constraint := {SLIDE_X}, anchor_x := 900\<rparr>)
     (Some (mk_rect 100 100 1000 700, 1))
     [\<lparr>screen_id = 0, screen_geometry = mk_rect 0 0 1200 800, usable_geometry = mk_rect 0 0 1200 770\<rparr>] = r
     \<and> 100 + rect_x r + rect_width r \<le> 1200 \<and> 100 + rect_y r + rect_height r \<le> 770"
proof -
  let ?p = "positioner_zero\<lparr>width := 300, height := 200, anchor := Bottom_Right,
    gravity := Bottom_Right, constraint := {SLIDE_X}, anchor_x := 900\<rparr>"
  let ?ss = "[\<lparr>screen_id = 0, screen_geometry = mk_rect 0 0 1200 800,
    usable_geometry = mk_rect 0 0 1200 770\<rparr>]"
  have b: "constraint_box ?p (mk_rect 100 100 1000 700) 1 ?ss = Some (mk_rect 0 0 1200 770)"
    by (simp add: constraint_box_def positioner_zero_def rectangle_contains_point_def
        clamp_s32_def cdiv_def s32_def)
  show ?thesis
    using popup_on_screen [OF _ _ _ b]
    by (simp add: positioner_wf_def positioner_zero_def in_s32_def desktop_def)
qed

text \<open>a popup that already fits is left where the client asked for it, whatever
  adjustments it allows.\<close>

theorem popup_unconstrained:
  assumes "positioner_wf p" "1 \<le> width p" "1 \<le> height p"
    and "constraint_box p g m ss = Some box"
    and "fits (rect_x g + rect_x (unadjusted_position p)) (width p)
           (rect_x box) (rect_x box + rect_width box)"
    and "fits (rect_y g + rect_y (unadjusted_position p)) (height p)
           (rect_y box) (rect_y box + rect_height box)"
  shows "calculate_position p (Some (g, m)) ss = unadjusted_position p"
proof -
  have t: "clamp_s32 (rect_x (unadjusted_position p)) = rect_x (unadjusted_position p)"
    "clamp_s32 (rect_y (unadjusted_position p)) = rect_y (unadjusted_position p)"
    by (simp_all add: unadjusted_position_def Let_def clamp_s32_id)
  have u: "u32 (width p) = width p" "u32 (height p) = height p"
    using assms(1) by (auto simp: positioner_wf_def in_u32_def intro!: u32_id)
  have "unadjusted_position p = mk_rect (rect_x (unadjusted_position p))
      (rect_y (unadjusted_position p)) (width p) (height p)"
    using unadjusted_size [OF assms(1)] by (cases "unadjusted_position p") (simp add: mk_rect_def)
  then show ?thesis
    using assms(2-6) unadjusted_size [OF assms(1)] t u
    by (simp add: calculate_position_def Let_def constrain_axis_fits)
qed

theorem popup_unconstrained_witness:
  "calculate_position (positioner_zero\<lparr>width := 10, height := 10\<rparr>) (Some (mk_rect 100 100 50 50, 1))
     [\<lparr>screen_id = 0, screen_geometry = mk_rect 0 0 1200 800, usable_geometry = mk_rect 0 0 0 0\<rparr>] =
   unadjusted_position (positioner_zero\<lparr>width := 10, height := 10\<rparr>)"
  by (rule popup_unconstrained [where box = "mk_rect 0 0 1200 800"])
    (simp_all add: positioner_wf_def positioner_zero_def in_s32_def constraint_box_def
      rectangle_contains_point_def clamp_s32_def cdiv_def s32_def fits_def unadjusted_position_def)

text \<open>a flip is a reflection about the anchor rectangle.  Flipping twice gives the
  positioner back; and with an anchor and a gravity on a side of the axis and no offset, the
  popup and its flip lie symmetrically about the centre of the anchor rectangle, while the
  other axis does not move.\<close>

theorem flip_x_mirrors:
  assumes "positioner_wf p" and "offset_x p = 0"
    and "anchor p \<in> x_sides" "gravity p \<in> x_sides"
    and "desktop (anchor_x p)" "anchor_width p \<le> 536870911" "width p \<le> 536870911"
    and "q = p\<lparr>anchor := anchor_flip_x (anchor p), gravity := gravity_flip_x (gravity p)\<rparr>"
  shows "rect_x (unadjusted_position p) + rect_x (unadjusted_position q) + width p =
      2 * anchor_x p + anchor_width p \<and>
    rect_y (unadjusted_position q) = rect_y (unadjusted_position p) \<and>
    q\<lparr>anchor := anchor_flip_x (anchor q), gravity := gravity_flip_x (gravity q)\<rparr> = p"
proof -
  let ?e = "edge_x (anchor p) (anchor_x p) (anchor_width p)"
  let ?h = "hang_x (gravity p) (width p)"
  have w: "0 \<le> width p" "0 \<le> anchor_width p" using assms(1) by (auto simp: positioner_wf_def)
  have e: "edge_x (anchor q) (anchor_x q) (anchor_width q) = 2 * anchor_x p + anchor_width p - ?e"
    using edge_x_flip(1) [OF assms(3)] assms(8) by (simp add: algebra_simps)
  have h: "hang_x (gravity q) (width q) = width p - ?h"
    using hang_x_flip(1) [OF assms(4)] assms(8) by (simp add: algebra_simps)
  have o: "offset_x q = 0" using assms(2,8) by simp
  have "in_s32 (?e - ?h)" "in_s32 (2 * anchor_x p + anchor_width p - ?e - (width p - ?h))"
    using edge_x_flip(2) [OF assms(3), of "anchor_x p" "anchor_width p"]
      hang_x_flip(2) [OF assms(4), of "width p"] w assms(5-7)
    by (auto simp: in_s32_def desktop_def)
  then have "rect_x (unadjusted_position p) + rect_x (unadjusted_position q) + width p =
      2 * anchor_x p + anchor_width p"
    using assms(2) unfolding unadjusted_x e h by (simp add: clamp_s32_id o)
  then show ?thesis using unadjusted_y_flip_x [OF assms(8)] assms(8) by simp
qed

theorem flip_x_mirrors_witness:
  "rect_x (unadjusted_position (positioner_zero\<lparr>width := 300, height := 200, anchor := Top_Right,
     gravity := Bottom_Right, anchor_x := 20, anchor_width := 100\<rparr>)) +
   rect_x (unadjusted_position (positioner_zero\<lparr>width := 300, height := 200, anchor := Top_Left,
     gravity := Bottom_Left, anchor_x := 20, anchor_width := 100\<rparr>)) + 300 = 140"
  using flip_x_mirrors [OF _ _ _ _ _ _ _ refl, of "positioner_zero\<lparr>width := 300, height := 200,
    anchor := Top_Right, gravity := Bottom_Right, anchor_x := 20, anchor_width := 100\<rparr>"]
  by (simp add: positioner_wf_def positioner_zero_def in_s32_def desktop_def x_sides_def)

end
