(* ===== verification/Window.thy ===== *)
theory Window
  imports Geometry
begin

text \<open>
  Windows (\<open>libswc/window.c\<close>, \<open>libswc/window.h\<close>): the modes a window manager puts a window
  in, the pending size and position, and the interactive moves and resizes, which link a
  handler into the seat's pointer and take over the button that started them.

  The state of one window's code is a record: the fields of \<open>struct window\<close>, the parts of
  its view it reads and writes, and the seat's pointer.  The callbacks of \<open>struct window_impl\<close>
  are functions on that record, so that a shell's record may extend it.  Everything else the
  code calls is recorded, in order, in \<open>calls\<close>.
\<close>

section \<open>State\<close>

datatype window_mode = STACKED | TILED | FULLSCREEN

text \<open>
  A pointer handler, by the structure it is embedded in: the handler of a window's move or
  resize interaction, or any other.
\<close>

datatype handler_id = Move_handler nat | Resize_handler nat | Other_handler nat

record button =
  press_value :: int
  press_serial :: int
  button_handler :: "handler_id option"

record pointer =
  pointer_x :: int
  pointer_y :: int
  pointer_handlers :: "handler_id list"
  buttons :: "button list"

record window_pointer_interaction =
  active :: bool
  serial :: int
  original_handler :: "handler_id option"

record move_state =
  move_interaction :: window_pointer_interaction
  move_offset_x :: int
  move_offset_y :: int
  move_pending :: bool
  move_x :: int
  move_y :: int
  move_last_time :: int

record resize_state =
  resize_interaction :: window_pointer_interaction
  resize_offset_x :: int
  resize_offset_y :: int
  resize_edges :: mask
  resize_last_time :: int

record configure_state =
  configure_pending :: bool
  configure_acknowledged :: bool
  configure_width :: int
  configure_height :: int

text \<open>\<open>struct swc_window\<close>, the part the window manager sees.\<close>

record swc_window =
  title :: "string option"
  app_id :: "string option"
  parent :: "nat option"
  motion_throttle_ms :: int
  min_width :: int
  min_height :: int
  max_width :: int
  max_height :: int

text \<open>Which callbacks of \<open>struct swc_window_handler\<close> the window manager has set.\<close>

record swc_window_handler =
  wm_destroy :: bool
  wm_title_changed :: bool
  wm_app_id_changed :: bool
  wm_parent_changed :: bool
  wm_geometry_changed :: bool
  wm_entered :: bool
  wm_move :: bool
  wm_resize :: bool

datatype wm_callback = Destroy | Title_changed | App_id_changed | Parent_changed
  | Geometry_changed | Entered | Move_requested | Resize_requested

datatype window_call =
    Wm wm_callback
  | New_window
  | Button_released handler_id int
  | View_move int int
  | Set_stack_layer nat bool
  | Raise_window
  | Set_parent_view "nat option"
  | View_destroy
  | Foreign_state | Foreign_workspace | Foreign_title | Foreign_app_id | Foreign_parent
  | Foreign_manage | Foreign_unmanage
  | Foreign_screens mask mask

record window =
  win_id :: nat
  base :: swc_window
  handler :: swc_window_handler
  view_geometry :: swc_rectangle
  view_stack_layer :: nat
  managed :: bool
  minimized :: bool
  raise_on_click :: bool
  movable :: bool
  resizable :: bool
  pinned :: bool
  mode :: window_mode
  workspace :: int
  move :: move_state
  resize :: resize_state
  configure :: configure_state
  tiled_edges :: mask
  seat_alive :: bool
  seat_pointer :: pointer
  calls :: "window_call list"

text \<open>\<open>struct window_impl\<close>: an absent callback is \<open>None\<close>; \<open>configure\<close> is never absent.\<close>

record 'w window_impl =
  impl_move :: "(int \<Rightarrow> int \<Rightarrow> 'w \<Rightarrow> 'w) option"
  impl_configure :: "int \<Rightarrow> int \<Rightarrow> 'w \<Rightarrow> 'w"
  impl_focus :: "('w \<Rightarrow> 'w) option"
  impl_unfocus :: "('w \<Rightarrow> 'w) option"
  impl_close :: "('w \<Rightarrow> 'w) option"
  impl_set_mode :: "(window_mode \<Rightarrow> 'w \<Rightarrow> 'w) option"
  impl_set_tiled_edges :: "(mask \<Rightarrow> 'w \<Rightarrow> 'w) option"

definition STACK_LAYER_NORMAL :: nat where "STACK_LAYER_NORMAL = 2"
definition STACK_LAYER_FULLSCREEN :: nat where "STACK_LAYER_FULLSCREEN = 4"
definition STACK_LAYER_PINNED :: nat where "STACK_LAYER_PINNED = 5"

definition SWC_WINDOW_EDGE_TOP :: mask where "SWC_WINDOW_EDGE_TOP = 1"
definition SWC_WINDOW_EDGE_BOTTOM :: mask where "SWC_WINDOW_EDGE_BOTTOM = 2"
definition SWC_WINDOW_EDGE_LEFT :: mask where "SWC_WINDOW_EDGE_LEFT = 4"
definition SWC_WINDOW_EDGE_RIGHT :: mask where "SWC_WINDOW_EDGE_RIGHT = 8"

lemmas window_edge_defs = SWC_WINDOW_EDGE_TOP_def SWC_WINDOW_EDGE_BOTTOM_def
  SWC_WINDOW_EDGE_LEFT_def SWC_WINDOW_EDGE_RIGHT_def

definition null_handler :: swc_window_handler where
  "null_handler = \<lparr>wm_destroy = False, wm_title_changed = False, wm_app_id_changed = False,
     wm_parent_changed = False, wm_geometry_changed = False, wm_entered = False,
     wm_move = False, wm_resize = False\<rparr>"

definition call :: "window_call \<Rightarrow> 'a window_scheme \<Rightarrow> 'a window_scheme" where
  "call c w = w\<lparr>calls := calls w @ [c]\<rparr>"

section \<open>Throttling and size limits\<close>

text \<open>Returns whether to drop the event, and the new \<open>*last_time\<close>.  Times are \<open>uint32_t\<close>.\<close>

definition should_throttle_motion :: "int \<Rightarrow> int \<Rightarrow> int \<Rightarrow> bool \<times> int" where
  "should_throttle_motion throttle_ms last_time time =
     (if throttle_ms = 0 then (False, last_time)
      else if last_time \<noteq> 0 \<and> u32 (time - last_time) < throttle_ms then (True, last_time)
      else (False, time))"

text \<open>
  \<open>value\<close> is an \<open>int32_t\<close> compared with unsigned limits, so after the first test each
  comparison converts it; an assignment to it converts back.
\<close>

definition clamp_dimension :: "int \<Rightarrow> int \<Rightarrow> int \<Rightarrow> int" where
  "clamp_dimension val mn mx =
     (let val = (if val < 0 then 0 else val);
          val = (if mn \<noteq> 0 \<and> u32 val < mn then s32 mn else val);
          val = (if mx \<noteq> 0
                 then let mx = (if mn \<noteq> 0 \<and> mx < mn then mn else mx)
                      in if u32 val > mx then s32 mx else val
                 else val)
      in u32 val)"

definition clamp_window_size :: "'a window_scheme \<Rightarrow> int \<Rightarrow> int \<Rightarrow> int \<times> int" where
  "clamp_window_size w width height =
     (clamp_dimension (s32 width) (min_width (base w)) (max_width (base w)),
      clamp_dimension (s32 height) (min_height (base w)) (max_height (base w)))"

section \<open>Interactions\<close>

text \<open>\<open>window->move.interaction\<close> or \<open>window->resize.interaction\<close>, and its handler.\<close>

datatype interaction_kind = Moving | Resizing

fun interaction :: "interaction_kind \<Rightarrow> 'a window_scheme \<Rightarrow> window_pointer_interaction" where
  "interaction Moving w = move_interaction (move w)"
| "interaction Resizing w = resize_interaction (resize w)"

fun set_interaction ::
  "interaction_kind \<Rightarrow> window_pointer_interaction \<Rightarrow> 'a window_scheme \<Rightarrow> 'a window_scheme" where
  "set_interaction Moving i w = w\<lparr>move := (move w)\<lparr>move_interaction := i\<rparr>\<rparr>"
| "set_interaction Resizing i w = w\<lparr>resize := (resize w)\<lparr>resize_interaction := i\<rparr>\<rparr>"

fun interaction_handler :: "interaction_kind \<Rightarrow> 'a window_scheme \<Rightarrow> handler_id" where
  "interaction_handler Moving w = Move_handler (win_id w)"
| "interaction_handler Resizing w = Resize_handler (win_id w)"

definition link_handler :: "handler_id \<Rightarrow> 'a window_scheme \<Rightarrow> 'a window_scheme" where
  "link_handler h w =
     w\<lparr>seat_pointer := (seat_pointer w)\<lparr>pointer_handlers := h # pointer_handlers (seat_pointer w)\<rparr>\<rparr>"

definition unlink_handler :: "handler_id \<Rightarrow> 'a window_scheme \<Rightarrow> 'a window_scheme" where
  "unlink_handler h w =
     w\<lparr>seat_pointer := (seat_pointer w)\<lparr>pointer_handlers :=
        remove1 h (pointer_handlers (seat_pointer w))\<rparr>\<rparr>"

definition map_buttons :: "(button \<Rightarrow> button) \<Rightarrow> 'a window_scheme \<Rightarrow> 'a window_scheme" where
  "map_buttons f w =
     w\<lparr>seat_pointer := (seat_pointer w)\<lparr>buttons := map f (buttons (seat_pointer w))\<rparr>\<rparr>"

text \<open>\<open>pointer_get_button\<close> of \<open>libswc/pointer.c\<close>: the held button with this press serial.\<close>

definition pointer_get_button :: "pointer \<Rightarrow> int \<Rightarrow> button option" where
  "pointer_get_button p s = find (\<lambda>b. press_serial b = s) (buttons p)"

text \<open>
  A button is passed by pointer; it is one of the seat's buttons, which have distinct press
  serials, and is named by its serial.
\<close>

definition begin_interaction ::
  "interaction_kind \<Rightarrow> button option \<Rightarrow> 'a window_scheme \<Rightarrow> 'a window_scheme" where
  "begin_interaction k btn w =
     (let h = interaction_handler k w; i = interaction k w;
          w = (case btn of
                 Some b \<Rightarrow>
                   map_buttons (\<lambda>c. if press_serial c = press_serial b
                       then c\<lparr>button_handler := Some h\<rparr> else c)
                     (set_interaction k (i\<lparr>serial := press_serial b,
                        original_handler := button_handler b\<rparr>) w)
               | None \<Rightarrow> set_interaction k (i\<lparr>original_handler := None\<rparr>) w);
          w = set_interaction k ((interaction k w)\<lparr>active := True\<rparr>) w
      in link_handler h w)"

definition end_interaction ::
  "interaction_kind \<Rightarrow> button option \<Rightarrow> 'a window_scheme \<Rightarrow> 'a window_scheme" where
  "end_interaction k btn w =
     (if \<not> active (interaction k w) then w
      else
        let i = interaction k w;
            w = (case original_handler i of
                   None \<Rightarrow> w
                 | Some h \<Rightarrow>
                     (case (case btn of Some b \<Rightarrow> Some b
                            | None \<Rightarrow> pointer_get_button (seat_pointer w) (serial i)) of
                        None \<Rightarrow> w
                      | Some b \<Rightarrow> call (Button_released h (press_serial b)) w));
            w = set_interaction k (i\<lparr>active := False\<rparr>) w
        in unlink_handler (interaction_handler k w) w)"

definition cancel_interaction :: "interaction_kind \<Rightarrow> 'a window_scheme \<Rightarrow> 'a window_scheme" where
  "cancel_interaction k w =
     (if \<not> active (interaction k w) then w
      else
        let i = interaction k w; h = interaction_handler k w;
            w = (if seat_alive w
                 then map_buttons (\<lambda>c. if button_handler c = Some h
                        then c\<lparr>button_handler := original_handler i\<rparr> else c) w
                 else w);
            w = set_interaction k (i\<lparr>active := False, original_handler := None\<rparr>) w
        in unlink_handler h w)"

section \<open>The view of the window\<close>

text \<open>
  \<open>view_move\<close> on a compositor view moves it there and always succeeds;
  \<open>compositor_view_set_stack_layer\<close> sets the layer.  Both are calls as well, for the rest
  of what the compositor does.
\<close>

definition view_move :: "int \<Rightarrow> int \<Rightarrow> 'a window_scheme \<Rightarrow> 'a window_scheme" where
  "view_move x y w =
     call (View_move x y) (w\<lparr>view_geometry := (view_geometry w)\<lparr>rect_x := x, rect_y := y\<rparr>\<rparr>)"

definition set_stack_layer :: "nat \<Rightarrow> bool \<Rightarrow> 'a window_scheme \<Rightarrow> 'a window_scheme" where
  "set_stack_layer l raise w = call (Set_stack_layer l raise) (w\<lparr>view_stack_layer := l\<rparr>)"

definition flush :: "'a window_scheme window_impl \<Rightarrow> 'a window_scheme \<Rightarrow> 'a window_scheme" where
  "flush impl w =
     (if move_pending (move w) then
        let w = (case impl_move impl of Some f \<Rightarrow> f (move_x (move w)) (move_y (move w)) w
                 | None \<Rightarrow> w);
            w = view_move (move_x (move w)) (move_y (move w)) w
        in w\<lparr>move := (move w)\<lparr>move_pending := False\<rparr>\<rparr>
      else w)"

section \<open>The window manager's operations\<close>

definition swc_window_set_handler ::
  "swc_window_handler \<Rightarrow> 'a window_scheme \<Rightarrow> 'a window_scheme" where
  "swc_window_set_handler h w = w\<lparr>handler := h\<rparr>"

definition swc_window_set_raise_on_click :: "bool \<Rightarrow> 'a window_scheme \<Rightarrow> 'a window_scheme" where
  "swc_window_set_raise_on_click enabled w = w\<lparr>raise_on_click := enabled\<rparr>"

definition swc_window_set_movable :: "bool \<Rightarrow> 'a window_scheme \<Rightarrow> 'a window_scheme" where
  "swc_window_set_movable enabled w =
     (let w = (if \<not> enabled then end_interaction Moving None w else w)
      in w\<lparr>movable := enabled\<rparr>)"

definition swc_window_set_resizable :: "bool \<Rightarrow> 'a window_scheme \<Rightarrow> 'a window_scheme" where
  "swc_window_set_resizable enabled w =
     (let w = (if \<not> enabled then end_interaction Resizing None w else w)
      in w\<lparr>resizable := enabled\<rparr>)"

definition swc_window_close ::
  "'a window_scheme window_impl \<Rightarrow> 'a window_scheme \<Rightarrow> 'a window_scheme" where
  "swc_window_close impl w = (case impl_close impl of Some f \<Rightarrow> f w | None \<Rightarrow> w)"

definition swc_window_set_minimized :: "bool \<Rightarrow> 'a window_scheme \<Rightarrow> 'a window_scheme" where
  "swc_window_set_minimized m w =
     (if minimized w = m then w else call Foreign_state (w\<lparr>minimized := m\<rparr>))"

definition swc_window_set_workspace :: "int \<Rightarrow> 'a window_scheme \<Rightarrow> 'a window_scheme" where
  "swc_window_set_workspace n w =
     (if workspace w = n then w else call Foreign_workspace (w\<lparr>workspace := n\<rparr>))"

definition window_stack_layer :: "'a window_scheme \<Rightarrow> nat" where
  "window_stack_layer w =
     (if pinned w then STACK_LAYER_PINNED
      else if mode w = FULLSCREEN then STACK_LAYER_FULLSCREEN else STACK_LAYER_NORMAL)"

definition swc_window_set_pinned :: "bool \<Rightarrow> 'a window_scheme \<Rightarrow> 'a window_scheme" where
  "swc_window_set_pinned p w =
     (if pinned w = p then w
      else let w = w\<lparr>pinned := p\<rparr>; w = set_stack_layer (window_stack_layer w) True w
           in call Foreign_state w)"

text \<open>\<open>if (window->view->stack_layer != window_stack_layer(window)) ...\<close>\<close>

definition update_stack_layer :: "'a window_scheme \<Rightarrow> 'a window_scheme" where
  "update_stack_layer w =
     (if view_stack_layer w \<noteq> window_stack_layer w
      then set_stack_layer (window_stack_layer w) True w else w)"

definition swc_window_set_stacked ::
  "'a window_scheme window_impl \<Rightarrow> 'a window_scheme \<Rightarrow> 'a window_scheme" where
  "swc_window_set_stacked impl w =
     (let w = flush impl w;
          w = w\<lparr>configure := \<lparr>configure_pending = False, configure_acknowledged = False,
            configure_width = 0, configure_height = 0\<rparr>\<rparr>;
          w = (case impl_set_mode impl of Some f \<Rightarrow> f STACKED w | None \<Rightarrow> w);
          w = w\<lparr>mode := STACKED\<rparr>;
          w = update_stack_layer w
      in call Foreign_state w)"

definition swc_window_set_tiled ::
  "'a window_scheme window_impl \<Rightarrow> 'a window_scheme \<Rightarrow> 'a window_scheme" where
  "swc_window_set_tiled impl w =
     (let w = end_interaction Moving None w;
          w = end_interaction Resizing None w;
          w = (case impl_set_mode impl of Some f \<Rightarrow> f TILED w | None \<Rightarrow> w);
          w = w\<lparr>mode := TILED\<rparr>;
          w = update_stack_layer w
      in call Foreign_state w)"

definition swc_window_set_tiled_edges ::
  "'a window_scheme window_impl \<Rightarrow> mask \<Rightarrow> 'a window_scheme \<Rightarrow> 'a window_scheme" where
  "swc_window_set_tiled_edges impl edges w =
     (if tiled_edges w = edges then w
      else
        let w = w\<lparr>tiled_edges := edges\<rparr>
        in if mode w = TILED
           then (case impl_set_tiled_edges impl of Some f \<Rightarrow> f edges w | None \<Rightarrow> w) else w)"

definition swc_window_set_position ::
  "'a window_scheme window_impl \<Rightarrow> int \<Rightarrow> int \<Rightarrow> 'a window_scheme \<Rightarrow> 'a window_scheme" where
  "swc_window_set_position impl x y w =
     (if x = rect_x (view_geometry w) \<and> y = rect_y (view_geometry w)
      then w\<lparr>move := (move w)\<lparr>move_pending := False\<rparr>\<rparr>
      else
        let w = w\<lparr>move := (move w)\<lparr>move_x := x, move_y := y, move_pending := True\<rparr>\<rparr>
        in if \<not> configure_pending (configure w) then flush impl w else w)"

definition swc_window_set_size ::
  "'a window_scheme window_impl \<Rightarrow> int \<Rightarrow> int \<Rightarrow> 'a window_scheme \<Rightarrow> 'a window_scheme" where
  "swc_window_set_size impl width height w =
     (let (width, height) =
        (if mode w = STACKED then clamp_window_size w width height else (width, height));
        c = configure w; geom = view_geometry w
      in if (configure_pending c \<and> width = configure_width c \<and> height = configure_height c) \<or>
            (\<not> configure_pending c \<and> width = rect_width geom \<and> height = rect_height geom)
         then w
         else impl_configure impl width height
           (w\<lparr>configure := c\<lparr>configure_width := width, configure_height := height,
              configure_pending := True\<rparr>\<rparr>))"

definition swc_window_set_geometry ::
  "'a window_scheme window_impl \<Rightarrow> swc_rectangle \<Rightarrow> 'a window_scheme \<Rightarrow> 'a window_scheme" where
  "swc_window_set_geometry impl r w =
     swc_window_set_position impl (rect_x r) (rect_y r)
       (swc_window_set_size impl (rect_width r) (rect_height r) w)"

text \<open>\<open>screen\<close> is the geometry of the screen, \<open>None\<close> for a null screen.\<close>

definition swc_window_set_fullscreen ::
  "'a window_scheme window_impl \<Rightarrow> swc_rectangle option \<Rightarrow> 'a window_scheme \<Rightarrow> 'a window_scheme" where
  "swc_window_set_fullscreen impl screen w =
     (case screen of None \<Rightarrow> w
      | Some g \<Rightarrow>
         let w = end_interaction Moving None w;
             w = end_interaction Resizing None w;
             w = (if mode w \<noteq> FULLSCREEN
                  then (case impl_set_mode impl of Some f \<Rightarrow> f FULLSCREEN w | None \<Rightarrow> w) else w);
             w = w\<lparr>mode := FULLSCREEN\<rparr>;
             w = swc_window_set_geometry impl g w;
             w = set_stack_layer (window_stack_layer w) True w
         in call Foreign_state w)"

definition swc_window_get_geometry :: "'a window_scheme option \<Rightarrow> swc_rectangle option" where
  "swc_window_get_geometry w = map_option view_geometry w"

definition swc_window_end_move :: "'a window_scheme \<Rightarrow> 'a window_scheme" where
  "swc_window_end_move w = end_interaction Moving None w"

definition swc_window_end_resize :: "'a window_scheme \<Rightarrow> 'a window_scheme" where
  "swc_window_end_resize w = end_interaction Resizing None w"

section \<open>Pointer handlers\<close>

text \<open>\<open>x\<close> and \<open>y\<close> are \<open>wl_fixed_to_int\<close> of the event's coordinates.\<close>

definition move_motion :: "int \<Rightarrow> int \<Rightarrow> int \<Rightarrow> 'a window_scheme \<Rightarrow> 'a window_scheme" where
  "move_motion time x y w =
     (let (throttled, last_time) =
        should_throttle_motion (motion_throttle_ms (base w)) (move_last_time (move w)) time;
        w = w\<lparr>move := (move w)\<lparr>move_last_time := last_time\<rparr>\<rparr>
      in if throttled then w
         else view_move (x + move_offset_x (move w)) (y + move_offset_y (move w)) w)"

text \<open>\<open>width = width < 1 ? 1 : width > INT32_MAX ? INT32_MAX : width\<close>\<close>

definition positive_s32 :: "int \<Rightarrow> int" where
  "positive_s32 v = (if v < 1 then 1 else if v > INT32_MAX then INT32_MAX else v)"

text \<open>The size a resize interaction asks for: \<open>width\<close> and \<open>height\<close> of \<open>resize_motion\<close>.\<close>

definition resize_motion_size :: "int \<Rightarrow> int \<Rightarrow> 'a window_scheme \<Rightarrow> int \<times> int" where
  "resize_motion_size x y w =
     (let g = view_geometry w; r = resize w;
          width = (if has (resize_edges r) SWC_WINDOW_EDGE_LEFT
                   then rect_width g - (x + resize_offset_x r - rect_x g)
                   else if has (resize_edges r) SWC_WINDOW_EDGE_RIGHT
                   then x + resize_offset_x r - rect_x g else rect_width g);
          height = (if has (resize_edges r) SWC_WINDOW_EDGE_TOP
                    then rect_height g - (y + resize_offset_y r - rect_y g)
                    else if has (resize_edges r) SWC_WINDOW_EDGE_BOTTOM
                    then y + resize_offset_y r - rect_y g else rect_height g)
      in (positive_s32 width, positive_s32 height))"

definition resize_motion ::
  "'a window_scheme window_impl \<Rightarrow> int \<Rightarrow> int \<Rightarrow> int \<Rightarrow> 'a window_scheme \<Rightarrow> 'a window_scheme" where
  "resize_motion impl time x y w =
     (let (throttled, last_time) =
        should_throttle_motion (motion_throttle_ms (base w)) (resize_last_time (resize w)) time;
        w = w\<lparr>resize := (resize w)\<lparr>resize_last_time := last_time\<rparr>\<rparr>
      in if throttled then w
         else let (width, height) = resize_motion_size x y w
              in swc_window_set_size impl width height w)"

text \<open>The interactions' button handler; the result says whether it took the event.\<close>

definition handle_button ::
  "interaction_kind \<Rightarrow> button \<Rightarrow> bool \<Rightarrow> 'a window_scheme \<Rightarrow> bool \<times> 'a window_scheme" where
  "handle_button k b released w =
     (if \<not> released \<or> original_handler (interaction k w) = None then (False, w)
      else (True, end_interaction k (Some b) w))"

section \<open>View handlers and commits\<close>

definition window_commit ::
  "'a window_scheme window_impl \<Rightarrow> 'a window_scheme \<Rightarrow> 'a window_scheme" where
  "window_commit impl w =
     (if configure_acknowledged (configure w) then
        let w = flush impl w
        in w\<lparr>configure := (configure w)\<lparr>configure_pending := False,
              configure_acknowledged := False\<rparr>\<rparr>
      else w)"

definition handle_attach ::
  "'a window_scheme window_impl \<Rightarrow> 'a window_scheme \<Rightarrow> 'a window_scheme" where
  "handle_attach impl w = window_commit impl w"

text \<open>Called once the view's geometry already has the new size.\<close>

definition handle_resize :: "int \<Rightarrow> int \<Rightarrow> 'a window_scheme \<Rightarrow> 'a window_scheme" where
  "handle_resize old_width old_height w =
     (let e = resize_edges (resize w); g = view_geometry w;
          w = (if active (resize_interaction (resize w)) \<and>
                  has e (SWC_WINDOW_EDGE_TOP OR SWC_WINDOW_EDGE_LEFT)
               then let x = (if has e SWC_WINDOW_EDGE_LEFT
                             then s32 (rect_x g + u32 (old_width - rect_width g)) else rect_x g);
                        y = (if has e SWC_WINDOW_EDGE_TOP
                             then s32 (rect_y g + u32 (old_height - rect_height g)) else rect_y g)
                    in view_move x y w
               else w)
      in if managed w \<and> wm_geometry_changed (handler w) then call (Wm Geometry_changed) w else w)"

definition handle_screens :: "mask \<Rightarrow> mask \<Rightarrow> 'a window_scheme \<Rightarrow> 'a window_scheme" where
  "handle_screens entered left w = call (Foreign_screens entered left) w"

section \<open>Life of a window\<close>

text \<open>
  \<open>acquired\<close> is the geometry and stack layer of the view the window gets: the view the
  surface already has, if it is a compositor view no window uses, or a new one when the
  surface has none; \<open>None\<close> where the code returns \<open>false\<close>.
\<close>

definition window_initialize ::
  "(swc_rectangle \<times> nat) option \<Rightarrow> 'a window_scheme \<Rightarrow> 'a window_scheme option" where
  "window_initialize acquired w =
     (case acquired of None \<Rightarrow> None
      | Some (g, layer) \<Rightarrow> Some (w\<lparr>
          base := \<lparr>title = None, app_id = None, parent = None, motion_throttle_ms = 16,
            min_width = 0, min_height = 0, max_width = 0, max_height = 0\<rparr>,
          handler := null_handler, view_geometry := g, view_stack_layer := layer,
          managed := False, minimized := False, raise_on_click := True, movable := True,
          resizable := True, pinned := False, mode := STACKED,
          move := (move w)\<lparr>move_pending := False, move_last_time := 0,
            move_interaction := (move_interaction (move w))\<lparr>active := False\<rparr>\<rparr>,
          configure := \<lparr>configure_pending = False, configure_acknowledged = False,
            configure_width = 0, configure_height = 0\<rparr>,
          resize := (resize w)\<lparr>resize_last_time := 0,
            resize_interaction := (resize_interaction (resize w))\<lparr>active := False\<rparr>\<rparr>\<rparr>))"

definition window_manage :: "'a window_scheme \<Rightarrow> 'a window_scheme" where
  "window_manage w =
     (if managed w then w
      else call Foreign_manage ((call New_window w)\<lparr>managed := True\<rparr>))"

definition window_unmanage :: "'a window_scheme \<Rightarrow> 'a window_scheme" where
  "window_unmanage w =
     (if \<not> managed w then w
      else
        let w = call Foreign_unmanage w;
            w = (if wm_destroy (handler w) then call (Wm Destroy) w else w)
        in w\<lparr>handler := null_handler, managed := False\<rparr>)"

definition window_finalize :: "'a window_scheme \<Rightarrow> 'a window_scheme" where
  "window_finalize w =
     (let w = window_unmanage w;
          w = cancel_interaction Moving w;
          w = cancel_interaction Resizing w
      in call View_destroy w)"

text \<open>
  The test \<open>!copy == !title && (!copy || strcmp(copy, title) == 0)\<close> says that the two are
  both absent or equal strings.
\<close>

definition window_set_title :: "string option \<Rightarrow> 'a window_scheme \<Rightarrow> 'a window_scheme" where
  "window_set_title t w =
     (if t = title (base w) then w
      else
        let w = w\<lparr>base := (base w)\<lparr>title := t\<rparr>\<rparr>;
            w = (if wm_title_changed (handler w) then call (Wm Title_changed) w else w)
        in call Foreign_title w)"

definition window_set_app_id :: "string option \<Rightarrow> 'a window_scheme \<Rightarrow> 'a window_scheme" where
  "window_set_app_id t w =
     (if t = app_id (base w) then w
      else
        let w = w\<lparr>base := (base w)\<lparr>app_id := t\<rparr>\<rparr>;
            w = (if wm_app_id_changed (handler w) then call (Wm App_id_changed) w else w)
        in call Foreign_app_id w)"

definition window_set_parent :: "nat option \<Rightarrow> 'a window_scheme \<Rightarrow> 'a window_scheme" where
  "window_set_parent p w =
     (if p = parent (base w) then w
      else
        let w = call (Set_parent_view p) w;
            w = w\<lparr>base := (base w)\<lparr>parent := p\<rparr>\<rparr>;
            w = (if wm_parent_changed (handler w) then call (Wm Parent_changed) w else w)
        in call Foreign_parent w)"

text \<open>
  The window manager's \<open>move\<close> callback may put the window in another mode before the code
  looks at the mode again, so it is an argument: what it does to the window.
\<close>

definition window_begin_move ::
  "('a window_scheme \<Rightarrow> 'a window_scheme) \<Rightarrow> button option \<Rightarrow> 'a window_scheme \<Rightarrow> 'a window_scheme"
where
  "window_begin_move on_move btn w =
     (if \<not> movable w then w
      else
        let w = (if mode w \<noteq> STACKED \<and> wm_move (handler w)
                 then on_move (call (Wm Move_requested) w) else w)
        in if mode w \<noteq> STACKED \<or> active (move_interaction (move w)) then w
           else
             let px = pointer_x (seat_pointer w); py = pointer_y (seat_pointer w);
                 w = begin_interaction Moving btn w
             in w\<lparr>move := (move w)\<lparr>move_last_time := 0,
                   move_offset_x := rect_x (view_geometry w) - px,
                   move_offset_y := rect_y (view_geometry w) - py\<rparr>\<rparr>)"

text \<open>
  The edges of a resize that names none.  \<open>px < geometry->x + geometry->width / 2\<close> compares
  an \<open>int32_t\<close> with an unsigned sum, so both sides are converted to unsigned.
\<close>

definition auto_edges :: "int \<Rightarrow> int \<Rightarrow> swc_rectangle \<Rightarrow> mask" where
  "auto_edges px py g =
     (if u32 px < u32 (rect_x g + rect_width g div 2)
      then SWC_WINDOW_EDGE_LEFT else SWC_WINDOW_EDGE_RIGHT) OR
     (if u32 py < u32 (rect_y g + rect_height g div 2)
      then SWC_WINDOW_EDGE_TOP else SWC_WINDOW_EDGE_BOTTOM)"

definition window_begin_resize ::
  "('a window_scheme \<Rightarrow> 'a window_scheme) \<Rightarrow> mask \<Rightarrow> button option \<Rightarrow> 'a window_scheme \<Rightarrow>
     'a window_scheme" where
  "window_begin_resize on_resize edges btn w =
     (if \<not> resizable w then w
      else
        let w = (if mode w \<noteq> STACKED \<and> wm_resize (handler w)
                 then on_resize (call (Wm Resize_requested) w) else w)
        in if mode w \<noteq> STACKED \<or> active (resize_interaction (resize w)) then w
           else
             let g = view_geometry w;
                 px = pointer_x (seat_pointer w); py = pointer_y (seat_pointer w);
                 w = begin_interaction Resizing btn w;
                 edges = (if edges = 0 then auto_edges px py g else edges)
             in w\<lparr>resize := (resize w)\<lparr>resize_last_time := 0,
                   resize_offset_x := s32 (rect_x g - px +
                     (if has edges SWC_WINDOW_EDGE_RIGHT then rect_width g else 0)),
                   resize_offset_y := s32 (rect_y g - py +
                     (if has edges SWC_WINDOW_EDGE_BOTTOM then rect_height g else 0)),
                   resize_edges := edges\<rparr>\<rparr>)"

section \<open>Keyboard focus\<close>

text \<open>
  \<open>swc_window_focus\<close>: the calls it makes.  \<open>mode_active\<close> is \<open>input_mode_active()\<close>,
  \<open>deferred\<close> the result of \<open>xdg_popup_grab_defer_window_focus\<close>; \<open>new\<close> and \<open>old\<close> are the
  windows concerned with whether their shell has the callback, and \<open>same\<close> says that the
  keyboard is on the requested view already.
\<close>

datatype focus_call = Impl_focus nat | Impl_unfocus nat | Keyboard_set_focus "nat option"
  | Foreign_window_state nat

definition swc_window_focus ::
  "bool \<Rightarrow> bool \<Rightarrow> bool \<Rightarrow> (nat \<times> bool) option \<Rightarrow> (nat \<times> bool) option \<Rightarrow> focus_call list" where
  "swc_window_focus mode_active deferred same new old =
     (if new \<noteq> None \<and> mode_active then []
      else if deferred then []
      else if same then []
      else
        (case new of Some (n, True) \<Rightarrow> [Impl_focus n] | _ \<Rightarrow> []) @
        (case old of Some (n, True) \<Rightarrow> [Impl_unfocus n] | _ \<Rightarrow> []) @
        [Keyboard_set_focus (map_option fst new)] @
        (case old of Some (n, _) \<Rightarrow> [Foreign_window_state n] | None \<Rightarrow> []) @
        (case new of Some (n, _) \<Rightarrow> [Foreign_window_state n] | None \<Rightarrow> []))"

definition handle_window_enter :: "bool \<Rightarrow> 'a window_scheme option \<Rightarrow> 'a window_scheme option" where
  "handle_window_enter focus_changed w =
     (if \<not> focus_changed then w
      else map_option (\<lambda>w. if wm_entered (handler w) then call (Wm Entered) w else w) w)"

section \<open>Lemmas on interactions\<close>

named_theorems window_simps \<open>what the window operations do to each part of the state\<close>

lemma interaction_set_interaction [simp]:
  "interaction k (set_interaction k' i w) = (if k = k' then i else interaction k w)"
  by (cases k; cases k') simp_all

lemma interaction_handler_inj [simp]:
  "interaction_handler k w = interaction_handler k' w \<longleftrightarrow> k = k'"
  by (cases k; cases k') simp_all

text \<open>
  The part of the state the interactions and the layers depend on, and which a shell's
  callbacks leave alone: everything of a window but its \<open>configure\<close> and its calls.
\<close>

definition window_frame :: "'a window_scheme \<Rightarrow> window" where
  "window_frame w = (window.truncate w)\<lparr>calls := [], configure := \<lparr>configure_pending = False,
     configure_acknowledged = False, configure_width = 0, configure_height = 0\<rparr>\<rparr>"

lemma window_frame_fields:
  assumes "window_frame w = window_frame w'"
  shows "win_id w = win_id w'" "base w = base w'" "handler w = handler w'"
    "view_geometry w = view_geometry w'" "view_stack_layer w = view_stack_layer w'"
    "managed w = managed w'" "movable w = movable w'" "resizable w = resizable w'"
    "pinned w = pinned w'" "mode w = mode w'" "move w = move w'" "resize w = resize w'"
    "tiled_edges w = tiled_edges w'" "seat_alive w = seat_alive w'"
    "seat_pointer w = seat_pointer w'"
  using assms by (auto simp: window_frame_def window.defs)

lemma window_frame_call [simp]: "window_frame (call c w) = window_frame w"
  by (simp add: window_frame_def call_def window.defs)

lemma window_frame_configure [simp]: "window_frame (w\<lparr>configure := c\<rparr>) = window_frame w"
  by (simp add: window_frame_def window.defs)

text \<open>
  An interaction's handler is in the seat's list exactly once while the interaction is
  active, and not at all otherwise.
\<close>

definition linked :: "interaction_kind \<Rightarrow> 'a window_scheme \<Rightarrow> bool" where
  "linked k w \<longleftrightarrow> count_list (pointer_handlers (seat_pointer w)) (interaction_handler k w) =
     (if active (interaction k w) then 1 else 0)"

definition interactions_linked :: "'a window_scheme \<Rightarrow> bool" where
  "interactions_linked w \<longleftrightarrow> linked Moving w \<and> linked Resizing w"

definition layer_ok :: "'a window_scheme \<Rightarrow> bool" where
  "layer_ok w \<longleftrightarrow> view_stack_layer w = window_stack_layer w"

lemma linked_cong:
  assumes "win_id w = win_id w'" "move_interaction (move w) = move_interaction (move w')"
    and "resize_interaction (resize w) = resize_interaction (resize w')"
    and "pointer_handlers (seat_pointer w) = pointer_handlers (seat_pointer w')"
  shows "linked k w = linked k w'"
  using assms by (cases k) (simp_all add: linked_def)

lemma interactions_linked_cong:
  assumes "win_id w = win_id w'" "move_interaction (move w) = move_interaction (move w')"
    and "resize_interaction (resize w) = resize_interaction (resize w')"
    and "pointer_handlers (seat_pointer w) = pointer_handlers (seat_pointer w')"
  shows "interactions_linked w = interactions_linked w'"
  unfolding interactions_linked_def using linked_cong [OF assms] by simp

lemma layer_ok_cong:
  assumes "view_stack_layer w = view_stack_layer w'" "pinned w = pinned w'" "mode w = mode w'"
  shows "layer_ok w = layer_ok w'"
  using assms by (simp add: layer_ok_def window_stack_layer_def)

lemma frame_linked: "window_frame w = window_frame w' \<Longrightarrow> interactions_linked w = interactions_linked w'"
  by (rule interactions_linked_cong) (auto dest: window_frame_fields)

lemma frame_layer: "window_frame w = window_frame w' \<Longrightarrow> layer_ok w = layer_ok w'"
  by (rule layer_ok_cong) (auto dest: window_frame_fields)

lemma set_interaction_fields [simp]:
  "win_id (set_interaction k i w) = win_id w"
  "seat_pointer (set_interaction k i w) = seat_pointer w"
  "interaction_handler k' (set_interaction k i w) = interaction_handler k' w"
  "mode (set_interaction k i w) = mode w" "pinned (set_interaction k i w) = pinned w"
  "view_stack_layer (set_interaction k i w) = view_stack_layer w"
  "view_geometry (set_interaction k i w) = view_geometry w"
  "configure (set_interaction k i w) = configure w"
  by (cases k; cases k'; simp)+

lemma call_fields [simp]:
  "win_id (call c w) = win_id w" "seat_pointer (call c w) = seat_pointer w"
  "interaction k (call c w) = interaction k w"
  "interaction_handler k (call c w) = interaction_handler k w"
  "mode (call c w) = mode w" "pinned (call c w) = pinned w"
  "view_stack_layer (call c w) = view_stack_layer w" "view_geometry (call c w) = view_geometry w"
  "move (call c w) = move w" "resize (call c w) = resize w" "configure (call c w) = configure w"
  "managed (call c w) = managed w" "handler (call c w) = handler w" "base (call c w) = base w"
  "seat_alive (call c w) = seat_alive w" "tiled_edges (call c w) = tiled_edges w"
  by (cases k; simp add: call_def)+

lemma linked_call [simp]: "linked k (call c w) = linked k w"
  by (simp add: linked_def)

lemma handler_ops_fields [simp]:
  "pointer_handlers (seat_pointer (unlink_handler h w)) = remove1 h (pointer_handlers (seat_pointer w))"
  "pointer_handlers (seat_pointer (link_handler h w)) = h # pointer_handlers (seat_pointer w)"
  "pointer_handlers (seat_pointer (map_buttons f w)) = pointer_handlers (seat_pointer w)"
  "buttons (seat_pointer (unlink_handler h w)) = buttons (seat_pointer w)"
  "buttons (seat_pointer (link_handler h w)) = buttons (seat_pointer w)"
  "buttons (seat_pointer (map_buttons f w)) = map f (buttons (seat_pointer w))"
  by (simp_all add: unlink_handler_def link_handler_def map_buttons_def)

lemma seat_pointer_ops_frame [simp]:
  "interaction k (unlink_handler h w) = interaction k w"
  "interaction k (link_handler h w) = interaction k w"
  "interaction k (map_buttons f w) = interaction k w"
  "interaction_handler k (unlink_handler h w) = interaction_handler k w"
  "interaction_handler k (link_handler h w) = interaction_handler k w"
  "interaction_handler k (map_buttons f w) = interaction_handler k w"
  by (cases k; simp add: unlink_handler_def link_handler_def map_buttons_def)+

lemma seat_pointer_ops_fields [simp]:
  "mode (unlink_handler h w) = mode w" "pinned (unlink_handler h w) = pinned w"
  "view_stack_layer (unlink_handler h w) = view_stack_layer w"
  "view_geometry (unlink_handler h w) = view_geometry w"
  "configure (unlink_handler h w) = configure w" "win_id (unlink_handler h w) = win_id w"
  "mode (link_handler h w) = mode w" "pinned (link_handler h w) = pinned w"
  "view_stack_layer (link_handler h w) = view_stack_layer w"
  "view_geometry (link_handler h w) = view_geometry w"
  "configure (link_handler h w) = configure w" "win_id (link_handler h w) = win_id w"
  "mode (map_buttons f w) = mode w" "pinned (map_buttons f w) = pinned w"
  "view_stack_layer (map_buttons f w) = view_stack_layer w"
  "view_geometry (map_buttons f w) = view_geometry w"
  "configure (map_buttons f w) = configure w" "win_id (map_buttons f w) = win_id w"
  by (simp_all add: unlink_handler_def link_handler_def map_buttons_def)

lemma move_resize_ops [simp]:
  "move (unlink_handler h w) = move w" "move (link_handler h w) = move w"
  "move (map_buttons f w) = move w" "resize (unlink_handler h w) = resize w"
  "resize (link_handler h w) = resize w" "resize (map_buttons f w) = resize w"
  by (simp_all add: unlink_handler_def link_handler_def map_buttons_def)

lemma linked_end_interaction:
  "linked k' w \<Longrightarrow> linked k' (end_interaction k btn w)"
  by (auto simp: end_interaction_def linked_def Let_def count_list_remove1 split: option.splits)

lemma linked_cancel_interaction:
  "linked k' w \<Longrightarrow> linked k' (cancel_interaction k w)"
  by (auto simp: cancel_interaction_def linked_def Let_def count_list_remove1)

lemma linked_begin_interaction:
  "linked k' w \<Longrightarrow> \<not> active (interaction k w) \<Longrightarrow> linked k' (begin_interaction k btn w)"
  by (auto simp: begin_interaction_def linked_def Let_def split: option.splits)

lemma end_interaction_inactive [simp]: "\<not> active (interaction k (end_interaction k btn w))"
  by (auto simp: end_interaction_def Let_def split: option.splits)

lemma cancel_interaction_inactive [simp]: "\<not> active (interaction k (cancel_interaction k w))"
  by (auto simp: cancel_interaction_def Let_def)

lemma end_interaction_fields [simp]:
  "mode (end_interaction k btn w) = mode w" "pinned (end_interaction k btn w) = pinned w"
  "view_stack_layer (end_interaction k btn w) = view_stack_layer w"
  "view_geometry (end_interaction k btn w) = view_geometry w"
  "configure (end_interaction k btn w) = configure w" "win_id (end_interaction k btn w) = win_id w"
  by (auto simp: end_interaction_def Let_def split: option.splits)

lemma begin_interaction_fields [simp]:
  "mode (begin_interaction k btn w) = mode w" "pinned (begin_interaction k btn w) = pinned w"
  "view_stack_layer (begin_interaction k btn w) = view_stack_layer w"
  "view_geometry (begin_interaction k btn w) = view_geometry w"
  "configure (begin_interaction k btn w) = configure w"
  "win_id (begin_interaction k btn w) = win_id w"
  by (auto simp: begin_interaction_def Let_def split: option.splits)

lemma interactions_linked_end [simp]:
  "interactions_linked w \<Longrightarrow> interactions_linked (end_interaction k btn w)"
  by (simp add: interactions_linked_def linked_end_interaction)

lemma interactions_linked_begin:
  "interactions_linked w \<Longrightarrow> \<not> active (interaction k w) \<Longrightarrow>
     interactions_linked (begin_interaction k btn w)"
  by (simp add: interactions_linked_def linked_begin_interaction)

lemma layer_ok_begin_end [simp]:
  "layer_ok (end_interaction k btn w) = layer_ok w"
  "layer_ok (begin_interaction k btn w) = layer_ok w"
  by (rule layer_ok_cong; simp)+

lemma view_move_fields [simp]:
  "win_id (view_move x y w) = win_id w" "move (view_move x y w) = move w"
  "resize (view_move x y w) = resize w" "seat_pointer (view_move x y w) = seat_pointer w"
  "mode (view_move x y w) = mode w" "pinned (view_move x y w) = pinned w"
  "view_stack_layer (view_move x y w) = view_stack_layer w"
  "configure (view_move x y w) = configure w" "managed (view_move x y w) = managed w"
  "handler (view_move x y w) = handler w" "base (view_move x y w) = base w"
  "view_geometry (view_move x y w) = (view_geometry w)\<lparr>rect_x := x, rect_y := y\<rparr>"
  by (simp_all add: view_move_def call_def)

lemma set_stack_layer_fields [simp]:
  "win_id (set_stack_layer l r w) = win_id w" "move (set_stack_layer l r w) = move w"
  "resize (set_stack_layer l r w) = resize w"
  "seat_pointer (set_stack_layer l r w) = seat_pointer w"
  "mode (set_stack_layer l r w) = mode w" "pinned (set_stack_layer l r w) = pinned w"
  "view_stack_layer (set_stack_layer l r w) = l"
  "configure (set_stack_layer l r w) = configure w"
  "view_geometry (set_stack_layer l r w) = view_geometry w"
  by (simp_all add: set_stack_layer_def call_def)

lemma interactions_linked_simps [simp]:
  "interactions_linked (call c w) = interactions_linked w"
  "interactions_linked (view_move x y w) = interactions_linked w"
  "interactions_linked (set_stack_layer l r w) = interactions_linked w"
  "interactions_linked (w\<lparr>mode := m\<rparr>) = interactions_linked w"
  "interactions_linked (w\<lparr>configure := cf\<rparr>) = interactions_linked w"
  "interactions_linked (w\<lparr>pinned := p\<rparr>) = interactions_linked w"
  "interactions_linked (w\<lparr>tiled_edges := e\<rparr>) = interactions_linked w"
  "interactions_linked (w\<lparr>base := b\<rparr>) = interactions_linked w"
  "interactions_linked (w\<lparr>managed := g\<rparr>) = interactions_linked w"
  "interactions_linked (w\<lparr>handler := h\<rparr>) = interactions_linked w"
  "interactions_linked (w\<lparr>movable := g\<rparr>) = interactions_linked w"
  "interactions_linked (w\<lparr>resizable := g\<rparr>) = interactions_linked w"
  "interactions_linked (w\<lparr>minimized := g\<rparr>) = interactions_linked w"
  "interactions_linked (w\<lparr>workspace := n\<rparr>) = interactions_linked w"
  "interactions_linked (w\<lparr>raise_on_click := g\<rparr>) = interactions_linked w"
  by (rule interactions_linked_cong; simp)+

lemma layer_ok_simps [simp]:
  "layer_ok (call c w) = layer_ok w" "layer_ok (view_move x y w) = layer_ok w"
  "layer_ok (w\<lparr>configure := cf\<rparr>) = layer_ok w" "layer_ok (w\<lparr>tiled_edges := e\<rparr>) = layer_ok w"
  "layer_ok (w\<lparr>base := b\<rparr>) = layer_ok w" "layer_ok (w\<lparr>managed := g\<rparr>) = layer_ok w"
  "layer_ok (w\<lparr>handler := h\<rparr>) = layer_ok w" "layer_ok (w\<lparr>movable := g\<rparr>) = layer_ok w"
  "layer_ok (w\<lparr>resizable := g\<rparr>) = layer_ok w" "layer_ok (w\<lparr>minimized := g\<rparr>) = layer_ok w"
  "layer_ok (w\<lparr>workspace := n\<rparr>) = layer_ok w" "layer_ok (w\<lparr>move := m\<rparr>) = layer_ok w"
  "layer_ok (w\<lparr>resize := r\<rparr>) = layer_ok w" "layer_ok (w\<lparr>raise_on_click := g\<rparr>) = layer_ok w"
  by (rule layer_ok_cong; simp)+

lemma layer_ok_set_stack_layer [simp]:
  "layer_ok (set_stack_layer (window_stack_layer w) r w)" "layer_ok (update_stack_layer w)"
  by (simp_all add: layer_ok_def update_stack_layer_def window_stack_layer_def)

lemma interactions_linked_move [simp]:
  "move_interaction m = move_interaction (move w) \<Longrightarrow>
     interactions_linked (w\<lparr>move := m\<rparr>) = interactions_linked w"
  "resize_interaction r = resize_interaction (resize w) \<Longrightarrow>
     interactions_linked (w\<lparr>resize := r\<rparr>) = interactions_linked w"
  by (rule interactions_linked_cong; simp)+

lemma interactions_linked_update_layer [simp]:
  "interactions_linked (update_stack_layer w) = interactions_linked w"
  by (simp add: update_stack_layer_def)

end
