(* ===== verification/Window_Safety.thy ===== *)
theory Window_Safety
  imports Window
begin

text \<open>
  What the size arithmetic and the interactions of \<open>libswc/window.c\<close> guarantee for one window,
  whatever shell implements it.
\<close>

section \<open>Size limits\<close>

text \<open>The limit the code means: at least \<open>mn\<close>, at most \<open>mx\<close> when there is one, \<open>mn\<close> winning.\<close>

definition nearest_within :: "int \<Rightarrow> int \<Rightarrow> int \<Rightarrow> int" where
  "nearest_within v mn mx = (let v = max 0 (max mn v) in if mx = 0 then v else min v (max mn mx))"

text \<open>C40: \<open>clamp_dimension\<close>, for all its mixing of signed and unsigned, is the nearest size within
  the limits: at least the minimum, at most the maximum when one is set, the minimum winning
  over a smaller maximum, and never negative.\<close>

theorem clamp_dimension_nearest:
  assumes "in_s32 v" and "0 \<le> mn" "in_s32 mn" and "0 \<le> mx" "in_s32 mx"
  shows "clamp_dimension v mn mx = nearest_within v mn mx"
  using assms
  by (auto simp: clamp_dimension_def nearest_within_def Let_def u32_id s32_id in_u32_def in_s32_def)

theorem clamp_dimension_nearest_witness:
  "clamp_dimension (- 5) 200 100 = nearest_within (- 5) 200 100"
  by (rule clamp_dimension_nearest) (simp_all add: in_s32_def)

section \<open>Resizing\<close>

text \<open>A window under an interactive resize, for the witnesses.\<close>

definition resizing_window :: "mask \<Rightarrow> swc_rectangle \<Rightarrow> window" where
  "resizing_window edges g =
     (let off = \<lparr>active = False, serial = 0, original_handler = None\<rparr>;
          on = \<lparr>active = True, serial = 1, original_handler = None\<rparr>
      in \<lparr>win_id = 1,
        base = \<lparr>title = None, app_id = None, parent = None, motion_throttle_ms = 16,
          min_width = 0, min_height = 0, max_width = 0, max_height = 0\<rparr>,
        handler = null_handler, view_geometry = g, view_stack_layer = STACK_LAYER_NORMAL,
        managed = True, minimized = False, raise_on_click = True, movable = True,
        resizable = True, pinned = False, mode = STACKED, workspace = 0,
        move = \<lparr>move_interaction = off, move_offset_x = 0, move_offset_y = 0,
          move_pending = False, move_x = 0, move_y = 0, move_last_time = 0\<rparr>,
        resize = \<lparr>resize_interaction = on, resize_offset_x = 0,
          resize_offset_y = 0, resize_edges = edges, resize_last_time = 0\<rparr>,
        configure = \<lparr>configure_pending = False, configure_acknowledged = False,
          configure_width = 0, configure_height = 0\<rparr>,
        tiled_edges = 0, seat_alive = True,
        seat_pointer = \<lparr>pointer_x = 0, pointer_y = 0,
          pointer_handlers = [Resize_handler 1, Other_handler 0], buttons = []\<rparr>,
        calls = []\<rparr>)"

text \<open>While a window is resized by its left edge, its right edge stays where it is, whatever size
  the client answers with; and by its top edge, its bottom edge.  Edges not being dragged keep
  the position.\<close>

theorem resize_keeps_far_edge:
  assumes "active (resize_interaction (resize w))"
    and "view_geometry w = mk_rect x y new_w new_h"
    and "in_u32 old_w" "in_u32 old_h" "in_u32 new_w" "in_u32 new_h"
    and "in_s32 x" "in_s32 y" "in_s32 (x + old_w - new_w)" "in_s32 (y + old_h - new_h)"
  shows "view_geometry (handle_resize old_w old_h w) =
    mk_rect
      (if has (resize_edges (resize w)) SWC_WINDOW_EDGE_LEFT then x + old_w - new_w else x)
      (if has (resize_edges (resize w)) SWC_WINDOW_EDGE_TOP then y + old_h - new_h else y)
      new_w new_h"
  using assms
  by (simp add: handle_resize_def Let_def mk_rect_def has_or s32_id flip: add_diff_eq)

theorem resize_keeps_far_edge_witness:
  "view_geometry (handle_resize 300 200 (resizing_window 5 (mk_rect 100 50 280 220))) =
     mk_rect (if has 5 SWC_WINDOW_EDGE_LEFT then 100 + 300 - 280 else 100)
       (if has 5 SWC_WINDOW_EDGE_TOP then 50 + 200 - 220 else 50) 280 220"
  using resize_keeps_far_edge [of "resizing_window 5 (mk_rect 100 50 280 220)" 100 50 280 220 300 200]
  by (simp add: resizing_window_def in_s32_def in_u32_def)

section \<open>Choosing the edges of a resize\<close>

text \<open>A resize that names no edges takes the left edge exactly when the pointer is left of the
  window's centre and both are on the same side of the origin, or the centre is left of the
  origin and the pointer is not: the comparison is unsigned, so a pointer left of the origin
  counts as far right (and the same holds for top and bottom).\<close>

theorem auto_edges_left_iff:
  assumes "in_s32 px" and "in_s32 (rect_x g + rect_width g div 2)"
  shows "has (auto_edges px py g) SWC_WINDOW_EDGE_LEFT \<longleftrightarrow>
    (if (px < 0) = (rect_x g + rect_width g div 2 < 0)
     then px < rect_x g + rect_width g div 2 else 0 \<le> px)"
proof -
  have u: "u32 v = (if v < 0 then v + 4294967296 else v)" if "in_s32 v" for v
    using that by (auto simp: in_s32_def u32_wrap_neg u32_id in_u32_def)
  have e: "has (auto_edges px py g) SWC_WINDOW_EDGE_LEFT \<longleftrightarrow>
      u32 px < u32 (rect_x g + rect_width g div 2)"
    by (simp add: auto_edges_def has_or_left) (simp add: window_edge_defs has_def)
  show ?thesis
    using assms unfolding e u [OF assms(1)] u [OF assms(2)] by (auto simp: in_s32_def)
qed

theorem auto_edges_left_iff_witness:
  "\<not> has (auto_edges (- 80) 0 (mk_rect (- 100) 0 300 200)) SWC_WINDOW_EDGE_LEFT"
  using auto_edges_left_iff [of "- 80" "mk_rect (- 100) 0 300 200" 0]
  by (simp add: in_s32_def)

section \<open>Interactions and the pointer\<close>

text \<open>No button and no place in the seat's list of handlers refers to the window.\<close>

definition unreferenced :: "nat \<Rightarrow> pointer \<Rightarrow> bool" where
  "unreferenced i p \<longleftrightarrow> (\<forall>h \<in> {Move_handler i, Resize_handler i}.
     h \<notin> set (pointer_handlers p) \<and> (\<forall>b \<in> set (buttons p). button_handler b \<noteq> Some h))"

text \<open>
  Whatever refers to an interaction's handler does so while the interaction is active, and
  the handler it took over is not one of the window's own.
\<close>

definition referenced_if_active :: "interaction_kind \<Rightarrow> 'a window_scheme \<Rightarrow> bool" where
  "referenced_if_active k w \<longleftrightarrow>
     (\<forall>b \<in> set (buttons (seat_pointer w)).
        button_handler b = Some (interaction_handler k w) \<longrightarrow> active (interaction k w)) \<and>
     (active (interaction k w) \<longrightarrow> (\<forall>k'. original_handler (interaction k w) \<noteq> Some (interaction_handler k' w)))"

lemma cancel_handlers:
  assumes "linked k w"
  shows "interaction_handler k w \<notin> set (pointer_handlers (seat_pointer (cancel_interaction k w)))"
proof -
  have "interaction_handler k (cancel_interaction k w) = interaction_handler k w"
    by (simp add: cancel_interaction_def Let_def)
  then show ?thesis
    using linked_cancel_interaction [OF assms, of k]
    by (simp add: linked_def count_list_0_iff)
qed

lemma cancel_handlers_subset:
  "set (pointer_handlers (seat_pointer (cancel_interaction k w))) \<subseteq>
     set (pointer_handlers (seat_pointer w))"
  by (auto simp: cancel_interaction_def Let_def dest: set_remove1_subset [THEN subsetD])

lemma cancel_buttons:
  assumes "referenced_if_active k w" "seat_alive w"
    and "b \<in> set (buttons (seat_pointer (cancel_interaction k w)))"
  shows "button_handler b \<noteq> Some (interaction_handler k w)"
  using assms by (auto simp: cancel_interaction_def Let_def referenced_if_active_def split: if_splits)

lemma cancel_buttons_origin:
  assumes "referenced_if_active k w"
    and "b \<in> set (buttons (seat_pointer (cancel_interaction k w)))"
    and "button_handler b = Some (interaction_handler k' w)"
  shows "\<exists>c \<in> set (buttons (seat_pointer w)). button_handler c = Some (interaction_handler k' w)"
  using assms by (auto simp: cancel_interaction_def Let_def referenced_if_active_def split: if_splits)

lemma seat_alive_simps [simp]:
  "seat_alive (set_interaction k i w) = seat_alive w"
  "seat_alive (unlink_handler h w) = seat_alive w" "seat_alive (map_buttons f w) = seat_alive w"
  by (cases k; simp add: unlink_handler_def map_buttons_def)+

lemma cancel_fields [simp]:
  "interaction_handler k' (cancel_interaction k w) = interaction_handler k' w"
  "seat_alive (cancel_interaction k w) = seat_alive w"
  "k \<noteq> k' \<Longrightarrow> interaction k' (cancel_interaction k w) = interaction k' w"
  by (simp_all add: cancel_interaction_def Let_def)

lemma unmanage_fields [simp]:
  "seat_pointer (window_unmanage w) = seat_pointer w" "win_id (window_unmanage w) = win_id w"
  "move (window_unmanage w) = move w" "resize (window_unmanage w) = resize w"
  "seat_alive (window_unmanage w) = seat_alive w"
  by (simp_all add: window_unmanage_def Let_def)

lemma unmanage_interactions [simp]:
  "interaction k (window_unmanage w) = interaction k w"
  "interaction_handler k (window_unmanage w) = interaction_handler k w"
  by (cases k; simp)+



text \<open>C39: A button that started a move keeps pointing at the window's handler when the move is ended
  before the button is released, as the window manager's \<open>swc_window_end_move\<close> does: finalizing
  the window then leaves the held button with a handler of a window that is gone.\<close>

theorem ended_move_dangles:
  assumes "movable w" and "mode w = STACKED" and "\<not> active (move_interaction (move w))"
    and "\<not> active (resize_interaction (resize w))" and "b \<in> set (buttons (seat_pointer w))"
  shows "\<exists>c \<in> set (buttons (seat_pointer
      (window_finalize (swc_window_end_move (window_begin_move on_move (Some b) w))))).
    press_serial c = press_serial b \<and> button_handler c = Some (Move_handler (win_id w))"
proof -
  define h where "h = Move_handler (win_id w)"
  define v where "v = window_begin_move on_move (Some b) w"
  define u where "u = swc_window_end_move v"
  let ?f = "\<lambda>c. if press_serial c = press_serial b then c\<lparr>button_handler := Some h\<rparr> else c"
  have v: "buttons (seat_pointer v) = map ?f (buttons (seat_pointer w))"
    "\<not> active (resize_interaction (resize v))"
    using assms by (simp_all add: v_def h_def window_begin_move_def begin_interaction_def
        Let_def)
  have u: "buttons (seat_pointer u) = buttons (seat_pointer v)"
    "\<not> active (interaction Moving u)" "\<not> active (interaction Resizing u)"
    using v(2) by (auto simp: u_def swc_window_end_move_def end_interaction_def Let_def
        split: option.splits)
  have "seat_pointer (window_finalize u) = seat_pointer u"
    using u(2,3) by (simp add: window_finalize_def Let_def cancel_interaction_def)
  moreover have "?f b \<in> set (buttons (seat_pointer u))"
    using assms(5) u(1) v(1) by auto
  ultimately show ?thesis
    unfolding u_def [symmetric] v_def [symmetric] h_def [symmetric] by (intro bexI [of _ "?f b"]) auto
qed

text \<open>A window at rest, with a button held on it, for the witness.\<close>

definition pressed_window :: window where
  "pressed_window =
     (let w = resizing_window 0 (mk_rect 0 0 100 100)
      in w\<lparr>resize := (resize w)\<lparr>resize_interaction :=
             (resize_interaction (resize w))\<lparr>active := False\<rparr>\<rparr>,
           seat_pointer := \<lparr>pointer_x = 10, pointer_y = 10, pointer_handlers = [Other_handler 0],
             buttons = [\<lparr>press_value = 272, press_serial = 9,
               button_handler = Some (Other_handler 0)\<rparr>]\<rparr>\<rparr>)"

theorem ended_move_dangles_witness:
  "\<exists>c \<in> set (buttons (seat_pointer (window_finalize (swc_window_end_move
      (window_begin_move (\<lambda>w. w)
        (Some \<lparr>press_value = 272, press_serial = 9, button_handler = Some (Other_handler 0)\<rparr>)
        pressed_window))))).
    press_serial c = 9 \<and> button_handler c = Some (Move_handler 1)"
  using ended_move_dangles [of pressed_window
      "\<lparr>press_value = 272, press_serial = 9, button_handler = Some (Other_handler 0)\<rparr>" "\<lambda>w. w"]
  by (simp add: pressed_window_def resizing_window_def Let_def)

end
