(* ===== verification/Window_Shell.thy ===== *)
theory Window_Shell
  imports Window
begin

text \<open>
  The interface between a window and the shell that implements it (\<open>struct window_impl\<close> of
  \<open>libswc/window.h\<close>): what \<open>window.c\<close> relies on from the callbacks, as a locale, and what it
  guarantees for every shell that keeps to it.  The steps of a window are the window manager's
  operations, the pointer events and the commits.
\<close>

section \<open>Steps\<close>

datatype window_op =
    Set_movable bool | Set_resizable bool | Set_minimized bool | Set_workspace int
  | Set_pinned bool | Set_stacked | Set_tiled | Set_tiled_edges mask
  | Set_fullscreen "swc_rectangle option" | Set_position int int | Set_size int int
  | Set_geometry swc_rectangle | End_move | End_resize
  | Begin_move "button option" | Begin_resize mask "button option"
  | Move_motion int int int | Resize_motion int int int
  | Button interaction_kind button bool | Commit | Resized int int | Screens mask mask
  | Manage | Unmanage | Set_title "string option" | Set_app_id "string option"
  | Set_parent "nat option" | Set_handler swc_window_handler | Set_raise_on_click bool

text \<open>
  The callbacks of the window manager on an interactive move or resize leave the window as it
  is here; \<open>begin_move_keeps\<close> and \<open>begin_resize_keeps\<close> are for any callback.
\<close>

fun window_step :: "'a window_scheme window_impl \<Rightarrow> window_op \<Rightarrow> 'a window_scheme \<Rightarrow> 'a window_scheme"
where
  "window_step impl (Set_movable b) w = swc_window_set_movable b w"
| "window_step impl (Set_resizable b) w = swc_window_set_resizable b w"
| "window_step impl (Set_minimized b) w = swc_window_set_minimized b w"
| "window_step impl (Set_workspace n) w = swc_window_set_workspace n w"
| "window_step impl (Set_pinned b) w = swc_window_set_pinned b w"
| "window_step impl Set_stacked w = swc_window_set_stacked impl w"
| "window_step impl Set_tiled w = swc_window_set_tiled impl w"
| "window_step impl (Set_tiled_edges e) w = swc_window_set_tiled_edges impl e w"
| "window_step impl (Set_fullscreen s) w = swc_window_set_fullscreen impl s w"
| "window_step impl (Set_position x y) w = swc_window_set_position impl x y w"
| "window_step impl (Set_size x y) w = swc_window_set_size impl x y w"
| "window_step impl (Set_geometry r) w = swc_window_set_geometry impl r w"
| "window_step impl End_move w = swc_window_end_move w"
| "window_step impl End_resize w = swc_window_end_resize w"
| "window_step impl (Begin_move b) w = window_begin_move (\<lambda>w. w) b w"
| "window_step impl (Begin_resize e b) w = window_begin_resize (\<lambda>w. w) e b w"
| "window_step impl (Move_motion t x y) w = move_motion t x y w"
| "window_step impl (Resize_motion t x y) w = resize_motion impl t x y w"
| "window_step impl (Button k b r) w = snd (handle_button k b r w)"
| "window_step impl Commit w = window_commit impl w"
| "window_step impl (Resized x y) w = handle_resize x y w"
| "window_step impl (Screens e l) w = handle_screens e l w"
| "window_step impl Manage w = window_manage w"
| "window_step impl Unmanage w = window_unmanage w"
| "window_step impl (Set_title t) w = window_set_title t w"
| "window_step impl (Set_app_id t) w = window_set_app_id t w"
| "window_step impl (Set_parent p) w = window_set_parent p w"
| "window_step impl (Set_handler h) w = swc_window_set_handler h w"
| "window_step impl (Set_raise_on_click b) w = swc_window_set_raise_on_click b w"

fun window_run ::
  "'a window_scheme window_impl \<Rightarrow> window_op list \<Rightarrow> 'a window_scheme \<Rightarrow> 'a window_scheme" where
  "window_run impl [] w = w"
| "window_run impl (s # ss) w = window_run impl ss (window_step impl s w)"

section \<open>The interface\<close>

text \<open>The invariant every step keeps.\<close>

definition window_inv :: "'a window_scheme \<Rightarrow> bool" where
  "window_inv w \<longleftrightarrow> interactions_linked w \<and> layer_ok w"

lemma window_inv_frame: "window_frame w = window_frame w' \<Longrightarrow> window_inv w = window_inv w'"
  unfolding window_inv_def using frame_linked frame_layer by blast

lemma window_inv_call [simp]: "window_inv (call c w) = window_inv w"
  by (simp add: window_inv_def)

lemma begin_move_keeps:
  assumes "\<And>v. window_inv v \<Longrightarrow> window_inv (on_move v)" and "window_inv w"
  shows "window_inv (window_begin_move on_move b w)"
proof (cases "movable w")
  case True
  define v where "v = (if mode w \<noteq> STACKED \<and> wm_move (handler w)
     then on_move (call (Wm Move_requested) w) else w)"
  have v: "window_inv v" using assms by (simp add: v_def)
  have "window_inv (begin_interaction Moving b v)" if "\<not> active (move_interaction (move v))"
    using v that by (simp add: window_inv_def interactions_linked_begin)
  then show ?thesis
    using True v unfolding window_begin_move_def Let_def v_def [symmetric]
    by (simp add: window_inv_def)
qed (use assms(2) in \<open>simp add: window_begin_move_def\<close>)

lemma begin_resize_keeps:
  assumes "\<And>v. window_inv v \<Longrightarrow> window_inv (on_resize v)" and "window_inv w"
  shows "window_inv (window_begin_resize on_resize e b w)"
proof (cases "resizable w")
  case True
  define v where "v = (if mode w \<noteq> STACKED \<and> wm_resize (handler w)
     then on_resize (call (Wm Resize_requested) w) else w)"
  have v: "window_inv v" using assms by (simp add: v_def)
  have "window_inv (begin_interaction Resizing b v)" if "\<not> active (resize_interaction (resize v))"
    using v that by (simp add: window_inv_def interactions_linked_begin)
  then show ?thesis
    using True v unfolding window_begin_resize_def Let_def v_def [symmetric]
    by (simp add: window_inv_def)
qed (use assms(2) in \<open>simp add: window_begin_resize_def\<close>)

lemma manage_inv [simp]:
  "window_inv (window_manage w) = window_inv w" "window_inv (window_unmanage w) = window_inv w"
  by (simp_all add: window_inv_def window_manage_def window_unmanage_def Let_def)

lemma plain_ops_inv:
  "window_inv w \<Longrightarrow> window_inv (swc_window_set_movable b w)"
  "window_inv w \<Longrightarrow> window_inv (swc_window_set_resizable b w)"
  "window_inv w \<Longrightarrow> window_inv (swc_window_set_minimized b w)"
  "window_inv w \<Longrightarrow> window_inv (swc_window_set_workspace n w)"
  "window_inv w \<Longrightarrow> window_inv (swc_window_set_handler h w)"
  "window_inv w \<Longrightarrow> window_inv (swc_window_set_raise_on_click b w)"
  "window_inv w \<Longrightarrow> window_inv (end_interaction k btn w)"
  "window_inv w \<Longrightarrow> window_inv (move_motion t x y w)"
  "window_inv w \<Longrightarrow> window_inv (snd (handle_button k bt r w))"
  "window_inv w \<Longrightarrow> window_inv (handle_resize x y w)"
  "window_inv w \<Longrightarrow> window_inv (window_set_title s w)"
  "window_inv w \<Longrightarrow> window_inv (window_set_app_id s w)"
  "window_inv w \<Longrightarrow> window_inv (window_set_parent p w)"
  by (auto simp: window_inv_def swc_window_set_movable_def swc_window_set_resizable_def
      swc_window_set_minimized_def swc_window_set_workspace_def swc_window_set_handler_def
      swc_window_set_raise_on_click_def move_motion_def handle_button_def handle_resize_def
      window_set_title_def window_set_app_id_def window_set_parent_def Let_def
      split: prod.splits)

lemma set_pinned_inv: "window_inv w \<Longrightarrow> window_inv (swc_window_set_pinned b w)"
  by (auto simp: window_inv_def swc_window_set_pinned_def Let_def)

text \<open>
  A callback may change the shell's own part of the state and the window's \<open>configure\<close>, but
  not the rest of the window; \<open>configure\<close> leaves the size it was asked for pending and
  unacknowledged.
\<close>

locale window_shell =
  fixes impl :: "'a window_scheme window_impl"
  assumes move_frame: "impl_move impl = Some f \<Longrightarrow> window_frame (f x y w) = window_frame w"
    and set_mode_frame: "impl_set_mode impl = Some g \<Longrightarrow> window_frame (g m w) = window_frame w"
    and edges_frame: "impl_set_tiled_edges impl = Some h \<Longrightarrow> window_frame (h e w) = window_frame w"
    and configure_frame: "window_frame (impl_configure impl c d w) = window_frame w"
    and configure_pends: "configure (impl_configure impl c d w) =
      \<lparr>configure_pending = True, configure_acknowledged = False,
        configure_width = c, configure_height = d\<rparr>"
    and move_configure: "impl_move impl = Some f \<Longrightarrow> configure (f x y w) = configure w"
begin

lemma inv_optional:
  "impl_move impl = Some f \<Longrightarrow> window_inv (f x y w) = window_inv w"
  "impl_set_mode impl = Some g \<Longrightarrow> window_inv (g m w) = window_inv w"
  "impl_set_tiled_edges impl = Some h \<Longrightarrow> window_inv (h e w) = window_inv w"
  "window_inv (impl_configure impl c d w) = window_inv w"
  by (rule window_inv_frame; simp add: move_frame set_mode_frame edges_frame configure_frame)+

lemma inv_linked:
  "impl_set_mode impl = Some g \<Longrightarrow> interactions_linked (g m w) = interactions_linked w"
  by (rule frame_linked) (simp add: set_mode_frame)

lemma flush_inv: "window_inv w \<Longrightarrow> window_inv (flush impl w)"
proof -
  assume w: "window_inv w"
  have "window_inv (case impl_move impl of Some f \<Rightarrow> f (move_x (move w)) (move_y (move w)) w
      | None \<Rightarrow> w)"
    using w by (simp add: inv_optional(1) split: option.splits)
  then show ?thesis
    using w by (simp add: flush_def Let_def window_inv_def)
qed

lemma set_position_inv: "window_inv w \<Longrightarrow> window_inv (swc_window_set_position impl x y w)"
  by (auto simp: swc_window_set_position_def Let_def window_inv_def
      intro!: flush_inv [unfolded window_inv_def])

lemma set_size_inv: "window_inv w \<Longrightarrow> window_inv (swc_window_set_size impl x y w)"
proof -
  assume w: "window_inv w"
  have "window_inv (impl_configure impl c d (w\<lparr>configure := cf\<rparr>))" for c d cf
    using w by (simp add: inv_optional(4)) (simp add: window_inv_def)
  then show ?thesis
    using w by (auto simp: swc_window_set_size_def Let_def split: prod.splits)
qed

lemma set_geometry_inv: "window_inv w \<Longrightarrow> window_inv (swc_window_set_geometry impl r w)"
  by (simp add: swc_window_set_geometry_def set_position_inv set_size_inv)

lemma set_stacked_inv: "window_inv w \<Longrightarrow> window_inv (swc_window_set_stacked impl w)"
  using flush_inv [of w]
  by (auto simp: swc_window_set_stacked_def Let_def window_inv_def inv_linked split: option.splits)

lemma set_tiled_inv: "window_inv w \<Longrightarrow> window_inv (swc_window_set_tiled impl w)"
  by (auto simp: swc_window_set_tiled_def Let_def window_inv_def inv_linked split: option.splits)

lemma set_tiled_edges_inv: "window_inv w \<Longrightarrow> window_inv (swc_window_set_tiled_edges impl e w)"
  by (auto simp: swc_window_set_tiled_edges_def Let_def inv_optional(3) split: option.splits)
    (simp_all add: window_inv_def)

lemma position_size_linked:
  "interactions_linked w \<Longrightarrow> interactions_linked (swc_window_set_position impl x y w)"
  "interactions_linked w \<Longrightarrow> interactions_linked (swc_window_set_size impl x y w)"
proof -
  assume w: "interactions_linked w"
  have f: "interactions_linked (g x y v) = interactions_linked v" if "impl_move impl = Some g"
    for g x y v using that by (intro frame_linked) (simp add: move_frame)
  have c: "interactions_linked (impl_configure impl x y v) = interactions_linked v" for x y v
    by (intro frame_linked) (simp add: configure_frame)
  show "interactions_linked (swc_window_set_position impl x y w)"
    using w f by (auto simp: swc_window_set_position_def flush_def Let_def split: option.splits)
  show "interactions_linked (swc_window_set_size impl x y w)"
    using w by (auto simp: swc_window_set_size_def Let_def c split: prod.splits)
qed

lemma set_fullscreen_inv: "window_inv w \<Longrightarrow> window_inv (swc_window_set_fullscreen impl s w)"
  by (cases s)
    (auto simp: swc_window_set_fullscreen_def Let_def window_inv_def swc_window_set_geometry_def
      inv_linked intro!: position_size_linked split: option.splits)

lemma resize_motion_inv: "window_inv w \<Longrightarrow> window_inv (resize_motion impl t x y w)"
  by (auto simp: resize_motion_def Let_def window_inv_def split: prod.splits
      intro!: set_size_inv [unfolded window_inv_def])

lemma commit_inv: "window_inv w \<Longrightarrow> window_inv (window_commit impl w)"
  using flush_inv [of w] by (auto simp: window_commit_def Let_def window_inv_def)

lemma step_inv: "window_inv w \<Longrightarrow> window_inv (window_step impl s w)"
  by (cases s)
    (auto intro: plain_ops_inv set_pinned_inv set_stacked_inv set_tiled_inv set_tiled_edges_inv
      set_fullscreen_inv set_position_inv set_size_inv set_geometry_inv begin_move_keeps
      begin_resize_keeps resize_motion_inv commit_inv
      simp: swc_window_end_move_def swc_window_end_resize_def handle_screens_def)

lemma run_inv: "window_inv w \<Longrightarrow> window_inv (window_run impl ss w)"
  by (induction ss arbitrary: w) (auto simp: step_inv)

text \<open>What a resize request leaves: nothing, or the limited size pending and unacknowledged.\<close>

lemma set_size_configure:
  "swc_window_set_size impl c d w = w \<or>
   configure (swc_window_set_size impl c d w) =
     \<lparr>configure_pending = True, configure_acknowledged = False,
      configure_width = fst (if mode w = STACKED then clamp_window_size w c d else (c, d)),
      configure_height = snd (if mode w = STACKED then clamp_window_size w c d else (c, d))\<rparr>"
  by (auto simp: swc_window_set_size_def Let_def configure_pends split: prod.splits)

lemma set_size_frame: "window_frame (swc_window_set_size impl c d w) = window_frame w"
  by (simp add: swc_window_set_size_def Let_def configure_frame split: prod.splits)

text \<open>A position asked for while a size is pending waits for the size's acknowledgement.\<close>

lemma set_geometry_deferred:
  assumes "configure_pending (configure (swc_window_set_size impl (rect_width r) (rect_height r) w))"
    and "\<not> (rect_x r = rect_x (view_geometry w) \<and> rect_y r = rect_y (view_geometry w))"
  shows "view_geometry (swc_window_set_geometry impl r w) = view_geometry w"
    "move_pending (move (swc_window_set_geometry impl r w))"
    "move_x (move (swc_window_set_geometry impl r w)) = rect_x r"
    "move_y (move (swc_window_set_geometry impl r w)) = rect_y r"
    "configure (swc_window_set_geometry impl r w) =
       configure (swc_window_set_size impl (rect_width r) (rect_height r) w)"
  using assms window_frame_fields(4) [OF set_size_frame [of "rect_width r" "rect_height r" w]]
  by (auto simp: swc_window_set_geometry_def swc_window_set_position_def Let_def)

lemma flush_view:
  "view_geometry (flush impl w) = (if move_pending (move w)
     then (view_geometry w)\<lparr>rect_x := move_x (move w), rect_y := move_y (move w)\<rparr>
     else view_geometry w)"
  "configure (flush impl w) = configure w"
  "\<not> move_pending (move (flush impl w))"
  by (cases "impl_move impl"; simp add: flush_def Let_def move_configure
      window_frame_fields(4,11) [OF move_frame])+

lemma commit_applies_move:
  assumes "configure_acknowledged (configure w)" "move_pending (move w)"
  shows "view_geometry (window_commit impl w) =
      (view_geometry w)\<lparr>rect_x := move_x (move w), rect_y := move_y (move w)\<rparr>"
    "\<not> configure_pending (configure (window_commit impl w))"
    "\<not> move_pending (move (window_commit impl w))"
  using assms by (simp_all add: window_commit_def Let_def flush_view)

end


section \<open>Invariants of a shell\<close>

text \<open>
  What a shell's own invariant may depend on: the shell's fields, the window's \<open>configure\<close>,
  its mode and its tiled edges.
\<close>

definition shell_part :: "'a window_scheme \<Rightarrow> 'a \<times> configure_state \<times> window_mode \<times> mask" where
  "shell_part w = (window.more w, configure w, mode w, tiled_edges w)"

lemma shell_part_call [simp]: "shell_part (call c w) = shell_part w"
  by (simp add: shell_part_def call_def)

lemma shell_part_update [simp]:
  "shell_part (w\<lparr>move := m\<rparr>) = shell_part w" "shell_part (w\<lparr>resize := r\<rparr>) = shell_part w"
  "shell_part (w\<lparr>base := b\<rparr>) = shell_part w" "shell_part (w\<lparr>handler := h\<rparr>) = shell_part w"
  "shell_part (w\<lparr>movable := g\<rparr>) = shell_part w" "shell_part (w\<lparr>resizable := g\<rparr>) = shell_part w"
  "shell_part (w\<lparr>minimized := g\<rparr>) = shell_part w" "shell_part (w\<lparr>managed := g\<rparr>) = shell_part w"
  "shell_part (w\<lparr>pinned := g\<rparr>) = shell_part w" "shell_part (w\<lparr>workspace := n\<rparr>) = shell_part w"
  "shell_part (w\<lparr>raise_on_click := g\<rparr>) = shell_part w"
  "shell_part (w\<lparr>seat_pointer := p\<rparr>) = shell_part w"
  "shell_part (w\<lparr>view_geometry := v\<rparr>) = shell_part w"
  "shell_part (w\<lparr>view_stack_layer := l\<rparr>) = shell_part w"
  by (simp_all add: shell_part_def)

lemma shell_part_interactions [simp]:
  "shell_part (set_interaction k i w) = shell_part w"
  "shell_part (link_handler h w) = shell_part w" "shell_part (unlink_handler h w) = shell_part w"
  "shell_part (map_buttons f w) = shell_part w"
  by (cases k; simp add: link_handler_def unlink_handler_def map_buttons_def)+

lemma shell_part_begin_end [simp]:
  "shell_part (begin_interaction k b w) = shell_part w"
  "shell_part (end_interaction k b w) = shell_part w"
  "shell_part (cancel_interaction k w) = shell_part w"
  by (auto simp: begin_interaction_def end_interaction_def cancel_interaction_def Let_def
      split: option.splits)

lemma shell_part_view [simp]:
  "shell_part (view_move x y w) = shell_part w"
  "shell_part (set_stack_layer l r w) = shell_part w"
  "shell_part (update_stack_layer w) = shell_part w"
  by (simp_all add: view_move_def set_stack_layer_def update_stack_layer_def)

lemma shell_part_flags [simp]:
  "shell_part (swc_window_set_movable b w) = shell_part w"
  "shell_part (swc_window_set_resizable b w) = shell_part w"
  "shell_part (swc_window_set_minimized b w) = shell_part w"
  "shell_part (swc_window_set_workspace n w) = shell_part w"
  "shell_part (swc_window_set_pinned b w) = shell_part w"
  "shell_part (swc_window_set_handler h w) = shell_part w"
  "shell_part (swc_window_set_raise_on_click b w) = shell_part w"
  by (simp_all add: swc_window_set_movable_def swc_window_set_resizable_def
      swc_window_set_minimized_def swc_window_set_workspace_def swc_window_set_pinned_def
      swc_window_set_handler_def swc_window_set_raise_on_click_def Let_def)

lemma shell_part_pointer [simp]:
  "shell_part (move_motion t x y w) = shell_part w"
  "shell_part (snd (handle_button k bt r w)) = shell_part w"
  "shell_part (window_begin_move (\<lambda>w. w) bo w) = shell_part w"
  "shell_part (window_begin_resize (\<lambda>w. w) e bo w) = shell_part w"
  by (simp_all add: move_motion_def handle_button_def window_begin_move_def
      window_begin_resize_def Let_def split: prod.splits)

lemma shell_part_life [simp]:
  "shell_part (handle_resize x y w) = shell_part w"
  "shell_part (handle_screens e l w) = shell_part w"
  "shell_part (window_manage w) = shell_part w" "shell_part (window_unmanage w) = shell_part w"
  "shell_part (window_set_title s w) = shell_part w"
  "shell_part (window_set_app_id s w) = shell_part w"
  "shell_part (window_set_parent p w) = shell_part w"
  by (simp_all add: handle_resize_def handle_screens_def window_manage_def window_unmanage_def
      window_set_title_def window_set_app_id_def window_set_parent_def Let_def)

text \<open>
  A predicate that each callback keeps, taken with the assignments \<open>window.c\<close> makes around the
  call, is kept by every step of the window.  The predicate may count: it holds at \<open>n\<close> after
  at most \<open>n\<close> callbacks that ask the client to configure itself, and a step makes at most two.
\<close>

locale shell_invariant =
  fixes impl :: "'a window_scheme window_impl" and P :: "nat \<Rightarrow> 'a window_scheme \<Rightarrow> bool"
  assumes P_Suc: "P n w \<Longrightarrow> P (Suc n) w"
    and P_cong: "shell_part w = shell_part w' \<Longrightarrow> P n w = P n w'"
    and P_move: "impl_move impl = Some f \<Longrightarrow> P n w \<Longrightarrow> P n (f x y w)"
    and P_configure: "P n w \<Longrightarrow> P (Suc n) (impl_configure impl c d (w\<lparr>configure := cf\<rparr>))"
    and P_set_mode: "impl_set_mode impl = Some g \<Longrightarrow> P n w \<Longrightarrow> P (Suc n) ((g m w)\<lparr>mode := m\<rparr>)"
    and P_mode: "impl_set_mode impl = None \<Longrightarrow> P n w \<Longrightarrow> P n (w\<lparr>mode := m\<rparr>)"
    and P_edges: "impl_set_tiled_edges impl = Some h \<Longrightarrow> P n w \<Longrightarrow> mode w = TILED \<Longrightarrow>
      P (Suc n) (h e (w\<lparr>tiled_edges := e\<rparr>))"
    and P_edges_only: "P n w \<Longrightarrow> mode w \<noteq> TILED \<or> impl_set_tiled_edges impl = None \<Longrightarrow>
      P n (w\<lparr>tiled_edges := e\<rparr>)"
    and P_settled: "P n w \<Longrightarrow> \<not> configure_pending cf \<Longrightarrow> P n (w\<lparr>configure := cf\<rparr>)"
begin

lemma P_same: "P n w \<Longrightarrow> shell_part w' = shell_part w \<Longrightarrow> P n w'"
  using P_cong by blast

lemma P_flush: "P n w \<Longrightarrow> P n (flush impl w)"
proof -
  assume w: "P n w"
  define v where "v = (case impl_move impl of Some f \<Rightarrow> f (move_x (move w)) (move_y (move w)) w
      | None \<Rightarrow> w)"
  have "P n v" using w P_move by (simp add: v_def split: option.splits)
  then have "P n ((view_move (move_x (move v)) (move_y (move v)) v)
      \<lparr>move := (move v)\<lparr>move_pending := False\<rparr>\<rparr>)"
    by (rule P_same) simp
  then show ?thesis using w by (simp add: flush_def Let_def v_def)
qed

lemma P_set_position: "P n w \<Longrightarrow> P n (swc_window_set_position impl x y w)"
proof -
  assume w: "P n w"
  have m: "P n (w\<lparr>move := m\<rparr>)" for m using w by (rule P_same) simp
  show ?thesis
    using m P_flush by (simp add: swc_window_set_position_def Let_def)
qed

lemma P_set_size: "P n w \<Longrightarrow> P (Suc n) (swc_window_set_size impl c d w)"
  using P_configure P_Suc by (simp add: swc_window_set_size_def Let_def split: prod.splits)

lemma P_set_geometry: "P n w \<Longrightarrow> P (Suc n) (swc_window_set_geometry impl r w)"
  by (simp add: swc_window_set_geometry_def P_set_position P_set_size)

lemma P_enter_mode:
  "P n w \<Longrightarrow> P (Suc n) ((case impl_set_mode impl of Some f \<Rightarrow> f m w | None \<Rightarrow> w)\<lparr>mode := m\<rparr>)"
  using P_set_mode P_mode P_Suc by (cases "impl_set_mode impl") simp_all

lemma P_ended: "P n w \<Longrightarrow> P n (end_interaction Resizing None (end_interaction Moving None w))"
  by (rule P_same) simp_all

lemma P_set_stacked: "P n w \<Longrightarrow> P (Suc n) (swc_window_set_stacked impl w)"
proof -
  assume "P n w"
  then have "P n ((flush impl w)\<lparr>configure := \<lparr>configure_pending = False,
      configure_acknowledged = False, configure_width = 0, configure_height = 0\<rparr>\<rparr>)"
    by (intro P_settled P_flush) simp_all
  from P_enter_mode [OF this, of STACKED] show ?thesis
    unfolding swc_window_set_stacked_def Let_def by (rule P_same) simp
qed

lemma P_set_tiled: "P n w \<Longrightarrow> P (Suc n) (swc_window_set_tiled impl w)"
proof -
  assume "P n w"
  from P_enter_mode [OF P_ended [OF this], of TILED] show ?thesis
    unfolding swc_window_set_tiled_def Let_def by (rule P_same) simp
qed

lemma P_set_tiled_edges: "P n w \<Longrightarrow> P (Suc n) (swc_window_set_tiled_edges impl e w)"
  using P_edges P_edges_only P_Suc
  by (auto simp: swc_window_set_tiled_edges_def Let_def split: option.splits)

lemma P_set_fullscreen: "P n w \<Longrightarrow> P (Suc (Suc n)) (swc_window_set_fullscreen impl s w)"
proof (cases s)
  case (Some g)
  assume "P n w"
  define v where "v = end_interaction Resizing None (end_interaction Moving None w)"
  define u where "u = (if mode v \<noteq> FULLSCREEN
     then (case impl_set_mode impl of Some f \<Rightarrow> f FULLSCREEN v | None \<Rightarrow> v) else v)
     \<lparr>mode := FULLSCREEN\<rparr>"
  have v: "P n v" using \<open>P n w\<close> by (simp add: v_def P_ended)
  have "P (Suc n) u"
  proof (cases "mode v = FULLSCREEN")
    case True
    then have "u = v" by (simp add: u_def)
    then show ?thesis using v P_Suc by simp
  qed (use P_enter_mode [OF v] in \<open>simp add: u_def\<close>)
  then have "P (Suc (Suc n)) (swc_window_set_geometry impl g u)" by (rule P_set_geometry)
  then show ?thesis
    unfolding swc_window_set_fullscreen_def Let_def Some option.case v_def [symmetric]
      u_def [symmetric] by (rule P_same) simp
qed (simp add: swc_window_set_fullscreen_def P_Suc)

lemma P_resize_motion: "P n w \<Longrightarrow> P (Suc n) (resize_motion impl t x y w)"
proof -
  assume w: "P n w"
  have r: "P n (w\<lparr>resize := r\<rparr>)" for r using w by (rule P_same) simp
  show ?thesis
    using P_set_size [OF r] P_Suc [OF r]
    by (simp add: resize_motion_def Let_def split: prod.splits)
qed

lemma P_commit: "P n w \<Longrightarrow> P n (window_commit impl w)"
  using P_settled [OF P_flush] by (simp add: window_commit_def Let_def)

lemma P_plain:
  assumes "P n w" "shell_part w' = shell_part w"
  shows "P (Suc (Suc n)) w'"
  using P_same [OF assms] by (intro P_Suc)

lemma P_step:
  assumes "P n w"
  shows "P (Suc (Suc n)) (window_step impl s w)"
proof (cases s)
  case Set_stacked then show ?thesis using assms by (simp add: P_set_stacked P_Suc)
next
  case Set_tiled then show ?thesis using assms by (simp add: P_set_tiled P_Suc)
next
  case Set_tiled_edges then show ?thesis using assms by (simp add: P_set_tiled_edges P_Suc)
next
  case Set_fullscreen then show ?thesis using assms by (simp add: P_set_fullscreen)
next
  case Set_position then show ?thesis using assms by (simp add: P_set_position P_Suc)
next
  case Set_size then show ?thesis using assms by (simp add: P_set_size P_Suc)
next
  case Set_geometry then show ?thesis using assms by (simp add: P_set_geometry P_Suc)
next
  case Resize_motion then show ?thesis using assms by (simp add: P_resize_motion P_Suc)
next
  case Commit then show ?thesis using assms by (simp add: P_commit P_Suc)
qed (rule P_plain [OF assms], simp add: swc_window_end_move_def swc_window_end_resize_def)+

lemma P_run: "P n w \<Longrightarrow> P (n + 2 * length ss) (window_run impl ss w)"
proof (induction ss arbitrary: n w)
  case (Cons s ss)
  from Cons.IH [OF P_step [OF Cons.prems]] show ?case by simp
qed simp

end

end
