(* ===== verification/Configure_Queue.thy ===== *)
theory Configure_Queue
  imports Prelude
begin

text \<open>
  The configure events a shell has sent and its client has not acknowledged: the contract that
  the toplevels and popups of \<open>libswc/xdg_shell.c\<close> and the layer surfaces of
  \<open>libswc/layer_shell.c\<close> share.  \<open>live\<close> says that the surface still takes requests.  Each provider interprets the locale on its own send and
  acknowledge code; the lemmas here are proved once, for any of them.
\<close>

section \<open>Runs of a queue\<close>

text \<open>
  \<open>Send alloc serial\<close> sends a configure with that serial, \<open>alloc\<close> telling whether its
  allocation succeeds; \<open>Ack serial\<close> is the client's request.
\<close>

datatype queue_op = Send bool int | Ack int

fun queue_run ::
  "(bool \<Rightarrow> int \<Rightarrow> 's \<Rightarrow> 's) \<Rightarrow> (int \<Rightarrow> 's \<Rightarrow> 's) \<Rightarrow> queue_op list \<Rightarrow> 's \<Rightarrow> 's" where
  "queue_run push ack [] q = q"
| "queue_run push ack (Send a s # ops) q = queue_run push ack ops (push a s q)"
| "queue_run push ack (Ack s # ops) q = queue_run push ack ops (ack s q)"

text \<open>The serials the operations send, in order.\<close>

fun sent_serials :: "queue_op list \<Rightarrow> int list" where
  "sent_serials [] = []"
| "sent_serials (Send a s # ops) = s # sent_serials ops"
| "sent_serials (Ack s # ops) = sent_serials ops"

section \<open>The contract\<close>

locale configure_queue =
  fixes live :: "'s \<Rightarrow> bool"
    and serials :: "'s \<Rightarrow> int list"
    and counted :: "'s \<Rightarrow> int"
    and limit :: int
    and push :: "bool \<Rightarrow> int \<Rightarrow> 's \<Rightarrow> 's"
    and ack :: "int \<Rightarrow> 's \<Rightarrow> 's"
    and accepted :: "int \<Rightarrow> 's \<Rightarrow> bool"
  assumes limit_pos: "0 < limit"
    and push_live: "live q \<Longrightarrow> live (push a s q)"
    and push_serials: "live q \<Longrightarrow> serials (push a s q) =
      (if a \<and> counted q < limit then serials q @ [s] else serials q)"
    and push_counted: "live q \<Longrightarrow> counted (push a s q) =
      (if a \<and> counted q < limit then counted q + 1 else counted q)"
    and accepted_iff: "live q \<Longrightarrow> accepted s q \<longleftrightarrow> s \<in> set (serials q)"
    and ack_live: "live q \<Longrightarrow> live (ack s q)"
    and ack_serials: "live q \<Longrightarrow> serials (ack s q) =
      (if accepted s q then drop_through (\<lambda>x. x = s) (serials q) else serials q)"
    and ack_counted: "live q \<Longrightarrow> counted q = int (length (serials q)) \<Longrightarrow> counted q \<le> limit \<Longrightarrow>
      counted (ack s q) = int (length (serials (ack s q)))"
begin

definition queue_ok :: "'s \<Rightarrow> bool" where
  "queue_ok q \<longleftrightarrow> live q \<and> counted q = int (length (serials q)) \<and> counted q \<le> limit"

lemma push_ok: "queue_ok q \<Longrightarrow> queue_ok (push a s q)"
  by (auto simp: queue_ok_def push_live push_serials push_counted)

lemma ack_ok: "queue_ok q \<Longrightarrow> queue_ok (ack s q)"
  using length_drop_through_le [of "\<lambda>x. x = s" "serials q"]
  by (auto simp: queue_ok_def ack_live ack_counted ack_serials)

lemma run_ok: "queue_ok q \<Longrightarrow> queue_ok (queue_run push ack ops q)"
proof (induction ops arbitrary: q)
  case (Cons p ops)
  then show ?case by (cases p) (simp_all add: push_ok ack_ok)
qed simp

text \<open>An acknowledgement retires its configure and every older one, and keeps the newer ones.\<close>

lemma ack_split:
  assumes "live q" "distinct (serials q)" "serials q = older @ s # newer"
  shows "serials (ack s q) = newer"
proof -
  have "\<forall>x \<in> set older. x \<noteq> s" using assms by auto
  then show ?thesis using assms(1,3) by (simp add: ack_serials accepted_iff drop_through_append_notin)
qed

lemma ack_once:
  assumes "live q" "distinct (serials q)" "accepted s q"
  shows "\<not> accepted s (ack s q)"
proof -
  obtain older newer where q: "serials q = older @ s # newer"
    using assms(3) unfolding accepted_iff [OF assms(1)] by (meson split_list)
  then show ?thesis
    using assms(2) ack_split [OF assms(1,2) q] by (simp add: accepted_iff ack_live assms(1))
qed

lemma ack_rejected: "live q \<Longrightarrow> \<not> accepted s q \<Longrightarrow> serials (ack s q) = serials q"
  by (simp add: ack_serials)

text \<open>The serials outstanding are the ones sent, in order, less what was acknowledged.\<close>

lemma sublist_ack: "live q \<Longrightarrow> \<exists>xs. serials q = xs @ serials (ack s q)"
proof -
  have "\<exists>xs. l = xs @ drop_through P l" for l :: "int list" and P
  proof (induction l)
    case (Cons x l)
    then obtain xs where xs: "l = xs @ drop_through P l" ..
    show ?case
    proof (cases "P x")
      case True
      then have "x # l = [x] @ drop_through P (x # l)" by simp
      then show ?thesis ..
    next
      case False
      then have "x # l = (x # xs) @ drop_through P (x # l)" using xs by simp
      then show ?thesis ..
    qed
  qed simp
  then show "live q \<Longrightarrow> ?thesis" by (cases "accepted s q") (simp_all add: ack_serials)
qed

lemma run_distinct:
  assumes "live q" and "distinct (serials q @ sent_serials ops)"
  shows "live (queue_run push ack ops q) \<and> distinct (serials (queue_run push ack ops q))"
  using assms
proof (induction ops arbitrary: q)
  case (Cons p ops)
  show ?case
  proof (cases p)
    case (Send a s)
    then show ?thesis using Cons by (auto simp: push_serials push_live)
  next
    case (Ack s)
    obtain xs where "serials q = xs @ serials (ack s q)"
      using sublist_ack Cons.prems(1) by blast
    then have "distinct (xs @ serials (ack s q) @ sent_serials ops)"
      using Cons.prems(2) Ack by (metis append_assoc sent_serials.simps(3))
    then show ?thesis using Cons.IH Cons.prems(1) Ack by (simp add: ack_live)
  qed
qed simp

text \<open>However the client answers, no serial is accepted a second time.\<close>

lemma run_ack_once:
  assumes "live q" and "distinct (serials q @ sent_serials ops)"
    and "accepted s (queue_run push ack ops q)"
  shows "\<not> accepted s (ack s (queue_run push ack ops q))"
  using run_distinct [OF assms(1,2)] assms(3) ack_once by blast

end

end
