(* ===== verification/Toplevel.thy ===== *)
theory Toplevel
  imports Window_Shell Configure_Queue
begin

text \<open>
  Toplevels (\<open>libswc/xdg_shell.c\<close>): the window implementation behind an \<open>xdg_toplevel\<close>, its
  states, and the configure events it sends and sees acknowledged.

  \<open>struct xdg_toplevel\<close> embeds its \<open>struct window\<close>, so its record extends the window's.  The
  events sent to the client are recorded in order.  \<open>states_alloc\<close> and \<open>idle_alloc\<close> tell
  whether \<open>wl_array_add\<close> and \<open>wl_event_loop_add_idle\<close> can allocate.
\<close>

section \<open>State\<close>

datatype xdg_toplevel_state = ST_MAXIMIZED | ST_FULLSCREEN | ST_RESIZING | ST_ACTIVATED
  | ST_TILED_LEFT | ST_TILED_RIGHT | ST_TILED_TOP | ST_TILED_BOTTOM

datatype xdg_error = TOPLEVEL_INVALID_SIZE | SURFACE_INVALID_SERIAL | SURFACE_INVALID_SIZE
  | WM_BASE_ROLE | WM_BASE_INVALID_POSITIONER | WM_BASE_INVALID_POPUP_PARENT

datatype wm_capability = CAP_MAXIMIZE | CAP_MINIMIZE | CAP_FULLSCREEN

datatype toplevel_event =
    Configure_bounds int int
  | Toplevel_configure int int "xdg_toplevel_state list"
  | Surface_configure int
  | Close_sent
  | Wm_capabilities "wm_capability list"
  | Post_error xdg_error
  | Post_no_memory

record toplevel_configure =
  tc_serial :: int
  tc_generation :: int

record toplevel_pending =
  pending_min_width :: int
  pending_min_height :: int
  pending_max_width :: int
  pending_max_height :: int
  min_dirty :: bool
  max_dirty :: bool

record xdg_toplevel = window +
  t_version :: nat
  states :: "xdg_toplevel_state list"
  configures :: "toplevel_configure list"
  configure_idle :: bool
  generation :: int
  configure_count :: int
  initial_commit :: bool
  destroying :: bool
  t_pending :: toplevel_pending
  states_alloc :: bool
  idle_alloc :: bool
  sent :: "toplevel_event list"

definition TILED_LEFT_SINCE_VERSION :: nat where "TILED_LEFT_SINCE_VERSION = 2"
definition CONFIGURE_BOUNDS_SINCE_VERSION :: nat where "CONFIGURE_BOUNDS_SINCE_VERSION = 4"
definition WM_CAPABILITIES_SINCE_VERSION :: nat where "WM_CAPABILITIES_SINCE_VERSION = 5"

definition send :: "toplevel_event list \<Rightarrow> xdg_toplevel \<Rightarrow> xdg_toplevel" where
  "send es t = t\<lparr>sent := sent t @ es\<rparr>"

section \<open>States\<close>

text \<open>\<open>add_state\<close> and \<open>remove_state\<close> also say whether the array changed.\<close>

definition add_state :: "xdg_toplevel_state \<Rightarrow> xdg_toplevel \<Rightarrow> bool \<times> xdg_toplevel" where
  "add_state s t =
     (if s \<in> set (states t) then (False, t)
      else if \<not> states_alloc t then (False, t)
      else (True, t\<lparr>states := states t @ [s]\<rparr>))"

definition remove_state :: "xdg_toplevel_state \<Rightarrow> xdg_toplevel \<Rightarrow> bool \<times> xdg_toplevel" where
  "remove_state s t =
     (if s \<in> set (states t) then (True, t\<lparr>states := remove1 s (states t)\<rparr>) else (False, t))"

text \<open>The table \<open>map\<close> of \<open>set_tiled_states\<close>.\<close>

definition tiled_map :: "(mask \<times> xdg_toplevel_state) list" where
  "tiled_map = [(SWC_WINDOW_EDGE_LEFT, ST_TILED_LEFT), (SWC_WINDOW_EDGE_RIGHT, ST_TILED_RIGHT),
     (SWC_WINDOW_EDGE_TOP, ST_TILED_TOP), (SWC_WINDOW_EDGE_BOTTOM, ST_TILED_BOTTOM)]"

fun tiled_loop :: "bool \<Rightarrow> mask \<Rightarrow> (mask \<times> xdg_toplevel_state) list \<Rightarrow> bool \<times> xdg_toplevel \<Rightarrow>
    bool \<times> xdg_toplevel" where
  "tiled_loop tiled edges [] r = r"
| "tiled_loop tiled edges ((edge, state) # m) (changed, t) =
     (let (c, t) = (if tiled \<and> has edges edge then add_state state t else remove_state state t)
      in tiled_loop tiled edges m (changed \<or> c, t))"

definition set_tiled_states :: "mask \<Rightarrow> xdg_toplevel \<Rightarrow> bool \<times> xdg_toplevel" where
  "set_tiled_states edges t =
     (let tiled = (edges \<noteq> 0 \<and> TILED_LEFT_SINCE_VERSION \<le> t_version t);
          (changed, t) = tiled_loop tiled edges tiled_map (False, t);
          (c, t) = (if tiled then remove_state ST_MAXIMIZED t else add_state ST_MAXIMIZED t)
      in (changed \<or> c, t))"

definition clear_tiled_states :: "xdg_toplevel \<Rightarrow> xdg_toplevel" where
  "clear_tiled_states t =
     (let t = snd (remove_state ST_MAXIMIZED t); t = snd (remove_state ST_TILED_LEFT t);
          t = snd (remove_state ST_TILED_RIGHT t); t = snd (remove_state ST_TILED_TOP t)
      in snd (remove_state ST_TILED_BOTTOM t))"

section \<open>Configure events\<close>

definition queue_configure :: "xdg_toplevel \<Rightarrow> xdg_toplevel" where
  "queue_configure t =
     (if destroying t \<or> \<not> initial_commit t \<or> configure_idle t then t
      else let t = t\<lparr>configure_idle := idle_alloc t\<rparr>
           in if \<not> configure_idle t then send [Post_no_memory] t else t)"

text \<open>
  \<open>on\<close> is the view's screen mask, \<open>screens\<close> the list \<open>swc.screens\<close>: the first screen the
  window is on, or the first of all when it is on none.
\<close>

definition send_configure_bounds :: "mask \<Rightarrow> screen list \<Rightarrow> xdg_toplevel \<Rightarrow> xdg_toplevel" where
  "send_configure_bounds on screens t =
     (if t_version t < CONFIGURE_BOUNDS_SINCE_VERSION then t
      else case find (\<lambda>s. \<not> (on \<noteq> 0 \<and> \<not> has on (screen_mask s))) screens of
        None \<Rightarrow> t
      | Some s \<Rightarrow> send [Configure_bounds (s32 (rect_width (usable_geometry s)))
                                     (s32 (rect_height (usable_geometry s)))] t)"

text \<open>
  The idle callback.  \<open>alloc\<close> tells whether \<open>calloc\<close> succeeds, \<open>ser\<close> is what
  \<open>wl_display_next_serial\<close> returns.
\<close>

definition send_configure ::
  "mask \<Rightarrow> screen list \<Rightarrow> bool \<Rightarrow> int \<Rightarrow> xdg_toplevel \<Rightarrow> xdg_toplevel" where
  "send_configure on screens alloc ser t =
     (let t = t\<lparr>configure_idle := False\<rparr>
      in if configure_count t \<ge> 1024 then send [Post_no_memory] t
         else if \<not> alloc then send [Post_no_memory] t
         else
           let t = t\<lparr>configures := configures t @
                 [\<lparr>tc_serial = ser, tc_generation = generation t\<rparr>],
                 configure_count := configure_count t + 1\<rparr>;
               c = configure t;
               width = (if configure_pending c then configure_width c
                        else rect_width (view_geometry t));
               height = (if configure_pending c then configure_height c
                         else rect_height (view_geometry t));
               t = send_configure_bounds on screens t
           in send [Toplevel_configure width height (states t), Surface_configure ser] t)"

text \<open>\<open>++toplevel->generation\<close> on a \<open>uint64_t\<close>.\<close>

definition bump_generation :: "xdg_toplevel \<Rightarrow> xdg_toplevel" where
  "bump_generation t = t\<lparr>generation := (generation t + 1) mod 18446744073709551616\<rparr>"

section \<open>The window implementation\<close>

definition toplevel_configure_size :: "int \<Rightarrow> int \<Rightarrow> xdg_toplevel \<Rightarrow> xdg_toplevel" where
  "toplevel_configure_size width height t =
     (let t = t\<lparr>configure := \<lparr>configure_pending = True, configure_acknowledged = False,
            configure_width = width, configure_height = height\<rparr>\<rparr>
      in queue_configure (bump_generation t))"

definition toplevel_focus :: "xdg_toplevel \<Rightarrow> xdg_toplevel" where
  "toplevel_focus t =
     (let (changed, t) = add_state ST_ACTIVATED t in if changed then queue_configure t else t)"

definition toplevel_unfocus :: "xdg_toplevel \<Rightarrow> xdg_toplevel" where
  "toplevel_unfocus t =
     (let (changed, t) = remove_state ST_ACTIVATED t in if changed then queue_configure t else t)"

definition toplevel_close :: "xdg_toplevel \<Rightarrow> xdg_toplevel" where
  "toplevel_close t = send [Close_sent] t"

definition toplevel_set_mode :: "window_mode \<Rightarrow> xdg_toplevel \<Rightarrow> xdg_toplevel" where
  "toplevel_set_mode m t =
     (let t = (case mode t of
                 TILED \<Rightarrow> clear_tiled_states t
               | FULLSCREEN \<Rightarrow> snd (remove_state ST_FULLSCREEN t)
               | STACKED \<Rightarrow> t);
          t = (case m of
                 TILED \<Rightarrow> snd (set_tiled_states (tiled_edges t) t)
               | FULLSCREEN \<Rightarrow> snd (add_state ST_FULLSCREEN t)
               | STACKED \<Rightarrow> t);
          t = bump_generation t;
          t = t\<lparr>configure := (configure t)\<lparr>configure_acknowledged := False\<rparr>\<rparr>
      in queue_configure t)"

definition toplevel_set_tiled_edges :: "mask \<Rightarrow> xdg_toplevel \<Rightarrow> xdg_toplevel" where
  "toplevel_set_tiled_edges edges t =
     (if mode t \<noteq> TILED then t
      else
        let (changed, t) = set_tiled_states edges t
        in if changed then queue_configure (bump_generation t) else t)"

definition toplevel_window_impl :: "xdg_toplevel window_impl" where
  "toplevel_window_impl = \<lparr>impl_move = None, impl_configure = toplevel_configure_size,
     impl_focus = Some toplevel_focus, impl_unfocus = Some toplevel_unfocus,
     impl_close = Some toplevel_close, impl_set_mode = Some toplevel_set_mode,
     impl_set_tiled_edges = Some toplevel_set_tiled_edges\<rparr>"

section \<open>Requests\<close>

definition set_max_size :: "int \<Rightarrow> int \<Rightarrow> xdg_toplevel \<Rightarrow> xdg_toplevel" where
  "set_max_size width height t =
     (if width < 0 \<or> height < 0 then send [Post_error TOPLEVEL_INVALID_SIZE] t
      else t\<lparr>t_pending := (t_pending t)\<lparr>pending_max_width := u32 width,
             pending_max_height := u32 height, max_dirty := True\<rparr>\<rparr>)"

definition set_min_size :: "int \<Rightarrow> int \<Rightarrow> xdg_toplevel \<Rightarrow> xdg_toplevel" where
  "set_min_size width height t =
     (if width < 0 \<or> height < 0 then send [Post_error TOPLEVEL_INVALID_SIZE] t
      else t\<lparr>t_pending := (t_pending t)\<lparr>pending_min_width := u32 width,
             pending_min_height := u32 height, min_dirty := True\<rparr>\<rparr>)"

definition move_request :: "int \<Rightarrow> xdg_toplevel \<Rightarrow> xdg_toplevel" where
  "move_request s t =
     (case pointer_get_button (seat_pointer t) s of
        Some b \<Rightarrow> window_begin_move (\<lambda>w. w) (Some b) t
      | None \<Rightarrow> t)"

definition resize_request :: "int \<Rightarrow> mask \<Rightarrow> xdg_toplevel \<Rightarrow> xdg_toplevel" where
  "resize_request s edges t =
     (case pointer_get_button (seat_pointer t) s of
        Some b \<Rightarrow> window_begin_resize (\<lambda>w. w) edges (Some b) t
      | None \<Rightarrow> t)"

definition handle_toplevel_surface_commit :: "xdg_toplevel \<Rightarrow> xdg_toplevel" where
  "handle_toplevel_surface_commit t =
     (let t = (if \<not> initial_commit t then queue_configure (t\<lparr>initial_commit := True\<rparr>) else t);
          t = window_commit toplevel_window_impl t;
          p = t_pending t; b = base t;
          min_w = (if min_dirty p then pending_min_width p else min_width b);
          min_h = (if min_dirty p then pending_min_height p else min_height b);
          max_w = (if max_dirty p then pending_max_width p else max_width b);
          max_h = (if max_dirty p then pending_max_height p else max_height b)
      in if (min_w \<noteq> 0 \<and> max_w \<noteq> 0 \<and> min_w > max_w) \<or> (min_h \<noteq> 0 \<and> max_h \<noteq> 0 \<and> min_h > max_h)
         then send [Post_error TOPLEVEL_INVALID_SIZE] t
         else
           let t = (if min_dirty p
                    then t\<lparr>base := (base t)\<lparr>min_width := pending_min_width p,
                             min_height := pending_min_height p\<rparr>,
                           t_pending := (t_pending t)\<lparr>min_dirty := False\<rparr>\<rparr>
                    else t)
           in if max_dirty p
              then t\<lparr>base := (base t)\<lparr>max_width := pending_max_width p,
                       max_height := pending_max_height p\<rparr>,
                     t_pending := (t_pending t)\<lparr>max_dirty := False\<rparr>\<rparr>
              else t)"

text \<open>The toplevel branch of \<open>ack_configure\<close>.\<close>

definition toplevel_ack_configure :: "int \<Rightarrow> xdg_toplevel \<Rightarrow> xdg_toplevel" where
  "toplevel_ack_configure ser t =
     (case find (\<lambda>c. tc_serial c = ser) (configures t) of
        None \<Rightarrow> send [Post_error SURFACE_INVALID_SERIAL] t
      | Some match \<Rightarrow>
          let t = t\<lparr>configure := (configure t)\<lparr>configure_acknowledged :=
                (tc_generation match = generation t)\<rparr>\<rparr>;
              rest = drop_through (\<lambda>c. tc_serial c = ser) (configures t)
          in t\<lparr>configures := rest,
               configure_count := u32 (configure_count t -
                 (int (length (configures t)) - int (length rest)))\<rparr>)"

definition send_wm_capabilities :: "xdg_toplevel \<Rightarrow> xdg_toplevel" where
  "send_wm_capabilities t =
     (if t_version t < WM_CAPABILITIES_SINCE_VERSION then t
      else send [Wm_capabilities [CAP_MAXIMIZE, CAP_MINIMIZE, CAP_FULLSCREEN]] t)"

text \<open>
  The structure \<open>xdg_toplevel_new\<close> allocates with \<open>calloc\<close>, for a client's version; the seat's
  pointer is part of the window's state.
\<close>

definition zeroed_toplevel :: "nat \<Rightarrow> nat \<Rightarrow> pointer \<Rightarrow> bool \<Rightarrow> bool \<Rightarrow> xdg_toplevel" where
  "zeroed_toplevel i version p states_ok idle_ok =
     (let no_interaction = \<lparr>active = False, serial = 0, original_handler = None\<rparr>
      in \<lparr>win_id = i,
        base = \<lparr>title = None, app_id = None, parent = None, motion_throttle_ms = 0,
          min_width = 0, min_height = 0, max_width = 0, max_height = 0\<rparr>,
        handler = null_handler, view_geometry = mk_rect 0 0 0 0, view_stack_layer = 0,
        managed = False, minimized = False, raise_on_click = False, movable = False,
        resizable = False, pinned = False, mode = STACKED, workspace = 0,
        move = \<lparr>move_interaction = no_interaction, move_offset_x = 0, move_offset_y = 0,
          move_pending = False, move_x = 0, move_y = 0, move_last_time = 0\<rparr>,
        resize = \<lparr>resize_interaction = no_interaction, resize_offset_x = 0,
          resize_offset_y = 0, resize_edges = 0, resize_last_time = 0\<rparr>,
        configure = \<lparr>configure_pending = False, configure_acknowledged = False,
          configure_width = 0, configure_height = 0\<rparr>,
        tiled_edges = 0, seat_alive = True, seat_pointer = p, calls = [],
        t_version = version, states = [], configures = [], configure_idle = False,
        generation = 0, configure_count = 0, initial_commit = False, destroying = False,
        t_pending = \<lparr>pending_min_width = 0, pending_min_height = 0, pending_max_width = 0,
          pending_max_height = 0, min_dirty = False, max_dirty = False\<rparr>,
        states_alloc = states_ok, idle_alloc = idle_ok, sent = []\<rparr>)"

lemma zeroed_toplevel_fields [simp]:
  "generation (zeroed_toplevel i v p a d) = 0" "configure_count (zeroed_toplevel i v p a d) = 0"
  "states_alloc (zeroed_toplevel i v p a d) = a"
  "seat_pointer (zeroed_toplevel i v p a d) = p" "win_id (zeroed_toplevel i v p a d) = i"
  by (simp_all add: zeroed_toplevel_def Let_def)

text \<open>
  \<open>xdg_toplevel_new\<close>, once the allocations and the surface's role have succeeded: \<open>t\<close> is the
  zeroed structure, \<open>acquired\<close> as for \<open>window_initialize\<close>.
\<close>

definition xdg_toplevel_new ::
  "(swc_rectangle \<times> nat) option \<Rightarrow> xdg_toplevel \<Rightarrow> xdg_toplevel option" where
  "xdg_toplevel_new acquired t =
     (case window_initialize acquired t of None \<Rightarrow> None
      | Some t \<Rightarrow>
          let t = t\<lparr>states := [], configures := []\<rparr>
          in Some (window_manage (send_wm_capabilities t)))"

definition destroy_toplevel :: "xdg_toplevel \<Rightarrow> xdg_toplevel" where
  "destroy_toplevel t =
     (let t = t\<lparr>destroying := True, configure_idle := False, configures := []\<rparr>;
          t = window_finalize t
      in t\<lparr>states := []\<rparr>)"

section \<open>Steps\<close>

text \<open>
  What happens to a toplevel: the window's steps, the keyboard focus, the client's requests and
  commits, and the event loop running the idle callback if it is queued.
\<close>

datatype toplevel_op =
    Win window_op | Focus | Unfocus | Close
  | Idle mask "screen list" bool int
  | Ack_configure int | Surface_commit
  | Set_max_size int int | Set_min_size int int
  | Move_request int | Resize_request int mask

fun toplevel_step :: "toplevel_op \<Rightarrow> xdg_toplevel \<Rightarrow> xdg_toplevel" where
  "toplevel_step (Win s) t = window_step toplevel_window_impl s t"
| "toplevel_step Focus t = toplevel_focus t"
| "toplevel_step Unfocus t = toplevel_unfocus t"
| "toplevel_step Close t = toplevel_close t"
| "toplevel_step (Idle on screens alloc ser) t =
     (if configure_idle t then send_configure on screens alloc ser t else t)"
| "toplevel_step (Ack_configure ser) t = toplevel_ack_configure ser t"
| "toplevel_step Surface_commit t = handle_toplevel_surface_commit t"
| "toplevel_step (Set_max_size w h) t = set_max_size w h t"
| "toplevel_step (Set_min_size w h) t = set_min_size w h t"
| "toplevel_step (Move_request s) t = move_request s t"
| "toplevel_step (Resize_request s e) t = resize_request s e t"

fun toplevel_run :: "toplevel_op list \<Rightarrow> xdg_toplevel \<Rightarrow> xdg_toplevel" where
  "toplevel_run [] t = t"
| "toplevel_run (s # ss) t = toplevel_run ss (toplevel_step s t)"

section \<open>What the operations leave alone\<close>

text \<open>The callbacks leave the window's own part of the state as it is.\<close>

lemma window_frame_basic [simp]:
  "window_frame (send es t) = window_frame t"
  "window_frame (bump_generation t) = window_frame t"
  "window_frame (snd (add_state s t)) = window_frame t"
  "window_frame (snd (remove_state s t)) = window_frame t"
  "window_frame (queue_configure t) = window_frame t"
  by (simp_all add: send_def bump_generation_def add_state_def remove_state_def
      queue_configure_def Let_def window_frame_def window.defs)

text \<open>\<open>set_tiled_states\<close> changes the states alone, and says whether it did.\<close>

definition same_but_states :: "xdg_toplevel \<Rightarrow> xdg_toplevel \<Rightarrow> bool" where
  "same_but_states t t' \<longleftrightarrow> t'\<lparr>states := states t\<rparr> = t"

lemma same_but_states_refl [simp]: "same_but_states t t"
  by (simp add: same_but_states_def)

lemma same_but_states_field:
  assumes "same_but_states t t'" "\<And>u ss. f (u\<lparr>states := ss\<rparr>) = f u"
  shows "f t' = f t"
  using assms(1) assms(2) [of "states t" t'] by (simp add: same_but_states_def)

lemma same_but_states_fields:
  assumes "same_but_states t t'"
  shows "window_frame t' = window_frame t" "configure t' = configure t" "mode t' = mode t"
    "tiled_edges t' = tiled_edges t" "t_version t' = t_version t" "configures t' = configures t"
    "configure_idle t' = configure_idle t" "generation t' = generation t"
    "configure_count t' = configure_count t" "initial_commit t' = initial_commit t"
    "destroying t' = destroying t" "t_pending t' = t_pending t"
    "states_alloc t' = states_alloc t" "idle_alloc t' = idle_alloc t" "sent t' = sent t"
proof -
  note f = same_but_states_field [OF assms]
  show "window_frame t' = window_frame t" by (rule f) (simp add: window_frame_def window.defs)
  show "configure t' = configure t" "mode t' = mode t"
    "tiled_edges t' = tiled_edges t" "t_version t' = t_version t" "configures t' = configures t"
    "configure_idle t' = configure_idle t" "generation t' = generation t"
    "configure_count t' = configure_count t" "initial_commit t' = initial_commit t"
    "destroying t' = destroying t" "t_pending t' = t_pending t"
    "states_alloc t' = states_alloc t" "idle_alloc t' = idle_alloc t" "sent t' = sent t"
    by (rule f; simp)+
qed

lemma same_but_states_trans:
  "same_but_states t u \<Longrightarrow> same_but_states u v \<Longrightarrow> same_but_states t v"
proof -
  assume tu: "same_but_states t u" and uv: "same_but_states u v"
  have "v\<lparr>states := states t\<rparr> = v\<lparr>states := states u\<rparr>\<lparr>states := states t\<rparr>" by simp
  also have "\<dots> = u\<lparr>states := states t\<rparr>" using uv by (simp only: same_but_states_def)
  finally show ?thesis using tu by (simp add: same_but_states_def)
qed

lemma state_ops_same [simp]:
  "same_but_states t (snd (add_state s t))" "same_but_states t (snd (remove_state s t))"
  by (simp_all add: same_but_states_def add_state_def remove_state_def)

lemma tiled_loop_Cons:
  "tiled_loop tiled edges ((edge, s) # m) (c, t) =
     (let r = (if tiled \<and> has edges edge then add_state s t else remove_state s t)
      in tiled_loop tiled edges m (c \<or> fst r, snd r))"
  by (simp add: Let_def split: prod.splits)

lemma tiled_loop_same: "same_but_states t (snd (tiled_loop tiled edges m (c, t)))"
proof (induction m arbitrary: c t)
  case (Cons p m)
  obtain edge s where p: "p = (edge, s)" by (cases p)
  define r where "r = (if tiled \<and> has edges edge then add_state s t else remove_state s t)"
  have "same_but_states t (snd r)" by (simp add: r_def)
  then show ?case
    using Cons.IH [of "snd r" "c \<or> fst r"] same_but_states_trans
    unfolding p tiled_loop_Cons r_def [symmetric] Let_def by blast
qed simp

lemma set_tiled_states_eq:
  "set_tiled_states edges t =
     (let tiled = (edges \<noteq> 0 \<and> TILED_LEFT_SINCE_VERSION \<le> t_version t);
          l = tiled_loop tiled edges tiled_map (False, t);
          r = (if tiled then remove_state ST_MAXIMIZED (snd l) else add_state ST_MAXIMIZED (snd l))
      in (fst l \<or> fst r, snd r))"
  by (simp add: set_tiled_states_def Let_def split: prod.splits)

lemma set_tiled_states_same: "same_but_states t (snd (set_tiled_states edges t))"
proof -
  let ?tiled = "edges \<noteq> 0 \<and> TILED_LEFT_SINCE_VERSION \<le> t_version t"
  have "same_but_states (snd (tiled_loop ?tiled edges tiled_map (False, t)))
      (snd (set_tiled_states edges t))"
    by (simp only: set_tiled_states_eq Let_def snd_conv if_distrib [of snd] state_ops_same
        split: if_splits) simp
  then show ?thesis by (rule same_but_states_trans [OF tiled_loop_same])
qed

lemma clear_tiled_states_same: "same_but_states t (clear_tiled_states t)"
  unfolding clear_tiled_states_def Let_def
  by (intro same_but_states_trans [OF _ state_ops_same(2)] same_but_states_refl)

lemmas set_tiled_states_fields [simp] = same_but_states_fields [OF set_tiled_states_same]
  and clear_tiled_states_fields [simp] = same_but_states_fields [OF clear_tiled_states_same]
  and add_state_fields [simp] = same_but_states_fields [OF state_ops_same(1)]
  and remove_state_fields [simp] = same_but_states_fields [OF state_ops_same(2)]

section \<open>The window interface\<close>

lemma impl_simps [simp]:
  "impl_move toplevel_window_impl = None"
  "impl_configure toplevel_window_impl = toplevel_configure_size"
  "impl_set_mode toplevel_window_impl = Some toplevel_set_mode"
  "impl_set_tiled_edges toplevel_window_impl = Some toplevel_set_tiled_edges"
  by (simp_all add: toplevel_window_impl_def)

lemma queue_configure_fields [simp]:
  "configure (queue_configure t) = configure t" "mode (queue_configure t) = mode t"
  "tiled_edges (queue_configure t) = tiled_edges t" "states (queue_configure t) = states t"
  "t_version (queue_configure t) = t_version t" "configures (queue_configure t) = configures t"
  "generation (queue_configure t) = generation t"
  "configure_count (queue_configure t) = configure_count t"
  "states_alloc (queue_configure t) = states_alloc t"
  "initial_commit (queue_configure t) = initial_commit t"
  "t_pending (queue_configure t) = t_pending t"
  by (simp_all add: queue_configure_def send_def Let_def)

lemma bump_generation_fields [simp]:
  "configure (bump_generation t) = configure t" "mode (bump_generation t) = mode t"
  "tiled_edges (bump_generation t) = tiled_edges t" "states (bump_generation t) = states t"
  "t_version (bump_generation t) = t_version t" "configures (bump_generation t) = configures t"
  "generation (bump_generation t) = (generation t + 1) mod 18446744073709551616"
  "configure_count (bump_generation t) = configure_count t"
  "states_alloc (bump_generation t) = states_alloc t" "sent (bump_generation t) = sent t"
  by (simp_all add: bump_generation_def)

lemma toplevel_set_mode_frame: "window_frame (toplevel_set_mode m t) = window_frame t"
  by (simp add: toplevel_set_mode_def Let_def split: window_mode.splits)

lemma toplevel_set_tiled_edges_frame:
  "window_frame (toplevel_set_tiled_edges e t) = window_frame t"
  by (simp add: toplevel_set_tiled_edges_def case_prod_unfold Let_def)

interpretation ts: window_shell toplevel_window_impl
  by unfold_locales (auto simp: toplevel_set_mode_frame toplevel_set_tiled_edges_frame
      toplevel_configure_size_def Let_def)

section \<open>The states of a mode\<close>

text \<open>The states a client is told of a window in a mode, focus aside.\<close>

definition mode_states :: "nat \<Rightarrow> mask \<Rightarrow> window_mode \<Rightarrow> xdg_toplevel_state set" where
  "mode_states version edges m =
     (case m of
        STACKED \<Rightarrow> {}
      | FULLSCREEN \<Rightarrow> {ST_FULLSCREEN}
      | TILED \<Rightarrow>
          if edges \<noteq> 0 \<and> TILED_LEFT_SINCE_VERSION \<le> version
          then {s. \<exists>e. (e, s) \<in> set tiled_map \<and> has edges e} else {ST_MAXIMIZED})"

definition tiling_states :: "xdg_toplevel_state set" where
  "tiling_states = {ST_MAXIMIZED, ST_TILED_LEFT, ST_TILED_RIGHT, ST_TILED_TOP, ST_TILED_BOTTOM}"

lemma add_state_set:
  "states_alloc t \<Longrightarrow> set (states (snd (add_state s t))) = insert s (set (states t))"
  "distinct (states t) \<Longrightarrow> distinct (states (snd (add_state s t)))"
  by (auto simp: add_state_def)

lemma remove_state_set:
  "distinct (states t) \<Longrightarrow> set (states (snd (remove_state s t))) = set (states t) - {s}"
  "distinct (states t) \<Longrightarrow> distinct (states (snd (remove_state s t)))"
  by (auto simp: remove_state_def)

lemma tiled_loop_set:
  assumes "states_alloc t" "distinct (states t)" "distinct (map snd m)"
  shows "distinct (states (snd (tiled_loop tiled edges m (c, t)))) \<and>
    set (states (snd (tiled_loop tiled edges m (c, t)))) =
      (set (states t) - snd ` set m) \<union> {s. tiled \<and> (\<exists>e. (e, s) \<in> set m \<and> has edges e)}"
  using assms
proof (induction m arbitrary: c t)
  case (Cons p m)
  obtain edge s where p: "p = (edge, s)" by (cases p)
  define r where "r = (if tiled \<and> has edges edge then add_state s t else remove_state s t)"
  have s: "s \<notin> snd ` set m" using Cons.prems(3) by (auto simp: p)
  have r: "states_alloc (snd r)" "distinct (states (snd r))"
    using Cons.prems by (simp_all add: r_def add_state_set remove_state_set)
  have rs: "set (states (snd r)) =
      (if tiled \<and> has edges edge then insert s (set (states t)) else set (states t) - {s})"
    using Cons.prems by (simp add: r_def add_state_set remove_state_set)
  have "distinct (map snd m)" using Cons.prems(3) by simp
  from Cons.IH [OF r this, of "c \<or> fst r"] rs s show ?case
    unfolding p tiled_loop_Cons r_def [symmetric] Let_def by (auto simp: image_iff)
qed simp

lemma tiled_map_states: "snd ` set tiled_map = tiling_states - {ST_MAXIMIZED}"
  by (auto simp: tiled_map_def tiling_states_def)

lemma set_tiled_states_set:
  assumes "states_alloc t" "distinct (states t)"
  shows "distinct (states (snd (set_tiled_states edges t)))"
    "set (states (snd (set_tiled_states edges t))) =
      (set (states t) - tiling_states) \<union> mode_states (t_version t) edges TILED"
proof -
  define tiled where "tiled \<longleftrightarrow> edges \<noteq> 0 \<and> TILED_LEFT_SINCE_VERSION \<le> t_version t"
  define l where "l = snd (tiled_loop tiled edges tiled_map (False, t))"
  have "distinct (map snd tiled_map)" by (simp add: tiled_map_def)
  from tiled_loop_set [OF assms this, of tiled edges False]
  have l: "distinct (states l)" "set (states l) = (set (states t) - (tiling_states - {ST_MAXIMIZED})) \<union>
      {s. tiled \<and> (\<exists>e. (e, s) \<in> set tiled_map \<and> has edges e)}"
    by (simp_all add: l_def tiled_map_states)
  have a: "states_alloc l"
    using same_but_states_fields(13) [OF tiled_loop_same] assms(1) by (simp add: l_def)
  have eq: "snd (set_tiled_states edges t) =
      snd (if tiled then remove_state ST_MAXIMIZED l else add_state ST_MAXIMIZED l)"
    by (simp add: set_tiled_states_eq Let_def tiled_def l_def)
  have m: "ST_MAXIMIZED \<notin> {s. \<exists>e. (e, s) \<in> set tiled_map \<and> has edges e}"
    by (auto simp: tiled_map_def)
  show "distinct (states (snd (set_tiled_states edges t)))"
    using l a by (simp add: eq add_state_set remove_state_set)
  have "set (states (snd (set_tiled_states edges t))) =
      (if tiled then set (states l) - {ST_MAXIMIZED} else insert ST_MAXIMIZED (set (states l)))"
    using l a by (simp add: eq add_state_set remove_state_set)
  also have "\<dots> = (set (states t) - tiling_states) \<union> mode_states (t_version t) edges TILED"
    using m unfolding l(2) mode_states_def tiled_def [symmetric] by (auto simp: tiling_states_def)
  finally show "set (states (snd (set_tiled_states edges t))) =
      (set (states t) - tiling_states) \<union> mode_states (t_version t) edges TILED" .
qed

lemma clear_tiled_states_set:
  assumes "distinct (states t)"
  shows "distinct (states (clear_tiled_states t))"
    "set (states (clear_tiled_states t)) = set (states t) - tiling_states"
  using assms
  by (auto simp: clear_tiled_states_def remove_state_set Let_def tiling_states_def)

definition states_ok :: "xdg_toplevel \<Rightarrow> bool" where
  "states_ok t \<longleftrightarrow> states_alloc t \<and> distinct (states t) \<and>
     set (states t) - {ST_ACTIVATED} = mode_states (t_version t) (tiled_edges t) (mode t)"

lemma states_ok_cong:
  assumes "window.more t = window.more t'" "mode t = mode t'" "tiled_edges t = tiled_edges t'"
  shows "states_ok t = states_ok t'"
proof -
  obtain m where m: "window.more t = m" "window.more t' = m" using assms(1) by blast
  have f: "states_alloc u = xdg_toplevel.states_alloc u" for u :: xdg_toplevel ..
  have "states t = states t'" "states_alloc t = states_alloc t'" "t_version t = t_version t'"
    using assms(1) by (cases t; cases t'; simp)+
  then show ?thesis using assms by (simp add: states_ok_def)
qed

lemma mode_states_other:
  "mode_states v e TILED \<inter> {ST_FULLSCREEN, ST_ACTIVATED} = {}"
  "mode_states v e m \<subseteq> insert ST_FULLSCREEN tiling_states"
  by (auto simp: mode_states_def tiling_states_def tiled_map_def split: window_mode.splits if_splits)

text \<open>Leaving a mode takes its states away.\<close>

definition left_mode :: "xdg_toplevel \<Rightarrow> xdg_toplevel" where
  "left_mode t = (case mode t of TILED \<Rightarrow> clear_tiled_states t
     | FULLSCREEN \<Rightarrow> snd (remove_state ST_FULLSCREEN t) | STACKED \<Rightarrow> t)"

lemma left_mode_fields [simp]:
  "mode (left_mode t) = mode t" "tiled_edges (left_mode t) = tiled_edges t"
  "t_version (left_mode t) = t_version t" "states_alloc (left_mode t) = states_alloc t"
  "configure (left_mode t) = configure t" "generation (left_mode t) = generation t"
  "configures (left_mode t) = configures t" "sent (left_mode t) = sent t"
  by (simp_all add: left_mode_def split: window_mode.splits)

lemma left_mode_set:
  assumes "states_ok t" "states_alloc t"
  shows "distinct (states (left_mode t))" "set (states (left_mode t)) \<subseteq> {ST_ACTIVATED}"
proof -
  from assms have d: "distinct (states t)"
    and st: "set (states t) - {ST_ACTIVATED} = mode_states (t_version t) (tiled_edges t) (mode t)"
    by (auto simp: states_ok_def)
  show "distinct (states (left_mode t))"
    using d by (simp add: left_mode_def clear_tiled_states_set remove_state_set
        split: window_mode.splits)
  show "set (states (left_mode t)) \<subseteq> {ST_ACTIVATED}"
    using d st mode_states_other [of "t_version t" "tiled_edges t"]
    by (cases "mode t") (auto simp: left_mode_def clear_tiled_states_set remove_state_set
        mode_states_def [of _ _ STACKED] mode_states_def [of _ _ FULLSCREEN])
qed

lemma set_mode_states_ok:
  assumes "states_ok t"
  shows "states_ok ((toplevel_set_mode m t)\<lparr>mode := m\<rparr>)"
proof (cases "states_alloc t")
  case True
  define u where "u = left_mode t"
  have u: "distinct (states u)" "set (states u) \<subseteq> {ST_ACTIVATED}" "states_alloc u"
    "t_version u = t_version t" "tiled_edges u = tiled_edges t"
    using left_mode_set [OF assms True] True by (simp_all add: u_def)
  define v where "v = (case m of TILED \<Rightarrow> snd (set_tiled_states (tiled_edges u) u)
     | FULLSCREEN \<Rightarrow> snd (add_state ST_FULLSCREEN u) | STACKED \<Rightarrow> u)"
  have v: "distinct (states v)"
    "set (states v) - {ST_ACTIVATED} = mode_states (t_version t) (tiled_edges t) m"
    "t_version v = t_version t" "tiled_edges v = tiled_edges t" "states_alloc v"
    using u mode_states_other(1) [of "t_version t" "tiled_edges t"]
    by (cases m; auto simp: v_def set_tiled_states_set add_state_set
        mode_states_def [of _ _ STACKED] mode_states_def [of _ _ FULLSCREEN])+
  have "toplevel_set_mode m t = queue_configure ((bump_generation v)\<lparr>configure :=
      (configure v)\<lparr>configure_acknowledged := False\<rparr>\<rparr>)"
    by (simp only: toplevel_set_mode_def left_mode_def u_def v_def Let_def bump_generation_fields)
  then show ?thesis using v by (simp add: states_ok_def)
next
  case False
  then show ?thesis using assms by (simp add: states_ok_def)
qed

lemma set_edges_states_ok:
  assumes "states_ok t" "mode t = TILED"
  shows "states_ok (toplevel_set_tiled_edges e (t\<lparr>tiled_edges := e\<rparr>))"
proof (cases "states_alloc t")
  case True
  let ?t = "t\<lparr>tiled_edges := e\<rparr>"
  have d: "states_alloc ?t" "distinct (states ?t)"
    and st: "set (states t) - {ST_ACTIVATED} = mode_states (t_version t) (tiled_edges t) TILED"
    using assms True by (auto simp: states_ok_def)
  note s = set_tiled_states_set [OF d, of e]
  have "set (states t) - tiling_states \<subseteq> {ST_ACTIVATED}"
    using st mode_states_other [of "t_version t" "tiled_edges t"] by blast
  then show ?thesis
    using s assms(2) True mode_states_other(1) [of "t_version t" e]
    by (auto simp: toplevel_set_tiled_edges_def case_prod_unfold Let_def states_ok_def)
next
  case False
  then show ?thesis using assms by (simp add: states_ok_def)
qed

lemma states_ok_edges: "mode t \<noteq> TILED \<Longrightarrow> states_ok (t\<lparr>tiled_edges := e\<rparr>) = states_ok t"
  by (cases "mode t") (simp_all add: states_ok_def mode_states_def)

lemma states_ok_configure [simp]:
  "states_ok (t\<lparr>configure := cf\<rparr>) = states_ok t"
  "states_ok (toplevel_configure_size c d t) = states_ok t"
  by (simp_all add: states_ok_def toplevel_configure_size_def Let_def)

interpretation tstates: shell_invariant toplevel_window_impl "\<lambda>_. states_ok"
proof unfold_locales
  show "states_ok w = states_ok w'" if "shell_part w = shell_part w'" for w w' :: xdg_toplevel
    using that by (intro states_ok_cong) (simp_all add: shell_part_def)
qed (simp_all add: set_mode_states_ok set_edges_states_ok states_ok_edges)

lemma states_ok_simps [simp]:
  "states_ok (send es t) = states_ok t" "states_ok (queue_configure t) = states_ok t"
  "states_ok (t\<lparr>t_pending := p\<rparr>) = states_ok t" "states_ok (t\<lparr>base := b\<rparr>) = states_ok t"
  "states_ok (t\<lparr>initial_commit := i\<rparr>) = states_ok t"
  "states_ok (send_configure on screens a ser t) = states_ok t"
  "states_ok (toplevel_ack_configure ser t) = states_ok t"
  by (simp_all add: states_ok_def send_def queue_configure_def Let_def send_configure_def
      send_configure_bounds_def toplevel_ack_configure_def split: option.splits)

lemma states_ok_focus:
  "states_ok t \<Longrightarrow> states_ok (toplevel_focus t)" "states_ok t \<Longrightarrow> states_ok (toplevel_unfocus t)"
  using mode_states_other(2) [of "t_version t" "tiled_edges t" "mode t"]
  by (auto simp: toplevel_focus_def toplevel_unfocus_def case_prod_unfold Let_def)
    (auto simp: states_ok_def add_state_set remove_state_set)

lemma states_ok_step:
  assumes "states_ok t"
  shows "states_ok (toplevel_step s t)"
proof (cases s)
  case (Win ws)
  then show ?thesis using tstates.P_step [OF assms] by simp
next
  case Surface_commit
  have "states_ok (window_commit toplevel_window_impl (if \<not> initial_commit t
      then queue_configure (t\<lparr>initial_commit := True\<rparr>) else t))"
    using assms by (intro tstates.P_commit) simp
  then show ?thesis
    unfolding Surface_commit toplevel_step.simps handle_toplevel_surface_commit_def Let_def
    by simp
next
  case (Move_request ser)
  show ?thesis
    using tstates.P_same [OF assms] by (simp add: Move_request move_request_def split: option.splits)
next
  case (Resize_request ser e)
  show ?thesis
    using tstates.P_same [OF assms]
    by (simp add: Resize_request resize_request_def split: option.splits)
qed (use assms in \<open>simp_all add: states_ok_focus toplevel_close_def set_max_size_def
  set_min_size_def\<close>)

lemma states_ok_run: "states_ok t \<Longrightarrow> states_ok (toplevel_run ss t)"
  by (induction ss arbitrary: t) (simp_all add: states_ok_step)

section \<open>The queue of configure events\<close>

definition toplevel_accepts :: "int \<Rightarrow> xdg_toplevel \<Rightarrow> bool" where
  "toplevel_accepts ser t \<longleftrightarrow> ser \<in> set (map tc_serial (configures t))"

lemma find_configure:
  "find (\<lambda>c. tc_serial c = ser) cs = None \<longleftrightarrow> ser \<notin> set (map tc_serial cs)"
  by (auto simp: find_None_iff)

lemma ack_configures:
  "configures (toplevel_ack_configure ser t) =
     (if toplevel_accepts ser t then drop_through (\<lambda>c. tc_serial c = ser) (configures t)
      else configures t)"
  using find_configure [of ser "configures t"]
  by (auto simp: toplevel_ack_configure_def toplevel_accepts_def send_def Let_def
      split: option.splits)

lemma ack_count:
  assumes "configure_count t = int (length (configures t))" "configure_count t \<le> 1024"
  shows "configure_count (toplevel_ack_configure ser t) =
    int (length (configures (toplevel_ack_configure ser t)))"
  using assms length_drop_through_le [of "\<lambda>c. tc_serial c = ser" "configures t"]
  by (auto simp: toplevel_ack_configure_def send_def Let_def u32_def split: option.splits)

interpretation tq: configure_queue "\<lambda>_. True" "\<lambda>t. map tc_serial (configures t)" configure_count 1024
  "send_configure on screens" toplevel_ack_configure toplevel_accepts for on screens
proof unfold_locales
  fix a s q
  show "map tc_serial (configures (send_configure on screens a s q)) =
      (if a \<and> configure_count q < 1024 then map tc_serial (configures q) @ [s]
       else map tc_serial (configures q))"
    "configure_count (send_configure on screens a s q) =
      (if a \<and> configure_count q < 1024 then configure_count q + 1 else configure_count q)"
    by (simp_all add: send_configure_def send_configure_bounds_def send_def Let_def
        split: option.splits)
  show "toplevel_accepts s q \<longleftrightarrow> s \<in> set (map tc_serial (configures q))"
    by (simp add: toplevel_accepts_def)
  show "map tc_serial (configures (toplevel_ack_configure s q)) =
      (if toplevel_accepts s q
       then drop_through (\<lambda>x. x = s) (map tc_serial (configures q))
       else map tc_serial (configures q))"
    by (simp add: ack_configures map_drop_through [where P = "\<lambda>x. x = s"])
  show "configure_count (toplevel_ack_configure s q) =
      int (length (map tc_serial (configures (toplevel_ack_configure s q))))"
    if "configure_count q = int (length (map tc_serial (configures q)))"
      "configure_count q \<le> 1024"
    using that by (simp add: ack_count)
qed simp

section \<open>Generations\<close>

text \<open>
  \<open>sent_as t ser w h sts\<close>: the configure with serial \<open>ser\<close> told the client that size and those
  states.  \<open>answers t c\<close>: what it told is still what the compositor wants.
\<close>

definition sent_as :: "xdg_toplevel \<Rightarrow> int \<Rightarrow> int \<Rightarrow> int \<Rightarrow> xdg_toplevel_state list \<Rightarrow> bool" where
  "sent_as t ser w h sts \<longleftrightarrow>
     (\<exists>pre post. sent t = pre @ [Toplevel_configure w h sts, Surface_configure ser] @ post)"

definition answers :: "xdg_toplevel \<Rightarrow> int \<Rightarrow> bool" where
  "answers t ser \<longleftrightarrow> (\<exists>w h sts. sent_as t ser w h sts \<and>
     set sts - {ST_ACTIVATED} = set (states t) - {ST_ACTIVATED} \<and>
     (configure_pending (configure t) \<longrightarrow>
        w = configure_width (configure t) \<and> h = configure_height (configure t)))"

definition generations_ok :: "nat \<Rightarrow> xdg_toplevel \<Rightarrow> bool" where
  "generations_ok n t \<longleftrightarrow> (int n < 18446744073709551616 \<longrightarrow>
     0 \<le> generation t \<and> generation t \<le> int n \<and>
     (\<forall>c \<in> set (configures t). tc_generation c \<le> generation t \<and>
        (tc_generation c = generation t \<longrightarrow> answers t (tc_serial c))))"

lemma sent_as_append: "sent_as t ser w h sts \<Longrightarrow> sent t' = sent t @ es \<Longrightarrow> sent_as t' ser w h sts"
  unfolding sent_as_def by fastforce

lemma answers_mono:
  assumes "answers t ser" "sent t' = sent t @ es"
    and "set (states t') - {ST_ACTIVATED} = set (states t) - {ST_ACTIVATED}"
    and "configure_pending (configure t') \<Longrightarrow> configure_pending (configure t) \<and>
      configure_width (configure t') = configure_width (configure t) \<and>
      configure_height (configure t') = configure_height (configure t)"
  shows "answers t' ser"
  using assms sent_as_append [OF _ assms(2)] unfolding answers_def by metis

lemma generations_ok_mono:
  assumes "generations_ok n t" "generation t' = generation t" "sent t' = sent t @ es"
    and "set (configures t') \<subseteq> set (configures t)"
    and "set (states t') - {ST_ACTIVATED} = set (states t) - {ST_ACTIVATED}"
    and "configure_pending (configure t') \<Longrightarrow> configure_pending (configure t) \<and>
      configure_width (configure t') = configure_width (configure t) \<and>
      configure_height (configure t') = configure_height (configure t)"
  shows "generations_ok n t'"
  using assms(1,2,4) answers_mono [OF _ assms(3,5,6)] unfolding generations_ok_def by auto

lemma generations_ok_bump:
  assumes "generations_ok n t" "configures t' = configures t"
    and "generation t' = (generation t + 1) mod 18446744073709551616"
  shows "generations_ok (Suc n) t'"
proof -
  have "generation t' = generation t + 1" if "int (Suc n) < 18446744073709551616"
    using assms(1,3) that by (simp add: generations_ok_def)
  then show ?thesis using assms(1,2) by (force simp: generations_ok_def)
qed

lemma generations_ok_cong:
  assumes "window.more t = window.more t'" "configure t = configure t'"
  shows "generations_ok n t = generations_ok n t'"
proof -
  have "generation t = generation t'" "configures t = configures t'" "sent t = sent t'"
    "states t = states t'"
    using assms(1) by (cases t; cases t'; simp)+
  then show ?thesis using assms(2) by (simp add: generations_ok_def answers_def sent_as_def)
qed

lemma generations_ok_plain [simp]:
  "generations_ok n (t\<lparr>mode := m\<rparr>) = generations_ok n t"
  "generations_ok n (t\<lparr>tiled_edges := e\<rparr>) = generations_ok n t"
  "generations_ok n (t\<lparr>base := b\<rparr>) = generations_ok n t"
  by (rule generations_ok_cong; simp)+

lemma generations_ok_pending [simp]:
  "generations_ok n (t\<lparr>t_pending := p\<rparr>) = generations_ok n t"
  "generations_ok n (t\<lparr>initial_commit := i\<rparr>) = generations_ok n t"
  by (simp_all add: generations_ok_def answers_def sent_as_def)

lemma queue_configure_sent: "\<exists>es. sent (queue_configure t) = sent t @ es"
  by (simp add: queue_configure_def send_def Let_def)

lemma generations_ok_queue: "generations_ok n t \<Longrightarrow> generations_ok n (queue_configure t)"
  using queue_configure_sent [of t] generations_ok_mono by fastforce

lemma generations_ok_send: "generations_ok n t \<Longrightarrow> generations_ok n (send es t)"
  by (erule generations_ok_mono) (auto simp: send_def)

lemma state_op_unchanged:
  "\<not> fst (add_state s t) \<Longrightarrow> snd (add_state s t) = t"
  "\<not> fst (remove_state s t) \<Longrightarrow> snd (remove_state s t) = t"
  by (auto simp: add_state_def remove_state_def)

lemma tiled_loop_changed:
  "\<not> fst (tiled_loop tiled edges m (c, t)) \<Longrightarrow> \<not> c \<and> snd (tiled_loop tiled edges m (c, t)) = t"
proof (induction m arbitrary: c t)
  case (Cons p m)
  obtain edge s where p: "p = (edge, s)" by (cases p)
  show ?case
    using Cons.IH [OF Cons.prems [unfolded p tiled_loop_Cons Let_def]] state_op_unchanged
    unfolding p tiled_loop_Cons Let_def by (metis snd_conv)
qed simp

lemma set_tiled_states_unchanged:
  "\<not> fst (set_tiled_states edges t) \<Longrightarrow> snd (set_tiled_states edges t) = t"
  using tiled_loop_changed state_op_unchanged
  by (fastforce simp: set_tiled_states_eq Let_def split: if_splits)

lemma generations_ok_edges:
  "generations_ok n t \<Longrightarrow> generations_ok (Suc n) (toplevel_set_tiled_edges e t)"
proof -
  assume t: "generations_ok n t"
  have s: "generations_ok (Suc n) t"
    using t by (auto simp: generations_ok_def)
  have b: "generations_ok (Suc n) (queue_configure (bump_generation (snd (set_tiled_states e t))))"
    by (rule generations_ok_queue) (rule generations_ok_bump [OF t], simp_all)
  show ?thesis
    using s b set_tiled_states_unchanged [of e t]
    by (simp add: toplevel_set_tiled_edges_def case_prod_unfold Let_def)
qed

lemma generations_ok_set_mode:
  "generations_ok n t \<Longrightarrow> generations_ok (Suc n) (toplevel_set_mode m t)"
  unfolding toplevel_set_mode_def Let_def
  by (intro generations_ok_queue, rule generations_ok_bump [of n t])
    (simp_all split: window_mode.splits)

interpretation tgen: shell_invariant toplevel_window_impl generations_ok
proof unfold_locales
  show "generations_ok n w = generations_ok n w'" if "shell_part w = shell_part w'"
    for w w' :: xdg_toplevel and n
    using that by (intro generations_ok_cong) (simp_all add: shell_part_def)
  show "generations_ok (Suc n) w" if "generations_ok n w" for n w
    using that by (auto simp: generations_ok_def)
  show "generations_ok (Suc n) (impl_configure toplevel_window_impl c d (w\<lparr>configure := cf\<rparr>))"
    if "generations_ok n w" for n w c d cf
    unfolding impl_simps toplevel_configure_size_def Let_def
    by (intro generations_ok_queue, rule generations_ok_bump [OF that]) simp_all
  show "generations_ok n (w\<lparr>configure := cf\<rparr>)"
    if "generations_ok n w" "\<not> configure_pending cf" for n w cf
    using that by (intro generations_ok_mono [OF that(1)]) auto
qed (simp_all add: generations_ok_set_mode generations_ok_edges)

lemma state_ops_but_activated:
  "set (states (snd (add_state x t))) - {x} = set (states t) - {x}"
  "set (states (snd (remove_state x t))) - {x} = set (states t) - {x}"
proof -
  have "set (remove1 x xs) - {x} = set xs - {x}" for xs by (induction xs) auto
  then show "set (states (snd (remove_state x t))) - {x} = set (states t) - {x}"
    by (simp add: remove_state_def)
qed (auto simp: add_state_def)

lemma generations_ok_idle:
  assumes "generations_ok n t"
  shows "generations_ok n (send_configure on screens a ser t)"
proof -
  let ?t = "send_configure on screens a ser t"
  have "\<exists>es. sent ?t = sent t @ es"
    by (simp add: send_configure_def send_configure_bounds_def send_def Let_def
        split: option.splits)
  then obtain es where es: "sent ?t = sent t @ es" ..
  have f: "generation ?t = generation t" "states ?t = states t" "configure ?t = configure t"
    by (auto simp: send_configure_def send_configure_bounds_def send_def Let_def
        split: option.splits)
  have new: "answers ?t ser" if "a" "configure_count t < 1024"
  proof -
    have "\<exists>w h pre. sent ?t = pre @ [Toplevel_configure w h (states t), Surface_configure ser] \<and>
      (configure_pending (configure t) \<longrightarrow>
        w = configure_width (configure t) \<and> h = configure_height (configure t))"
      using that by (simp add: send_configure_def send_configure_bounds_def send_def Let_def
          split: option.splits)
    then show ?thesis using f unfolding answers_def sent_as_def by fastforce
  qed
  have c: "configures ?t = (if a \<and> configure_count t < 1024
      then configures t @ [\<lparr>tc_serial = ser, tc_generation = generation t\<rparr>] else configures t)"
    by (simp add: send_configure_def send_configure_bounds_def send_def Let_def
        split: option.splits)
  have old: "answers t s \<Longrightarrow> answers ?t s" for s
    by (rule answers_mono [OF _ es]) (simp_all add: f)
  show ?thesis
    using assms old new unfolding generations_ok_def by (auto simp: c f)
qed

lemma generations_ok_focus:
  assumes "generations_ok n t"
  shows "generations_ok n (toplevel_focus t)" "generations_ok n (toplevel_unfocus t)"
proof -
  have "generations_ok n (snd (add_state ST_ACTIVATED t))"
    "generations_ok n (snd (remove_state ST_ACTIVATED t))"
    by (rule generations_ok_mono [OF assms, where es = "[]"];
        simp add: state_ops_but_activated)+
  then show "generations_ok n (toplevel_focus t)" "generations_ok n (toplevel_unfocus t)"
    by (simp_all add: toplevel_focus_def toplevel_unfocus_def case_prod_unfold Let_def
        generations_ok_queue)
qed

lemma generations_ok_ack:
  assumes "generations_ok n t"
  shows "generations_ok n (toplevel_ack_configure ser t)"
proof (cases "find (\<lambda>c. tc_serial c = ser) (configures t)")
  case None
  then show ?thesis using assms by (simp add: toplevel_ack_configure_def generations_ok_send)
next
  case (Some c)
  then show ?thesis
    using set_drop_through [of "\<lambda>c. tc_serial c = ser" "configures t"]
    by (intro generations_ok_mono [OF assms, where es = "[]"])
      (simp_all add: toplevel_ack_configure_def Let_def)
qed

lemma generations_ok_step:
  assumes "generations_ok n t"
  shows "generations_ok (Suc (Suc n)) (toplevel_step s t)"
proof -
  have up: "generations_ok n t' \<Longrightarrow> generations_ok (Suc (Suc n)) t'" for t'
    by (intro tgen.P_Suc)
  have pend: "generations_ok n (t\<lparr>t_pending := p\<rparr>)" for p using assms by simp
  show ?thesis
  proof (cases s)
    case (Win ws)
    then show ?thesis using tgen.P_step [OF assms] by simp
  next
    case Surface_commit
    have "generations_ok n (window_commit toplevel_window_impl (if \<not> initial_commit t
        then queue_configure (t\<lparr>initial_commit := True\<rparr>) else t))"
      using assms by (intro tgen.P_commit) (simp add: generations_ok_queue)
    then have "generations_ok n (handle_toplevel_surface_commit t)"
      unfolding handle_toplevel_surface_commit_def Let_def
      by (simp add: generations_ok_send)
    then show ?thesis using up Surface_commit by simp
  next
    case (Move_request ser)
    show ?thesis
      using tgen.P_same [OF assms]
      by (intro up) (simp add: Move_request move_request_def split: option.splits)
  next
    case (Resize_request ser e)
    show ?thesis
      using tgen.P_same [OF assms]
      by (intro up) (simp add: Resize_request resize_request_def split: option.splits)
  qed (use assms pend in \<open>auto intro!: up simp: generations_ok_focus generations_ok_idle
    generations_ok_ack toplevel_close_def set_max_size_def set_min_size_def
    generations_ok_send\<close>)
qed

lemma generations_ok_run:
  "generations_ok n t \<Longrightarrow> generations_ok (n + 2 * length ss) (toplevel_run ss t)"
proof (induction ss arbitrary: n t)
  case (Cons s ss)
  from Cons.IH [OF generations_ok_step [OF Cons.prems]] show ?case by simp
qed simp

text \<open>A new toplevel: its structure is zeroed, so it has no states and generation 0.\<close>

lemma shell_part_toplevel:
  assumes "shell_part t = shell_part t'"
  shows "states t = states t'" "configures t = configures t'" "mode t = mode t'"
    "generation t = generation t'" "configure_count t = configure_count t'"
    "states_alloc t = states_alloc t'" "t_version t = t_version t'" "sent t = sent t'"
    "tiled_edges t = tiled_edges t'" "configure t = configure t'"
  using assms by (cases t; cases t'; simp add: shell_part_def)+

lemma new_toplevel:
  assumes "xdg_toplevel_new acquired z = Some t"
  shows "states t = []" "configures t = []" "mode t = STACKED"
    "generation t = generation z" "configure_count t = configure_count z"
    "states_alloc t = states_alloc z"
proof -
  obtain g l where a: "acquired = Some (g, l)"
    using assms by (auto simp: xdg_toplevel_new_def window_initialize_def split: option.splits)
  obtain w where w: "window_initialize acquired z = Some w"
    by (simp add: a window_initialize_def)
  have w': "mode w = STACKED" "generation w = generation z"
    "configure_count w = configure_count z" "states_alloc w = states_alloc z"
    using w by (auto simp: a window_initialize_def)
  define u where "u = send_wm_capabilities (w\<lparr>states := [], configures := []\<rparr>)"
  have u: "states u = []" "configures u = []" "mode u = STACKED"
    "generation u = generation z" "configure_count u = configure_count z"
    "states_alloc u = states_alloc z"
    using w' by (simp_all add: u_def send_wm_capabilities_def send_def)
  have "t = window_manage u"
    using assms w by (simp add: xdg_toplevel_new_def u_def)
  then have "shell_part t = shell_part u" by simp
  from shell_part_toplevel [OF this] u
  show "states t = []" "configures t = []" "mode t = STACKED"
    "generation t = generation z" "configure_count t = configure_count z"
    "states_alloc t = states_alloc z" by simp_all
qed

section \<open>Interactions, layers and the queue along a run\<close>

lemma window_frame_own [simp]:
  "window_frame (t\<lparr>configure_idle := d\<rparr>) = window_frame t"
  "window_frame (t\<lparr>initial_commit := i\<rparr>) = window_frame t"
  "window_frame (t\<lparr>t_pending := p\<rparr>) = window_frame t"
  "window_frame (t\<lparr>states := ss\<rparr>) = window_frame t"
  "window_frame (t\<lparr>configures := cs\<rparr>) = window_frame t"
  "window_frame (t\<lparr>configure_count := n\<rparr>) = window_frame t"
  for t :: xdg_toplevel
  by (simp_all add: window_frame_def window.defs)

lemma window_frame_requests:
  "window_frame (send_configure on screens a ser t) = window_frame t"
  "window_frame (toplevel_ack_configure ser t) = window_frame t"
  "window_frame (toplevel_focus t) = window_frame t"
  "window_frame (toplevel_unfocus t) = window_frame t"
  "window_frame (toplevel_close t) = window_frame t"
  "window_frame (set_max_size x y t) = window_frame t"
  "window_frame (set_min_size x y t) = window_frame t"
  by (simp_all add: send_configure_def send_configure_bounds_def toplevel_ack_configure_def
      toplevel_focus_def toplevel_unfocus_def toplevel_close_def set_max_size_def
      set_min_size_def case_prod_unfold Let_def split: option.splits)

lemma window_inv_base [simp]: "window_inv (t\<lparr>base := b\<rparr>) = window_inv t"
  by (simp add: window_inv_def)

lemma window_inv_own [simp]:
  "window_inv (t\<lparr>t_pending := p\<rparr>) = window_inv t" "window_inv (send es t) = window_inv t"
  "window_inv (queue_configure t) = window_inv t"
  "window_inv (t\<lparr>initial_commit := i\<rparr>) = window_inv t" for t :: xdg_toplevel
  by (rule window_inv_frame; simp)+

lemma toplevel_window_inv_step:
  assumes "window_inv t"
  shows "window_inv (toplevel_step s t)"
proof (cases s)
  case (Win ws)
  then show ?thesis using ts.step_inv [OF assms] by simp
next
  case Surface_commit
  have "window_inv (window_commit toplevel_window_impl (if \<not> initial_commit t
      then queue_configure (t\<lparr>initial_commit := True\<rparr>) else t))"
    using assms by (intro ts.commit_inv) simp
  then show ?thesis
    unfolding Surface_commit toplevel_step.simps handle_toplevel_surface_commit_def Let_def
    by simp
next
  case (Move_request ser)
  show ?thesis using assms
    by (simp add: Move_request move_request_def begin_move_keeps split: option.splits)
next
  case (Resize_request ser e)
  show ?thesis using assms
    by (simp add: Resize_request resize_request_def begin_resize_keeps split: option.splits)
qed (use assms window_inv_frame [OF window_frame_requests(1)]
    window_inv_frame [OF window_frame_requests(2)] window_inv_frame [OF window_frame_requests(3)]
    window_inv_frame [OF window_frame_requests(4)] window_inv_frame [OF window_frame_requests(5)]
    window_inv_frame [OF window_frame_requests(6)] window_inv_frame [OF window_frame_requests(7)]
    in simp_all)

lemma toplevel_window_inv_run: "window_inv t \<Longrightarrow> window_inv (toplevel_run ss t)"
  by (induction ss arbitrary: t) (simp_all add: toplevel_window_inv_step)

lemma new_toplevel_inv:
  assumes "xdg_toplevel_new (Some (g, STACK_LAYER_NORMAL)) (zeroed_toplevel i v p a d) = Some t"
    and "Move_handler i \<notin> set (pointer_handlers p)" "Resize_handler i \<notin> set (pointer_handlers p)"
  shows "window_inv t"
proof -
  obtain w where w: "window_initialize (Some (g, STACK_LAYER_NORMAL)) (zeroed_toplevel i v p a d) =
      Some w"
    by (simp add: window_initialize_def)
  have "window_inv w"
    using w assms(2,3)
    by (auto simp: window_initialize_def window_inv_def interactions_linked_def linked_def
        layer_ok_def window_stack_layer_def count_list_0_iff)
  then have "window_inv (w\<lparr>states := [], configures := []\<rparr>)"
    using window_inv_frame [of "w\<lparr>states := [], configures := []\<rparr>" w] by simp
  then have "window_inv (window_manage (send_wm_capabilities (w\<lparr>states := [], configures := []\<rparr>)))"
    by (simp add: send_wm_capabilities_def)
  moreover have "t = window_manage (send_wm_capabilities (w\<lparr>states := [], configures := []\<rparr>))"
    using assms(1) w by (simp add: xdg_toplevel_new_def)
  ultimately show ?thesis by (simp only:)
qed

definition toplevel_queue_ok :: "xdg_toplevel \<Rightarrow> bool" where
  "toplevel_queue_ok t \<longleftrightarrow>
     configure_count t = int (length (configures t)) \<and> configure_count t \<le> 1024"

lemma toplevel_queue_ok_cong:
  "configure_count t = configure_count t' \<Longrightarrow> configures t = configures t' \<Longrightarrow>
     toplevel_queue_ok t = toplevel_queue_ok t'"
  by (simp add: toplevel_queue_ok_def)

lemma toplevel_queue_ok_iff: "tq.queue_ok t = toplevel_queue_ok t"
  by (simp add: tq.queue_ok_def toplevel_queue_ok_def)

lemma toplevel_queue_ok_simps [simp]:
  "toplevel_queue_ok (send es t) = toplevel_queue_ok t"
  "toplevel_queue_ok (queue_configure t) = toplevel_queue_ok t"
  "toplevel_queue_ok (toplevel_focus t) = toplevel_queue_ok t"
  "toplevel_queue_ok (toplevel_unfocus t) = toplevel_queue_ok t"
  "toplevel_queue_ok (toplevel_set_mode m t) = toplevel_queue_ok t"
  "toplevel_queue_ok (toplevel_set_tiled_edges e t) = toplevel_queue_ok t"
  "toplevel_queue_ok (toplevel_configure_size x y t) = toplevel_queue_ok t"
  "toplevel_queue_ok (t\<lparr>configure := cf\<rparr>) = toplevel_queue_ok t"
  "toplevel_queue_ok (t\<lparr>mode := m\<rparr>) = toplevel_queue_ok t"
  "toplevel_queue_ok (t\<lparr>tiled_edges := e\<rparr>) = toplevel_queue_ok t"
  "toplevel_queue_ok (t\<lparr>base := b\<rparr>) = toplevel_queue_ok t"
  "toplevel_queue_ok (t\<lparr>t_pending := p\<rparr>) = toplevel_queue_ok t"
  "toplevel_queue_ok (t\<lparr>initial_commit := i\<rparr>) = toplevel_queue_ok t"
  by (rule toplevel_queue_ok_cong; simp add: send_def toplevel_focus_def toplevel_unfocus_def
      toplevel_set_mode_def toplevel_set_tiled_edges_def toplevel_configure_size_def
      case_prod_unfold Let_def split: window_mode.splits)+

interpretation tqueue: shell_invariant toplevel_window_impl "\<lambda>_. toplevel_queue_ok"
proof unfold_locales
  show "toplevel_queue_ok w = toplevel_queue_ok w'" if "shell_part w = shell_part w'"
    for w w' :: xdg_toplevel
    using shell_part_toplevel [OF that] by (intro toplevel_queue_ok_cong) simp_all
qed simp_all

lemma toplevel_queue_ok_step:
  assumes "toplevel_queue_ok t"
  shows "toplevel_queue_ok (toplevel_step s t)"
proof (cases s)
  case (Win ws)
  then show ?thesis using tqueue.P_step [OF assms] by simp
next
  case (Idle on screens alloc ser)
  then show ?thesis
    using assms tq.push_ok by (simp add: toplevel_queue_ok_iff)
next
  case (Ack_configure ser)
  then show ?thesis using assms tq.ack_ok [of t ser] by (simp add: toplevel_queue_ok_iff)
next
  case Surface_commit
  have "toplevel_queue_ok (window_commit toplevel_window_impl (if \<not> initial_commit t
      then queue_configure (t\<lparr>initial_commit := True\<rparr>) else t))"
    using assms by (intro tqueue.P_commit) simp
  then show ?thesis
    unfolding Surface_commit toplevel_step.simps handle_toplevel_surface_commit_def Let_def
    by simp
next
  case (Move_request ser)
  show ?thesis
    using tqueue.P_same [OF assms] by (simp add: Move_request move_request_def assms split: option.splits)
next
  case (Resize_request ser e)
  show ?thesis
    using tqueue.P_same [OF assms]
    by (simp add: Resize_request resize_request_def assms split: option.splits)
qed (use assms in \<open>simp_all add: toplevel_close_def set_max_size_def set_min_size_def\<close>)

lemma toplevel_queue_ok_run: "toplevel_queue_ok t \<Longrightarrow> toplevel_queue_ok (toplevel_run ss t)"
  by (induction ss arbitrary: t) (simp_all add: toplevel_queue_ok_step)

section \<open>Properties\<close>

text \<open>C12: However the compositor and the client act, a toplevel's array of states holds, without
  repetition, exactly the states its mode and tiled edges call for: fullscreen in fullscreen
  mode, the tiled edge states (or maximized, for an old client or a window tiled with no edges)
  in tiled mode, none when stacked; and activated as the keyboard focus has it.\<close>

theorem states_match_mode:
  assumes "xdg_toplevel_new acquired (zeroed_toplevel i v p True idle) = Some t"
    and "t' = toplevel_run ops t"
  shows "distinct (states t') \<and>
    set (states t') - {ST_ACTIVATED} = mode_states (t_version t') (tiled_edges t') (mode t')"
proof -
  have "states_ok t"
    using new_toplevel [OF assms(1)] by (simp add: states_ok_def mode_states_def)
  from states_ok_run [OF this, of ops] assms(2) show ?thesis by (simp add: states_ok_def)
qed

text \<open>A toplevel created on a new view and taken through its first commit.\<close>

definition sample_toplevel :: "nat \<Rightarrow> xdg_toplevel" where
  "sample_toplevel version = the (xdg_toplevel_new (Some (mk_rect 0 0 0 0, 2))
     (zeroed_toplevel 1 version \<lparr>pointer_x = 0, pointer_y = 0, pointer_handlers = [],
        buttons = []\<rparr> True True))"

lemma sample_toplevel_new:
  "xdg_toplevel_new (Some (mk_rect 0 0 0 0, 2)) (zeroed_toplevel 1 version
     \<lparr>pointer_x = 0, pointer_y = 0, pointer_handlers = [], buttons = []\<rparr> True True) =
   Some (sample_toplevel version)"
  by (simp add: sample_toplevel_def xdg_toplevel_new_def window_initialize_def)

theorem states_match_mode_witness:
  "let t = toplevel_run [Surface_commit, Focus, Win (Set_tiled_edges 5), Win Set_tiled]
      (sample_toplevel 6)
   in distinct (states t) \<and>
     set (states t) - {ST_ACTIVATED} = mode_states (t_version t) (tiled_edges t) (mode t)"
  unfolding Let_def by (rule states_match_mode [OF sample_toplevel_new refl])

text \<open>C7: When a client's acknowledgement is taken as the answer to what the compositor asked for,
  the configure it names really told the client that: the size the window manager is waiting
  for, and the states the toplevel has now, focus aside.  So a late acknowledgement of an older
  configure never passes for the newest (for up to \<open>2^63\<close> operations, within which the 64-bit
  generation does not wrap).\<close>

theorem acknowledged_is_current:
  assumes "xdg_toplevel_new acquired (zeroed_toplevel i v p alloc idle) = Some t0"
    and "int (length ops) < 9223372036854775808" and "t = toplevel_run ops t0"
    and "toplevel_accepts ser t"
    and "configure_acknowledged (configure (toplevel_ack_configure ser t))"
  shows "\<exists>w h sts. sent_as t ser w h sts \<and>
    set sts - {ST_ACTIVATED} = set (states t) - {ST_ACTIVATED} \<and>
    (configure_pending (configure t) \<longrightarrow>
       w = configure_width (configure t) \<and> h = configure_height (configure t))"
proof -
  have "generations_ok 0 t0"
    using new_toplevel [OF assms(1)] by (simp add: generations_ok_def)
  from generations_ok_run [OF this, of ops] have g: "generations_ok (2 * length ops) t"
    using assms(3) by simp
  obtain c where c: "find (\<lambda>c. tc_serial c = ser) (configures t) = Some c"
    using assms(4) find_configure [of ser "configures t"] by (auto simp: toplevel_accepts_def)
  then have "c \<in> set (configures t)" "tc_serial c = ser"
    by (auto simp: find_Some_iff)
  moreover have "tc_generation c = generation t"
    using assms(5) c by (simp add: toplevel_ack_configure_def Let_def)
  ultimately have "answers t ser"
    using g assms(2) by (auto simp: generations_ok_def)
  then show ?thesis by (simp add: answers_def)
qed


theorem acknowledged_is_current_witness:
  "let t = toplevel_run [Surface_commit, Win (Set_size 300 200), Idle 0 [] True 7]
      (sample_toplevel 6)
   in \<exists>w h sts. sent_as t 7 w h sts \<and>
    set sts - {ST_ACTIVATED} = set (states t) - {ST_ACTIVATED} \<and>
    (configure_pending (configure t) \<longrightarrow>
       w = configure_width (configure t) \<and> h = configure_height (configure t))"
  unfolding Let_def
  by (rule acknowledged_is_current [OF sample_toplevel_new _ refl]) (simp, code_simp, code_simp)



text \<open>However the client delays its acknowledgements, no more than 1024 configure events are ever
  outstanding, and the count the code keeps is their number.\<close>

theorem configures_bounded:
  assumes "xdg_toplevel_new acquired (zeroed_toplevel i v p a d) = Some t0"
    and "t = toplevel_run ops t0"
  shows "configure_count t = int (length (configures t)) \<and> length (configures t) \<le> 1024"
proof -
  have "toplevel_queue_ok t0"
    using new_toplevel [OF assms(1)] by (simp add: toplevel_queue_ok_def)
  from toplevel_queue_ok_run [OF this, of ops] show ?thesis
    using assms(2) by (simp add: toplevel_queue_ok_def)
qed

theorem configures_bounded_witness:
  "let t = toplevel_run [Surface_commit, Idle 0 [] True 7, Ack_configure 7] (sample_toplevel 6)
   in configure_count t = int (length (configures t)) \<and> length (configures t) \<le> 1024"
  unfolding Let_def by (rule configures_bounded [OF sample_toplevel_new refl])

text \<open>A window manager's change of a toplevel's geometry is one transaction with the client: the
  window stays where it is while the new size is sent, and moves to the new position with the
  commit that follows the client's acknowledgement of that very configure.\<close>

theorem geometry_transaction:
  assumes "t1 = swc_window_set_geometry toplevel_window_impl r t"
    and "configure_pending (configure t1)"
    and "\<not> (rect_x r = rect_x (view_geometry t) \<and> rect_y r = rect_y (view_geometry t))"
    and "t2 = send_configure on screens True ser t1" and "configure_count t1 < 1024"
    and "\<not> toplevel_accepts ser t1"
    and "t3 = toplevel_ack_configure ser t2"
  shows "view_geometry t3 = view_geometry t \<and>
    view_geometry (window_commit toplevel_window_impl t3) =
      (view_geometry t)\<lparr>rect_x := rect_x r, rect_y := rect_y r\<rparr>"
proof -
  have p: "configure_pending (configure (swc_window_set_size toplevel_window_impl
      (rect_width r) (rect_height r) t))"
    using assms(1,2) ts.flush_view(2)
    by (auto simp: swc_window_set_geometry_def swc_window_set_position_def Let_def split: if_splits)
  note d = ts.set_geometry_deferred [OF p assms(3), folded assms(1)]
  have frame: "window_frame t3 = window_frame t1"
    by (simp add: assms(4,7) window_frame_requests)
  have g: "view_geometry t3 = view_geometry t" "move t3 = move t1"
    using window_frame_fields(4,11) [OF frame] d(1) by simp_all
  have c2: "configures t2 = configures t1 @ [\<lparr>tc_serial = ser, tc_generation = generation t1\<rparr>]"
    "generation t2 = generation t1"
    using assms(5) by (simp_all add: assms(4) send_configure_def send_configure_bounds_def
        send_def Let_def split: option.splits)
  have "find (\<lambda>c. tc_serial c = ser) (configures t1) = None"
    using assms(6) by (simp add: toplevel_accepts_def find_configure)
  then have "find (\<lambda>c. tc_serial c = ser) (configures t2) =
      Some \<lparr>tc_serial = ser, tc_generation = generation t1\<rparr>"
    unfolding c2 by (simp add: find_append_None)
  then have "configure_acknowledged (configure t3)"
    by (simp add: assms(7) toplevel_ack_configure_def Let_def c2(2))
  from ts.commit_applies_move(1) [OF this] show ?thesis
    using g d(2-4) by simp
qed

text \<open>The size limits agree, and the limits a commit would set.\<close>

definition limits_ok :: "swc_window \<Rightarrow> bool" where
  "limits_ok b \<longleftrightarrow> \<not> (min_width b \<noteq> 0 \<and> max_width b \<noteq> 0 \<and> min_width b > max_width b) \<and>
     \<not> (min_height b \<noteq> 0 \<and> max_height b \<noteq> 0 \<and> min_height b > max_height b)"

definition wanted_limits :: "xdg_toplevel \<Rightarrow> swc_window" where
  "wanted_limits t =
     (let p = t_pending t;
          b = (if min_dirty p then (base t)\<lparr>min_width := pending_min_width p,
                 min_height := pending_min_height p\<rparr> else base t)
      in if max_dirty p then b\<lparr>max_width := pending_max_width p,
           max_height := pending_max_height p\<rparr> else b)"

lemma commit_base:
  "base (window_commit toplevel_window_impl (if \<not> initial_commit t
      then queue_configure (t\<lparr>initial_commit := True\<rparr>) else t)) = base t"
  "t_pending (window_commit toplevel_window_impl (if \<not> initial_commit t
      then queue_configure (t\<lparr>initial_commit := True\<rparr>) else t)) = t_pending t"
  using window_frame_fields(2) [of "queue_configure (t\<lparr>initial_commit := True\<rparr>)" t]
  by (simp_all add: window_commit_def flush_def view_move_def call_def Let_def)

text \<open>A commit never gives a toplevel a minimum size above its maximum: it applies the limits the
  client asked for since the last commit all together when they agree, and otherwise none of
  them, posting the protocol's error.\<close>

theorem commit_applies_limits:
  assumes "limits_ok (base t)" and "t' = handle_toplevel_surface_commit t"
  shows "limits_ok (base t') \<and>
    base t' = (if limits_ok (wanted_limits t) then wanted_limits t else base t) \<and>
    (\<not> limits_ok (wanted_limits t) \<longrightarrow> Post_error TOPLEVEL_INVALID_SIZE \<in> set (sent t'))"
proof -
  define u where "u = window_commit toplevel_window_impl (if \<not> initial_commit t
      then queue_configure (t\<lparr>initial_commit := True\<rparr>) else t)"
  have u: "base u = base t" "t_pending u = t_pending t"
    using commit_base [of t] by (simp_all add: u_def)
  have send: "base (send es u) = base u" for es by (simp add: send_def)
  have "base t' = (if limits_ok (wanted_limits t) then wanted_limits t else base t)"
    unfolding assms(2) handle_toplevel_surface_commit_def Let_def u_def [symmetric] u
    by (cases "min_dirty (t_pending t)"; cases "max_dirty (t_pending t)";
        simp add: wanted_limits_def limits_ok_def Let_def u send)
  moreover have "Post_error TOPLEVEL_INVALID_SIZE \<in> set (sent t')" if "\<not> limits_ok (wanted_limits t)"
    using that unfolding assms(2) handle_toplevel_surface_commit_def Let_def u_def [symmetric] u
    by (cases "min_dirty (t_pending t)"; cases "max_dirty (t_pending t)";
        simp add: wanted_limits_def limits_ok_def Let_def send_def)
  ultimately show ?thesis using assms(1) by simp
qed

theorem commit_applies_limits_witness:
  "let t = set_max_size 100 100 (set_min_size 200 50 (sample_toplevel 6));
       t' = handle_toplevel_surface_commit t
   in limits_ok (base t') \<and>
    base t' = (if limits_ok (wanted_limits t) then wanted_limits t else base t) \<and>
    (\<not> limits_ok (wanted_limits t) \<longrightarrow> Post_error TOPLEVEL_INVALID_SIZE \<in> set (sent t'))"
  unfolding Let_def by (rule commit_applies_limits [OF _ refl]) code_simp

theorem geometry_transaction_witness:
  "let t = toplevel_run [Surface_commit] (sample_toplevel 6);
       t1 = swc_window_set_geometry toplevel_window_impl (mk_rect 40 30 300 200) t;
       t3 = toplevel_ack_configure 7 (send_configure 0 [] True 7 t1)
   in view_geometry t3 = view_geometry t \<and>
    view_geometry (window_commit toplevel_window_impl t3) =
      (view_geometry t)\<lparr>rect_x := rect_x (mk_rect 40 30 300 200),
        rect_y := rect_y (mk_rect 40 30 300 200)\<rparr>"
  unfolding Let_def
  by (rule geometry_transaction [OF refl _ _ refl _ _ refl]; code_simp)

end
