(* ===== verification/Layer_Geometry.thy ===== *)
theory Layer_Geometry
  imports Geometry
begin

text \<open>
  The geometry of layer surfaces (\<open>libswc/layer_shell.c\<close>): the state a client sets, which edge
  its exclusive zone reserves, where it is placed, what it leaves of the screen, and what the
  screen makes usable (\<open>screen_update_usable_geometry\<close> of \<open>libswc/screen.c\<close>).

  A \<open>pixman_box32_t\<close> is a record of its four corners.  Pixman's rectangular regions are their
  boxes: an empty region is a box with no inside, and its extents are all zeroes.
\<close>

section \<open>State\<close>

record margin =
  margin_top :: int
  margin_right :: int
  margin_bottom :: int
  margin_left :: int

record layer_surface_state =
  layer :: int
  anchor :: mask
  exclusive_zone :: int
  exclusive_edge :: mask
  keyboard_interactivity :: int
  margin :: margin
  desired_width :: int
  desired_height :: int

definition LAYER_BACKGROUND :: int where "LAYER_BACKGROUND = 0"
definition LAYER_BOTTOM :: int where "LAYER_BOTTOM = 1"
definition LAYER_TOP :: int where "LAYER_TOP = 2"
definition LAYER_OVERLAY :: int where "LAYER_OVERLAY = 3"

definition ANCHOR_TOP :: mask where "ANCHOR_TOP = 1"
definition ANCHOR_BOTTOM :: mask where "ANCHOR_BOTTOM = 2"
definition ANCHOR_LEFT :: mask where "ANCHOR_LEFT = 4"
definition ANCHOR_RIGHT :: mask where "ANCHOR_RIGHT = 8"

definition KEYBOARD_NONE :: int where "KEYBOARD_NONE = 0"
definition KEYBOARD_EXCLUSIVE :: int where "KEYBOARD_EXCLUSIVE = 1"
definition KEYBOARD_ON_DEMAND :: int where "KEYBOARD_ON_DEMAND = 2"

lemmas anchor_defs = ANCHOR_TOP_def ANCHOR_BOTTOM_def ANCHOR_LEFT_def ANCHOR_RIGHT_def
lemmas layer_defs = LAYER_BACKGROUND_def LAYER_BOTTOM_def LAYER_TOP_def LAYER_OVERLAY_def

record box =
  box_x1 :: int
  box_y1 :: int
  box_x2 :: int
  box_y2 :: int

definition layer_order :: "int list" where
  "layer_order = [LAYER_OVERLAY, LAYER_TOP, LAYER_BOTTOM, LAYER_BACKGROUND]"

definition state_equal :: "layer_surface_state \<Rightarrow> layer_surface_state \<Rightarrow> bool" where
  "state_equal a b \<longleftrightarrow> layer a = layer b \<and> anchor a = anchor b \<and>
     exclusive_zone a = exclusive_zone b \<and> exclusive_edge a = exclusive_edge b \<and>
     keyboard_interactivity a = keyboard_interactivity b \<and>
     margin_top (margin a) = margin_top (margin b) \<and>
     margin_right (margin a) = margin_right (margin b) \<and>
     margin_bottom (margin a) = margin_bottom (margin b) \<and>
     margin_left (margin a) = margin_left (margin b) \<and>
     desired_width a = desired_width b \<and> desired_height a = desired_height b"

lemma state_equal_iff: "state_equal a b \<longleftrightarrow> a = b"
  by (cases a; cases b; cases "margin a"; cases "margin b") (auto simp: state_equal_def)

section \<open>Exclusive zones\<close>

definition exclusive_edge_for_state :: "layer_surface_state \<Rightarrow> mask" where
  "exclusive_edge_for_state s =
     (if exclusive_edge s \<noteq> 0 then exclusive_edge s
      else
        let a = anchor s
        in if a = ANCHOR_TOP OR ANCHOR_LEFT OR ANCHOR_RIGHT \<or> a = ANCHOR_TOP then ANCHOR_TOP
           else if a = ANCHOR_BOTTOM OR ANCHOR_LEFT OR ANCHOR_RIGHT \<or> a = ANCHOR_BOTTOM
           then ANCHOR_BOTTOM
           else if a = ANCHOR_LEFT OR ANCHOR_TOP OR ANCHOR_BOTTOM \<or> a = ANCHOR_LEFT
           then ANCHOR_LEFT
           else if a = ANCHOR_RIGHT OR ANCHOR_TOP OR ANCHOR_BOTTOM \<or> a = ANCHOR_RIGHT
           then ANCHOR_RIGHT
           else 0)"

definition has_effective_exclusive_zone :: "layer_surface_state \<Rightarrow> bool" where
  "has_effective_exclusive_zone s \<longleftrightarrow> exclusive_zone s > 0 \<and> exclusive_edge_for_state s \<noteq> 0"

definition shrink_box :: "mask \<Rightarrow> int \<Rightarrow> box \<Rightarrow> box" where
  "shrink_box edge amount b =
     (if amount \<le> 0 then b
      else if edge = ANCHOR_TOP then b\<lparr>box_y1 := min (box_y1 b + amount) (box_y2 b)\<rparr>
      else if edge = ANCHOR_BOTTOM then b\<lparr>box_y2 := max (box_y2 b - amount) (box_y1 b)\<rparr>
      else if edge = ANCHOR_LEFT then b\<lparr>box_x1 := min (box_x1 b + amount) (box_x2 b)\<rparr>
      else if edge = ANCHOR_RIGHT then b\<lparr>box_x2 := max (box_x2 b - amount) (box_x1 b)\<rparr>
      else b)"

definition rectangle_from_box :: "box \<Rightarrow> swc_rectangle" where
  "rectangle_from_box b = mk_rect (box_x1 b) (box_y1 b)
     (u32 (max (box_x2 b - box_x1 b) 0)) (u32 (max (box_y2 b - box_y1 b) 0))"

text \<open>The box of a screen, its far edges limited to an \<open>int32_t\<close>.\<close>

definition full_box :: "swc_rectangle \<Rightarrow> box" where
  "full_box g = \<lparr>box_x1 = rect_x g, box_y1 = rect_y g,
     box_x2 = min (rect_x g + rect_width g) INT32_MAX,
     box_y2 = min (rect_y g + rect_height g) INT32_MAX\<rparr>"

section \<open>Placing a surface\<close>

text \<open>
  One axis of \<open>update_position\<close>: \<open>near\<close> and \<open>far\<close> tell which edges the surface is anchored
  to, \<open>first\<close> and \<open>extent\<close> are the bounds, \<open>size\<close> the surface's.
\<close>

definition place_axis :: "bool \<Rightarrow> bool \<Rightarrow> int \<Rightarrow> int \<Rightarrow> int \<Rightarrow> int \<Rightarrow> int \<Rightarrow> int" where
  "place_axis near far first extent sz m_near m_far =
     (if near \<and> \<not> far then first + m_near
      else if far \<and> \<not> near then first + extent - sz - m_far
      else first + cdiv (extent - sz + m_near - m_far) 2)"

text \<open>Where \<open>update_position\<close> moves the view.\<close>

definition update_position ::
  "layer_surface_state \<Rightarrow> swc_rectangle \<Rightarrow> swc_rectangle \<Rightarrow> swc_rectangle" where
  "update_position s bounds view =
     (let x = place_axis (has (anchor s) ANCHOR_LEFT) (has (anchor s) ANCHOR_RIGHT)
            (rect_x bounds) (rect_width bounds) (rect_width view)
            (margin_left (margin s)) (margin_right (margin s));
          y = place_axis (has (anchor s) ANCHOR_TOP) (has (anchor s) ANCHOR_BOTTOM)
            (rect_y bounds) (rect_height bounds) (rect_height view)
            (margin_top (margin s)) (margin_bottom (margin s))
      in view\<lparr>rect_x := clamp_s32 x, rect_y := clamp_s32 y\<rparr>)"

section \<open>Sizes\<close>

definition available_size :: "int \<Rightarrow> int \<Rightarrow> int \<Rightarrow> int" where
  "available_size sz start_margin end_margin =
     (let available = sz - start_margin - end_margin
      in if available < 0 then 0 else if available > INT32_MAX then INT32_MAX else available)"

definition configure_size :: "int \<Rightarrow> mask \<Rightarrow> mask \<Rightarrow> mask \<Rightarrow> int \<Rightarrow> int \<Rightarrow> int \<Rightarrow> int" where
  "configure_size desired a first_anchor second_anchor sz start_margin end_margin =
     (if desired \<noteq> 0 then desired
      else if has a first_anchor \<and> has a second_anchor
      then available_size sz start_margin end_margin
      else 0)"

section \<open>Validation\<close>

datatype layer_error = INVALID_ANCHOR | INVALID_SIZE | INVALID_SURFACE_STATE
  | INVALID_KEYBOARD_INTERACTIVITY | INVALID_EXCLUSIVE_EDGE | INVALID_LAYER | LAYER_ROLE
  | ALREADY_CONSTRUCTED

definition all_anchors :: mask where
  "all_anchors = ANCHOR_TOP OR ANCHOR_BOTTOM OR ANCHOR_LEFT OR ANCHOR_RIGHT"

text \<open>The error \<open>validate_state\<close> posts, or \<open>None\<close> where it returns true.\<close>

definition validate_state :: "nat \<Rightarrow> layer_surface_state \<Rightarrow> layer_error option" where
  "validate_state version s =
     (let a = anchor s
      in if has a (NOT all_anchors) then Some INVALID_ANCHOR
         else if (desired_width s = 0 \<and>
             a AND (ANCHOR_LEFT OR ANCHOR_RIGHT) \<noteq> ANCHOR_LEFT OR ANCHOR_RIGHT) \<or>
           (desired_height s = 0 \<and>
             a AND (ANCHOR_TOP OR ANCHOR_BOTTOM) \<noteq> ANCHOR_TOP OR ANCHOR_BOTTOM)
         then Some INVALID_SIZE
         else if exclusive_zone s < - 1 then Some INVALID_SURFACE_STATE
         else if keyboard_interactivity s > KEYBOARD_ON_DEMAND \<or>
           (version < 4 \<and> keyboard_interactivity s = KEYBOARD_ON_DEMAND)
         then Some INVALID_KEYBOARD_INTERACTIVITY
         else if exclusive_edge s \<noteq> 0 \<and>
           (exclusive_edge s AND (exclusive_edge s - 1) \<noteq> 0 \<or>
            \<not> has (exclusive_edge s) all_anchors \<or> \<not> has a (exclusive_edge s))
         then Some INVALID_EXCLUSIVE_EDGE
         else None)"

section \<open>The usable geometry of a screen\<close>

definition box_nonempty :: "box \<Rightarrow> bool" where
  "box_nonempty b \<longleftrightarrow> box_x1 b < box_x2 b \<and> box_y1 b < box_y2 b"

definition intersect_box :: "box \<Rightarrow> box \<Rightarrow> box" where
  "intersect_box a b = \<lparr>box_x1 = max (box_x1 a) (box_x1 b), box_y1 = max (box_y1 a) (box_y1 b),
     box_x2 = min (box_x2 a) (box_x2 b), box_y2 = min (box_y2 a) (box_y2 b)\<rparr>"

definition rect_box :: "swc_rectangle \<Rightarrow> box" where
  "rect_box g = \<lparr>box_x1 = rect_x g, box_y1 = rect_y g,
     box_x2 = rect_x g + rect_width g, box_y2 = rect_y g + rect_height g\<rparr>"

definition box_rect :: "box \<Rightarrow> swc_rectangle" where
  "box_rect b = mk_rect (box_x1 b) (box_y1 b) (box_x2 b - box_x1 b) (box_y2 b - box_y1 b)"

text \<open>
  \<open>screen_update_usable_geometry\<close>: \<open>boxes\<close> are what the screen's modifiers leave, in order.
  The result is the new usable geometry and whether the window manager is told.
\<close>

definition screen_update_usable_geometry ::
  "swc_rectangle \<Rightarrow> box list \<Rightarrow> swc_rectangle \<Rightarrow> swc_rectangle \<times> bool" where
  "screen_update_usable_geometry geom boxes usable =
     (let area = fold (\<lambda>b t. intersect_box t b) boxes (rect_box geom);
          extents = (if box_nonempty area then area else rect_box geom)
      in if box_rect extents \<noteq> usable then (box_rect extents, True) else (usable, False))"

section \<open>Lemmas\<close>

definition box_ok :: "box \<Rightarrow> bool" where
  "box_ok b \<longleftrightarrow> box_x1 b \<le> box_x2 b \<and> box_y1 b \<le> box_y2 b"

definition box_inside :: "box \<Rightarrow> box \<Rightarrow> bool" where
  "box_inside a b \<longleftrightarrow> box_x1 b \<le> box_x1 a \<and> box_x2 a \<le> box_x2 b \<and>
     box_y1 b \<le> box_y1 a \<and> box_y2 a \<le> box_y2 b"

lemma box_inside_refl [simp]: "box_inside b b"
  by (simp add: box_inside_def)

lemma box_inside_trans: "box_inside a b \<Longrightarrow> box_inside b c \<Longrightarrow> box_inside a c"
  by (simp add: box_inside_def)

lemma shrink_box_ok: "box_ok b \<Longrightarrow> box_ok (shrink_box e n b)"
  by (auto simp: shrink_box_def box_ok_def)

lemma shrink_box_inside: "box_ok b \<Longrightarrow> box_inside (shrink_box e n b) b"
  by (auto simp: shrink_box_def box_ok_def box_inside_def)

text \<open>A view and a box share no point.\<close>

definition clear_of :: "swc_rectangle \<Rightarrow> box \<Rightarrow> bool" where
  "clear_of v b \<longleftrightarrow> \<not> box_nonempty b \<or> rect_y v + rect_height v \<le> box_y1 b \<or> box_y2 b \<le> rect_y v \<or>
     rect_x v + rect_width v \<le> box_x1 b \<or> box_x2 b \<le> rect_x v"

lemma clear_of_inside: "clear_of v b \<Longrightarrow> box_inside a b \<Longrightarrow> clear_of v a"
  by (auto simp: clear_of_def box_inside_def box_nonempty_def)

text \<open>
  A panel keeps to its zone: it is anchored to the edge it reserves and not to the opposite
  one, and the zone covers its size and margin on that edge.
\<close>

definition keeps_to_zone :: "layer_surface_state \<Rightarrow> swc_rectangle \<Rightarrow> bool" where
  "keeps_to_zone s view \<longleftrightarrow>
     (let e = exclusive_edge_for_state s; a = anchor s; z = exclusive_zone s; m = margin s in
      (e = ANCHOR_TOP \<and> has a ANCHOR_TOP \<and> \<not> has a ANCHOR_BOTTOM \<and>
         margin_top m + rect_height view \<le> z) \<or>
      (e = ANCHOR_BOTTOM \<and> has a ANCHOR_BOTTOM \<and> \<not> has a ANCHOR_TOP \<and>
         margin_bottom m + rect_height view \<le> z) \<or>
      (e = ANCHOR_LEFT \<and> has a ANCHOR_LEFT \<and> \<not> has a ANCHOR_RIGHT \<and>
         margin_left m + rect_width view \<le> z) \<or>
      (e = ANCHOR_RIGHT \<and> has a ANCHOR_RIGHT \<and> \<not> has a ANCHOR_LEFT \<and>
         margin_right m + rect_width view \<le> z))"

text \<open>Where a panel that keeps to its zone is placed, the box it shrinks is clear of it.\<close>

lemma placed_clear:
  assumes "keeps_to_zone s view" and "exclusive_zone s > 0" and "box_ok b"
    and "in_s32 (box_x1 b)" "in_s32 (box_y1 b)" "in_s32 (box_x2 b)" "in_s32 (box_y2 b)"
    and "0 \<le> rect_width view" "0 \<le> rect_height view"
    and "0 \<le> margin_top (margin s)" "0 \<le> margin_left (margin s)"
  shows "clear_of (update_position s (rectangle_from_box b) view)
    (shrink_box (exclusive_edge_for_state s) (exclusive_zone s) b)"
proof -
  have u: "u32 (max (box_x2 b - box_x1 b) 0) = box_x2 b - box_x1 b"
    "u32 (max (box_y2 b - box_y1 b) 0) = box_y2 b - box_y1 b"
    using assms(3-7) by (simp_all add: u32_id in_u32_def in_s32_def box_ok_def)
  have ne: "ANCHOR_TOP \<noteq> ANCHOR_BOTTOM" "ANCHOR_TOP \<noteq> ANCHOR_LEFT" "ANCHOR_TOP \<noteq> ANCHOR_RIGHT"
    "ANCHOR_BOTTOM \<noteq> ANCHOR_LEFT" "ANCHOR_BOTTOM \<noteq> ANCHOR_RIGHT" "ANCHOR_LEFT \<noteq> ANCHOR_RIGHT"
    by (simp_all add: anchor_defs)
  define v where "v = update_position s (rectangle_from_box b) view"
  have v: "rect_width v = rect_width view" "rect_height v = rect_height view"
    by (simp_all add: v_def update_position_def Let_def)
  have x: "rect_x v = clamp_s32 (place_axis (has (anchor s) ANCHOR_LEFT) (has (anchor s) ANCHOR_RIGHT)
      (box_x1 b) (box_x2 b - box_x1 b) (rect_width view) (margin_left (margin s))
      (margin_right (margin s)))"
    by (simp add: v_def update_position_def Let_def rectangle_from_box_def u)
  have y: "rect_y v = clamp_s32 (place_axis (has (anchor s) ANCHOR_TOP) (has (anchor s) ANCHOR_BOTTOM)
      (box_y1 b) (box_y2 b - box_y1 b) (rect_height view) (margin_top (margin s))
      (margin_bottom (margin s)))"
    by (simp add: v_def update_position_def Let_def rectangle_from_box_def u)
  from assms(1) consider
      (top) "exclusive_edge_for_state s = ANCHOR_TOP" "has (anchor s) ANCHOR_TOP"
        "\<not> has (anchor s) ANCHOR_BOTTOM" "margin_top (margin s) + rect_height view \<le> exclusive_zone s"
    | (bottom) "exclusive_edge_for_state s = ANCHOR_BOTTOM" "has (anchor s) ANCHOR_BOTTOM"
        "\<not> has (anchor s) ANCHOR_TOP" "margin_bottom (margin s) + rect_height view \<le> exclusive_zone s"
    | (left) "exclusive_edge_for_state s = ANCHOR_LEFT" "has (anchor s) ANCHOR_LEFT"
        "\<not> has (anchor s) ANCHOR_RIGHT" "margin_left (margin s) + rect_width view \<le> exclusive_zone s"
    | (right) "exclusive_edge_for_state s = ANCHOR_RIGHT" "has (anchor s) ANCHOR_RIGHT"
        "\<not> has (anchor s) ANCHOR_LEFT" "margin_right (margin s) + rect_width view \<le> exclusive_zone s"
    unfolding keeps_to_zone_def Let_def by blast
  then show ?thesis
  proof cases
    case top
    have "rect_y v = clamp_s32 (box_y1 b + margin_top (margin s))"
      using top y by (simp add: place_axis_def)
    then show ?thesis
      using assms top by (auto simp: v_def [symmetric] clear_of_def v shrink_box_def
          box_nonempty_def clamp_s32_def in_s32_def)
  next
    case bottom
    have "rect_y v = clamp_s32 (box_y2 b - rect_height view - margin_bottom (margin s))"
      using bottom y by (simp add: place_axis_def)
    then show ?thesis
      using assms bottom ne by (auto simp: v_def [symmetric] clear_of_def v shrink_box_def
          box_nonempty_def clamp_s32_def in_s32_def)
  next
    case left
    have "rect_x v = clamp_s32 (box_x1 b + margin_left (margin s))"
      using left x by (simp add: place_axis_def)
    then show ?thesis
      using assms left ne by (auto simp: v_def [symmetric] clear_of_def v shrink_box_def
          box_nonempty_def clamp_s32_def in_s32_def)
  next
    case right
    have "rect_x v = clamp_s32 (box_x2 b - rect_width view - margin_right (margin s))"
      using right x by (simp add: place_axis_def)
    then show ?thesis
      using assms right ne by (auto simp: v_def [symmetric] clear_of_def v shrink_box_def
          box_nonempty_def clamp_s32_def in_s32_def)
  qed
qed

section \<open>Properties\<close>

lemma unat_low: "unat (take_bit 4 e) = unat e mod 16" for e :: mask
  by (simp add: unsigned_take_bit_eq) (simp add: take_bit_eq_mod)

lemma unat_high: "unat (drop_bit 4 e) = unat e div 16" for e :: mask
  by (simp only: unat_drop_bit_eq) (simp add: drop_bit_eq_div)

lemma small_mask:
  fixes e :: mask
  assumes "unat e < 16"
  shows "e \<in> {0, 1, 2, 3, 4, 5, 6, 7, 8, 9, 10, 11, 12, 13, 14, 15}"
proof -
  have "unat e \<in> {0, 1, 2, 3, 4, 5, 6, 7, 8, 9, 10, 11, 12, 13, 14, 15}"
    using assms unfolding insert_iff empty_iff by presburger
  then have "word_of_nat (unat e) \<in>
      (word_of_nat ` {0, 1, 2, 3, 4, 5, 6, 7, 8, 9, 10, 11, 12, 13, 14, 15} :: mask set)"
    by (rule imageI)
  then show ?thesis by simp
qed

lemma drop_bit_4_minus_1:
  fixes e :: mask
  assumes "e AND 15 \<noteq> 0"
  shows "drop_bit 4 (e - 1) = drop_bit 4 e"
proof -
  have pred_div: "(n - 1) div 16 = n div 16" if "n mod 16 \<noteq> 0" for n :: nat
    using that by (cases n) (simp_all add: div_Suc)
  have "mask 4 = (15 :: mask)" by (simp add: mask_eq_exp_minus_1)
  then have "take_bit 4 e = e AND 15" by (simp only: take_bit_eq_mask)
  then have "unat (take_bit 4 e) \<noteq> 0" using assms by (metis unsigned_eq_0_iff)
  then have m: "unat e mod 16 \<noteq> 0" unfolding unat_low .
  then have "e \<noteq> 0" by auto
  then have "unat (e - 1) = unat e - 1" by (rule unat_minus_one)
  then have "unat (drop_bit 4 (e - 1)) = unat (drop_bit 4 e)"
    unfolding unat_high using pred_div [OF m] by (simp only:)
  then show ?thesis by (rule unsigned_word_eqI)
qed

lemma single_anchor_edge:
  fixes e :: mask
  assumes "e AND (e - 1) = 0" and "e AND 15 \<noteq> 0"
  shows "e = 1 \<or> e = 2 \<or> e = 4 \<or> e = 8"
proof -
  have "drop_bit 4 e = drop_bit 4 (e AND (e - 1))"
    using drop_bit_4_minus_1 [OF assms(2)] by simp
  then have "drop_bit 4 e = 0" using assms(1) by simp
  then have "unat e div 16 = 0" using unat_high [of e] by simp
  then have "unat e < 16" by simp
  from small_mask [OF this] assms show ?thesis
    by (elim insertE) simp_all
qed

text \<open>In a state the code accepts, the edge an exclusive zone is reserved along is always a single
  edge the surface is anchored to; explicit or derived from the anchors, it never names two
  edges, or one the surface does not touch.\<close>

theorem exclusive_edge_anchored:
  assumes "validate_state version s = None"
  shows "exclusive_edge_for_state s \<in> {0, ANCHOR_TOP, ANCHOR_BOTTOM, ANCHOR_LEFT, ANCHOR_RIGHT} \<and>
    (exclusive_edge_for_state s \<noteq> 0 \<longrightarrow> has (anchor s) (exclusive_edge_for_state s))"
proof (cases "exclusive_edge s = 0")
  case True
  then show ?thesis
    by (auto simp: exclusive_edge_for_state_def Let_def has_def anchor_defs)
next
  case False
  have "all_anchors = 15" by (simp add: all_anchors_def anchor_defs)
  then have "exclusive_edge s AND (exclusive_edge s - 1) = 0" "exclusive_edge s AND 15 \<noteq> 0"
    "has (anchor s) (exclusive_edge s)"
    using assms False by (auto simp: validate_state_def has_def Let_def split: if_splits)
  with single_anchor_edge [OF this(1,2)] show ?thesis
    using False by (auto simp: exclusive_edge_for_state_def anchor_defs)
qed

theorem exclusive_edge_anchored_witness:
  "let s = \<lparr>layer = 2, anchor = 13, exclusive_zone = 30, exclusive_edge = 0,
      keyboard_interactivity = 0, margin = \<lparr>margin_top = 0, margin_right = 0, margin_bottom = 0,
      margin_left = 0\<rparr>, desired_width = 0, desired_height = 30\<rparr>
   in exclusive_edge_for_state s \<in> {0, ANCHOR_TOP, ANCHOR_BOTTOM, ANCHOR_LEFT, ANCHOR_RIGHT} \<and>
    (exclusive_edge_for_state s \<noteq> 0 \<longrightarrow> has (anchor s) (exclusive_edge_for_state s))"
  unfolding Let_def by (rule exclusive_edge_anchored [of 4]) code_simp

text \<open>A point of a box.\<close>

definition in_box :: "int \<Rightarrow> int \<Rightarrow> box \<Rightarrow> bool" where
  "in_box x y b \<longleftrightarrow> box_x1 b \<le> x \<and> x < box_x2 b \<and> box_y1 b \<le> y \<and> y < box_y2 b"

lemma in_intersect_box: "in_box x y (intersect_box a b) \<longleftrightarrow> in_box x y a \<and> in_box x y b"
  by (auto simp: in_box_def intersect_box_def)

lemma in_fold_intersect:
  "in_box x y (fold (\<lambda>b t. intersect_box t b) bs a) \<longleftrightarrow> in_box x y a \<and> (\<forall>b \<in> set bs. in_box x y b)"
  by (induction bs arbitrary: a) (auto simp: in_intersect_box)

lemma box_nonempty_iff: "box_nonempty b \<longleftrightarrow> (\<exists>x y. in_box x y b)"
proof
  assume "box_nonempty b"
  then have "in_box (box_x1 b) (box_y1 b) b" by (simp add: box_nonempty_def in_box_def)
  then show "\<exists>x y. in_box x y b" by blast
qed (auto simp: box_nonempty_def in_box_def)

lemma rect_box_box_rect [simp]: "rect_box (box_rect b) = b"
  by (simp add: rect_box_def box_rect_def)

text \<open>The usable geometry of a screen is exactly what the screen and all its modifiers have in
  common, or the whole screen when they have nothing in common, so that no client can take the
  screen away; and the window manager is told exactly when it changed.\<close>

theorem usable_geometry_exact:
  "let (new, told) = screen_update_usable_geometry geom boxes usable;
       common = (\<lambda>x y. in_box x y (rect_box geom) \<and> (\<forall>b \<in> set boxes. in_box x y b))
   in (\<forall>x y. in_box x y (rect_box new) \<longleftrightarrow>
         (if \<exists>x y. common x y then common x y else in_box x y (rect_box geom))) \<and>
      (told \<longleftrightarrow> new \<noteq> usable)"
proof -
  define area where "area = fold (\<lambda>b t. intersect_box t b) boxes (rect_box geom)"
  define ex where "ex = (if box_nonempty area then area else rect_box geom)"
  have r: "screen_update_usable_geometry geom boxes usable =
      (box_rect ex, box_rect ex \<noteq> usable)"
    by (simp add: screen_update_usable_geometry_def Let_def area_def ex_def)
  show ?thesis
    unfolding r by (auto simp: ex_def box_nonempty_iff area_def in_fold_intersect)
qed

theorem usable_geometry_exact_witness:
  "let geom = \<lparr>rect_x = 0, rect_y = 0, rect_width = 100, rect_height = 60\<rparr>;
       boxes = [\<lparr>box_x1 = 0, box_y1 = 10, box_x2 = 100, box_y2 = 60\<rparr>];
       (new, told) = screen_update_usable_geometry geom boxes geom;
       common = (\<lambda>x y. in_box x y (rect_box geom) \<and> (\<forall>b \<in> set boxes. in_box x y b))
   in rect_y new = 10 \<and> (\<forall>x y. in_box x y (rect_box new) \<longleftrightarrow>
         (if \<exists>x y. common x y then common x y else in_box x y (rect_box geom))) \<and>
      (told \<longleftrightarrow> new \<noteq> geom)"
proof -
  let ?g = "\<lparr>rect_x = 0, rect_y = 0, rect_width = 100, rect_height = 60\<rparr>"
  let ?b = "[\<lparr>box_x1 = 0, box_y1 = 10, box_x2 = 100, box_y2 = 60\<rparr>]"
  have "rect_y (fst (screen_update_usable_geometry ?g ?b ?g)) = 10" by code_simp
  then show ?thesis
    using usable_geometry_exact [of ?g ?b ?g] unfolding Let_def case_prod_unfold
    by (rule conjI)
qed

end
