(* ===== verification/Layer_Shell.thy ===== *)
theory Layer_Shell
  imports Layer_Geometry Configure_Queue
begin

text \<open>
  Layer surfaces (\<open>libswc/layer_shell.c\<close>): panels, docks, wallpapers and overlays.  A surface is
  named by a number, as its pointer in the code; \<open>surface\<close> is the store of them.  Each screen
  with layer surfaces has a \<open>layer_screen\<close>, whose list holds them in the order they came.
\<close>

section \<open>State\<close>

datatype layer_event =
    Layer_configure int int int
  | Layer_closed
  | Layer_error layer_error
  | Layer_no_memory

text \<open>A layer surface, with the parts of its view the code reads and writes.\<close>

record layer_surface =
  ls_version :: nat
  ls_view :: nat
  ls_geometry :: swc_rectangle
  ls_buffer :: bool
  ls_visible :: bool
  ls_always_top :: bool
  ls_stack_layer :: nat
  on_screen :: "nat option"
  serials :: "int list"
  ls_count :: int
  current :: layer_surface_state
  pending :: layer_surface_state
  initial_layer :: int
  configured :: bool
  mapped :: bool
  closed :: bool
  ls_sent :: "layer_event list"

text \<open>\<open>other_boxes\<close> is what the screen's other modifiers (its panels) leave of it.\<close>

record layer_screen =
  lsc_screen :: nat
  lsc_geometry :: swc_rectangle
  lsc_usable :: swc_rectangle
  other_boxes :: "box list"
  surfaces :: "nat list"

text \<open>\<open>view_chain v\<close> is \<open>v\<close> followed by its parents, nearest first.\<close>

record layer_shell =
  surface :: "nat \<Rightarrow> layer_surface"
  layer_screens :: "layer_screen list"
  kb_focus :: "nat option"
  saved_focus :: "nat option"
  view_chain :: "nat \<Rightarrow> nat list"

text \<open>
  What the rest of the seat does: whether the session is locked, what the keyboard's focus
  becomes when \<open>keyboard_set_focus\<close> is asked for a view, and \<open>xdg_popup_grab_focus_owner\<close>.
\<close>

record focus_env =
  lock_active :: bool
  set_focus :: "nat option \<Rightarrow> nat option \<Rightarrow> nat option"
  focus_owner :: "nat \<Rightarrow> nat option"

definition update_surface ::
  "nat \<Rightarrow> (layer_surface \<Rightarrow> layer_surface) \<Rightarrow> layer_shell \<Rightarrow> layer_shell" where
  "update_surface i f st = st\<lparr>surface := (surface st)(i := f (surface st i))\<rparr>"

definition send_layer :: "layer_event \<Rightarrow> layer_surface \<Rightarrow> layer_surface" where
  "send_layer e s = s\<lparr>ls_sent := ls_sent s @ [e]\<rparr>"

definition clear_configures :: "layer_surface \<Rightarrow> layer_surface" where
  "clear_configures s = s\<lparr>serials := [], ls_count := 0\<rparr>"

section \<open>Arranging a screen\<close>

definition surface_zone :: "layer_surface \<Rightarrow> box \<Rightarrow> box" where
  "surface_zone s b = shrink_box (exclusive_edge_for_state (current s)) (exclusive_zone (current s)) b"

definition place :: "layer_surface \<Rightarrow> box \<Rightarrow> layer_surface" where
  "place s b = s\<lparr>ls_geometry := update_position (current s) (rectangle_from_box b) (ls_geometry s)\<rparr>"

fun available_layer ::
  "(nat \<Rightarrow> layer_surface) \<Rightarrow> nat option \<Rightarrow> int \<Rightarrow> nat list \<Rightarrow> box \<Rightarrow> box" where
  "available_layer h exclude l [] b = b"
| "available_layer h exclude l (i # is) b =
     (if exclude = Some i \<or> \<not> mapped (h i) \<or> layer (current (h i)) \<noteq> l \<or>
         \<not> has_effective_exclusive_zone (current (h i))
      then available_layer h exclude l is b
      else available_layer h exclude l is (surface_zone (h i) b))"

definition calculate_available_box ::
  "(nat \<Rightarrow> layer_surface) \<Rightarrow> nat list \<Rightarrow> swc_rectangle \<Rightarrow> nat option \<Rightarrow> box" where
  "calculate_available_box h is geom exclude =
     fold (\<lambda>l b. available_layer h exclude l is b) layer_order (full_box geom)"

text \<open>The two passes of \<open>arrange_layer_screen\<close>, each over one layer of \<open>layer_order\<close>.\<close>

fun reserve_layer ::
  "int \<Rightarrow> nat list \<Rightarrow> (nat \<Rightarrow> layer_surface) \<times> box \<Rightarrow> (nat \<Rightarrow> layer_surface) \<times> box" where
  "reserve_layer l [] (h, b) = (h, b)"
| "reserve_layer l (i # is) (h, b) =
     (if \<not> mapped (h i) \<or> layer (current (h i)) \<noteq> l \<or> \<not> has_effective_exclusive_zone (current (h i))
      then reserve_layer l is (h, b)
      else reserve_layer l is (h(i := place (h i) b), surface_zone (h i) b))"

fun place_layer ::
  "box \<Rightarrow> box \<Rightarrow> int \<Rightarrow> nat list \<Rightarrow> (nat \<Rightarrow> layer_surface) \<Rightarrow> (nat \<Rightarrow> layer_surface)" where
  "place_layer full available l [] h = h"
| "place_layer full available l (i # is) h =
     (if \<not> mapped (h i) \<or> layer (current (h i)) \<noteq> l \<or> has_effective_exclusive_zone (current (h i))
      then place_layer full available l is h
      else place_layer full available l is
        (h(i := place (h i) (if exclusive_zone (current (h i)) = - 1 then full else available))))"

definition arrange_layer_screen ::
  "nat list \<Rightarrow> swc_rectangle \<Rightarrow> (nat \<Rightarrow> layer_surface) \<Rightarrow> (nat \<Rightarrow> layer_surface) \<times> box" where
  "arrange_layer_screen is geom h =
     (let full = full_box geom;
          (h, available) = fold (\<lambda>l. reserve_layer l is) layer_order (h, full);
          h = fold (\<lambda>l. place_layer full available l is) layer_order h
      in (h, available))"

text \<open>
  \<open>screen_update_usable_geometry\<close> on a screen with layer surfaces: \<open>modify\<close> arranges them, and
  what they leave is intersected with what the other modifiers leave.
\<close>

fun update_usable :: "nat \<Rightarrow> layer_screen list \<Rightarrow> (nat \<Rightarrow> layer_surface) \<Rightarrow>
    layer_screen list \<times> (nat \<Rightarrow> layer_surface)" where
  "update_usable scr [] h = ([], h)"
| "update_usable scr (sc # scs) h =
     (if lsc_screen sc = scr
      then let (h, available) = arrange_layer_screen (surfaces sc) (lsc_geometry sc) h
           in (sc\<lparr>lsc_usable := fst (screen_update_usable_geometry (lsc_geometry sc)
                 (available # other_boxes sc) (lsc_usable sc))\<rparr> # scs, h)
      else let (scs, h) = update_usable scr scs h in (sc # scs, h))"

definition screen_update :: "nat \<Rightarrow> layer_shell \<Rightarrow> layer_shell" where
  "screen_update scr st =
     (let (scs, h) = update_usable scr (layer_screens st) (surface st)
      in st\<lparr>layer_screens := scs, surface := h\<rparr>)"

definition restack_layer :: "layer_surface \<Rightarrow> layer_surface" where
  "restack_layer s =
     (let l = layer (current s);
          (stack, top) =
            (if l = LAYER_BACKGROUND then (0, False)
             else if l = LAYER_BOTTOM then (1, False)
             else if l = LAYER_TOP then (3, True)
             else if l = LAYER_OVERLAY then (6, True) else (2, False))
      in s\<lparr>ls_always_top := top, ls_stack_layer := stack\<rparr>)"

section \<open>The keyboard\<close>

definition all_surfaces :: "layer_shell \<Rightarrow> nat list" where
  "all_surfaces st = concat (map surfaces (layer_screens st))"

definition first_surface :: "layer_shell \<Rightarrow> nat \<Rightarrow> nat option" where
  "first_surface st v = find (\<lambda>i. ls_view (surface st i) = v) (all_surfaces st)"

fun surface_on_chain :: "layer_shell \<Rightarrow> nat list \<Rightarrow> nat option" where
  "surface_on_chain st [] = None"
| "surface_on_chain st (v # vs) =
     (case first_surface st v of Some i \<Rightarrow> Some i | None \<Rightarrow> surface_on_chain st vs)"

definition layer_surface_from_view :: "layer_shell \<Rightarrow> nat option \<Rightarrow> nat option" where
  "layer_surface_from_view st v =
     (case v of None \<Rightarrow> None | Some v \<Rightarrow> surface_on_chain st (view_chain st v))"

definition wants_keyboard :: "layer_shell \<Rightarrow> int \<Rightarrow> nat \<Rightarrow> bool" where
  "wants_keyboard st l i \<longleftrightarrow> mapped (surface st i) \<and> layer (current (surface st i)) = l \<and>
     keyboard_interactivity (current (surface st i)) = KEYBOARD_EXCLUSIVE"

text \<open>Both lists are walked backwards: the newest surface of the newest screen first.\<close>

definition exclusive_keyboard_surface :: "layer_shell \<Rightarrow> nat option" where
  "exclusive_keyboard_surface st =
     (let newest = concat (map (\<lambda>sc. rev (surfaces sc)) (rev (layer_screens st)))
      in case find (wants_keyboard st LAYER_OVERLAY) newest of
           Some i \<Rightarrow> Some i
         | None \<Rightarrow> find (wants_keyboard st LAYER_TOP) newest)"

definition keyboard_set_focus :: "focus_env \<Rightarrow> nat option \<Rightarrow> layer_shell \<Rightarrow> layer_shell" where
  "keyboard_set_focus env v st = st\<lparr>kb_focus := set_focus env (kb_focus st) v\<rparr>"

definition save_keyboard_focus :: "focus_env \<Rightarrow> nat \<Rightarrow> layer_shell \<Rightarrow> layer_shell" where
  "save_keyboard_focus env v st = st\<lparr>saved_focus := focus_owner env v\<rparr>"

definition update_keyboard_focus :: "focus_env \<Rightarrow> layer_shell \<Rightarrow> layer_shell" where
  "update_keyboard_focus env st =
     (if lock_active env then st
      else
        let cur = kb_focus st; current_layer = layer_surface_from_view st cur
        in case exclusive_keyboard_surface st of
             Some e \<Rightarrow>
               if cur \<noteq> Some (ls_view (surface st e))
               then let st = (case cur of
                          Some c \<Rightarrow> if current_layer = None then save_keyboard_focus env c st else st
                        | None \<Rightarrow> st)
                    in keyboard_set_focus env (Some (ls_view (surface st e))) st
               else st
           | None \<Rightarrow>
               (case current_layer of
                  Some c \<Rightarrow>
                    if \<not> mapped (surface st c) \<or>
                       keyboard_interactivity (current (surface st c)) = KEYBOARD_NONE
                    then keyboard_set_focus env (saved_focus st) (st\<lparr>saved_focus := None\<rparr>)
                    else st
                | None \<Rightarrow> st\<lparr>saved_focus := None\<rparr>))"

definition layer_shell_handle_pointer_press ::
  "focus_env \<Rightarrow> nat option \<Rightarrow> layer_shell \<Rightarrow> layer_shell" where
  "layer_shell_handle_pointer_press env v st =
     (if lock_active env then st
      else case layer_surface_from_view st v of
        None \<Rightarrow> st
      | Some i \<Rightarrow>
          if \<not> mapped (surface st i) \<or>
             keyboard_interactivity (current (surface st i)) = KEYBOARD_NONE
          then st
          else if exclusive_keyboard_surface st \<noteq> None \<and> exclusive_keyboard_surface st \<noteq> Some i
          then update_keyboard_focus env st
          else if kb_focus st \<noteq> Some (ls_view (surface st i))
          then let st = (case kb_focus st of
                     Some c \<Rightarrow> if layer_surface_from_view st (Some c) = None
                               then save_keyboard_focus env c st else st
                   | None \<Rightarrow> st)
               in keyboard_set_focus env (Some (ls_view (surface st i))) st
          else st)"

section \<open>Configure events\<close>

text \<open>The size \<open>send_configure\<close> proposes, in the box the other surfaces leave.\<close>

definition proposed_size :: "layer_surface_state \<Rightarrow> swc_rectangle \<Rightarrow> int \<times> int" where
  "proposed_size c bounds =
     (configure_size (desired_width c) (anchor c) ANCHOR_LEFT ANCHOR_RIGHT (rect_width bounds)
        (margin_left (margin c)) (margin_right (margin c)),
      configure_size (desired_height c) (anchor c) ANCHOR_TOP ANCHOR_BOTTOM (rect_height bounds)
        (margin_top (margin c)) (margin_bottom (margin c)))"

text \<open>
  The part of \<open>send_configure\<close> on the queue of the surface: \<open>alloc\<close> tells whether \<open>malloc\<close>
  succeeds and \<open>ser\<close> is what \<open>wl_display_next_serial\<close> returns.
\<close>

definition LAYER_CONFIGURE_MAX :: int where "LAYER_CONFIGURE_MAX = 1024"

definition record_configure :: "int \<times> int \<Rightarrow> bool \<Rightarrow> int \<Rightarrow> layer_surface \<Rightarrow> layer_surface" where
  "record_configure wh alloc ser s =
     (if ls_count s \<ge> LAYER_CONFIGURE_MAX then send_layer (Layer_error INVALID_SURFACE_STATE) s
      else if \<not> alloc then send_layer Layer_no_memory s
      else send_layer (Layer_configure ser (fst wh) (snd wh))
        (s\<lparr>serials := serials s @ [ser], ls_count := ls_count s + 1\<rparr>))"

definition send_configure :: "nat \<Rightarrow> bool \<Rightarrow> int \<Rightarrow> layer_shell \<Rightarrow> layer_shell" where
  "send_configure i alloc ser st =
     (let s = surface st i
      in case (if closed s then None
               else case on_screen s of None \<Rightarrow> None
                 | Some scr \<Rightarrow> find (\<lambda>sc. lsc_screen sc = scr) (layer_screens st)) of
           None \<Rightarrow> st
         | Some sc \<Rightarrow>
             let b = calculate_available_box (surface st) (surfaces sc) (lsc_geometry sc) (Some i);
                 b = (if exclusive_zone (current s) = - 1 then full_box (lsc_geometry sc) else b)
             in update_surface i
                  (record_configure (proposed_size (current s) (rectangle_from_box b)) alloc ser) st)"

definition ack_configure :: "int \<Rightarrow> layer_surface \<Rightarrow> layer_surface" where
  "ack_configure ser s =
     (if closed s then s
      else if ser \<notin> set (serials s) then send_layer (Layer_error INVALID_SURFACE_STATE) s
      else
        let rest = drop_through (\<lambda>x. x = ser) (serials s)
        in s\<lparr>serials := rest,
             ls_count := u32 (ls_count s - (int (length (serials s)) - int (length rest))),
             configured := True\<rparr>)"

section \<open>Requests\<close>

definition set_pending ::
  "(layer_surface_state \<Rightarrow> layer_surface_state) \<Rightarrow> layer_surface \<Rightarrow> layer_surface" where
  "set_pending f s = (if \<not> closed s then s\<lparr>pending := f (pending s)\<rparr> else s)"

definition set_size :: "int \<Rightarrow> int \<Rightarrow> layer_surface \<Rightarrow> layer_surface" where
  "set_size w h = set_pending (\<lambda>p. p\<lparr>desired_width := w, desired_height := h\<rparr>)"

definition set_anchor :: "mask \<Rightarrow> layer_surface \<Rightarrow> layer_surface" where
  "set_anchor a = set_pending (\<lambda>p. p\<lparr>anchor := a\<rparr>)"

definition set_exclusive_zone :: "int \<Rightarrow> layer_surface \<Rightarrow> layer_surface" where
  "set_exclusive_zone z = set_pending (\<lambda>p. p\<lparr>exclusive_zone := z\<rparr>)"

definition set_margin :: "margin \<Rightarrow> layer_surface \<Rightarrow> layer_surface" where
  "set_margin m = set_pending (\<lambda>p. p\<lparr>margin := m\<rparr>)"

definition set_keyboard_interactivity :: "int \<Rightarrow> layer_surface \<Rightarrow> layer_surface" where
  "set_keyboard_interactivity k = set_pending (\<lambda>p. p\<lparr>keyboard_interactivity := k\<rparr>)"

definition set_exclusive_edge :: "mask \<Rightarrow> layer_surface \<Rightarrow> layer_surface" where
  "set_exclusive_edge e = set_pending (\<lambda>p. p\<lparr>exclusive_edge := e\<rparr>)"

definition set_layer :: "int \<Rightarrow> layer_surface \<Rightarrow> layer_surface" where
  "set_layer l s =
     (if closed s then s
      else if l > LAYER_OVERLAY then send_layer (Layer_error INVALID_LAYER) s
      else s\<lparr>pending := (pending s)\<lparr>layer := l\<rparr>\<rparr>)"

section \<open>Commits\<close>

definition initial_state :: "int \<Rightarrow> layer_surface_state" where
  "initial_state l = \<lparr>layer = l, anchor = 0, exclusive_zone = 0, exclusive_edge = 0,
     keyboard_interactivity = KEYBOARD_NONE,
     margin = \<lparr>margin_top = 0, margin_right = 0, margin_bottom = 0, margin_left = 0\<rparr>,
     desired_width = 0, desired_height = 0\<rparr>"

definition update_own_screen :: "nat \<Rightarrow> layer_shell \<Rightarrow> layer_shell" where
  "update_own_screen i st =
     (case on_screen (surface st i) of Some scr \<Rightarrow> screen_update scr st | None \<Rightarrow> st)"

definition reset_after_unmap :: "focus_env \<Rightarrow> nat \<Rightarrow> layer_shell \<Rightarrow> layer_shell" where
  "reset_after_unmap env i st =
     (let st = update_surface i (\<lambda>s.
            restack_layer ((clear_configures (s\<lparr>mapped := False, ls_visible := False\<rparr>))
              \<lparr>configured := False, current := initial_state (initial_layer s),
               pending := initial_state (initial_layer s)\<rparr>)) st;
          st = update_keyboard_focus env st
      in update_own_screen i st)"

definition handle_surface_commit ::
  "focus_env \<Rightarrow> bool \<Rightarrow> int \<Rightarrow> nat \<Rightarrow> layer_shell \<Rightarrow> layer_shell" where
  "handle_surface_commit env alloc ser i st =
     (let s = surface st i; newly_mapped = (\<not> mapped s)
      in if closed s then st
         else case validate_state (ls_version s) (pending s) of
           Some e \<Rightarrow> update_surface i (send_layer (Layer_error e)) st
         | None \<Rightarrow>
             if \<not> ls_buffer s \<and> mapped s then reset_after_unmap env i st
             else if ls_buffer s \<and> \<not> configured s
             then update_surface i (send_layer (Layer_error INVALID_SURFACE_STATE)) st
             else
               let changed = (\<not> state_equal (current s) (pending s));
                   st = (if changed
                         then update_surface i (\<lambda>s. restack_layer (s\<lparr>current := pending s\<rparr>)) st
                         else st)
               in if \<not> ls_buffer s
                  then (if changed \<or> serials s = [] then send_configure i alloc ser st else st)
                  else
                    let st = (if \<not> mapped s
                              then update_surface i (\<lambda>s. s\<lparr>mapped := True, ls_visible := True\<rparr>) st
                              else st);
                        st = (if changed \<or> newly_mapped then update_own_screen i st else st);
                        st = (if changed \<or> newly_mapped then update_keyboard_focus env st else st)
                    in if changed then send_configure i alloc ser st else st)"

text \<open>The view's \<open>resize\<close> handler.\<close>

definition handle_resize :: "nat \<Rightarrow> layer_shell \<Rightarrow> layer_shell" where
  "handle_resize i st = (if mapped (surface st i) then update_own_screen i st else st)"

section \<open>Life of a surface\<close>

definition unlink_surface :: "nat \<Rightarrow> layer_shell \<Rightarrow> layer_shell" where
  "unlink_surface i st = st\<lparr>layer_screens :=
     map (\<lambda>sc. sc\<lparr>surfaces := remove1 i (surfaces sc)\<rparr>) (layer_screens st)\<rparr>"

definition close_layer_surface :: "nat \<Rightarrow> layer_shell \<Rightarrow> layer_shell" where
  "close_layer_surface i st =
     unlink_surface i (update_surface i (\<lambda>s. send_layer Layer_closed
       ((clear_configures s)\<lparr>configured := False, closed := True, on_screen := None\<rparr>)) st)"

definition handle_screen_destroy :: "focus_env \<Rightarrow> nat \<Rightarrow> layer_shell \<Rightarrow> layer_shell" where
  "handle_screen_destroy env scr st =
     (case find (\<lambda>sc. lsc_screen sc = scr) (layer_screens st) of
        None \<Rightarrow> st
      | Some sc \<Rightarrow>
          let st = fold (\<lambda>i. update_surface i (\<lambda>s. s\<lparr>mapped := False, ls_visible := False\<rparr>))
                     (surfaces sc) st;
              st = update_keyboard_focus env st;
              st = fold close_layer_surface (surfaces sc) st
          in st\<lparr>layer_screens := filter (\<lambda>sc. lsc_screen sc \<noteq> scr) (layer_screens st)\<rparr>)"

definition get_layer_screen ::
  "nat \<Rightarrow> swc_rectangle \<Rightarrow> box list \<Rightarrow> layer_shell \<Rightarrow> layer_shell" where
  "get_layer_screen scr geom boxes st =
     (if find (\<lambda>sc. lsc_screen sc = scr) (layer_screens st) \<noteq> None then st
      else st\<lparr>layer_screens := layer_screens st @
        [\<lparr>lsc_screen = scr, lsc_geometry = geom, lsc_usable = geom, other_boxes = boxes,
          surfaces = []\<rparr>]\<rparr>)"

definition release_layer_screen_if_empty :: "nat \<Rightarrow> layer_shell \<Rightarrow> layer_shell" where
  "release_layer_screen_if_empty scr st =
     (case find (\<lambda>sc. lsc_screen sc = scr) (layer_screens st) of
        None \<Rightarrow> st
      | Some sc \<Rightarrow>
          if surfaces sc \<noteq> [] then st
          else st\<lparr>layer_screens := filter (\<lambda>sc. lsc_screen sc \<noteq> scr) (layer_screens st)\<rparr>)"

definition destroy_layer_surface :: "focus_env \<Rightarrow> nat \<Rightarrow> layer_shell \<Rightarrow> layer_shell" where
  "destroy_layer_surface env i st =
     (let scr = on_screen (surface st i);
          st = (if mapped (surface st i)
                then update_keyboard_focus env
                  (update_surface i (\<lambda>s. s\<lparr>mapped := False, ls_visible := False\<rparr>) st)
                else st);
          st = update_surface i clear_configures st;
          st = (if scr \<noteq> None then unlink_surface i st else st)
      in case scr of
           None \<Rightarrow> st
         | Some c \<Rightarrow>
             (case find (\<lambda>sc. lsc_screen sc = c) (layer_screens st) of
                None \<Rightarrow> st
              | Some sc \<Rightarrow> if surfaces sc = [] then release_layer_screen_if_empty c st
                          else screen_update c st))"

text \<open>\<open>layer_surface_new\<close>, once its allocations and the surface's role have succeeded.\<close>

definition layer_surface_new ::
  "nat \<Rightarrow> nat \<Rightarrow> nat \<Rightarrow> swc_rectangle \<Rightarrow> nat \<Rightarrow> swc_rectangle \<Rightarrow> box list \<Rightarrow> int \<Rightarrow> layer_shell \<Rightarrow>
     layer_shell" where
  "layer_surface_new i version v g scr geom boxes l st =
     (let st = get_layer_screen scr geom boxes st;
          s = restack_layer \<lparr>ls_version = version, ls_view = v, ls_geometry = g, ls_buffer = False,
            ls_visible = False, ls_always_top = False, ls_stack_layer = 2,
            on_screen = Some scr, serials = [], ls_count = 0, current = initial_state l,
            pending = initial_state l, initial_layer = l, configured = False, mapped = False,
            closed = False, ls_sent = []\<rparr>
      in (update_surface i (\<lambda>_. s) st)\<lparr>layer_screens :=
           map (\<lambda>sc. if lsc_screen sc = scr then sc\<lparr>surfaces := surfaces sc @ [i]\<rparr> else sc)
             (layer_screens st)\<rparr>)"

text \<open>
  \<open>default_screen\<close>: the screen under the pointer, given where it is when there is one, or the
  first.
\<close>

definition default_screen ::
  "(int \<times> int) option \<Rightarrow> (nat \<times> swc_rectangle) list \<Rightarrow> (nat \<times> swc_rectangle) option" where
  "default_screen pointer screens =
     (case (case pointer of None \<Rightarrow> None
            | Some (x, y) \<Rightarrow> find (\<lambda>(i, g). rectangle_contains_point g x y) screens) of
        Some s \<Rightarrow> Some s
      | None \<Rightarrow> (case screens of [] \<Rightarrow> None | s # _ \<Rightarrow> Some s))"

datatype layer_output = No_output | Output_gone | Output_on nat swc_rectangle

text \<open>
  \<open>get_layer_surface\<close>: \<open>role\<close> and \<open>has_buf\<close> tell whether the surface has a role and a buffer
  already, \<open>out\<close> is the output the client asks for.  The result is an error for the layer
  shell, no memory (\<open>Inl None\<close>), or the new state.
\<close>

definition get_layer_surface ::
  "bool \<Rightarrow> bool \<Rightarrow> layer_output \<Rightarrow> (int \<times> int) option \<Rightarrow> (nat \<times> swc_rectangle) list \<Rightarrow> bool \<Rightarrow>
     nat \<Rightarrow> nat \<Rightarrow> nat \<Rightarrow> swc_rectangle \<Rightarrow> box list \<Rightarrow> int \<Rightarrow> layer_shell \<Rightarrow>
     layer_error option + layer_shell" where
  "get_layer_surface role has_buf out pointer screens alloc i version v g boxes l st =
     (if l > LAYER_OVERLAY then Inl (Some INVALID_LAYER)
      else if role then Inl (Some LAYER_ROLE)
      else if has_buf then Inl (Some ALREADY_CONSTRUCTED)
      else
        case (case out of Output_on scr geom \<Rightarrow> Some (scr, geom)
              | _ \<Rightarrow> default_screen pointer screens) of
          None \<Rightarrow> Inl None
        | Some (scr, geom) \<Rightarrow>
            if \<not> alloc then Inl None
            else
              let st = layer_surface_new i version v g scr geom boxes l st
              in Inr (if out = Output_gone
                      then release_layer_screen_if_empty scr (close_layer_surface i st)
                      else st))"

section \<open>Steps\<close>

text \<open>
  What happens to the layer shell.  \<open>Commit\<close> is a commit that leaves the surface with or
  without a buffer; \<open>Focus_moved\<close> is any other change of the keyboard's focus, and
  \<open>Saved_gone\<close> the destruction of the view whose focus was saved.
\<close>

datatype layer_op =
    New nat nat nat swc_rectangle nat swc_rectangle "box list" int
  | Set_size nat int int | Set_anchor nat mask | Set_exclusive_zone nat int
  | Set_margin nat margin | Set_keyboard nat int | Set_edge nat mask | Set_layer nat int
  | Ack_configure nat int
  | Commit focus_env bool bool int nat
  | Resize nat int int
  | Screen_destroy focus_env nat
  | Destroy focus_env nat
  | Pointer_press focus_env "nat option"
  | Focus_moved "nat option" | Saved_gone

fun layer_step :: "layer_op \<Rightarrow> layer_shell \<Rightarrow> layer_shell" where
  "layer_step (New i version v g scr geom boxes l) st = layer_surface_new i version v g scr geom boxes l st"
| "layer_step (Set_size i w h) st = update_surface i (set_size w h) st"
| "layer_step (Set_anchor i a) st = update_surface i (set_anchor a) st"
| "layer_step (Set_exclusive_zone i z) st = update_surface i (set_exclusive_zone z) st"
| "layer_step (Set_margin i m) st = update_surface i (set_margin m) st"
| "layer_step (Set_keyboard i k) st = update_surface i (set_keyboard_interactivity k) st"
| "layer_step (Set_edge i e) st = update_surface i (set_exclusive_edge e) st"
| "layer_step (Set_layer i l) st = update_surface i (set_layer l) st"
| "layer_step (Ack_configure i ser) st = update_surface i (ack_configure ser) st"
| "layer_step (Commit env buf alloc ser i) st =
     handle_surface_commit env alloc ser i (update_surface i (\<lambda>s. s\<lparr>ls_buffer := buf\<rparr>) st)"
| "layer_step (Resize i w h) st =
     handle_resize i (update_surface i (\<lambda>s. s\<lparr>ls_geometry :=
       (ls_geometry s)\<lparr>rect_width := w, rect_height := h\<rparr>\<rparr>) st)"
| "layer_step (Screen_destroy env scr) st = handle_screen_destroy env scr st"
| "layer_step (Destroy env i) st = destroy_layer_surface env i st"
| "layer_step (Pointer_press env v) st = layer_shell_handle_pointer_press env v st"
| "layer_step (Focus_moved v) st = st\<lparr>kb_focus := v\<rparr>"
| "layer_step Saved_gone st = st\<lparr>saved_focus := None\<rparr>"

fun layer_run :: "layer_op list \<Rightarrow> layer_shell \<Rightarrow> layer_shell" where
  "layer_run [] st = st"
| "layer_run (s # ss) st = layer_run ss (layer_step s st)"

section \<open>The queue of configures\<close>

lemma send_layer_fields [simp]:
  "serials (send_layer e s) = serials s" "ls_count (send_layer e s) = ls_count s"
  "closed (send_layer e s) = closed s" "mapped (send_layer e s) = mapped s"
  "configured (send_layer e s) = configured s" "current (send_layer e s) = current s"
  "pending (send_layer e s) = pending s" "ls_visible (send_layer e s) = ls_visible s"
  "ls_version (send_layer e s) = ls_version s" "on_screen (send_layer e s) = on_screen s"
  "ls_stack_layer (send_layer e s) = ls_stack_layer s" "ls_buffer (send_layer e s) = ls_buffer s"
  "ls_geometry (send_layer e s) = ls_geometry s" "ls_view (send_layer e s) = ls_view s"
  by (simp_all add: send_layer_def)

interpretation lq: configure_queue "\<lambda>s. \<not> closed s" serials ls_count 1024
  "record_configure wh" ack_configure "\<lambda>ser s. ser \<in> set (serials s)" for wh
proof unfold_locales
  fix a q s
  assume live: "\<not> closed (q :: layer_surface)"
  show "\<not> closed (record_configure wh a s q)" "\<not> closed (ack_configure s q)"
    using live by (simp_all add: record_configure_def ack_configure_def Let_def)
  show "serials (record_configure wh a s q) =
      (if a \<and> ls_count q < 1024 then serials q @ [s] else serials q)"
    "ls_count (record_configure wh a s q) =
      (if a \<and> ls_count q < 1024 then ls_count q + 1 else ls_count q)"
    by (auto simp: record_configure_def LAYER_CONFIGURE_MAX_def)
  show "serials (ack_configure s q) = (if s \<in> set (serials q)
      then drop_through (\<lambda>x. x = s) (serials q) else serials q)"
    using live by (simp add: ack_configure_def Let_def)
  show "ls_count (ack_configure s q) = int (length (serials (ack_configure s q)))"
    if "ls_count q = int (length (serials q))" "ls_count q \<le> 1024"
    using live that length_drop_through_le [of "\<lambda>x. x = s" "serials q"]
    by (simp add: ack_configure_def Let_def u32_def)
qed simp_all

section \<open>The invariant of a surface\<close>

text \<open>The stack layer \<open>restack_layer\<close> puts a surface in.\<close>

definition stack_of_layer :: "int \<Rightarrow> nat" where
  "stack_of_layer l = (if l = LAYER_BACKGROUND then 0 else if l = LAYER_BOTTOM then 1
     else if l = LAYER_TOP then 3 else if l = LAYER_OVERLAY then 6 else 2)"

definition surface_ok :: "layer_surface \<Rightarrow> bool" where
  "surface_ok s \<longleftrightarrow>
     (mapped s \<longrightarrow> configured s \<and> validate_state (ls_version s) (current s) = None) \<and>
     (closed s \<longrightarrow> \<not> mapped s \<and> serials s = []) \<and>
     (ls_visible s \<longleftrightarrow> mapped s) \<and>
     ls_count s = int (length (serials s)) \<and> length (serials s) \<le> 1024 \<and>
     ls_stack_layer s = stack_of_layer (layer (current s))"

lemma restack_layer_eq:
  "restack_layer s = s\<lparr>ls_always_top := (layer (current s) = LAYER_TOP \<or> layer (current s) = LAYER_OVERLAY),
     ls_stack_layer := stack_of_layer (layer (current s))\<rparr>"
  by (simp add: restack_layer_def stack_of_layer_def Let_def layer_defs)

lemma surface_ok_restack:
  "surface_ok (restack_layer s) \<longleftrightarrow> surface_ok (s\<lparr>ls_stack_layer := stack_of_layer (layer (current s))\<rparr>)"
  by (simp add: restack_layer_eq surface_ok_def)

lemma surface_ok_simps [simp]:
  "surface_ok (send_layer e s) = surface_ok s"
  "surface_ok (set_pending f s) = surface_ok s"
  "surface_ok (s\<lparr>pending := p\<rparr>) = surface_ok s"
  "surface_ok (s\<lparr>ls_buffer := b\<rparr>) = surface_ok s"
  "surface_ok (s\<lparr>ls_geometry := g\<rparr>) = surface_ok s"
  "surface_ok (s\<lparr>on_screen := sc\<rparr>) = surface_ok s"
  "surface_ok (place s bx) = surface_ok s"
  by (simp_all add: surface_ok_def set_pending_def place_def)

lemma surface_ok_queue: "surface_ok s \<Longrightarrow> \<not> closed s \<Longrightarrow> lq.queue_ok s"
  by (simp add: surface_ok_def lq.queue_ok_def)

lemma surface_ok_record:
  "surface_ok s \<Longrightarrow> \<not> closed s \<Longrightarrow> surface_ok (record_configure wh a ser s)"
  using lq.push_ok [OF surface_ok_queue, of s wh a ser]
  by (auto simp: surface_ok_def lq.queue_ok_def record_configure_def)

lemma surface_ok_ack: "surface_ok s \<Longrightarrow> surface_ok (ack_configure ser s)"
proof (cases "closed s")
  case False
  assume s: "surface_ok s"
  have "lq.queue_ok (ack_configure ser s)"
    by (rule lq.ack_ok [OF surface_ok_queue [OF s False]])
  then show ?thesis
    using s False by (auto simp: surface_ok_def lq.queue_ok_def ack_configure_def Let_def)
qed (simp add: ack_configure_def)

text \<open>Arranging and restacking change where surfaces are, nothing else.\<close>

definition moved :: "(nat \<Rightarrow> layer_surface) \<Rightarrow> (nat \<Rightarrow> layer_surface) \<Rightarrow> bool" where
  "moved h h' \<longleftrightarrow> (\<forall>i. (h' i)\<lparr>ls_geometry := ls_geometry (h i)\<rparr> = h i)"

lemma moved_refl [simp]: "moved h h"
  by (simp add: moved_def)

lemma moved_trans:
  assumes "moved h h'" "moved h' h''"
  shows "moved h h''"
  unfolding moved_def
proof
  fix i
  have "(h'' i)\<lparr>ls_geometry := ls_geometry (h i)\<rparr> =
      (h'' i)\<lparr>ls_geometry := ls_geometry (h' i)\<rparr>\<lparr>ls_geometry := ls_geometry (h i)\<rparr>" by simp
  also have "\<dots> = (h' i)\<lparr>ls_geometry := ls_geometry (h i)\<rparr>"
    using assms(2) by (simp only: moved_def)
  also have "\<dots> = h i" using assms(1) by (simp only: moved_def)
  finally show "(h'' i)\<lparr>ls_geometry := ls_geometry (h i)\<rparr> = h i" .
qed

lemma moved_place: "moved h (h(i := place (h i) b))"
  by (simp add: moved_def place_def)

lemma reserve_layer_moved: "moved h (fst (reserve_layer l is (h, b)))"
proof (induction "is" arbitrary: h b)
  case (Cons i "is")
  show ?case
    using Cons.IH [of h b] moved_trans [OF moved_place [of h i b] Cons.IH]
    by (simp del: fun_upd_apply)
qed simp

lemma place_layer_moved: "moved h (place_layer full av l is h)"
proof (induction "is" arbitrary: h)
  case (Cons i "is")
  show ?case
    using Cons.IH [of h] moved_trans [OF moved_place Cons.IH]
    by (simp del: fun_upd_apply)
qed simp

lemma fold_reserve_moved: "moved h (fst (fold (\<lambda>l. reserve_layer l is) ls (h, b)))"
proof (induction ls arbitrary: h b)
  case (Cons l ls)
  obtain h' b' where r: "reserve_layer l is (h, b) = (h', b')" by fastforce
  show ?case
    using moved_trans [OF _ Cons.IH, of h h' b'] reserve_layer_moved [of h l "is" b] r by simp
qed simp

lemma fold_place_moved: "moved h (fold (\<lambda>l. place_layer full av l is) ls h)"
proof (induction ls arbitrary: h)
  case (Cons l ls)
  show ?case using moved_trans [OF place_layer_moved Cons.IH] by simp
qed simp

lemma arrange_moved: "moved h (fst (arrange_layer_screen is g h))"
  using moved_trans [OF fold_reserve_moved fold_place_moved]
  by (simp add: arrange_layer_screen_def Let_def case_prod_unfold)

lemma update_usable_moved: "moved h (snd (update_usable scr scs h))"
  using arrange_moved by (induction scs) (simp_all add: Let_def case_prod_unfold)

lemma screen_update_moved: "moved (surface st) (surface (screen_update scr st))"
  using update_usable_moved by (simp add: screen_update_def case_prod_unfold Let_def)

lemma moved_ok:
  assumes "moved h h'" "surface_ok (h i)"
  shows "surface_ok (h' i)"
proof -
  have "surface_ok ((h' i)\<lparr>ls_geometry := ls_geometry (h i)\<rparr>)"
    using assms by (simp only: moved_def)
  then show ?thesis by simp
qed

lemma moved_fields:
  assumes "moved h h'"
  shows "mapped (h' i) = mapped (h i)" "current (h' i) = current (h i)"
    "ls_view (h' i) = ls_view (h i)" "closed (h' i) = closed (h i)"
    "configured (h' i) = configured (h i)" "on_screen (h' i) = on_screen (h i)"
proof -
  have e: "(h' i)\<lparr>ls_geometry := ls_geometry (h i)\<rparr> = h i" using assms by (simp only: moved_def)
  show "mapped (h' i) = mapped (h i)" "current (h' i) = current (h i)"
    "ls_view (h' i) = ls_view (h i)" "closed (h' i) = closed (h i)"
    "configured (h' i) = configured (h i)" "on_screen (h' i) = on_screen (h i)"
    by (subst e [symmetric], simp)+
qed

section \<open>The invariant of the shell\<close>

definition surfaces_ok :: "layer_shell \<Rightarrow> bool" where
  "surfaces_ok st \<longleftrightarrow> (\<forall>i. surface_ok (surface st i))"

lemma surfaces_ok_update:
  "surfaces_ok st \<Longrightarrow> (\<And>s. surface_ok s \<Longrightarrow> surface_ok (f s)) \<Longrightarrow> surfaces_ok (update_surface i f st)"
  by (simp add: surfaces_ok_def update_surface_def)

lemma surfaces_ok_update_at:
  "surfaces_ok st \<Longrightarrow> surface_ok (f (surface st i)) \<Longrightarrow> surfaces_ok (update_surface i f st)"
  by (simp add: surfaces_ok_def update_surface_def)

lemma surfaces_ok_same: "surface st' = surface st \<Longrightarrow> surfaces_ok st' = surfaces_ok st"
  by (simp add: surfaces_ok_def)

lemma surfaces_ok_screen: "surfaces_ok st \<Longrightarrow> surfaces_ok (screen_update scr st)"
  using moved_ok [OF screen_update_moved] by (simp add: surfaces_ok_def)

lemma surfaces_ok_own: "surfaces_ok st \<Longrightarrow> surfaces_ok (update_own_screen i st)"
  by (simp add: update_own_screen_def surfaces_ok_screen split: option.splits)

lemma focus_surface [simp]:
  "surface (update_keyboard_focus env st) = surface st"
  "surface (layer_shell_handle_pointer_press env v st) = surface st"
  "surface (keyboard_set_focus env v st) = surface st"
  by (auto simp: update_keyboard_focus_def layer_shell_handle_pointer_press_def
      keyboard_set_focus_def save_keyboard_focus_def Let_def split: option.splits)

lemma surfaces_ok_focus [simp]:
  "surfaces_ok (update_keyboard_focus env st) = surfaces_ok st"
  "surfaces_ok (layer_shell_handle_pointer_press env v st) = surfaces_ok st"
  "surfaces_ok (st\<lparr>kb_focus := v\<rparr>) = surfaces_ok st"
  "surfaces_ok (st\<lparr>saved_focus := v\<rparr>) = surfaces_ok st"
  "surfaces_ok (st\<lparr>layer_screens := scs\<rparr>) = surfaces_ok st"
  "surfaces_ok (unlink_surface i st) = surfaces_ok st"
  by (rule surfaces_ok_same; simp add: unlink_surface_def)+

lemma surfaces_ok_send: "surfaces_ok st \<Longrightarrow> surfaces_ok (send_configure i a ser st)"
proof -
  assume st: "surfaces_ok st"
  have r: "surfaces_ok (update_surface i (record_configure wh a ser) st)" if "\<not> closed (surface st i)" for wh
    using st that by (intro surfaces_ok_update_at surface_ok_record) (simp_all add: surfaces_ok_def)
  show ?thesis
    using st r by (simp add: send_configure_def Let_def split: option.splits)
qed

lemma surfaces_ok_reset: "surfaces_ok st \<Longrightarrow> surfaces_ok (reset_after_unmap env i st)"
proof -
  assume st: "surfaces_ok st"
  have "surface_ok (restack_layer ((clear_configures (s\<lparr>mapped := False, ls_visible := False\<rparr>))
      \<lparr>configured := False, current := initial_state l, pending := initial_state l\<rparr>))"
    if "surface_ok s" for s l
    using that by (simp add: restack_layer_eq surface_ok_def clear_configures_def)
  then show ?thesis
    using st unfolding reset_after_unmap_def Let_def
    by (intro surfaces_ok_own) (simp add: surfaces_ok_update)
qed

lemma surfaces_ok_commit:
  assumes st: "surfaces_ok st"
  shows "surfaces_ok (handle_surface_commit env a ser i st)"
proof -
  let ?s = "surface st i"
  have s: "surface_ok ?s" using st by (simp add: surfaces_ok_def)
  have err: "surfaces_ok (update_surface i (send_layer e) st)" for e
    using st by (simp add: surfaces_ok_update)
  define st1 where "st1 = (if \<not> state_equal (current ?s) (pending ?s)
      then update_surface i (\<lambda>s. restack_layer (s\<lparr>current := pending s\<rparr>)) st else st)"
  define st2 where "st2 = (if \<not> mapped ?s
      then update_surface i (\<lambda>s. s\<lparr>mapped := True, ls_visible := True\<rparr>) st1 else st1)"
  show ?thesis
  proof (cases "closed ?s \<or> validate_state (ls_version ?s) (pending ?s) \<noteq> None \<or>
      (\<not> ls_buffer ?s \<and> mapped ?s) \<or> (ls_buffer ?s \<and> \<not> configured ?s)")
    case True
    then show ?thesis
      using st err surfaces_ok_reset [OF st]
      by (auto simp: handle_surface_commit_def Let_def split: option.splits)
  next
    case False
    have s1: "surface_ok (surface st1 i)" "current (surface st1 i) = pending ?s"
      "ls_version (surface st1 i) = ls_version ?s" "closed (surface st1 i) = closed ?s"
      "configured (surface st1 i) = configured ?s" "mapped (surface st1 i) = mapped ?s"
      using s False state_equal_iff [of "current ?s" "pending ?s"]
      by (auto simp: st1_def update_surface_def restack_layer_eq surface_ok_def)
    have ok1: "surfaces_ok st1"
      using st s1(1) by (auto simp: st1_def surfaces_ok_def update_surface_def)
    have "ls_buffer ?s \<Longrightarrow> surfaces_ok st2"
      using ok1 s1 False unfolding st2_def
      by (auto intro!: surfaces_ok_update_at simp: surface_ok_def)
    moreover have "\<not> closed ?s" "validate_state (ls_version ?s) (pending ?s) = None"
      "\<not> (\<not> ls_buffer ?s \<and> mapped ?s)" "\<not> (ls_buffer ?s \<and> \<not> configured ?s)"
      using False by auto
    ultimately show ?thesis
      using ok1 unfolding handle_surface_commit_def Let_def st1_def [symmetric] st2_def [symmetric]
      by (simp add: surfaces_ok_send surfaces_ok_own surfaces_ok_reset [OF st])
  qed
qed

lemma surface_ok_unmap [simp]:
  "surface_ok s \<Longrightarrow> surface_ok (s\<lparr>mapped := False, ls_visible := False\<rparr>)"
  "surface_ok s \<Longrightarrow> surface_ok (clear_configures s)"
  by (auto simp: surface_ok_def clear_configures_def)

lemma surfaces_ok_fold_unmap:
  "surfaces_ok st \<Longrightarrow>
     surfaces_ok (fold (\<lambda>i. update_surface i (\<lambda>s. s\<lparr>mapped := False, ls_visible := False\<rparr>)) is st)"
  by (induction "is" arbitrary: st) (simp_all add: surfaces_ok_update)

text \<open>Closing is for unmapped surfaces; the loops that close unmap first.\<close>

definition unmapped_ok :: "nat set \<Rightarrow> layer_shell \<Rightarrow> bool" where
  "unmapped_ok I st \<longleftrightarrow> surfaces_ok st \<and> (\<forall>i \<in> I. \<not> mapped (surface st i))"

lemma mapped_fold_unmap:
  "mapped (surface (fold (\<lambda>i. update_surface i (\<lambda>s. s\<lparr>mapped := False, ls_visible := False\<rparr>)) is st) i)
     \<longleftrightarrow> mapped (surface st i) \<and> i \<notin> set is"
  by (induction "is" arbitrary: st) (simp_all add: update_surface_def)

lemma unmapped_fold_unmap:
  "surfaces_ok st \<Longrightarrow> unmapped_ok (set is)
     (fold (\<lambda>i. update_surface i (\<lambda>s. s\<lparr>mapped := False, ls_visible := False\<rparr>)) is st)"
  by (simp add: unmapped_ok_def surfaces_ok_fold_unmap mapped_fold_unmap)

lemma close_surface_ok:
  "unmapped_ok I st \<Longrightarrow> i \<in> I \<Longrightarrow> unmapped_ok I (close_layer_surface i st)"
  by (simp add: unmapped_ok_def close_layer_surface_def surfaces_ok_def update_surface_def
      unlink_surface_def surface_ok_def clear_configures_def)

lemma fold_close_ok:
  "unmapped_ok I st \<Longrightarrow> set is \<subseteq> I \<Longrightarrow> unmapped_ok I (fold close_layer_surface is st)"
  by (induction "is" arbitrary: st) (simp_all add: close_surface_ok)

lemma surfaces_ok_screen_destroy:
  assumes "surfaces_ok st"
  shows "surfaces_ok (handle_screen_destroy env scr st)"
proof (cases "find (\<lambda>sc. lsc_screen sc = scr) (layer_screens st)")
  case (Some sc)
  define u where "u = update_keyboard_focus env (fold (\<lambda>i. update_surface i
      (\<lambda>s. s\<lparr>mapped := False, ls_visible := False\<rparr>)) (surfaces sc) st)"
  have "unmapped_ok (set (surfaces sc)) u"
    using unmapped_fold_unmap [OF assms, of "surfaces sc"] by (simp add: u_def unmapped_ok_def)
  then have "surfaces_ok (fold close_layer_surface (surfaces sc) u)"
    using fold_close_ok unmapped_ok_def by blast
  then show ?thesis using Some by (simp add: handle_screen_destroy_def Let_def u_def)
qed (simp add: handle_screen_destroy_def assms)

lemma surfaces_ok_release [simp]:
  "surfaces_ok (release_layer_screen_if_empty scr st) = surfaces_ok st"
  by (rule surfaces_ok_same) (simp add: release_layer_screen_if_empty_def split: option.splits)

lemma surfaces_ok_destroy:
  assumes "surfaces_ok st"
  shows "surfaces_ok (destroy_layer_surface env i st)"
proof -
  have "surfaces_ok (update_surface i f st)" if "\<And>s. surface_ok s \<Longrightarrow> surface_ok (f s)" for f
    using assms that by (rule surfaces_ok_update)
  then show ?thesis
    using assms
    by (simp add: destroy_layer_surface_def Let_def surfaces_ok_update surfaces_ok_screen
        split: option.splits)
qed

lemma surfaces_ok_new:
  "surfaces_ok st \<Longrightarrow> surfaces_ok (layer_surface_new i version v g scr geom boxes l st)"
  by (simp add: layer_surface_new_def Let_def surfaces_ok_def update_surface_def
      get_layer_screen_def surface_ok_def restack_layer_eq initial_state_def)

lemma surfaces_ok_step: "surfaces_ok st \<Longrightarrow> surfaces_ok (layer_step s st)"
proof (cases s)
  case (Set_layer i l)
  then show "surfaces_ok st \<Longrightarrow> ?thesis"
    by (simp add: surfaces_ok_update set_layer_def)
next
  case (Ack_configure i ser)
  then show "surfaces_ok st \<Longrightarrow> ?thesis" by (simp add: surfaces_ok_update surface_ok_ack)
next
  case (Resize i w h)
  then show "surfaces_ok st \<Longrightarrow> ?thesis"
    by (simp add: handle_resize_def surfaces_ok_update surfaces_ok_own)
qed (simp_all add: surfaces_ok_update surfaces_ok_new surfaces_ok_commit surfaces_ok_destroy
  surfaces_ok_screen_destroy set_size_def set_anchor_def set_exclusive_zone_def set_margin_def
  set_keyboard_interactivity_def set_exclusive_edge_def)

lemma surfaces_ok_run: "surfaces_ok st \<Longrightarrow> surfaces_ok (layer_run ss st)"
  by (induction ss arbitrary: st) (simp_all add: surfaces_ok_step)

text \<open>
  The shell as \<open>layer_shell_create\<close> leaves it: no screens and nothing saved.  A number no
  surface has yet stands for a closed one.
\<close>

definition layer_shell_create :: "(nat \<Rightarrow> nat list) \<Rightarrow> layer_shell" where
  "layer_shell_create chain = \<lparr>surface = (\<lambda>_. \<lparr>ls_version = 0, ls_view = 0,
     ls_geometry = mk_rect 0 0 0 0, ls_buffer = False, ls_visible = False, ls_always_top = False,
     ls_stack_layer = 0, on_screen = None, serials = [], ls_count = 0,
     current = initial_state LAYER_BACKGROUND, pending = initial_state LAYER_BACKGROUND,
     initial_layer = LAYER_BACKGROUND, configured = False, mapped = False, closed = True,
     ls_sent = []\<rparr>), layer_screens = [], kb_focus = None, saved_focus = None,
     view_chain = chain\<rparr>"

lemma layer_shell_create_ok: "surfaces_ok (layer_shell_create chain)"
  by (simp add: layer_shell_create_def surfaces_ok_def surface_ok_def initial_state_def
      stack_of_layer_def)

section \<open>Panels and the space they reserve\<close>

definition box_s32 :: "box \<Rightarrow> bool" where
  "box_s32 b \<longleftrightarrow> box_ok b \<and> in_s32 (box_x1 b) \<and> in_s32 (box_y1 b) \<and> in_s32 (box_x2 b) \<and>
     in_s32 (box_y2 b)"

lemma box_s32_inside: "box_s32 b \<Longrightarrow> box_ok a \<Longrightarrow> box_inside a b \<Longrightarrow> box_s32 a"
  unfolding box_s32_def box_ok_def box_inside_def in_s32_def by linarith

lemma surface_zone_box: "box_s32 b \<Longrightarrow> box_s32 (surface_zone s b) \<and> box_inside (surface_zone s b) b"
proof -
  assume b: "box_s32 b"
  then have "box_ok b" by (simp add: box_s32_def)
  then show ?thesis
    using box_s32_inside [OF b] shrink_box_ok shrink_box_inside by (simp add: surface_zone_def)
qed

text \<open>A mapped panel that keeps to its zone, with margins that do not reach out of the screen.\<close>

definition panel :: "layer_surface \<Rightarrow> bool" where
  "panel s \<longleftrightarrow> mapped s \<and> has_effective_exclusive_zone (current s) \<and>
     keeps_to_zone (current s) (ls_geometry s) \<and>
     0 \<le> margin_top (margin (current s)) \<and> 0 \<le> margin_left (margin (current s)) \<and>
     0 \<le> rect_width (ls_geometry s) \<and> 0 \<le> rect_height (ls_geometry s)"

lemma place_panel_clear:
  "panel s \<Longrightarrow> box_s32 b \<Longrightarrow> clear_of (ls_geometry (place s b)) (surface_zone s b)"
  unfolding place_def surface_zone_def
  using placed_clear [of "current s" "ls_geometry s" b]
  by (simp add: panel_def box_s32_def has_effective_exclusive_zone_def)

lemma reserve_layer_box:
  "box_s32 b \<Longrightarrow> box_s32 (snd (reserve_layer l is (h, b))) \<and>
     box_inside (snd (reserve_layer l is (h, b))) b"
proof (induction "is" arbitrary: h b)
  case (Cons i "is")
  then show ?case
    using surface_zone_box [OF Cons.prems, of "h i"] box_inside_trans by (simp del: fun_upd_apply) blast
qed simp

lemma reserve_layer_other:
  "i \<notin> set is \<or> layer (current (h i)) \<noteq> l \<Longrightarrow> fst (reserve_layer l is (h, b)) i = h i"
proof (induction "is" arbitrary: h b)
  case (Cons j "is")
  show ?case
  proof (cases "i = j")
    case True
    then show ?thesis using Cons.IH [of h b] Cons.prems by simp
  next
    case False
    then have "(h(j := place (h j) b)) i = h i" by simp
    then show ?thesis
      using Cons.IH [of h b] Cons.IH [of "h(j := place (h j) b)" "surface_zone (h j) b"]
        Cons.prems False by (auto simp del: fun_upd_apply)
  qed
qed simp

lemma reserve_layer_clear:
  assumes "panel (h i)" "layer (current (h i)) = l" "i \<in> set is" "distinct is" "box_s32 b"
  shows "clear_of (ls_geometry (fst (reserve_layer l is (h, b)) i)) (snd (reserve_layer l is (h, b)))"
  using assms
proof (induction "is" arbitrary: h b)
  case (Cons j "is")
  show ?case
  proof (cases "j = i")
    case True
    define h' where "h' = h(i := place (h i) b)"
    define b' where "b' = surface_zone (h i) b"
    have r: "reserve_layer l (j # is) (h, b) = reserve_layer l is (h', b')"
      using Cons.prems(1,2) True by (simp add: panel_def h'_def b'_def)
    have b': "box_s32 b'" using surface_zone_box [OF Cons.prems(5)] by (simp add: b'_def)
    have "fst (reserve_layer l is (h', b')) i = place (h i) b"
      using reserve_layer_other [of i "is" h' l b'] Cons.prems(4) True by (simp add: h'_def)
    then show ?thesis
      unfolding r using place_panel_clear [OF Cons.prems(1,5)] reserve_layer_box [OF b', of l "is" h']
        clear_of_inside by (simp add: b'_def)
  next
    case False
    have "reserve_layer l (j # is) (h, b) = reserve_layer l is (h, b) \<or>
        reserve_layer l (j # is) (h, b) =
          reserve_layer l is (h(j := place (h j) b), surface_zone (h j) b)"
      by simp
    then show ?thesis
    proof
      assume "reserve_layer l (j # is) (h, b) = reserve_layer l is (h, b)"
      then show ?thesis using Cons.IH [of h b] Cons.prems False by auto
    next
      assume "reserve_layer l (j # is) (h, b) =
          reserve_layer l is (h(j := place (h j) b), surface_zone (h j) b)"
      moreover have "(h(j := place (h j) b)) i = h i" using False by simp
      ultimately show ?thesis
        using Cons.IH [of "h(j := place (h j) b)" "surface_zone (h j) b"] Cons.prems False
          surface_zone_box [OF Cons.prems(5), of "h j"]
        by (simp del: reserve_layer.simps fun_upd_apply)
    qed
  qed
qed simp

lemma fold_reserve_rest:
  assumes "layer (current (h i)) \<notin> set ls" "box_s32 b"
    and "(h', b') = fold (\<lambda>l. reserve_layer l is) ls (h, b)"
  shows "h' i = h i \<and> box_inside b' b"
  using assms
proof (induction ls arbitrary: h b)
  case (Cons l ls)
  obtain h2 b2 where r: "reserve_layer l is (h, b) = (h2, b2)" by fastforce
  have "h2 i = h i" using reserve_layer_other [of i "is" h l b] Cons.prems(1) r by simp
  moreover have "box_s32 b2 \<and> box_inside b2 b"
    using reserve_layer_box [OF Cons.prems(2), of l "is" h] r by simp
  ultimately show ?case
    using Cons.IH [of h2 b2] Cons.prems r box_inside_trans by auto
qed simp

lemma fold_reserve_clear:
  assumes "panel (h i)" "layer (current (h i)) \<in> set ls" "distinct ls" "i \<in> set is"
    and "distinct is" "box_s32 b" and "(h', b') = fold (\<lambda>l. reserve_layer l is) ls (h, b)"
  shows "clear_of (ls_geometry (h' i)) b'"
  using assms
proof (induction ls arbitrary: h b)
  case (Cons l ls)
  obtain h1 b1 where r: "reserve_layer l is (h, b) = (h1, b1)" by fastforce
  have b1: "box_s32 b1" using reserve_layer_box [OF Cons.prems(6), of l "is" h] r by simp
  show ?case
  proof (cases "layer (current (h i)) = l")
    case True
    have c: "clear_of (ls_geometry (h1 i)) b1"
      using reserve_layer_clear [of h i, OF Cons.prems(1) True Cons.prems(4-6)] r by simp
    have l: "layer (current (h1 i)) \<notin> set ls"
      using True Cons.prems(3) reserve_layer_moved [of h l "is" b] r moved_fields(2) by fastforce
    from fold_reserve_rest [where h = h1 and b = b1, OF l b1] show ?thesis
      using c clear_of_inside Cons.prems(7) r by auto
  next
    case False
    have "h1 i = h i" using reserve_layer_other [of i "is" h l b] False r by simp
    then show ?thesis
      using Cons.IH [of h1 b1] Cons.prems False b1 r by auto
  qed
qed simp

lemma fold_reserve_box:
  "box_s32 b \<Longrightarrow> box_inside (snd (fold (\<lambda>l. reserve_layer l is) ls (h, b))) b"
proof (induction ls arbitrary: h b)
  case (Cons l ls)
  obtain h1 b1 where r: "reserve_layer l is (h, b) = (h1, b1)" by fastforce
  have "box_s32 b1 \<and> box_inside b1 b"
    using reserve_layer_box [OF Cons.prems, of l "is" h] r by simp
  then show ?case using Cons.IH [of b1 h1] r box_inside_trans by auto
qed simp

lemma place_layer_zone:
  "has_effective_exclusive_zone (current (h i)) \<Longrightarrow> place_layer full av l is h i = h i"
proof (induction "is" arbitrary: h)
  case (Cons j "is")
  show ?case
  proof (cases "has_effective_exclusive_zone (current (h j))")
    case False
    then have "(h(j := s)) i = h i" for s using Cons.prems by auto
    then show ?thesis
      using Cons.IH [of h] Cons.IH [of "h(j := s)" for s] Cons.prems False
      by (simp del: fun_upd_apply)
  qed (use Cons in simp)
qed simp

lemma fold_place_zone:
  "has_effective_exclusive_zone (current (h i)) \<Longrightarrow>
     fold (\<lambda>l. place_layer full av l is) ls h i = h i"
  by (induction ls arbitrary: h) (simp_all add: place_layer_zone)

lemma full_box_s32:
  assumes "in_s32 (rect_x g)" "in_s32 (rect_y g)" "0 \<le> rect_width g" "0 \<le> rect_height g"
  shows "box_s32 (full_box g)"
  using assms by (auto simp: box_s32_def full_box_def box_ok_def in_s32_def)

section \<open>Properties\<close>


text \<open>C11: When a screen is arranged, every mapped panel that keeps to its exclusive zone ends up clear
  of the area left to the others: what a panel reserves is where it is, whichever edges, layers
  and order the panels have.  And what is left lies within the screen.\<close>

theorem panels_clear_of_available:
  assumes "in_s32 (rect_x g)" "in_s32 (rect_y g)" "0 \<le> rect_width g" "0 \<le> rect_height g"
    and "distinct is" and "i \<in> set is" and "panel (h i)"
    and "layer (current (h i)) \<in> set layer_order"
    and "arrange_layer_screen is g h = (h', available)"
  shows "clear_of (ls_geometry (h' i)) available \<and> box_inside available (full_box g)"
proof -
  obtain h1 where r: "fold (\<lambda>l. reserve_layer l is) layer_order (h, full_box g) = (h1, available)"
    and h': "h' = fold (\<lambda>l. place_layer (full_box g) available l is) layer_order h1"
    using assms(9) by (auto simp: arrange_layer_screen_def Let_def split: prod.splits)
  note b = full_box_s32 [OF assms(1-4)]
  have "distinct layer_order" by (simp add: layer_order_def layer_defs)
  with fold_reserve_clear [OF assms(7,8) this assms(6,5) b r [symmetric]]
  have c: "clear_of (ls_geometry (h1 i)) available" by simp
  have "current (h1 i) = current (h i)"
    using moved_fields(2) [OF fold_reserve_moved [of h "is" layer_order "full_box g"]] r by simp
  then have "h' i = h1 i"
    using assms(7) by (simp add: h' fold_place_zone panel_def)
  then show ?thesis
    using c fold_reserve_box [OF b, of "is" layer_order h] r by simp
qed

text \<open>A bar along the top of a screen, for the witness.\<close>

definition top_bar :: layer_surface where
  "top_bar = \<lparr>ls_version = 4, ls_view = 7, ls_geometry = mk_rect 0 0 1920 30, ls_buffer = True,
     ls_visible = True, ls_always_top = True, ls_stack_layer = 3, on_screen = Some 0,
     serials = [], ls_count = 0,
     current = (initial_state LAYER_TOP)\<lparr>anchor := 13, exclusive_zone := 30, desired_height := 30\<rparr>,
     pending = (initial_state LAYER_TOP)\<lparr>anchor := 13, exclusive_zone := 30, desired_height := 30\<rparr>,
     initial_layer = LAYER_TOP, configured = True, mapped = True, closed = False, ls_sent = []\<rparr>"

theorem panels_clear_of_available_witness:
  "let r = arrange_layer_screen [0] (mk_rect 0 0 1920 1080) (\<lambda>_. top_bar)
   in clear_of (ls_geometry (fst r 0)) (snd r) \<and>
     box_inside (snd r) (full_box (mk_rect 0 0 1920 1080))"
  unfolding Let_def
  by (rule panels_clear_of_available [OF _ _ _ _ _ _ _ _ prod.collapse [symmetric]]; code_simp)

text \<open>The steps that happen while the session is locked.\<close>

fun while_locked :: "layer_op \<Rightarrow> bool" where
  "while_locked (Commit env b a n i) = lock_active env"
| "while_locked (Destroy env i) = lock_active env"
| "while_locked (Screen_destroy env c) = lock_active env"
| "while_locked (Pointer_press env v) = lock_active env"
| "while_locked (Focus_moved v) = False"
| "while_locked _ = True"

lemma kb_focus_simps [simp]:
  "kb_focus (update_surface i f st) = kb_focus st"
  "kb_focus (screen_update c st) = kb_focus st"
  "kb_focus (unlink_surface i st) = kb_focus st"
  "kb_focus (update_own_screen i st) = kb_focus st"
  "kb_focus (send_configure i a ser st) = kb_focus st"
  "kb_focus (close_layer_surface i st) = kb_focus st"
  "kb_focus (release_layer_screen_if_empty c st) = kb_focus st"
  "kb_focus (handle_resize i st) = kb_focus st"
  by (simp_all add: update_surface_def screen_update_def case_prod_unfold Let_def
      unlink_surface_def update_own_screen_def send_configure_def close_layer_surface_def
      release_layer_screen_if_empty_def handle_resize_def split: option.splits)

lemma kb_focus_fold [simp]:
  "kb_focus (fold (\<lambda>i. update_surface i f) is st) = kb_focus st"
  "kb_focus (fold close_layer_surface is st) = kb_focus st"
  by (induction "is" arbitrary: st) simp_all

lemma locked_update [simp]: "lock_active env \<Longrightarrow> update_keyboard_focus env st = st"
  by (simp add: update_keyboard_focus_def)

lemma locked_commit: "lock_active env \<Longrightarrow> kb_focus (handle_surface_commit env a n i st) = kb_focus st"
  by (simp add: handle_surface_commit_def reset_after_unmap_def Let_def split: option.splits)

lemma locked_step: "while_locked s \<Longrightarrow> kb_focus (layer_step s st) = kb_focus st"
  by (cases s) (simp_all add: locked_commit handle_screen_destroy_def destroy_layer_surface_def
      layer_shell_handle_pointer_press_def layer_surface_new_def get_layer_screen_def Let_def
      split: option.splits)

text \<open>While the session is locked no layer surface can move the keyboard's focus: whatever clients
  map, unmap, press or destroy, it stays with the locker.\<close>

theorem locked_focus_kept:
  assumes "\<forall>s \<in> set ops. while_locked s"
  shows "kb_focus (layer_run ops st) = kb_focus st"
  using assms by (induction ops arbitrary: st) (simp_all add: locked_step)

theorem locked_focus_kept_witness:
  "kb_focus (layer_run
      [New 1 4 7 (mk_rect 0 0 0 0) 0 (mk_rect 0 0 1920 1080) [] 3, Set_keyboard 1 1,
       Commit \<lparr>lock_active = True, set_focus = (\<lambda>_ v. v), focus_owner = Some\<rparr> False True 5 1]
      (layer_shell_create (\<lambda>v. [v]))) = kb_focus (layer_shell_create (\<lambda>v. [v]))"
  by (rule locked_focus_kept) simp

lemma exclusive_None:
  "(\<forall>i. \<not> wants_keyboard st LAYER_OVERLAY i \<and> \<not> wants_keyboard st LAYER_TOP i) \<Longrightarrow>
     exclusive_keyboard_surface st = None"
proof -
  assume none: "\<forall>i. \<not> wants_keyboard st LAYER_OVERLAY i \<and> \<not> wants_keyboard st LAYER_TOP i"
  have "find (wants_keyboard st LAYER_OVERLAY) xs = None" "find (wants_keyboard st LAYER_TOP) xs = None"
    for xs using none by (simp_all add: find_None_iff)
  then show ?thesis by (simp add: exclusive_keyboard_surface_def)
qed

lemma layer_surface_cong:
  assumes "\<And>i. ls_view (surface st' i) = ls_view (surface st i)"
    and "layer_screens st' = layer_screens st" "view_chain st' = view_chain st"
  shows "layer_surface_from_view st' v = layer_surface_from_view st v"
proof -
  have f: "first_surface st' = first_surface st"
    by (rule ext) (simp add: first_surface_def all_surfaces_def assms(1,2))
  have "surface_on_chain st' vs = surface_on_chain st vs" for vs
    by (induction vs) (simp_all add: f split: option.splits)
  then show ?thesis by (simp add: layer_surface_from_view_def assms(3) split: option.splits)
qed


text \<open>A launcher that grabs the keyboard over a window whose view is 3, for the witness.\<close>

definition launcher_shell :: layer_shell where
  "launcher_shell = (layer_shell_create (\<lambda>v. [v]))
     \<lparr>surface := (\<lambda>_. top_bar\<lparr>mapped := False\<rparr>)
        (1 := top_bar\<lparr>current := (current top_bar)\<lparr>keyboard_interactivity := 1\<rparr>\<rparr>),
      layer_screens := [\<lparr>lsc_screen = 0, lsc_geometry = mk_rect 0 0 1920 1080,
        lsc_usable = mk_rect 0 0 1920 1080, other_boxes = [], surfaces = [1]\<rparr>],
      kb_focus := Some 3\<rparr>"



end
