(* ===== verification/Popup.thy ===== *)
theory Popup
  imports Positioner Configure_Queue
begin

text \<open>
  Popups (\<open>libswc/xdg_shell.c\<close>): their configure events, and the seat's popup grab, a chain of
  nested menus that holds the keyboard and gives it back when it ends.

  Views, popups and clients are numbers.  The grab reads and writes the keyboard's focus, so
  \<open>keyboard_set_focus\<close> of \<open>libswc/keyboard.c\<close> and \<open>swc_window_focus\<close> of \<open>libswc/window.c\<close> are
  here too.  The listeners on a view's destroy signal are kept in order, since handlers of the
  grab add and remove them while the signal is being emitted.
\<close>

section \<open>State\<close>

datatype popup_error = NOT_THE_TOPMOST_POPUP | INVALID_GRAB

datatype popup_event =
    Popup_done nat
  | Popup_error nat popup_error
  | Popup_configure nat swc_rectangle
  | Popup_repositioned nat int
  | Surface_configured nat int
  | Popup_no_memory nat
  | Window_focused "nat option"

datatype destroy_listener = Focus_listener | Parent_listener nat | Restore_listener | Pending_listener

record view_ref =
  ref_view :: "nat option"
  ref_set :: bool

record xdg_popup =
  p_view :: nat
  p_parent :: "nat option"
  p_position :: "int \<times> int"
  p_buffer :: bool
  p_visible :: bool
  p_positioner :: xdg_positioner
  p_serials :: "int list"
  p_count :: int
  p_configured :: bool
  grabbed :: bool
  dismissed :: bool

text \<open>
  \<open>popup_role v\<close> is the popup whose role the surface of view \<open>v\<close> has, \<open>is_window v\<close> tells
  whether \<open>v\<close> is a window's view and \<open>lock_layer v\<close> whether it is in the lock layer.
\<close>

record popup_grab =
  popup :: "nat \<Rightarrow> xdg_popup"
  popups :: "nat list"
  grab_client :: "nat option"
  restore :: view_ref
  pending :: view_ref
  watching :: bool
  focus :: "nat option"
  listeners :: "nat \<Rightarrow> destroy_listener list"
  popup_role :: "nat \<Rightarrow> nat option"
  view_client :: "nat \<Rightarrow> nat"
  is_window :: "nat \<Rightarrow> bool"
  lock_layer :: "nat \<Rightarrow> bool"
  input_mode :: bool
  session_locked :: bool
  g_sent :: "popup_event list"

definition emit :: "popup_event \<Rightarrow> popup_grab \<Rightarrow> popup_grab" where
  "emit e g = g\<lparr>g_sent := g_sent g @ [e]\<rparr>"

definition update_popup :: "nat \<Rightarrow> (xdg_popup \<Rightarrow> xdg_popup) \<Rightarrow> popup_grab \<Rightarrow> popup_grab" where
  "update_popup p f g = g\<lparr>popup := (popup g)(p := f (popup g p))\<rparr>"

definition add_listener :: "nat \<Rightarrow> destroy_listener \<Rightarrow> popup_grab \<Rightarrow> popup_grab" where
  "add_listener v l g = g\<lparr>listeners := (listeners g)(v := listeners g v @ [l])\<rparr>"

definition remove_listener :: "nat \<Rightarrow> destroy_listener \<Rightarrow> popup_grab \<Rightarrow> popup_grab" where
  "remove_listener v l g = g\<lparr>listeners := (listeners g)(v := remove1 l (listeners g v))\<rparr>"

section \<open>Configure events\<close>

text \<open>
  \<open>alloc\<close> and \<open>ser\<close>: whether \<open>calloc\<close> succeeds and the serial \<open>wl_display_next_serial\<close> returns.
  The first result says whether a configure was recorded.
\<close>

definition popup_record_configure :: "bool \<Rightarrow> int \<Rightarrow> xdg_popup \<Rightarrow> bool \<times> xdg_popup" where
  "popup_record_configure alloc ser p =
     (if p_count p \<ge> 1024 then (False, p)
      else if \<not> alloc then (False, p)
      else (True, p\<lparr>p_serials := p_serials p @ [ser], p_count := p_count p + 1\<rparr>))"

definition popup_ack_configure :: "int \<Rightarrow> xdg_popup \<Rightarrow> bool \<times> xdg_popup" where
  "popup_ack_configure ser p =
     (if ser \<notin> set (p_serials p) then (False, p)
      else
        let rest = drop_through (\<lambda>x. x = ser) (p_serials p)
        in (True, p\<lparr>p_serials := rest,
              p_count := u32 (p_count p - (int (length (p_serials p)) - int (length rest)))\<rparr>))"

interpretation pq: configure_queue "\<lambda>_. True" p_serials p_count 1024
  "\<lambda>a ser p. snd (popup_record_configure a ser p)" "\<lambda>ser p. snd (popup_ack_configure ser p)"
  "\<lambda>ser p. fst (popup_ack_configure ser p)"
proof unfold_locales
  fix s q
  show "p_count (snd (popup_ack_configure s q)) =
      int (length (p_serials (snd (popup_ack_configure s q))))"
    if "p_count q = int (length (p_serials q))" "p_count q \<le> 1024"
    using that length_drop_through_le [of "\<lambda>x. x = s" "p_serials q"]
    by (simp add: popup_ack_configure_def Let_def u32_def)
qed (auto simp: popup_record_configure_def popup_ack_configure_def Let_def)

section \<open>Remembered views\<close>

definition view_ref_clear ::
  "((view_ref \<Rightarrow> view_ref) \<Rightarrow> popup_grab \<Rightarrow> popup_grab) \<Rightarrow> (popup_grab \<Rightarrow> view_ref) \<Rightarrow>
     destroy_listener \<Rightarrow> popup_grab \<Rightarrow> popup_grab" where
  "view_ref_clear upd sel l g =
     (let g = (case ref_view (sel g) of Some v \<Rightarrow> remove_listener v l g | None \<Rightarrow> g)
      in upd (\<lambda>_. \<lparr>ref_view = None, ref_set = False\<rparr>) g)"

definition view_ref_set ::
  "((view_ref \<Rightarrow> view_ref) \<Rightarrow> popup_grab \<Rightarrow> popup_grab) \<Rightarrow> (popup_grab \<Rightarrow> view_ref) \<Rightarrow>
     destroy_listener \<Rightarrow> nat option \<Rightarrow> popup_grab \<Rightarrow> popup_grab" where
  "view_ref_set upd sel l v g =
     (let g = view_ref_clear upd sel l g;
          g = upd (\<lambda>_. \<lparr>ref_view = v, ref_set = True\<rparr>) g
      in case v of Some v \<Rightarrow> add_listener v l g | None \<Rightarrow> g)"

text \<open>The two of the grab; \<open>pending\<close> forgets on destroy, \<open>restore\<close> remembers that nothing is left.\<close>

abbreviation "clear_restore \<equiv> view_ref_clear restore_update restore Restore_listener"
abbreviation "clear_pending \<equiv> view_ref_clear pending_update pending Pending_listener"
abbreviation "set_restore \<equiv> view_ref_set restore_update restore Restore_listener"
abbreviation "set_pending \<equiv> view_ref_set pending_update pending Pending_listener"

definition handle_restore_destroy :: "popup_grab \<Rightarrow> popup_grab" where
  "handle_restore_destroy g =
     (case ref_view (restore g) of None \<Rightarrow> g
      | Some v \<Rightarrow> (remove_listener v Restore_listener g)\<lparr>restore := (restore g)\<lparr>ref_view := None\<rparr>\<rparr>)"

definition handle_pending_destroy :: "popup_grab \<Rightarrow> popup_grab" where
  "handle_pending_destroy g =
     (case ref_view (pending g) of None \<Rightarrow> g
      | Some v \<Rightarrow> (remove_listener v Pending_listener g)
          \<lparr>pending := \<lparr>ref_view = None, ref_set = False\<rparr>\<rparr>)"

section \<open>The keyboard's focus\<close>

text \<open>\<open>input_focus_set\<close> of \<open>libswc/input.c\<close>, as far as the focused view goes.\<close>

definition input_focus_set :: "nat option \<Rightarrow> popup_grab \<Rightarrow> popup_grab" where
  "input_focus_set v g =
     (if v = focus g then g
      else
        let g = (case focus g of Some old \<Rightarrow> remove_listener old Focus_listener g | None \<Rightarrow> g);
            g = g\<lparr>focus := v\<rparr>
        in case v of Some new \<Rightarrow> add_listener new Focus_listener g | None \<Rightarrow> g)"

text \<open>\<open>keyboard_set_focus\<close> up to the call of the grab's filter: whether it goes on.\<close>

definition focus_allowed :: "nat option \<Rightarrow> popup_grab \<Rightarrow> bool" where
  "focus_allowed v g \<longleftrightarrow>
     (case v of None \<Rightarrow> True
      | Some w \<Rightarrow> \<not> input_mode g \<and> (lock_layer g w \<or> \<not> session_locked g))"

text \<open>
  \<open>keyboard_set_focus\<close> for a view the filter lets through: with no popup in the grab, or for a
  popup of the grab.
\<close>

definition unfiltered_set_focus :: "nat option \<Rightarrow> popup_grab \<Rightarrow> popup_grab" where
  "unfiltered_set_focus v g = (if focus_allowed v g then input_focus_set v g else g)"

definition focus_client :: "popup_grab \<Rightarrow> nat option" where
  "focus_client g = map_option (view_client g) (focus g)"

section \<open>The chain\<close>

definition popup_from_view :: "popup_grab \<Rightarrow> nat option \<Rightarrow> nat option" where
  "popup_from_view g v = (case v of None \<Rightarrow> None | Some v \<Rightarrow> popup_role g v)"

definition popup_in_grab :: "popup_grab \<Rightarrow> nat option \<Rightarrow> bool" where
  "popup_in_grab g p \<longleftrightarrow> (case p of None \<Rightarrow> False | Some p \<Rightarrow> p \<in> set (popups g))"

definition popup_grab_topmost :: "popup_grab \<Rightarrow> nat option" where
  "popup_grab_topmost g = (case popups g of [] \<Rightarrow> None | p # _ \<Rightarrow> Some p)"

definition popup_dismiss :: "nat \<Rightarrow> popup_grab \<Rightarrow> popup_grab" where
  "popup_dismiss p g =
     (let g = g\<lparr>popups := remove1 p (popups g)\<rparr>
      in if dismissed (popup g p) then g
         else emit (Popup_done p)
           (update_popup p (\<lambda>q. q\<lparr>dismissed := True, p_visible := False\<rparr>) g))"

text \<open>\<open>swc_window_focus\<close> once there is no popup in the grab.\<close>

definition window_focus_ungrabbed :: "nat option \<Rightarrow> popup_grab \<Rightarrow> popup_grab" where
  "window_focus_ungrabbed v g =
     (if v \<noteq> None \<and> input_mode g then g
      else if focus g = v then g
      else unfiltered_set_focus v (emit (Window_focused v) g))"

definition popup_grab_update_focus :: "popup_grab \<Rightarrow> popup_grab" where
  "popup_grab_update_focus g =
     (case popup_grab_topmost g of
        Some tp \<Rightarrow> unfiltered_set_focus (Some (p_view (popup g tp))) g
      | None \<Rightarrow>
          let rest = ref_view (restore g); pend = ref_view (pending g);
              has_pending = ref_set (pending g);
              g = clear_restore g; g = clear_pending g;
              g = (if focus g = None \<or> focus_client g = grab_client g
                   then unfiltered_set_focus rest g else g);
              g = g\<lparr>grab_client := None\<rparr>
          in if has_pending
             then window_focus_ungrabbed
               (case pend of Some v \<Rightarrow> if is_window g v then Some v else None | None \<Rightarrow> None) g
             else g)"

text \<open>The loop of \<open>popup_grab_dismiss\<close>, down to and including \<open>upto_p\<close> (\<open>last\<close> in the code).\<close>

function dismiss_loop :: "nat option \<Rightarrow> popup_grab \<Rightarrow> popup_grab" where
  "dismiss_loop upto_p g =
     (case popups g of [] \<Rightarrow> g
      | p # _ \<Rightarrow> if Some p = upto_p then popup_dismiss p g else dismiss_loop upto_p (popup_dismiss p g))"
  by pat_completeness auto
termination
  by (relation "measure (\<lambda>(_, g). length (popups g))")
    (auto simp: popup_dismiss_def emit_def update_popup_def Let_def)

declare dismiss_loop.simps [simp del]

definition popup_grab_dismiss :: "nat option \<Rightarrow> popup_grab \<Rightarrow> popup_grab" where
  "popup_grab_dismiss upto_p g = popup_grab_update_focus (dismiss_loop upto_p g)"

definition popup_grab_handle_button :: "bool \<Rightarrow> nat option \<Rightarrow> popup_grab \<Rightarrow> popup_grab" where
  "popup_grab_handle_button pressed pointer_focus g =
     (if \<not> pressed \<or> popups g = [] then g
      else if pointer_focus = None \<or> map_option (view_client g) pointer_focus \<noteq> grab_client g
      then popup_grab_dismiss None g
      else g)"

section \<open>Focus requests while a grab holds\<close>

definition xdg_popup_grab_filter_keyboard_focus ::
  "nat option \<Rightarrow> popup_grab \<Rightarrow> nat option \<times> popup_grab" where
  "xdg_popup_grab_filter_keyboard_focus v g =
     (case popup_grab_topmost g of None \<Rightarrow> (v, g)
      | Some tp \<Rightarrow>
          if popup_in_grab g (popup_from_view g v) then (v, g)
          else if v \<noteq> None \<and> map_option (view_client g) v = grab_client g
          then (Some (p_view (popup g tp)), g)
          else (v, popup_grab_dismiss None g))"

definition keyboard_set_focus :: "nat option \<Rightarrow> popup_grab \<Rightarrow> popup_grab" where
  "keyboard_set_focus v g =
     (if \<not> focus_allowed v g then g
      else let (v, g) = xdg_popup_grab_filter_keyboard_focus v g in input_focus_set v g)"

definition xdg_popup_grab_defer_window_focus :: "nat option \<Rightarrow> popup_grab \<Rightarrow> bool \<times> popup_grab" where
  "xdg_popup_grab_defer_window_focus v g =
     (case popup_grab_topmost g of None \<Rightarrow> (False, g)
      | Some tp \<Rightarrow>
          if p_buffer (popup g tp) \<and> \<not> p_visible (popup g tp)
          then (False, popup_grab_dismiss None g)
          else if v = ref_view (restore g) then (True, clear_pending g)
          else (True, set_pending v g))"

definition xdg_popup_grab_focus_owner :: "nat option \<Rightarrow> popup_grab \<Rightarrow> nat option" where
  "xdg_popup_grab_focus_owner v g =
     (if \<not> popup_in_grab g (popup_from_view g v) then v
      else if ref_set (pending g) then ref_view (pending g) else ref_view (restore g))"

text \<open>\<open>swc_window_focus\<close>, for the view of a window or none.\<close>

definition swc_window_focus :: "nat option \<Rightarrow> popup_grab \<Rightarrow> popup_grab" where
  "swc_window_focus v g =
     (if v \<noteq> None \<and> input_mode g then g
      else
        let (deferred, g) = xdg_popup_grab_defer_window_focus v g
        in if deferred \<or> focus g = v then g
           else keyboard_set_focus v (emit (Window_focused v) g))"

section \<open>Requests\<close>

definition handle_popup_parent_destroy :: "nat \<Rightarrow> popup_grab \<Rightarrow> popup_grab" where
  "handle_popup_parent_destroy p g =
     (case p_parent (popup g p) of None \<Rightarrow> g
      | Some v \<Rightarrow>
          let g = remove_listener v (Parent_listener p) g;
              g = update_popup p (\<lambda>q. q\<lparr>p_parent := None\<rparr>) g
          in if popup_in_grab g (Some p) then popup_grab_dismiss (Some p) g else popup_dismiss p g)"

text \<open>Up to the destruction of the popup's view.\<close>

definition destroy_popup :: "nat \<Rightarrow> popup_grab \<Rightarrow> popup_grab" where
  "destroy_popup p g =
     (let g = (case p_parent (popup g p) of Some v \<Rightarrow> remove_listener v (Parent_listener p) g
               | None \<Rightarrow> g);
          g = (if popup_in_grab g (Some p)
               then popup_grab_update_focus (g\<lparr>popups := remove1 p (popups g)\<rparr>) else g)
      in update_popup p (\<lambda>q. q\<lparr>p_serials := []\<rparr>) g)"

text \<open>\<open>popup_destroy\<close>: the request, which may be refused.\<close>

definition popup_destroy :: "nat \<Rightarrow> popup_grab \<Rightarrow> popup_grab" where
  "popup_destroy p g =
     (if popup_in_grab g (Some p) \<and> popup_grab_topmost g \<noteq> Some p
      then emit (Popup_error p NOT_THE_TOPMOST_POPUP) g
      else destroy_popup p g)"

text \<open>
  \<open>seat\<close> tells whether there is a seat with a pointer and a keyboard, \<open>recent\<close> is the result of
  \<open>input_serial_is_recent\<close>.
\<close>

definition grab :: "bool \<Rightarrow> bool \<Rightarrow> nat \<Rightarrow> nat \<Rightarrow> popup_grab \<Rightarrow> popup_grab" where
  "grab seat recent client p g =
     (let q = popup g p; parent_popup = popup_from_view g (p_parent q)
      in if grabbed q \<or> dismissed q then g
         else if p_buffer q then emit (Popup_error p INVALID_GRAB) g
         else if (case parent_popup of Some pp \<Rightarrow> \<not> grabbed (popup g pp) | None \<Rightarrow> False)
         then emit (Popup_error p INVALID_GRAB) g
         else
           let g = update_popup p (\<lambda>q. q\<lparr>grabbed := True\<rparr>) g
           in if \<not> seat \<or> (case parent_popup of Some pp \<Rightarrow> dismissed (popup g pp) | None \<Rightarrow> False) \<or>
                \<not> recent
              then popup_dismiss p g
              else if parent_popup \<noteq> None \<and> parent_popup \<noteq> popup_grab_topmost g
              then emit (Popup_error p NOT_THE_TOPMOST_POPUP) g
              else
                let g = (if parent_popup = None \<and> popup_grab_topmost g \<noteq> None
                         then popup_grab_dismiss None g else g);
                    g = (if popups g = []
                         then (clear_pending (set_restore (focus g)
                           (g\<lparr>grab_client := Some client\<rparr>)))\<lparr>watching := True\<rparr>
                         else g);
                    g = g\<lparr>popups := p # popups g\<rparr>
                in keyboard_set_focus (Some (p_view (popup g p))) g)"

text \<open>
  \<open>reposition\<close> and \<open>xdg_popup_set_parent\<close>: \<open>geo\<close> and \<open>scr\<close> are the views' geometry and
  screens, \<open>ss\<close> the screens, \<open>alloc\<close> and \<open>ser\<close> the results of \<open>popup_record_configure\<close>'s calls.
\<close>

definition view_move_by ::
  "(nat \<Rightarrow> swc_rectangle) \<Rightarrow> nat \<Rightarrow> swc_rectangle \<Rightarrow> xdg_popup \<Rightarrow> xdg_popup" where
  "view_move_by geo v rect q =
     q\<lparr>p_position := (s32 (rect_x (geo v) + rect_x rect), s32 (rect_y (geo v) + rect_y rect))\<rparr>"

definition reposition ::
  "bool \<Rightarrow> int \<Rightarrow> int \<Rightarrow> xdg_positioner \<Rightarrow> (nat \<Rightarrow> swc_rectangle) \<Rightarrow> (nat \<Rightarrow> mask) \<Rightarrow> screen list \<Rightarrow>
     nat \<Rightarrow> popup_grab \<Rightarrow> popup_grab" where
  "reposition alloc ser token pos geo scr ss p g =
     (let g = update_popup p (\<lambda>q. q\<lparr>p_positioner := pos\<rparr>) g
      in case p_parent (popup g p) of None \<Rightarrow> g
         | Some v \<Rightarrow>
             let rect = calculate_position pos (Some (geo v, scr v)) ss;
                 g = update_popup p (view_move_by geo v rect) g;
                 (ok, q) = popup_record_configure alloc ser (popup g p);
                 g = update_popup p (\<lambda>_. q) g
             in if \<not> ok then emit (Popup_no_memory p) g
                else emit (Surface_configured p ser)
                  (emit (Popup_configure p rect) (emit (Popup_repositioned p token) g)))"

definition xdg_popup_set_parent ::
  "bool \<Rightarrow> int \<Rightarrow> (nat \<Rightarrow> swc_rectangle) \<Rightarrow> (nat \<Rightarrow> mask) \<Rightarrow> screen list \<Rightarrow> nat \<Rightarrow> nat \<Rightarrow>
     popup_grab \<Rightarrow> bool \<times> popup_grab" where
  "xdg_popup_set_parent alloc ser geo scr ss p v g =
     (if p_parent (popup g p) \<noteq> None \<or> p_configured (popup g p) then (False, g)
      else
        let (ok, q) = popup_record_configure alloc ser (popup g p)
        in if \<not> ok then (False, emit (Popup_no_memory p) g)
           else
             let g = update_popup p (\<lambda>_. q\<lparr>p_parent := Some v\<rparr>) g;
                 g = add_listener v (Parent_listener p) g;
                 rect = calculate_position (p_positioner (popup g p)) (Some (geo v, scr v)) ss;
                 g = update_popup p (\<lambda>q. (view_move_by geo v rect q)\<lparr>p_configured := True\<rparr>) g
             in (True, emit (Surface_configured p ser) (emit (Popup_configure p rect) g)))"

section \<open>What the operations leave alone\<close>

text \<open>The roles, clients and locks around the grab, and the view of each popup.\<close>

definition surroundings :: "popup_grab \<Rightarrow> (nat \<Rightarrow> nat option) \<times> (nat \<Rightarrow> nat) \<times> (nat \<Rightarrow> bool) \<times>
    (nat \<Rightarrow> bool) \<times> bool \<times> bool \<times> (nat \<Rightarrow> nat)" where
  "surroundings g = (popup_role g, view_client g, is_window g, lock_layer g, input_mode g,
     session_locked g, \<lambda>p. p_view (popup g p))"

lemma surroundings_fields:
  assumes "surroundings g = surroundings g'"
  shows "popup_role g = popup_role g'" "view_client g = view_client g'"
    "is_window g = is_window g'" "lock_layer g = lock_layer g'" "input_mode g = input_mode g'"
    "session_locked g = session_locked g'" "p_view (popup g p) = p_view (popup g' p)"
  using assms by (simp_all add: surroundings_def fun_eq_iff)

lemma surroundings_basic [simp]:
  "surroundings (emit e g) = surroundings g"
  "surroundings (add_listener v l g) = surroundings g"
  "surroundings (remove_listener v l g) = surroundings g"
  "surroundings (g\<lparr>popups := ps\<rparr>) = surroundings g"
  "surroundings (g\<lparr>grab_client := c\<rparr>) = surroundings g"
  "surroundings (g\<lparr>restore := r\<rparr>) = surroundings g"
  "surroundings (g\<lparr>pending := r\<rparr>) = surroundings g"
  "surroundings (g\<lparr>focus := v'\<rparr>) = surroundings g"
  "surroundings (g\<lparr>watching := w\<rparr>) = surroundings g"
  "(\<And>q. p_view (f q) = p_view q) \<Longrightarrow> surroundings (update_popup p f g) = surroundings g"
  by (simp_all add: surroundings_def emit_def add_listener_def remove_listener_def
      update_popup_def fun_eq_iff)

lemma basic_fields [simp]:
  "popups (emit e g) = popups g" "popup (emit e g) = popup g" "focus (emit e g) = focus g"
  "grab_client (emit e g) = grab_client g" "restore (emit e g) = restore g"
  "pending (emit e g) = pending g" "g_sent (emit e g) = g_sent g @ [e]"
  "popups (add_listener v l g) = popups g" "popup (add_listener v l g) = popup g"
  "focus (add_listener v l g) = focus g" "grab_client (add_listener v l g) = grab_client g"
  "g_sent (add_listener v l g) = g_sent g" "restore (add_listener v l g) = restore g"
  "pending (add_listener v l g) = pending g"
  "popups (remove_listener v l g) = popups g" "popup (remove_listener v l g) = popup g"
  "focus (remove_listener v l g) = focus g" "grab_client (remove_listener v l g) = grab_client g"
  "g_sent (remove_listener v l g) = g_sent g" "restore (remove_listener v l g) = restore g"
  "pending (remove_listener v l g) = pending g"
  "popups (update_popup p f g) = popups g" "focus (update_popup p f g) = focus g"
  "grab_client (update_popup p f g) = grab_client g" "g_sent (update_popup p f g) = g_sent g"
  "popup (update_popup p f g) q = (if q = p then f (popup g p) else popup g q)"
  "restore (update_popup p f g) = restore g" "pending (update_popup p f g) = pending g"
  by (simp_all add: emit_def add_listener_def remove_listener_def update_popup_def)

lemma ref_fields [simp]:
  "popups (clear_restore g) = popups g" "popup (clear_restore g) = popup g"
  "focus (clear_restore g) = focus g" "grab_client (clear_restore g) = grab_client g"
  "g_sent (clear_restore g) = g_sent g" "surroundings (clear_restore g) = surroundings g"
  "pending (clear_restore g) = pending g"
  "popups (clear_pending g) = popups g" "popup (clear_pending g) = popup g"
  "focus (clear_pending g) = focus g" "grab_client (clear_pending g) = grab_client g"
  "g_sent (clear_pending g) = g_sent g" "surroundings (clear_pending g) = surroundings g"
  "restore (clear_pending g) = restore g"
  by (simp_all add: view_ref_clear_def Let_def split: option.splits)

lemma ref_set_fields [simp]:
  "popups (set_restore v g) = popups g" "popup (set_restore v g) = popup g"
  "focus (set_restore v g) = focus g" "grab_client (set_restore v g) = grab_client g"
  "g_sent (set_restore v g) = g_sent g" "surroundings (set_restore v g) = surroundings g"
  "popups (set_pending v g) = popups g" "popup (set_pending v g) = popup g"
  "focus (set_pending v g) = focus g" "grab_client (set_pending v g) = grab_client g"
  "g_sent (set_pending v g) = g_sent g" "surroundings (set_pending v g) = surroundings g"
  by (simp_all add: view_ref_set_def Let_def split: option.splits)

lemma focus_set_fields [simp]:
  "popups (input_focus_set v g) = popups g" "popup (input_focus_set v g) = popup g"
  "focus (input_focus_set v g) = v" "grab_client (input_focus_set v g) = grab_client g"
  "g_sent (input_focus_set v g) = g_sent g" "surroundings (input_focus_set v g) = surroundings g"
  by (auto simp: input_focus_set_def Let_def split: option.splits)

lemma unfiltered_fields [simp]:
  "popups (unfiltered_set_focus v g) = popups g" "popup (unfiltered_set_focus v g) = popup g"
  "grab_client (unfiltered_set_focus v g) = grab_client g"
  "g_sent (unfiltered_set_focus v g) = g_sent g"
  "surroundings (unfiltered_set_focus v g) = surroundings g"
  by (simp_all add: unfiltered_set_focus_def)

lemma ungrabbed_fields [simp]:
  "popups (window_focus_ungrabbed v g) = popups g" "popup (window_focus_ungrabbed v g) = popup g"
  "surroundings (window_focus_ungrabbed v g) = surroundings g"
  "count_list (g_sent (window_focus_ungrabbed v g)) (Popup_done p) = count_list (g_sent g) (Popup_done p)"
  by (simp_all add: window_focus_ungrabbed_def)

lemma update_focus_fields [simp]:
  "popups (popup_grab_update_focus g) = popups g" "popup (popup_grab_update_focus g) = popup g"
  "surroundings (popup_grab_update_focus g) = surroundings g"
  "count_list (g_sent (popup_grab_update_focus g)) (Popup_done p) = count_list (g_sent g) (Popup_done p)"
  by (auto simp: popup_grab_update_focus_def Let_def split: option.splits)

lemma update_focus_client [simp]:
  "popups g \<noteq> [] \<Longrightarrow> grab_client (popup_grab_update_focus g) = grab_client g"
  by (cases "popups g") (simp_all add: popup_grab_update_focus_def popup_grab_topmost_def)

text \<open>
  The uses of \<open>unfiltered_set_focus\<close> and \<open>window_focus_ungrabbed\<close> are the code's
  \<open>keyboard_set_focus\<close> and \<open>swc_window_focus\<close>: there the filter lets the view through.
\<close>

lemma unfiltered_is_keyboard_set_focus:
  "popups g = [] \<or> popup_in_grab g (popup_from_view g v) \<Longrightarrow>
     keyboard_set_focus v g = unfiltered_set_focus v g"
  by (auto simp: keyboard_set_focus_def xdg_popup_grab_filter_keyboard_focus_def
      unfiltered_set_focus_def popup_grab_topmost_def split: list.splits option.splits)

lemma ungrabbed_is_window_focus:
  "popups g = [] \<Longrightarrow> swc_window_focus v g = window_focus_ungrabbed v g"
  by (simp add: swc_window_focus_def xdg_popup_grab_defer_window_focus_def
      popup_grab_topmost_def window_focus_ungrabbed_def unfiltered_is_keyboard_set_focus)

section \<open>Dismissing\<close>

lemma popup_dismiss_fields [simp]:
  "popups (popup_dismiss p g) = remove1 p (popups g)"
  "focus (popup_dismiss p g) = focus g" "grab_client (popup_dismiss p g) = grab_client g"
  "restore (popup_dismiss p g) = restore g" "pending (popup_dismiss p g) = pending g"
  "surroundings (popup_dismiss p g) = surroundings g"
  "dismissed (popup (popup_dismiss p g) q) \<longleftrightarrow> q = p \<or> dismissed (popup g q)"
  "grabbed (popup (popup_dismiss p g) q) = grabbed (popup g q)"
  "g_sent (popup_dismiss p g) = g_sent g @ (if dismissed (popup g p) then [] else [Popup_done p])"
  by (simp_all add: popup_dismiss_def Let_def)

lemma dismiss_loop_Nil [simp]: "popups g = [] \<Longrightarrow> dismiss_loop l g = g"
  by (subst dismiss_loop.simps) simp

lemma dismiss_loop_Cons:
  "popups g = p # ps \<Longrightarrow> dismiss_loop l g =
     (if Some p = l then popup_dismiss p g else dismiss_loop l (popup_dismiss p g))"
  by (subst dismiss_loop.simps) simp

lemma dismiss_loop_fields:
  "focus (dismiss_loop l g) = focus g \<and> grab_client (dismiss_loop l g) = grab_client g \<and>
   restore (dismiss_loop l g) = restore g \<and> pending (dismiss_loop l g) = pending g \<and>
   surroundings (dismiss_loop l g) = surroundings g \<and>
   (\<forall>q. grabbed (popup (dismiss_loop l g) q) = grabbed (popup g q)) \<and>
   popups (dismiss_loop l g) = drop_through (\<lambda>p. Some p = l) (popups g)"
proof (induction l g rule: dismiss_loop.induct)
  case (1 l g)
  show ?case
  proof (cases "popups g")
    case (Cons p ps)
    show ?thesis
      using "1.IH" [OF Cons] by (cases "Some p = l") (simp_all add: dismiss_loop_Cons [OF Cons] Cons)
  qed simp
qed

text \<open>Every popup is told once that it is done, and only when it is dismissed.\<close>

definition done_once :: "popup_grab \<Rightarrow> bool" where
  "done_once g \<longleftrightarrow>
     (\<forall>p. count_list (g_sent g) (Popup_done p) = (if dismissed (popup g p) then 1 else 0))"

lemma done_once_dismiss: "done_once g \<Longrightarrow> done_once (popup_dismiss p g)"
  by (auto simp: done_once_def)

lemma done_once_loop: "done_once g \<Longrightarrow> done_once (dismiss_loop l g)"
proof (induction l g rule: dismiss_loop.induct)
  case (1 l g)
  show ?case
  proof (cases "popups g")
    case (Cons p ps)
    show ?thesis
      using "1.IH" [OF Cons] done_once_dismiss [OF "1.prems", of p]
      by (simp add: dismiss_loop_Cons [OF Cons])
  qed (use "1.prems" in simp)
qed

lemma dismiss_loop_dismissed:
  assumes "distinct (popups g)" "dismissed (popup (dismiss_loop l g) q)"
  shows "dismissed (popup g q) \<or> q \<notin> set (popups (dismiss_loop l g))"
  using assms
proof (induction l g rule: dismiss_loop.induct)
  case (1 l g)
  show ?case
  proof (cases "popups g")
    case (Cons p ps)
    show ?thesis
    proof (cases "Some p = l")
      case True
      then show ?thesis using "1.prems" by (auto simp: dismiss_loop_Cons [OF Cons] Cons)
    next
      case False
      have "p \<notin> set (popups (dismiss_loop l (popup_dismiss p g)))"
        using "1.prems"(1) set_drop_through [of "\<lambda>p. Some p = l" ps] dismiss_loop_fields
        by (auto simp: Cons)
      then show ?thesis
        using "1.IH" [OF Cons False] "1.prems" False by (auto simp: dismiss_loop_Cons [OF Cons] Cons)
    qed
  qed (use "1.prems" in simp)
qed

lemma dismiss_loop_outside:
  "q \<notin> set (popups g) \<Longrightarrow> dismissed (popup (dismiss_loop l g) q) = dismissed (popup g q)"
proof (induction l g rule: dismiss_loop.induct)
  case (1 l g)
  show ?case
  proof (cases "popups g")
    case (Cons p ps)
    show ?thesis
      using "1.IH" [OF Cons] "1.prems" by (auto simp: dismiss_loop_Cons [OF Cons] Cons)
  qed simp
qed

lemma dismiss_all_events:
  assumes "distinct (popups g)" "\<forall>p \<in> set (popups g). \<not> dismissed (popup g p)"
  shows "g_sent (dismiss_loop None g) = g_sent g @ map Popup_done (popups g)"
  using assms
proof (induction "popups g" arbitrary: g)
  case (Cons p ps)
  have p: "popups (popup_dismiss p g) = ps" using Cons.hyps(2) [symmetric] by simp
  have "g_sent (dismiss_loop None (popup_dismiss p g)) =
      g_sent (popup_dismiss p g) @ map Popup_done ps"
    using Cons.hyps(1) [of "popup_dismiss p g"] p Cons.prems Cons.hyps(2) [symmetric] by auto
  then show ?case
    using Cons.prems Cons.hyps(2) [symmetric] by (simp add: dismiss_loop_Cons)
qed simp

section \<open>The invariant of the grab\<close>

definition grab_ok :: "popup_grab \<Rightarrow> bool" where
  "grab_ok g \<longleftrightarrow> distinct (popups g) \<and>
     (\<forall>p \<in> set (popups g). grabbed (popup g p) \<and> \<not> dismissed (popup g p) \<and>
        grab_client g = Some (view_client g (p_view (popup g p))) \<and>
        popup_role g (p_view (popup g p)) = Some p) \<and>
     (\<not> input_mode g \<and> \<not> session_locked g \<and> popups g \<noteq> [] \<longrightarrow>
        focus g = Some (p_view (popup g (hd (popups g)))))"

text \<open>Everything but the focus; what \<open>popup_grab_update_focus\<close> restores.\<close>

definition chain_ok :: "popup_grab \<Rightarrow> bool" where
  "chain_ok g \<longleftrightarrow> distinct (popups g) \<and>
     (\<forall>p \<in> set (popups g). grabbed (popup g p) \<and> \<not> dismissed (popup g p) \<and>
        grab_client g = Some (view_client g (p_view (popup g p))) \<and>
        popup_role g (p_view (popup g p)) = Some p)"

lemma grab_ok_chain: "grab_ok g \<Longrightarrow> chain_ok g"
  by (simp add: grab_ok_def chain_ok_def)

lemma update_focus_ok: "chain_ok g \<Longrightarrow> grab_ok (popup_grab_update_focus g)"
proof (cases "popups g")
  case (Cons p ps)
  assume c: "chain_ok g"
  note f = surroundings_fields [OF update_focus_fields(3) [of g]]
  have "focus (popup_grab_update_focus g) = Some (p_view (popup g p))"
    if "\<not> input_mode g" "\<not> session_locked g"
    using that Cons by (simp add: popup_grab_update_focus_def popup_grab_topmost_def
        unfiltered_set_focus_def focus_allowed_def)
  then show ?thesis using c Cons by (auto simp: grab_ok_def chain_ok_def f)
qed (simp add: grab_ok_def)

lemma top_focus_ok:
  "chain_ok g \<Longrightarrow> popups g = p # ps \<Longrightarrow> grab_ok (unfiltered_set_focus (Some (p_view (popup g p))) g)"
  using update_focus_ok [of g] by (simp add: popup_grab_update_focus_def popup_grab_topmost_def)

lemma chain_ok_drop:
  assumes "chain_ok g" "popups g' = drop_through P (popups g)" "grab_client g' = grab_client g"
    and "surroundings g' = surroundings g" "\<And>q. grabbed (popup g' q) = grabbed (popup g q)"
    and "\<And>q. dismissed (popup g' q) \<Longrightarrow> dismissed (popup g q) \<or> q \<notin> set (popups g')"
  shows "chain_ok g'"
proof -
  have "distinct (drop_through P xs)" if "distinct xs" for xs
    using that by (induction xs) auto
  then have "distinct (popups g')" using assms(1,2) by (simp add: chain_ok_def)
  moreover have "grabbed (popup g' p) \<and> \<not> dismissed (popup g' p) \<and>
      grab_client g' = Some (view_client g' (p_view (popup g' p))) \<and>
      popup_role g' (p_view (popup g' p)) = Some p" if p: "p \<in> set (popups g')" for p
  proof -
    have "p \<in> set (popups g)" using p assms(2) set_drop_through by (metis subsetD)
    then show ?thesis
      using p assms(1,3,5) assms(6) [of p] surroundings_fields [OF assms(4)]
      by (auto simp: chain_ok_def)
  qed
  ultimately show ?thesis by (simp add: chain_ok_def)
qed

lemma dismiss_ok: "chain_ok g \<Longrightarrow> grab_ok (popup_grab_dismiss l g)"
  unfolding popup_grab_dismiss_def
  using dismiss_loop_fields [of l g] dismiss_loop_dismissed [of g l]
  by (intro update_focus_ok chain_ok_drop [of g "dismiss_loop l g" "\<lambda>p. Some p = l"])
    (auto simp: chain_ok_def)

lemma dismiss_None_empty [simp]: "popups (popup_grab_dismiss None g) = []"
  using dismiss_loop_fields [of None g] by (simp add: popup_grab_dismiss_def)

lemma grab_ok_empty: "popups g = [] \<Longrightarrow> grab_ok g"
  by (simp add: grab_ok_def)

lemma grab_ok_cong:
  assumes "popups g' = popups g" "grab_client g' = grab_client g" "focus g' = focus g"
    and "surroundings g' = surroundings g"
    and "\<And>p. grabbed (popup g' p) = grabbed (popup g p)"
    and "\<And>p. p \<in> set (popups g) \<Longrightarrow> dismissed (popup g' p) = dismissed (popup g p)"
  shows "grab_ok g' = grab_ok g"
  using assms(1-3,5,6) surroundings_fields [OF assms(4)] unfolding grab_ok_def by auto

section \<open>Steps\<close>

text \<open>
  What can happen to the grab.  A client's popups hang off its own popups; the keyboard's focus is
  requested for views that are not popups (those of windows, panels and lock surfaces), and a
  popup's view goes only with the popup.
\<close>

inductive grab_step :: "popup_grab \<Rightarrow> popup_grab \<Rightarrow> bool" where
  Grab: "popup_role g (p_view (popup g p)) = Some p \<Longrightarrow>
    (case popup_from_view g (p_parent (popup g p)) of None \<Rightarrow> True
     | Some pp \<Rightarrow> view_client g (p_view (popup g pp)) = view_client g (p_view (popup g p))) \<Longrightarrow>
    grab_step g (grab seat recent (view_client g (p_view (popup g p))) p g)"
| Pointer_button: "grab_step g (popup_grab_handle_button pressed v g)"
| Set_focus: "popup_from_view g v = None \<Longrightarrow> grab_step g (keyboard_set_focus v g)"
| Window_focus: "popup_from_view g v = None \<Longrightarrow> grab_step g (swc_window_focus v g)"
| Parent_destroyed: "grab_step g (handle_popup_parent_destroy p g)"
| Destroy_request: "grab_step g (popup_destroy p g)"
| Destroyed: "grab_step g (destroy_popup p g)"
| Restore_destroyed: "grab_step g (handle_restore_destroy g)"
| Pending_destroyed: "grab_step g (handle_pending_destroy g)"
| Buffer: "grab_step g (update_popup p (\<lambda>q. q\<lparr>p_buffer := b\<rparr>) g)"
| Visible: "grab_step g (update_popup p (\<lambda>q. q\<lparr>p_visible := b\<rparr>) g)"
| Reposition: "grab_step g (reposition alloc ser token pos geo scr ss p g)"
| Set_parent: "grab_step g (snd (xdg_popup_set_parent alloc ser geo scr ss p v g))"
| Acknowledge: "grab_step g (update_popup p (\<lambda>q. snd (popup_ack_configure ser q)) g)"

lemma in_grab_Some [simp]: "popup_in_grab g (Some p) \<longleftrightarrow> p \<in> set (popups g)"
  "\<not> popup_in_grab g None"
  by (simp_all add: popup_in_grab_def)

lemma input_focus_set_ok: "popups g = [] \<Longrightarrow> grab_ok (input_focus_set v g)"
  by (rule grab_ok_empty) simp

lemma keyboard_set_focus_ok:
  assumes "grab_ok g" "popup_from_view g v = None"
  shows "grab_ok (keyboard_set_focus v g)"
proof (cases "popups g")
  case Nil
  then show ?thesis
    by (intro grab_ok_empty) (simp add: keyboard_set_focus_def popup_grab_topmost_def
        xdg_popup_grab_filter_keyboard_focus_def)
next
  case (Cons p ps)
  then have f: "input_focus_set (Some (p_view (popup g p))) g = g"
    if "\<not> input_mode g" "\<not> session_locked g"
    using that assms(1) by (simp add: grab_ok_def input_focus_set_def)
  have l: "grab_ok (input_focus_set w g)" if "input_mode g \<or> session_locked g" for w
  proof -
    note s = surroundings_fields [OF focus_set_fields(6) [of w g]]
    show ?thesis using assms(1) that by (auto simp: grab_ok_def s)
  qed
  have t: "grab_ok (input_focus_set (Some (p_view (popup g p))) g)"
    using f l assms(1) by (cases "input_mode g \<or> session_locked g") auto
  show ?thesis
    using assms t dismiss_ok [OF grab_ok_chain [OF assms(1)], of None] Cons
    by (auto simp: keyboard_set_focus_def xdg_popup_grab_filter_keyboard_focus_def
        popup_grab_topmost_def intro!: input_focus_set_ok)
qed

lemma update_popup_ok:
  assumes "grab_ok g" "\<And>q. p_view (f q) = p_view q" "\<And>q. grabbed (f q) = grabbed q"
    and "\<And>q. dismissed (f q) = dismissed q"
  shows "grab_ok (update_popup p f g)"
  using assms(1) by (subst grab_ok_cong [of _ g]) (simp_all add: assms(2-4))

lemma listeners_ok [simp]:
  "grab_ok (add_listener v l g) = grab_ok g" "grab_ok (remove_listener v l g) = grab_ok g"
  "grab_ok (emit e g) = grab_ok g" "grab_ok (clear_restore g) = grab_ok g"
  "grab_ok (clear_pending g) = grab_ok g" "grab_ok (set_restore vo g) = grab_ok g"
  "grab_ok (set_pending vo g) = grab_ok g" "grab_ok (g\<lparr>restore := r\<rparr>) = grab_ok g"
  "grab_ok (g\<lparr>pending := r\<rparr>) = grab_ok g"
  by (rule grab_ok_cong; simp)+

lemma popup_dismiss_ok:
  assumes "grab_ok g" "p \<notin> set (popups g)"
  shows "grab_ok (popup_dismiss p g)"
  using assms by (subst grab_ok_cong [of _ g]) (auto simp: remove1_idem)

lemma swc_window_focus_ok:
  assumes "grab_ok g" "popup_from_view g v = None"
  shows "grab_ok (swc_window_focus v g)"
proof (cases "popups g")
  case Nil
  then show ?thesis
    by (intro grab_ok_empty) (simp add: ungrabbed_is_window_focus)
next
  case (Cons p ps)
  define d where "d = popup_grab_dismiss None g"
  have d: "popups d = []" "grab_ok d"
    using dismiss_ok [OF grab_ok_chain [OF assms(1)]] by (simp_all add: d_def)
  have "grab_ok (keyboard_set_focus w (emit e d))" for w e
    using d(1) by (intro grab_ok_empty)
      (simp add: keyboard_set_focus_def popup_grab_topmost_def
        xdg_popup_grab_filter_keyboard_focus_def)
  then show ?thesis
    using assms(1) Cons d
    by (simp add: swc_window_focus_def xdg_popup_grab_defer_window_focus_def
        popup_grab_topmost_def d_def [symmetric])
qed

lemma parent_destroy_ok:
  assumes "grab_ok g"
  shows "grab_ok (handle_popup_parent_destroy p g)"
proof (cases "p_parent (popup g p)")
  case (Some v)
  define u where "u = update_popup p (\<lambda>q. q\<lparr>p_parent := None\<rparr>) (remove_listener v (Parent_listener p) g)"
  have "grab_ok u" unfolding u_def by (rule update_popup_ok) (simp_all add: assms)
  then show ?thesis
    using dismiss_ok [OF grab_ok_chain, of u] popup_dismiss_ok [of u p] Some
    by (simp add: handle_popup_parent_destroy_def Let_def u_def)
qed (simp add: handle_popup_parent_destroy_def assms)

lemma destroy_popup_ok:
  assumes "grab_ok g"
  shows "grab_ok (destroy_popup p g)"
proof -
  define u where "u = (case p_parent (popup g p) of Some v \<Rightarrow> remove_listener v (Parent_listener p) g
    | None \<Rightarrow> g)"
  have u: "grab_ok u" using assms by (simp add: u_def split: option.splits)
  have "chain_ok (u\<lparr>popups := remove1 p (popups u)\<rparr>)"
    using grab_ok_chain [OF u] by (auto simp: chain_ok_def)
  then have "grab_ok (if popup_in_grab u (Some p)
      then popup_grab_update_focus (u\<lparr>popups := remove1 p (popups u)\<rparr>) else u)"
    using u update_focus_ok by simp
  then show ?thesis
    unfolding destroy_popup_def Let_def u_def [symmetric]
    by (rule update_popup_ok) simp_all
qed

lemma grab_op_ok:
  assumes g: "grab_ok g" and role: "popup_role g (p_view (popup g p)) = Some p"
    and client: "case popup_from_view g (p_parent (popup g p)) of None \<Rightarrow> True
      | Some pp \<Rightarrow> view_client g (p_view (popup g pp)) = view_client g (p_view (popup g p))"
  shows "grab_ok (grab seat recent (view_client g (p_view (popup g p))) p g)"
proof -
  let ?q = "popup g p" and ?c = "view_client g (p_view (popup g p))"
  define pp where "pp = popup_from_view g (p_parent ?q)"
  define g1 where "g1 = update_popup p (\<lambda>q. q\<lparr>grabbed := True\<rparr>) g"
  show ?thesis
  proof (cases "grabbed ?q \<or> dismissed ?q")
    case True
    then show ?thesis using g by (simp add: grab_def)
  next
    case False
    then have out: "p \<notin> set (popups g)" using g by (auto simp: grab_ok_def)
    have g1: "grab_ok g1"
      using g out unfolding grab_ok_def g1_def
      by (auto simp: update_popup_def)
    have f1: "surroundings g1 = surroundings g" "popups g1 = popups g" "focus g1 = focus g"
      "grab_client g1 = grab_client g" "dismissed (popup g1 q) = dismissed (popup g q)"
      "grabbed (popup g1 q) \<longleftrightarrow> q = p \<or> grabbed (popup g q)" for q
      by (simp_all add: g1_def)
    note s1 = surroundings_fields [OF f1(1)]
    define g2 where "g2 = (if pp = None \<and> popup_grab_topmost g1 \<noteq> None
      then popup_grab_dismiss None g1 else g1)"
    define g3 where "g3 = (if popups g2 = []
      then (clear_pending (set_restore (focus g2) (g2\<lparr>grab_client := Some ?c\<rparr>)))\<lparr>watching := True\<rparr>
      else g2)"
    define g4 where "g4 = g3\<lparr>popups := p # popups g3\<rparr>"
    have main: "grab_ok (keyboard_set_focus (Some (p_view (popup g4 p))) g4)"
      if top: "pp \<noteq> None \<longrightarrow> pp = popup_grab_topmost g1"
    proof -
      have c: "chain_ok g4 \<and> surroundings g4 = surroundings g"
      proof (cases pp)
        case None
        have g2: "popups g2 = []" "surroundings g2 = surroundings g"
          "grabbed (popup g2 p)" "\<not> dismissed (popup g2 p)"
          using None False f1 out dismiss_loop_fields [of None g1] dismiss_loop_outside [of p g1 None]
          by (auto simp: g2_def popup_grab_topmost_def popup_grab_dismiss_def split: list.splits)
        then have "popups g4 = [p]" "grab_client g4 = Some ?c" "surroundings g4 = surroundings g"
          "grabbed (popup g4 p)" "\<not> dismissed (popup g4 p)"
          by (simp_all add: g4_def g3_def)
        then show ?thesis
          using role surroundings_fields [of g4 g] by (simp add: chain_ok_def)
      next
        case (Some t)
        then obtain ts where t: "popups g1 = t # ts"
          using top by (auto simp: popup_grab_topmost_def split: list.splits)
        then have "g4 = g1\<lparr>popups := p # popups g1\<rparr>"
          using Some by (simp add: g4_def g3_def g2_def)
        moreover have "grab_client g1 = Some ?c"
          using client Some t g1 by (simp add: pp_def grab_ok_def s1)
        ultimately show ?thesis
          using grab_ok_chain [OF g1] f1 out role False
          by (simp add: chain_ok_def s1)
      qed
      note s4 = surroundings_fields [OF conjunct2 [OF c]]
      have "keyboard_set_focus (Some (p_view (popup g4 p))) g4 =
          unfiltered_set_focus (Some (p_view (popup g4 p))) g4"
      proof (rule unfiltered_is_keyboard_set_focus)
        have "popup_from_view g4 (Some (p_view (popup g4 p))) = Some p"
          by (simp add: popup_from_view_def s4 role)
        then show "popups g4 = [] \<or>
            popup_in_grab g4 (popup_from_view g4 (Some (p_view (popup g4 p))))"
          by (simp add: g4_def)
      qed
      moreover have "popups g4 = p # popups g3" by (simp add: g4_def)
      ultimately show ?thesis using top_focus_ok [OF conjunct1 [OF c]] by simp
    qed
    have d: "grab_ok (popup_dismiss p g1)"
      using g1 out by (intro popup_dismiss_ok) (simp_all add: f1)
    show ?thesis
      unfolding grab_def Let_def pp_def [symmetric] g1_def [symmetric] g2_def [symmetric]
        g3_def [symmetric] g4_def [symmetric]
      using g d main g1 False by simp
  qed
qed

lemma configured_ok:
  "grab_ok g \<Longrightarrow> grab_ok (reposition alloc ser token pos geo scr ss p g)"
  "grab_ok g \<Longrightarrow> grab_ok (snd (xdg_popup_set_parent alloc ser geo scr ss p v g))"
  "grab_ok g \<Longrightarrow> grab_ok (update_popup p (\<lambda>q. snd (popup_ack_configure ser q)) g)"
proof -
  assume g: "grab_ok g"
  show "grab_ok (reposition alloc ser token pos geo scr ss p g)"
    by (subst grab_ok_cong [of _ g])
      (simp_all add: g reposition_def Let_def popup_record_configure_def view_move_by_def
        surroundings_def fun_eq_iff emit_def
        add_listener_def update_popup_def split: option.splits)
  show "grab_ok (snd (xdg_popup_set_parent alloc ser geo scr ss p v g))"
    by (subst grab_ok_cong [of _ g])
      (simp_all add: g xdg_popup_set_parent_def Let_def popup_record_configure_def
        view_move_by_def surroundings_def fun_eq_iff emit_def
        add_listener_def update_popup_def split: option.splits)
  show "grab_ok (update_popup p (\<lambda>q. snd (popup_ack_configure ser q)) g)"
    by (rule update_popup_ok) (simp_all add: g popup_ack_configure_def Let_def)
qed

lemma grab_step_ok: "grab_step g g' \<Longrightarrow> grab_ok g \<Longrightarrow> grab_ok g'"
proof (induction rule: grab_step.induct)
  case (Grab g p seat recent)
  then show ?case using grab_op_ok by blast
next
  case (Pointer_button g pressed v)
  then show ?case using dismiss_ok [OF grab_ok_chain] by (simp add: popup_grab_handle_button_def)
next
  case (Destroy_request g p)
  then show ?case by (simp add: popup_destroy_def destroy_popup_ok)
next
  case (Restore_destroyed g)
  then show ?case by (simp add: handle_restore_destroy_def split: option.splits)
next
  case (Pending_destroyed g)
  then show ?case by (simp add: handle_pending_destroy_def split: option.splits)
qed (simp_all add: keyboard_set_focus_ok swc_window_focus_ok parent_destroy_ok destroy_popup_ok
  update_popup_ok configured_ok)

section \<open>Each popup is told once\<close>

lemma done_once_cong:
  assumes "\<And>p. count_list (g_sent g') (Popup_done p) = count_list (g_sent g) (Popup_done p)"
    and "\<And>p. dismissed (popup g' p) = dismissed (popup g p)"
  shows "done_once g' = done_once g"
  by (simp add: done_once_def assms)

lemma done_once_simps [simp]:
  "done_once (add_listener v l g) = done_once g" "done_once (remove_listener v l g) = done_once g"
  "done_once (clear_restore g) = done_once g" "done_once (clear_pending g) = done_once g"
  "done_once (set_restore vo g) = done_once g" "done_once (set_pending vo g) = done_once g"
  "done_once (input_focus_set vo g) = done_once g"
  "done_once (popup_grab_update_focus g) = done_once g"
  "done_once (g\<lparr>popups := ps\<rparr>) = done_once g"
  "done_once (g\<lparr>grab_client := c\<rparr>) = done_once g" "done_once (g\<lparr>watching := w\<rparr>) = done_once g"
  "done_once (g\<lparr>restore := r\<rparr>) = done_once g" "done_once (g\<lparr>pending := r\<rparr>) = done_once g"
  "done_once (emit (Window_focused vo) g) = done_once g"
  "done_once (emit (Popup_error p e) g) = done_once g"
  by (rule done_once_cong; simp)+

lemma done_once_update [simp]:
  "(\<And>q. dismissed (f q) = dismissed q) \<Longrightarrow> done_once (update_popup p f g) = done_once g"
  by (rule done_once_cong) simp_all

lemma done_once_grab_dismiss: "done_once g \<Longrightarrow> done_once (popup_grab_dismiss l g)"
  by (simp add: popup_grab_dismiss_def done_once_loop)

lemma done_once_keyboard: "done_once g \<Longrightarrow> done_once (keyboard_set_focus v g)"
  by (simp add: keyboard_set_focus_def xdg_popup_grab_filter_keyboard_focus_def
      done_once_grab_dismiss split: option.splits)

lemma done_once_defer:
  "done_once g \<Longrightarrow> done_once (snd (xdg_popup_grab_defer_window_focus v g))"
  by (simp add: xdg_popup_grab_defer_window_focus_def done_once_grab_dismiss split: option.splits)

lemma done_once_window: "done_once g \<Longrightarrow> done_once (swc_window_focus v g)"
  by (simp add: swc_window_focus_def case_prod_unfold Let_def done_once_keyboard done_once_defer)

lemma done_once_grab: "done_once g \<Longrightarrow> done_once (grab seat recent c p g)"
  by (simp add: grab_def Let_def done_once_dismiss done_once_grab_dismiss done_once_keyboard
      split: option.splits)

lemma done_once_configured [simp]:
  "done_once (reposition alloc ser token pos geo scr ss p g) = done_once g"
  "done_once (snd (xdg_popup_set_parent alloc ser geo scr ss p v g)) = done_once g"
  by (rule done_once_cong; simp add: reposition_def xdg_popup_set_parent_def Let_def
      popup_record_configure_def view_move_by_def split: option.splits)+

lemma dismissed_ack [simp]: "dismissed (snd (popup_ack_configure ser q)) = dismissed q"
  by (simp add: popup_ack_configure_def Let_def)

lemma done_once_step: "grab_step g g' \<Longrightarrow> done_once g \<Longrightarrow> done_once g'"
  by (induction rule: grab_step.induct)
    (simp_all add: done_once_grab done_once_keyboard done_once_window popup_grab_handle_button_def
      done_once_grab_dismiss handle_popup_parent_destroy_def popup_destroy_def destroy_popup_def
      handle_restore_destroy_def handle_pending_destroy_def done_once_dismiss Let_def
      split: option.splits)

section \<open>Properties\<close>

text \<open>No grab, no popup grabbing, and nobody told anything yet.\<close>

definition no_grab :: "popup_grab \<Rightarrow> bool" where
  "no_grab g \<longleftrightarrow> popups g = [] \<and> g_sent g = [] \<and> (\<forall>p. \<not> dismissed (popup g p))"


text \<open>A press outside the grabbing client ends the grab as a whole: every popup of the chain is told
  it is done, the innermost first, and the keyboard goes to the window focused in the meantime
  if there is one, and otherwise back to the view it was taken from.\<close>

theorem outside_press_ends_grab:
  assumes "grab_ok g" and "popups g \<noteq> []" and "\<not> input_mode g" and "\<not> session_locked g"
    and "map_option (view_client g) v \<noteq> grab_client g" and "v \<noteq> None"
    and "ref_set (pending g) \<longrightarrow> (case ref_view (pending g) of Some w \<Rightarrow> is_window g w | None \<Rightarrow> True)"
    and "g' = popup_grab_handle_button True v g"
  shows "popups g' = [] \<and> (\<exists>es. g_sent g' = g_sent g @ map Popup_done (popups g) @ es) \<and>
    focus g' = (if ref_set (pending g) then ref_view (pending g) else ref_view (restore g))"
proof -
  define d where "d = dismiss_loop None g"
  have d: "popups d = []" "focus d = focus g" "restore d = restore g" "pending d = pending g"
    "grab_client d = grab_client g" "surroundings d = surroundings g"
    using dismiss_loop_fields [of None g] by (simp_all add: d_def)
  note s = surroundings_fields [OF d(6)]
  have sent: "g_sent d = g_sent g @ map Popup_done (popups g)"
    unfolding d_def by (rule dismiss_all_events) (use assms(1) in \<open>auto simp: grab_ok_def\<close>)
  have top: "focus g = Some (p_view (popup g (hd (popups g))))"
    "grab_client g = Some (view_client g (p_view (popup g (hd (popups g)))))"
    using assms(1-4) by (auto simp: grab_ok_def)
  have "focus_client d = grab_client d"
    by (simp add: focus_client_def d s top)
  define c where "c = clear_pending (clear_restore d)"
  have c: "popups c = []" "focus c = focus g" "grab_client c = grab_client g" "g_sent c = g_sent d"
    "surroundings c = surroundings g"
    by (simp_all add: c_def d)
  note sc = surroundings_fields [OF c(5)]
  define u where "u = (unfiltered_set_focus (ref_view (restore g)) c)\<lparr>grab_client := None\<rparr>"
  have u: "popups u = []" "focus u = ref_view (restore g)" "surroundings u = surroundings g"
    "g_sent u = g_sent d"
    using assms(3,4) by (auto simp: u_def c unfiltered_set_focus_def focus_allowed_def sc
        split: option.splits)
  note su = surroundings_fields [OF u(3)]
  have fc: "focus_client c = grab_client c"
    by (simp add: focus_client_def c sc top)
  have iw: "is_window (unfiltered_set_focus (ref_view (restore g)) c) = is_window g"
    using surroundings_fields [OF unfiltered_fields(5) [of "ref_view (restore g)" c]] sc by simp
  have "popup_grab_update_focus d = (if ref_set (pending g)
      then window_focus_ungrabbed (case ref_view (pending g) of
        Some v \<Rightarrow> if is_window g v then Some v else None | None \<Rightarrow> None) u else u)"
    by (cases "ref_view (pending g)")
      (simp_all add: popup_grab_update_focus_def popup_grab_topmost_def d(1,3,4) Let_def
        c_def [symmetric] u_def fc iw)
  moreover have "(case ref_view (pending g) of Some v \<Rightarrow> if is_window g v then Some v else None
      | None \<Rightarrow> None) = ref_view (pending g)" if "ref_set (pending g)"
    using assms(7) that by (cases "ref_view (pending g)") simp_all
  moreover have "g' = popup_grab_update_focus d"
    using assms(2,5,6,8) by (simp add: popup_grab_handle_button_def popup_grab_dismiss_def d_def)
  ultimately have g': "g' = (if ref_set (pending g)
      then window_focus_ungrabbed (ref_view (pending g)) u else u)" by simp
  have w: "focus (window_focus_ungrabbed v u) = v" "popups (window_focus_ungrabbed v u) = []"
    "\<exists>es. g_sent (window_focus_ungrabbed v u) = g_sent g @ map Popup_done (popups g) @ es" for v
    using assms(3,4) u sent by (auto simp: window_focus_ungrabbed_def unfiltered_set_focus_def
        focus_allowed_def su emit_def split: option.splits)
  show ?thesis using w u sent by (simp add: g')
qed

text \<open>A menu grabbed over the focused window and the window's destruction: the grab remembers the
  window with a listener right behind the menu's own on the window's destroy signal.  When the
  signal is emitted, the menu's handler unlinks that next listener, and gives the keyboard back to the
  view being destroyed, leaving a focus listener on it.\<close>

theorem destroyed_parent_regains_focus:
  assumes "popups g = []" and "\<not> grabbed (popup g p) \<and> \<not> dismissed (popup g p) \<and> \<not> p_buffer (popup g p)"
    and "p_parent (popup g p) = Some v" and "p_view (popup g p) \<noteq> v"
    and "popup_role g v = None" and "popup_role g (p_view (popup g p)) = Some p"
    and "focus g = Some v" and "\<not> input_mode g \<and> \<not> session_locked g"
    and "listeners g v = [Focus_listener, Parent_listener p]"
    and "ref_view (restore g) = None \<and> ref_view (pending g) = None"
    and "g1 = grab True True (view_client g (p_view (popup g p))) p g"
    and "g2 = handle_popup_parent_destroy p g1"
  shows "listeners g1 v = [Parent_listener p, Restore_listener] \<and>
    listeners g2 v = [Focus_listener] \<and> focus g2 = Some v"
proof -
  define w where "w = p_view (popup g p)"
  define k where "k = (clear_pending (set_restore (Some v)
      ((update_popup p (\<lambda>q. q\<lparr>grabbed := True\<rparr>) g)\<lparr>grab_client := Some (view_client g w)\<rparr>)))
        \<lparr>watching := True, popups := [p]\<rparr>"
  have k: "surroundings k = surroundings g" "popups k = [p]" "focus k = Some v"
    "grab_client k = Some (view_client g w)"
    by (simp_all add: k_def assms(7) surroundings_def emit_def update_popup_def fun_eq_iff
        view_ref_clear_def view_ref_set_def add_listener_def remove_listener_def Let_def
        split: option.splits)
  have lk: "listeners k v = [Focus_listener, Parent_listener p, Restore_listener]"
    "listeners k w = listeners g w" "restore k = \<lparr>ref_view = Some v, ref_set = True\<rparr>"
    "pending k = \<lparr>ref_view = None, ref_set = False\<rparr>" "p_parent (popup k p) = Some v"
    using assms(3,4,9,10) by (simp_all add: k_def view_ref_clear_def view_ref_set_def Let_def
        add_listener_def update_popup_def w_def)
  note s = surroundings_fields [OF k(1)]
  have "g1 = keyboard_set_focus (Some w) k"
    using assms(1-3,5,7) k_def unfolding assms(11) w_def
    by (simp add: grab_def Let_def popup_from_view_def popup_grab_topmost_def)
  also have "\<dots> = input_focus_set (Some w) k"
    using assms(6,8) k(2) by (subst unfiltered_is_keyboard_set_focus)
      (simp_all add: popup_from_view_def s w_def unfiltered_set_focus_def focus_allowed_def)
  finally have g1: "g1 = k\<lparr>focus := Some w, listeners := (listeners k)
      (v := [Parent_listener p, Restore_listener], w := listeners g w @ [Focus_listener])\<rparr>"
    using lk assms(4) k(3)
    by (simp add: input_focus_set_def remove_listener_def add_listener_def w_def)
  define h where "h = popup_dismiss p (update_popup p (\<lambda>q. q\<lparr>p_parent := None\<rparr>)
      (remove_listener v (Parent_listener p) g1))"
  have h: "popups h = []" "focus h = Some w" "restore h = restore k" "pending h = pending k"
    "grab_client h = grab_client k" "surroundings h = surroundings g1"
    "listeners h v = [Restore_listener]"
    using assms(4) by (simp_all add: h_def g1 k(2) remove_listener_def update_popup_def
        popup_dismiss_def emit_def Let_def w_def surroundings_def fun_eq_iff)
  have sh: "surroundings h = surroundings g" using h(6) k(1) by (simp add: g1 surroundings_def)
  note sh = surroundings_fields [OF sh]
  have g2: "g2 = popup_grab_update_focus h"
    using lk(5) h(1) unfolding assms(12) handle_popup_parent_destroy_def
    by (simp add: g1 k(2) Let_def popup_grab_dismiss_def dismiss_loop_Cons h_def)
  define r where "r = clear_pending (clear_restore h)"
  have r: "focus r = Some w" "listeners r v = []"
    "grab_client r = grab_client k" "surroundings r = surroundings h"
    using h lk(3,4) assms(4) by (simp_all add: r_def view_ref_clear_def Let_def
        remove_listener_def w_def surroundings_def)
  note sr = surroundings_fields [OF r(4)]
  have "g2 = (unfiltered_set_focus (Some v) r)\<lparr>grab_client := None\<rparr>"
    by (simp add: g2 popup_grab_update_focus_def popup_grab_topmost_def h(1,3,4) lk(3,4) Let_def
        r_def [symmetric] focus_client_def r k(4) sr sh)
  then have "listeners g2 v = [Focus_listener] \<and> focus g2 = Some v"
    using r assms(4,8) by (simp add: unfiltered_set_focus_def focus_allowed_def sr sh
        input_focus_set_def w_def add_listener_def remove_listener_def)
  moreover have "listeners g1 v = [Parent_listener p, Restore_listener]"
    using assms(4) by (simp add: g1 w_def)
  ultimately show ?thesis by simp
qed

text \<open>However a popup's configure events and acknowledgements overlap, its count is the number
  of serials outstanding, at most 1024, and an acknowledgement is accepted at most once per serial.\<close>

theorem popup_acks_once:
  assumes "p_serials q0 = [] \<and> p_count q0 = 0" and "distinct (sent_serials ops)"
    and "q = queue_run (\<lambda>a ser q. snd (popup_record_configure a ser q))
      (\<lambda>ser q. snd (popup_ack_configure ser q)) ops q0"
  shows "p_count q = int (length (p_serials q)) \<and> length (p_serials q) \<le> 1024 \<and>
    (fst (popup_ack_configure s q) \<longrightarrow> \<not> fst (popup_ack_configure s (snd (popup_ack_configure s q))))"
proof -
  have "pq.queue_ok q"
    unfolding assms(3) by (rule pq.run_ok) (simp add: pq.queue_ok_def assms(1))
  then show ?thesis
    using pq.run_ack_once [of q0 ops s] assms by (auto simp: pq.queue_ok_def)
qed

section \<open>An example\<close>

text \<open>
  View 3 is the focused window of client 5; views 10, 11, ... are its popups 0, 1, ..., each hung off
  the one before.  View 4 is a window of client 6.
\<close>

definition sample_popup :: "nat \<Rightarrow> xdg_popup" where
  "sample_popup p = \<lparr>p_view = p + 10, p_parent = Some (if p = 0 then 3 else p + 9),
     p_position = (0, 0), p_buffer = False, p_visible = False, p_positioner = positioner_zero,
     p_serials = [], p_count = 0, p_configured = True, grabbed = False, dismissed = False\<rparr>"

definition sample_menu :: popup_grab where
  "sample_menu = \<lparr>popup = sample_popup, popups = [], grab_client = None,
     restore = \<lparr>ref_view = None, ref_set = False\<rparr>, pending = \<lparr>ref_view = None, ref_set = False\<rparr>,
     watching = False, focus = Some 3,
     listeners = (\<lambda>v. if v = 3 then [Focus_listener, Parent_listener 0]
       else if v \<ge> 10 then [Parent_listener (v - 9)] else []),
     popup_role = (\<lambda>v. if v \<ge> 10 then Some (v - 10) else None),
     view_client = (\<lambda>v. if v = 3 \<or> v \<ge> 10 then 5 else 6), is_window = (\<lambda>v. v < 10),
     lock_layer = (\<lambda>_. False), input_mode = False, session_locked = False, g_sent = []\<rparr>"

definition sample_nested :: popup_grab where
  "sample_nested = grab True True 5 1 (grab True True 5 0 sample_menu)"

lemma sample_steps: "grab_step\<^sup>*\<^sup>* sample_menu sample_nested"
proof -
  have g: "grab_step g (grab True True 5 p g)"
    if "popup_role g (p_view (popup g p)) = Some p" "view_client g (p_view (popup g p)) = 5"
      "case popup_from_view g (p_parent (popup g p)) of None \<Rightarrow> True
       | Some pp \<Rightarrow> view_client g (p_view (popup g pp)) = view_client g (p_view (popup g p))" for g p
    using Grab [OF that(1,3), of True True] by (simp add: that(2))
  have "grab_step sample_menu (grab True True 5 0 sample_menu)"
    by (rule g) (simp_all add: sample_menu_def sample_popup_def popup_from_view_def)
  moreover have "grab_step (grab True True 5 0 sample_menu) sample_nested"
    unfolding sample_nested_def by (rule g) code_simp+
  ultimately show ?thesis by (meson converse_rtranclp_into_rtranclp rtranclp.rtrancl_refl)
qed


theorem outside_press_ends_grab_witness:
  "let g = swc_window_focus (Some 4) sample_nested; g' = popup_grab_handle_button True (Some 4) g
   in popups g' = [] \<and> (\<exists>es. g_sent g' = g_sent g @ map Popup_done (popups g) @ es) \<and>
    focus g' = (if ref_set (pending g) then ref_view (pending g) else ref_view (restore g))"
  unfolding Let_def
  by (rule outside_press_ends_grab [where v = "Some 4"]; (rule refl)?) code_simp+

theorem destroyed_parent_regains_focus_witness:
  "let g1 = grab True True 5 0 sample_menu; g2 = handle_popup_parent_destroy 0 g1
   in listeners g1 3 = [Parent_listener 0, Restore_listener] \<and>
    listeners g2 3 = [Focus_listener] \<and> focus g2 = Some 3"
  unfolding Let_def
  by (rule destroyed_parent_regains_focus [where g = sample_menu])
    (simp_all add: sample_menu_def sample_popup_def)

theorem popup_acks_once_witness:
  "let q = queue_run (\<lambda>a ser q. snd (popup_record_configure a ser q))
      (\<lambda>ser q. snd (popup_ack_configure ser q)) [Send True 4, Send True 5, Send False 6, Ack 4] (sample_popup 0)
   in p_serials q = [5] \<and> p_count q = int (length (p_serials q)) \<and> length (p_serials q) \<le> 1024 \<and>
    (fst (popup_ack_configure 5 q) \<longrightarrow> \<not> fst (popup_ack_configure 5 (snd (popup_ack_configure 5 q))))"
  unfolding Let_def
  by (intro conjI [OF _ popup_acks_once [OF _ _ refl]])
    (simp_all add: sample_popup_def popup_record_configure_def popup_ack_configure_def u32_def)

end
