(* ===== verification/View_Stack.thy ===== *)
theory View_Stack
  imports Geometry "HOL-Library.Multiset"
begin

text \<open>
  The stack of views (\<open>libswc/compositor.c\<close>): one list, front first, ordered by stacking layer,
  in which a window, its popups and its subsurfaces move together; showing and hiding views; and
  what a session lock hides and brings back.

  Views are numbers; \<open>NULL\<close> is \<open>None\<close>.  Damage, repaints and the other parts told of a change are
  recorded in \<open>drawn\<close>.  The walks up the parents of a view loop when the parents do, so they are
  partial: \<open>None\<close> is a call that does not return.
\<close>

section \<open>State\<close>

datatype draw_event =
    Damage_view nat
  | Damage_below nat
  | Clear_clip nat
  | Update_view nat
  | Schedule mask
  | Update_extents nat
  | Idle_inhibit_update
  | Bar_forget nat
  | Borders_damaged nat
  | Pointer_unfocused
  | Parent_lost nat

text \<open>
  \<open>v_covers\<close> is the mask of the screens under the view's extents, which \<open>update_view_screens\<close>
  reads; \<open>v_subsurface\<close> tells whether the view is a subsurface's and if so whether it was added.
\<close>

record cview =
  v_parent :: "nat option"
  v_window :: bool
  v_raise_on_click :: bool
  v_subsurface :: "bool option"
  v_buffer :: bool
  v_visible :: bool
  v_always_top :: bool
  v_hidden_by_lock :: bool
  v_layer :: nat
  v_screens :: mask
  v_covers :: mask

record compositor =
  views :: "nat list"
  cview :: "nat \<Rightarrow> cview"
  lock_active :: bool
  pointer_view :: "nat option"
  drawn :: "draw_event list"

definition STACK_NORMAL :: nat where "STACK_NORMAL = 2"
definition STACK_OVERLAY :: nat where "STACK_OVERLAY = 6"
definition STACK_LOCK :: nat where "STACK_LOCK = 7"

definition draw :: "draw_event list \<Rightarrow> compositor \<Rightarrow> compositor" where
  "draw es st = st\<lparr>drawn := drawn st @ es\<rparr>"

definition update_view :: "nat \<Rightarrow> (cview \<Rightarrow> cview) \<Rightarrow> compositor \<Rightarrow> compositor" where
  "update_view v f st = st\<lparr>cview := (cview st)(v := f (cview st v))\<rparr>"

definition parent_of :: "compositor \<Rightarrow> nat \<Rightarrow> nat option" where
  "parent_of st v = v_parent (cview st v)"

abbreviation layer_of :: "compositor \<Rightarrow> nat \<Rightarrow> nat" where
  "layer_of st v \<equiv> v_layer (cview st v)"

section \<open>Walks up the parents\<close>

text \<open>The loop of \<open>view_descends_from\<close>, from the view \<open>v\<close> on.\<close>

partial_function (option) descends_loop ::
  "(nat \<Rightarrow> nat option) \<Rightarrow> nat \<Rightarrow> nat option \<Rightarrow> bool option" where
  "descends_loop par p v =
     (case v of None \<Rightarrow> Some False
      | Some w \<Rightarrow> if w = p then Some True else descends_loop par p (par w))"

declare descends_loop.simps [code]

definition view_descends_from :: "compositor \<Rightarrow> nat \<Rightarrow> nat \<Rightarrow> bool option" where
  "view_descends_from st v p = descends_loop (parent_of st) p (parent_of st v)"

partial_function (option) window_loop ::
  "(nat \<Rightarrow> nat option) \<Rightarrow> (nat \<Rightarrow> bool) \<Rightarrow> nat \<Rightarrow> nat option" where
  "window_loop par win v =
     (if win v then Some v
      else case par v of None \<Rightarrow> Some v
           | Some p \<Rightarrow> if p = v then Some v else window_loop par win p)"

declare window_loop.simps [code]

text \<open>\<open>window_view\<close>: the window a view belongs to, if any.\<close>

definition window_view :: "compositor \<Rightarrow> nat option \<Rightarrow> nat option option" where
  "window_view st v =
     (case v of None \<Rightarrow> Some None
      | Some v \<Rightarrow>
          (case window_loop (parent_of st) (\<lambda>w. v_window (cview st w)) v of None \<Rightarrow> None
           | Some w \<Rightarrow> Some (if v_window (cview st w) then Some w else None)))"

section \<open>Moving a view with its children\<close>

text \<open>
  The loop of \<open>take_view_children\<close>: \<open>front\<close> is \<open>above\<close> of the code, true in front of \<open>v\<close>, and \<open>ab\<close> and \<open>be\<close>
  are the children taken so far from in front of it and from behind it.
\<close>

fun take_children :: "nat \<Rightarrow> nat list \<Rightarrow> bool \<Rightarrow> nat list \<times> nat list \<Rightarrow> compositor \<Rightarrow>
    ((nat list \<times> nat list) \<times> compositor) option" where
  "take_children v [] front children st = Some (children, st)"
| "take_children v (c # cs) front (ab, be) st =
     (let front = (front \<and> c \<noteq> v)
      in case view_descends_from st c v of None \<Rightarrow> None
         | Some d \<Rightarrow>
             if \<not> d then take_children v cs front (ab, be) st
             else take_children v cs front (if front then (ab @ [c], be) else (ab, be @ [c]))
               (draw [Damage_view c, Clear_clip c, Schedule (v_screens (cview st c))]
                 (st\<lparr>views := remove1 c (views st)\<rparr>)))"

definition take_view_children ::
  "nat \<Rightarrow> compositor \<Rightarrow> ((nat list \<times> nat list) \<times> compositor) option" where
  "take_view_children v st = take_children v (views st) True ([], []) st"

text \<open>\<open>wl_list_insert_list\<close> in front of an element and behind it.\<close>

fun insert_list_before :: "'a \<Rightarrow> 'a list \<Rightarrow> 'a list \<Rightarrow> 'a list" where
  "insert_list_before y xs [] = []"
| "insert_list_before y xs (z # zs) =
     (if z = y then xs @ z # zs else z # insert_list_before y xs zs)"

fun insert_list_after :: "'a \<Rightarrow> 'a list \<Rightarrow> 'a list \<Rightarrow> 'a list" where
  "insert_list_after y xs [] = []"
| "insert_list_after y xs (z # zs) =
     (if z = y then z # xs @ zs else z # insert_list_after y xs zs)"

definition follow :: "nat \<Rightarrow> compositor \<Rightarrow> nat \<Rightarrow> compositor" where
  "follow v st c = update_view c (\<lambda>w. w\<lparr>v_layer := layer_of st v,
     v_always_top := v_always_top (cview st v)\<rparr>) st"

definition restore_view_children :: "nat \<Rightarrow> nat list \<times> nat list \<Rightarrow> compositor \<Rightarrow> compositor" where
  "restore_view_children v children st =
     (let (ab, be) = children;
          st = foldl (follow v) st ab; st = foldl (follow v) st be;
          st = st\<lparr>views := insert_list_before v ab (views st)\<rparr>
      in st\<lparr>views := insert_list_after v be (views st)\<rparr>)"

text \<open>\<open>wl_list_remove\<close> and \<open>wl_list_insert\<close> at a point: the head, or behind an element.\<close>

definition move_link :: "nat option \<Rightarrow> nat \<Rightarrow> nat list \<Rightarrow> nat list" where
  "move_link point v xs =
     (let xs = remove1 v xs in case point of None \<Rightarrow> v # xs | Some p \<Rightarrow> insert_after p v xs)"

text \<open>The loop of \<open>restack_view_for_layer\<close>: the element to insert behind.\<close>

fun restack_point :: "(nat \<Rightarrow> nat) \<Rightarrow> nat \<Rightarrow> bool \<Rightarrow> nat option \<Rightarrow> nat list \<Rightarrow> nat option" where
  "restack_point layer v up point [] = point"
| "restack_point layer v up point (w # ws) =
     (if w = v then restack_point layer v up point ws
      else if layer w < layer v \<or> up \<and> layer w = layer v then point
      else restack_point layer v up (Some w) ws)"

definition restack_view_for_layer :: "nat \<Rightarrow> bool \<Rightarrow> compositor \<Rightarrow> compositor" where
  "restack_view_for_layer v up st =
     st\<lparr>views := move_link (restack_point (layer_of st) v up None (views st)) v (views st)\<rparr>"

definition compositor_view_set_stack_layer ::
  "nat \<Rightarrow> nat \<Rightarrow> bool \<Rightarrow> compositor \<Rightarrow> compositor option" where
  "compositor_view_set_stack_layer v layer up st =
     (if layer_of st v = layer \<and> \<not> up then Some st
      else case take_view_children v st of None \<Rightarrow> None
        | Some (children, st) \<Rightarrow>
            let st = draw [Damage_view v] st;
                st = update_view v (\<lambda>w. w\<lparr>v_layer := layer\<rparr>) st;
                st = restack_view_for_layer v up st;
                st = restore_view_children v children st
            in Some (draw [Damage_view v, Schedule (v_screens (cview st v))] st))"

text \<open>The loop of \<open>raise_window\<close>.\<close>

fun raise_point :: "compositor \<Rightarrow> nat \<Rightarrow> nat option \<Rightarrow> nat list \<Rightarrow> nat option" where
  "raise_point st v point [] = point"
| "raise_point st v point (w # ws) =
     (if w = v \<or> \<not> v_visible (cview st w) then raise_point st v point ws
      else if layer_of st w > layer_of st v \<or>
         layer_of st w = layer_of st v \<and> v_always_top (cview st w)
      then raise_point st v (Some w) ws
      else if layer_of st w < layer_of st v then point
      else if v_window (cview st w) then point
      else raise_point st v (Some w) ws)"

definition raise_window :: "nat option \<Rightarrow> compositor \<Rightarrow> compositor option" where
  "raise_window v st =
     (case window_view st v of None \<Rightarrow> None
      | Some None \<Rightarrow> Some st
      | Some (Some v) \<Rightarrow>
          if \<not> v_visible (cview st v) then Some st
          else case take_view_children v st of None \<Rightarrow> None
            | Some (children, st) \<Rightarrow>
                let point = raise_point st v None (views st);
                    screens = v_screens (cview st v);
                    st = st\<lparr>views := move_link point v (views st)\<rparr>;
                    st = restore_view_children v children st
                in Some (draw [Borders_damaged v, Schedule screens] st))"

definition raise_window_from_click :: "nat \<Rightarrow> compositor \<Rightarrow> compositor option" where
  "raise_window_from_click v st =
     (case window_view st (Some v) of None \<Rightarrow> None
      | Some w \<Rightarrow>
          if (case w of None \<Rightarrow> True | Some w \<Rightarrow> v_raise_on_click (cview st w))
          then raise_window (Some v) st else Some st)"

definition raise_window_top :: "nat \<Rightarrow> compositor \<Rightarrow> compositor option" where
  "raise_window_top v st = compositor_view_set_stack_layer v STACK_OVERLAY True st"

section \<open>Showing and hiding\<close>

text \<open>
  \<open>compositor_view_hide\<close> hides a view and then, for every child in the order of the list, does
  the same.  Nothing it does changes the list or the parents, so the recursion is a work list:
  the children of a view are done before what was left.  Every view is linked from its creation
  to its destruction.
\<close>

definition children_of :: "compositor \<Rightarrow> nat \<Rightarrow> nat list" where
  "children_of st v = filter (\<lambda>w. parent_of st w = Some v) (views st)"

definition mark_hidden :: "nat \<Rightarrow> compositor \<Rightarrow> compositor" where
  "mark_hidden v st =
     (let st = draw [Update_view v, Damage_below v] st;
          st = draw [Idle_inhibit_update] (update_view v (\<lambda>w. w\<lparr>v_screens := 0\<rparr>) st);
          st = update_view v (\<lambda>w. w\<lparr>v_visible := False\<rparr>) st
      in if pointer_view st = Some v then draw [Pointer_unfocused] (st\<lparr>pointer_view := None\<rparr>)
         else st)"

definition shown :: "compositor \<Rightarrow> nat set" where
  "shown st = {v \<in> set (views st). v_visible (cview st v)}"

definition unshown :: "compositor \<Rightarrow> nat set" where
  "unshown st = {v \<in> set (views st). \<not> v_visible (cview st v)}"

lemma finite_shown [simp]: "finite (shown st)" "finite (unshown st)"
  by (simp_all add: shown_def unshown_def)

definition forget_lock :: "nat \<Rightarrow> compositor \<Rightarrow> compositor" where
  "forget_lock v st = update_view v (\<lambda>w. w\<lparr>v_hidden_by_lock := False\<rparr>) (draw [Bar_forget v] st)"

lemma forget_lock_fields [simp]:
  "views (forget_lock v st) = views st" "lock_active (forget_lock v st) = lock_active st"
  "v_visible (cview (forget_lock v st) w) = v_visible (cview st w)"
  "parent_of (forget_lock v st) = parent_of st" "layer_of (forget_lock v st) w = layer_of st w"
  "v_hidden_by_lock (cview (forget_lock v st) w) \<longleftrightarrow> w \<noteq> v \<and> v_hidden_by_lock (cview st w)"
  by (auto simp: forget_lock_def update_view_def draw_def parent_of_def fun_eq_iff)

lemma mark_hidden_fields [simp]:
  "views (mark_hidden v st) = views st" "lock_active (mark_hidden v st) = lock_active st"
  "v_visible (cview (mark_hidden v st) w) \<longleftrightarrow> w \<noteq> v \<and> v_visible (cview st w)"
  "parent_of (mark_hidden v st) = parent_of st" "layer_of (mark_hidden v st) w = layer_of st w"
  "v_hidden_by_lock (cview (mark_hidden v st) w) = v_hidden_by_lock (cview st w)"
  by (auto simp: mark_hidden_def update_view_def draw_def Let_def parent_of_def
      fun_eq_iff)

lemma children_of_cong: "views st' = views st \<Longrightarrow> parent_of st' = parent_of st \<Longrightarrow>
    children_of st' = children_of st"
  by (simp add: children_of_def fun_eq_iff)

lemma hidden_children [simp]:
  "children_of (forget_lock v st) = children_of st" "children_of (mark_hidden v st) = children_of st"
  by (rule children_of_cong; simp)+

definition hides :: "nat \<Rightarrow> compositor \<Rightarrow> bool" where
  "hides v st \<longleftrightarrow> v_visible (cview st v) \<and> v \<in> set (views st)"

function hide_work :: "nat list \<Rightarrow> compositor \<Rightarrow> compositor" where
  "hide_work [] st = st"
| "hide_work (v # vs) st =
     (if hides v st then hide_work (children_of st v @ vs) (mark_hidden v (forget_lock v st))
      else hide_work vs (forget_lock v st))"
  by pat_completeness auto
termination
proof (relation "measures [\<lambda>(vs, st). card (shown st), \<lambda>(vs, st). length vs]"; (simp; fail)?)
  fix v vs and st :: compositor
  assume "hides v st"
  then have "shown (mark_hidden v (forget_lock v st)) = shown st - {v}" "v \<in> shown st"
    by (auto simp: shown_def hides_def)
  then show "((children_of st v @ vs, mark_hidden v (forget_lock v st)), v # vs, st) \<in>
      measures [\<lambda>(vs, st). card (shown st), \<lambda>(vs, st). length vs]"
    using card_Diff1_less [of "shown st" v] by simp
next
  fix v vs and st :: compositor
  have "shown (forget_lock v st) = shown st" by (simp add: shown_def)
  then show "((vs, forget_lock v st), v # vs, st) \<in>
      measures [\<lambda>(vs, st). card (shown st), \<lambda>(vs, st). length vs]"
    by simp
qed

declare hide_work.simps(2) [simp del]

definition compositor_view_hide :: "nat \<Rightarrow> compositor \<Rightarrow> compositor" where
  "compositor_view_hide v st = hide_work [v] st"

text \<open>What raising a window keeps: the views, and everything but layers and the order.\<close>

lemma stack_op_fields [simp]:
  "views (draw es st) = views st" "cview (draw es st) = cview st"
  "lock_active (draw es st) = lock_active st" "pointer_view (draw es st) = pointer_view st"
  "views (update_view v f st) = views st" "lock_active (update_view v f st) = lock_active st"
  "pointer_view (update_view v f st) = pointer_view st"
  "cview (update_view v f st) w = (if w = v then f (cview st v) else cview st w)"
  by (simp_all add: draw_def update_view_def)

lemma parent_of_basic [simp]:
  "parent_of (draw es st) = parent_of st" "parent_of (st\<lparr>views := vs\<rparr>) = parent_of st"
  "parent_of (st\<lparr>pointer_view := p\<rparr>) = parent_of st"
  "(\<And>w. v_parent (f w) = v_parent w) \<Longrightarrow> parent_of (update_view v f st) = parent_of st"
  by (simp_all add: parent_of_def fun_eq_iff draw_def update_view_def)

lemma parent_of_set: "parent_of (update_view v (\<lambda>x. x\<lparr>v_parent := p\<rparr>) st) = (parent_of st)(v := p)"
  by (simp add: parent_of_def fun_eq_iff update_view_def)

lemma take_children_kept:
  "take_children v cs front (ab, be) st = Some ((ab', be'), st') \<Longrightarrow>
     cview st' = cview st \<and> lock_active st' = lock_active st \<and> set (views st') \<subseteq> set (views st) \<and>
     set ab' \<subseteq> set ab \<union> set cs \<and> set be' \<subseteq> set be \<union> set cs"
proof (induction cs arbitrary: front ab be st)
  case (Cons c cs)
  obtain d where d: "view_descends_from st c v = Some d"
    using Cons.prems by (auto simp: Let_def split: option.splits)
  show ?case
    using Cons.prems d Cons.IH set_remove1_subset [of c "views st"]
    by (fastforce simp: Let_def split: if_splits)
qed simp

lemma set_insert_list:
  "set (insert_list_before y xs zs) \<subseteq> set xs \<union> set zs"
  "set (insert_list_after y xs zs) \<subseteq> set xs \<union> set zs"
  by (induction zs) auto

lemma follow_fields [simp]:
  "views (follow v st c) = views st" "lock_active (follow v st c) = lock_active st"
  "parent_of (follow v st c) = parent_of st"
  "v_visible (cview (follow v st c) w) = v_visible (cview st w)"
  "v_window (cview (follow v st c) w) = v_window (cview st w)"
  "v_hidden_by_lock (cview (follow v st c) w) = v_hidden_by_lock (cview st w)"
  "v_screens (cview (follow v st c) w) = v_screens (cview st w)"
  by (auto simp: follow_def parent_of_def fun_eq_iff)

lemma follow_all_fields [simp]:
  "views (foldl (follow v) st cs) = views st" "lock_active (foldl (follow v) st cs) = lock_active st"
  "parent_of (foldl (follow v) st cs) = parent_of st"
  "v_visible (cview (foldl (follow v) st cs) w) = v_visible (cview st w)"
  "v_window (cview (foldl (follow v) st cs) w) = v_window (cview st w)"
  "v_hidden_by_lock (cview (foldl (follow v) st cs) w) = v_hidden_by_lock (cview st w)"
  "v_screens (cview (foldl (follow v) st cs) w) = v_screens (cview st w)"
  by (induction cs arbitrary: st) simp_all

lemma restore_fields [simp]:
  "lock_active (restore_view_children v ch st) = lock_active st"
  "parent_of (restore_view_children v ch st) = parent_of st"
  "v_visible (cview (restore_view_children v ch st) w) = v_visible (cview st w)"
  "v_window (cview (restore_view_children v ch st) w) = v_window (cview st w)"
  "v_hidden_by_lock (cview (restore_view_children v ch st) w) = v_hidden_by_lock (cview st w)"
  "v_screens (cview (restore_view_children v ch st) w) = v_screens (cview st w)"
  "views (restore_view_children v (ab, be) st) =
     insert_list_after v be (insert_list_before v ab (views st))"
  by (cases ch; simp add: restore_view_children_def Let_def)+

lemma set_move_link: "set (move_link p v xs) \<subseteq> insert v (set xs)"
  using set_insert_after_subset set_remove1_subset
  by (fastforce simp: move_link_def Let_def split: option.splits)

lemma raise_window_kept:
  assumes "raise_window (Some v) st = Some st'" "v_window (cview st v)" "v \<in> set (views st)"
  shows "set (views st') \<subseteq> set (views st)" "parent_of st' = parent_of st"
    "lock_active st' = lock_active st"
    "v_visible (cview st' w) = v_visible (cview st w)"
    "v_hidden_by_lock (cview st' w) = v_hidden_by_lock (cview st w)"
proof -
  have w: "window_view st (Some v) = Some (Some v)"
    using assms(2) by (simp add: window_view_def window_loop.simps)
  have "set (views st') \<subseteq> set (views st) \<and> parent_of st' = parent_of st \<and>
      lock_active st' = lock_active st \<and> (\<forall>w. v_visible (cview st' w) = v_visible (cview st w) \<and>
      v_hidden_by_lock (cview st' w) = v_hidden_by_lock (cview st w))"
  proof (cases "take_view_children v st")
    case (Some a)
    obtain ab be s where a: "a = ((ab, be), s)" by (metis surj_pair)
    note k = take_children_kept [OF Some [unfolded a take_view_children_def]]
    have "set (insert_list_after v be (insert_list_before v ab
        (move_link (raise_point s v None (views s)) v (views s)))) \<subseteq> set (views st)"
      using k assms(3) set_insert_list [where y = v] set_move_link
      by (smt (verit, best) Un_iff empty_set insert_iff subset_iff sup_bot_left)
    then show ?thesis
      using assms(1) Some k
      by (auto simp: raise_window_def w a Let_def parent_of_def split: if_splits)
  qed (use assms(1) w in \<open>auto simp: raise_window_def split: if_splits\<close>)
  then show "set (views st') \<subseteq> set (views st)" "parent_of st' = parent_of st"
    "lock_active st' = lock_active st" "v_visible (cview st' w) = v_visible (cview st w)"
    "v_hidden_by_lock (cview st' w) = v_hidden_by_lock (cview st w)" by auto
qed

text \<open>
  \<open>view_show\<close>: \<open>Show v\<close> is a call for a view, \<open>Scan v c\<close> the rest of the loop over the list that
  shows the children of \<open>v\<close>, with the element \<open>c\<close> done.  Raising moves views within the list the
  loop is walking, which is why the loop is kept as its cursor.
\<close>

datatype show_item = Show nat | Scan nat "nat option"

fun behind :: "nat \<Rightarrow> nat list \<Rightarrow> nat list" where
  "behind c [] = []"
| "behind c (x # xs) = (if x = c \<and> c \<notin> set xs then xs else behind c xs)"

fun list_next :: "nat option \<Rightarrow> nat list \<Rightarrow> nat list" where
  "list_next None xs = xs"
| "list_next (Some c) xs = behind c xs"

text \<open>A view is shown if it is not yet visible, and if it is a subsurface only once added and drawn.\<close>

definition showable :: "nat \<Rightarrow> compositor \<Rightarrow> bool" where
  "showable v st \<longleftrightarrow> \<not> v_visible (cview st v) \<and> v \<in> set (views st) \<and>
     (case v_subsurface (cview st v) of None \<Rightarrow> True
      | Some added \<Rightarrow> added \<and> v_buffer (cview st v))"

definition deferred :: "nat \<Rightarrow> compositor \<Rightarrow> bool" where
  "deferred v st \<longleftrightarrow> lock_active st \<and> layer_of st v < STACK_LOCK"

definition mark_shown :: "bool \<Rightarrow> nat \<Rightarrow> compositor \<Rightarrow> compositor option" where
  "mark_shown up v st =
     (let st = draw [Update_extents v] (update_view v (\<lambda>w. w\<lparr>v_visible := True\<rparr>) st);
          st = update_view v (\<lambda>w. w\<lparr>v_screens := v_covers w\<rparr>) st;
          st = draw [Idle_inhibit_update] st
      in case (if v_window (cview st v) \<and> up then raise_window (Some v) st else Some st) of
           None \<Rightarrow> None
         | Some st \<Rightarrow> Some (draw [Clear_clip v, Damage_view v, Update_view v] st))"

lemma mark_shown_kept:
  assumes "mark_shown up v st = Some st'" "v \<in> set (views st)"
  shows "set (views st') \<subseteq> set (views st)" "parent_of st' = parent_of st"
    "lock_active st' = lock_active st"
    "v_visible (cview st' w) \<longleftrightarrow> w = v \<or> v_visible (cview st w)"
    "v_hidden_by_lock (cview st' w) = v_hidden_by_lock (cview st w)"
proof -
  define s where "s = draw [Idle_inhibit_update] (update_view v (\<lambda>w. w\<lparr>v_screens := v_covers w\<rparr>)
      (draw [Update_extents v] (update_view v (\<lambda>w. w\<lparr>v_visible := True\<rparr>) st)))"
  have s: "views s = views st" "parent_of s = parent_of st" "lock_active s = lock_active st"
    "v_window (cview s v) = v_window (cview st v)"
    "v_visible (cview s w) \<longleftrightarrow> w = v \<or> v_visible (cview st w)"
    "v_hidden_by_lock (cview s w) = v_hidden_by_lock (cview st w)" for w
    by (auto simp: s_def parent_of_def fun_eq_iff)
  obtain r where r: "(if v_window (cview s v) \<and> up then raise_window (Some v) s else Some s) = Some r"
    "st' = draw [Clear_clip v, Damage_view v, Update_view v] r"
    using assms(1) unfolding mark_shown_def Let_def s_def [symmetric]
    by (auto split: option.splits)
  note k = raise_window_kept [of v s r]
  show "set (views st') \<subseteq> set (views st)" "parent_of st' = parent_of st"
    "lock_active st' = lock_active st" "v_visible (cview st' w) \<longleftrightarrow> w = v \<or> v_visible (cview st w)"
    "v_hidden_by_lock (cview st' w) = v_hidden_by_lock (cview st w)"
    using k r assms(2) s by (auto split: if_splits)
qed

definition defer_show :: "nat \<Rightarrow> compositor \<Rightarrow> compositor" where
  "defer_show v st = update_view v (\<lambda>w. w\<lparr>v_hidden_by_lock := True\<rparr>) st"

lemma defer_show_fields [simp]:
  "views (defer_show v st) = views st" "parent_of (defer_show v st) = parent_of st"
  "v_visible (cview (defer_show v st) w) = v_visible (cview st w)"
  "lock_active (defer_show v st) = lock_active st"
  by (simp_all add: defer_show_def)

fun show_weight :: "compositor \<Rightarrow> show_item \<Rightarrow> nat" where
  "show_weight st (Show v) = 1"
| "show_weight st (Scan v c) = 1 + 2 * length (list_next c (views st))"

lemma show_weight_cong: "views st' = views st \<Longrightarrow> show_weight st' = show_weight st"
  by (rule ext, rename_tac i, case_tac i) simp_all

lemma set_behind: "set (behind c xs) \<subseteq> set xs"
  by (induction xs) auto

lemma length_behind: "length (behind c xs) \<le> length xs"
  by (induction xs) auto

lemma behind_first: "length (behind w (w # ws)) \<le> length ws"
  by (simp add: length_behind)

lemma behind_shrinks: "behind c xs = w # ws \<Longrightarrow> length (behind w xs) \<le> length ws"
proof (induction xs)
  case (Cons x xs)
  show ?case
  proof (cases "x = c \<and> c \<notin> set xs")
    case True
    then have "xs = w # ws" using Cons.prems by simp
    then show ?thesis using behind_first [of w ws] by simp
  next
    case False
    then have b: "behind c xs = w # ws" using Cons.prems by (auto split: if_splits)
    then have "w \<in> set xs" using set_behind [of c xs] by auto
    then show ?thesis using Cons.IH [OF b] by simp
  qed
qed simp

lemma list_next_shrinks:
  "list_next c xs = w # ws \<Longrightarrow> length (list_next (Some w) xs) \<le> length ws"
  using behind_first behind_shrinks by (cases c) auto

lemma list_next_mem: "list_next c xs = w # ws \<Longrightarrow> w \<in> set xs"
  using set_behind [of "the c" xs] by (cases c) auto

function show_work :: "bool \<Rightarrow> show_item list \<Rightarrow> compositor \<Rightarrow> compositor option" where
  "show_work up [] st = Some st"
| "show_work up (Show v # is) st =
     (if \<not> showable v st then show_work up is st
      else if deferred v st then show_work up is (defer_show v st)
      else case mark_shown up v st of None \<Rightarrow> None
        | Some st \<Rightarrow> show_work up (Scan v None # is) st)"
| "show_work up (Scan v c # is) st =
     (case list_next c (views st) of [] \<Rightarrow> show_work up is st
      | w # _ \<Rightarrow>
          if parent_of st w = Some v then show_work up (Show w # Scan v (Some w) # is) st
          else show_work up (Scan v (Some w) # is) st)"
  by pat_completeness auto
termination
proof (relation "measures [\<lambda>(up, is, st). card (unshown st), \<lambda>(up, is, st). sum_list (map (show_weight st) is)]"; (simp; fail)?)
  fix up v "is" st st'
  assume a: "\<not> \<not> showable v st" "mark_shown up v st = Some st'"
  then have v: "v \<in> unshown st" by (simp add: showable_def unshown_def)
  have "unshown st' \<subseteq> unshown st - {v}"
    using mark_shown_kept [OF a(2)] v by (auto simp: unshown_def)
  then have "card (unshown st') < card (unshown st)"
    using v by (metis card_Diff1_less card_mono finite_Diff finite_shown(2) le_less_trans)
  then show "((up, Scan v None # is, st'), up, Show v # is, st) \<in> measures
      [\<lambda>(up, is, st). card (unshown st), \<lambda>(up, is, st). sum_list (map (show_weight st) is)]" by simp
next
  fix up v "is" and st :: compositor
  have "unshown (defer_show v st) = unshown st" by (simp add: unshown_def)
  moreover have "show_weight (defer_show v st) = show_weight st" by (rule show_weight_cong) simp
  ultimately show "((up, is, defer_show v st), up, Show v # is, st) \<in> measures
      [\<lambda>(up, is, st). card (unshown st), \<lambda>(up, is, st). sum_list (map (show_weight st) is)]" by simp
next
  fix up v c "is" and st :: compositor and w ws
  assume n: "list_next c (views st) = w # ws"
  note l = list_next_shrinks [OF n]
  show "((up, Show w # Scan v (Some w) # is, st), up, Scan v c # is, st) \<in> measures
      [\<lambda>(up, is, st). card (unshown st), \<lambda>(up, is, st). sum_list (map (show_weight st) is)]"
    using l n by simp
  show "((up, Scan v (Some w) # is, st), up, Scan v c # is, st) \<in> measures
      [\<lambda>(up, is, st). card (unshown st), \<lambda>(up, is, st). sum_list (map (show_weight st) is)]"
    using l n by simp
qed

declare show_work.simps(2,3) [simp del]

definition compositor_view_show :: "nat \<Rightarrow> compositor \<Rightarrow> compositor option" where
  "compositor_view_show v st = show_work True [Show v] st"

definition compositor_view_show_in_place :: "nat \<Rightarrow> compositor \<Rightarrow> compositor option" where
  "compositor_view_show_in_place v st = show_work False [Show v] st"

section \<open>Locking\<close>

text \<open>The loops over all views; neither changes the list.  \<open>swc_overview_end\<close> comes first.\<close>

definition hide_for_lock :: "nat \<Rightarrow> compositor \<Rightarrow> compositor" where
  "hide_for_lock v st =
     (if \<not> v_visible (cview st v) \<or> layer_of st v = STACK_LOCK then st
      else defer_show v (compositor_view_hide v st))"

definition compositor_hide_for_lock :: "compositor \<Rightarrow> compositor" where
  "compositor_hide_for_lock st = fold hide_for_lock (views st) st"

fun restore_views :: "nat list \<Rightarrow> compositor \<Rightarrow> compositor option" where
  "restore_views [] st = Some st"
| "restore_views (v # vs) st =
     (if \<not> v_hidden_by_lock (cview st v) then restore_views vs st
      else case compositor_view_show_in_place v
             (update_view v (\<lambda>w. w\<lparr>v_hidden_by_lock := False\<rparr>) st) of None \<Rightarrow> None
        | Some st \<Rightarrow> restore_views vs st)"

definition compositor_restore_after_lock :: "compositor \<Rightarrow> compositor option" where
  "compositor_restore_after_lock st = restore_views (views st) st"

section \<open>The window manager's and the shells' operations\<close>

definition visible_window_in_layer :: "compositor \<Rightarrow> nat \<Rightarrow> nat \<Rightarrow> bool" where
  "visible_window_in_layer st l w \<longleftrightarrow>
     v_visible (cview st w) \<and> v_window (cview st w) \<and> layer_of st w = l"

definition prev_window_view :: "nat \<Rightarrow> compositor \<Rightarrow> nat option" where
  "prev_window_view v st =
     find (visible_window_in_layer st (layer_of st v)) (rev (takeWhile (\<lambda>w. w \<noteq> v) (views st)))"

definition next_window_view :: "nat \<Rightarrow> compositor \<Rightarrow> nat option" where
  "next_window_view v st =
     find (visible_window_in_layer st (layer_of st v)) (behind v (views st))"

text \<open>The edge of the sibling's tree to restack against: its first element, or its last.\<close>

fun tree_edge :: "compositor \<Rightarrow> nat \<Rightarrow> bool \<Rightarrow> nat \<Rightarrow> nat list \<Rightarrow> nat option" where
  "tree_edge st sibling front edge [] = Some edge"
| "tree_edge st sibling front edge (w # ws) =
     (case (if w = sibling then Some True else view_descends_from st w sibling) of None \<Rightarrow> None
      | Some False \<Rightarrow> tree_edge st sibling front edge ws
      | Some True \<Rightarrow> if front then Some w else tree_edge st sibling front w ws)"

definition in_place :: "nat \<Rightarrow> nat \<Rightarrow> bool \<Rightarrow> nat list \<Rightarrow> bool" where
  "in_place v edge front xs \<longleftrightarrow>
     (if front then (case behind v xs of [] \<Rightarrow> False | w # _ \<Rightarrow> w = edge)
      else (case behind edge xs of [] \<Rightarrow> False | w # _ \<Rightarrow> w = v))"

definition compositor_view_restack :: "nat \<Rightarrow> nat \<Rightarrow> bool \<Rightarrow> compositor \<Rightarrow> compositor option" where
  "compositor_view_restack v sibling front st =
     (if v = sibling then Some st
      else case view_descends_from st sibling v of None \<Rightarrow> None | Some True \<Rightarrow> Some st
      | Some False \<Rightarrow>
        (case view_descends_from st v sibling of None \<Rightarrow> None
         | Some d \<Rightarrow>
           (case (if d then Some sibling else tree_edge st sibling front sibling (views st)) of
              None \<Rightarrow> None
            | Some edge \<Rightarrow>
                if in_place v edge front (views st) then Some st
                else case take_view_children v st of None \<Rightarrow> None
                  | Some (children, st) \<Rightarrow>
                      let xs = remove1 v (views st);
                          st = st\<lparr>views := (if front then insert_before edge v xs
                            else insert_after edge v xs)\<rparr>;
                          st = restore_view_children v children st
                      in Some (draw [Borders_damaged v, Borders_damaged sibling,
                           Schedule (v_screens (cview st v) OR v_screens (cview st sibling))] st))))"

definition swc_window_stack :: "nat \<Rightarrow> int \<Rightarrow> compositor \<Rightarrow> compositor option" where
  "swc_window_stack v direction st =
     (if \<not> v_visible (cview st v) \<or> direction = 0 then Some st
      else if direction < 0
      then (case prev_window_view v st of None \<Rightarrow> Some st
            | Some w \<Rightarrow> compositor_view_restack v w True st)
      else (case next_window_view v st of None \<Rightarrow> Some st
            | Some w \<Rightarrow> compositor_view_restack v w False st))"

definition compositor_view_set_parent :: "nat \<Rightarrow> nat option \<Rightarrow> compositor \<Rightarrow> compositor option" where
  "compositor_view_set_parent v p st =
     (let st = update_view v (\<lambda>w. w\<lparr>v_parent := p\<rparr>) st
      in case p of None \<Rightarrow> Some st
         | Some p \<Rightarrow>
             let st = follow p st v
             in if v_visible (cview st p) then compositor_view_show v st
                else Some (compositor_view_hide v st))"

definition new_cview :: cview where
  "new_cview = \<lparr>v_parent = None, v_window = False, v_raise_on_click = False, v_subsurface = None,
     v_buffer = False, v_visible = False, v_always_top = False, v_hidden_by_lock = False,
     v_layer = STACK_NORMAL, v_screens = 0, v_covers = 0\<rparr>"

definition compositor_create_view :: "nat \<Rightarrow> compositor \<Rightarrow> compositor" where
  "compositor_create_view v st =
     (update_view v (\<lambda>_. new_cview) st)\<lparr>views := v # views st\<rparr>"

text \<open>The loop of \<open>compositor_view_destroy\<close> that unparents the children, and the rest of it.\<close>

definition orphan :: "nat \<Rightarrow> nat \<Rightarrow> compositor \<Rightarrow> compositor" where
  "orphan v w st =
     (if parent_of st w \<noteq> Some v then st
      else let st = update_view w (\<lambda>x. x\<lparr>v_parent := None\<rparr>) st
           in if v_window (cview st w) \<and> v_window (cview st v) then draw [Parent_lost w] st else st)"

definition compositor_view_destroy :: "nat \<Rightarrow> compositor \<Rightarrow> compositor" where
  "compositor_view_destroy v st =
     (let st = fold (orphan v) (views st) st; st = compositor_view_hide v st
      in st\<lparr>views := remove1 v (views st)\<rparr>)"

section \<open>Descent\<close>

text \<open>The parents have no cycle: what makes the walks return.\<close>

definition acyclic_parents :: "compositor \<Rightarrow> bool" where
  "acyclic_parents st \<longleftrightarrow>
     (\<exists>rank :: nat \<Rightarrow> nat. \<forall>v p. parent_of st v = Some p \<longrightarrow> rank p < rank v)"

text \<open>The answer of \<open>view_descends_from\<close>, when it returns.\<close>

definition descends :: "(nat \<Rightarrow> nat option) \<Rightarrow> nat \<Rightarrow> nat \<Rightarrow> bool" where
  "descends par v p \<longleftrightarrow> (v, p) \<in> {(a, b). par a = Some b}\<^sup>+"

lemma descends_step:
  "descends par v p \<longleftrightarrow> (case par v of None \<Rightarrow> False | Some w \<Rightarrow> w = p \<or> descends par w p)"
proof -
  have "(v, p) \<in> {(a, b). par a = Some b}\<^sup>+ \<longleftrightarrow>
      (\<exists>w. par v = Some w \<and> (w = p \<or> (w, p) \<in> {(a, b). par a = Some b}\<^sup>+))"
    by (auto elim: converse_tranclE intro: trancl_into_trancl2)
  then show ?thesis by (simp add: descends_def split: option.splits)
qed

lemma descends_loop_ranked:
  assumes "\<And>v p. par v = Some p \<Longrightarrow> rank p < (rank v :: nat)"
  shows "descends_loop par p (Some v) = Some (v = p \<or> descends par v p)"
proof (induction "rank v" arbitrary: v rule: less_induct)
  case less
  show ?case
  proof (cases "par v")
    case None
    then show ?thesis
      by (simp add: descends_loop.simps [of par p "Some v"] descends_loop.simps [of par p None]
          descends_step [of par v p])
  next
    case (Some w)
    have "descends_loop par p (Some w) = Some (w = p \<or> descends par w p)"
      using less assms [OF Some] by blast
    then show ?thesis
      using Some by (subst descends_loop.simps) (simp add: descends_step [of par v p])
  qed
qed

lemma view_descends_from_returns:
  assumes "acyclic_parents st"
  shows "view_descends_from st v p = Some (descends (parent_of st) v p)"
proof -
  obtain rank :: "nat \<Rightarrow> nat" where "\<And>v p. parent_of st v = Some p \<Longrightarrow> rank p < rank v"
    using assms unfolding acyclic_parents_def by blast
  note r = descends_loop_ranked [of "parent_of st" rank, OF this]
  show ?thesis
  proof (cases "parent_of st v")
    case None
    then show ?thesis
      by (subst descends_step)
        (simp add: view_descends_from_def descends_loop.simps [of _ _ None])
  next
    case (Some w)
    then show ?thesis using r by (subst descends_step) (auto simp: view_descends_from_def)
  qed
qed

lemma descends_irrefl:
  assumes "acyclic_parents st"
  shows "\<not> descends (parent_of st) v v"
proof -
  obtain rank :: "nat \<Rightarrow> nat" where r: "\<And>v p. parent_of st v = Some p \<Longrightarrow> rank p < rank v"
    using assms unfolding acyclic_parents_def by blast
  have "rank p < rank v" if "(v, p) \<in> {(a, b). parent_of st a = Some b}\<^sup>+" for v p
    using that by (induction rule: trancl_induct) (auto dest: r less_trans)
  then show ?thesis unfolding descends_def by blast
qed

lemma acyclic_cong: "parent_of st' = parent_of st \<Longrightarrow> acyclic_parents st' = acyclic_parents st"
  by (simp add: acyclic_parents_def)

text \<open>With a cycle the walk does not return.\<close>

lemma descends_loop_cycle:
  assumes "par a = Some b" "par b = Some a" "p \<noteq> a" "p \<noteq> b"
  shows "descends_loop par p (Some a) = None \<and> descends_loop par p (Some b) = None"
proof -
  have "par' = par \<longrightarrow> p' = p \<longrightarrow> v \<noteq> Some a \<and> v \<noteq> Some b" if "descends_loop par' p' v = Some y"
    for par' p' v y
  proof (rule descends_loop.raw_induct [OF _ that, where P = "\<lambda>par' p' v y. par' = par \<longrightarrow> p' = p \<longrightarrow>
        v \<noteq> Some a \<and> v \<noteq> Some b"])
    fix f par' p' v y
    assume "\<And>p'' v b' y. f p'' v b' = Some y \<Longrightarrow> p'' = par \<longrightarrow> v = p \<longrightarrow> b' \<noteq> Some a \<and> b' \<noteq> Some b"
      and "(case v of None \<Rightarrow> Some False
        | Some w \<Rightarrow> if w = p' then Some True else f par' p' (par' w)) = Some (y :: bool)"
    then show "par' = par \<longrightarrow> p' = p \<longrightarrow> v \<noteq> Some a \<and> v \<noteq> Some b"
      using assms by (auto split: option.splits if_splits)
  qed
  then show ?thesis by (metis not_None_eq)
qed

section \<open>Where views end up\<close>

lemma fold_remove1: "distinct xs \<Longrightarrow> fold remove1 ys xs = filter (\<lambda>x. x \<notin> set ys) xs"
proof (induction ys arbitrary: xs)
  case (Cons y ys)
  have "fold remove1 ys (remove1 y xs) = filter (\<lambda>x. x \<notin> set ys) (remove1 y xs)"
    using Cons by simp
  then show ?case
    using Cons.prems by (simp add: distinct_remove1_removeAll removeAll_filter_not_eq)
      (rule filter_cong; auto)
qed simp

lemma take_children_result:
  assumes "acyclic_parents st"
  shows "\<exists>st'. take_children v cs front (ab, be) st = Some
      ((ab @ filter (\<lambda>c. descends (parent_of st) c v) (if front then takeWhile (\<lambda>c. c \<noteq> v) cs else []),
        be @ filter (\<lambda>c. descends (parent_of st) c v) (if front then dropWhile (\<lambda>c. c \<noteq> v) cs else cs)),
       st') \<and>
    views st' = fold remove1 (filter (\<lambda>c. descends (parent_of st) c v) cs) (views st) \<and>
    cview st' = cview st \<and> lock_active st' = lock_active st"
  using assms
proof (induction cs arbitrary: front ab be st)
  case (Cons c cs)
  let ?D = "\<lambda>c. descends (parent_of st) c v"
  define s where "s = (if ?D c then draw [Damage_view c, Clear_clip c, Schedule (v_screens (cview st c))]
    (st\<lparr>views := remove1 c (views st)\<rparr>) else st)"
  have s: "parent_of s = parent_of st" "cview s = cview st" "lock_active s = lock_active st"
    "views s = (if ?D c then remove1 c (views st) else views st)"
    by (simp_all add: s_def)
  have i: "\<not> ?D v" using descends_irrefl [OF Cons.prems] .
  define ab' be' where "ab' = (if ?D c \<and> front \<and> c \<noteq> v then ab @ [c] else ab)"
    and "be' = (if ?D c \<and> \<not> (front \<and> c \<noteq> v) then be @ [c] else be)"
  have "take_children v (c # cs) front (ab, be) st = take_children v cs (front \<and> c \<noteq> v) (ab', be') s"
    by (simp add: view_descends_from_returns [OF Cons.prems] s_def ab'_def be'_def Let_def)
  moreover have "acyclic_parents s" using acyclic_cong [OF s(1)] Cons.prems by simp
  note Cons.IH [OF this, of "front \<and> c \<noteq> v" ab' be', unfolded s]
  ultimately show ?case using i s by (auto simp: ab'_def be'_def)
qed auto

definition tree_front :: "compositor \<Rightarrow> nat \<Rightarrow> nat list" where
  "tree_front st v = filter (\<lambda>c. descends (parent_of st) c v) (takeWhile (\<lambda>c. c \<noteq> v) (views st))"

definition tree_back :: "compositor \<Rightarrow> nat \<Rightarrow> nat list" where
  "tree_back st v = filter (\<lambda>c. descends (parent_of st) c v) (dropWhile (\<lambda>c. c \<noteq> v) (views st))"

text \<open>The stack without the tree of \<open>v\<close>.\<close>

definition others :: "compositor \<Rightarrow> nat \<Rightarrow> nat list" where
  "others st v = filter (\<lambda>c. c \<noteq> v \<and> \<not> descends (parent_of st) c v) (views st)"

lemma take_view_children_result:
  assumes "acyclic_parents st" "distinct (views st)"
  obtains st' where "take_view_children v st = Some ((tree_front st v, tree_back st v), st')"
    "views st' = filter (\<lambda>c. \<not> descends (parent_of st) c v) (views st)"
    "cview st' = cview st" "lock_active st' = lock_active st"
proof -
  have "filter (\<lambda>x. x \<notin> set (filter (\<lambda>c. descends (parent_of st) c v) (views st))) (views st) =
      filter (\<lambda>c. \<not> descends (parent_of st) c v) (views st)"
    by (rule filter_cong) auto
  then show thesis
    using that take_children_result [OF assms(1), of v "views st" True "[]" "[]"] assms(2)
    by (auto simp: take_view_children_def tree_front_def tree_back_def fold_remove1)
qed

lemma insert_list_before_split:
  "v \<notin> set hi \<Longrightarrow> insert_list_before v xs (hi @ v # lo) = hi @ xs @ v # lo"
  by (induction hi) auto

lemma insert_list_after_split:
  "v \<notin> set hi \<Longrightarrow> insert_list_after v xs (hi @ v # lo) = hi @ v # xs @ lo"
  by (induction hi) auto

text \<open>The tree of a view, put back around it.\<close>

lemma insert_lists_split:
  "v \<notin> set hi \<Longrightarrow> v \<notin> set ab \<Longrightarrow>
     insert_list_after v be (insert_list_before v ab (hi @ v # lo)) = hi @ ab @ v # be @ lo"
  using insert_list_after_split [of v "hi @ ab" be lo] by (simp add: insert_list_before_split)

lemma restore_places:
  "views st = hi @ v # lo \<Longrightarrow> v \<notin> set hi \<Longrightarrow> v \<notin> set ab \<Longrightarrow>
     views (restore_view_children v (ab, be) st) = hi @ ab @ v # be @ lo"
  by (simp add: insert_lists_split)

text \<open>A scan that stops at the first element with \<open>stop\<close>, skipping some, and inserts behind the last one passed.\<close>

definition point_of :: "nat option \<Rightarrow> nat list \<Rightarrow> nat option" where
  "point_of point hi = (if hi = [] then point else Some (last hi))"

lemma move_link_behind:
  assumes "remove1 v xs = hi @ lo" "distinct (hi @ lo)"
  shows "move_link (point_of None hi) v xs = hi @ v # lo"
proof (cases hi rule: rev_cases)
  case Nil
  then show ?thesis using assms by (simp add: move_link_def point_of_def)
next
  case (snoc ys y)
  have "insert_after y v (zs @ y # lo) = zs @ y # v # lo" if "y \<notin> set zs" for zs
    using that by (induction zs) auto
  then show ?thesis using assms snoc by (simp add: move_link_def point_of_def)
qed

definition below_point :: "(nat \<Rightarrow> nat) \<Rightarrow> nat \<Rightarrow> bool \<Rightarrow> nat \<Rightarrow> bool" where
  "below_point layer v up w \<longleftrightarrow> layer w < layer v \<or> up \<and> layer w = layer v"

lemma restack_point_of:
  "restack_point layer v up point xs =
     point_of point (takeWhile (\<lambda>w. \<not> below_point layer v up w) (filter (\<lambda>w. w \<noteq> v) xs))"
  by (induction xs arbitrary: point) (auto simp: point_of_def below_point_def)

lemma restack_places:
  assumes "distinct (views st)" "v \<in> set (views st)"
    and "rest = filter (\<lambda>w. w \<noteq> v) (views st)" and "P = (\<lambda>w. \<not> below_point (layer_of st) v up w)"
  shows "views (restack_view_for_layer v up st) = takeWhile P rest @ v # dropWhile P rest"
proof -
  have "remove1 v (views st) = rest"
    using assms(1,3) by (simp add: distinct_remove1_removeAll removeAll_filter_not_eq)
      (metis filter_cong)
  then have "remove1 v (views st) = takeWhile P rest @ dropWhile P rest" by simp
  moreover have "distinct (takeWhile P rest @ dropWhile P rest)" using assms by simp
  ultimately show ?thesis
    using assms(3,4) by (simp add: restack_view_for_layer_def restack_point_of move_link_behind)
qed

text \<open>
  \<open>compositor_view_set_stack_layer\<close> puts the view with its children, in their order, behind the
  views the scan passes.
\<close>

lemma set_stack_layer_places:
  assumes "acyclic_parents st" "distinct (views st)" "v \<in> set (views st)"
    and "layer_of st v \<noteq> l \<or> up"
    and "P = (\<lambda>w. l < layer_of st w \<or> \<not> up \<and> layer_of st w = l)"
  obtains st' where "compositor_view_set_stack_layer v l up st = Some st'"
    "views st' = takeWhile P (others st v) @ tree_front st v @ v # tree_back st v @
       dropWhile P (others st v)"
    "\<And>w. layer_of st' w = (if w = v \<or> w \<in> set (tree_front st v) \<or> w \<in> set (tree_back st v) then l
       else layer_of st w)"
proof -
  obtain s where s: "take_view_children v st = Some ((tree_front st v, tree_back st v), s)"
    "views s = filter (\<lambda>c. \<not> descends (parent_of st) c v) (views st)" "cview s = cview st"
    by (rule take_view_children_result [OF assms(1,2)])
  have iv: "v \<notin> set (tree_front st v)" "v \<notin> set (tree_back st v)"
    using descends_irrefl [OF assms(1), of v] by (auto simp: tree_front_def tree_back_def)
  define s1 where "s1 = update_view v (\<lambda>w. w\<lparr>v_layer := l\<rparr>) (draw [Damage_view v] s)"
  define rest where "rest = filter (\<lambda>w. w \<noteq> v) (views s1)"
  have o: "rest = others st v"
    by (simp add: rest_def s1_def s others_def conj_commute cong: conj_cong)
  have l1: "layer_of s1 v = l" "w \<noteq> v \<Longrightarrow> layer_of s1 w = layer_of st w" for w
    by (simp_all add: s1_def s)
  define Q where "Q = (\<lambda>w. \<not> below_point (layer_of s1) v up w)"
  have "distinct (views s1)" "v \<in> set (views s1)"
    using assms(2,3) descends_irrefl [OF assms(1), of v] by (simp_all add: s1_def s)
  then have "views (restack_view_for_layer v up s1) = takeWhile Q rest @ v # dropWhile Q rest"
    by (rule restack_places [OF _ _ rest_def Q_def])
  moreover have "takeWhile Q rest = takeWhile P rest" "dropWhile Q rest = dropWhile P rest"
    by (rule takeWhile_cong dropWhile_cong; force simp: Q_def assms(5) below_point_def l1 rest_def)+
  ultimately have r: "views (restack_view_for_layer v up s1) = takeWhile P rest @ v # dropWhile P rest"
    by simp
  define s2 where "s2 = restore_view_children v (tree_front st v, tree_back st v)
    (restack_view_for_layer v up s1)"
  define st' where "st' = draw [Damage_view v, Schedule (v_screens (cview s2 v))] s2"
  show thesis
  proof
    show "compositor_view_set_stack_layer v l up st = Some st'"
      using assms(4) by (auto simp: compositor_view_set_stack_layer_def s Let_def st'_def s2_def s1_def)
    have "v \<notin> set (takeWhile P rest)" by (auto simp: rest_def dest: set_takeWhileD)
    then show "views st' = takeWhile P (others st v) @ tree_front st v @ v # tree_back st v @
       dropWhile P (others st v)"
      using restore_places [OF r _ iv(1), of "tree_back st v"] o by (simp add: st'_def s2_def)
    have f: "layer_of (foldl (follow v) t cs) w = (if w \<in> set cs then layer_of t v else layer_of t w)"
      if "v \<notin> set cs" for cs t w
      using that by (induction cs arbitrary: t) (auto simp: follow_def)
    show "layer_of st' w = (if w = v \<or> w \<in> set (tree_front st v) \<or> w \<in> set (tree_back st v) then l
       else layer_of st w)" for w
      using l1 iv by (auto simp: st'_def s2_def restore_view_children_def f restack_view_for_layer_def)
  qed
qed

lemma mset_tree:
  assumes "distinct xs" "v \<in> set xs" "\<not> D v" "hi @ lo = filter (\<lambda>c. c \<noteq> v \<and> \<not> D c) xs"
    and "ab @ be = filter D xs"
  shows "mset (hi @ ab @ v # be @ lo) = mset xs"
proof -
  have h: "mset hi + mset lo = filter_mset (\<lambda>c. c \<noteq> v \<and> \<not> D c) (mset xs)"
    using arg_cong [OF assms(4), of mset] by simp
  have a: "mset ab + mset be = filter_mset D (mset xs)"
    using arg_cong [OF assms(5), of mset] by simp
  have x: "mset xs = add_mset v (filter_mset D (mset xs) + filter_mset (\<lambda>c. c \<noteq> v \<and> \<not> D c) (mset xs))"
    using assms(1-3) by (intro multiset_eqI) (auto simp: distinct_count_atmost_1)
  have "mset (hi @ ab @ v # be @ lo) = add_mset v ((mset ab + mset be) + (mset hi + mset lo))"
    by (simp add: union_ac)
  also have "\<dots> = mset xs" unfolding a h by (rule x [symmetric])
  finally show ?thesis .
qed

lemma mset_tree_of:
  assumes "acyclic_parents st" "distinct (views st)" "v \<in> set (views st)" "hi @ lo = others st v"
  shows "mset (hi @ tree_front st v @ v # tree_back st v @ lo) = mset (views st)"
  using assms(4) unfolding others_def
  by (intro mset_tree [OF assms(2,3), of "\<lambda>c. descends (parent_of st) c v"])
    (simp_all add: descends_irrefl [OF assms(1)] tree_front_def tree_back_def flip: filter_append)

text \<open>The views of each layer together, higher layers in front.\<close>

definition layers_sorted :: "compositor \<Rightarrow> bool" where
  "layers_sorted st \<longleftrightarrow> sorted_wrt (\<lambda>a b. layer_of st b \<le> layer_of st a) (views st)"

lemma sorted_wrt_split:
  assumes "sorted_wrt R xs" "\<And>a b. R a b \<Longrightarrow> P b \<Longrightarrow> P a" "w \<in> set (dropWhile P xs)"
  shows "\<not> P w"
  using assms(1,3)
proof (induction xs)
  case (Cons x xs)
  then show ?case using assms(2) by (auto split: if_splits dest: set_dropWhileD)
qed simp

lemma sorted_block:
  fixes f :: "'a \<Rightarrow> nat"
  assumes "sorted_wrt (\<lambda>a b. f b \<le> f a) (hi @ lo)" "\<And>w. w \<in> set mid \<Longrightarrow> f w = l"
    and "\<And>w. w \<in> set hi \<Longrightarrow> l \<le> f w" "\<And>w. w \<in> set lo \<Longrightarrow> f w \<le> l"
  shows "sorted_wrt (\<lambda>a b. f b \<le> f a) (hi @ mid @ lo)"
proof -
  have "sorted_wrt (\<lambda>a b. f b \<le> f a) mid" using assms(2) by (induction mid) auto
  then show ?thesis using assms by (fastforce simp: sorted_wrt_append)
qed

section \<open>Raising\<close>

definition raise_stop :: "compositor \<Rightarrow> nat \<Rightarrow> nat \<Rightarrow> bool" where
  "raise_stop st v w \<longleftrightarrow> v_visible (cview st w) \<and>
     (layer_of st w < layer_of st v \<or>
      layer_of st w = layer_of st v \<and> \<not> v_always_top (cview st w) \<and> v_window (cview st w))"

text \<open>The point is behind the last visible view of the scanned prefix.\<close>

lemma raise_point_of:
  "\<exists>hi lo. filter (\<lambda>w. w \<noteq> v) xs = hi @ lo \<and> raise_point st v point xs = point_of point hi \<and>
     (\<forall>w \<in> set hi. \<not> raise_stop st v w) \<and>
     (\<forall>w ws. filter (\<lambda>w. v_visible (cview st w)) lo = w # ws \<longrightarrow> raise_stop st v w)"
proof (induction xs arbitrary: point)
  case (Cons x xs)
  show ?case
  proof (cases "x = v")
    case False
    show ?thesis
    proof (cases "raise_stop st v x")
      case True
      then have "raise_point st v point (x # xs) = point" "v_visible (cview st x)"
        using False by (auto simp: raise_stop_def)
      then show ?thesis
        using False True by (intro exI [of _ "[]"] exI [of _ "x # filter (\<lambda>w. w \<noteq> v) xs"])
          (auto simp: point_of_def)
    next
      case stop: False
      show ?thesis
      proof (cases "v_visible (cview st x)")
        case True
        then have r: "raise_point st v point (x # xs) = raise_point st v (Some x) xs"
          using False stop by (auto simp: raise_stop_def)
        obtain hi lo where h: "filter (\<lambda>w. w \<noteq> v) xs = hi @ lo"
          "raise_point st v (Some x) xs = point_of (Some x) hi" "\<forall>w \<in> set hi. \<not> raise_stop st v w"
          "\<forall>w ws. filter (\<lambda>w. v_visible (cview st w)) lo = w # ws \<longrightarrow> raise_stop st v w"
          using Cons.IH by blast
        then show ?thesis
          unfolding r using False stop
          by (intro exI [of _ "x # hi"] exI [of _ lo]) (simp add: point_of_def)
      next
        case inv: False
        then have r: "raise_point st v point (x # xs) = raise_point st v point xs" by simp
        obtain hi lo where h: "filter (\<lambda>w. w \<noteq> v) xs = hi @ lo"
          "raise_point st v point xs = point_of point hi" "\<forall>w \<in> set hi. \<not> raise_stop st v w"
          "\<forall>w ws. filter (\<lambda>w. v_visible (cview st w)) lo = w # ws \<longrightarrow> raise_stop st v w"
          using Cons.IH by blast
        show ?thesis
        proof (cases hi)
          case Nil
          then show ?thesis using r h False inv
            by (intro exI [of _ "[]"] exI [of _ "x # lo"]) (auto simp: point_of_def)
        next
          case (Cons y ys)
          then show ?thesis using r h False inv stop
            by (intro exI [of _ "x # hi"] exI [of _ lo]) (auto simp: point_of_def)
        qed
      qed
    qed
  qed (use Cons.IH in simp)
qed (simp add: point_of_def)

lemma raise_window_places:
  assumes "acyclic_parents st" "distinct (views st)" "v \<in> set (views st)"
    and "v_window (cview st v)" "v_visible (cview st v)"
  obtains hi lo st' where "raise_window (Some v) st = Some st'" "others st v = hi @ lo"
    "views st' = hi @ tree_front st v @ v # tree_back st v @ lo"
    "\<forall>w \<in> set hi. \<not> raise_stop st v w"
    "\<forall>w ws. filter (\<lambda>w. v_visible (cview st w)) lo = w # ws \<longrightarrow> raise_stop st v w"
proof -
  obtain s where s: "take_view_children v st = Some ((tree_front st v, tree_back st v), s)"
    "views s = filter (\<lambda>c. \<not> descends (parent_of st) c v) (views st)" "cview s = cview st"
    by (rule take_view_children_result [OF assms(1,2)])
  have iv: "v \<notin> set (tree_front st v)"
    using descends_irrefl [OF assms(1), of v] by (auto simp: tree_front_def)
  have st: "raise_stop s v = raise_stop st v" by (simp add: raise_stop_def fun_eq_iff s)
  have o: "filter (\<lambda>w. w \<noteq> v) (views s) = others st v"
    by (simp add: s others_def conj_commute cong: conj_cong)
  obtain hi lo where h: "others st v = hi @ lo" "raise_point s v None (views s) = point_of None hi"
    "\<forall>w \<in> set hi. \<not> raise_stop st v w"
    "\<forall>w ws. filter (\<lambda>w. v_visible (cview st w)) lo = w # ws \<longrightarrow> raise_stop st v w"
    using raise_point_of [of v "views s" s None] unfolding o st s(3) by blast
  have "distinct (views s)" using assms(2) s by simp
  then have "remove1 v (views s) = filter (\<lambda>w. w \<noteq> v) (views s)"
    by (simp add: distinct_remove1_removeAll removeAll_filter_not_eq) (rule filter_cong; auto)
  then have rm: "remove1 v (views s) = hi @ lo" unfolding o h(1) .
  have "distinct (others st v)" "v \<notin> set (others st v)"
    using assms(2) by (simp_all add: others_def)
  then have d: "distinct (hi @ lo)" "v \<notin> set hi" by (simp_all add: h(1))
  define s2 where "s2 = restore_view_children v (tree_front st v, tree_back st v)
    (s\<lparr>views := move_link (point_of None hi) v (views s)\<rparr>)"
  show thesis
  proof
    have "window_view st (Some v) = Some (Some v)"
      using assms(4) by (simp add: window_view_def window_loop.simps)
    then show "raise_window (Some v) st =
        Some (draw [Borders_damaged v, Schedule (v_screens (cview s v))] s2)"
      using assms(5) s h(2) by (simp add: raise_window_def Let_def s2_def)
    show "views (draw [Borders_damaged v, Schedule (v_screens (cview s v))] s2) =
        hi @ tree_front st v @ v # tree_back st v @ lo"
      using move_link_behind [OF rm d(1)] d(2) iv by (simp add: s2_def insert_lists_split)
  qed (use h in auto)
qed

section \<open>Properties\<close>

definition stack_ok :: "compositor \<Rightarrow> bool" where
  "stack_ok st \<longleftrightarrow> acyclic_parents st \<and> distinct (views st)"

text \<open>C35: Putting a view in a layer returns when the parents have no cycle, loses no view, and keeps the
  stack ordered by layer, with the view and its children, in their order, in the new layer; and a
  raised view comes in front of everything else in that layer.\<close>

theorem set_stack_layer_ordered:
  assumes "stack_ok st" and "v \<in> set (views st)" and "layers_sorted st"
    and "layer_of st v \<noteq> l \<or> up"
  shows "\<exists>st' hi lo. compositor_view_set_stack_layer v l up st = Some st' \<and> layers_sorted st' \<and>
    mset (views st') = mset (views st) \<and>
    views st' = hi @ tree_front st v @ v # tree_back st v @ lo \<and>
    (\<forall>w \<in> set (tree_front st v @ v # tree_back st v). layer_of st' w = l) \<and>
    (up \<longrightarrow> (\<forall>w \<in> set hi. l < layer_of st' w))"
proof -
  have ok: "acyclic_parents st" "distinct (views st)" using assms(1) by (simp_all add: stack_ok_def)
  define P where "P = (\<lambda>w. l < layer_of st w \<or> \<not> up \<and> layer_of st w = l)"
  obtain st' where st': "compositor_view_set_stack_layer v l up st = Some st'"
    "views st' = takeWhile P (others st v) @ tree_front st v @ v # tree_back st v @
       dropWhile P (others st v)"
    "\<And>w. layer_of st' w = (if w = v \<or> w \<in> set (tree_front st v) \<or> w \<in> set (tree_back st v) then l
       else layer_of st w)"
    by (rule set_stack_layer_places [OF ok assms(2,4) P_def]) (rule that, assumption+)
  have o: "w \<in> set (others st v) \<Longrightarrow> layer_of st' w = layer_of st w" for w
    using st'(3) by (auto simp: others_def tree_front_def tree_back_def)
  have t: "w \<in> set (tree_front st v @ v # tree_back st v) \<Longrightarrow> layer_of st' w = l" for w
    using st'(3) by auto
  have sorted: "sorted_wrt (\<lambda>a b. layer_of st b \<le> layer_of st a) (others st v)"
    using assms(3) unfolding layers_sorted_def others_def by (rule sorted_wrt_filter)
  have mono: "\<And>a b. layer_of st b \<le> layer_of st a \<Longrightarrow> P b \<Longrightarrow> P a" by (auto simp: P_def)
  have hi: "P w \<and> w \<in> set (others st v)" if "w \<in> set (takeWhile P (others st v))" for w
    using that by (auto dest: set_takeWhileD)
  have lo: "\<not> P w \<and> w \<in> set (others st v)" if "w \<in> set (dropWhile P (others st v))" for w
  proof
    show "\<not> P w" by (rule sorted_wrt_split [OF sorted _ that]) (rule mono)
    show "w \<in> set (others st v)" by (rule set_dropWhileD [OF that])
  qed
  have "sorted_wrt (\<lambda>a b. layer_of st b \<le> layer_of st a)
      (takeWhile P (others st v) @ dropWhile P (others st v))" using sorted by simp
  then have two: "sorted_wrt (\<lambda>a b. layer_of st' b \<le> layer_of st' a)
      (takeWhile P (others st v) @ dropWhile P (others st v))"
  proof (rule sorted_wrt_mono_rel [rotated])
    fix a b assume "a \<in> set (takeWhile P (others st v) @ dropWhile P (others st v))"
      "b \<in> set (takeWhile P (others st v) @ dropWhile P (others st v))" "layer_of st b \<le> layer_of st a"
    then show "layer_of st' b \<le> layer_of st' a" by (simp add: o)
  qed
  have "sorted_wrt (\<lambda>a b. layer_of st' b \<le> layer_of st' a)
      (takeWhile P (others st v) @ (tree_front st v @ v # tree_back st v) @ dropWhile P (others st v))"
  proof (rule sorted_block [OF two t])
    show "l \<le> layer_of st' w" if "w \<in> set (takeWhile P (others st v))" for w
      using hi [OF that] o by (auto simp: P_def)
    show "layer_of st' w \<le> l" if "w \<in> set (dropWhile P (others st v))" for w
      using lo [OF that] o by (auto simp: P_def)
  qed
  then have "layers_sorted st'" by (simp add: layers_sorted_def st'(2))
  moreover have "mset (views st') = mset (views st)"
    unfolding st'(2) by (rule mset_tree_of [OF ok assms(2)]) simp
  moreover have "up \<longrightarrow> (\<forall>w \<in> set (takeWhile P (others st v)). l < layer_of st' w)"
    using hi o by (auto simp: P_def)
  ultimately show ?thesis
    by (intro exI [of _ st'] exI [of _ "takeWhile P (others st v)"]
        exI [of _ "dropWhile P (others st v)"] conjI ballI st'(1,2) t)
qed

text \<open>Raising a visible window returns when the parents have no cycle, loses no view, moves the
  window with its children, and puts it in front of every visible window of its layer that is
  not always on top; nothing of a higher layer is passed when the visible views are ordered.\<close>

theorem raised_window_in_front:
  assumes "stack_ok st" and "v \<in> set (views st)" and "v_window (cview st v)"
    and "v_visible (cview st v)"
    and "sorted_wrt (\<lambda>a b. layer_of st b \<le> layer_of st a) (filter (\<lambda>w. v_visible (cview st w)) (views st))"
  shows "\<exists>st' hi lo. raise_window (Some v) st = Some st' \<and> mset (views st') = mset (views st) \<and>
    views st' = hi @ tree_front st v @ v # tree_back st v @ lo \<and>
    (\<forall>w \<in> set hi. v_visible (cview st w) \<and> v_window (cview st w) \<longrightarrow>
       layer_of st v < layer_of st w \<or> layer_of st w = layer_of st v \<and> v_always_top (cview st w)) \<and>
    (\<forall>w \<in> set lo. v_visible (cview st w) \<longrightarrow> layer_of st w \<le> layer_of st v)"
proof -
  have ok: "acyclic_parents st" "distinct (views st)" using assms(1) by (simp_all add: stack_ok_def)
  obtain hi lo st' where r: "raise_window (Some v) st = Some st'" "others st v = hi @ lo"
    "views st' = hi @ tree_front st v @ v # tree_back st v @ lo"
    "\<forall>w \<in> set hi. \<not> raise_stop st v w"
    "\<forall>w ws. filter (\<lambda>w. v_visible (cview st w)) lo = w # ws \<longrightarrow> raise_stop st v w"
    by (rule raise_window_places [OF ok assms(2-4)]) (rule that, assumption+)
  have "mset (views st') = mset (views st)"
    unfolding r(3) by (rule mset_tree_of [OF ok assms(2) r(2) [symmetric]])
  moreover have "layer_of st w \<le> layer_of st v" if "w \<in> set lo" "v_visible (cview st w)" for w
  proof -
    have e: "filter (\<lambda>w. v_visible (cview st w)) (others st v) =
        filter (\<lambda>c. c \<noteq> v \<and> \<not> descends (parent_of st) c v) (filter (\<lambda>w. v_visible (cview st w)) (views st))"
      unfolding others_def filter_filter by (rule filter_cong) auto
    have "sorted_wrt (\<lambda>a b. layer_of st b \<le> layer_of st a) (filter (\<lambda>w. v_visible (cview st w)) (others st v))"
      unfolding e by (rule sorted_wrt_filter [OF assms(5)])
    then have s: "sorted_wrt (\<lambda>a b. layer_of st b \<le> layer_of st a) (filter (\<lambda>w. v_visible (cview st w)) lo)"
      by (simp add: r(2) sorted_wrt_append)
    have w: "w \<in> set (filter (\<lambda>w. v_visible (cview st w)) lo)" using that by simp
    then obtain x xs where x: "filter (\<lambda>w. v_visible (cview st w)) lo = x # xs"
      by (cases "filter (\<lambda>w. v_visible (cview st w)) lo") simp_all
    have "layer_of st w \<le> layer_of st x" using s w unfolding x by auto
    also have "\<dots> \<le> layer_of st v" using r(5) x by (auto simp: raise_stop_def)
    finally show ?thesis .
  qed
  moreover have "layer_of st v < layer_of st w \<or> layer_of st w = layer_of st v \<and> v_always_top (cview st w)"
    if "w \<in> set hi" "v_visible (cview st w) \<and> v_window (cview st w)" for w
    using bspec [OF r(4) that(1)] that(2) by (auto simp: raise_stop_def)
  ultimately show ?thesis
    by (intro exI [of _ st'] exI [of _ hi] exI [of _ lo] conjI ballI impI r(1,3))
qed

text \<open>A new view is linked at the front of the stack whatever its layer.  Until it is raised, putting a
  view in any layer above the normal one stops at it at once, and so puts that view in front of
  the views of higher layers.\<close>

theorem new_view_misplaces:
  assumes "stack_ok st" and "n \<notin> set (views st)" and "\<forall>w. parent_of st w \<noteq> Some n"
    and "v \<in> set (views st)" and "STACK_NORMAL < l"
    and "h \<in> set (views st)" and "l < layer_of st h" and "h \<noteq> v \<and> \<not> descends (parent_of st) h v"
  shows "\<exists>st' xs ys. compositor_view_set_stack_layer v l True (compositor_create_view n st) = Some st' \<and>
    views st' = xs @ v # ys \<and> h \<in> set ys \<and> layer_of st' v = l \<and> l < layer_of st' h"
proof -
  define c where "c = compositor_create_view n st"
  have p: "parent_of c w = (if w = n then None else parent_of st w)" for w
    by (simp add: c_def compositor_create_view_def parent_of_def new_cview_def)
  have vw: "views c = n # views st" by (simp add: c_def compositor_create_view_def)
  have ne: "v \<noteq> n" "h \<noteq> n" using assms(2,4,6) by auto
  have l: "layer_of c n = STACK_NORMAL" "w \<noteq> n \<Longrightarrow> layer_of c w = layer_of st w" for w
    by (simp_all add: c_def compositor_create_view_def new_cview_def)
  have ok: "acyclic_parents c" "distinct (views c)"
    using assms(1,2) by (auto simp: stack_ok_def acyclic_parents_def p vw)
  have vc: "v \<in> set (views c)" using assms(4) by (simp add: vw)
  have sub: "{(a, b). parent_of c a = Some b} \<subseteq> {(a, b). parent_of st a = Some b}"
    by (auto simp: p split: if_splits)
  have d: "\<not> descends (parent_of c) h v" using assms(8) trancl_mono [OF _ sub] by (auto simp: descends_def)
  have dn: "\<not> descends (parent_of c) n v" by (subst descends_step) (simp add: p)
  have o: "others c v = n # filter (\<lambda>w. w \<noteq> v \<and> \<not> descends (parent_of c) w v) (views st)"
    using ne dn by (simp add: others_def vw)
  define P where "P = (\<lambda>w. l < layer_of c w \<or> \<not> True \<and> layer_of c w = l)"
  have Pn: "\<not> P n" using assms(5) l by (simp add: P_def)
  have lv: "layer_of c v \<noteq> l \<or> True" by simp
  obtain st' where st': "compositor_view_set_stack_layer v l True c = Some st'"
    "views st' = takeWhile P (others c v) @ tree_front c v @ v # tree_back c v @ dropWhile P (others c v)"
    "\<And>w. layer_of st' w = (if w = v \<or> w \<in> set (tree_front c v) \<or> w \<in> set (tree_back c v) then l
       else layer_of c w)"
    by (rule set_stack_layer_places [OF ok vc lv P_def]) (rule that, assumption+)
  have "views st' = tree_front c v @ v # (tree_back c v @ others c v)"
    using Pn by (simp add: st'(2) o)
  moreover have "h \<in> set (tree_back c v @ others c v)" using assms(6,8) d by (simp add: o)
  moreover have "layer_of st' v = l" "l < layer_of st' h"
    using st'(3) assms(7,8) d l ne by (auto simp: tree_front_def tree_back_def)
  ultimately show ?thesis using st'(1) unfolding c_def by blast
qed

text \<open>Nothing refuses a cycle of parents.  Once two visible windows are made each other's parents,
  raising any other visible window, or putting any other view in another layer, never returns.\<close>

theorem parent_cycle_hangs:
  assumes "a \<noteq> b" and "v_visible (cview st a) \<and> v_visible (cview st b)"
    and "a \<in> set (views st)" and "w \<noteq> a \<and> w \<noteq> b" and "v_window (cview st w) \<and> v_visible (cview st w)"
  shows "\<exists>st1 st2. compositor_view_set_parent a (Some b) st = Some st1 \<and>
    compositor_view_set_parent b (Some a) st1 = Some st2 \<and>
    raise_window (Some w) st2 = None \<and>
    (\<forall>l. compositor_view_set_stack_layer w l True st2 = None)"
proof -
  define st1 where "st1 = follow b (update_view a (\<lambda>x. x\<lparr>v_parent := Some b\<rparr>) st) a"
  define st2 where "st2 = follow a (update_view b (\<lambda>x. x\<lparr>v_parent := Some a\<rparr>) st1) b"
  have vis: "v_visible (cview st1 x) = v_visible (cview st x)" "v_visible (cview st2 x) = v_visible (cview st x)"
    "v_window (cview st2 x) = v_window (cview st x)" for x
    by (simp_all add: st1_def st2_def)
  have vw: "views st2 = views st" by (simp add: st1_def st2_def)
  have "compositor_view_show a st1 = Some st1" "compositor_view_show b st2 = Some st2"
    using assms(2) vis by (simp_all add: compositor_view_show_def show_work.simps(2) showable_def)
  then have s: "compositor_view_set_parent a (Some b) st = Some st1"
    "compositor_view_set_parent b (Some a) st1 = Some st2"
    using assms(1,2) vis
    by (simp_all add: compositor_view_set_parent_def Let_def flip: st1_def st2_def)
  have par: "parent_of st2 a = Some b" "parent_of st2 b = Some a"
    using assms(1) by (simp_all add: st1_def st2_def parent_of_set)
  have none: "take_children w cs front (ab, be) s = None"
    if "a \<in> set cs" "parent_of s = parent_of st2" for cs front ab be s
    using that
  proof (induction cs arbitrary: front ab be s)
    case (Cons c cs)
    show ?case
    proof (cases "c = a")
      case True
      have "view_descends_from s a w = None"
        using descends_loop_cycle [OF par, of w] assms(4) Cons.prems(2) par(1)
        by (simp add: view_descends_from_def)
      then show ?thesis using True by simp
    next
      case False
      then show ?thesis using Cons by (auto simp: Let_def split: option.splits)
    qed
  qed simp
  then have t: "take_view_children w st2 = None"
    using assms(3) by (simp add: take_view_children_def vw)
  moreover have "window_view st2 (Some w) = Some (Some w)"
    using assms(5) by (simp add: window_view_def window_loop.simps vis)
  ultimately have "raise_window (Some w) st2 = None" "compositor_view_set_stack_layer w l True st2 = None" for l
    using assms(5) by (simp_all add: raise_window_def vis compositor_view_set_stack_layer_def)
  then show ?thesis using s by blast
qed

section \<open>An example\<close>

text \<open>
  A panel (view 1, in the overlay layer), a window (2) with a popup (3) in front of it and a
  subsurface (4) behind it, and two other windows (5 and 7).
\<close>

definition sample_view :: "nat \<Rightarrow> cview" where
  "sample_view v = new_cview\<lparr>v_parent := (if v = 3 \<or> v = 4 then Some 2 else None),
     v_window := (v = 2 \<or> v = 5 \<or> v = 7), v_layer := (if v = 1 then STACK_OVERLAY else STACK_NORMAL),
     v_visible := True, v_buffer := True, v_subsurface := (if v = 4 then Some True else None)\<rparr>"

definition sample_stack :: compositor where
  "sample_stack = \<lparr>views = [1, 7, 5, 3, 2, 4], cview = sample_view, lock_active = False,
     pointer_view = None, drawn = []\<rparr>"

lemma sample_acyclic: "acyclic_parents sample_stack"
  unfolding acyclic_parents_def
  by (rule exI [of _ "\<lambda>v. if v = 2 then 0 else 1"])
    (simp add: parent_of_def sample_stack_def sample_view_def new_cview_def)

lemma sample_ok: "stack_ok sample_stack"
  using sample_acyclic by (simp add: stack_ok_def) (simp add: sample_stack_def)

lemma sample_fields:
  "views sample_stack = [1, 7, 5, 3, 2, 4]" "cview sample_stack = sample_view"
  "lock_active sample_stack = False" "parent_of sample_stack v = v_parent (sample_view v)"
  by (simp_all add: sample_stack_def parent_of_def)

theorem set_stack_layer_ordered_witness:
  "\<exists>st' hi lo. compositor_view_set_stack_layer 2 3 True sample_stack = Some st' \<and> layers_sorted st' \<and>
    mset (views st') = mset (views sample_stack) \<and>
    views st' = hi @ tree_front sample_stack 2 @ 2 # tree_back sample_stack 2 @ lo \<and>
    (\<forall>w \<in> set (tree_front sample_stack 2 @ 2 # tree_back sample_stack 2). layer_of st' w = 3) \<and>
    (True \<longrightarrow> (\<forall>w \<in> set hi. 3 < layer_of st' w))"
  by (rule set_stack_layer_ordered [OF sample_ok])
    (simp_all add: sample_fields layers_sorted_def sample_view_def STACK_OVERLAY_def STACK_NORMAL_def)

theorem raised_window_in_front_witness:
  "\<exists>st' hi lo. raise_window (Some 2) sample_stack = Some st' \<and> mset (views st') = mset (views sample_stack) \<and>
    views st' = hi @ tree_front sample_stack 2 @ 2 # tree_back sample_stack 2 @ lo \<and>
    (\<forall>w \<in> set hi. v_visible (cview sample_stack w) \<and> v_window (cview sample_stack w) \<longrightarrow>
       layer_of sample_stack 2 < layer_of sample_stack w \<or>
       layer_of sample_stack w = layer_of sample_stack 2 \<and> v_always_top (cview sample_stack w)) \<and>
    (\<forall>w \<in> set lo. v_visible (cview sample_stack w) \<longrightarrow> layer_of sample_stack w \<le> layer_of sample_stack 2)"
  by (rule raised_window_in_front [OF sample_ok])
    (simp_all add: sample_fields sample_view_def STACK_OVERLAY_def STACK_NORMAL_def)

theorem new_view_misplaces_witness:
  "\<exists>st' xs ys. compositor_view_set_stack_layer 5 3 True (compositor_create_view 6 sample_stack) = Some st' \<and>
    views st' = xs @ 5 # ys \<and> 1 \<in> set ys \<and> layer_of st' 5 = 3 \<and> 3 < layer_of st' 1"
proof (rule new_view_misplaces [OF sample_ok])
  show "1 \<noteq> (5 :: nat) \<and> \<not> descends (parent_of sample_stack) 1 5"
    by (subst descends_step) (simp add: sample_fields sample_view_def new_cview_def)
qed (simp_all add: sample_fields sample_view_def new_cview_def STACK_OVERLAY_def STACK_NORMAL_def)

theorem parent_cycle_hangs_witness:
  "\<exists>st1 st2. compositor_view_set_parent 2 (Some 5) sample_stack = Some st1 \<and>
    compositor_view_set_parent 5 (Some 2) st1 = Some st2 \<and>
    raise_window (Some 7) st2 = None \<and> (\<forall>l. compositor_view_set_stack_layer 7 l True st2 = None)"
  by (rule parent_cycle_hangs) (simp_all add: sample_fields sample_view_def new_cview_def)

end
