(* ===== verification/View_Visibility.thy ===== *)
theory View_Visibility
  imports View_Stack
begin

text \<open>
  What a session lock does to the views (\<open>compositor_hide_for_lock\<close>,
  \<open>compositor_restore_after_lock\<close> and the guard of \<open>view_show\<close> in \<open>libswc/compositor.c\<close>): nothing
  below the lock layer is shown while it lasts, and what comes back when it ends.
\<close>

section \<open>Hiding\<close>

definition can_show :: "compositor \<Rightarrow> nat \<Rightarrow> bool" where
  "can_show st v \<longleftrightarrow> (case v_subsurface (cview st v) of None \<Rightarrow> True
     | Some added \<Rightarrow> added \<and> v_buffer (cview st v))"

lemma can_show_basic [simp]:
  "can_show (forget_lock v st) = can_show st" "can_show (mark_hidden v st) = can_show st"
  "can_show (defer_show v st) = can_show st" "can_show (st\<lparr>lock_active := b\<rparr>) = can_show st"
  by (auto simp: can_show_def fun_eq_iff forget_lock_def mark_hidden_def defer_show_def Let_def
      split: option.splits)

lemma hide_frame [simp]:
  "can_show (hide_work vs st) = can_show st"
  "views (hide_work vs st) = views st" "parent_of (hide_work vs st) = parent_of st"
  "layer_of (hide_work vs st) w = layer_of st w" "lock_active (hide_work vs st) = lock_active st"
  by (induction vs st rule: hide_work.induct) (simp_all add: hide_work.simps(2))

lemma hide_shrinks:
  "v_visible (cview (hide_work vs st) w) \<Longrightarrow> v_visible (cview st w)"
  "v_hidden_by_lock (cview (hide_work vs st) w) \<Longrightarrow> v_hidden_by_lock (cview st w)"
  by (induction vs st rule: hide_work.induct) (auto simp: hide_work.simps(2) split: if_splits)

lemma hide_cause:
  "v_visible (cview st w) \<Longrightarrow> \<not> v_visible (cview (hide_work vs st) w) \<Longrightarrow>
     w \<in> set vs \<or> (\<exists>p. parent_of st w = Some p \<and> v_visible (cview st p))"
proof (induction vs st rule: hide_work.induct)
  case (2 v vs st)
  show ?case
  proof (cases "hides v st")
    case True
    show ?thesis
      using "2.IH"(1) [OF True] "2.prems" True
      by (cases "w = v") (auto simp: hide_work.simps(2) children_of_def hides_def split: if_splits)
  next
    case False
    then show ?thesis using "2.IH"(2) "2.prems" by (auto simp: hide_work.simps(2))
  qed
qed simp

lemma forget_cause:
  "v_hidden_by_lock (cview st w) \<Longrightarrow> \<not> v_hidden_by_lock (cview (hide_work vs st) w) \<Longrightarrow>
     w \<in> set vs \<or> (\<exists>p. parent_of st w = Some p \<and> v_visible (cview st p))"
proof (induction vs st rule: hide_work.induct)
  case (2 v vs st)
  show ?case
  proof (cases "hides v st")
    case True
    show ?thesis
      using "2.IH"(1) [OF True] "2.prems" True
      by (cases "w = v") (auto simp: hide_work.simps(2) children_of_def hides_def split: if_splits)
  next
    case False
    then show ?thesis using "2.IH"(2) "2.prems"
      by (cases "w = v") (auto simp: hide_work.simps(2) split: if_splits)
  qed
qed simp

lemma hide_hides:
  "w \<in> set vs \<Longrightarrow> w \<in> set (views st) \<Longrightarrow> \<not> v_visible (cview (hide_work vs st) w)"
proof (induction vs st rule: hide_work.induct)
  case (2 v vs st)
  show ?case
  proof (cases "w = v")
    case True
    have "\<not> v_visible (cview (hide_work us s) v)" if "\<not> v_visible (cview s v)" for us s
      using that hide_shrinks(1) by blast
    then show ?thesis using True "2.prems" by (auto simp: hide_work.simps(2) hides_def)
  next
    case False
    then show ?thesis using 2 by (auto simp: hide_work.simps(2))
  qed
qed simp

text \<open>What the pass over all views has achieved when \<open>vs\<close> are left to visit.\<close>

definition hiding :: "compositor \<Rightarrow> nat list \<Rightarrow> compositor \<Rightarrow> bool" where
  "hiding st0 vs st \<longleftrightarrow> views st = views st0 \<and> parent_of st = parent_of st0 \<and>
     lock_active st = lock_active st0 \<and> can_show st = can_show st0 \<and> (\<forall>w. layer_of st w = layer_of st0 w) \<and>
     (\<forall>w. v_visible (cview st w) \<longrightarrow> v_visible (cview st0 w) \<and> w \<in> set vs) \<and>
     (\<forall>w. v_hidden_by_lock (cview st w) \<longrightarrow> v_visible (cview st0 w)) \<and>
     (\<forall>w. v_visible (cview st0 w) \<longrightarrow> v_visible (cview st w) \<or> v_hidden_by_lock (cview st w) \<or>
        (\<exists>p. parent_of st0 w = Some p \<and> v_visible (cview st0 p)))"

lemma hiding_step:
  assumes "hiding st0 (v # vs) st" "v \<in> set (views st0)" "layer_of st0 v \<noteq> STACK_LOCK"
  shows "hiding st0 vs (hide_for_lock v st)"
proof (cases "v_visible (cview st v)")
  case False
  then show ?thesis using assms(1) by (auto simp: hiding_def hide_for_lock_def)
next
  case True
  define h where "h = hide_work [v] st"
  have r: "hide_for_lock v st = defer_show v h"
    using True assms(1,3) by (simp add: hide_for_lock_def hiding_def h_def compositor_view_hide_def)
  have nv: "\<not> v_visible (cview h v)" using hide_hides [of v "[v]" st] assms(1,2) by (simp add: h_def hiding_def)
  have lf: "v_layer (cview (defer_show v h) w) = layer_of h w"
    "v_hidden_by_lock (cview (defer_show v h) w) \<longleftrightarrow> w = v \<or> v_hidden_by_lock (cview h w)" for w
    by (auto simp: defer_show_def)
  have c: "v_visible (cview h w) \<or> v_hidden_by_lock (cview h w) \<or> w = v \<or>
      (\<exists>p. parent_of st0 w = Some p \<and> v_visible (cview st0 p))" if "v_visible (cview st0 w)" for w
  proof -
    have "v_visible (cview st w) \<or> v_hidden_by_lock (cview st w) \<or>
        (\<exists>p. parent_of st0 w = Some p \<and> v_visible (cview st0 p))"
      using assms(1) that by (simp add: hiding_def)
    moreover have "parent_of st = parent_of st0" "v_visible (cview st p) \<Longrightarrow> v_visible (cview st0 p)" for p
      using assms(1) by (auto simp: hiding_def)
    ultimately show ?thesis
      using hide_cause [of st w "[v]"] forget_cause [of st w "[v]"] unfolding h_def by auto
  qed
  have s: "v_visible (cview st0 w) \<and> w \<in> set vs" if "v_visible (cview h w)" for w
    using hide_shrinks(1) [of "[v]" st w] that nv assms(1) unfolding h_def [symmetric]
    by (auto simp: hiding_def)
  have f: "v_visible (cview st0 w)" if "v_hidden_by_lock (cview h w) \<or> w = v" for w
    using hide_shrinks(2) [of "[v]" st w] that True assms(1) unfolding h_def [symmetric]
    by (auto simp: hiding_def)
  show ?thesis
    unfolding r hiding_def
    using assms(1) s f c by (auto simp: lf) (auto simp: hiding_def h_def)
qed

lemma hidden_for_lock:
  assumes "\<And>w. v_visible (cview st w) \<Longrightarrow> w \<in> set (views st)"
    and "\<And>w. \<not> v_hidden_by_lock (cview st w)"
    and "\<And>w. w \<in> set (views st) \<Longrightarrow> layer_of st w \<noteq> STACK_LOCK"
  shows "hiding st [] (compositor_hide_for_lock st)"
proof -
  have "hiding st vs s \<Longrightarrow> set vs \<subseteq> set (views st) \<Longrightarrow> hiding st [] (fold hide_for_lock vs s)" for vs s
    by (induction vs arbitrary: s) (auto dest: hiding_step [OF _ _ assms(3)])
  moreover have "hiding st (views st) st" using assms(1,2) by (auto simp: hiding_def)
  ultimately show ?thesis by (simp add: compositor_hide_for_lock_def)
qed

section \<open>Showing in place\<close>

lemma showable_iff: "showable v st \<longleftrightarrow> \<not> v_visible (cview st v) \<and> v \<in> set (views st) \<and> can_show st v"
  by (simp add: showable_def can_show_def)

lemma mark_shown_in_place:
  obtains st' where "mark_shown False v st = Some st'" "views st' = views st"
    "parent_of st' = parent_of st" "lock_active st' = lock_active st" "can_show st' = can_show st"
    "\<And>w. v_visible (cview st' w) \<longleftrightarrow> w = v \<or> v_visible (cview st w)"
    "\<And>w. v_hidden_by_lock (cview st' w) = v_hidden_by_lock (cview st w)"
proof
  let ?s = "draw [Clear_clip v, Damage_view v, Update_view v] (draw [Idle_inhibit_update]
    (update_view v (\<lambda>w. w\<lparr>v_screens := v_covers w\<rparr>)
      (draw [Update_extents v] (update_view v (\<lambda>w. w\<lparr>v_visible := True\<rparr>) st))))"
  show "mark_shown False v st = Some ?s" by (simp add: mark_shown_def Let_def)
  show "can_show ?s = can_show st" by (simp add: can_show_def fun_eq_iff split: option.splits)
qed simp_all

text \<open>A child of a visible view is visible, or one of the items will show it.\<close>

definition pending_show :: "compositor \<Rightarrow> show_item list \<Rightarrow> nat \<Rightarrow> bool" where
  "pending_show st is w \<longleftrightarrow> Show w \<in> set is \<or>
     (\<exists>v c. Scan v c \<in> set is \<and> parent_of st w = Some v \<and> w \<in> set (list_next c (views st)))"

lemma pending_show_Cons [simp]:
  "pending_show st (Show v # is) w \<longleftrightarrow> w = v \<or> pending_show st is w"
  "pending_show st (Scan v c # is) w \<longleftrightarrow>
     parent_of st w = Some v \<and> w \<in> set (list_next c (views st)) \<or> pending_show st is w"
  by (auto simp: pending_show_def)

definition families_shown :: "compositor \<Rightarrow> show_item list \<Rightarrow> bool" where
  "families_shown st is \<longleftrightarrow>
     (\<forall>w p. w \<in> set (views st) \<and> parent_of st w = Some p \<and> v_visible (cview st p) \<longrightarrow>
        v_visible (cview st w) \<or> pending_show st is w)"

definition shown_by :: "compositor \<Rightarrow> show_item \<Rightarrow> nat \<Rightarrow> bool" where
  "shown_by st i w \<longleftrightarrow> (case i of Show v \<Rightarrow> w = v \<or> descends (parent_of st) w v
     | Scan v c \<Rightarrow> descends (parent_of st) w v)"

lemma shown_by_simps [simp]:
  "shown_by st (Show v) w \<longleftrightarrow> w = v \<or> descends (parent_of st) w v"
  "shown_by st (Scan v c) w \<longleftrightarrow> descends (parent_of st) w v"
  by (simp_all add: shown_by_def)

lemma shown_by_cong: "parent_of st' = parent_of st \<Longrightarrow> shown_by st' = shown_by st"
  by (intro ext) (simp add: shown_by_def split: show_item.split)

lemma behind_next: "distinct xs \<Longrightarrow> list_next c xs = w # ws \<Longrightarrow> list_next (Some w) xs = ws"
proof -
  have b: "distinct xs \<Longrightarrow> behind c xs = w # ws \<Longrightarrow> behind w xs = ws" for c
  proof (induction xs)
    case (Cons x xs)
    then show ?case using set_behind [of c xs] by (auto split: if_splits)
  qed simp
  show "distinct xs \<Longrightarrow> list_next c xs = w # ws \<Longrightarrow> ?thesis" using b by (cases c) auto
qed

lemma descends_via: "parent_of st w = Some v \<Longrightarrow> descends (parent_of st) x w \<or> x = w \<Longrightarrow>
    descends (parent_of st) x v"
  unfolding descends_def by (auto intro: trancl_into_trancl)

lemma show_in_place_result:
  assumes "\<not> lock_active st" "distinct (views st)" "\<And>w. w \<in> set (views st) \<Longrightarrow> can_show st w"
    and "families_shown st is"
  shows "\<exists>st'. show_work False is st = Some st' \<and> views st' = views st \<and>
    parent_of st' = parent_of st \<and> lock_active st' = lock_active st \<and> can_show st' = can_show st \<and>
    (\<forall>w. v_hidden_by_lock (cview st' w) = v_hidden_by_lock (cview st w)) \<and>
    families_shown st' [] \<and> (\<forall>w. v_visible (cview st w) \<longrightarrow> v_visible (cview st' w)) \<and>
    (\<forall>v. Show v \<in> set is \<and> v \<in> set (views st) \<longrightarrow> v_visible (cview st' v)) \<and>
    (\<forall>w. v_visible (cview st' w) \<longrightarrow> v_visible (cview st w) \<or> (\<exists>i \<in> set is. shown_by st i w))"
  using assms
proof (induction False "is" st rule: show_work.induct)
  case (1 st)
  then show ?case by simp
next
  case (2 v "is" st)
  show ?case
  proof (cases "showable v st")
    case False
    then have "families_shown st is"
      using 2(7,6) unfolding families_shown_def pending_show_def by (auto simp: showable_iff)
    then show ?thesis
      using 2(1) [OF False 2(4-6)] False 2(6) by (auto simp: show_work.simps(2) showable_iff)
  next
    case True
    obtain s where s: "mark_shown False v st = Some s" "views s = views st" "parent_of s = parent_of st"
      "lock_active s = lock_active st" "can_show s = can_show st"
      "\<And>w. v_visible (cview s w) \<longleftrightarrow> w = v \<or> v_visible (cview st w)"
      "\<And>w. v_hidden_by_lock (cview s w) = v_hidden_by_lock (cview st w)"
      by (rule mark_shown_in_place [of v st]) (rule that, assumption+)
    have d: "\<not> deferred v st" using 2(4) by (simp add: deferred_def)
    have "families_shown s (Scan v None # is)"
      using 2(7) unfolding families_shown_def pending_show_def s(2,3,6) by fastforce
    then obtain s' where "show_work False (Scan v None # is) s = Some s'" "views s' = views s \<and>
        parent_of s' = parent_of s \<and> lock_active s' = lock_active s \<and> can_show s' = can_show s \<and>
        (\<forall>w. v_hidden_by_lock (cview s' w) = v_hidden_by_lock (cview s w)) \<and>
        families_shown s' [] \<and> (\<forall>w. v_visible (cview s w) \<longrightarrow> v_visible (cview s' w)) \<and>
        (\<forall>v. Show v \<in> set is \<and> v \<in> set (views s) \<longrightarrow> v_visible (cview s' v)) \<and>
        (\<forall>w. v_visible (cview s' w) \<longrightarrow> v_visible (cview s w) \<or>
           (\<exists>i \<in> set (Scan v None # is). shown_by s i w))"
      using 2(3) [of s] True d s(1,2,4,5) 2(4-6) by auto
    then show ?thesis
      using True d s shown_by_cong [OF s(3)] by (auto simp: show_work.simps(2))
  qed
next
  case (3 v c "is" st)
  show ?case
  proof (cases "list_next c (views st)")
    case Nil
    then have "families_shown st is"
      using 3(7) unfolding families_shown_def pending_show_def by fastforce
    then show ?thesis using 3(1) [OF Nil 3(4-6)] Nil by (auto simp: show_work.simps(3))
  next
    case (Cons w ws)
    note n = behind_next [OF 3(5) Cons]
    show ?thesis
    proof (cases "parent_of st w = Some v")
      case True
      have "pending_show st (Show w # Scan v (Some w) # is) x" if "pending_show st (Scan v c # is) x" for x
        using that Cons n by auto
      then have "families_shown st (Show w # Scan v (Some w) # is)"
        using 3(7) unfolding families_shown_def by blast
      from 3(2) [OF Cons True 3(4-6) this] show ?thesis
        using True Cons descends_via [OF True] by (fastforce simp: show_work.simps(3))
    next
      case False
      have "pending_show st (Scan v (Some w) # is) x" if "pending_show st (Scan v c # is) x" for x
        using that Cons n False by auto
      then have "families_shown st (Scan v (Some w) # is)"
        using 3(7) unfolding families_shown_def by blast
      from 3(3) [OF Cons False 3(4-6) this] show ?thesis
        using False Cons by (fastforce simp: show_work.simps(3))
    qed
  qed
qed

section \<open>Restoring\<close>

lemma restore_views_result:
  assumes "\<not> lock_active st" "distinct (views st)" "\<And>w. w \<in> set (views st) \<Longrightarrow> can_show st w"
    and "families_shown st []" "set vs \<subseteq> set (views st)"
  shows "\<exists>st'. restore_views vs st = Some st' \<and> views st' = views st \<and> parent_of st' = parent_of st \<and>
    families_shown st' [] \<and> (\<forall>w. v_visible (cview st w) \<longrightarrow> v_visible (cview st' w)) \<and>
    (\<forall>v \<in> set vs. v_hidden_by_lock (cview st v) \<longrightarrow> v_visible (cview st' v)) \<and>
    (\<forall>w. v_visible (cview st' w) \<longrightarrow> v_visible (cview st w) \<or>
       (\<exists>v \<in> set vs. v_hidden_by_lock (cview st v) \<and> (w = v \<or> descends (parent_of st) w v)))"
  using assms
proof (induction vs arbitrary: st)
  case (Cons v vs)
  show ?case
  proof (cases "v_hidden_by_lock (cview st v)")
    case False
    then show ?thesis using Cons.IH [of st] Cons.prems by auto
  next
    case True
    define s where "s = update_view v (\<lambda>w. w\<lparr>v_hidden_by_lock := False\<rparr>) st"
    have s: "views s = views st" "parent_of s = parent_of st" "lock_active s = lock_active st"
      "v_visible (cview s w) = v_visible (cview st w)"
      "v_hidden_by_lock (cview s w) \<longleftrightarrow> w \<noteq> v \<and> v_hidden_by_lock (cview st w)" for w
      by (auto simp: s_def)
    have c: "can_show s = can_show st" by (simp add: s_def can_show_def fun_eq_iff split: option.splits)
    have "families_shown s [Show v]"
      using Cons.prems(4) unfolding families_shown_def s by (auto simp: pending_show_def)
    from show_in_place_result [OF _ _ _ this]
    obtain r where r: "show_work False [Show v] s = Some r" "views r = views s" "parent_of r = parent_of s"
      "lock_active r = lock_active s" "can_show r = can_show s" "families_shown r []"
      "\<forall>w. v_hidden_by_lock (cview r w) = v_hidden_by_lock (cview s w)"
      "\<forall>w. v_visible (cview s w) \<longrightarrow> v_visible (cview r w)" "v_visible (cview r v)"
      "\<forall>w. v_visible (cview r w) \<longrightarrow> v_visible (cview s w) \<or> shown_by s (Show v) w"
      using Cons.prems s c by auto
    have "\<not> lock_active r" "distinct (views r)" "\<And>w. w \<in> set (views r) \<Longrightarrow> can_show r w"
      "set vs \<subseteq> set (views r)"
      using Cons.prems r s c by auto
    from Cons.IH [OF this(1-3) r(6) this(4)]
    obtain r' where r': "restore_views vs r = Some r'" "views r' = views r" "parent_of r' = parent_of r"
      "families_shown r' []" "\<forall>w. v_visible (cview r w) \<longrightarrow> v_visible (cview r' w)"
      "\<forall>v \<in> set vs. v_hidden_by_lock (cview r v) \<longrightarrow> v_visible (cview r' v)"
      "\<forall>w. v_visible (cview r' w) \<longrightarrow> v_visible (cview r w) \<or>
         (\<exists>v \<in> set vs. v_hidden_by_lock (cview r v) \<and> (w = v \<or> descends (parent_of r) w v))"
      by blast
    have "restore_views (v # vs) st = Some r'"
      using True r(1) r'(1) by (simp add: compositor_view_show_in_place_def s_def)
    moreover have "v_visible (cview r' u)" if "u \<in> set (v # vs)" "v_hidden_by_lock (cview st u)" for u
      using that r r' s by (cases "u = v") auto
    moreover have "v_visible (cview st w) \<or>
        (\<exists>u \<in> set (v # vs). v_hidden_by_lock (cview st u) \<and> (w = u \<or> descends (parent_of st) w u))"
      if "v_visible (cview r' w)" for w
      using r'(7) [rule_format, OF that] r(7,10) True by (auto simp: s r(3))
    ultimately show ?thesis using r r' s by auto
  qed
qed simp

text \<open>Visibility passes down a chain of parents once families are shown together.\<close>

lemma families_down:
  assumes "families_shown st []" "\<And>w p. w \<in> set (views st) \<Longrightarrow> parent_of st w = Some p \<Longrightarrow> p \<in> set (views st)"
    and "descends (parent_of st) w a" "w \<in> set (views st)" "v_visible (cview st a)"
  shows "v_visible (cview st w)"
  using assms(3,4) unfolding descends_def
proof (induction rule: converse_trancl_induct)
  case (base y)
  then show ?case using assms(1,5) by (auto simp: families_shown_def pending_show_def)
next
  case (step y z)
  then have "v_visible (cview st z)" using assms(2) by auto
  then show ?case using step assms(1) by (auto simp: families_shown_def pending_show_def)
qed

lemma hidden_ancestor:
  assumes "acyclic_parents st0" "hiding st0 [] st" "v_visible (cview st0 w)"
  shows "\<exists>a. v_hidden_by_lock (cview st a) \<and> (w = a \<or> descends (parent_of st0) w a)"
proof -
  obtain rank :: "nat \<Rightarrow> nat" where r: "\<And>v p. parent_of st0 v = Some p \<Longrightarrow> rank p < rank v"
    using assms(1) unfolding acyclic_parents_def by blast
  show ?thesis using assms(3)
  proof (induction "rank w" arbitrary: w rule: less_induct)
    case less
    have "v_hidden_by_lock (cview st w) \<or> (\<exists>p. parent_of st0 w = Some p \<and> v_visible (cview st0 p))"
      using assms(2) less.prems by (auto simp: hiding_def)
    then show ?case
    proof
      assume "\<exists>p. parent_of st0 w = Some p \<and> v_visible (cview st0 p)"
      then obtain p where p: "parent_of st0 w = Some p" "v_visible (cview st0 p)" by blast
      obtain a where a: "v_hidden_by_lock (cview st a)" "p = a \<or> descends (parent_of st0) p a"
        using less.hyps [OF r [OF p(1)] p(2)] by blast
      then have "descends (parent_of st0) w a" using p(1) by (subst descends_step) auto
      then show ?thesis using a by blast
    qed blast
  qed
qed

section \<open>While the session is locked\<close>

definition only_lock_shown :: "compositor \<Rightarrow> bool" where
  "only_lock_shown st \<longleftrightarrow> lock_active st \<and>
     (\<forall>w. v_visible (cview st w) \<longrightarrow> STACK_LOCK \<le> layer_of st w)"

text \<open>
  What happens to the stack.  Only \<open>session_lock.c\<close> puts views in the lock layer, and nothing
  moves a view of another layer that has lock surfaces below it, or takes one out of the lock layer.
\<close>

inductive stack_step :: "compositor \<Rightarrow> compositor \<Rightarrow> bool" where
  Create: "v \<notin> set (views st) \<Longrightarrow> stack_step st (compositor_create_view v st)"
| Destroy: "stack_step st (compositor_view_destroy v st)"
| Hide: "stack_step st (compositor_view_hide v st)"
| Show: "compositor_view_show v st = Some st' \<Longrightarrow> stack_step st st'"
| Show_in_place: "compositor_view_show_in_place v st = Some st' \<Longrightarrow> stack_step st st'"
| Set_parent: "compositor_view_set_parent v p st = Some st' \<Longrightarrow> v \<in> set (views st) \<Longrightarrow> stack_step st st'"
| Raise: "raise_window v st = Some st' \<Longrightarrow> stack_step st st'"
| Set_layer: "compositor_view_set_stack_layer v l up st = Some st' \<Longrightarrow>
    STACK_LOCK \<le> l \<or> (\<forall>w. STACK_LOCK \<le> layer_of st w \<longrightarrow> w \<noteq> v \<and> \<not> descends (parent_of st) w v) \<Longrightarrow>
    stack_step st st'"
| Restack: "compositor_view_restack v w front st = Some st' \<Longrightarrow>
    STACK_LOCK \<le> layer_of st v \<or> (\<forall>x. STACK_LOCK \<le> layer_of st x \<longrightarrow> \<not> descends (parent_of st) x v) \<Longrightarrow>
    stack_step st st'"
| Stack: "swc_window_stack v d st = Some st' \<Longrightarrow> stack_step st st'"
| Window: "stack_step st (update_view v (\<lambda>x. x\<lparr>v_window := win, v_raise_on_click := roc\<rparr>) st)"
| Subsurface: "stack_step st (update_view v (\<lambda>x. x\<lparr>v_subsurface := sub, v_buffer := buf, v_covers := cov\<rparr>) st)"
| Pointer: "stack_step st (st\<lparr>pointer_view := pv\<rparr>)"

lemma descends_loop_sound:
  "descends_loop par p v = Some d \<Longrightarrow> d \<Longrightarrow> \<exists>w. v = Some w \<and> (w = p \<or> descends par w p)"
proof -
  have "y \<longrightarrow> (\<exists>w. v = Some w \<and> (w = p \<or> descends par w p))" if "descends_loop par p v = Some y"
    for par p v y
  proof (rule descends_loop.raw_induct [OF _ that, where P = "\<lambda>par p v y. y \<longrightarrow>
        (\<exists>w. v = Some w \<and> (w = p \<or> descends par w p))"])
    fix f par p v and y :: bool
    assume ih: "\<And>p v b y. f p v b = Some y \<Longrightarrow> y \<longrightarrow> (\<exists>w. b = Some w \<and> (w = v \<or> descends p w v))"
      and e: "(case v of None \<Rightarrow> Some False
        | Some w \<Rightarrow> if w = p then Some True else f par p (par w)) = Some y"
    show "y \<longrightarrow> (\<exists>w. v = Some w \<and> (w = p \<or> descends par w p))"
    proof
      assume y: y
      then obtain w where w: "v = Some w" using e by (cases v) auto
      show "\<exists>w. v = Some w \<and> (w = p \<or> descends par w p)"
      proof (cases "w = p")
        case False
        then have "f par p (par w) = Some y" using e w by simp
        then obtain u where "par w = Some u" "u = p \<or> descends par u p" using ih y by blast
        then show ?thesis using w by (subst descends_step) auto
      qed (use w in simp)
    qed
  qed
  then show "descends_loop par p v = Some d \<Longrightarrow> d \<Longrightarrow> ?thesis" by blast
qed

lemma view_descends_from_sound:
  "view_descends_from st v p = Some True \<Longrightarrow> descends (parent_of st) v p"
  using descends_loop_sound [of "parent_of st" p "parent_of st v" True]
  by (subst descends_step) (auto simp: view_descends_from_def)

lemma take_children_descend:
  "take_children v cs front (ab, be) st = Some ((ab', be'), st') \<Longrightarrow>
     \<forall>c \<in> set ab' \<union> set be'. c \<in> set ab \<union> set be \<or> descends (parent_of st) c v"
proof (induction cs arbitrary: front ab be st)
  case (Cons c cs)
  obtain d where d: "view_descends_from st c v = Some d"
    using Cons.prems by (auto simp: Let_def split: option.splits)
  show ?case
  proof (cases d)
    case False
    then show ?thesis using Cons.prems d Cons.IH by (simp add: Let_def)
  next
    case True
    define s where "s = draw [Damage_view c, Clear_clip c, Schedule (v_screens (cview st c))]
      (st\<lparr>views := remove1 c (views st)\<rparr>)"
    have p: "parent_of s = parent_of st" by (simp add: s_def)
    have c: "descends (parent_of st) c v" using view_descends_from_sound d True by simp
    have e: "take_children v cs (front \<and> c \<noteq> v) (if front \<and> c \<noteq> v then (ab @ [c], be)
        else (ab, be @ [c])) s = Some ((ab', be'), st')"
      using Cons.prems d True by (simp only: take_children.simps Let_def s_def) simp
    show ?thesis
    proof (cases "front \<and> c \<noteq> v")
      case fr: True
      from Cons.IH [OF e [unfolded if_P [OF fr]]] show ?thesis using c p by auto
    next
      case fr: False
      from Cons.IH [OF e [unfolded if_not_P [OF fr]]] show ?thesis using c p by auto
    qed
  qed
qed simp

lemma layer_follow_all:
  "layer_of (foldl (follow v) st cs) w = (if w \<in> set cs then layer_of st v else layer_of st w)"
  by (induction cs arbitrary: st) (auto simp: follow_def)

lemma layer_restore:
  "layer_of (restore_view_children v (ab, be) st) w =
     (if w \<in> set ab \<union> set be then layer_of st v else layer_of st w)"
  by (auto simp: restore_view_children_def Let_def layer_follow_all)

text \<open>A view moved with its children, in a layer the lock allows.\<close>

lemma move_tree_lock:
  assumes "only_lock_shown st" "take_view_children v st = Some ((ab, be), s)"
    and "cview s' = (cview s)(v := (cview s v)\<lparr>v_layer := l\<rparr>)" "lock_active s' = lock_active s"
    and "STACK_LOCK \<le> l \<or>
      (\<forall>w. STACK_LOCK \<le> layer_of st w \<longrightarrow> \<not> descends (parent_of st) w v \<and> (w = v \<longrightarrow> l = layer_of st v))"
  shows "only_lock_shown (restore_view_children v (ab, be) s')"
proof -
  have k: "cview s = cview st" "lock_active s = lock_active st"
    using take_children_kept [OF assms(2) [unfolded take_view_children_def]] by simp_all
  have d: "\<forall>c \<in> set ab \<union> set be. descends (parent_of st) c v"
    using take_children_descend [OF assms(2) [unfolded take_view_children_def]] by simp
  show ?thesis
    using assms(1,5) d unfolding only_lock_shown_def
    by (auto simp: layer_restore assms(3,4) k)
qed

lemma only_lock_cong:
  assumes "lock_active st' = lock_active st"
    and "\<And>w. v_visible (cview st' w) \<Longrightarrow> v_visible (cview st w) \<and> layer_of st' w = layer_of st w"
  shows "only_lock_shown st \<Longrightarrow> only_lock_shown st'"
  using assms by (auto simp: only_lock_shown_def)

lemma only_lock_draw [simp]:
  "only_lock_shown (draw es st) = only_lock_shown st"
  "only_lock_shown (st\<lparr>views := vs\<rparr>) = only_lock_shown st"
  "only_lock_shown (st\<lparr>pointer_view := pv\<rparr>) = only_lock_shown st"
  by (simp_all add: only_lock_shown_def)

lemma hide_lock: "only_lock_shown st \<Longrightarrow> only_lock_shown (hide_work vs st)"
  by (rule only_lock_cong) (auto dest: hide_shrinks)

lemma raise_lock:
  assumes "only_lock_shown st" "raise_window v st = Some st'"
  shows "only_lock_shown st'"
proof (cases "window_view st v")
  case (Some w)
  show ?thesis
  proof (cases w)
    case None
    then show ?thesis using assms Some by (simp add: raise_window_def)
  next
    case w: (Some x)
    show ?thesis
    proof (cases "v_visible (cview st x)")
      case True
      then obtain ab be s where s: "take_view_children x st = Some ((ab, be), s)"
        using assms(2) Some w by (auto simp: raise_window_def split: option.splits)
      have l: "STACK_LOCK \<le> layer_of st x" using assms(1) True by (simp add: only_lock_shown_def)
      have k: "cview s = cview st" using take_children_kept [OF s [unfolded take_view_children_def]] by simp
      have "only_lock_shown (restore_view_children x (ab, be)
          (s\<lparr>views := move_link (raise_point s x None (views s)) x (views s)\<rparr>))"
        by (rule move_tree_lock [OF assms(1) s, where l = "layer_of st x"])
          (use l in \<open>auto simp: k\<close>)
      then show ?thesis
        using assms(2) Some w s True by (auto simp: raise_window_def Let_def)
    qed (use assms Some w in \<open>simp add: raise_window_def\<close>)
  qed
qed (use assms(2) in \<open>simp add: raise_window_def\<close>)

lemma mark_shown_lock:
  assumes "only_lock_shown st" "\<not> deferred v st" "mark_shown up v st = Some st'"
  shows "only_lock_shown st'"
proof -
  define s where "s = draw [Idle_inhibit_update] (update_view v (\<lambda>w. w\<lparr>v_screens := v_covers w\<rparr>)
      (draw [Update_extents v] (update_view v (\<lambda>w. w\<lparr>v_visible := True\<rparr>) st)))"
  have "only_lock_shown s"
    using assms(1,2) by (auto simp: s_def only_lock_shown_def deferred_def)
  moreover obtain r where "(if v_window (cview s v) \<and> up then raise_window (Some v) s else Some s) = Some r"
    "st' = draw [Clear_clip v, Damage_view v, Update_view v] r"
    using assms(3) unfolding mark_shown_def Let_def s_def [symmetric] by (auto split: option.splits)
  ultimately show ?thesis using raise_lock [of s "Some v" r] by (auto split: if_splits)
qed

lemma show_lock: "show_work up is st = Some st' \<Longrightarrow> only_lock_shown st \<Longrightarrow> only_lock_shown st'"
proof (induction up "is" st rule: show_work.induct)
  case (2 up v "is" st)
  have d: "only_lock_shown (defer_show v st)"
    by (rule only_lock_cong [OF _ _ 2(5)]) (auto simp: defer_show_def)
  show ?case
  proof (cases "showable v st \<and> \<not> deferred v st")
    case True
    then obtain s where s: "mark_shown up v st = Some s" "show_work up (Scan v None # is) s = Some st'"
      using 2(4) by (auto simp: show_work.simps(2) split: option.splits)
    then show ?thesis using 2(3) True mark_shown_lock [OF 2(5) _ s(1)] by blast
  next
    case False
    then show ?thesis using 2(1,2,4,5) d by (auto simp: show_work.simps(2) split: if_splits)
  qed
next
  case (3 up v c "is" st)
  show ?case
  proof (cases "list_next c (views st)")
    case Nil
    then show ?thesis using 3(1) 3(4,5) by (simp add: show_work.simps(3))
  next
    case (Cons w ws)
    then show ?thesis using 3(2,3) 3(4,5) by (simp add: show_work.simps(3) split: if_splits)
  qed
qed simp

lemma set_layer_lock:
  assumes "only_lock_shown st" "compositor_view_set_stack_layer v l up st = Some st'"
    and "STACK_LOCK \<le> l \<or>
      (\<forall>w. STACK_LOCK \<le> layer_of st w \<longrightarrow> w \<noteq> v \<and> \<not> descends (parent_of st) w v)"
  shows "only_lock_shown st'"
proof (cases "layer_of st v = l \<and> \<not> up")
  case False
  then obtain ab be s where s: "take_view_children v st = Some ((ab, be), s)"
    using assms(2) by (auto simp: compositor_view_set_stack_layer_def split: option.splits)
  define r where "r = restack_view_for_layer v up (update_view v (\<lambda>w. w\<lparr>v_layer := l\<rparr>) (draw [Damage_view v] s))"
  have "only_lock_shown (restore_view_children v (ab, be) r)"
    by (rule move_tree_lock [OF assms(1) s, where l = l])
      (use assms(3) in \<open>auto simp: r_def restack_view_for_layer_def update_view_def\<close>)
  then show ?thesis
    using assms(2) False s by (auto simp: compositor_view_set_stack_layer_def Let_def r_def)
qed (use assms(1,2) in \<open>simp add: compositor_view_set_stack_layer_def\<close>)

lemma restack_lock:
  assumes "only_lock_shown st" "compositor_view_restack v w front st = Some st'"
    and "STACK_LOCK \<le> layer_of st v \<or>
      (\<forall>x. STACK_LOCK \<le> layer_of st x \<longrightarrow> \<not> descends (parent_of st) x v)"
  shows "only_lock_shown st'"
proof (cases "st' = st")
  case False
  then obtain ab be s edge where s: "take_view_children v st = Some ((ab, be), s)"
    "st' = draw [Borders_damaged v, Borders_damaged w,
        Schedule (v_screens (cview (restore_view_children v (ab, be) (s\<lparr>views :=
          (if front then insert_before edge v (remove1 v (views s)) else insert_after edge v (remove1 v (views s)))\<rparr>)) v) OR
          v_screens (cview (restore_view_children v (ab, be) (s\<lparr>views :=
          (if front then insert_before edge v (remove1 v (views s)) else insert_after edge v (remove1 v (views s)))\<rparr>)) w))]
      (restore_view_children v (ab, be) (s\<lparr>views :=
        (if front then insert_before edge v (remove1 v (views s)) else insert_after edge v (remove1 v (views s)))\<rparr>))"
    using assms(2) unfolding compositor_view_restack_def Let_def
    by (fastforce split: if_split_asm option.split_asm bool.split_asm prod.split_asm)
  have k: "cview s = cview st" using take_children_kept [OF s(1) [unfolded take_view_children_def]] by simp
  have "only_lock_shown (restore_view_children v (ab, be) (s\<lparr>views :=
        (if front then insert_before edge v (remove1 v (views s)) else insert_after edge v (remove1 v (views s)))\<rparr>))"
    by (rule move_tree_lock [OF assms(1) s(1), where l = "layer_of st v"]) (use assms(3) in \<open>auto simp: k\<close>)
  then show ?thesis unfolding s(2) by simp
qed (use assms(1) in simp)

lemma orphan_lock: "only_lock_shown st \<Longrightarrow> only_lock_shown (fold (orphan v) ws st)"
proof (induction ws arbitrary: st)
  case (Cons w ws)
  have "only_lock_shown (orphan v w st)"
    by (rule only_lock_cong [OF _ _ Cons.prems]) (auto simp: orphan_def Let_def split: if_splits)
  then show ?case using Cons.IH by simp
qed simp

lemma set_parent_lock:
  assumes "only_lock_shown st" "compositor_view_set_parent v p st = Some st'" "v \<in> set (views st)"
  shows "only_lock_shown st'"
proof (cases p)
  case None
  then show ?thesis
    using assms(1,2) by (auto simp: compositor_view_set_parent_def only_lock_shown_def)
next
  case (Some q)
  define s where "s = follow q (update_view v (\<lambda>w. w\<lparr>v_parent := p\<rparr>) st) v"
  have f: "v_visible (cview s w) = v_visible (cview st w)" "lock_active s = lock_active st"
    "views s = views st" "layer_of s w = (if w = v then layer_of st q else layer_of st w)" for w
    by (auto simp: s_def follow_def)
  show ?thesis
  proof (cases "v_visible (cview st q)")
    case True
    then have "only_lock_shown s" using assms(1) f by (auto simp: only_lock_shown_def)
    moreover have "show_work True [Show v] s = Some st'"
      using assms(2) Some True f
      by (simp add: compositor_view_set_parent_def Let_def s_def compositor_view_show_def)
    ultimately show ?thesis using show_lock by blast
  next
    case False
    then have "st' = hide_work [v] s"
      using assms(2) Some f
      by (simp add: compositor_view_set_parent_def Let_def s_def compositor_view_hide_def)
    then show ?thesis
      using assms(1,3) f hide_hides [of v "[v]" s] hide_shrinks(1) [of "[v]" s]
      by (auto simp: only_lock_shown_def)
  qed
qed

lemma step_lock: "stack_step st st' \<Longrightarrow> only_lock_shown st \<Longrightarrow> only_lock_shown st'"
proof (induction rule: stack_step.induct)
  case (Create v st)
  then show ?case by (auto simp: only_lock_shown_def compositor_create_view_def new_cview_def)
next
  case (Destroy st v)
  then show ?case
    by (simp add: compositor_view_destroy_def Let_def compositor_view_hide_def hide_lock orphan_lock)
next
  case (Stack v d st st')
  then show ?case
    using restack_lock [of st v _ _ st'] unfolding swc_window_stack_def
    by (auto simp: only_lock_shown_def split: if_splits option.splits)
next
  case (Window st v win roc)
  then show ?case by (auto simp: only_lock_shown_def)
next
  case (Subsurface st v sub buf cov)
  then show ?case by (auto simp: only_lock_shown_def)
qed (auto simp: compositor_view_hide_def hide_lock compositor_view_show_def
  compositor_view_show_in_place_def intro: show_lock set_parent_lock raise_lock set_layer_lock restack_lock)

section \<open>Properties\<close>

text \<open>The state in which a lock begins: no lock surface yet, every visible view linked.\<close>

definition lockable :: "compositor \<Rightarrow> bool" where
  "lockable st \<longleftrightarrow> stack_ok st \<and>
     (\<forall>w \<in> set (views st). layer_of st w \<noteq> STACK_LOCK \<and> can_show st w \<and>
        (case parent_of st w of None \<Rightarrow> True | Some p \<Rightarrow> p \<in> set (views st))) \<and>
     (\<forall>w. \<not> v_hidden_by_lock (cview st w)) \<and> (\<forall>w. v_visible (cview st w) \<longrightarrow> w \<in> set (views st))"


text \<open>While the session is locked, whatever clients and the window manager create, show, hide,
  parent, raise and restack, nothing below the lock layer is ever shown.\<close>

theorem locked_shows_only_lock:
  assumes "lockable st0" and "stack_step\<^sup>*\<^sup>* (compositor_hide_for_lock (st0\<lparr>lock_active := True\<rparr>)) st"
    and "v_visible (cview st v)"
  shows "STACK_LOCK \<le> layer_of st v"
proof -
  let ?s0 = "st0\<lparr>lock_active := True\<rparr>"
  have "hiding ?s0 [] (compositor_hide_for_lock ?s0)"
    by (rule hidden_for_lock) (use assms(1) in \<open>auto simp: lockable_def\<close>)
  then have "only_lock_shown (compositor_hide_for_lock ?s0)" by (simp add: hiding_def only_lock_shown_def)
  with assms(2) have "only_lock_shown st" by (induction rule: rtranclp_induct) (auto intro: step_lock)
  then show ?thesis using assms(3) by (simp add: only_lock_shown_def)
qed

section \<open>An example\<close>

text \<open>The example of the stack, with the popup (view 3) of the visible window 2 hidden.\<close>

definition sample_hidden :: compositor where
  "sample_hidden = update_view 3 (\<lambda>w. w\<lparr>v_visible := False\<rparr>)
     (sample_stack\<lparr>cview := (\<lambda>v. if v \<in> {1, 7, 5, 3, 2, 4} then sample_view v else new_cview)\<rparr>)"

lemma sample_hidden_lockable: "lockable sample_hidden"
proof -
  have p: "parent_of sample_hidden v = (if v = 3 \<or> v = 4 then Some 2 else None)" for v
    by (auto simp: parent_of_def sample_hidden_def sample_stack_def sample_view_def new_cview_def)
  have "acyclic_parents sample_hidden"
    unfolding acyclic_parents_def p by (rule exI [of _ "\<lambda>v. if v = 2 then 0 else 1"]) simp
  then show ?thesis
    unfolding lockable_def stack_ok_def p
    by (auto simp: sample_hidden_def sample_stack_def sample_view_def new_cview_def can_show_def
        STACK_LOCK_def STACK_OVERLAY_def STACK_NORMAL_def split: if_splits)
qed


text \<open>Locked, and then a lock surface (view 9) is created, put in the lock layer and shown.\<close>

definition sample_locked :: compositor where
  "sample_locked = compositor_hide_for_lock (sample_hidden\<lparr>lock_active := True\<rparr>)"

definition sample_surface :: compositor where
  "sample_surface = the (compositor_view_set_stack_layer 9 STACK_LOCK True
     (compositor_create_view 9 sample_locked))"

lemma sample_surface_steps:
  "stack_step\<^sup>*\<^sup>* sample_locked (the (compositor_view_show 9 sample_surface))"
proof -
  have "stack_step sample_locked (compositor_create_view 9 sample_locked)"
    by (rule Create) code_simp
  moreover have "\<not> Option.is_none (compositor_view_set_stack_layer 9 STACK_LOCK True
      (compositor_create_view 9 sample_locked))" by code_simp
  then have "stack_step (compositor_create_view 9 sample_locked) sample_surface"
    by (intro Set_layer [where v = 9 and l = STACK_LOCK and up = True])
      (auto simp: sample_surface_def Option.is_none_def)
  moreover have "\<not> Option.is_none (compositor_view_show 9 sample_surface)" by code_simp
  then have "stack_step sample_surface (the (compositor_view_show 9 sample_surface))"
    by (intro Show [where v = 9]) (auto simp: Option.is_none_def)
  ultimately show ?thesis by (meson converse_rtranclp_into_rtranclp rtranclp.rtrancl_refl)
qed

theorem locked_shows_only_lock_witness:
  "let st = the (compositor_view_show 9 sample_surface)
   in v_visible (cview st 9) \<and> STACK_LOCK \<le> layer_of st 9"
proof -
  have v: "v_visible (cview (the (compositor_view_show 9 sample_surface)) 9)" by code_simp
  then show ?thesis
    using locked_shows_only_lock [OF sample_hidden_lockable, folded sample_locked_def, OF sample_surface_steps v]
    by simp
qed

end
