(* ===== verification/Session_Lock.thy ===== *)
theory Session_Lock
  imports View_Visibility Popup
begin

text \<open>
  The session lock (\<open>libswc/session_lock.c\<close>): a locker covers every output, nothing else is shown
  or can be typed into until that same client unlocks, and a locker that dies leaves the session
  locked.

  The lock works on the stack of views (\<open>View_Stack\<close>) and on the keyboard's focus with the popup
  grab that filters it (\<open>Popup\<close>), so both are part of its state.  Views are the same numbers in
  both.  A call that walks up the parents of views may not return, and then the result is \<open>None\<close>.
\<close>

section \<open>State\<close>

datatype lock_error = LOCK_INVALID_UNLOCK | LOCK_ROLE | LOCK_ALREADY_CONSTRUCTED
  | LOCK_DUPLICATE_OUTPUT | LOCK_INVALID_SERIAL | LOCK_BEFORE_FIRST_ACK | LOCK_NULL_BUFFER
  | LOCK_DIMENSIONS_MISMATCH

datatype lock_event =
    Lock_locked nat
  | Lock_finished nat
  | Lock_configure nat int int int
  | Lock_error nat lock_error
  | Lock_surface_error nat lock_error
  | Lock_no_memory
  | Damage_all
  | Overview_end
  | Input_mode_cancel
  | Text_input_suspend
  | Lock_view_move nat int int

text \<open>The buffer and size of a lock surface's view, which its commits bring, are kept with it.\<close>

record lock_surface =
  ls_view :: nat
  ls_screen :: "nat option"
  ls_serial :: int
  ls_acked :: bool
  ls_mapped :: bool
  ls_buffer :: bool
  ls_width :: int
  ls_height :: int

record lock_screen =
  sc_id :: nat
  sc_geometry :: swc_rectangle
  sc_presented :: int

text \<open>
  \<open>keyboard\<close> is the seat's keyboard with the popup grab, \<open>pointer_at\<close> the pointer's position, if
  there is one.  The flags of the lock in \<open>stack\<close> and \<open>keyboard\<close> are \<open>session_lock_active\<close> as those
  parts see it.
\<close>

record session =
  stack :: compositor
  keyboard :: popup_grab
  pointer_at :: "(int \<times> int) option"
  lock_resource :: "nat option"
  locked :: bool
  sent_locked :: bool
  views_hidden :: bool
  lock_generation :: int
  lock_surfaces :: "nat list"
  lock_surface :: "nat \<Rightarrow> lock_surface"
  saved_focus :: "nat option"
  lk_screens :: "lock_screen list"
  lock_sent :: "lock_event list"

definition lsend :: "lock_event list \<Rightarrow> session \<Rightarrow> session" where
  "lsend es st = st\<lparr>lock_sent := lock_sent st @ es\<rparr>"

definition update_lock_surface :: "nat \<Rightarrow> (lock_surface \<Rightarrow> lock_surface) \<Rightarrow> session \<Rightarrow> session" where
  "update_lock_surface s f st = st\<lparr>lock_surface := (lock_surface st)(s := f (lock_surface st s))\<rparr>"

definition set_locked :: "bool \<Rightarrow> session \<Rightarrow> session" where
  "set_locked b st = st\<lparr>locked := b, stack := (stack st)\<lparr>lock_active := b\<rparr>,
     keyboard := (keyboard st)\<lparr>session_locked := b\<rparr>\<rparr>"

definition screen_of :: "session \<Rightarrow> nat option \<Rightarrow> lock_screen option" where
  "screen_of st i = (case i of None \<Rightarrow> None | Some i \<Rightarrow> find (\<lambda>s. sc_id s = i) (lk_screens st))"

section \<open>The keyboard\<close>

text \<open>
  \<open>keyboard_set_focus\<close>, which asks for the layer of the view, and whose filter may dismiss popups:
  \<open>popup_dismiss\<close> hides their views.
\<close>

definition dismissed_views :: "popup_grab \<Rightarrow> popup_event list \<Rightarrow> nat list" where
  "dismissed_views g es = List.map_filter (\<lambda>e. case e of Popup_done p \<Rightarrow> Some (p_view (popup g p)) | _ \<Rightarrow> None) es"

definition synced :: "session \<Rightarrow> popup_grab" where
  "synced st = (keyboard st)\<lparr>lock_layer := (\<lambda>w. layer_of (stack st) w = STACK_LOCK)\<rparr>"

definition set_keyboard_focus :: "nat option \<Rightarrow> session \<Rightarrow> session" where
  "set_keyboard_focus v st =
     (let g = synced st; g' = keyboard_set_focus v g;
          gone = dismissed_views g' (drop (length (g_sent g)) (g_sent g'))
      in st\<lparr>keyboard := g', stack := fold compositor_view_hide gone (stack st)\<rparr>)"

definition save_focus :: "session \<Rightarrow> session" where
  "save_focus st =
     st\<lparr>saved_focus := xdg_popup_grab_focus_owner (focus (keyboard st)) (keyboard st)\<rparr>"

text \<open>The handlers on a view's destroy signal: the keyboard's, the grab's and the lock's.\<close>

definition handle_focus_view_destroy :: "nat \<Rightarrow> popup_grab \<Rightarrow> popup_grab" where
  "handle_focus_view_destroy v g =
     (if focus g = Some v then (remove_listener v Focus_listener g)\<lparr>focus := None\<rparr> else g)"

definition lock_view_destroyed :: "nat \<Rightarrow> session \<Rightarrow> session" where
  "lock_view_destroyed v st =
     (let g = handle_focus_view_destroy v (keyboard st);
          g = (if ref_view (restore g) = Some v then handle_restore_destroy g else g);
          g = (if ref_view (pending g) = Some v then handle_pending_destroy g else g)
      in st\<lparr>keyboard := g, saved_focus := (if saved_focus st = Some v then None else saved_focus st),
           stack := compositor_view_destroy v (stack st)\<rparr>)"

text \<open>The loop of \<open>focus_a_lock_surface\<close>.\<close>

fun choose_surface :: "session \<Rightarrow> nat option \<Rightarrow> nat list \<Rightarrow> nat option" where
  "choose_surface st chosen [] = chosen"
| "choose_surface st chosen (s # ss) =
     (if \<not> ls_mapped (lock_surface st s) then choose_surface st chosen ss
      else
        let chosen = (case chosen of None \<Rightarrow> Some s | Some c \<Rightarrow> Some c)
        in case (pointer_at st, screen_of st (ls_screen (lock_surface st s))) of
             (Some (x, y), Some sc) \<Rightarrow>
               if rectangle_contains_point (sc_geometry sc) x y then Some s
               else choose_surface st chosen ss
           | _ \<Rightarrow> choose_surface st chosen ss)"

definition focus_a_lock_surface :: "session \<Rightarrow> session" where
  "focus_a_lock_surface st =
     (case choose_surface st None (lock_surfaces st) of None \<Rightarrow> st
      | Some s \<Rightarrow> set_keyboard_focus (Some (ls_view (lock_surface st s))) st)"

section \<open>Locking and unlocking\<close>

definition all_screens_covered :: "session \<Rightarrow> bool" where
  "all_screens_covered st \<longleftrightarrow> (\<forall>s \<in> set (lk_screens st). sc_presented s = lock_generation st)"

definition maybe_send_locked :: "session \<Rightarrow> session" where
  "maybe_send_locked st =
     (case lock_resource st of None \<Rightarrow> st
      | Some r \<Rightarrow>
          if sent_locked st \<or> \<not> all_screens_covered st then st
          else lsend [Lock_locked r] (st\<lparr>sent_locked := True\<rparr>))"

text \<open>The counter has 64 bits and skips 0.\<close>

definition next_generation :: "int \<Rightarrow> int" where
  "next_generation g =
     (let g = (g + 1) mod 18446744073709551616 in if g = 0 then 1 else g)"

definition begin_lock :: "session \<Rightarrow> session" where
  "begin_lock st =
     (let st = lsend [Input_mode_cancel, Overview_end] (st\<lparr>keyboard := (keyboard st)\<lparr>input_mode := False\<rparr>\<rparr>);
          st = set_locked True st;
          st = st\<lparr>lock_generation := next_generation (lock_generation st)\<rparr>;
          st = lsend [Text_input_suspend] st;
          st = st\<lparr>sent_locked := False\<rparr>;
          st = save_focus st;
          st = set_keyboard_focus None st;
          st = (if \<not> views_hidden st
                then st\<lparr>stack := compositor_hide_for_lock (stack st), views_hidden := True\<rparr> else st)
      in maybe_send_locked (lsend [Damage_all] st))"

definition end_lock :: "session \<Rightarrow> session option" where
  "end_lock st =
     (let st = set_locked False st;
          st = st\<lparr>sent_locked := False, lock_resource := None\<rparr>
      in case (if views_hidden st then compositor_restore_after_lock (stack st) else Some (stack st)) of
           None \<Rightarrow> None
         | Some s \<Rightarrow>
             let st = st\<lparr>stack := s, views_hidden := False\<rparr>;
                 back = saved_focus st;
                 st = st\<lparr>saved_focus := None\<rparr>
             in Some (lsend [Damage_all] (set_keyboard_focus back st)))"

section \<open>Lock surfaces\<close>

definition lock_send_configure :: "int \<Rightarrow> nat \<Rightarrow> session \<Rightarrow> session" where
  "lock_send_configure ser s st =
     (case screen_of st (ls_screen (lock_surface st s)) of None \<Rightarrow> st
      | Some sc \<Rightarrow>
          lsend [Lock_configure s ser (rect_width (sc_geometry sc)) (rect_height (sc_geometry sc))]
            (update_lock_surface s (\<lambda>l. l\<lparr>ls_serial := ser\<rparr>) st))"

definition lock_surface_ack_configure :: "int \<Rightarrow> nat \<Rightarrow> session \<Rightarrow> session" where
  "lock_surface_ack_configure ser s st =
     (if ser \<noteq> ls_serial (lock_surface st s) then lsend [Lock_surface_error s LOCK_INVALID_SERIAL] st
      else update_lock_surface s (\<lambda>l. l\<lparr>ls_acked := True\<rparr>) st)"

text \<open>Mapping a lock surface: the part of the commit that runs once.\<close>

definition map_lock_surface :: "nat \<Rightarrow> session \<Rightarrow> session option" where
  "map_lock_surface s st =
     (let v = ls_view (lock_surface st s);
          st = update_lock_surface s (\<lambda>l. l\<lparr>ls_mapped := True\<rparr>) st;
          k = update_view v (\<lambda>w. w\<lparr>v_always_top := True\<rparr>) (stack st)
      in case compositor_view_set_stack_layer v STACK_LOCK True k of None \<Rightarrow> None
         | Some k \<Rightarrow>
             (case compositor_view_show v k of None \<Rightarrow> None
              | Some k \<Rightarrow> Some (focus_a_lock_surface (st\<lparr>stack := k\<rparr>))))"

definition handle_lock_surface_commit :: "nat \<Rightarrow> session \<Rightarrow> session option" where
  "handle_lock_surface_commit s st =
     (let l = lock_surface st s
      in if ls_buffer l \<and> \<not> ls_acked l then Some (lsend [Lock_surface_error s LOCK_BEFORE_FIRST_ACK] st)
         else if \<not> ls_buffer l
         then Some (if ls_mapped l then lsend [Lock_surface_error s LOCK_NULL_BUFFER] st else st)
         else case screen_of st (ls_screen l) of None \<Rightarrow> Some st
           | Some sc \<Rightarrow>
               let geom = sc_geometry sc
               in if ls_width l \<noteq> rect_width geom \<or> ls_height l \<noteq> rect_height geom
                  then Some (lsend [Lock_surface_error s LOCK_DIMENSIONS_MISMATCH] st)
                  else
                    let st = lsend [Lock_view_move (ls_view l) (rect_x geom) (rect_y geom)] st
                    in case (if \<not> ls_mapped l then map_lock_surface s st else Some st) of
                         None \<Rightarrow> None
                       | Some st \<Rightarrow> Some (maybe_send_locked st))"

definition destroy_lock_surface :: "nat \<Rightarrow> session \<Rightarrow> session" where
  "destroy_lock_surface s st =
     (let st = st\<lparr>lock_surfaces := remove1 s (lock_surfaces st)\<rparr>;
          st = lock_view_destroyed (ls_view (lock_surface st s)) st
      in if locked st then lsend [Damage_all] st else st)"

definition handle_lock_screen_destroy :: "nat \<Rightarrow> session \<Rightarrow> session" where
  "handle_lock_screen_destroy s st =
     (let st = update_lock_surface s (\<lambda>l. l\<lparr>ls_screen := None\<rparr>) st;
          st = (if ls_mapped (lock_surface st s)
                then let st = update_lock_surface s (\<lambda>l. l\<lparr>ls_mapped := False\<rparr>) st
                     in st\<lparr>stack := compositor_view_hide (ls_view (lock_surface st s)) (stack st)\<rparr>
                else st)
      in maybe_send_locked st)"

text \<open>
  \<open>valid\<close>: the request names a surface; \<open>buffered\<close>: it has a buffer.  \<open>alloc\<close> and \<open>role\<close> tell
  whether the allocations succeed and whether the surface takes the role; \<open>s\<close> and \<open>v\<close> are the
  new lock surface and its view.
\<close>

definition get_lock_surface ::
  "bool \<Rightarrow> bool \<Rightarrow> bool \<Rightarrow> bool \<Rightarrow> int \<Rightarrow> nat option \<Rightarrow> nat \<Rightarrow> nat \<Rightarrow> nat \<Rightarrow> session \<Rightarrow> session" where
  "get_lock_surface valid buffered alloc role ser screen r s v st =
     (if Some r \<noteq> lock_resource st then st
      else if \<not> valid then lsend [Lock_error r LOCK_ROLE] st
      else if buffered then lsend [Lock_error r LOCK_ALREADY_CONSTRUCTED] st
      else if screen \<noteq> None \<and> (\<exists>l \<in> set (lock_surfaces st). ls_screen (lock_surface st l) = screen)
      then lsend [Lock_error r LOCK_DUPLICATE_OUTPUT] st
      else if \<not> alloc then lsend [Lock_no_memory] st
      else if \<not> role then lsend [Lock_error r LOCK_ROLE] st
      else
        let st = st\<lparr>stack := compositor_create_view v (stack st)\<rparr>;
            st = update_lock_surface s (\<lambda>_. \<lparr>ls_view = v, ls_screen = screen, ls_serial = 0,
              ls_acked = False, ls_mapped = False, ls_buffer = False, ls_width = 0, ls_height = 0\<rparr>) st;
            st = st\<lparr>lock_surfaces := lock_surfaces st @ [s]\<rparr>
        in lock_send_configure ser s st)"

section \<open>Requests on the lock\<close>

definition unlock_and_destroy :: "nat \<Rightarrow> session \<Rightarrow> session option" where
  "unlock_and_destroy r st =
     (if Some r \<noteq> lock_resource st then Some (lsend [Lock_error r LOCK_INVALID_UNLOCK] st)
      else if \<not> sent_locked st then Some (lsend [Lock_error r LOCK_INVALID_UNLOCK] st)
      else end_lock st)"

definition destroy_lock :: "nat \<Rightarrow> session \<Rightarrow> session" where
  "destroy_lock r st =
     (if lock_resource st \<noteq> Some r then st
      else let st = st\<lparr>lock_resource := None\<rparr>
           in if locked st then lsend [Damage_all] st else st)"

definition manager_lock :: "bool \<Rightarrow> nat \<Rightarrow> session \<Rightarrow> session" where
  "manager_lock alloc r st =
     (if \<not> alloc then lsend [Lock_no_memory] st
      else if locked st then lsend [Lock_finished r] st
      else begin_lock (st\<lparr>lock_resource := Some r\<rparr>))"

definition session_lock_frame_presented :: "nat \<Rightarrow> int \<Rightarrow> session \<Rightarrow> session" where
  "session_lock_frame_presented i gen st =
     (if \<not> locked st \<or> gen = 0 \<or> gen \<noteq> lock_generation st then st
      else maybe_send_locked (st\<lparr>lk_screens :=
        map (\<lambda>s. if sc_id s = i then s\<lparr>sc_presented := gen\<rparr> else s) (lk_screens st)\<rparr>))"

definition session_lock_generation :: "session \<Rightarrow> int" where
  "session_lock_generation st = (if locked st then lock_generation st else 0)"

section \<open>Who has the keyboard\<close>

text \<open>Nobody, or a view of the lock layer.\<close>

definition focus_locked :: "popup_grab \<Rightarrow> bool" where
  "focus_locked g \<longleftrightarrow> (case focus g of None \<Rightarrow> True | Some v \<Rightarrow> lock_layer g v)"

text \<open>The client of the view holds no popup grab; no client with a view in the lock layer does.\<close>

definition grab_apart :: "nat option \<Rightarrow> popup_grab \<Rightarrow> bool" where
  "grab_apart v g \<longleftrightarrow> popups g = [] \<or> v = None \<or> map_option (view_client g) v \<noteq> grab_client g"

definition no_locker_grab :: "popup_grab \<Rightarrow> bool" where
  "no_locker_grab g \<longleftrightarrow> (\<forall>v. lock_layer g v \<longrightarrow> grab_apart (Some v) g)"

lemma no_locker_apart: "no_locker_grab g \<Longrightarrow> session_locked g \<Longrightarrow> focus_allowed v g \<Longrightarrow> grab_apart v g"
  by (auto simp: no_locker_grab_def focus_allowed_def grab_apart_def split: option.splits)

lemma focus_locked_cong:
  "surroundings g' = surroundings g \<Longrightarrow> focus g' = focus g \<Longrightarrow> focus_locked g' = focus_locked g"
  by (drule surroundings_fields(4)) (simp add: focus_locked_def split: option.split)

lemma focus_locked_basic [simp]:
  "focus_locked (emit e g) = focus_locked g" "focus_locked (add_listener v l g) = focus_locked g"
  "focus_locked (remove_listener v l g) = focus_locked g" "focus_locked (clear_restore g) = focus_locked g"
  "focus_locked (clear_pending g) = focus_locked g" "focus_locked (set_restore vo g) = focus_locked g"
  "focus_locked (set_pending vo g) = focus_locked g"
  "focus_locked (g\<lparr>popups := ps\<rparr>) = focus_locked g" "focus_locked (g\<lparr>grab_client := c\<rparr>) = focus_locked g"
  "focus_locked (g\<lparr>watching := b\<rparr>) = focus_locked g" "focus_locked (g\<lparr>restore := r\<rparr>) = focus_locked g"
  "focus_locked (g\<lparr>pending := r\<rparr>) = focus_locked g"
  by (rule focus_locked_cong; simp)+

lemma focus_locked_unfiltered:
  "session_locked g \<Longrightarrow> focus_locked g \<Longrightarrow> focus_locked (unfiltered_set_focus v g)"
  using surroundings_fields [OF focus_set_fields(6) [of v g]]
  by (auto simp: unfiltered_set_focus_def focus_locked_def focus_allowed_def split: option.splits)

lemma locked_frame: "surroundings g' = surroundings g \<Longrightarrow> session_locked g' = session_locked g"
  by (simp add: surroundings_def)

lemma focus_locked_ungrabbed:
  "session_locked g \<Longrightarrow> focus_locked g \<Longrightarrow> focus_locked (window_focus_ungrabbed v g)"
  using focus_locked_unfiltered [of "emit (Window_focused v) g" v] locked_frame [of "emit (Window_focused v) g" g]
  by (auto simp: window_focus_ungrabbed_def)

lemma focus_locked_update:
  assumes "session_locked g" "focus_locked g"
  shows "focus_locked (popup_grab_update_focus g)"
proof (cases "popup_grab_topmost g")
  case (Some tp)
  then show ?thesis using assms by (simp add: popup_grab_update_focus_def focus_locked_unfiltered)
next
  case None
  define c where "c = clear_pending (clear_restore g)"
  define u where "u = (if focus c = None \<or> focus_client c = grab_client c
    then unfiltered_set_focus (ref_view (restore g)) c else c)\<lparr>grab_client := None\<rparr>"
  have c: "session_locked c" "focus_locked c"
    using assms locked_frame [of c g] by (simp_all add: c_def)
  then have "focus_locked u" by (simp add: u_def focus_locked_unfiltered)
  moreover have "session_locked u"
    using c(1) locked_frame [of u c] by (simp add: u_def)
  ultimately show ?thesis
    using None unfolding popup_grab_update_focus_def Let_def c_def [symmetric] u_def [symmetric]
    by (simp add: focus_locked_ungrabbed)
qed

lemma focus_locked_dismiss:
  assumes "session_locked g" "focus_locked g"
  shows "focus_locked (popup_grab_dismiss l g)"
proof -
  have "focus_locked (dismiss_loop l g)" "session_locked (dismiss_loop l g)"
    using assms dismiss_loop_fields [of l g] focus_locked_cong locked_frame by blast+
  then show ?thesis by (simp add: popup_grab_dismiss_def focus_locked_update)
qed

lemma surroundings_dismiss: "surroundings (popup_grab_dismiss l g) = surroundings g"
  using dismiss_loop_fields [of l g] by (simp add: popup_grab_dismiss_def)

lemma focus_locked_keyboard:
  assumes "session_locked g" "focus_locked g" "focus_allowed v g \<Longrightarrow> grab_apart v g"
  shows "focus_locked (keyboard_set_focus v g)"
proof (cases "focus_allowed v g")
  case True
  have i: "focus_locked (input_focus_set v h)" if "surroundings h = surroundings g" for h
    using surroundings_fields [OF focus_set_fields(6) [of v h]] surroundings_fields [OF that] True assms(1)
    by (auto simp: focus_locked_def focus_allowed_def split: option.splits)
  have f: "keyboard_set_focus v g = input_focus_set v g \<or>
      keyboard_set_focus v g = input_focus_set v (popup_grab_dismiss None g)"
    using True assms(3)
    by (auto simp: keyboard_set_focus_def xdg_popup_grab_filter_keyboard_focus_def grab_apart_def
        popup_grab_topmost_def split: list.splits option.splits)
  then show ?thesis using i surroundings_dismiss by metis
qed (use assms(2) in \<open>simp add: keyboard_set_focus_def\<close>)

text \<open>The same for whatever else happens to the grab.\<close>

lemma focus_locked_window_focus:
  assumes "session_locked g" "focus_locked g" "no_locker_grab g"
  shows "focus_locked (swc_window_focus v g)"
proof -
  define d where "d = xdg_popup_grab_defer_window_focus v g"
  have "fst d \<or> snd d = g \<or> snd d = popup_grab_dismiss None g"
    by (auto simp: d_def xdg_popup_grab_defer_window_focus_def split: option.splits)
  moreover have "focus_locked (snd d)"
    using assms(1,2) by (auto simp: d_def xdg_popup_grab_defer_window_focus_def focus_locked_dismiss
        split: option.splits)
  moreover have "focus_locked (keyboard_set_focus v (emit e h))"
    if "h = g \<or> h = popup_grab_dismiss None g" for h e
  proof (rule focus_locked_keyboard)
    have s: "surroundings (emit e h) = surroundings g" using that surroundings_dismiss by auto
    show "session_locked (emit e h)" using s assms(1) locked_frame by blast
    show "focus_locked (emit e h)" using that assms(1,2) focus_locked_dismiss by auto
    assume "focus_allowed v (emit e h)"
    then have "focus_allowed v g" using surroundings_fields(4-6) [OF s] by (simp add: focus_allowed_def split: option.splits)
    then have "grab_apart v g" using assms(1,3) no_locker_apart by blast
    then show "grab_apart v (emit e h)" using that by (auto simp: grab_apart_def emit_def)
  qed
  ultimately show ?thesis
    using assms(2) unfolding swc_window_focus_def d_def [symmetric] by (auto simp: case_prod_unfold Let_def)
qed

lemma keyboard_frame: "surroundings (keyboard_set_focus v g) = surroundings g"
  by (auto simp: keyboard_set_focus_def xdg_popup_grab_filter_keyboard_focus_def surroundings_dismiss
      split: option.splits)

lemma unfocus: "focus (keyboard_set_focus None g) = None"
  by (auto simp: keyboard_set_focus_def focus_allowed_def input_focus_set_def Let_def
      xdg_popup_grab_filter_keyboard_focus_def popup_in_grab_def popup_from_view_def split: option.splits)

definition grab_keeps :: "popup_grab \<Rightarrow> popup_grab \<Rightarrow> bool" where
  "grab_keeps g g' \<longleftrightarrow> surroundings g' = surroundings g \<and>
     (session_locked g \<longrightarrow> focus_locked g \<longrightarrow> focus_locked g')"

lemma grab_keeps_trans: "grab_keeps g h \<Longrightarrow> grab_keeps h k \<Longrightarrow> grab_keeps g k"
  using locked_frame unfolding grab_keeps_def by metis

lemma grab_keeps_same: "surroundings g' = surroundings g \<Longrightarrow> focus g' = focus g \<Longrightarrow> grab_keeps g g'"
  using focus_locked_cong [of g' g] by (simp add: grab_keeps_def)

lemma grab_keeps_dismiss: "grab_keeps g (popup_grab_dismiss l g)" "grab_keeps g (popup_dismiss p g)"
proof -
  show "grab_keeps g (popup_grab_dismiss l g)"
    by (simp add: grab_keeps_def surroundings_dismiss focus_locked_dismiss)
  show "grab_keeps g (popup_dismiss p g)" by (rule grab_keeps_same) simp_all
qed

lemma grab_keeps_update: "grab_keeps g (popup_grab_update_focus g)"
  by (simp add: grab_keeps_def focus_locked_update)

lemma grab_keeps_grab:
  assumes "popup_role g (p_view (popup g p)) = Some p"
  shows "grab_keeps g (grab seat recent c p g)"
proof -
  define pp where "pp = popup_from_view g (p_parent (popup g p))"
  define g1 where "g1 = update_popup p (\<lambda>q. q\<lparr>grabbed := True\<rparr>) g"
  define g2 where "g2 = (if pp = None \<and> popup_grab_topmost g1 \<noteq> None then popup_grab_dismiss None g1 else g1)"
  define g3 where "g3 = (if popups g2 = []
    then (clear_pending (set_restore (focus g2) (g2\<lparr>grab_client := Some c\<rparr>)))\<lparr>watching := True\<rparr> else g2)"
  define g4 where "g4 = g3\<lparr>popups := p # popups g3\<rparr>"
  have k1: "grab_keeps g g1" by (rule grab_keeps_same) (simp_all add: g1_def update_popup_def surroundings_def fun_eq_iff)
  have k2: "grab_keeps g1 g2" using grab_keeps_dismiss grab_keeps_same [of g1 g1] by (simp add: g2_def)
  have k3: "grab_keeps g2 g3" by (rule grab_keeps_same) (simp_all add: g3_def)
  have "grab_keeps g3 g4" by (rule grab_keeps_same) (simp_all add: g4_def)
  then have k4: "grab_keeps g g4" using k1 k2 k3 grab_keeps_trans by blast
  note s = surroundings_fields [OF conjunct1 [OF k4 [unfolded grab_keeps_def]]]
  have "popup_in_grab g4 (popup_from_view g4 (Some (p_view (popup g4 p))))"
    using assms by (simp add: popup_from_view_def s) (simp add: g4_def)
  then have "keyboard_set_focus (Some (p_view (popup g4 p))) g4 = unfiltered_set_focus (Some (p_view (popup g4 p))) g4"
    by (simp add: unfiltered_is_keyboard_set_focus)
  then have k5: "grab_keeps g4 (keyboard_set_focus (Some (p_view (popup g4 p))) g4)"
    by (simp add: grab_keeps_def focus_locked_unfiltered)
  have "grab_keeps g1 (emit e g1)" "grab_keeps g (emit e g)" "grab_keeps g g" for e
    by (simp_all add: grab_keeps_same)
  note k = this(2,3) grab_keeps_trans [OF k1 this(1)] grab_keeps_trans [OF k1 grab_keeps_dismiss(2) [of g1 p]]
    grab_keeps_trans [OF k4 k5]
  show ?thesis
    unfolding grab_def Let_def pp_def [symmetric] g1_def [symmetric] g2_def [symmetric]
      g3_def [symmetric] g4_def [symmetric]
    by (simp only: k split: if_split) simp
qed

lemma grab_keeps_destroy: "grab_keeps g (destroy_popup p g)"
proof -
  define h where "h = (case p_parent (popup g p) of Some v \<Rightarrow> remove_listener v (Parent_listener p) g | None \<Rightarrow> g)"
  have 1: "grab_keeps g h" by (rule grab_keeps_same) (simp_all add: h_def split: option.split)
  have k: "grab_keeps h (h\<lparr>popups := remove1 p (popups h)\<rparr>)" "grab_keeps h h" by (simp_all add: grab_keeps_same)
  have 2: "grab_keeps h (if popup_in_grab h (Some p)
      then popup_grab_update_focus (h\<lparr>popups := remove1 p (popups h)\<rparr>) else h)"
    using grab_keeps_trans [OF k(1) grab_keeps_update] k(2) by simp
  have "grab_keeps k (update_popup p (\<lambda>q. q\<lparr>p_serials := []\<rparr>) k)" for k
    by (rule grab_keeps_same) (simp_all add: update_popup_def surroundings_def fun_eq_iff)
  then show ?thesis
    unfolding destroy_popup_def Let_def h_def [symmetric]
    by (rule grab_keeps_trans [OF grab_keeps_trans [OF 1 2]])
qed

lemma grab_step_keeps:
  "grab_step g g' \<Longrightarrow> (session_locked g \<Longrightarrow> no_locker_grab g) \<Longrightarrow> grab_keeps g g'"
proof (induction rule: grab_step.induct)
  case (Grab g p seat recent)
  then show ?case using grab_keeps_grab by blast
next
  case (Pointer_button g pressed v)
  then show ?case using grab_keeps_dismiss grab_keeps_same [of g g] by (simp add: popup_grab_handle_button_def)
next
  case (Set_focus g v)
  then show ?case using focus_locked_keyboard no_locker_apart by (simp add: grab_keeps_def keyboard_frame)
next
  case (Window_focus g v)
  have "surroundings (swc_window_focus v g) = surroundings g"
    by (auto simp: swc_window_focus_def case_prod_unfold Let_def keyboard_frame surroundings_dismiss
        xdg_popup_grab_defer_window_focus_def split: option.splits)
  then show ?case using focus_locked_window_focus Window_focus by (simp add: grab_keeps_def)
next
  case (Parent_destroyed g p)
  show ?case
  proof (cases "p_parent (popup g p)")
    case (Some v)
    have "grab_keeps g (update_popup p (\<lambda>q. q\<lparr>p_parent := None\<rparr>) (remove_listener v (Parent_listener p) g))"
      by (rule grab_keeps_same)
        (simp_all add: update_popup_def remove_listener_def surroundings_def fun_eq_iff)
    then show ?thesis
      using Some grab_keeps_trans [OF _ grab_keeps_dismiss(1)] grab_keeps_trans [OF _ grab_keeps_dismiss(2)]
      by (simp add: handle_popup_parent_destroy_def Let_def)
  qed (simp add: handle_popup_parent_destroy_def grab_keeps_same)
next
  case (Destroy_request g p)
  then show ?case using grab_keeps_destroy grab_keeps_same by (simp add: popup_destroy_def)
next
  case (Destroyed g p)
  show ?case by (rule grab_keeps_destroy)
qed (rule grab_keeps_same; simp add: handle_restore_destroy_def handle_pending_destroy_def
      reposition_def xdg_popup_set_parent_def Let_def popup_record_configure_def popup_ack_configure_def
      view_move_by_def surroundings_def fun_eq_iff emit_def remove_listener_def
      add_listener_def update_popup_def split: option.splits)+

end
