(* ===== verification/Lock_Safety.thy ===== *)
theory Lock_Safety
  imports Session_Lock
begin

text \<open>
  What the session lock guarantees: over every sequence of lock requests, commits, presented
  frames, changes of the stack and of the keyboard's focus, a locked session shows only the lock
  layer and gives the keyboard only to views of it; it is unlocked only by its locker.
\<close>

section \<open>Layers\<close>

definition layers_bounded :: "compositor \<Rightarrow> bool" where
  "layers_bounded k \<longleftrightarrow> (\<forall>w. layer_of k w \<le> STACK_LOCK)"

text \<open>No view leaves the lock layer.\<close>

definition lock_views_kept :: "compositor \<Rightarrow> compositor \<Rightarrow> bool" where
  "lock_views_kept k k' \<longleftrightarrow> layers_bounded k' \<and> (\<forall>w. layer_of k w = STACK_LOCK \<longrightarrow> layer_of k' w = STACK_LOCK)"

lemma kept_layers: "(\<And>w. layer_of k' w = layer_of k w) \<Longrightarrow> layers_bounded k \<Longrightarrow> lock_views_kept k k'"
  by (simp add: lock_views_kept_def layers_bounded_def)

lemma kept_trans: "lock_views_kept k k' \<Longrightarrow> lock_views_kept k' k'' \<Longrightarrow> lock_views_kept k k''"
  by (simp add: lock_views_kept_def)

lemma kept_bounded: "lock_views_kept k k' \<Longrightarrow> layers_bounded k'"
  by (simp add: lock_views_kept_def)

lemma move_tree_keeps:
  assumes "layers_bounded k" "\<And>w. layer_of k' w = (if w = v then STACK_LOCK else layer_of k w)"
  shows "lock_views_kept k (draw es (restore_view_children v (ab, be) k'))"
  using assms by (auto simp: lock_views_kept_def layers_bounded_def layer_restore)

lemma raise_keeps:
  assumes "only_lock_shown k" "layers_bounded k" "raise_window v k = Some k'"
  shows "lock_views_kept k k'"
proof (cases "\<exists>x. window_view k v = Some (Some x) \<and> v_visible (cview k x)")
  case True
  then obtain x where x: "window_view k v = Some (Some x)" "v_visible (cview k x)" by blast
  then obtain ab be s where s: "take_view_children x k = Some ((ab, be), s)"
    using assms(3) by (auto simp: raise_window_def split: option.splits)
  have l: "layer_of k x = STACK_LOCK"
    using assms(1,2) x(2) by (simp add: only_lock_shown_def layers_bounded_def order_antisym)
  have k: "cview s = cview k" using take_children_kept [OF s [unfolded take_view_children_def]] by simp
  show ?thesis
    using assms(3) x s by (auto simp: raise_window_def Let_def k l intro!: move_tree_keeps [OF assms(2)])
next
  case False
  then have "k' = k" using assms(3) by (auto simp: raise_window_def split: option.splits if_splits)
  then show ?thesis using kept_layers [OF _ assms(2)] by simp
qed

lemma mark_shown_keeps:
  assumes "only_lock_shown k" "layers_bounded k" "\<not> deferred v k" "mark_shown up v k = Some k'"
  shows "lock_views_kept k k'"
proof -
  define s where "s = draw [Idle_inhibit_update] (update_view v (\<lambda>w. w\<lparr>v_screens := v_covers w\<rparr>)
      (draw [Update_extents v] (update_view v (\<lambda>w. w\<lparr>v_visible := True\<rparr>) k)))"
  have s: "only_lock_shown s" "lock_views_kept k s"
    using assms(1-3) by (auto simp: s_def only_lock_shown_def deferred_def intro!: kept_layers)
  obtain r where r: "(if v_window (cview s v) \<and> up then raise_window (Some v) s else Some s) = Some r"
    "k' = draw [Clear_clip v, Damage_view v, Update_view v] r"
    using assms(4) unfolding mark_shown_def Let_def s_def [symmetric] by (auto split: option.splits)
  have "lock_views_kept s r"
    using raise_keeps [OF s(1) kept_bounded [OF s(2)], of "Some v" r] r(1) kept_layers [OF _ kept_bounded [OF s(2)], of s]
    by (auto split: if_splits)
  then have "lock_views_kept k r" using s(2) kept_trans by blast
  then show ?thesis by (simp add: r(2) lock_views_kept_def layers_bounded_def)
qed

lemma show_keeps:
  "show_work up is k = Some k' \<Longrightarrow> only_lock_shown k \<Longrightarrow> layers_bounded k \<Longrightarrow> lock_views_kept k k'"
proof (induction up "is" k rule: show_work.induct)
  case (1 up k)
  then show ?case using kept_layers by simp
next
  case (2 up v "is" k)
  have d: "only_lock_shown (defer_show v k)" "lock_views_kept k (defer_show v k)"
    by (rule only_lock_cong [OF _ _ 2(5)], auto simp: defer_show_def intro!: kept_layers 2(6))
  show ?case
  proof (cases "showable v k \<and> \<not> deferred v k")
    case True
    then obtain s where s: "mark_shown up v k = Some s" "show_work up (Scan v None # is) s = Some k'"
      using 2(4) by (auto simp: show_work.simps(2) split: option.splits)
    have "lock_views_kept k s" using mark_shown_keeps 2(5,6) True s(1) by blast
    moreover have "lock_views_kept s k'"
      using 2(3) [of s] True s mark_shown_lock [OF 2(5) _ s(1)] kept_bounded [OF calculation] by blast
    ultimately show ?thesis using kept_trans by blast
  next
    case False
    show ?thesis
    proof (cases "showable v k")
      case True
      then have "show_work up is (defer_show v k) = Some k'" using False 2(4) by (simp add: show_work.simps(2))
      then show ?thesis using 2(2) True False d kept_bounded kept_trans by blast
    qed (use 2(1,4,5,6) in \<open>simp add: show_work.simps(2)\<close>)
  qed
next
  case (3 up v c "is" k)
  then show ?case by (cases "list_next c (views k)") (auto simp: show_work.simps(3) split: if_splits)
qed

lemma set_lock_layer_keeps:
  assumes "layers_bounded k" "compositor_view_set_stack_layer v STACK_LOCK up k = Some k'"
  shows "lock_views_kept k k'"
proof (cases "layer_of k v = STACK_LOCK \<and> \<not> up")
  case False
  then obtain ab be s where s: "take_view_children v k = Some ((ab, be), s)"
    using assms(2) by (auto simp: compositor_view_set_stack_layer_def split: option.splits)
  have k: "cview s = cview k" using take_children_kept [OF s [unfolded take_view_children_def]] by simp
  show ?thesis
    using assms(2) False s
    by (auto simp: compositor_view_set_stack_layer_def Let_def k restack_view_for_layer_def
        intro!: move_tree_keeps [OF assms(1)])
qed (use assms in \<open>simp add: compositor_view_set_stack_layer_def kept_layers\<close>)

section \<open>The keyboard\<close>

lemma hide_all_frame [simp]:
  "layer_of (fold compositor_view_hide vs k) w = layer_of k w"
  "views (fold compositor_view_hide vs k) = views k"
  "lock_active (fold compositor_view_hide vs k) = lock_active k"
  by (induction vs arbitrary: k) (simp_all add: compositor_view_hide_def)

lemma hide_all_lock: "only_lock_shown k \<Longrightarrow> only_lock_shown (fold compositor_view_hide vs k)"
  by (induction vs arbitrary: k) (simp_all add: compositor_view_hide_def hide_lock)

lemma hide_all_shrinks: "v_visible (cview (fold compositor_view_hide vs k) w) \<Longrightarrow> v_visible (cview k w)"
  by (induction vs arbitrary: k) (auto simp: compositor_view_hide_def dest: hide_shrinks)

section \<open>A contained session\<close>

definition contained :: "session \<Rightarrow> bool" where
  "contained st \<longleftrightarrow> lock_active (stack st) = locked st \<and> session_locked (keyboard st) = locked st \<and>
     views_hidden st = locked st \<and> (locked st \<longrightarrow>
       layers_bounded (stack st) \<and> only_lock_shown (stack st) \<and> focus_locked (synced st))"

definition core :: "session \<Rightarrow> compositor \<times> popup_grab \<times> bool \<times> bool" where
  "core st = (stack st, keyboard st, locked st, views_hidden st)"

lemma contained_core: "core st' = core st \<Longrightarrow> contained st' = contained st"
  by (simp add: core_def contained_def synced_def)

lemma core_basic [simp]:
  "core (lsend es st) = core st" "core (update_lock_surface s f st) = core st"
  "core (st\<lparr>sent_locked := b\<rparr>) = core st" "core (st\<lparr>lock_resource := r\<rparr>) = core st"
  "core (st\<lparr>lock_generation := i\<rparr>) = core st"
  "core (st\<lparr>lock_surfaces := ss\<rparr>) = core st" "core (st\<lparr>saved_focus := vo\<rparr>) = core st"
  "core (st\<lparr>lk_screens := scs\<rparr>) = core st" "core (st\<lparr>pointer_at := xy\<rparr>) = core st"
  "core (maybe_send_locked st) = core st" "core (lock_send_configure ser s st) = core st"
  "core (lock_surface_ack_configure ser s st) = core st"
  by (auto simp: core_def lsend_def update_lock_surface_def maybe_send_locked_def lock_send_configure_def
      lock_surface_ack_configure_def split: option.splits)

lemmas contained_basic [simp] = core_basic [THEN contained_core]

lemma focus_locked_synced:
  "focus_locked (synced st) \<longleftrightarrow>
     (\<forall>v. focus (keyboard st) = Some v \<longrightarrow> layer_of (stack st) v = STACK_LOCK)"
  by (simp add: focus_locked_def synced_def split: option.splits)

text \<open>Changes of the stack alone, and of the keyboard alone.\<close>

lemma contained_stack:
  assumes "contained st" "lock_active k = lock_active (stack st)"
    and "locked st \<Longrightarrow> only_lock_shown (stack st) \<Longrightarrow> layers_bounded (stack st) \<Longrightarrow>
      lock_views_kept (stack st) k \<and> only_lock_shown k"
  shows "contained (st\<lparr>stack := k\<rparr>)"
  using assms by (auto simp: contained_def focus_locked_synced lock_views_kept_def split: option.splits)

lemma contained_focus:
  assumes "contained st" "locked st \<Longrightarrow> focus_allowed v (synced st) \<Longrightarrow> grab_apart v (synced st)"
  shows "contained (set_keyboard_focus v st)"
proof -
  define g where "g = keyboard_set_focus v (synced st)"
  have f: "lock_layer g = (\<lambda>w. layer_of (stack st) w = STACK_LOCK)"
    "session_locked g = session_locked (keyboard st)"
    using surroundings_fields(4,6) [OF keyboard_frame [of v "synced st"]] by (simp_all add: g_def synced_def)
  have "session_locked (synced st) = locked st" using assms(1) by (simp add: contained_def synced_def)
  then have "focus_locked g" if "locked st"
    using focus_locked_keyboard [of "synced st" v] assms that by (simp add: g_def contained_def)
  then have "layer_of (stack st) x = STACK_LOCK" if "locked st" "focus g = Some x" for x
    using that f(1) by (simp add: focus_locked_def)
  then show ?thesis
    using assms(1) f(2)
    by (simp add: set_keyboard_focus_def Let_def g_def [symmetric] contained_def focus_locked_synced
        layers_bounded_def hide_all_lock split: option.splits)
qed

lemma hide_for_lock_lock:
  assumes "lock_active k" "\<And>w. v_visible (cview k w) \<Longrightarrow> w \<in> set (views k)"
  shows "only_lock_shown (compositor_hide_for_lock k) \<and> views (compositor_hide_for_lock k) = views k \<and>
    (\<forall>w. layer_of (compositor_hide_for_lock k) w = layer_of k w)"
proof -
  have "lock_active s \<and> views s = views k \<and> (\<forall>w. layer_of s w = layer_of k w) \<and>
      (\<forall>w. v_visible (cview s w) \<longrightarrow> STACK_LOCK \<le> layer_of k w \<or> w \<in> set vs) \<and> set vs \<subseteq> set (views k) \<Longrightarrow>
      lock_active (fold hide_for_lock vs s) \<and> views (fold hide_for_lock vs s) = views k \<and>
      (\<forall>w. layer_of (fold hide_for_lock vs s) w = layer_of k w) \<and>
      (\<forall>w. v_visible (cview (fold hide_for_lock vs s) w) \<longrightarrow> STACK_LOCK \<le> layer_of k w)" for vs s
  proof (induction vs arbitrary: s)
    case (Cons v vs)
    have "v_visible (cview (hide_for_lock v s) w) \<longrightarrow> STACK_LOCK \<le> layer_of k w \<or> w \<in> set vs" for w
      using Cons.prems hide_hides [of v "[v]" s] hide_shrinks(1) [of "[v]" s w]
      by (auto simp: hide_for_lock_def defer_show_def compositor_view_hide_def)
    moreover have "lock_active (hide_for_lock v s) \<and> views (hide_for_lock v s) = views k \<and>
        (\<forall>w. layer_of (hide_for_lock v s) w = layer_of k w)"
      using Cons.prems by (auto simp: hide_for_lock_def defer_show_def compositor_view_hide_def)
    ultimately show ?case using Cons.prems Cons.IH [of "hide_for_lock v s"] by simp
  qed auto
  from this [of k "views k"] assms show ?thesis
    by (auto simp: compositor_hide_for_lock_def only_lock_shown_def)
qed

section \<open>Each operation\<close>

lemma contained_begin:
  assumes "contained st" "\<not> locked st"
    and "layers_bounded (stack st)" "\<And>w. v_visible (cview (stack st) w) \<Longrightarrow> w \<in> set (views (stack st))"
  shows "contained (begin_lock st) \<and> locked (begin_lock st)"
proof -
  define a0 where "a0 = set_locked True (lsend [Input_mode_cancel, Overview_end]
    (st\<lparr>keyboard := (keyboard st)\<lparr>input_mode := False\<rparr>\<rparr>))"
  define a where "a = save_focus ((lsend [Text_input_suspend]
    (a0\<lparr>lock_generation := next_generation (lock_generation a0)\<rparr>))\<lparr>sent_locked := False\<rparr>)"
  define b where "b = set_keyboard_focus None a"
  define c where "c = (if \<not> views_hidden b
    then b\<lparr>stack := compositor_hide_for_lock (stack b), views_hidden := True\<rparr> else b)"
  have r: "begin_lock st = maybe_send_locked (lsend [Damage_all] c)"
    by (simp only: begin_lock_def Let_def a0_def a_def b_def c_def)
  have a: "stack a = (stack st)\<lparr>lock_active := True\<rparr>" "session_locked (synced a)" "locked a"
    "views_hidden a = views_hidden st"
    by (simp_all add: a_def a0_def save_focus_def lsend_def set_locked_def synced_def)
  have b': "stack b = fold compositor_view_hide (dismissed_views (keyboard b)
      (drop (length (g_sent (synced a))) (g_sent (keyboard b)))) (stack a)"
    "keyboard b = keyboard_set_focus None (synced a)" "locked b" "\<not> views_hidden b"
    using a assms(1,2) by (simp_all add: b_def set_keyboard_focus_def Let_def contained_def)
  have v: "w \<in> set (views (stack b))" if "v_visible (cview (stack b) w)" for w
  proof -
    have "v_visible (cview (stack a) w)" using that unfolding b'(1) by (rule hide_all_shrinks)
    then show ?thesis using assms(4) by (simp add: b'(1) a(1))
  qed
  have b: "lock_active (stack b)" "session_locked (keyboard b)" "locked b" "layers_bounded (stack b)"
    "focus (keyboard b) = None" "\<not> views_hidden b"
    using assms(3) a(2) surroundings_fields(6) [OF keyboard_frame [of None "synced a"]] b'(3,4)
    by (simp_all add: b'(1) a(1) layers_bounded_def) (simp_all add: b'(2) unfocus)
  define k where "k = compositor_hide_for_lock (stack b)"
  have k: "only_lock_shown k" "\<And>w. layer_of k w = layer_of (stack b) w"
    using hide_for_lock_lock [OF b(1) v] by (simp_all add: k_def)
  then have "lock_active k" "layers_bounded k" using b(4) by (simp_all add: only_lock_shown_def layers_bounded_def)
  then have "contained c"
    using b k by (simp add: c_def k_def [symmetric] contained_def focus_locked_synced)
  moreover have "locked c" using b(3) by (simp add: c_def)
  moreover have "core (begin_lock st) = core c" by (simp add: r)
  ultimately show ?thesis using contained_core [of "begin_lock st" c] by (simp add: core_def)
qed

lemma show_active: "show_work up is k = Some k' \<Longrightarrow> lock_active k' = lock_active k"
proof (induction up "is" k rule: show_work.induct)
  case (2 up v "is" k)
  show ?case
  proof (cases "showable v k \<and> \<not> deferred v k")
    case True
    then obtain s where s: "mark_shown up v k = Some s" "show_work up (Scan v None # is) s = Some k'"
      using 2(4) by (auto simp: show_work.simps(2) split: option.splits)
    then show ?thesis using 2(3) True mark_shown_kept(3) [OF s(1)] by (simp add: showable_def)
  next
    case False
    then show ?thesis using 2(1,2,4) by (auto simp: show_work.simps(2) split: if_splits)
  qed
next
  case (3 up v c "is" k)
  then show ?case by (cases "list_next c (views k)") (auto simp: show_work.simps(3) split: if_splits)
qed simp

lemma restore_active: "restore_views vs k = Some k' \<Longrightarrow> lock_active k' = lock_active k"
proof (induction vs arbitrary: k)
  case (Cons v vs)
  show ?case
  proof (cases "v_hidden_by_lock (cview k v)")
    case True
    then obtain s where "show_work False [Show v] (update_view v (\<lambda>w. w\<lparr>v_hidden_by_lock := False\<rparr>) k) = Some s"
      "restore_views vs s = Some k'"
      using Cons.prems by (auto simp: compositor_view_show_in_place_def split: option.splits)
    then show ?thesis using Cons.IH show_active by fastforce
  qed (use Cons in simp)
qed simp

lemma set_layer_active: "compositor_view_set_stack_layer v l up k = Some k' \<Longrightarrow> lock_active k' = lock_active k"
  by (auto simp: compositor_view_set_stack_layer_def Let_def take_view_children_def restack_view_for_layer_def
      dest!: take_children_kept split: if_splits option.splits)

lemma contained_end:
  assumes "contained st" "end_lock st = Some st'"
  shows "contained st' \<and> \<not> locked st'"
proof -
  define a where "a = (set_locked False st)\<lparr>sent_locked := False, lock_resource := None\<rparr>"
  obtain k where k: "k = stack a \<or> restore_views (views (stack a)) (stack a) = Some k"
    and r: "st' = lsend [Damage_all] (set_keyboard_focus (saved_focus a)
      (a\<lparr>stack := k, views_hidden := False, saved_focus := None\<rparr>))"
    using assms(2) unfolding end_lock_def Let_def a_def
    by (auto simp: compositor_restore_after_lock_def split: option.splits if_splits)
  have l: "\<not> lock_active k"
    using k restore_active [of _ "stack a" k] by (auto simp: a_def set_locked_def)
  have "contained (a\<lparr>stack := k, views_hidden := False, saved_focus := None\<rparr>)"
    using assms(1) l by (simp add: contained_def a_def set_locked_def)
  then show ?thesis
    using contained_focus [of "a\<lparr>stack := k, views_hidden := False, saved_focus := None\<rparr>" "saved_focus a"]
    by (simp add: r) (simp add: a_def set_locked_def set_keyboard_focus_def lsend_def Let_def)
qed

text \<open>No client with a lock surface holds a popup grab.\<close>

definition lockers_apart :: "session \<Rightarrow> bool" where
  "lockers_apart st \<longleftrightarrow> (\<forall>s \<in> set (lock_surfaces st). grab_apart (Some (ls_view (lock_surface st s))) (keyboard st))"

lemma choose_surface_mem:
  "choose_surface st c ss = Some s \<Longrightarrow> c = Some s \<or> s \<in> set ss \<and> ls_mapped (lock_surface st s)"
proof (induction ss arbitrary: c)
  case (Cons r ss)
  show ?case
    using Cons.prems Cons.IH [of c] Cons.IH [of "Some r"]
    by (cases c; cases "pointer_at st"; cases "screen_of st (ls_screen (lock_surface st r))";
        simp split: if_splits prod.splits; blast)
qed simp

lemma contained_choose:
  assumes "contained st" "lockers_apart st"
  shows "contained (focus_a_lock_surface st)"
proof (cases "choose_surface st None (lock_surfaces st)")
  case (Some s)
  have "grab_apart (Some (ls_view (lock_surface st s))) (synced st)"
    using choose_surface_mem [OF Some] assms(2) by (auto simp add: lockers_apart_def synced_def grab_apart_def)
  then show ?thesis using assms(1) Some by (simp add: focus_a_lock_surface_def contained_focus)
qed (use assms in \<open>simp add: focus_a_lock_surface_def\<close>)

lemma contained_map:
  assumes "contained st" "lockers_apart st" "map_lock_surface s st = Some st'"
  shows "contained st'"
proof -
  define v where "v = ls_view (lock_surface st s)"
  define a where "a = update_lock_surface s (\<lambda>l. l\<lparr>ls_mapped := True\<rparr>) st"
  define k where "k = update_view v (\<lambda>w. w\<lparr>v_always_top := True\<rparr>) (stack a)"
  obtain k1 k2 where k1: "compositor_view_set_stack_layer v STACK_LOCK True k = Some k1"
    and k2: "compositor_view_show v k1 = Some k2" and r: "st' = focus_a_lock_surface (a\<lparr>stack := k2\<rparr>)"
    using assms(3) unfolding map_lock_surface_def Let_def v_def [symmetric] a_def [symmetric] k_def [symmetric]
    by (auto split: option.splits)
  have a: "contained a" using assms(1) by (simp add: a_def)
  have k: "lock_views_kept (stack a) k" "only_lock_shown k"
    if "layers_bounded (stack a)" "only_lock_shown (stack a)"
    using that by (auto simp: k_def only_lock_shown_def intro!: kept_layers)
  have "lock_views_kept (stack a) k2 \<and> only_lock_shown k2"
    if h: "only_lock_shown (stack a)" "layers_bounded (stack a)"
  proof -
    have "lock_views_kept k k1" "only_lock_shown k1"
      using set_lock_layer_keeps [OF kept_bounded [OF k(1) [OF h(2,1)]] k1] set_layer_lock [OF k(2) [OF h(2,1)] k1]
      by simp_all
    moreover from this have "lock_views_kept k1 k2" "only_lock_shown k2"
      using show_keeps [OF k2 [unfolded compositor_view_show_def]] show_lock [OF k2 [unfolded compositor_view_show_def]]
        kept_bounded by blast+
    ultimately show ?thesis using k(1) [OF h(2,1)] kept_trans by blast
  qed
  moreover have "lock_active k2 = lock_active (stack a)"
    using set_layer_active [OF k1] show_active [OF k2 [unfolded compositor_view_show_def]] by (simp add: k_def)
  ultimately have "contained (a\<lparr>stack := k2\<rparr>)" using contained_stack [OF a] by blast
  moreover have "lockers_apart (a\<lparr>stack := k2\<rparr>)"
    using assms(2) by (simp add: lockers_apart_def a_def update_lock_surface_def)
  ultimately show ?thesis using contained_choose by (simp add: r)
qed

lemma orphan_all_layers [simp]: "layer_of (fold (orphan v) ws k) w = layer_of k w"
  by (induction ws arbitrary: k) (auto simp: orphan_def Let_def)

lemma orphan_all_active [simp]: "lock_active (fold (orphan v) ws k) = lock_active k"
  by (induction ws arbitrary: k) (auto simp: orphan_def Let_def)

lemma destroy_frame [simp]:
  "layer_of (compositor_view_destroy v k) w = layer_of k w"
  "lock_active (compositor_view_destroy v k) = lock_active k"
  by (simp_all add: compositor_view_destroy_def Let_def compositor_view_hide_def)

lemma contained_destroy:
  assumes "contained st"
  shows "contained (lock_view_destroyed v st)"
proof -
  define g1 where "g1 = handle_focus_view_destroy v (keyboard st)"
  define g2 where "g2 = (if ref_view (restore g1) = Some v then handle_restore_destroy g1 else g1)"
  define g3 where "g3 = (if ref_view (pending g2) = Some v then handle_pending_destroy g2 else g2)"
  have g: "focus g3 = None \<or> focus g3 = focus (keyboard st)" "session_locked g3 = session_locked (keyboard st)"
    by (auto simp: g3_def g2_def g1_def handle_focus_view_destroy_def handle_restore_destroy_def
        handle_pending_destroy_def remove_listener_def split: option.splits)
  have "only_lock_shown (compositor_view_destroy v (stack st))" if "only_lock_shown (stack st)"
    using that step_lock [OF Destroy] by blast
  moreover have "core (lock_view_destroyed v st) =
      (compositor_view_destroy v (stack st), g3, locked st, views_hidden st)"
    by (simp add: core_def lock_view_destroyed_def Let_def g3_def g2_def g1_def)
  ultimately show ?thesis
    using assms g by (auto simp: core_def contained_def focus_locked_synced layers_bounded_def)
qed

lemma contained_surface:
  assumes "contained st" "v \<notin> set (views (stack st))" "focus (keyboard st) \<noteq> Some v"
  shows "contained (get_lock_surface valid buffered alloc role ser scr r s v st)"
proof -
  define a where "a = st\<lparr>stack := compositor_create_view v (stack st)\<rparr>"
  have "only_lock_shown (compositor_create_view v (stack st))" if "only_lock_shown (stack st)"
    using that step_lock [OF Create [OF assms(2)]] by blast
  moreover have "layer_of (compositor_create_view v (stack st)) w =
      (if w = v then STACK_NORMAL else layer_of (stack st) w)"
    "lock_active (compositor_create_view v (stack st)) = lock_active (stack st)" for w
    by (auto simp: compositor_create_view_def new_cview_def)
  moreover have "STACK_NORMAL \<le> STACK_LOCK" by (simp add: STACK_NORMAL_def STACK_LOCK_def)
  ultimately have "contained a"
    using assms(1,3) by (auto simp: a_def contained_def focus_locked_synced layers_bounded_def)
  then show ?thesis
    using assms(1) unfolding get_lock_surface_def Let_def a_def [symmetric] by simp
qed

lemma contained_commit:
  assumes "contained st" "lockers_apart st" "handle_lock_surface_commit s st = Some st'"
  shows "contained st'"
proof -
  define l where "l = lock_surface st s"
  have m: "contained (maybe_send_locked u)"
    if "(if \<not> ls_mapped l then map_lock_surface s (lsend es st) else Some (lsend es st)) = Some u" for es u
  proof (cases "ls_mapped l")
    case False
    have "lockers_apart (lsend es st)" using assms(2) by (simp add: lockers_apart_def lsend_def)
    then show ?thesis using that False contained_map [of "lsend es st" s u] assms(1) by simp
  qed (use that assms(1) in \<open>auto\<close>)
  show ?thesis
    using assms(1,3) m unfolding handle_lock_surface_commit_def Let_def l_def [symmetric]
    by (auto split: if_split_asm option.split_asm)
qed

section \<open>Steps\<close>

text \<open>
  What can happen while the lock's state exists: its requests and signals, the commits of lock
  surfaces' clients, presented frames and screens, any change of the stack of views and of the
  keyboard's focus, and the destruction of views.  What the lock relies on: a view is visible only
  while it is linked; a new view is a new one; the rest of the compositor moves no view out of the
  lock layer; and lock surfaces' clients hold no popup grab.
\<close>

inductive lock_step :: "session \<Rightarrow> session \<Rightarrow> bool" where
  Lock: "layers_bounded (stack st) \<Longrightarrow>
    (\<And>w. v_visible (cview (stack st) w) \<Longrightarrow> w \<in> set (views (stack st))) \<Longrightarrow>
    lock_step st (manager_lock alloc r st)"
| Unlock: "unlock_and_destroy r st = Some st' \<Longrightarrow> lock_step st st'"
| Lock_gone: "lock_step st (destroy_lock r st)"
| Surface: "v \<notin> set (views (stack st)) \<Longrightarrow> focus (keyboard st) \<noteq> Some v \<Longrightarrow>
    lock_step st (get_lock_surface valid buffered alloc role ser scr r s v st)"
| Ack: "lock_step st (lock_surface_ack_configure ser s st)"
| Attach: "lock_step st (update_lock_surface s (\<lambda>l. l\<lparr>ls_buffer := b, ls_width := x, ls_height := y\<rparr>) st)"
| Commit: "handle_lock_surface_commit s st = Some st' \<Longrightarrow> lockers_apart st \<Longrightarrow> lock_step st st'"
| Surface_gone: "lock_step st (destroy_lock_surface s st)"
| Screen_gone: "lock_step st (handle_lock_screen_destroy s st)"
| Presented: "lock_step st (session_lock_frame_presented i gen st)"
| Screens: "lock_step st (st\<lparr>lk_screens := scs\<rparr>)"
| Pointer_moved: "lock_step st (st\<lparr>pointer_at := xy\<rparr>)"
| Stack_changed: "stack_step (stack st) k \<Longrightarrow> (locked st \<Longrightarrow> lock_views_kept (stack st) k) \<Longrightarrow>
    lock_step st (st\<lparr>stack := k\<rparr>)"
| Keyboard_changed: "grab_step (synced st) g \<Longrightarrow> (locked st \<Longrightarrow> no_locker_grab (synced st)) \<Longrightarrow>
    lock_step st (st\<lparr>keyboard := g, stack := fold compositor_view_hide
      (dismissed_views g (drop (length (g_sent (keyboard st))) (g_sent g))) (stack st)\<rparr>)"
| View_destroyed: "lock_step st (lock_view_destroyed v st)"

lemma restack_active: "compositor_view_restack v w front k = Some k' \<Longrightarrow> lock_active k' = lock_active k"
  unfolding compositor_view_restack_def Let_def take_view_children_def
  by (auto dest!: take_children_kept split: if_split_asm option.split_asm bool.split_asm prod.split_asm)

lemma step_active: "stack_step k k' \<Longrightarrow> lock_active k' = lock_active k"
proof (induction rule: stack_step.induct)
  case (Raise v k k')
  then show ?case
    by (auto simp: raise_window_def Let_def take_view_children_def dest!: take_children_kept
        split: if_splits option.splits)
next
  case (Restack v w front k k')
  show ?case by (rule restack_active [OF Restack(1)])
next
  case (Stack v d k k')
  then show ?case by (auto simp: swc_window_stack_def dest: restack_active split: if_splits option.splits)
next
  case (Set_parent v p k k')
  then show ?case
    by (auto simp: compositor_view_set_parent_def compositor_view_show_def compositor_view_hide_def Let_def
        dest!: show_active split: if_splits option.splits)
qed (auto simp: compositor_create_view_def compositor_view_hide_def compositor_view_show_def
    compositor_view_show_in_place_def show_active set_layer_active)

lemma contained_hide:
  assumes "contained st"
  shows "contained (st\<lparr>stack := compositor_view_hide v (stack st)\<rparr>)"
  using assms by (intro contained_stack) (auto simp: compositor_view_hide_def hide_lock intro!: kept_layers)

lemma contained_step: "lock_step st st' \<Longrightarrow> contained st \<Longrightarrow> contained st'"
proof (induction rule: lock_step.induct)
  case (Lock st alloc r)
  have "contained (begin_lock (st\<lparr>lock_resource := Some r\<rparr>))" if "\<not> locked st"
    using contained_begin [of "st\<lparr>lock_resource := Some r\<rparr>"] Lock that by simp
  then show ?case using Lock(3) by (simp add: manager_lock_def)
next
  case (Unlock r st st')
  then show ?case using contained_end [OF Unlock(2), of st'] by (auto simp: unlock_and_destroy_def split: if_splits)
next
  case (Commit s st st')
  then show ?case using contained_commit by blast
next
  case (Surface_gone st s)
  then show ?case by (simp add: destroy_lock_surface_def Let_def contained_destroy)
next
  case (Screen_gone st s)
  then show ?case by (simp add: handle_lock_screen_destroy_def Let_def contained_hide)
next
  case (Stack_changed st k)
  then show ?case by (intro contained_stack) (auto simp: step_active step_lock)
next
  case (Keyboard_changed st g)
  have f: "session_locked (synced st) = session_locked (keyboard st)" by (simp add: synced_def)
  have k: "grab_keeps (synced st) g"
    using grab_step_keeps [OF Keyboard_changed(1)] Keyboard_changed(2,3) f by (simp add: contained_def)
  note s = surroundings_fields [OF conjunct1 [OF k [unfolded grab_keeps_def]]]
  have "layer_of (stack st) x = STACK_LOCK" if "locked st" "focus g = Some x" for x
    using k that Keyboard_changed(3) f s(4)
    by (simp add: grab_keeps_def contained_def focus_locked_def) (simp add: synced_def)
  then show ?case
    using Keyboard_changed(3) s(6) f
    by (auto simp: contained_def focus_locked_synced layers_bounded_def hide_all_lock)
qed (simp_all add: contained_surface contained_destroy destroy_lock_def Let_def session_lock_frame_presented_def)

section \<open>Who locks and unlocks\<close>

definition told :: "session \<Rightarrow> nat \<Rightarrow> bool" where
  "told st r \<longleftrightarrow> Lock_locked r \<in> set (lock_sent st)"

text \<open>Nothing about the lock changes; at most its locker is told that the session is locked.\<close>

definition quiet :: "session \<Rightarrow> session \<Rightarrow> bool" where
  "quiet st st' \<longleftrightarrow> locked st' = locked st \<and> lock_resource st' = lock_resource st \<and>
     sent_locked st' = sent_locked st \<and> told st' = told st"

definition announces :: "session \<Rightarrow> session \<Rightarrow> bool" where
  "announces st st' \<longleftrightarrow> quiet st st' \<or>
     (\<exists>r. locked st' = locked st \<and> lock_resource st = Some r \<and> lock_resource st' = Some r \<and>
        sent_locked st' \<and> all_screens_covered st' \<and> last (lock_sent st') = Lock_locked r)"

lemma quiet_send: "quiet st (lsend es st') \<longleftrightarrow> quiet st st'" if "\<And>r. Lock_locked r \<notin> set es"
  using that by (auto simp: quiet_def told_def lsend_def fun_eq_iff)

lemma quiet_fields [simp]:
  "quiet st st" "quiet st (update_lock_surface s f st') = quiet st st'"
  "quiet st (st'\<lparr>stack := k\<rparr>) = quiet st st'" "quiet st (st'\<lparr>keyboard := g\<rparr>) = quiet st st'"
  "quiet st (st'\<lparr>lock_surfaces := ss\<rparr>) = quiet st st'" "quiet st (st'\<lparr>saved_focus := vo\<rparr>) = quiet st st'"
  "quiet st (st'\<lparr>lk_screens := scs\<rparr>) = quiet st st'" "quiet st (st'\<lparr>pointer_at := xy\<rparr>) = quiet st st'"
  by (simp_all add: quiet_def told_def update_lock_surface_def fun_eq_iff)

lemma quiet_focus [simp]: "quiet st (set_keyboard_focus v st') = quiet st st'"
  "quiet st (focus_a_lock_surface st') = quiet st st'" "quiet st (lock_view_destroyed w st') = quiet st st'"
proof -
  show f: "quiet st (set_keyboard_focus v st') = quiet st st'" for v
    by (simp add: set_keyboard_focus_def Let_def)
  show "quiet st (focus_a_lock_surface st') = quiet st st'"
    by (simp add: focus_a_lock_surface_def f split: option.split)
  show "quiet st (lock_view_destroyed w st') = quiet st st'" by (simp add: lock_view_destroyed_def Let_def)
qed

lemma announces_send: "quiet st st' \<Longrightarrow> announces st (maybe_send_locked st')"
  by (auto simp: maybe_send_locked_def announces_def quiet_def lsend_def all_screens_covered_def
      split: option.splits)

lemma quiet_announces: "quiet st st' \<Longrightarrow> announces st st'"
  by (simp add: announces_def)

lemma announces_commit: "handle_lock_surface_commit s st = Some st' \<Longrightarrow> announces st st'"
proof -
  assume c: "handle_lock_surface_commit s st = Some st'"
  have "quiet st u" if "map_lock_surface s (lsend [Lock_view_move v x y] st) = Some u" for u v x y
    using that by (auto simp: map_lock_surface_def Let_def quiet_send split: option.splits)
  then show ?thesis
    using c by (auto simp: handle_lock_surface_commit_def Let_def quiet_send
        split: if_split_asm option.split_asm intro: announces_send quiet_announces)
qed

lemma step_announces:
  "lock_step st st' \<Longrightarrow>
     announces st st' \<or> (\<exists>alloc r. st' = manager_lock alloc r st) \<or>
     (\<exists>r. unlock_and_destroy r st = Some st') \<or> (\<exists>r. st' = destroy_lock r st)"
proof (induction rule: lock_step.induct)
  case (Commit s st st')
  then show ?case using announces_commit by blast
next
  case (Screen_gone st s)
  then show ?case by (auto simp: handle_lock_screen_destroy_def Let_def intro!: announces_send)
next
  case (Presented st i gen)
  then show ?case by (auto simp: session_lock_frame_presented_def announces_def [of st st] intro!: announces_send)
next
  case (Surface v st valid buffered alloc role ser scr r s)
  have "quiet st (get_lock_surface valid buffered alloc role ser scr r s v st)"
    by (simp add: get_lock_surface_def Let_def quiet_send lock_send_configure_def split: option.split)
  then show ?case by (simp add: announces_def)
next
  case (Ack st ser s)
  then show ?case by (simp add: announces_def lock_surface_ack_configure_def quiet_send)
next
  case (Surface_gone st s)
  then show ?case by (simp add: announces_def destroy_lock_surface_def Let_def quiet_send)
qed (auto simp: announces_def)

lemma begin_lock_result:
  obtains u where "begin_lock st = maybe_send_locked u" "locked u" "lock_resource u = lock_resource st"
    "\<not> sent_locked u"
proof
  let ?a = "set_locked True (lsend [Input_mode_cancel, Overview_end] (st\<lparr>keyboard := (keyboard st)\<lparr>input_mode := False\<rparr>\<rparr>))"
  let ?b = "set_keyboard_focus None (save_focus ((lsend [Text_input_suspend]
    (?a\<lparr>lock_generation := next_generation (lock_generation ?a)\<rparr>))\<lparr>sent_locked := False\<rparr>))"
  let ?u = "lsend [Damage_all] (if \<not> views_hidden ?b
    then ?b\<lparr>stack := compositor_hide_for_lock (stack ?b), views_hidden := True\<rparr> else ?b)"
  show "begin_lock st = maybe_send_locked ?u" by (simp only: begin_lock_def Let_def)
  show "locked ?u" "lock_resource ?u = lock_resource st" "\<not> sent_locked ?u"
    by (simp_all add: lsend_def set_locked_def save_focus_def set_keyboard_focus_def Let_def)
qed

lemma end_lock_result: "end_lock st = Some st' \<Longrightarrow> \<not> locked st' \<and> lock_resource st' = None \<and> \<not> sent_locked st'"
  by (auto simp: end_lock_def Let_def set_locked_def set_keyboard_focus_def lsend_def split: option.splits if_splits)

lemma unlock_result:
  assumes "unlock_and_destroy r st = Some st'"
  shows "quiet st st' \<or> lock_resource st = Some r \<and> sent_locked st \<and> end_lock st = Some st'"
  using assms by (auto simp: unlock_and_destroy_def quiet_send split: if_splits)

lemma manager_lock_result:
  assumes "locked st"
  shows "quiet st (manager_lock alloc r st)"
  using assms by (simp add: manager_lock_def quiet_send)

lemma destroy_lock_result:
  "locked (destroy_lock r st) = locked st" "sent_locked (destroy_lock r st) = sent_locked st"
  "told (destroy_lock r st) = told st"
  "lock_resource (destroy_lock r st) = (if lock_resource st = Some r then None else lock_resource st)"
  by (auto simp: destroy_lock_def Let_def lsend_def told_def fun_eq_iff)

section \<open>Mapping a lock surface\<close>

text \<open>A view that is not a window's, nor a subsurface's, and has no children.\<close>

definition bare :: "compositor \<Rightarrow> nat \<Rightarrow> bool" where
  "bare k v \<longleftrightarrow> (\<forall>w. parent_of k w \<noteq> Some v) \<and> \<not> v_window (cview k v) \<and> v_subsurface (cview k v) = None"

lemma bare_no_descendants: "bare k v \<Longrightarrow> \<not> descends (parent_of k) w v"
  unfolding bare_def descends_def by (auto elim: tranclE)

lemma bare_set_layer:
  assumes "stack_ok k" "v \<in> set (views k)" "bare k v"
  obtains k' where "compositor_view_set_stack_layer v STACK_LOCK True k = Some k'"
    "cview k' = (cview k)(v := (cview k v)\<lparr>v_layer := STACK_LOCK\<rparr>)" "set (views k') = set (views k)"
    "lock_active k' = lock_active k"
proof -
  have a: "acyclic_parents k" "distinct (views k)" using assms(1) by (simp_all add: stack_ok_def)
  have e: "tree_front k v = []" "tree_back k v = []"
    using bare_no_descendants [OF assms(3)] by (simp_all add: tree_front_def tree_back_def)
  have o: "set (others k v) = set (views k) - {v}"
    using bare_no_descendants [OF assms(3)] by (auto simp: others_def)
  define P where "P = (\<lambda>w. STACK_LOCK < layer_of k w \<or> \<not> True \<and> layer_of k w = STACK_LOCK)"
  obtain k' where k': "compositor_view_set_stack_layer v STACK_LOCK True k = Some k'"
    "views k' = takeWhile P (others k v) @ tree_front k v @ v # tree_back k v @ dropWhile P (others k v)"
    using set_stack_layer_places [OF a assms(2) _ P_def] by blast
  obtain ab be s where s: "take_view_children v k = Some ((ab, be), s)"
    using k'(1) by (auto simp: compositor_view_set_stack_layer_def split: option.splits)
  have "c \<notin> set ab \<union> set be" for c
    using take_children_descend [OF s [unfolded take_view_children_def]] bare_no_descendants [OF assms(3), of c]
    by auto
  then have "set ab \<union> set be = {}" by (meson equals0I)
  then have "ab = []" "be = []" by simp_all
  moreover note take_children_kept [OF s [unfolded take_view_children_def]]
  ultimately have "cview k' = (cview k)(v := (cview k v)\<lparr>v_layer := STACK_LOCK\<rparr>)" "lock_active k' = lock_active k"
    using k'(1) s
    by (auto simp: compositor_view_set_stack_layer_def Let_def restore_view_children_def
        restack_view_for_layer_def update_view_def draw_def)
  moreover have "set (takeWhile P (others k v)) \<union> set (dropWhile P (others k v)) = set (others k v)"
    by (metis set_append takeWhile_dropWhile_id)
  then have "set (views k') = set (views k)" using k'(2) e o assms(2) by auto
  ultimately show thesis using that k'(1) by blast
qed

lemma scan_childless:
  "(\<And>w. parent_of k w \<noteq> Some v) \<Longrightarrow> show_work up (Scan v c # is) k = show_work up is k"
proof (induction "length (list_next c (views k))" arbitrary: c rule: less_induct)
  case less
  show ?case
  proof (cases "list_next c (views k)")
    case (Cons w ws)
    then have "show_work up (Scan v c # is) k = show_work up (Scan v (Some w) # is) k"
      by (subst show_work.simps(3)) (simp add: less(2))
    also have "\<dots> = show_work up is k"
      using less(1) [OF _ less(2)] list_next_shrinks [OF Cons] Cons by simp
    finally show ?thesis .
  qed (simp add: show_work.simps(3))
qed

lemma bare_show:
  assumes "v \<in> set (views k)" "bare k v" "\<not> v_visible (cview k v)" "\<not> deferred v k"
  obtains k' where "compositor_view_show v k = Some k'" "v_visible (cview k' v)"
    "\<And>w. layer_of k' w = layer_of k w"
proof
  define k' where "k' = draw [Clear_clip v, Damage_view v, Update_view v] (draw [Idle_inhibit_update]
    (update_view v (\<lambda>w. w\<lparr>v_screens := v_covers w\<rparr>)
      (draw [Update_extents v] (update_view v (\<lambda>w. w\<lparr>v_visible := True\<rparr>) k))))"
  have m: "mark_shown True v k = Some k'" using assms(2) by (simp add: mark_shown_def Let_def k'_def bare_def)
  have "parent_of k' = parent_of k" by (auto simp: k'_def)
  then show "compositor_view_show v k = Some k'"
    using assms m by (simp add: compositor_view_show_def show_work.simps(2) showable_iff can_show_def
        bare_def scan_childless)
  show "v_visible (cview k' v)" "layer_of k' w = layer_of k w" for w by (simp_all add: k'_def)
qed

lemma choose_surface_finds:
  "s \<in> set ss \<Longrightarrow> ls_mapped (lock_surface st s) \<Longrightarrow> choose_surface st c ss \<noteq> None"
proof -
  have "choose_surface st c ss = None \<Longrightarrow> c = None \<and> (\<forall>s \<in> set ss. \<not> ls_mapped (lock_surface st s))"
  proof (induction ss arbitrary: c)
    case (Cons r ss)
    show ?case
      using Cons.prems Cons.IH [of c] Cons.IH [of "Some r"] Cons.IH [of "Some (the c)"]
      by (cases c; cases "pointer_at st"; cases "screen_of st (ls_screen (lock_surface st r))";
          simp split: if_splits prod.splits)
  qed simp
  then show "s \<in> set ss \<Longrightarrow> ls_mapped (lock_surface st s) \<Longrightarrow> ?thesis" by blast
qed

lemma focus_lock_view:
  assumes "popups (keyboard st) = []" "\<not> input_mode (keyboard st)" "layer_of (stack st) v = STACK_LOCK"
  shows "focus (keyboard (set_keyboard_focus (Some v) st)) = Some v"
    "stack (set_keyboard_focus (Some v) st) = stack st"
proof -
  have k: "keyboard_set_focus (Some v) (synced st) = input_focus_set (Some v) (synced st)"
    using assms by (simp add: unfiltered_is_keyboard_set_focus synced_def unfiltered_set_focus_def
        focus_allowed_def)
  show "focus (keyboard (set_keyboard_focus (Some v) st)) = Some v"
    by (simp add: set_keyboard_focus_def Let_def k)
  have "g_sent (input_focus_set (Some v) (synced st)) = g_sent (synced st)" by simp
  then show "stack (set_keyboard_focus (Some v) st) = stack st"
    by (simp add: set_keyboard_focus_def Let_def k dismissed_views_def)
qed

section \<open>Properties\<close>

text \<open>The session before its first lock.\<close>

definition never_locked :: "session \<Rightarrow> bool" where
  "never_locked st \<longleftrightarrow> \<not> locked st \<and> \<not> lock_active (stack st) \<and> \<not> session_locked (keyboard st) \<and>
     \<not> views_hidden st"


text \<open>C34: Only the locker's own \<open>unlock_and_destroy\<close>, after it was told that the session is locked, ends
  the lock; and it is told so only once every screen has presented a frame of this lock.\<close>

theorem unlock_needs_locker:
  assumes "lock_step st st'"
  shows "(locked st \<and> \<not> locked st' \<longrightarrow>
      (\<exists>r. lock_resource st = Some r \<and> sent_locked st \<and> unlock_and_destroy r st = Some st')) \<and>
    (\<not> sent_locked st \<and> sent_locked st' \<longrightarrow>
      (\<exists>r. lock_resource st' = Some r \<and> all_screens_covered st' \<and> last (lock_sent st') = Lock_locked r))"
  using step_announces [OF assms]
proof (elim disjE exE)
  fix alloc r assume m: "st' = manager_lock alloc r st"
  show ?thesis
  proof (cases "locked st \<or> \<not> alloc")
    case True
    then have "quiet st st'" by (auto simp: m manager_lock_def quiet_send)
    then show ?thesis by (simp add: quiet_def)
  next
    case False
    obtain u where u: "st' = maybe_send_locked u" "locked u" "\<not> sent_locked u" "lock_resource u = Some r"
      using False by (auto simp: m manager_lock_def intro: begin_lock_result [of "st\<lparr>lock_resource := Some r\<rparr>"])
    then show ?thesis
      using False by (auto simp: maybe_send_locked_def lsend_def all_screens_covered_def)
  qed
next
  fix r assume u: "unlock_and_destroy r st = Some st'"
  then show ?thesis using unlock_result [OF u] end_lock_result [of st st'] by (auto simp: quiet_def)
qed (auto simp: announces_def quiet_def destroy_lock_result)

text \<open>A session whose locker has gone is never unlocked: no later client is given the lock, none is
  told that the session is locked, and no request ends it.\<close>

theorem abandoned_lock_stays:
  assumes "locked st" and "lock_resource st = None" and "lock_step\<^sup>*\<^sup>* st st'"
  shows "locked st' \<and> lock_resource st' = None \<and>
    (\<forall>r. Lock_locked r \<in> set (lock_sent st') \<longrightarrow> Lock_locked r \<in> set (lock_sent st))"
proof -
  have "locked st' \<and> lock_resource st' = None \<and> told st' = told st"
    using assms(3)
  proof (induction rule: rtranclp_induct)
    case (step u w)
    have "quiet u w \<or> (\<exists>r. w = destroy_lock r u)"
      using step_announces [OF step(2)] step(3) manager_lock_result [of u]
      by (auto simp: announces_def dest: unlock_result)
    then show ?case using step(3) by (auto simp: quiet_def destroy_lock_result)
  qed (use assms in simp)
  then show ?thesis by (simp add: told_def fun_eq_iff)
qed

text \<open>Once its client has acknowledged a configure and committed a buffer of the screen's size, a lock
  surface is shown in the lock layer and a mapped lock surface has the keyboard.  The commit does not
  ask whether the session is still locked: a surface that outlives the lock covers the screen and
  takes the keyboard of an unlocked session.\<close>

theorem commit_shows_lock_surface:
  fixes st s
  defines "l \<equiv> lock_surface st s"
  defines "v \<equiv> ls_view l"
  assumes "screen_of st (ls_screen l) = Some sc" and "ls_buffer l" "ls_acked l" "\<not> ls_mapped l"
    and "ls_width l = rect_width (sc_geometry sc)" "ls_height l = rect_height (sc_geometry sc)"
    and "s \<in> set (lock_surfaces st)"
    and "stack_ok (stack st)" "v \<in> set (views (stack st))" "bare (stack st) v" "\<not> v_visible (cview (stack st) v)"
    and "\<And>r. r \<in> set (lock_surfaces st) \<Longrightarrow> ls_mapped (lock_surface st r) \<Longrightarrow>
      layer_of (stack st) (ls_view (lock_surface st r)) = STACK_LOCK"
    and "popups (keyboard st) = []" "\<not> input_mode (keyboard st)"
  shows "\<exists>st'. handle_lock_surface_commit s st = Some st' \<and>
    v_visible (cview (stack st') v) \<and> layer_of (stack st') v = STACK_LOCK \<and>
    (\<exists>r \<in> set (lock_surfaces st'). ls_mapped (lock_surface st' r) \<and>
       focus (keyboard st') = Some (ls_view (lock_surface st' r)))"
proof -
  define a where "a = update_lock_surface s (\<lambda>l. l\<lparr>ls_mapped := True\<rparr>)
    (lsend [Lock_view_move v (rect_x (sc_geometry sc)) (rect_y (sc_geometry sc))] st)"
  define k where "k = update_view v (\<lambda>w. w\<lparr>v_always_top := True\<rparr>) (stack st)"
  have p: "parent_of k = parent_of (stack st)" by (auto simp: k_def)
  have k: "stack_ok k" "v \<in> set (views k)" "bare k v" "\<not> v_visible (cview k v)"
    using assms(10-13) by (auto simp: stack_ok_def acyclic_cong [OF p] bare_def p) (simp_all add: k_def)
  obtain k1 where k1: "compositor_view_set_stack_layer v STACK_LOCK True k = Some k1"
    "cview k1 = (cview k)(v := (cview k v)\<lparr>v_layer := STACK_LOCK\<rparr>)" "set (views k1) = set (views k)"
    by (rule bare_set_layer [OF k(1-3)])
  have b: "bare k1 v" "\<not> v_visible (cview k1 v)" "\<not> deferred v k1" "v \<in> set (views k1)"
    using k by (auto simp: bare_def k1 parent_of_def deferred_def)
  obtain k2 where k2: "compositor_view_show v k1 = Some k2" "v_visible (cview k2 v)"
    "\<And>w. layer_of k2 w = layer_of k1 w"
    by (rule bare_show [OF b(4,1,2,3)]) (rule that, assumption+)
  define st2 where "st2 = a\<lparr>stack := k2\<rparr>"
  have l2: "layer_of (stack st2) w = (if w = v then STACK_LOCK else layer_of (stack st) w)" for w
    by (simp add: st2_def k2(3) k1(2) k_def)
  have kk: "k = update_view v (\<lambda>w. w\<lparr>v_always_top := True\<rparr>) (stack a)" "ls_view (lock_surface a s) = v"
    "ls_view (lock_surface (lsend es st) s) = v" for es
    by (simp_all add: k_def a_def update_lock_surface_def lsend_def v_def l_def)
  have "map_lock_surface s (lsend [Lock_view_move v (rect_x (sc_geometry sc)) (rect_y (sc_geometry sc))] st) =
      Some (focus_a_lock_surface st2)"
    using k1(1) k2(1) unfolding map_lock_surface_def Let_def a_def [symmetric] st2_def
    by (simp add: kk(1) [symmetric] kk(3))
  then have m: "handle_lock_surface_commit s st = Some (maybe_send_locked (focus_a_lock_surface st2))"
    using assms(3-8) by (simp add: handle_lock_surface_commit_def Let_def l_def v_def)
  have ls: "lock_surfaces st2 = lock_surfaces st" "ls_view (lock_surface st2 r) = ls_view (lock_surface st r)"
    "ls_mapped (lock_surface st2 r) \<longleftrightarrow> r = s \<or> ls_mapped (lock_surface st r)" "keyboard st2 = keyboard st" for r
    by (auto simp: st2_def a_def update_lock_surface_def lsend_def)
  obtain r where r: "choose_surface st2 None (lock_surfaces st2) = Some r"
    using choose_surface_finds [of s "lock_surfaces st2" st2 None] assms(9) ls by auto
  have rm: "r \<in> set (lock_surfaces st)" "ls_mapped (lock_surface st2 r)"
    using choose_surface_mem [OF r] by (simp_all add: ls)
  then have "layer_of (stack st2) (ls_view (lock_surface st2 r)) = STACK_LOCK"
    using assms(14) by (auto simp: l2 ls v_def l_def)
  note f = focus_lock_view [OF _ _ this, unfolded ls(4), OF assms(15,16)]
  have "focus_a_lock_surface st2 = set_keyboard_focus (Some (ls_view (lock_surface st2 r))) st2"
    by (simp add: focus_a_lock_surface_def r)
  then have "stack (maybe_send_locked (focus_a_lock_surface st2)) = k2"
    "focus (keyboard (maybe_send_locked (focus_a_lock_surface st2))) = Some (ls_view (lock_surface st2 r))"
    "lock_surfaces (maybe_send_locked (focus_a_lock_surface st2)) = lock_surfaces st"
    "lock_surface (maybe_send_locked (focus_a_lock_surface st2)) = lock_surface st2"
    using f ls(1)
    by (auto simp: maybe_send_locked_def lsend_def set_keyboard_focus_def Let_def st2_def split: option.split)
  then show ?thesis using m rm k2(2) l2 [of v] by (auto simp: st2_def)
qed

text \<open>When the lock surface that has the keyboard is destroyed, the keyboard is given to nobody, even if
  another lock surface is still mapped.\<close>

theorem lost_lock_surface_leaves_no_focus:
  assumes "focus (keyboard st) = Some (ls_view (lock_surface st s))"
    and "r \<in> set (lock_surfaces st)" "r \<noteq> s" "ls_mapped (lock_surface st r)"
  shows "let st' = destroy_lock_surface s st
    in focus (keyboard st') = None \<and> r \<in> set (lock_surfaces st') \<and> ls_mapped (lock_surface st' r)"
proof -
  have k: "focus (handle_restore_destroy g) = focus g" "focus (handle_pending_destroy g) = focus g" for g
    by (simp_all add: handle_restore_destroy_def handle_pending_destroy_def split: option.split)
  show ?thesis
    using assms by (simp add: destroy_lock_surface_def lock_view_destroyed_def handle_focus_view_destroy_def
        Let_def lsend_def k)
qed

section \<open>An example\<close>

text \<open>
  One screen, the views of \<open>sample_hidden\<close>, of which 2 has the keyboard; a locker makes one lock
  surface, with view 9, for the screen.
\<close>

definition sample_unlocked :: session where
  "sample_unlocked = \<lparr>stack = sample_hidden, keyboard = sample_menu\<lparr>focus := Some 2\<rparr>, pointer_at = Some (5, 5),
     lock_resource = None, locked = False, sent_locked = False, views_hidden = False, lock_generation = 0,
     lock_surfaces = [], lock_surface = (\<lambda>_. \<lparr>ls_view = 0, ls_screen = None, ls_serial = 0, ls_acked = False,
       ls_mapped = False, ls_buffer = False, ls_width = 0, ls_height = 0\<rparr>), saved_focus = None,
     lk_screens = [\<lparr>sc_id = 0, sc_geometry = mk_rect 0 0 800 600, sc_presented = 0\<rparr>], lock_sent = []\<rparr>"

definition sample_lock :: session where
  "sample_lock = manager_lock True 1 sample_unlocked"

definition sample_ready :: session where
  "sample_ready = update_lock_surface 0 (\<lambda>l. l\<lparr>ls_buffer := True, ls_width := 800, ls_height := 600\<rparr>)
     (lock_surface_ack_configure 7 0 (get_lock_surface True False True True 7 (Some 0) 1 0 9 sample_lock))"

definition sample_mapped :: session where
  "sample_mapped = the (handle_lock_surface_commit 0 sample_ready)"

lemma sample_never: "never_locked sample_unlocked"
  by (simp add: never_locked_def sample_unlocked_def sample_hidden_def sample_stack_def sample_menu_def)

lemma sample_lock_step: "lock_step sample_unlocked sample_lock"
  unfolding sample_lock_def
proof (rule Lock)
  show "layers_bounded (stack sample_unlocked)"
    by (auto simp: layers_bounded_def sample_unlocked_def sample_hidden_def sample_view_def new_cview_def
        STACK_LOCK_def STACK_NORMAL_def STACK_OVERLAY_def)
  show "w \<in> set (views (stack sample_unlocked))" if "v_visible (cview (stack sample_unlocked) w)" for w
    using that by (auto simp: sample_unlocked_def sample_hidden_def sample_stack_def new_cview_def split: if_splits)
qed

lemma sample_ready_step: "lock_step\<^sup>*\<^sup>* sample_lock sample_ready"
proof -
  let ?a = "get_lock_surface True False True True 7 (Some 0) 1 0 9 sample_lock"
  have "lock_step sample_lock ?a" by (rule Surface) code_simp+
  moreover have "lock_step ?a (lock_surface_ack_configure 7 0 ?a)" by (rule Ack)
  moreover have "lock_step (lock_surface_ack_configure 7 0 ?a) sample_ready"
    unfolding sample_ready_def by (rule Attach)
  ultimately show ?thesis by (meson converse_rtranclp_into_rtranclp rtranclp.rtrancl_refl)
qed

lemma sample_mapped_step: "lock_step sample_ready sample_mapped"
proof (rule Commit)
  have "\<not> Option.is_none (handle_lock_surface_commit 0 sample_ready)" by code_simp
  then show "handle_lock_surface_commit 0 sample_ready = Some sample_mapped"
    by (auto simp: sample_mapped_def Option.is_none_def)
  show "lockers_apart sample_ready" by code_simp
qed


theorem unlock_needs_locker_witness:
  "let st = session_lock_frame_presented 0 1 sample_mapped
   in \<not> sent_locked sample_mapped \<and> sent_locked st \<and>
    (\<exists>r. lock_resource st = Some r \<and> all_screens_covered st \<and> last (lock_sent st) = Lock_locked r) \<and>
    \<not> locked (the (unlock_and_destroy 1 st)) \<and> v_visible (cview (stack (the (unlock_and_destroy 1 st))) 2)"
proof -
  have "lock_step sample_mapped (session_lock_frame_presented 0 1 sample_mapped)" by (rule Presented)
  moreover have "\<not> sent_locked sample_mapped" "sent_locked (session_lock_frame_presented 0 1 sample_mapped)"
    by code_simp+
  moreover have "\<not> locked (the (unlock_and_destroy 1 (session_lock_frame_presented 0 1 sample_mapped)))"
    "v_visible (cview (stack (the (unlock_and_destroy 1 (session_lock_frame_presented 0 1 sample_mapped)))) 2)"
    by code_simp+
  ultimately show ?thesis unfolding Let_def using unlock_needs_locker by blast
qed

theorem abandoned_lock_stays_witness:
  "let st = the (unlock_and_destroy 1 (destroy_lock 1 sample_lock))
   in locked st \<and> lock_resource st = None \<and> last (lock_sent st) = Lock_error 1 LOCK_INVALID_UNLOCK"
proof -
  have "\<not> Option.is_none (unlock_and_destroy 1 (destroy_lock 1 sample_lock))" by code_simp
  then have "lock_step (destroy_lock 1 sample_lock) (the (unlock_and_destroy 1 (destroy_lock 1 sample_lock)))"
    by (intro Unlock [of 1]) (auto simp: Option.is_none_def)
  then have s: "lock_step\<^sup>*\<^sup>* (destroy_lock 1 sample_lock) (the (unlock_and_destroy 1 (destroy_lock 1 sample_lock)))"
    by blast
  have "locked (destroy_lock 1 sample_lock)" "lock_resource (destroy_lock 1 sample_lock) = None"
    "last (lock_sent (the (unlock_and_destroy 1 (destroy_lock 1 sample_lock)))) = Lock_error 1 LOCK_INVALID_UNLOCK"
    by code_simp+
  then show ?thesis using abandoned_lock_stays [OF _ _ s] by (simp add: Let_def)
qed

text \<open>An unlocked session with a lock surface that was acknowledged but not yet mapped, and one with two
  mapped lock surfaces of which the first has the keyboard.\<close>

definition sample_late :: session where
  "sample_late = sample_unlocked\<lparr>stack := compositor_create_view 9 sample_hidden, lock_surfaces := [0],
     lock_surface := (\<lambda>_. \<lparr>ls_view = 9, ls_screen = Some 0, ls_serial = 7, ls_acked = True,
       ls_mapped = False, ls_buffer = True, ls_width = 800, ls_height = 600\<rparr>)\<rparr>"

definition sample_two :: session where
  "sample_two = sample_late\<lparr>lock_surfaces := [0, 1], lock_surface := (\<lambda>s. (lock_surface sample_late s)
     \<lparr>ls_view := s + 9, ls_mapped := True\<rparr>), keyboard := sample_menu\<lparr>focus := Some 9\<rparr>\<rparr>"

theorem commit_shows_lock_surface_witness:
  "\<not> locked sample_late \<and> (\<exists>st'. handle_lock_surface_commit 0 sample_late = Some st' \<and>
     v_visible (cview (stack st') 9) \<and> layer_of (stack st') 9 = STACK_LOCK \<and>
     (\<exists>r \<in> set (lock_surfaces st'). ls_mapped (lock_surface st' r) \<and>
       focus (keyboard st') = Some (ls_view (lock_surface st' r))))"
proof -
  define k where "k = compositor_create_view 9 sample_hidden"
  have p: "parent_of k w = (if w = 3 \<or> w = 4 then Some 2 else None)" for w
    by (auto simp: k_def compositor_create_view_def parent_of_def sample_hidden_def sample_stack_def
        sample_view_def new_cview_def)
  have "acyclic_parents k"
    unfolding acyclic_parents_def p by (rule exI [of _ "\<lambda>v. if v = 2 then 0 else 1"]) simp
  then have ok: "stack_ok k"
    by (simp add: stack_ok_def) (simp add: k_def compositor_create_view_def sample_hidden_def sample_stack_def)
  have b: "bare k 9" unfolding bare_def p by (simp add: k_def compositor_create_view_def new_cview_def)
  have v: "9 \<in> set (views k)" "\<not> v_visible (cview k 9)"
    by (simp_all add: k_def compositor_create_view_def new_cview_def)
  have l: "lock_surface sample_late r = \<lparr>ls_view = 9, ls_screen = Some 0, ls_serial = 7, ls_acked = True,
       ls_mapped = False, ls_buffer = True, ls_width = 800, ls_height = 600\<rparr>" for r
    by (simp add: sample_late_def)
  have s: "stack sample_late = k" "lock_surfaces sample_late = [0]" "popups (keyboard sample_late) = []"
    "\<not> input_mode (keyboard sample_late)" "\<not> locked sample_late"
    "screen_of sample_late (Some 0) = Some \<lparr>sc_id = 0, sc_geometry = mk_rect 0 0 800 600, sc_presented = 0\<rparr>"
    by (simp_all add: sample_late_def sample_unlocked_def sample_menu_def k_def screen_of_def)
  show ?thesis
    using commit_shows_lock_surface [where st = sample_late and s = 0
        and sc = "\<lparr>sc_id = 0, sc_geometry = mk_rect 0 0 800 600, sc_presented = 0\<rparr>"] ok b v s
    by (simp add: l mk_rect_def)
qed

theorem lost_lock_surface_leaves_no_focus_witness:
  "let st' = destroy_lock_surface 0 sample_two
   in focus (keyboard sample_two) = Some 9 \<and> focus (keyboard st') = None \<and>
     1 \<in> set (lock_surfaces st') \<and> ls_mapped (lock_surface st' 1)"
proof -
  have "focus (keyboard sample_two) = Some (ls_view (lock_surface sample_two 0))"
    "1 \<in> set (lock_surfaces sample_two)" "(1::nat) \<noteq> 0" "ls_mapped (lock_surface sample_two 1)"
    "focus (keyboard sample_two) = Some 9" by code_simp+
  from lost_lock_surface_leaves_no_focus [OF this(1-4)] this(5) show ?thesis by (simp only: Let_def)
qed

end
