(* ===== verification/Input_Focus.thy ===== *)
theory Input_Focus
  imports Prelude
begin

text \<open>
  Input focus (\<open>libswc/input.c\<close>), which the keyboard and the pointer share: the focused view and
  its client, the client's input resources (active) and everyone else's (inactive), and the ring
  of serials recently sent to clients.

  A focus calls its owner to tell resources that they are entered or left.  The owner is the state
  \<open>'k\<close> of the definitions, and the calls are the arguments \<open>enter\<close> and \<open>leave\<close>.
\<close>

section \<open>The focus\<close>

text \<open>
  \<open>fc_linked\<close> is the view whose destroy signal holds the focus's listener.  \<open>resource_client\<close> and
  \<open>surface_client\<close> are libwayland's clients of a resource and of a view's surface.
\<close>

record input_focus =
  fc_client :: "nat option"
  fc_view :: "nat option"
  fc_linked :: "nat option"
  fc_active :: "nat list"
  fc_inactive :: "nat list"
  fc_events :: "(nat option \<times> nat option) list"
  resource_client :: "nat \<Rightarrow> nat"
  surface_client :: "nat \<Rightarrow> nat"

type_synonym 'k focus_call = "nat list \<Rightarrow> nat option \<Rightarrow> 'k \<Rightarrow> 'k"

definition input_focus_initialize :: "(nat \<Rightarrow> nat) \<Rightarrow> (nat \<Rightarrow> nat) \<Rightarrow> input_focus" where
  "input_focus_initialize rc sc = \<lparr>fc_client = None, fc_view = None, fc_linked = None, fc_active = [],
     fc_inactive = [], fc_events = [], resource_client = rc, surface_client = sc\<rparr>"

text \<open>The loop inserts each resource of the client at the head of the active list.\<close>

definition focus :: "'k focus_call \<Rightarrow> nat option \<Rightarrow> input_focus \<times> 'k \<Rightarrow> input_focus \<times> 'k" where
  "focus enter v = (\<lambda>(f, k).
     let client = map_option (surface_client f) v;
         mine = (\<lambda>r. Some (resource_client f r) = client);
         f = (case v of None \<Rightarrow> f
              | Some w \<Rightarrow> f\<lparr>fc_active := rev (filter mine (fc_inactive f)) @ fc_active f,
                  fc_inactive := filter (\<lambda>r. \<not> mine r) (fc_inactive f), fc_linked := Some w\<rparr>);
         f = f\<lparr>fc_client := client, fc_view := v\<rparr>
     in (f, enter (fc_active f) v k))"

definition unfocus :: "'k focus_call \<Rightarrow> input_focus \<times> 'k \<Rightarrow> input_focus \<times> 'k" where
  "unfocus leave = (\<lambda>(f, k).
     let f = (if fc_view f \<noteq> None then f\<lparr>fc_linked := None\<rparr> else f);
         k = leave (fc_active f) (fc_view f) k
     in (f\<lparr>fc_inactive := fc_active f @ fc_inactive f, fc_active := []\<rparr>, k))"

definition changed :: "nat option \<Rightarrow> nat option \<Rightarrow> input_focus \<times> 'k \<Rightarrow> input_focus \<times> 'k" where
  "changed old new = (\<lambda>(f, k). (f\<lparr>fc_events := fc_events f @ [(old, new)]\<rparr>, k))"

text \<open>The handler runs when the view that holds the listener is destroyed.\<close>

definition handle_focus_view_destroy :: "'k focus_call \<Rightarrow> input_focus \<times> 'k \<Rightarrow> input_focus \<times> 'k" where
  "handle_focus_view_destroy leave = (\<lambda>(f, k).
     let v = fc_view f;
         (f, k) = (if v \<noteq> None then unfocus leave (f, k) else (f, k))
     in changed v None (f\<lparr>fc_client := None, fc_view := None\<rparr>, k))"

definition input_focus_finalize :: "input_focus \<Rightarrow> input_focus" where
  "input_focus_finalize f =
     (if fc_view f \<noteq> None then f\<lparr>fc_linked := None, fc_view := None\<rparr> else f)"

definition input_focus_add_resource :: "'k focus_call \<Rightarrow> nat \<Rightarrow> input_focus \<times> 'k \<Rightarrow> input_focus \<times> 'k" where
  "input_focus_add_resource enter r = (\<lambda>(f, k).
     if Some (resource_client f r) = fc_client f
     then (f\<lparr>fc_active := r # fc_active f\<rparr>, enter [r] (fc_view f) k)
     else (f\<lparr>fc_inactive := r # fc_inactive f\<rparr>, k))"

definition input_focus_remove_resource :: "nat \<Rightarrow> input_focus \<Rightarrow> input_focus" where
  "input_focus_remove_resource r f =
     f\<lparr>fc_active := remove1 r (fc_active f), fc_inactive := remove1 r (fc_inactive f)\<rparr>"

definition input_focus_set ::
  "'k focus_call \<Rightarrow> 'k focus_call \<Rightarrow> nat option \<Rightarrow> input_focus \<times> 'k \<Rightarrow> input_focus \<times> 'k" where
  "input_focus_set enter leave v = (\<lambda>(f, k).
     if v = fc_view f then (f, k)
     else changed (fc_view f) v (focus enter v (unfocus leave (f, k))))"

text \<open>The destruction of a view, with the listener on it.\<close>

definition focus_view_destroyed :: "'k focus_call \<Rightarrow> nat \<Rightarrow> input_focus \<times> 'k \<Rightarrow> input_focus \<times> 'k" where
  "focus_view_destroyed leave v = (\<lambda>(f, k).
     if fc_linked f = Some v then handle_focus_view_destroy leave (f, k) else (f, k))"

section \<open>What a focus keeps\<close>

text \<open>
  The active resources are the focused client's and the inactive ones everyone else's; the listener
  is on the focused view and nowhere else.
\<close>

definition focus_ok :: "input_focus \<Rightarrow> bool" where
  "focus_ok f \<longleftrightarrow> fc_client f = map_option (surface_client f) (fc_view f) \<and> fc_linked f = fc_view f \<and>
     distinct (fc_active f @ fc_inactive f) \<and>
     (\<forall>r \<in> set (fc_active f). Some (resource_client f r) = fc_client f) \<and>
     (\<forall>r \<in> set (fc_inactive f). Some (resource_client f r) \<noteq> fc_client f)"

text \<open>
  The owner of a focus: \<open>told k r\<close> is what the resource \<open>r\<close> was last told, \<open>None\<close> when it is not
  entered, and \<open>current k\<close> what an entered resource should know.
\<close>

locale focus_owner =
  fixes enter :: "'k focus_call" and leave :: "'k focus_call"
    and told :: "'k \<Rightarrow> nat \<Rightarrow> 'm option" and current :: "'k \<Rightarrow> 'm"
  assumes told_enter: "told (enter rs v k) r = (if r \<in> set rs then Some (current k) else told k r)"
    and told_leave: "told (leave rs v k) r = (if r \<in> set rs then None else told k r)"
    and current_enter: "current (enter rs v k) = current k"
    and current_leave: "current (leave rs v k) = current k"
begin

definition in_step :: "input_focus \<times> 'k \<Rightarrow> bool" where
  "in_step = (\<lambda>(f, k). focus_ok f \<and> (\<forall>r \<in> set (fc_active f). told k r = Some (current k)) \<and>
     (\<forall>r \<in> set (fc_inactive f). told k r = None))"

lemma unfocus_in_step:
  assumes "in_step (f, k)" "unfocus leave (f, k) = (f', k')"
  shows "fc_active f' = []" "set (fc_inactive f') = set (fc_active f) \<union> set (fc_inactive f)"
    "distinct (fc_inactive f')" "\<forall>r \<in> set (fc_inactive f'). told k' r = None"
    "fc_linked f' = None" "current k' = current k" "resource_client f' = resource_client f"
    "surface_client f' = surface_client f" "fc_view f' = fc_view f"
  using assms
  by (auto simp: unfocus_def Let_def in_step_def focus_ok_def told_leave current_leave split: if_splits)

lemma set_in_step:
  assumes "in_step (f, k)"
  shows "in_step (input_focus_set enter leave v (f, k))"
proof (cases "v = fc_view f")
  case False
  obtain f' k' where u: "unfocus leave (f, k) = (f', k')" by (metis surj_pair)
  note p = unfocus_in_step [OF assms u]
  show ?thesis
  proof (cases v)
    case None
    then show ?thesis
      using False u p
      by (auto simp: input_focus_set_def changed_def focus_def Let_def in_step_def focus_ok_def
          told_enter)
  next
    case (Some w)
    then show ?thesis
      using False u p
      by (auto simp: input_focus_set_def changed_def focus_def Let_def in_step_def focus_ok_def
          told_enter current_enter)
  qed
qed (use assms in \<open>simp add: input_focus_set_def\<close>)

lemma destroyed_in_step:
  assumes "in_step (f, k)"
  shows "in_step (focus_view_destroyed leave v (f, k))"
proof (cases "fc_linked f = Some v")
  case True
  obtain f' k' where u: "unfocus leave (f, k) = (f', k')" by (metis surj_pair)
  have "fc_view f \<noteq> None" using True assms by (auto simp: in_step_def focus_ok_def)
  then show ?thesis
    using True u unfocus_in_step [OF assms u]
    by (auto simp: focus_view_destroyed_def handle_focus_view_destroy_def changed_def Let_def
        in_step_def focus_ok_def)
qed (use assms in \<open>simp add: focus_view_destroyed_def\<close>)

lemma add_in_step:
  assumes "in_step (f, k)" "r \<notin> set (fc_active f) \<union> set (fc_inactive f)" "told k r = None"
  shows "in_step (input_focus_add_resource enter r (f, k))"
  using assms
  by (auto simp: input_focus_add_resource_def in_step_def focus_ok_def told_enter current_enter)

lemma remove_in_step:
  "in_step (f, k) \<Longrightarrow> in_step (input_focus_remove_resource r f, k)"
  by (auto simp: input_focus_remove_resource_def in_step_def focus_ok_def distinct_remove1
      dest: notin_set_remove1 in_set_remove1 set_remove1_subset [THEN subsetD])

text \<open>The owner may tell its active resources more, as long as they keep in step.\<close>

lemma tell_in_step:
  assumes "in_step (f, k)"
    and "\<And>r. r \<in> set (fc_active f) \<Longrightarrow> told k r = Some (current k) \<Longrightarrow> told k' r = Some (current k')"
    and "\<And>r. r \<notin> set (fc_active f) \<Longrightarrow> told k' r = told k r"
  shows "in_step (f, k')"
  using assms by (auto simp: in_step_def focus_ok_def)

end

text \<open>What the owner's calls leave alone, moving the focus leaves alone.\<close>

locale focus_frame =
  fixes enter :: "'k focus_call" and leave :: "'k focus_call" and frame :: "'k \<Rightarrow> 'r"
  assumes frame_enter: "frame (enter rs v k) = frame k"
    and frame_leave: "frame (leave rs v k) = frame k"
begin

lemma focus_frames:
  "frame (snd (input_focus_set enter leave v (f, k))) = frame k"
  "frame (snd (focus_view_destroyed leave w (f, k))) = frame k"
  "frame (snd (input_focus_add_resource enter r (f, k))) = frame k"
  by (simp_all add: input_focus_set_def changed_def focus_def unfocus_def focus_view_destroyed_def
      handle_focus_view_destroy_def input_focus_add_resource_def Let_def frame_enter frame_leave
      split: prod.split)

end

section \<open>Recent serials\<close>

text \<open>The ring starts out zeroed.\<close>

record serial_ring =
  slots :: "(nat option \<times> int) list"
  ring_next :: nat

definition no_serials :: serial_ring where
  "no_serials = \<lparr>slots = replicate 8 (None, 0), ring_next = 0\<rparr>"

definition input_record_serial :: "nat option \<Rightarrow> int \<Rightarrow> serial_ring \<Rightarrow> serial_ring" where
  "input_record_serial client serial r =
     \<lparr>slots = (slots r)[ring_next r := (client, serial)], ring_next = (ring_next r + 1) mod 8\<rparr>"

definition input_serial_is_recent :: "nat option \<Rightarrow> int \<Rightarrow> serial_ring \<Rightarrow> bool" where
  "input_serial_is_recent client serial r \<longleftrightarrow> (client, serial) \<in> set (slots r)"

text \<open>\<open>keyboard\<close> is the client of the keyboard's focus, if there is a seat with a keyboard.\<close>

definition input_can_set_selection :: "nat option \<Rightarrow> int \<Rightarrow> nat option option \<Rightarrow> serial_ring \<Rightarrow> bool" where
  "input_can_set_selection client serial keyboard r \<longleftrightarrow>
     client \<noteq> None \<and> keyboard = Some client \<and> input_serial_is_recent client serial r"

text \<open>The contents of the ring, oldest first.\<close>

definition ring_abs :: "serial_ring \<Rightarrow> (nat option \<times> int) list" where
  "ring_abs r = drop (ring_next r) (slots r) @ take (ring_next r) (slots r)"

definition ring_ok :: "serial_ring \<Rightarrow> bool" where
  "ring_ok r \<longleftrightarrow> length (slots r) = 8 \<and> ring_next r < 8"

lemma ring_record:
  assumes "ring_ok r"
  shows "ring_ok (input_record_serial c s r)" "ring_abs (input_record_serial c s r) = tl (ring_abs r) @ [(c, s)]"
proof -
  have l: "length (slots r) = 8" and n: "ring_next r < 8" using assms by (simp_all add: ring_ok_def)
  show "ring_ok (input_record_serial c s r)" using l by (simp add: ring_ok_def input_record_serial_def)
  have d: "drop (ring_next r) (slots r) = (slots r ! ring_next r) # drop (Suc (ring_next r)) (slots r)"
    using l n by (simp add: Cons_nth_drop_Suc)
  show "ring_abs (input_record_serial c s r) = tl (ring_abs r) @ [(c, s)]"
  proof (cases "ring_next r = 7")
    case True
    have "drop 7 (slots r) = [slots r ! 7]" using d True l by simp
    moreover have "(slots r)[7 := (c, s)] = take 7 (slots r) @ [(c, s)]"
      using l by (simp add: upd_conv_take_nth_drop)
    ultimately show ?thesis using True l by (simp add: ring_abs_def input_record_serial_def)
  next
    case False
    then have m: "(ring_next r + 1) mod 8 = Suc (ring_next r)" using n by simp
    show ?thesis
      using False n l d
      by (simp add: ring_abs_def input_record_serial_def m take_Suc_conv_app_nth drop_update_cancel)
  qed
qed

text \<open>The last \<open>n\<close> of a history.\<close>

definition last_of :: "nat \<Rightarrow> 'a list \<Rightarrow> 'a list" where
  "last_of n xs = drop (length xs - n) xs"

lemma last_of_snoc: "0 < n \<Longrightarrow> n \<le> length xs \<Longrightarrow> last_of n (xs @ [x]) = tl (last_of n xs) @ [x]"
  by (simp add: last_of_def tl_drop Suc_diff_le drop_Suc)

lemma ring_abs_history:
  "ring_ok (fold (\<lambda>(c, s). input_record_serial c s) hs no_serials) \<and>
   ring_abs (fold (\<lambda>(c, s). input_record_serial c s) hs no_serials) = last_of 8 (replicate 8 (None, 0) @ hs)"
proof (induction hs rule: rev_induct)
  case Nil
  show ?case by (simp add: ring_ok_def no_serials_def ring_abs_def last_of_def)
next
  case (snoc h hs)
  obtain c s where h: "h = (c, s)" by (metis surj_pair)
  have "last_of 8 ((replicate 8 (None, 0) @ hs) @ [(c, s)]) = tl (last_of 8 (replicate 8 (None, 0) @ hs)) @ [(c, s)]"
    by (rule last_of_snoc) simp_all
  then show ?case using snoc ring_record by (simp add: h)
qed

text \<open>C38: The ring of serials refines its history: it accepts exactly the serials among the last eight
  recorded, each for the client it was sent to.\<close>

theorem serials_recent:
  fixes c :: nat
  shows "input_serial_is_recent (Some c) s (fold (\<lambda>(c, s). input_record_serial c s) hs no_serials) \<longleftrightarrow>
    (Some c, s) \<in> set (last_of 8 hs)"
proof -
  let ?r = "fold (\<lambda>(c, s). input_record_serial c s) hs no_serials"
  have "set (slots ?r) = set (ring_abs ?r)"
    by (metis (no_types) append_take_drop_id ring_abs_def set_append sup_commute)
  also have "\<dots> = set (last_of 8 (replicate 8 (None, 0) @ hs))" using ring_abs_history by metis
  also have "\<dots> - {(None, 0)} = set (last_of 8 hs) - {(None, 0)}"
    by (auto simp: last_of_def dest: in_set_dropD)
  finally show ?thesis by (auto simp: input_serial_is_recent_def)
qed

end
