(* ===== verification/Keyboard.thy ===== *)
theory Keyboard
  imports Input_Focus "HOL-Library.Word"
begin

text \<open>
  The keyboard (\<open>libswc/keyboard.c\<close>): which handler took each pressed key, the keys and modifiers its
  clients are told of, and its focus, for which \<open>keyboard_set_focus\<close>'s filter is in \<open>Popup\<close>.

  xkbcommon's state of the keyboard is a value of the type \<open>'x\<close>, and its functions are arguments.
\<close>

section \<open>State\<close>

record modifier_state =
  depressed :: "32 word"
  latched :: "32 word"
  mods_locked :: "32 word"
  mods_group :: "32 word"

datatype kb_handler = Client_handler | Other_handler nat

text \<open>\<open>press\<close> and \<open>key\<close>; the private data of the press is its handler's.\<close>

record key =
  key_value :: nat
  key_serial :: int
  key_handler :: "kb_handler option"

datatype kb_event =
  Kb_enter nat int "nat option" "nat list"
  | Kb_leave nat int "nat option"
  | Kb_key nat int int nat bool
  | Kb_modifiers nat int "32 word" "32 word" "32 word" "32 word"

text \<open>\<open>last_serial\<close> is the last serial \<open>wl_display_next_serial\<close> returned, \<open>serials\<close> the recent ones.\<close>

record 'x keyboard =
  kb_focus :: input_focus
  keys :: "key list"
  kb_handlers :: "kb_handler list"
  client_keys :: "nat list"
  modifier_state :: modifier_state
  kb_modifiers :: "32 word"
  xkb_state :: 'x
  xkb_indices :: "nat \<times> nat \<times> nat \<times> nat"
  last_serial :: int
  serials :: serial_ring
  kb_sent :: "kb_event list"

definition no_modifiers :: modifier_state where
  "no_modifiers = \<lparr>depressed = 0, latched = 0, mods_locked = 0, mods_group = 0\<rparr>"

definition keyboard_create ::
  "(nat \<Rightarrow> nat) \<Rightarrow> (nat \<Rightarrow> nat) \<Rightarrow> 'x \<Rightarrow> nat \<times> nat \<times> nat \<times> nat \<Rightarrow> int \<Rightarrow> 'x keyboard" where
  "keyboard_create rc sc x idx ser = \<lparr>kb_focus = input_focus_initialize rc sc, keys = [],
     kb_handlers = [Client_handler], client_keys = [], modifier_state = no_modifiers, kb_modifiers = 0,
     xkb_state = x, xkb_indices = idx, last_serial = ser, serials = no_serials, kb_sent = []\<rparr>"

definition kb_emit :: "kb_event list \<Rightarrow> 'x keyboard \<Rightarrow> 'x keyboard" where
  "kb_emit es k = k\<lparr>kb_sent := kb_sent k @ es\<rparr>"

definition next_serial :: "'x keyboard \<Rightarrow> 'x keyboard" where
  "next_serial k = k\<lparr>last_serial := u32 (last_serial k + 1)\<rparr>"

section \<open>The focus\<close>

definition enter :: "'x keyboard focus_call" where
  "enter rs v k =
     (let k = next_serial k; ser = last_serial k; m = modifier_state k
      in kb_emit (concat (map (\<lambda>r. [Kb_enter r ser v (client_keys k),
           Kb_modifiers r ser (depressed m) (latched m) (mods_locked m) (mods_group m)]) rs)) k)"

definition leave :: "'x keyboard focus_call" where
  "leave rs v k = (let k = next_serial k in kb_emit (map (\<lambda>r. Kb_leave r (last_serial k) v) rs) k)"

definition on_focus ::
  "(input_focus \<times> 'x keyboard \<Rightarrow> input_focus \<times> 'x keyboard) \<Rightarrow> 'x keyboard \<Rightarrow> 'x keyboard" where
  "on_focus op k = (let (f, k) = op (kb_focus k, k) in k\<lparr>kb_focus := f\<rparr>)"

text \<open>What the other handlers' code may do to the keyboard: move its focus, or destroy a view.\<close>

datatype kb_op = Set_focus "nat option" | Destroy_view nat

fun run_op :: "kb_op \<Rightarrow> 'x keyboard \<Rightarrow> 'x keyboard" where
  "run_op (Set_focus v) k = on_focus (input_focus_set enter leave v) k"
| "run_op (Destroy_view v) k = on_focus (focus_view_destroyed leave v) k"

text \<open>\<open>keyboard_bind\<close>, past the creation of the resource \<open>r\<close>, and \<open>unbind\<close>.\<close>

definition keyboard_bind :: "nat \<Rightarrow> 'x keyboard \<Rightarrow> 'x keyboard" where
  "keyboard_bind r k = on_focus (input_focus_add_resource enter r) k"

definition unbind :: "nat \<Rightarrow> 'x keyboard \<Rightarrow> 'x keyboard" where
  "unbind r k = k\<lparr>kb_focus := input_focus_remove_resource r (kb_focus k)\<rparr>"

section \<open>Handlers\<close>

text \<open>\<open>alloc\<close>: whether \<open>wl_array_add\<close> gets memory.\<close>

definition client_handle_key :: "bool \<Rightarrow> int \<Rightarrow> key \<Rightarrow> bool \<Rightarrow> 'x keyboard \<Rightarrow> bool \<times> 'x keyboard" where
  "client_handle_key alloc time key pressed k =
     (if pressed \<and> \<not> alloc then (False, k)
      else
        let k = (if pressed then k\<lparr>client_keys := client_keys k @ [key_value key]\<rparr>
                 else k\<lparr>client_keys := remove1 (key_value key) (client_keys k)\<rparr>);
            f = kb_focus k;
            k = (if fc_active f \<noteq> []
                 then k\<lparr>serials := input_record_serial (fc_client f) (key_serial key) (serials k)\<rparr> else k)
        in (True, kb_emit (map (\<lambda>r. Kb_key r (key_serial key) time (key_value key) pressed) (fc_active f)) k))"

definition client_handle_modifiers :: "modifier_state \<Rightarrow> 'x keyboard \<Rightarrow> 'x keyboard" where
  "client_handle_modifiers m k =
     (if fc_active (kb_focus k) = [] then k
      else
        let k = next_serial k
        in kb_emit (map (\<lambda>r. Kb_modifiers r (last_serial k) (depressed m) (mods_locked m) (latched m)
             (mods_group m)) (fc_active (kb_focus k))) k)"

text \<open>
  \<open>answers n\<close>: whether the other handler \<open>n\<close> takes a pressed key, and what it does to the keyboard
  when it is asked.
\<close>

type_synonym answers = "nat \<Rightarrow> bool \<times> kb_op list"

fun call_handler ::
  "bool \<Rightarrow> answers \<Rightarrow> int \<Rightarrow> key \<Rightarrow> bool \<Rightarrow> kb_handler \<Rightarrow> 'x keyboard \<Rightarrow> bool \<times> 'x keyboard" where
  "call_handler alloc answers time key pressed Client_handler k = client_handle_key alloc time key pressed k"
| "call_handler alloc answers time key pressed (Other_handler n) k =
     (fst (answers n), fold run_op (snd (answers n)) k)"

text \<open>The loop over the handlers: the first that takes the key.\<close>

fun offer ::
  "bool \<Rightarrow> answers \<Rightarrow> int \<Rightarrow> key \<Rightarrow> kb_handler list \<Rightarrow> 'x keyboard \<Rightarrow> kb_handler option \<times> 'x keyboard" where
  "offer alloc answers time key [] k = (None, k)"
| "offer alloc answers time key (h # hs) k =
     (let (taken, k) = call_handler alloc answers time key True h k
      in if taken then (Some h, k) else offer alloc answers time key hs k)"

definition release_key :: "answers \<Rightarrow> int \<Rightarrow> int \<Rightarrow> nat \<Rightarrow> 'x keyboard \<Rightarrow> 'x keyboard" where
  "release_key answers time ser i k =
     (case key_handler (keys k ! i) of None \<Rightarrow> k
      | Some h \<Rightarrow>
          let k = k\<lparr>keys := (keys k)[i := (keys k ! i)\<lparr>key_serial := ser\<rparr>]\<rparr>
          in snd (call_handler True answers time (keys k ! i) False h k))"

section \<open>Key events\<close>

text \<open>
  xkbcommon: \<open>upd\<close> is \<open>xkb_state_update_key\<close> and \<open>mods\<close> the four calls of
  \<open>xkb_state_serialize_mods\<close> and \<open>xkb_state_serialize_layout\<close>.
\<close>

definition swc_mods :: "nat \<times> nat \<times> nat \<times> nat \<Rightarrow> 32 word \<Rightarrow> 32 word" where
  "swc_mods idx active =
     (case idx of (ctrl, alt, super, shift) \<Rightarrow>
       (if bit active ctrl then 1 else 0) + (if bit active alt then 2 else 0) +
       (if bit active super then 4 else 0) + (if bit active shift then 8 else 0))"

definition run_modifiers :: "modifier_state \<Rightarrow> kb_handler \<Rightarrow> 'x keyboard \<Rightarrow> 'x keyboard" where
  "run_modifiers m h k = (if h = Client_handler then client_handle_modifiers m k else k)"

definition update_xkb_state ::
  "('x \<Rightarrow> nat \<Rightarrow> bool \<Rightarrow> 'x) \<Rightarrow> ('x \<Rightarrow> modifier_state) \<Rightarrow> nat \<Rightarrow> bool \<Rightarrow> 'x keyboard \<Rightarrow> 'x keyboard" where
  "update_xkb_state upd mods value pressed k =
     (let k = k\<lparr>xkb_state := upd (xkb_state k) (value + 8) pressed\<rparr>; m = mods (xkb_state k)
      in if m = modifier_state k then k
         else
           let k = k\<lparr>modifier_state := m,
                 kb_modifiers := swc_mods (xkb_indices k) (or (depressed m) (latched m))\<rparr>
           in fold (run_modifiers m) (kb_handlers k) k)"

fun key_index :: "nat \<Rightarrow> key list \<Rightarrow> nat option" where
  "key_index value [] = None"
| "key_index value (e # es) = (if key_value e = value then Some 0 else map_option Suc (key_index value es))"

text \<open>\<open>alloc1\<close> is the allocation of the key, \<open>alloc2\<close> the client handler's.\<close>

definition keyboard_handle_key ::
  "('x \<Rightarrow> nat \<Rightarrow> bool \<Rightarrow> 'x) \<Rightarrow> ('x \<Rightarrow> modifier_state) \<Rightarrow> bool \<Rightarrow> bool \<Rightarrow> answers \<Rightarrow> int \<Rightarrow> nat \<Rightarrow> bool \<Rightarrow>
     'x keyboard \<Rightarrow> 'x keyboard" where
  "keyboard_handle_key upd mods alloc1 alloc2 answers time value pressed k =
     (let k = next_serial k; ser = last_serial k
      in case key_index value (keys k) of
           Some i \<Rightarrow>
             if pressed then k
             else
               let k = release_key answers time ser i k;
                   k = k\<lparr>keys := take i (keys k) @ drop (Suc i) (keys k)\<rparr>
               in update_xkb_state upd mods value pressed k
         | None \<Rightarrow>
             if \<not> pressed then k
             else if \<not> alloc1 then update_xkb_state upd mods value pressed k
             else
               let n = length (keys k); key = \<lparr>key_value = value, key_serial = ser, key_handler = None\<rparr>;
                   k = k\<lparr>keys := keys k @ [key]\<rparr>;
                   (h, k) = offer alloc2 answers time key (kb_handlers k) k;
                   k = k\<lparr>keys := (keys k)[n := (keys k ! n)\<lparr>key_handler := h\<rparr>]\<rparr>
               in update_xkb_state upd mods value pressed k)"

text \<open>The body of \<open>keyboard_reset\<close>'s loop.\<close>

definition reset_key :: "answers \<Rightarrow> int \<Rightarrow> nat \<Rightarrow> 'x keyboard \<Rightarrow> 'x keyboard" where
  "reset_key answers time i k =
     (if key_handler (keys k ! i) = None then k
      else let k = next_serial k in release_key answers time (last_serial k) i k)"

text \<open>
  \<open>x\<close> is the new xkb state, if it could be allocated.  No result: the assertion that no client key
  is left has failed.
\<close>

definition keyboard_reset :: "answers \<Rightarrow> int \<Rightarrow> 'x option \<Rightarrow> 'x keyboard \<Rightarrow> (bool \<times> 'x keyboard) option" where
  "keyboard_reset answers time x k =
     (let k = fold (reset_key answers time) [0..<length (keys k)] k
      in if client_keys k \<noteq> [] then None
         else
           let k = k\<lparr>keys := [], modifier_state := no_modifiers, kb_modifiers := 0\<rparr>
           in case x of None \<Rightarrow> Some (False, k) | Some x \<Rightarrow> Some (True, k\<lparr>xkb_state := x\<rparr>))"

section \<open>What the clients are told\<close>

text \<open>The keys a resource holds down and the modifiers in effect, as its events say.\<close>

fun told_step :: "kb_event \<Rightarrow> (nat \<Rightarrow> nat list option) \<Rightarrow> nat \<Rightarrow> nat list option" where
  "told_step (Kb_enter r ser v ks) t = t(r := Some ks)"
| "told_step (Kb_leave r ser v) t = t(r := None)"
| "told_step (Kb_key r ser time value pressed) t =
     t(r := map_option (if pressed then (\<lambda>ks. ks @ [value]) else remove1 value) (t r))"
| "told_step (Kb_modifiers r ser a b c d) t = t"

definition told_keys :: "'x keyboard \<Rightarrow> nat \<Rightarrow> nat list option" where
  "told_keys k = fold told_step (kb_sent k) (\<lambda>_. None)"

definition told_modifiers :: "'x keyboard \<Rightarrow> nat \<Rightarrow> (32 word \<times> 32 word \<times> 32 word \<times> 32 word) option" where
  "told_modifiers k =
     fold (\<lambda>e t. case e of Kb_modifiers r ser a b c d \<Rightarrow> t(r := Some (a, b, c, d)) | _ \<Rightarrow> t) (kb_sent k) (\<lambda>_. None)"

lemma told_emit [simp]: "told_keys (kb_emit es k) = fold told_step es (told_keys k)"
  by (simp add: told_keys_def kb_emit_def)

lemma told_fields [simp]:
  "told_keys (next_serial k) = told_keys k" "told_keys (k\<lparr>kb_focus := f\<rparr>) = told_keys k"
  "told_keys (k\<lparr>keys := es\<rparr>) = told_keys k" "told_keys (k\<lparr>client_keys := ks\<rparr>) = told_keys k"
  "told_keys (k\<lparr>serials := ring\<rparr>) = told_keys k" "told_keys (k\<lparr>modifier_state := m\<rparr>) = told_keys k"
  "told_keys (k\<lparr>kb_modifiers := m'\<rparr>) = told_keys k" "told_keys (k\<lparr>xkb_state := x\<rparr>) = told_keys k"
  by (simp_all add: told_keys_def next_serial_def)

lemma emit_fields [simp]:
  "kb_focus (kb_emit es k) = kb_focus k" "keys (kb_emit es k) = keys k"
  "kb_handlers (kb_emit es k) = kb_handlers k" "client_keys (kb_emit es k) = client_keys k"
  "modifier_state (kb_emit es k) = modifier_state k" "last_serial (kb_emit es k) = last_serial k"
  "kb_focus (next_serial k) = kb_focus k" "keys (next_serial k) = keys k"
  "kb_handlers (next_serial k) = kb_handlers k" "client_keys (next_serial k) = client_keys k"
  "modifier_state (next_serial k) = modifier_state k"
  by (simp_all add: kb_emit_def next_serial_def)

lemma told_entered:
  "fold told_step (concat (map (\<lambda>r. [Kb_enter r ser v ks, Kb_modifiers r ser a b c d]) rs)) t r =
     (if r \<in> set rs then Some ks else t r)"
  by (induction rs arbitrary: t) auto

lemma told_left: "fold told_step (map (\<lambda>r. Kb_leave r ser v) rs) t r = (if r \<in> set rs then None else t r)"
  by (induction rs arbitrary: t) auto

lemma told_key:
  "distinct rs \<Longrightarrow> fold told_step (map (\<lambda>r. Kb_key r ser time value pressed) rs) t r =
     (if r \<in> set rs then map_option (if pressed then (\<lambda>ks. ks @ [value]) else remove1 value) (t r) else t r)"
  by (induction rs arbitrary: t) auto

lemma told_mods:
  "fold told_step (map (\<lambda>r. Kb_modifiers r ser a b c d) rs) t = t"
  by (induction rs arbitrary: t) auto

interpretation kf: focus_owner enter leave told_keys client_keys
  by unfold_locales (simp_all add: enter_def leave_def Let_def told_entered told_left)

interpretation kr: focus_frame enter leave
  "\<lambda>k. (keys k, kb_handlers k, client_keys k, modifier_state k)"
  by unfold_locales (simp_all add: enter_def leave_def Let_def)

section \<open>Keys are paired\<close>

definition focus_in_step :: "'x keyboard \<Rightarrow> bool" where
  "focus_in_step k \<longleftrightarrow> kf.in_step (kb_focus k, k)"

text \<open>The client keys are the pressed keys that the clients' handler took.\<close>

definition keys_paired :: "'x keyboard \<Rightarrow> bool" where
  "keys_paired k \<longleftrightarrow> distinct (map key_value (keys k)) \<and>
     client_keys k = map key_value (filter (\<lambda>e. key_handler e = Some Client_handler) (keys k))"

lemma focus_in_step_cong:
  assumes "kb_focus k' = kb_focus k" "told_keys k' = told_keys k" "client_keys k' = client_keys k"
  shows "focus_in_step k' = focus_in_step k"
  by (simp add: focus_in_step_def kf.in_step_def assms)

lemma on_focus_in_step:
  assumes "kf.in_step (op (kb_focus k, k))"
  shows "focus_in_step (on_focus op k)"
  using assms by (auto simp: on_focus_def focus_in_step_def kf.in_step_def split: prod.splits)

lemma on_focus_frame [simp]:
  "keys (on_focus op k) = keys (snd (op (kb_focus k, k)))"
  "kb_handlers (on_focus op k) = kb_handlers (snd (op (kb_focus k, k)))"
  "client_keys (on_focus op k) = client_keys (snd (op (kb_focus k, k)))"
  "modifier_state (on_focus op k) = modifier_state (snd (op (kb_focus k, k)))"
  by (simp_all add: on_focus_def split: prod.split)

lemma run_op_frame [simp]:
  "keys (run_op op k) = keys k" "kb_handlers (run_op op k) = kb_handlers k"
  "client_keys (run_op op k) = client_keys k" "modifier_state (run_op op k) = modifier_state k"
  using kr.focus_frames(1,2) [of _ "kb_focus k" k] by (cases op; simp)+

lemma run_ops_frame [simp]:
  "keys (fold run_op ops k) = keys k" "kb_handlers (fold run_op ops k) = kb_handlers k"
  "client_keys (fold run_op ops k) = client_keys k" "modifier_state (fold run_op ops k) = modifier_state k"
  by (induction ops arbitrary: k) simp_all

lemma run_ops_in_step: "focus_in_step k \<Longrightarrow> focus_in_step (fold run_op ops k)"
proof (induction ops arbitrary: k)
  case (Cons op ops)
  have i: "kf.in_step (kb_focus k, k)" using Cons.prems by (simp add: focus_in_step_def)
  have "focus_in_step (run_op op k)"
    by (cases op) (simp_all add: on_focus_in_step kf.set_in_step [OF i] kf.destroyed_in_step [OF i])
  then show ?case using Cons.IH by simp
qed simp

text \<open>The client handler tells the active resources just what it does to the client keys.\<close>

lemma client_key_in_step:
  assumes "focus_in_step k" "client_handle_key alloc time key pressed k = (b, k')"
  shows "focus_in_step k'" "keys k' = keys k" "kb_handlers k' = kb_handlers k" "b = (\<not> pressed \<or> alloc)"
    "client_keys k' = (if \<not> b then client_keys k else if pressed then client_keys k @ [key_value key]
       else remove1 (key_value key) (client_keys k))"
proof -
  let ?rs = "fc_active (kb_focus k)"
  have k': "kb_focus k' = kb_focus k" "keys k' = keys k" "kb_handlers k' = kb_handlers k" "b = (\<not> pressed \<or> alloc)"
    "client_keys k' = (if \<not> b then client_keys k else if pressed then client_keys k @ [key_value key]
       else remove1 (key_value key) (client_keys k))"
    using assms(2) by (auto simp: client_handle_key_def Let_def split: if_splits)
  show "keys k' = keys k" "kb_handlers k' = kb_handlers k" "b = (\<not> pressed \<or> alloc)"
    "client_keys k' = (if \<not> b then client_keys k else if pressed then client_keys k @ [key_value key]
       else remove1 (key_value key) (client_keys k))" by fact+
  have d: "distinct ?rs" using assms(1) by (simp add: focus_in_step_def kf.in_step_def focus_ok_def)
  have t: "told_keys k' r = (if b \<and> r \<in> set ?rs
      then map_option (if pressed then (\<lambda>ks. ks @ [key_value key]) else remove1 (key_value key)) (told_keys k r)
      else told_keys k r)" for r
    using assms(2) d by (auto simp: client_handle_key_def Let_def told_key split: if_splits)
  have "kf.in_step (kb_focus k, k')"
    by (rule kf.tell_in_step [OF assms(1) [unfolded focus_in_step_def]]) (auto simp: t k'(5))
  then show "focus_in_step k'" by (simp add: focus_in_step_def k'(1))
qed

lemma call_in_step:
  assumes "focus_in_step k" "call_handler alloc answers time key pressed h k = (b, k')"
  shows "focus_in_step k'" "keys k' = keys k" "kb_handlers k' = kb_handlers k"
    "client_keys k' = (if h \<noteq> Client_handler \<or> pressed \<and> \<not> b then client_keys k
       else if pressed then client_keys k @ [key_value key] else remove1 (key_value key) (client_keys k))"
proof -
  have "focus_in_step k' \<and> keys k' = keys k \<and> kb_handlers k' = kb_handlers k \<and>
    client_keys k' = (if h \<noteq> Client_handler \<or> pressed \<and> \<not> b then client_keys k
       else if pressed then client_keys k @ [key_value key] else remove1 (key_value key) (client_keys k))"
  proof (cases h)
    case Client_handler
    then show ?thesis using client_key_in_step [OF assms(1), of alloc time key pressed b k'] assms(2) by auto
  next
    case (Other_handler n)
    then show ?thesis using assms run_ops_in_step by auto
  qed
  then show "focus_in_step k'" "keys k' = keys k" "kb_handlers k' = kb_handlers k"
    "client_keys k' = (if h \<noteq> Client_handler \<or> pressed \<and> \<not> b then client_keys k
       else if pressed then client_keys k @ [key_value key] else remove1 (key_value key) (client_keys k))"
    by blast+
qed

lemma offer_in_step:
  assumes "focus_in_step k" "offer alloc answers time key hs k = (h, k')"
  shows "focus_in_step k' \<and> keys k' = keys k \<and> kb_handlers k' = kb_handlers k \<and>
    client_keys k' = client_keys k @ (if h = Some Client_handler then [key_value key] else [])"
  using assms
proof (induction alloc answers time key hs k rule: offer.induct)
  case (2 alloc answers time key h' hs k)
  obtain b u where c: "call_handler alloc answers time key True h' k = (b, u)" by (metis surj_pair)
  note i = call_in_step [OF "2.prems"(1) c]
  show ?case
  proof (cases b)
    case True
    then show ?thesis using "2.prems"(2) c i by auto
  next
    case False
    then show ?thesis using "2.prems"(2) c i "2.IH" [OF c [symmetric] refl False] by auto
  qed
qed simp

definition kb_ok :: "'x keyboard \<Rightarrow> bool" where
  "kb_ok k \<longleftrightarrow> focus_in_step k \<and> keys_paired k"

lemma kb_ok_cong:
  assumes "kb_focus k' = kb_focus k" "told_keys k' = told_keys k" "client_keys k' = client_keys k" "keys k' = keys k"
  shows "kb_ok k' = kb_ok k"
  using focus_in_step_cong [OF assms(1-3)] by (simp add: kb_ok_def keys_paired_def assms(3,4))

lemma run_modifiers_fields [simp]:
  "kb_focus (fold (run_modifiers m) hs k) = kb_focus k" "told_keys (fold (run_modifiers m) hs k) = told_keys k"
  "client_keys (fold (run_modifiers m) hs k) = client_keys k" "keys (fold (run_modifiers m) hs k) = keys k"
  by (induction hs arbitrary: k) (simp_all add: run_modifiers_def client_handle_modifiers_def Let_def told_mods)

lemma update_xkb_fields:
  "kb_focus (update_xkb_state upd mods value pressed k) = kb_focus k"
  "told_keys (update_xkb_state upd mods value pressed k) = told_keys k"
  "client_keys (update_xkb_state upd mods value pressed k) = client_keys k"
  "keys (update_xkb_state upd mods value pressed k) = keys k"
  by (simp_all add: update_xkb_state_def Let_def)

lemma update_xkb_ok: "kb_ok (update_xkb_state upd mods value pressed k) = kb_ok k"
  by (rule kb_ok_cong) (simp_all add: update_xkb_fields)

lemma key_index_Some:
  "key_index value es = Some i \<Longrightarrow> i < length es \<and> key_value (es ! i) = value"
  by (induction es arbitrary: i) (auto split: if_splits)

lemma key_index_None: "key_index value es = None \<longleftrightarrow> value \<notin> key_value ` set es"
  by (induction es) (auto split: if_splits)

lemma filter_remove_nth:
  assumes "i < length es" "distinct (map g es)"
  shows "map g (filter P (take i es @ drop (Suc i) es)) =
    (if P (es ! i) then remove1 (g (es ! i)) (map g (filter P es)) else map g (filter P es))"
proof -
  have e: "es = take i es @ es ! i # drop (Suc i) es" by (rule id_take_nth_drop [OF assms(1)])
  have "g (es ! i) \<notin> g ` set (take i es)"
    using assms(2) by (subst (asm) e) (auto simp: image_iff)
  then have "g (es ! i) \<notin> set (map g (filter P (take i es)))" by auto
  then show ?thesis
    by (subst (3 6) e) (simp add: remove1_append)
qed

lemma distinct_remove_nth: "distinct xs \<Longrightarrow> distinct (take i xs @ drop (Suc i) xs)"
proof (cases "i < length xs")
  case True
  then show "distinct xs \<Longrightarrow> ?thesis" by (subst (asm) id_take_nth_drop [OF True]) simp
qed simp

lemma press_ok:
  assumes "kb_ok k" "value \<notin> key_value ` set (keys k)"
    and "key = \<lparr>key_value = value, key_serial = ser, key_handler = None\<rparr>"
    and "offer alloc answers time key hs (k\<lparr>keys := keys k @ [key]\<rparr>) = (h, k')"
  shows "kb_ok (k'\<lparr>keys := (keys k')[length (keys k) := (keys k' ! length (keys k))\<lparr>key_handler := h\<rparr>]\<rparr>)"
proof -
  have "focus_in_step (k\<lparr>keys := keys k @ [key]\<rparr>)"
    using assms(1) focus_in_step_cong [of "k\<lparr>keys := keys k @ [key]\<rparr>" k] by (simp add: kb_ok_def)
  note o = offer_in_step [OF this assms(4)]
  let ?k = "k'\<lparr>keys := (keys k')[length (keys k) := (keys k' ! length (keys k))\<lparr>key_handler := h\<rparr>]\<rparr>"
  have e: "keys ?k = keys k @ [key\<lparr>key_handler := h\<rparr>]" using o by simp
  have "focus_in_step ?k" using o focus_in_step_cong [of ?k k'] by simp
  moreover have "keys_paired ?k"
    using assms(1,2) o unfolding keys_paired_def e by (auto simp: kb_ok_def keys_paired_def assms(3))
  ultimately show ?thesis by (simp add: kb_ok_def)
qed

text \<open>Releasing the key at \<open>i\<close> takes it off the client keys, if the clients' handler had taken it.\<close>

lemma release_result:
  assumes "focus_in_step k" "i < length (keys k)"
  shows "focus_in_step (release_key answers time ser i k)"
    "map key_value (keys (release_key answers time ser i k)) = map key_value (keys k)"
    "map key_handler (keys (release_key answers time ser i k)) = map key_handler (keys k)"
    "client_keys (release_key answers time ser i k) =
      (if key_handler (keys k ! i) = Some Client_handler then remove1 (key_value (keys k ! i)) (client_keys k)
       else client_keys k)"
proof -
  have "focus_in_step (release_key answers time ser i k) \<and>
    map key_value (keys (release_key answers time ser i k)) = map key_value (keys k) \<and>
    map key_handler (keys (release_key answers time ser i k)) = map key_handler (keys k) \<and>
    client_keys (release_key answers time ser i k) =
      (if key_handler (keys k ! i) = Some Client_handler then remove1 (key_value (keys k ! i)) (client_keys k)
       else client_keys k)"
  proof (cases "key_handler (keys k ! i)")
    case None
    then show ?thesis using assms(1) by (simp add: release_key_def)
  next
    case (Some h)
    define u where "u = k\<lparr>keys := (keys k)[i := (keys k ! i)\<lparr>key_serial := ser\<rparr>]\<rparr>"
    obtain b k' where c: "call_handler True answers time (keys u ! i) False h u = (b, k')" by (metis surj_pair)
    have u: "focus_in_step u" using assms(1) focus_in_step_cong [of u k] by (simp add: u_def)
    have "key_value (keys u ! i) = key_value (keys k ! i)" using assms(2) by (simp add: u_def)
    moreover have "map key_value (keys u) = map key_value (keys k)" "map key_handler (keys u) = map key_handler (keys k)"
      by (simp_all add: u_def map_update list_update_same_conv assms(2))
    moreover have "release_key answers time ser i k = k'"
      using c Some by (simp add: release_key_def Let_def u_def)
    moreover have "client_keys u = client_keys k" by (simp add: u_def)
    ultimately show ?thesis using call_in_step [OF u c] Some by auto
  qed
  then show "focus_in_step (release_key answers time ser i k)"
    "map key_value (keys (release_key answers time ser i k)) = map key_value (keys k)"
    "map key_handler (keys (release_key answers time ser i k)) = map key_handler (keys k)"
    "client_keys (release_key answers time ser i k) =
      (if key_handler (keys k ! i) = Some Client_handler then remove1 (key_value (keys k ! i)) (client_keys k)
       else client_keys k)" by blast+
qed

text \<open>Keys with the same values and handlers are paired alike.\<close>

definition client_values :: "key list \<Rightarrow> nat list" where
  "client_values es = map key_value (filter (\<lambda>e. key_handler e = Some Client_handler) es)"

lemma client_values_cong:
  "map key_value es = map key_value es' \<Longrightarrow> map key_handler es = map key_handler es' \<Longrightarrow>
     client_values es = client_values es'"
proof (induction es arbitrary: es')
  case (Cons e es)
  then show ?case by (cases es') (auto simp: client_values_def)
qed (simp add: client_values_def)

lemma handle_key_ok:
  assumes "kb_ok k"
  shows "kb_ok (keyboard_handle_key upd mods alloc1 alloc2 answers time value pressed k)"
proof -
  define u where "u = next_serial k"
  define ser where "ser = last_serial u"
  have u: "kb_ok u" using assms kb_ok_cong [of u k] by (simp add: u_def)
  show ?thesis
  proof (cases "key_index value (keys u)")
    case None
    define key where "key = \<lparr>key_value = value, key_serial = ser, key_handler = None\<rparr>"
    obtain h w where o: "offer alloc2 answers time key (kb_handlers u) (u\<lparr>keys := keys u @ [key]\<rparr>) = (h, w)"
      by (metis surj_pair)
    have "kb_ok (w\<lparr>keys := (keys w)[length (keys u) := (keys w ! length (keys u))\<lparr>key_handler := h\<rparr>]\<rparr>)"
      using press_ok [OF u _ key_def o] None by (simp add: key_index_None)
    then show ?thesis
      using None u o by (simp add: keyboard_handle_key_def Let_def u_def [symmetric] ser_def [symmetric]
          key_def [symmetric] update_xkb_ok)
  next
    case (Some i)
    define r where "r = release_key answers time ser i u"
    define w where "w = r\<lparr>keys := take i (keys r) @ drop (Suc i) (keys r)\<rparr>"
    have i: "i < length (keys u)" using key_index_Some [OF Some] by simp
    note f = release_result [OF conjunct1 [OF u [unfolded kb_ok_def]] i, of answers time ser, folded r_def]
    have l: "i < length (keys r)" "distinct (map key_value (keys r))"
      using i f(2) u by (metis length_map, simp add: kb_ok_def keys_paired_def)
    have h: "key_handler (keys r ! i) = key_handler (keys u ! i)" "key_value (keys r ! i) = key_value (keys u ! i)"
      using f(2,3) i l(1) by (metis nth_map)+
    have "client_keys w = client_values (keys w)"
      using f(4) u client_values_cong [OF f(2,3)] h filter_remove_nth [OF l, of "\<lambda>e. key_handler e = Some Client_handler"]
      by (simp add: w_def client_values_def kb_ok_def keys_paired_def)
    moreover have "distinct (map key_value (keys w))"
      using distinct_remove_nth [OF l(2), of i] by (simp add: w_def take_map drop_map)
    moreover have "focus_in_step w" using f(1) focus_in_step_cong [of w r] by (simp add: w_def)
    ultimately have "kb_ok w" by (simp add: kb_ok_def keys_paired_def client_values_def)
    then show ?thesis
      using Some u by (simp add: keyboard_handle_key_def Let_def u_def [symmetric] ser_def [symmetric]
          r_def [symmetric] w_def [symmetric] update_xkb_ok)
  qed
qed

text \<open>Releasing the keys in turn empties the client keys.\<close>

lemma reset_key_result:
  assumes "focus_in_step k" "i < length (keys k)"
  shows "focus_in_step (reset_key answers time i k)"
    "map key_value (keys (reset_key answers time i k)) = map key_value (keys k)"
    "map key_handler (keys (reset_key answers time i k)) = map key_handler (keys k)"
    "client_keys (reset_key answers time i k) =
      (if key_handler (keys k ! i) = Some Client_handler then remove1 (key_value (keys k ! i)) (client_keys k)
       else client_keys k)"
  using assms release_result [of "next_serial k" i answers time "last_serial (next_serial k)"]
    focus_in_step_cong [of "next_serial k" k]
  by (auto simp: reset_key_def Let_def)

lemma reset_loop:
  assumes "focus_in_step k" "n \<le> length (keys k)"
    and "client_keys k = client_values (drop (length (keys k) - n) (keys k))"
    and "distinct (map key_value (keys k))"
  shows "focus_in_step (fold (reset_key answers time) [length (keys k) - n..<length (keys k)] k) \<and>
    client_keys (fold (reset_key answers time) [length (keys k) - n..<length (keys k)] k) = []"
  using assms
proof (induction n arbitrary: k)
  case 0
  then show ?case by (simp add: client_values_def)
next
  case (Suc n)
  let ?i = "length (keys k) - Suc n"
  define r where "r = reset_key answers time ?i k"
  have i: "?i < length (keys k)" using Suc.prems(2) by simp
  note f = reset_key_result [OF Suc.prems(1) i, of answers time, folded r_def]
  have l: "length (keys r) = length (keys k)" using f(2) by (metis length_map)
  have e: "drop ?i (keys k) = keys k ! ?i # drop (length (keys k) - n) (keys k)"
    using i Suc.prems(2) by (simp add: Cons_nth_drop_Suc [symmetric] Suc_diff_Suc)
  have "client_keys r = client_values (drop (length (keys k) - n) (keys k))"
    using f(4) Suc.prems(3) by (simp add: e client_values_def)
  also have "\<dots> = client_values (drop (length (keys r) - n) (keys r))"
    by (rule client_values_cong) (simp_all add: drop_map [symmetric] f(2,3) l)
  finally have "focus_in_step (fold (reset_key answers time) [length (keys r) - n..<length (keys r)] r) \<and>
      client_keys (fold (reset_key answers time) [length (keys r) - n..<length (keys r)] r) = []"
    using Suc.IH [of r] f(1,2) Suc.prems(2,4) l by (simp add: f(2))
  moreover have "[?i..<length (keys k)] = ?i # [length (keys k) - n..<length (keys k)]"
    using Suc.prems(2) by (simp add: upt_rec [of ?i] Suc_diff_Suc)
  ultimately show ?case by (simp add: r_def [symmetric] l)
qed

lemma reset_result:
  assumes "kb_ok k"
  obtains b k' where "keyboard_reset answers time x k = Some (b, k')" "kb_ok k'" "keys k' = []"
    "client_keys k' = []" "b = (x \<noteq> None)" "modifier_state k' = no_modifiers" "kb_modifiers k' = 0"
proof -
  define w where "w = fold (reset_key answers time) [0..<length (keys k)] k"
  have w: "focus_in_step w" "client_keys w = []"
    using reset_loop [of k "length (keys k)" answers time] assms
    by (simp_all add: w_def kb_ok_def keys_paired_def client_values_def)
  define v where "v = w\<lparr>keys := [], modifier_state := no_modifiers, kb_modifiers := 0\<rparr>"
  define u where "u = (case x of None \<Rightarrow> v | Some y \<Rightarrow> v\<lparr>xkb_state := y\<rparr>)"
  have u: "kb_focus u = kb_focus w" "told_keys u = told_keys w" "client_keys u = client_keys w" "keys u = []"
    "modifier_state u = no_modifiers" "kb_modifiers u = 0"
    by (simp_all add: u_def v_def split: option.split)
  show thesis
  proof
    show "keyboard_reset answers time x k = Some (x \<noteq> None, u)"
      using w(2) by (simp add: keyboard_reset_def Let_def w_def [symmetric] v_def u_def split: option.split)
    show "kb_ok u" using w focus_in_step_cong [OF u(1-3)] by (simp add: kb_ok_def keys_paired_def u)
  qed (use u w in auto)
qed

section \<open>Properties\<close>

text \<open>
  What happens to the keyboard: keys, resets, changes of the focus and of its views, resources that
  clients bind (each a new one) and give up, and handlers that come and go.
\<close>

inductive kb_step :: "'x keyboard \<Rightarrow> 'x keyboard \<Rightarrow> bool" where
  Key: "kb_step k (keyboard_handle_key upd mods alloc1 alloc2 answers time value pressed k)"
| Reset: "keyboard_reset answers time x k = Some (b, k') \<Longrightarrow> kb_step k k'"
| Op: "kb_step k (run_op op k)"
| Bind: "told_keys k r = None \<Longrightarrow> r \<notin> set (fc_active (kb_focus k)) \<union> set (fc_inactive (kb_focus k)) \<Longrightarrow>
    kb_step k (keyboard_bind r k)"
| Unbind: "kb_step k (unbind r k)"
| Handlers: "kb_step k (k\<lparr>kb_handlers := hs\<rparr>)"

lemma kb_step_ok: "kb_step k k' \<Longrightarrow> kb_ok k \<Longrightarrow> kb_ok k'"
proof (induction rule: kb_step.induct)
  case (Reset answers time x k b k')
  then show ?case by (metis reset_result option.inject prod.inject)
next
  case (Op k op)
  then show ?case using run_ops_in_step [of k "[op]"] by (simp add: kb_ok_def keys_paired_def)
next
  case (Bind k r)
  have "keys (keyboard_bind r k) = keys k" "client_keys (keyboard_bind r k) = client_keys k"
    using kr.focus_frames(3) [of r "kb_focus k" k] by (simp_all add: keyboard_bind_def)
  moreover have "focus_in_step (keyboard_bind r k)"
    unfolding keyboard_bind_def using Bind
    by (intro on_focus_in_step kf.add_in_step) (simp_all add: kb_ok_def focus_in_step_def)
  ultimately show ?case using Bind by (simp add: kb_ok_def keys_paired_def)
next
  case (Unbind k r)
  have "kf.in_step (input_focus_remove_resource r (kb_focus k), k)"
    using Unbind kf.remove_in_step by (auto simp: kb_ok_def focus_in_step_def)
  then show ?case
    using Unbind by (auto simp: unbind_def kb_ok_def keys_paired_def focus_in_step_def kf.in_step_def)
next
  case (Handlers k hs)
  then show ?case using kb_ok_cong [of "k\<lparr>kb_handlers := hs\<rparr>" k] by (simp add: told_keys_def)
qed (simp add: handle_key_ok)

lemma create_ok: "kb_ok (keyboard_create rc sc x idx ser)"
  by (simp add: kb_ok_def focus_in_step_def kf.in_step_def focus_ok_def keys_paired_def keyboard_create_def
      input_focus_initialize_def)

text \<open>C4: However keys, focus, clients and resets interleave, the keys a client's keyboards have been told are
  down are exactly the pressed keys that the clients' handler took, in the order of the presses, while
  its view has the focus, and otherwise they are not entered at all.  So no client is left with a key
  stuck down.\<close>

theorem clients_told_keys:
  assumes "kb_step\<^sup>*\<^sup>* (keyboard_create rc sc x idx ser) k"
  shows "(\<forall>r \<in> set (fc_active (kb_focus k)). told_keys k r = Some (client_keys k)) \<and>
    (\<forall>r \<in> set (fc_inactive (kb_focus k)). told_keys k r = None) \<and>
    client_keys k = map key_value (filter (\<lambda>e. key_handler e = Some Client_handler) (keys k)) \<and>
    distinct (map key_value (keys k)) \<and> focus_ok (kb_focus k)"
proof -
  have "kb_ok k" using assms by (induction rule: rtranclp_induct) (auto intro: kb_step_ok create_ok)
  then show ?thesis by (simp add: kb_ok_def keys_paired_def focus_in_step_def kf.in_step_def)
qed

text \<open>C33: \<open>keyboard_reset\<close> never fails its assertion: after the simulated releases no client key is left,
  and every focused client has been told that none is down.\<close>

theorem reset_asserts:
  assumes "kb_step\<^sup>*\<^sup>* (keyboard_create rc sc x0 idx ser) k"
  shows "\<exists>k'. keyboard_reset answers time x k = Some (x \<noteq> None, k') \<and> keys k' = [] \<and> client_keys k' = [] \<and>
    (\<forall>r \<in> set (fc_active (kb_focus k')). told_keys k' r = Some [])"
proof -
  have "kb_ok k" using assms by (induction rule: rtranclp_induct) (auto intro: kb_step_ok create_ok)
  then obtain b k' where k': "keyboard_reset answers time x k = Some (b, k')" "kb_ok k'" "keys k' = []"
    "client_keys k' = []" "b = (x \<noteq> None)" by (rule reset_result)
  then show ?thesis by (simp add: kb_ok_def focus_in_step_def kf.in_step_def)
qed

lemma told_modifiers_emit:
  "told_modifiers (kb_emit es k) = fold (\<lambda>e t. case e of
     Kb_modifiers r ser a b c d \<Rightarrow> t(r := Some (a, b, c, d)) | _ \<Rightarrow> t) es (told_modifiers k)"
  by (simp add: told_modifiers_def kb_emit_def)

lemma told_modifiers_fields [simp]:
  "told_modifiers (next_serial k) = told_modifiers k" "told_modifiers (k\<lparr>keys := es\<rparr>) = told_modifiers k"
  "told_modifiers (k\<lparr>client_keys := ks\<rparr>) = told_modifiers k" "told_modifiers (k\<lparr>serials := ring\<rparr>) = told_modifiers k"
  "told_modifiers (k\<lparr>modifier_state := m\<rparr>) = told_modifiers k" "told_modifiers (k\<lparr>xkb_state := x\<rparr>) = told_modifiers k"
  "told_modifiers (k\<lparr>kb_modifiers := m'\<rparr>) = told_modifiers k"
  by (simp_all add: told_modifiers_def next_serial_def)

lemma told_modifiers_sent:
  "fold (\<lambda>e t. case e of Kb_modifiers r ser a b c d \<Rightarrow> t(r := Some (a, b, c, d)) | _ \<Rightarrow> t)
     (map (\<lambda>r. Kb_modifiers r ser a b c d) rs) t r = (if r \<in> set rs then Some (a, b, c, d) else t r)"
  by (induction rs arbitrary: t) auto

lemma told_modifiers_keys:
  "fold (\<lambda>e t. case e of Kb_modifiers r ser a b c d \<Rightarrow> t(r := Some (a, b, c, d)) | _ \<Rightarrow> t)
     (map (\<lambda>r. Kb_key r ser time value pressed) rs) t = t"
  by (induction rs arbitrary: t) auto

text \<open>When the modifiers change, the focused client is told the locked modifiers as latched and the
  latched ones as locked; a keyboard that is entered is told them the right way round.\<close>

theorem modifiers_swapped:
  assumes "m = mods (upd (xkb_state k) (value + 8) pressed)" "m \<noteq> modifier_state k"
    and "Client_handler \<in> set (kb_handlers k)" "r \<in> set (fc_active (kb_focus k))"
    and "k' = update_xkb_state upd mods value pressed k"
  shows "told_modifiers k' r = Some (depressed m, mods_locked m, latched m, mods_group m) \<and>
    told_modifiers (enter [r] v k') r = Some (depressed m, latched m, mods_locked m, mods_group m)"
proof -
  define t where "t = Some (depressed m, mods_locked m, latched m, mods_group m)"
  have c: "told_modifiers (client_handle_modifiers m y) r = t" if "r \<in> set (fc_active (kb_focus y))"
    for y :: "'a keyboard"
    using that by (auto simp: client_handle_modifiers_def Let_def told_modifiers_emit told_modifiers_sent t_def)
  have f: "told_modifiers (fold (run_modifiers m) hs y) r =
      (if Client_handler \<in> set hs then t else told_modifiers y r)"
    if "r \<in> set (fc_active (kb_focus y))" for hs and y :: "'a keyboard"
    using that
  proof (induction hs arbitrary: y)
    case (Cons h hs)
    have "kb_focus (run_modifiers m h y) = kb_focus y" using run_modifiers_fields(1) [of m "[h]" y] by simp
    then show ?case using Cons c [OF Cons.prems] by (auto simp: run_modifiers_def)
  qed simp
  have "told_modifiers k' r = t"
    using assms f by (simp add: update_xkb_state_def Let_def)
  moreover have "modifier_state (fold (run_modifiers m) hs y) = modifier_state y" for hs and y :: "'a keyboard"
    by (induction hs arbitrary: y) (simp_all add: run_modifiers_def client_handle_modifiers_def Let_def)
  then have "modifier_state k' = m" using assms(1,2) by (simp add: assms(5) update_xkb_state_def Let_def)
  ultimately show ?thesis by (simp add: t_def enter_def Let_def told_modifiers_emit)
qed

text \<open>A reset forgets the modifiers without telling the focused client, which goes on believing that the
  modifiers of the moment are down, also through the following keys that leave the modifiers as they are.\<close>

theorem reset_keeps_told_modifiers:
  assumes "\<And>n. snd (answers n) = []" "keyboard_reset answers time (Some x) k = Some (b, k')"
  shows "modifier_state k' = no_modifiers \<and> told_modifiers k' = told_modifiers k \<and>
    (mods (upd x (value + 8) pressed) = no_modifiers \<longrightarrow>
       told_modifiers (update_xkb_state upd mods value pressed k') = told_modifiers k)"
proof -
  have c: "told_modifiers (snd (call_handler True answers time key False h y)) = told_modifiers y" for key h
    and y :: "'a keyboard"
    by (cases h) (simp_all add: assms(1) client_handle_key_def Let_def told_modifiers_emit told_modifiers_keys)
  have r: "told_modifiers (reset_key answers time i y) = told_modifiers y" for i and y :: "'a keyboard"
    by (simp add: reset_key_def release_key_def Let_def c split: option.split)
  have "told_modifiers (fold (reset_key answers time) is y) = told_modifiers y" for "is" and y :: "'a keyboard"
    by (induction "is" arbitrary: y) (simp_all add: r)
  then have "modifier_state k' = no_modifiers" "told_modifiers k' = told_modifiers k" "xkb_state k' = x"
    using assms(2) by (auto simp: keyboard_reset_def Let_def split: if_splits)
  then show ?thesis by (simp add: update_xkb_state_def Let_def)
qed

section \<open>An example\<close>

text \<open>
  A keyboard whose only modifier is Caps Lock (key 58), the keyboard resource 10 of client 1 and the
  view 11 of the same client, which has the focus while the key 30 is down.
\<close>

definition sample_upd :: "bool \<Rightarrow> nat \<Rightarrow> bool \<Rightarrow> bool" where
  "sample_upd caps code pressed = (if code = 66 \<and> pressed then \<not> caps else caps)"

definition sample_mods :: "bool \<Rightarrow> modifier_state" where
  "sample_mods caps = no_modifiers\<lparr>mods_locked := if caps then 2 else 0\<rparr>"

definition sample_keyboard :: "bool keyboard" where
  "sample_keyboard = keyboard_handle_key sample_upd sample_mods True True (\<lambda>_. (False, [])) 0 30 True
     (run_op (Set_focus (Some 11)) (keyboard_bind 10
       (keyboard_create (\<lambda>r. r div 10) (\<lambda>v. v div 10) False (2, 3, 6, 0) 0)))"

lemma sample_keyboard_steps:
  "kb_step\<^sup>*\<^sup>* (keyboard_create (\<lambda>r. r div 10) (\<lambda>v. v div 10) False (2, 3, 6, 0) 0) sample_keyboard"
proof -
  let ?k = "keyboard_create (\<lambda>r. r div 10) (\<lambda>v. v div 10) False (2, 3, 6, 0) 0"
  have "kb_step ?k (keyboard_bind 10 ?k)"
    by (rule Bind) (simp_all add: keyboard_create_def told_keys_def input_focus_initialize_def)
  moreover have "kb_step (keyboard_bind 10 ?k) (run_op (Set_focus (Some 11)) (keyboard_bind 10 ?k))" by (rule Op)
  moreover have "kb_step (run_op (Set_focus (Some 11)) (keyboard_bind 10 ?k)) sample_keyboard"
    unfolding sample_keyboard_def by (rule Key)
  ultimately show ?thesis by (meson converse_rtranclp_into_rtranclp rtranclp.rtrancl_refl)
qed

lemma sample_keyboard_fields:
  "fc_active (kb_focus sample_keyboard) = [10]" "client_keys sample_keyboard = [30]"
  "kb_handlers sample_keyboard = [Client_handler]" "xkb_state sample_keyboard = False"
  "modifier_state sample_keyboard = no_modifiers"
  by code_simp+

theorem clients_told_keys_witness:
  "told_keys sample_keyboard 10 = Some [30] \<and> distinct (map key_value (keys sample_keyboard))"
  using clients_told_keys [OF sample_keyboard_steps] by (simp add: sample_keyboard_fields)

theorem reset_asserts_witness:
  "\<exists>k'. keyboard_reset (\<lambda>_. (False, [])) 5 (Some False) sample_keyboard = Some (True, k') \<and> client_keys k' = []"
  using reset_asserts [OF sample_keyboard_steps, of "\<lambda>_. (False, [])" 5 "Some False"] by auto

theorem modifiers_swapped_witness:
  "let k' = update_xkb_state sample_upd sample_mods 58 True sample_keyboard
   in modifier_state k' = no_modifiers\<lparr>mods_locked := 2\<rparr> \<and> told_modifiers k' 10 = Some (0, 2, 0, 0) \<and>
     told_modifiers (enter [10] None k') 10 = Some (0, 0, 2, 0)"
proof -
  have m: "sample_mods (sample_upd (xkb_state sample_keyboard) (58 + 8) True) = no_modifiers\<lparr>mods_locked := 2\<rparr>"
    by (simp add: sample_keyboard_fields sample_upd_def sample_mods_def)
  show ?thesis
    using modifiers_swapped [OF refl _ _ _ refl, of sample_mods sample_upd sample_keyboard 58 True 10 None] m
    by (simp add: sample_keyboard_fields Let_def no_modifiers_def)
      (simp add: update_xkb_state_def Let_def sample_keyboard_fields run_modifiers_def
        client_handle_modifiers_def no_modifiers_def)
qed

theorem reset_keeps_told_modifiers_witness:
  "let k = update_xkb_state sample_upd sample_mods 58 True sample_keyboard;
       k' = snd (the (keyboard_reset (\<lambda>_. (False, [])) 5 (Some False) k))
   in told_modifiers k 10 = Some (0, 2, 0, 0) \<and> modifier_state k' = no_modifiers \<and>
     told_modifiers (update_xkb_state sample_upd sample_mods 30 True k') 10 = Some (0, 2, 0, 0)"
proof -
  define k where "k = update_xkb_state sample_upd sample_mods 58 True sample_keyboard"
  define rk where "rk = keyboard_reset (\<lambda>_. (False, [])) 5 (Some False) k"
  have "\<not> Option.is_none rk" unfolding rk_def k_def by code_simp
  then obtain b k' where r: "keyboard_reset (\<lambda>_. (False, [])) 5 (Some False) k = Some (b, k')"
    by (auto simp: rk_def Option.is_none_def)
  have t: "told_modifiers k 10 = Some (0, 2, 0, 0)" unfolding k_def by code_simp
  have "sample_mods (sample_upd False (30 + 8) True) = no_modifiers"
    by (simp add: sample_mods_def sample_upd_def no_modifiers_def)
  with reset_keeps_told_modifiers [OF _ r, of sample_mods sample_upd 30 True] t r show ?thesis
    by (simp add: k_def Let_def)
qed

end
