(* ===== verification/Bindings.thy ===== *)
theory Bindings
  imports Prelude "HOL-Library.Word"
begin

text \<open>
  The window manager's key, button and axis bindings (\<open>libswc/bindings.c\<close>).

  A handler of a binding may add and remove bindings, its own too, while it runs.  So the two
  operations that go on after a handler returns, the release of a press and the removal of a
  binding, are two steps each, with a frame for what is left to do on a stack in between.
  A binding is an address: \<open>store\<close> holds those that are allocated, and \<open>dangled\<close> is set when the code
  would follow a pointer to one that is not.
\<close>

section \<open>State\<close>

datatype press = Key_press nat | Button_press nat

record binding =
  presses :: nat
  b_removed :: bool
  b_value :: nat
  b_modifiers :: "32 word"
  b_handler :: nat

record axis_binding =
  ab_axis :: nat
  ab_modifiers :: "32 word"
  ab_handler :: "nat option"

datatype frame = Finish_release press nat | Finish_remove nat

text \<open>
  A held key is its keycode; a held button is a number of its press, since two devices may hold the
  same button.  \<open>press_data\<close> is the \<open>data\<close> of the presses that are held and were taken by a binding, \<open>calls\<close> the
  calls of handlers: binding, handler, time, value and state.
\<close>

record bindings =
  store :: "nat \<Rightarrow> binding option"
  key_bindings :: "nat list"
  button_bindings :: "nat list"
  axis_bindings :: "axis_binding list"
  press_data :: "press \<Rightarrow> nat option"
  frames :: "frame list"
  calls :: "(nat \<times> nat \<times> int \<times> nat \<times> bool) list"
  axis_calls :: "(nat \<times> int \<times> nat \<times> int) list"
  dangled :: bool

definition SWC_MOD_ANY :: "32 word" where "SWC_MOD_ANY = not 0"

definition bindings_initialize :: bindings where
  "bindings_initialize = \<lparr>store = (\<lambda>_. None), key_bindings = [], button_bindings = [], axis_bindings = [],
     press_data = (\<lambda>_. None), frames = [], calls = [], axis_calls = [], dangled = False\<rparr>"

text \<open>Reading and writing a binding through its address.\<close>

definition get_binding :: "bindings \<Rightarrow> nat \<Rightarrow> binding" where
  "get_binding st b = the (store st b)"

definition change_binding :: "nat \<Rightarrow> (binding \<Rightarrow> binding) \<Rightarrow> bindings \<Rightarrow> bindings" where
  "change_binding b f st =
     (case store st b of None \<Rightarrow> st\<lparr>dangled := True\<rparr> | Some x \<Rightarrow> st\<lparr>store := (store st)(b := Some (f x))\<rparr>)"

definition free_binding :: "nat \<Rightarrow> bindings \<Rightarrow> bindings" where
  "free_binding b st = st\<lparr>store := (store st)(b := None), key_bindings := remove1 b (key_bindings st),
     button_bindings := remove1 b (button_bindings st)\<rparr>"

definition call_binding :: "nat \<Rightarrow> int \<Rightarrow> bool \<Rightarrow> bindings \<Rightarrow> bindings" where
  "call_binding b time pressed st =
     (let x = get_binding st b in st\<lparr>calls := calls st @ [(b, b_handler x, time, b_value x, pressed)]\<rparr>)"

section \<open>Looking up\<close>

definition mods_match :: "32 word \<Rightarrow> 32 word \<Rightarrow> bool" where
  "mods_match bound modifiers \<longleftrightarrow> bound = modifiers \<or> bound = SWC_MOD_ANY"

definition find_binding :: "bindings \<Rightarrow> nat list \<Rightarrow> 32 word \<Rightarrow> nat \<Rightarrow> nat option" where
  "find_binding st bs modifiers value =
     find (\<lambda>b. \<not> b_removed (get_binding st b) \<and> b_value (get_binding st b) = value \<and>
       mods_match (b_modifiers (get_binding st b)) modifiers) bs"

text \<open>
  xkbcommon: \<open>keysym\<close> is the keysym of the key in the keyboard's state and \<open>level0\<close> the first one of
  its first level, if it has one.  There is a seat with a keyboard.
\<close>

definition find_key_binding :: "bindings \<Rightarrow> 32 word \<Rightarrow> nat \<Rightarrow> nat option \<Rightarrow> nat option" where
  "find_key_binding st modifiers keysym level0 =
     (case find_binding st (key_bindings st) modifiers keysym of
        Some b \<Rightarrow> Some b
      | None \<Rightarrow>
          (case level0 of None \<Rightarrow> None | Some s \<Rightarrow> find_binding st (key_bindings st) modifiers s))"

definition find_button_binding :: "bindings \<Rightarrow> 32 word \<Rightarrow> nat \<Rightarrow> nat option" where
  "find_button_binding st modifiers value = find_binding st (button_bindings st) modifiers value"

definition find_axis_binding :: "bindings \<Rightarrow> 32 word \<Rightarrow> nat \<Rightarrow> axis_binding option" where
  "find_axis_binding st modifiers axis =
     find (\<lambda>b. ab_axis b = axis \<and> mods_match (ab_modifiers b) modifiers) (axis_bindings st)"

section \<open>Presses and releases\<close>

definition handle_press :: "nat option \<Rightarrow> int \<Rightarrow> press \<Rightarrow> bindings \<Rightarrow> bool \<times> bindings" where
  "handle_press found time p st =
     (case found of None \<Rightarrow> (False, st)
      | Some b \<Rightarrow>
          let st = change_binding b (\<lambda>x. x\<lparr>presses := presses x + 1\<rparr>) st;
              st = st\<lparr>press_data := (press_data st)(p := Some b)\<rparr>
          in (True, if \<not> b_removed (get_binding st b) then call_binding b time True st else st))"

text \<open>The release up to and including the call of the handler, and the rest.\<close>

definition handle_release :: "int \<Rightarrow> press \<Rightarrow> bindings \<Rightarrow> bindings" where
  "handle_release time p st =
     (case press_data st p of None \<Rightarrow> st\<lparr>dangled := True\<rparr>
      | Some b \<Rightarrow>
          let st = (if store st b = None then st\<lparr>dangled := True\<rparr> else st);
              st = (if \<not> b_removed (get_binding st b) then call_binding b time False st else st)
          in st\<lparr>frames := Finish_release p b # frames st\<rparr>)"

definition finish_release :: "press \<Rightarrow> nat \<Rightarrow> bindings \<Rightarrow> bindings" where
  "finish_release p b st =
     (let st = st\<lparr>press_data := (press_data st)(p := None)\<rparr>;
          st = change_binding b (\<lambda>x. x\<lparr>presses := presses x - 1\<rparr>) st
      in if presses (get_binding st b) = 0 \<and> b_removed (get_binding st b) then free_binding b st else st)"

definition binding_allowed_while_locked :: "nat \<Rightarrow> bool" where
  "binding_allowed_while_locked keysym \<longleftrightarrow> 0x1008FE01 \<le> keysym \<and> keysym \<le> 0x1008FE0C"

text \<open>\<open>locked\<close> is \<open>session_lock_active\<close>, \<open>modifiers\<close> those of the keyboard.\<close>

definition handle_key_press ::
  "bool \<Rightarrow> 32 word \<Rightarrow> nat \<Rightarrow> nat option \<Rightarrow> int \<Rightarrow> nat \<Rightarrow> bindings \<Rightarrow> bool \<times> bindings" where
  "handle_key_press locked modifiers keysym level0 time key st =
     (if locked \<and> \<not> binding_allowed_while_locked keysym then (False, st)
      else handle_press (find_key_binding st modifiers keysym level0) time (Key_press key) st)"

definition handle_key_release :: "int \<Rightarrow> nat \<Rightarrow> bindings \<Rightarrow> bindings" where
  "handle_key_release time key st = handle_release time (Key_press key) st"

definition handle_button_press ::
  "bool \<Rightarrow> 32 word \<Rightarrow> int \<Rightarrow> nat \<Rightarrow> nat \<Rightarrow> bindings \<Rightarrow> bool \<times> bindings" where
  "handle_button_press locked modifiers time value n st =
     (if locked then (False, st)
      else handle_press (find_button_binding st modifiers value) time (Button_press n) st)"

text \<open>The pointer forgets the press after the call, whatever it returns.\<close>

definition handle_button_release :: "bool \<Rightarrow> int \<Rightarrow> nat \<Rightarrow> bindings \<Rightarrow> bindings" where
  "handle_button_release locked time n st =
     (if locked then st\<lparr>press_data := (press_data st)(Button_press n := None)\<rparr>
      else handle_release time (Button_press n) st)"

text \<open>
  \<open>value\<close> is a \<open>wl_fixed_t\<close>, in 256ths; the product with 120 is exact in a \<open>double\<close> and its conversion
  truncates.
\<close>

definition axis_delta :: "int \<Rightarrow> int \<Rightarrow> int" where
  "axis_delta value value120 =
     (if value120 = 0 \<and> value \<noteq> 0
      then let d = sgn value * ((\<bar>value\<bar> * 120) div 256) in if d = 0 then (if value > 0 then 1 else - 1) else d
      else value120)"

definition handle_axis :: "bool \<Rightarrow> 32 word \<Rightarrow> int \<Rightarrow> nat \<Rightarrow> int \<Rightarrow> int \<Rightarrow> bindings \<Rightarrow> bool \<times> bindings" where
  "handle_axis locked modifiers time axis value value120 st =
     (if locked then (False, st)
      else case find_axis_binding st modifiers axis of None \<Rightarrow> (False, st)
        | Some b \<Rightarrow>
            (case ab_handler b of None \<Rightarrow> (False, st)
             | Some h \<Rightarrow> (True, st\<lparr>axis_calls := axis_calls st @ [(h, time, axis, axis_delta value value120)]\<rparr>)))"

section \<open>Adding and removing\<close>

datatype swc_binding_type = SWC_BINDING_KEY | SWC_BINDING_BUTTON

datatype binding_result = Added | EINVAL | ENOMEM

definition link_binding :: "swc_binding_type \<Rightarrow> nat \<Rightarrow> binding \<Rightarrow> bindings \<Rightarrow> bindings" where
  "link_binding type b x st =
     (let st = st\<lparr>store := (store st)(b := Some x)\<rparr>
      in case type of SWC_BINDING_KEY \<Rightarrow> st\<lparr>key_bindings := key_bindings st @ [b]\<rparr>
         | SWC_BINDING_BUTTON \<Rightarrow> st\<lparr>button_bindings := button_bindings st @ [b]\<rparr>)"

text \<open>\<open>b\<close> is the address \<open>calloc\<close> returns, if any; the type is \<open>None\<close> for any other value of the enum.\<close>

definition swc_add_binding ::
  "nat option \<Rightarrow> swc_binding_type option \<Rightarrow> 32 word \<Rightarrow> nat \<Rightarrow> nat \<Rightarrow> bindings \<Rightarrow> binding_result \<times> bindings" where
  "swc_add_binding b type modifiers value handler st =
     (case type of None \<Rightarrow> (EINVAL, st)
      | Some type \<Rightarrow>
          (case b of None \<Rightarrow> (ENOMEM, st)
           | Some b \<Rightarrow> (Added, link_binding type b \<lparr>presses = 0, b_removed = False, b_value = value,
               b_modifiers = modifiers, b_handler = handler\<rparr> st)))"

definition swc_add_axis_binding ::
  "bool \<Rightarrow> 32 word \<Rightarrow> nat \<Rightarrow> nat option \<Rightarrow> bindings \<Rightarrow> binding_result \<times> bindings" where
  "swc_add_axis_binding alloc modifiers axis handler st =
     (if \<not> alloc then (ENOMEM, st)
      else (Added, st\<lparr>axis_bindings := axis_bindings st @
        [\<lparr>ab_axis = axis, ab_modifiers = modifiers, ab_handler = handler\<rparr>]\<rparr>))"

text \<open>A batch: the bindings to link together, with their addresses.\<close>

type_synonym swc_binding_batch = "(swc_binding_type \<times> nat \<times> binding) list"

definition swc_binding_batch_add ::
  "nat option \<Rightarrow> swc_binding_type option \<Rightarrow> 32 word \<Rightarrow> nat \<Rightarrow> nat \<Rightarrow> swc_binding_batch \<Rightarrow>
     bool \<times> swc_binding_batch" where
  "swc_binding_batch_add b type modifiers value handler batch =
     (case (type, b) of
        (Some type, Some b) \<Rightarrow> (True, batch @ [(type, b, \<lparr>presses = 0, b_removed = False, b_value = value,
          b_modifiers = modifiers, b_handler = handler\<rparr>)])
      | _ \<Rightarrow> (False, batch))"

definition swc_binding_batch_commit :: "swc_binding_batch \<Rightarrow> bindings \<Rightarrow> bindings" where
  "swc_binding_batch_commit batch st = fold (\<lambda>(type, b, x). link_binding type b x) batch st"

text \<open>The removal up to and including the call of the handler, and the rest.\<close>

definition swc_remove_binding :: "swc_binding_type option \<Rightarrow> 32 word \<Rightarrow> nat \<Rightarrow> bindings \<Rightarrow> bindings" where
  "swc_remove_binding type modifiers value st =
     (case type of None \<Rightarrow> st
      | Some type \<Rightarrow>
          (case find (\<lambda>b. \<not> b_removed (get_binding st b) \<and> b_value (get_binding st b) = value \<and>
                  b_modifiers (get_binding st b) = modifiers)
                (case type of SWC_BINDING_KEY \<Rightarrow> key_bindings st | SWC_BINDING_BUTTON \<Rightarrow> button_bindings st) of
             None \<Rightarrow> st
           | Some b \<Rightarrow>
               let st = change_binding b (\<lambda>x. x\<lparr>b_removed := True\<rparr>) st;
                   st = (if presses (get_binding st b) \<noteq> 0 then call_binding b 0 False st else st)
               in st\<lparr>frames := Finish_remove b # frames st\<rparr>))"

definition finish_remove :: "nat \<Rightarrow> bindings \<Rightarrow> bindings" where
  "finish_remove b st =
     (let st = (if store st b = None then st\<lparr>dangled := True\<rparr> else st)
      in if presses (get_binding st b) = 0 then free_binding b st else st)"

definition finish_frame :: "bindings \<Rightarrow> bindings" where
  "finish_frame st =
     (case frames st of [] \<Rightarrow> st
      | fr # frs \<Rightarrow>
          let st = st\<lparr>frames := frs\<rparr>
          in case fr of Finish_release p b \<Rightarrow> finish_release p b st | Finish_remove b \<Rightarrow> finish_remove b st)"

section \<open>Steps\<close>

text \<open>
  Input is dispatched when no handler runs; everything else may happen while one does.  \<open>calloc\<close>
  returns addresses that are not in use.
\<close>

definition fresh_batch :: "swc_binding_batch \<Rightarrow> bindings \<Rightarrow> bool" where
  "fresh_batch batch st \<longleftrightarrow> distinct (map (\<lambda>(t, b, x). b) batch) \<and>
     (\<forall>(t, b, x) \<in> set batch. store st b = None \<and> presses x = 0 \<and> \<not> b_removed x)"

inductive binding_step :: "bindings \<Rightarrow> bindings \<Rightarrow> bool" where
  Press_key: "frames st = [] \<Longrightarrow> press_data st (Key_press key) = None \<Longrightarrow>
    binding_step st (snd (handle_key_press locked modifiers keysym level0 time key st))"
| Release_key: "frames st = [] \<Longrightarrow> press_data st (Key_press key) \<noteq> None \<Longrightarrow>
    binding_step st (handle_key_release time key st)"
| Press_button: "frames st = [] \<Longrightarrow> press_data st (Button_press n) = None \<Longrightarrow>
    binding_step st (snd (handle_button_press locked modifiers time value n st))"
| Release_button: "frames st = [] \<Longrightarrow> press_data st (Button_press n) \<noteq> None \<Longrightarrow>
    binding_step st (handle_button_release locked time n st)"
| Axis: "frames st = [] \<Longrightarrow>
    binding_step st (snd (handle_axis locked modifiers time axis value value120 st))"
| Add: "(case b of None \<Rightarrow> True | Some b \<Rightarrow> store st b = None) \<Longrightarrow>
    binding_step st (snd (swc_add_binding b type modifiers value handler st))"
| Add_axis: "binding_step st (snd (swc_add_axis_binding alloc modifiers axis ah st))"
| Commit: "fresh_batch batch st \<Longrightarrow> binding_step st (swc_binding_batch_commit batch st)"
| Remove: "binding_step st (swc_remove_binding type modifiers value st)"
| Finish: "frames st \<noteq> [] \<Longrightarrow> binding_step st (finish_frame st)"

definition held :: "bindings \<Rightarrow> nat \<Rightarrow> nat" where
  "held st b = card {p. press_data st p = Some b}"

text \<open>Removals under way, and below them at most one release.\<close>

definition frames_ok :: "bindings \<Rightarrow> bool" where
  "frames_ok st \<longleftrightarrow> distinct (frames st) \<and>
     (\<forall>b. Finish_remove b \<in> set (frames st) \<longrightarrow> (\<exists>x. store st b = Some x \<and> b_removed x)) \<and>
     (\<forall>fr \<in> set (butlast (frames st)). \<exists>b. fr = Finish_remove b) \<and>
     (\<forall>p b. Finish_release p b \<in> set (frames st) \<longrightarrow> press_data st p = Some b)"

definition bindings_ok :: "bindings \<Rightarrow> bool" where
  "bindings_ok st \<longleftrightarrow> \<not> dangled st \<and> frames_ok st \<and> finite (dom (press_data st)) \<and>
     distinct (key_bindings st @ button_bindings st) \<and>
     (\<forall>b. b \<in> set (key_bindings st @ button_bindings st) \<longleftrightarrow> store st b \<noteq> None) \<and>
     (\<forall>b. 0 < held st b \<longrightarrow> store st b \<noteq> None) \<and>
     (\<forall>b x. store st b = Some x \<longrightarrow> held st b \<le> presses x \<and>
        (b_removed x \<and> presses x = 0 \<longrightarrow> Finish_remove b \<in> set (frames st)))"

lemma held_finite: "finite (dom (press_data st)) \<Longrightarrow> finite {p. press_data st p = Some b}"
  by (rule finite_subset [of _ "dom (press_data st)"]) auto

lemma held_pos: "finite (dom (press_data st)) \<Longrightarrow> press_data st p = Some b \<Longrightarrow> 0 < held st b"
  using held_finite [of st b] by (auto simp: held_def card_gt_0_iff)

lemma held_cong: "press_data st' = press_data st \<Longrightarrow> held st' = held st"
  by (simp add: held_def fun_eq_iff)

lemma held_press:
  assumes "finite (dom (press_data st))" "press_data st p = None" "press_data st' = (press_data st)(p := Some b)"
  shows "held st' c = (if c = b then held st c + 1 else held st c)"
proof -
  have "{q. press_data st' q = Some c} =
      (if c = b then insert p {q. press_data st q = Some c} else {q. press_data st q = Some c})"
    using assms(2,3) by auto
  then show ?thesis using held_finite [OF assms(1)] assms(2) by (simp add: held_def)
qed

lemma held_release:
  assumes "finite (dom (press_data st))" "press_data st p = Some b" "press_data st' = (press_data st)(p := None)"
  shows "held st' c = (if c = b then held st c - 1 else held st c)"
proof -
  have "{q. press_data st' q = Some c} =
      (if c = b then {q. press_data st q = Some c} - {p} else {q. press_data st q = Some c})"
    using assms(2,3) by auto
  then show ?thesis using held_finite [OF assms(1)] assms(2) by (simp add: held_def)
qed

lemma found_binding:
  assumes "bindings_ok st" "find P bs = Some b" "set bs \<subseteq> set (key_bindings st @ button_bindings st)"
  obtains x where "store st b = Some x" "P b" "get_binding st b = x"
proof -
  have b: "b \<in> set bs" "P b" using assms(2) by (auto simp: find_Some_iff)
  then have "b \<in> set (key_bindings st @ button_bindings st)" using assms(3) by blast
  then have "store st b \<noteq> None" using assms(1) unfolding bindings_ok_def by blast
  then show thesis using that b(2) by (auto simp: get_binding_def)
qed

text \<open>A binding is pressed once more.\<close>

lemma binding_press_ok:
  assumes ok: "bindings_ok st" and fr: "frames st = []" and p: "press_data st p = None"
    and x: "store st b = Some x" "\<not> b_removed x"
    and st': "st' = st\<lparr>store := (store st)(b := Some (x\<lparr>presses := presses x + 1\<rparr>)),
      press_data := (press_data st)(p := Some b), calls := cs\<rparr>"
  shows "bindings_ok st'"
proof -
  have fin: "finite (dom (press_data st))" using ok by (simp add: bindings_ok_def)
  have h: "held st' c = (if c = b then held st c + 1 else held st c)" for c
    by (rule held_press [OF fin p]) (simp add: st')
  show ?thesis
    using ok fr x unfolding bindings_ok_def frames_ok_def h by (auto simp: st')
qed

lemma handle_press_result:
  assumes "store st b = Some x" "\<not> b_removed x"
  shows "handle_press (Some b) time p st = (True, st\<lparr>store := (store st)(b := Some (x\<lparr>presses := presses x + 1\<rparr>)),
      press_data := (press_data st)(p := Some b), calls := calls st @ [(b, b_handler x, time, b_value x, True)]\<rparr>)"
  using assms by (simp add: handle_press_def change_binding_def get_binding_def call_binding_def Let_def)

text \<open>What the handlers are told in a step.\<close>

definition called_live :: "bindings \<Rightarrow> bindings \<Rightarrow> bool" where
  "called_live st st' \<longleftrightarrow> (\<exists>new. calls st' = calls st @ new \<and> (\<forall>(b, h, time, v, s) \<in> set new.
     \<exists>x. store st b = Some x \<and> \<not> b_removed x \<and> h = b_handler x \<and> v = b_value x))"

lemma called_none: "calls st' = calls st \<Longrightarrow> called_live st st'"
  by (simp add: called_live_def)

lemma handle_press_ok:
  assumes "bindings_ok st" "frames st = []" "press_data st p = None"
    and "found = find_binding st bs modifiers value" "set bs \<subseteq> set (key_bindings st @ button_bindings st)"
  shows "bindings_ok (snd (handle_press found time p st)) \<and> called_live st (snd (handle_press found time p st))"
proof (cases found)
  case None
  then show ?thesis using assms(1) by (simp add: handle_press_def called_none)
next
  case (Some b)
  obtain x where x: "store st b = Some x" "\<not> b_removed x"
    using found_binding [OF assms(1) Some [unfolded assms(4) find_binding_def] assms(5)] by metis
  show ?thesis
    using binding_press_ok [OF assms(1-3) x refl] x
    by (auto simp: Some handle_press_result [OF x] called_live_def)
qed

lemma handle_release_ok:
  assumes "bindings_ok st" "frames st = []" "press_data st p \<noteq> None"
  shows "bindings_ok (handle_release time p st) \<and> called_live st (handle_release time p st)"
proof -
  obtain b where b: "press_data st p = Some b" using assms(3) by blast
  have "0 < held st b" by (rule held_pos [OF _ b]) (use assms(1) in \<open>simp add: bindings_ok_def\<close>)
  then obtain x where x: "store st b = Some x" using assms(1) unfolding bindings_ok_def by blast
  have r: "handle_release time p st = st\<lparr>frames := [Finish_release p b],
      calls := calls st @ (if b_removed x then [] else [(b, b_handler x, time, b_value x, False)])\<rparr>"
    using assms(2) b x by (simp add: handle_release_def get_binding_def call_binding_def Let_def)
  show ?thesis
    using assms(1,2) b x unfolding r bindings_ok_def frames_ok_def
    by (auto simp: called_live_def held_def)
qed

lemma link_ok:
  assumes "bindings_ok st" "store st b = None" "presses x = 0" "\<not> b_removed x"
  shows "bindings_ok (link_binding type b x st) \<and> calls (link_binding type b x st) = calls st \<and>
    store (link_binding type b x st) = (store st)(b := Some x)"
proof -
  have h: "held (link_binding type b x st) = held st"
    by (rule held_cong) (simp add: link_binding_def Let_def split: swc_binding_type.split)
  have "held st b = 0" using assms(1,2) unfolding bindings_ok_def by blast
  moreover have "b \<notin> set (key_bindings st @ button_bindings st)"
    using assms(1,2) unfolding bindings_ok_def by blast
  ultimately show ?thesis
    using assms unfolding bindings_ok_def h frames_ok_def
    by (cases type) (auto simp: link_binding_def)
qed

lemma commit_ok:
  "bindings_ok st \<Longrightarrow> fresh_batch batch st \<Longrightarrow>
     bindings_ok (swc_binding_batch_commit batch st) \<and> calls (swc_binding_batch_commit batch st) = calls st"
proof (induction batch arbitrary: st)
  case Nil
  then show ?case by (simp add: swc_binding_batch_commit_def)
next
  case (Cons e batch)
  obtain t b x where e: "e = (t, b, x)" by (metis surj_pair)
  have f: "store st b = None" "presses x = 0" "\<not> b_removed x"
    using Cons.prems(2) by (auto simp: fresh_batch_def e)
  note l = link_ok [OF Cons.prems(1) f, of t]
  have "fresh_batch batch (link_binding t b x st)"
    using Cons.prems(2) l by (force simp: fresh_batch_def e)
  then show ?case using Cons.IH [of "link_binding t b x st"] l by (simp add: swc_binding_batch_commit_def e)
qed

lemma remove_ok:
  assumes "bindings_ok st"
  shows "bindings_ok (swc_remove_binding type modifiers value st) \<and>
    called_live st (swc_remove_binding type modifiers value st)"
proof (cases "swc_remove_binding type modifiers value st = st")
  case False
  then obtain t b where t: "type = Some t" "find (\<lambda>b. \<not> b_removed (get_binding st b) \<and>
      b_value (get_binding st b) = value \<and> b_modifiers (get_binding st b) = modifiers)
      (case t of SWC_BINDING_KEY \<Rightarrow> key_bindings st | SWC_BINDING_BUTTON \<Rightarrow> button_bindings st) = Some b"
    by (auto simp: swc_remove_binding_def split: option.splits)
  obtain x where x: "store st b = Some x" "\<not> b_removed x"
  proof (rule found_binding [OF assms t(2)])
    show "set (case t of SWC_BINDING_KEY \<Rightarrow> key_bindings st | SWC_BINDING_BUTTON \<Rightarrow> button_bindings st) \<subseteq>
        set (key_bindings st @ button_bindings st)" by (cases t) auto
  qed auto
  have r: "swc_remove_binding type modifiers value st = st\<lparr>store := (store st)(b := Some (x\<lparr>b_removed := True\<rparr>)),
      frames := Finish_remove b # frames st,
      calls := calls st @ (if presses x = 0 then [] else [(b, b_handler x, 0, b_value x, False)])\<rparr>"
    using t x by (simp add: swc_remove_binding_def change_binding_def get_binding_def call_binding_def Let_def)
  have n: "Finish_remove b \<notin> set (frames st)"
    using assms x unfolding bindings_ok_def frames_ok_def by fastforce
  have h: "held (swc_remove_binding type modifiers value st) = held st" by (rule held_cong) (simp add: r)
  have "bindings_ok (swc_remove_binding type modifiers value st)"
    using assms x n unfolding bindings_ok_def h frames_ok_def by (auto simp: r)
  moreover have "called_live st (swc_remove_binding type modifiers value st)"
    using x by (auto simp: r called_live_def)
  ultimately show ?thesis by simp
qed (use assms in \<open>simp add: called_none\<close>)

text \<open>The end of a removal that frees the binding, and of one that leaves it to the release.\<close>

lemma free_ok:
  assumes "bindings_ok st" "frames st = Finish_remove b # frs" "held st b = 0"
  shows "bindings_ok (free_binding b (st\<lparr>frames := frs\<rparr>))"
proof -
  have h: "held (free_binding b (st\<lparr>frames := frs\<rparr>)) = held st" by (rule held_cong) (simp add: free_binding_def)
  have d: "set (remove1 b (key_bindings st)) = set (key_bindings st) - {b}"
    "set (remove1 b (button_bindings st)) = set (button_bindings st) - {b}"
    using assms(1) by (simp_all add: bindings_ok_def)
  have bl: "set (butlast frs) \<subseteq> set (butlast (frames st))" by (cases frs) (auto simp: assms(2))
  have "frames_ok (free_binding b (st\<lparr>frames := frs\<rparr>))"
    using assms(1,2) bl unfolding bindings_ok_def frames_ok_def by (auto simp: free_binding_def)
  then show ?thesis
    using assms unfolding bindings_ok_def h by (auto simp: free_binding_def d)
qed

lemma keep_ok:
  assumes "bindings_ok st" "frames st = Finish_remove b # frs" "store st b = Some x" "presses x \<noteq> 0"
  shows "bindings_ok (st\<lparr>frames := frs\<rparr>)"
proof -
  have h: "held (st\<lparr>frames := frs\<rparr>) = held st" by (rule held_cong) simp
  have bl: "set (butlast frs) \<subseteq> set (butlast (frames st))" by (cases frs) (auto simp: assms(2))
  have "frames_ok (st\<lparr>frames := frs\<rparr>)"
    using assms(1,2) bl unfolding bindings_ok_def frames_ok_def by auto
  moreover have "Finish_remove c \<in> set frs" if "store st c = Some y" "b_removed y \<and> presses y = 0" for c y
    using that assms unfolding bindings_ok_def by force
  ultimately show ?thesis using assms(1) unfolding bindings_ok_def h by simp
qed

lemma finish_release_result:
  assumes "bindings_ok st" "frames st = Finish_release p b # frs"
  obtains x where "frs = []" "press_data st p = Some b" "store st b = Some x" "0 < held st b" "held st b \<le> presses x"
    "finish_frame st = (let st' = st\<lparr>frames := [], press_data := (press_data st)(p := None),
        store := (store st)(b := Some (x\<lparr>presses := presses x - 1\<rparr>))\<rparr>
      in if presses x = 1 \<and> b_removed x then free_binding b st' else st')"
proof -
  have p: "press_data st p = Some b" using assms by (auto simp: bindings_ok_def frames_ok_def)
  have frs: "frs = []" using assms by (cases frs) (auto simp: bindings_ok_def frames_ok_def)
  have h: "0 < held st b" by (rule held_pos [OF _ p]) (use assms(1) in \<open>simp add: bindings_ok_def\<close>)
  then obtain x where x: "store st b = Some x" using assms(1) unfolding bindings_ok_def by blast
  then have "held st b \<le> presses x" using assms(1) unfolding bindings_ok_def by blast
  moreover from this h have "presses x - 1 = 0 \<longleftrightarrow> presses x = 1" by linarith
  ultimately show thesis
    using that frs p x h assms(2)
    by (auto simp: finish_frame_def finish_release_def change_binding_def get_binding_def Let_def)
qed

lemma finish_ok:
  assumes "bindings_ok st" "frames st \<noteq> []"
  shows "bindings_ok (finish_frame st) \<and> calls (finish_frame st) = calls st"
proof -
  obtain fr frs where fr: "frames st = fr # frs" using assms(2) by (cases "frames st") auto
  show ?thesis
  proof (cases fr)
    case (Finish_release p b)
    obtain x where x: "frs = []" "press_data st p = Some b" "store st b = Some x" "0 < held st b" "held st b \<le> presses x"
      "finish_frame st = (let st' = st\<lparr>frames := [], press_data := (press_data st)(p := None),
          store := (store st)(b := Some (x\<lparr>presses := presses x - 1\<rparr>))\<rparr>
        in if presses x = 1 \<and> b_removed x then free_binding b st' else st')"
      by (rule finish_release_result [OF assms(1) fr [unfolded Finish_release]]) (rule that, assumption+)
    define st' where "st' = st\<lparr>frames := [], press_data := (press_data st)(p := None),
      store := (store st)(b := Some (x\<lparr>presses := presses x - 1\<rparr>))\<rparr>"
    have h: "held st' c = (if c = b then held st c - 1 else held st c)" for c
      by (rule held_release [OF _ x(2)]) (use assms(1) in \<open>simp_all add: st'_def bindings_ok_def\<close>)
    have r: "finish_frame st = (if presses x = 1 \<and> b_removed x then free_binding b st' else st')"
      using x(6) unfolding st'_def [symmetric] Let_def .
    have c: "held st c \<le> presses y" "\<not> (b_removed y \<and> presses y = 0)" if "store st c = Some y" for c y
      using assms(1) that fr Finish_release x(1) unfolding bindings_ok_def by (blast, force)
    have st': "\<not> dangled st'" "frames_ok st'" "finite (dom (press_data st'))"
      "distinct (key_bindings st' @ button_bindings st')"
      "\<forall>b. b \<in> set (key_bindings st' @ button_bindings st') \<longleftrightarrow> store st' b \<noteq> None"
      "\<forall>b. 0 < held st' b \<longrightarrow> store st' b \<noteq> None"
      using assms(1) x(3) unfolding bindings_ok_def frames_ok_def h by (auto simp: st'_def)
    show ?thesis
    proof (cases "presses x = 1 \<and> b_removed x")
      case True
      define u where "u = st'\<lparr>frames := [Finish_remove b]\<rparr>"
      have hu: "held u = held st'" by (rule held_cong) (simp add: u_def)
      have "held st' c \<le> presses y" if "store u c = Some y" for c y
        using that c(1) [of c] x(5) True unfolding h by (auto simp: u_def st'_def split: if_splits)
      moreover have "Finish_remove c \<in> set (frames u)" if "store u c = Some y" "b_removed y \<and> presses y = 0" for c y
        using that c(2) [of c] by (auto simp: u_def st'_def split: if_splits)
      moreover have "frames_ok u" using True by (simp add: u_def frames_ok_def st'_def)
      ultimately have "bindings_ok u" using st' unfolding bindings_ok_def hu by (auto simp: u_def)
      moreover have "held u b = 0" using h [of b] x(4,5) True by (simp add: hu)
      ultimately have "bindings_ok (free_binding b (u\<lparr>frames := []\<rparr>))" by (intro free_ok) (simp_all add: u_def)
      moreover have "u\<lparr>frames := []\<rparr> = st'" by (simp add: u_def st'_def)
      ultimately show ?thesis using r True by (simp add: free_binding_def st'_def)
    next
      case False
      have "held st' c \<le> presses y" if "store st' c = Some y" for c y
        using that c(1) [of c] x(5) unfolding h by (auto simp: st'_def split: if_splits)
      moreover have "\<not> (b_removed y \<and> presses y = 0)" if "store st' c = Some y" for c y
        using that c(2) [of c] False x(4,5) by (auto simp: st'_def split: if_splits)
      ultimately have "bindings_ok st'" using st' unfolding bindings_ok_def by blast
      moreover have "finish_frame st = st'" unfolding r by (rule if_not_P [OF False])
      ultimately show ?thesis by (simp add: st'_def)
    qed
  next
    case (Finish_remove b)
    then obtain x where x: "store st b = Some x" "b_removed x"
      using assms(1) fr by (auto simp: bindings_ok_def frames_ok_def)
    have r: "finish_frame st = (if presses x = 0 then free_binding b (st\<lparr>frames := frs\<rparr>) else st\<lparr>frames := frs\<rparr>)"
      using fr x by (simp add: Finish_remove finish_frame_def finish_remove_def get_binding_def Let_def)
    have "held st b \<le> presses x" using assms(1) x(1) unfolding bindings_ok_def by blast
    then show ?thesis
      using free_ok [OF assms(1) fr [unfolded Finish_remove]] keep_ok [OF assms(1) fr [unfolded Finish_remove] x(1)]
      by (simp add: r) (simp add: free_binding_def)
  qed
qed

text \<open>A button's release that is lost.\<close>

lemma lost_ok:
  assumes "bindings_ok st" "frames st = []"
  shows "bindings_ok (st\<lparr>press_data := (press_data st)(p := None)\<rparr>)"
proof -
  let ?s = "st\<lparr>press_data := (press_data st)(p := None)\<rparr>"
  have "{q. press_data ?s q = Some b} \<subseteq> {q. press_data st q = Some b}" for b by auto
  then have h: "held ?s b \<le> held st b" for b
    using assms(1) held_finite [of st b] by (simp add: held_def card_mono bindings_ok_def)
  have "finite (dom (press_data ?s))" using assms(1) by (simp add: bindings_ok_def)
  moreover have "held ?s b \<le> presses x" if "store st b = Some x" for b x
    using that assms(1) h [of b] unfolding bindings_ok_def by (meson le_trans)
  moreover have "0 < held ?s b \<Longrightarrow> store st b \<noteq> None" for b
    using assms(1) h [of b] unfolding bindings_ok_def by (meson less_le_trans)
  ultimately show ?thesis using assms unfolding bindings_ok_def by (auto simp: frames_ok_def)
qed

lemma step_ok: "binding_step st st' \<Longrightarrow> bindings_ok st \<Longrightarrow> bindings_ok st' \<and> called_live st st'"
proof (induction rule: binding_step.induct)
  case (Press_key st key locked modifiers keysym level0 time)
  have "find_key_binding st modifiers keysym level0 = find_binding st (key_bindings st) modifiers keysym \<or>
      (\<exists>s. find_key_binding st modifiers keysym level0 = find_binding st (key_bindings st) modifiers s)"
    by (auto simp: find_key_binding_def split: option.splits)
  then have "bindings_ok (snd (handle_press (find_key_binding st modifiers keysym level0) time (Key_press key) st)) \<and>
      called_live st (snd (handle_press (find_key_binding st modifiers keysym level0) time (Key_press key) st))"
    using handle_press_ok [OF Press_key(3,1,2)] by fastforce
  then show ?case using Press_key(3) by (simp add: handle_key_press_def called_none)
next
  case (Release_key st key time)
  then show ?case by (simp add: handle_key_release_def handle_release_ok)
next
  case (Press_button st n locked modifiers time val)
  then show ?case
    using handle_press_ok [OF Press_button(3,1,2), of "find_button_binding st modifiers val" "button_bindings st"]
    by (simp add: handle_button_press_def find_button_binding_def called_none)
next
  case (Release_button st n locked time)
  then show ?case by (simp add: handle_button_release_def handle_release_ok lost_ok called_none)
next
  case (Finish st)
  then show ?case using finish_ok called_none by blast
next
  case (Remove st ty modifiers val)
  then show ?case by (rule remove_ok)
next
  case (Commit batch st)
  then show ?case using commit_ok called_none by blast
next
  case (Add b st ty modifiers val handler)
  then show ?case
    using link_ok called_none by (auto simp: swc_add_binding_def split: option.splits)
next
  case (Add_axis st alloc modifiers axis ah)
  then show ?case by (simp add: swc_add_axis_binding_def called_none bindings_ok_def frames_ok_def held_def)
next
  case (Axis st locked modifiers time axis val value120)
  then show ?case
    by (auto simp: handle_axis_def called_none bindings_ok_def frames_ok_def held_def split: option.splits)
qed

section \<open>Properties\<close>

lemma reachable_ok:
  assumes "binding_step\<^sup>*\<^sup>* bindings_initialize st"
  shows "bindings_ok st"
  using assms
proof (induction rule: rtranclp_induct)
  case base
  show ?case by (simp add: bindings_initialize_def bindings_ok_def frames_ok_def held_def)
qed (use step_ok in blast)

text \<open>C8: However presses, releases, additions and removals interleave, also from within handlers, no
  freed binding is ever followed: a held press always points to an allocated binding, and a binding
  that was removed is freed as soon as no press holds it.\<close>

theorem bindings_never_dangle:
  assumes "binding_step\<^sup>*\<^sup>* bindings_initialize st"
  shows "\<not> dangled st \<and> (\<forall>p b. press_data st p = Some b \<longrightarrow> store st b \<noteq> None) \<and>
    (\<forall>b \<in> set (key_bindings st @ button_bindings st). store st b \<noteq> None) \<and>
    (frames st = [] \<longrightarrow> (\<forall>b x. store st b = Some x \<and> b_removed x \<longrightarrow> 0 < presses x))"
proof -
  have ok: "bindings_ok st" using assms by (rule reachable_ok)
  then have f: "finite (dom (press_data st))" by (simp add: bindings_ok_def)
  have "store st b \<noteq> None" if "press_data st p = Some b" for p b
    using held_pos [OF f that] ok unfolding bindings_ok_def by blast
  moreover have "0 < presses x" if "frames st = []" "store st b = Some x" "b_removed x" for b x
    using ok that unfolding bindings_ok_def by force
  ultimately show ?thesis using ok unfolding bindings_ok_def by blast
qed

text \<open>A handler is called only for a binding that is allocated and not removed, with its own data and
  value: after a binding was removed its handler, whose data may be gone, is never called again.\<close>

theorem removed_never_called:
  assumes "binding_step\<^sup>*\<^sup>* bindings_initialize st" and "binding_step st st'"
  shows "\<exists>new. calls st' = calls st @ new \<and> (\<forall>(b, h, time, v, s) \<in> set new.
    \<exists>x. store st b = Some x \<and> \<not> b_removed x \<and> h = b_handler x \<and> v = b_value x)"
  using step_ok [OF assms(2) reachable_ok [OF assms(1)]] unfolding called_live_def by blast

text \<open>A binding that counts more presses than hold it.\<close>

definition overcounted :: "nat \<Rightarrow> bindings \<Rightarrow> bool" where
  "overcounted b st \<longleftrightarrow> (\<exists>x. store st b = Some x \<and> held st b < presses x)"

lemma overcounted_cong:
  "store st' b = store st b \<Longrightarrow> press_data st' = press_data st \<Longrightarrow> overcounted b st' = overcounted b st"
  using held_cong [of st' st] by (simp add: overcounted_def)

lemma overcounted_press:
  assumes "bindings_ok st" "press_data st p = None" "overcounted b st"
    and "found = find_binding st bs modifiers value" "set bs \<subseteq> set (key_bindings st @ button_bindings st)"
  shows "overcounted b (snd (handle_press found time p st))"
proof (cases found)
  case (Some c)
  obtain x where x: "store st c = Some x" "\<not> b_removed x"
    using found_binding [OF assms(1) Some [unfolded assms(4) find_binding_def] assms(5)] by metis
  let ?s = "snd (handle_press (Some c) time p st)"
  have "held ?s b = (if b = c then held st b + 1 else held st b)"
    by (rule held_press [OF _ assms(2)]) (use assms(1) in \<open>simp_all add: bindings_ok_def handle_press_result [OF x]\<close>)
  then show ?thesis
    using assms(3) x by (auto simp: Some overcounted_def handle_press_result [OF x])
qed (use assms(3) in \<open>simp add: handle_press_def\<close>)

lemma overcounted_finish:
  assumes "bindings_ok st" "frames st \<noteq> []" "overcounted b st"
  shows "overcounted b (finish_frame st)"
proof -
  obtain fr frs where fr: "frames st = fr # frs" using assms(2) by (cases "frames st") auto
  obtain y where y: "store st b = Some y" "held st b < presses y" using assms(3) by (auto simp: overcounted_def)
  show ?thesis
  proof (cases fr)
    case (Finish_release p c)
    obtain x where x: "frs = []" "press_data st p = Some c" "store st c = Some x" "0 < held st c" "held st c \<le> presses x"
      "finish_frame st = (let st' = st\<lparr>frames := [], press_data := (press_data st)(p := None),
          store := (store st)(c := Some (x\<lparr>presses := presses x - 1\<rparr>))\<rparr>
        in if presses x = 1 \<and> b_removed x then free_binding c st' else st')"
      by (rule finish_release_result [OF assms(1) fr [unfolded Finish_release]]) (rule that, assumption+)
    have "held (finish_frame st) b = (if b = c then held st b - 1 else held st b)"
      by (rule held_release [OF _ x(2)])
        (use assms(1) in \<open>simp_all add: x(6) bindings_ok_def free_binding_def Let_def\<close>)
    moreover have "store (finish_frame st) b = Some (if b = c then y\<lparr>presses := presses y - 1\<rparr> else y)"
      using x(3,4) y by (auto simp: x(6) free_binding_def Let_def)
    ultimately show ?thesis using y x(4) by (auto simp: overcounted_def)
  next
    case (Finish_remove c)
    have "held (finish_frame st) = held st"
      by (rule held_cong) (simp add: fr Finish_remove finish_frame_def finish_remove_def free_binding_def Let_def)
    moreover have "store (finish_frame st) b = Some y"
      using y by (auto simp: fr Finish_remove finish_frame_def finish_remove_def free_binding_def
          get_binding_def Let_def)
    ultimately show ?thesis using y by (simp add: overcounted_def)
  qed
qed

lemma overcounted_commit:
  "fresh_batch batch st \<Longrightarrow> overcounted b st \<Longrightarrow> overcounted b (swc_binding_batch_commit batch st)"
proof (induction batch arbitrary: st)
  case (Cons e batch)
  obtain t c x where e: "e = (t, c, x)" by (metis surj_pair)
  have c: "store st c = None" using Cons.prems(1) by (auto simp: fresh_batch_def e)
  have l: "store (link_binding t c x st) = (store st)(c := Some x)" "press_data (link_binding t c x st) = press_data st"
    by (cases t; simp add: link_binding_def)+
  have "fresh_batch batch (link_binding t c x st)" using Cons.prems(1) l by (force simp: fresh_batch_def e)
  moreover have "overcounted b (link_binding t c x st)"
    using Cons.prems(2) c overcounted_cong [of "link_binding t c x st" b st] l by (auto simp: overcounted_def)
  ultimately show ?case using Cons.IH by (simp add: swc_binding_batch_commit_def e)
qed (simp add: swc_binding_batch_commit_def)

lemma overcounted_step:
  assumes "binding_step st st'" "bindings_ok st" "overcounted b st"
  shows "overcounted b st'"
  using assms
proof (induction rule: binding_step.induct)
  case (Press_key st key locked modifiers keysym level0 time)
  have "find_key_binding st modifiers keysym level0 = find_binding st (key_bindings st) modifiers keysym \<or>
      (\<exists>s. find_key_binding st modifiers keysym level0 = find_binding st (key_bindings st) modifiers s)"
    by (auto simp: find_key_binding_def split: option.splits)
  then have "overcounted b (snd (handle_press (find_key_binding st modifiers keysym level0) time (Key_press key) st))"
    using overcounted_press [OF Press_key(3,2,4)] by fastforce
  then show ?case using Press_key(4) by (simp add: handle_key_press_def)
next
  case (Press_button st n locked modifiers time val)
  then show ?case
    using overcounted_press [OF Press_button(3,2,4), of "find_button_binding st modifiers val" "button_bindings st"]
    by (simp add: handle_button_press_def find_button_binding_def)
next
  case (Release_key st key time)
  then show ?case
    by (subst overcounted_cong [of _ _ st])
      (auto simp: handle_key_release_def handle_release_def call_binding_def Let_def split: option.split)
next
  case (Release_button st n locked time)
  have "{q. press_data (st\<lparr>press_data := (press_data st)(Button_press n := None)\<rparr>) q = Some b} \<subseteq>
      {q. press_data st q = Some b}" by auto
  then have "held (st\<lparr>press_data := (press_data st)(Button_press n := None)\<rparr>) b \<le> held st b"
    using Release_button(3) held_finite [of st b] by (simp add: held_def card_mono bindings_ok_def)
  moreover have "overcounted b (handle_release time (Button_press n) st)"
    using Release_button(4) by (subst overcounted_cong [of _ _ st])
      (auto simp: handle_release_def call_binding_def Let_def split: option.split)
  ultimately show ?case using Release_button(4) by (auto simp: handle_button_release_def overcounted_def)
next
  case (Axis st locked modifiers time axis val value120)
  then show ?case
    by (subst overcounted_cong [of _ _ st]) (auto simp: handle_axis_def split: option.split)
next
  case (Add c st ty modifiers val handler)
  show ?case
  proof (cases "ty = None \<or> c = None")
    case True
    then show ?thesis using Add(3) by (auto simp: swc_add_binding_def split: option.split)
  next
    case False
    then obtain t d where t: "ty = Some t" "c = Some d" by auto
    have "overcounted b (link_binding t d x st)" for x
      using overcounted_commit [of "[(t, d, x)]" st b] Add(1,3) overcounted_cong
      by (auto simp: t overcounted_def link_binding_def Let_def held_def split: swc_binding_type.split)
    then show ?thesis by (simp add: swc_add_binding_def t)
  qed
next
  case (Add_axis st alloc modifiers axis ah)
  then show ?case by (subst overcounted_cong [of _ _ st]) (auto simp: swc_add_axis_binding_def)
next
  case (Commit batch st)
  then show ?case using overcounted_commit by blast
next
  case (Remove st ty modifiers val)
  have "press_data (swc_remove_binding ty modifiers val st) = press_data st"
    by (auto simp: swc_remove_binding_def change_binding_def call_binding_def Let_def split: option.split)
  moreover have "presses (the (store (swc_remove_binding ty modifiers val st) b)) = presses (the (store st b)) \<and>
      (store st b \<noteq> None \<longrightarrow> store (swc_remove_binding ty modifiers val st) b \<noteq> None)"
    by (auto simp: swc_remove_binding_def change_binding_def call_binding_def Let_def split: option.split)
  ultimately show ?case
    using Remove(2) held_cong [of "swc_remove_binding ty modifiers val st" st] by (auto simp: overcounted_def)
next
  case (Finish st)
  then show ?case using overcounted_finish by blast
qed

text \<open>A button that is released while the session is locked is lost on its binding: the handler is not
  told, the press stays counted, and from then on the binding is never freed, removed or not.\<close>

theorem locked_release_lost:
  assumes "binding_step\<^sup>*\<^sup>* bindings_initialize st" "frames st = []" "press_data st (Button_press n) = Some b"
    and "st' = handle_button_release True time n st" "binding_step\<^sup>*\<^sup>* st' st''"
  shows "calls st' = calls st \<and> press_data st' (Button_press n) = None \<and> store st' b = store st b \<and>
    store st'' b \<noteq> None \<and> held st'' b < presses (the (store st'' b))"
proof -
  have ok: "bindings_ok st" using assms(1) by (rule reachable_ok)
  then have fin: "finite (dom (press_data st))" by (simp add: bindings_ok_def)
  have st': "st' = st\<lparr>press_data := (press_data st)(Button_press n := None)\<rparr>"
    using assms(4) by (simp add: handle_button_release_def)
  have h: "held st' b = held st b - 1" using held_release [OF fin assms(3), of st' b] by (simp add: st')
  have "0 < held st b" by (rule held_pos [OF fin assms(3)])
  moreover from this obtain x where "store st b = Some x" using ok unfolding bindings_ok_def by blast
  moreover from this have "held st b \<le> presses x" using ok unfolding bindings_ok_def by blast
  ultimately have "overcounted b st'" by (simp add: overcounted_def h) (simp add: st')
  moreover have "bindings_ok st'" unfolding st' by (rule lost_ok [OF ok assms(2)])
  ultimately have start: "bindings_ok st' \<and> overcounted b st'" by blast
  have "bindings_ok st'' \<and> overcounted b st''"
    using assms(5) by (induction rule: rtranclp_induct) (use start step_ok overcounted_step in blast)+
  then show ?thesis by (auto simp: overcounted_def st')
qed

text \<open>A scroll that moved at all is passed on as a step that is not zero, in its direction.\<close>

theorem axis_delta_sign:
  assumes "value120 \<noteq> 0 \<or> value \<noteq> 0"
  shows "axis_delta value value120 \<noteq> 0 \<and>
    (value120 = 0 \<longrightarrow> (0 < axis_delta value value120 \<longleftrightarrow> 0 < value)) \<and>
    (value120 = 0 \<longrightarrow> \<bar>axis_delta value value120\<bar> \<le> max 1 (\<bar>value\<bar> * 120 div 256))"
proof (cases "value120 = 0")
  case True
  then have v: "value \<noteq> 0" using assms by simp
  define d where "d = \<bar>value\<bar> * 120 div 256"
  have d: "0 \<le> d" by (simp add: d_def)
  have "axis_delta value value120 = (if d = 0 then sgn value else sgn value * d)"
    using True v by (auto simp: axis_delta_def d_def [symmetric] Let_def sgn_if)
  then show ?thesis using d v unfolding d_def [symmetric]
    by (auto simp: sgn_if zero_less_mult_iff abs_mult)
qed (simp add: axis_delta_def)

section \<open>An example\<close>

text \<open>A button binding (at address 7, for any modifiers) that is held by press 0.\<close>

definition sample_bindings :: bindings where
  "sample_bindings = snd (swc_add_binding (Some 7) (Some SWC_BINDING_BUTTON) SWC_MOD_ANY 272 3 bindings_initialize)"

definition sample_held :: bindings where
  "sample_held = snd (handle_button_press False 0 100 272 0 sample_bindings)"

lemma sample_held_steps: "binding_step\<^sup>*\<^sup>* bindings_initialize sample_held"
proof -
  have "binding_step bindings_initialize sample_bindings"
    unfolding sample_bindings_def by (rule Add) (simp add: bindings_initialize_def)
  moreover have "binding_step sample_bindings sample_held"
    unfolding sample_held_def by (rule Press_button) code_simp+
  ultimately show ?thesis by (meson converse_rtranclp_into_rtranclp rtranclp.rtrancl_refl)
qed

lemma sample_held_fields:
  "frames sample_held = []" "press_data sample_held (Button_press 0) = Some 7"
  "calls sample_held = [(7, 3, 100, 272, True)]"
  by code_simp+

theorem bindings_never_dangle_witness:
  "store sample_held 7 \<noteq> None \<and> \<not> dangled sample_held"
  using bindings_never_dangle [OF sample_held_steps] sample_held_fields by blast

theorem removed_never_called_witness:
  "\<exists>x. store sample_held 7 = Some x \<and> \<not> b_removed x \<and> 3 = b_handler x"
proof -
  let ?r = "swc_remove_binding (Some SWC_BINDING_BUTTON) SWC_MOD_ANY 272 sample_held"
  have c: "calls ?r = calls sample_held @ [(7, 3, 0, 272, False)]" by code_simp
  have "binding_step sample_held ?r" by (rule Remove)
  from removed_never_called [OF sample_held_steps this] show ?thesis by (auto simp: c)
qed

theorem locked_release_lost_witness:
  "let st' = handle_button_release True 200 0 sample_held;
       st'' = finish_frame (swc_remove_binding (Some SWC_BINDING_BUTTON) SWC_MOD_ANY 272 st')
   in calls st' = [(7, 3, 100, 272, True)] \<and> frames st'' = [] \<and> store st'' 7 \<noteq> None \<and> b_removed (the (store st'' 7))"
proof -
  define st' where "st' = handle_button_release True 200 0 sample_held"
  define r where "r = swc_remove_binding (Some SWC_BINDING_BUTTON) SWC_MOD_ANY 272 st'"
  have f: "frames r \<noteq> []" "frames (finish_frame r) = []" "b_removed (the (store (finish_frame r) 7))"
    unfolding r_def st'_def by code_simp+
  have "binding_step st' r" unfolding r_def by (rule Remove)
  moreover have "binding_step r (finish_frame r)" using f(1) by (rule Finish)
  ultimately have "binding_step\<^sup>*\<^sup>* st' (finish_frame r)" by (meson converse_rtranclp_into_rtranclp rtranclp.rtrancl_refl)
  from locked_release_lost [OF sample_held_steps sample_held_fields(1,2) st'_def this]
  show ?thesis using sample_held_fields(3) f by (simp add: r_def st'_def Let_def)
qed

theorem axis_delta_sign_witness: "axis_delta (-1) 0 = -1 \<and> axis_delta (-1) 0 \<noteq> 0"
  using axis_delta_sign [of 0 "-1"] by (simp add: axis_delta_def)

end
