(* ===== verification/Workspace.thy ===== *)
theory Workspace
  imports Prelude
begin

text \<open>
  Workspaces (\<open>libswc/workspace.c\<close>): for each client that binds the manager a group per screen with
  nine numbered workspaces, and their teardown.

  Managers and groups are addresses: \<open>managers_at\<close> and \<open>groups_at\<close> hold those that are allocated, and
  \<open>stale\<close> is set when the code would follow a pointer to one that was freed; a freed one then reads
  as having no resources.
\<close>

section \<open>State\<close>

definition WORKSPACE_COUNT :: nat where "WORKSPACE_COUNT = 9"

text \<open>\<open>g_handle\<close> and \<open>g_workspaces\<close> tell whether the resources are alive.\<close>

record workspace_group =
  g_manager :: nat
  g_screen :: nat
  g_handle :: bool
  g_workspaces :: "nat \<Rightarrow> bool"
  pending_active :: int
  g_live :: nat

record workspace_manager =
  m_handle :: bool
  m_groups :: "nat list"
  m_live :: nat
  stopped :: bool

datatype ws_event =
    Ws_group nat nat
  | Ws_workspace nat nat nat
  | Ws_state nat nat bool
  | Ws_removed nat nat
  | Ws_group_removed nat
  | Ws_done nat
  | Ws_finished nat
  | Ws_no_memory
  | Wm_activate nat int

record workspaces =
  managers :: "nat list"
  managers_at :: "nat \<Rightarrow> workspace_manager option"
  groups_at :: "nat \<Rightarrow> workspace_group option"
  ws_screens :: "nat list"
  active_workspace :: "nat \<Rightarrow> nat"
  ws_sent :: "ws_event list"
  stale :: bool

definition wsend :: "ws_event list \<Rightarrow> workspaces \<Rightarrow> workspaces" where
  "wsend es st = st\<lparr>ws_sent := ws_sent st @ es\<rparr>"

definition no_manager :: workspace_manager where
  "no_manager = \<lparr>m_handle = False, m_groups = [], m_live = 0, stopped = True\<rparr>"

definition no_group :: workspace_group where
  "no_group = \<lparr>g_manager = 0, g_screen = 0, g_handle = False, g_workspaces = (\<lambda>_. False),
     pending_active = -1, g_live = 0\<rparr>"

definition manager_at :: "workspaces \<Rightarrow> nat \<Rightarrow> workspace_manager" where
  "manager_at st m = (case managers_at st m of None \<Rightarrow> no_manager | Some x \<Rightarrow> x)"

definition group_at :: "workspaces \<Rightarrow> nat \<Rightarrow> workspace_group" where
  "group_at st g = (case groups_at st g of None \<Rightarrow> no_group | Some x \<Rightarrow> x)"

definition change_manager :: "nat \<Rightarrow> (workspace_manager \<Rightarrow> workspace_manager) \<Rightarrow> workspaces \<Rightarrow> workspaces" where
  "change_manager m f st =
     (case managers_at st m of None \<Rightarrow> st\<lparr>stale := True\<rparr>
      | Some x \<Rightarrow> st\<lparr>managers_at := (managers_at st)(m := Some (f x))\<rparr>)"

definition change_group :: "nat \<Rightarrow> (workspace_group \<Rightarrow> workspace_group) \<Rightarrow> workspaces \<Rightarrow> workspaces" where
  "change_group g f st =
     (case groups_at st g of None \<Rightarrow> st\<lparr>stale := True\<rparr>
      | Some x \<Rightarrow> st\<lparr>groups_at := (groups_at st)(g := Some (f x))\<rparr>)"

definition read_group :: "nat \<Rightarrow> workspaces \<Rightarrow> workspaces" where
  "read_group g st = (if groups_at st g = None then st\<lparr>stale := True\<rparr> else st)"

section \<open>Resources going away\<close>

definition maybe_free_manager :: "nat \<Rightarrow> workspaces \<Rightarrow> workspaces" where
  "maybe_free_manager m st =
     (if m_live (manager_at st m) \<noteq> 0 then st
      else st\<lparr>managers := remove1 m (managers st), managers_at := (managers_at st)(m := None)\<rparr>)"

definition maybe_free_group :: "nat \<Rightarrow> workspaces \<Rightarrow> workspaces" where
  "maybe_free_group g st =
     (if g_live (group_at st g) \<noteq> 0 then st
      else
        let m = g_manager (group_at st g);
            st = change_manager m (\<lambda>x. x\<lparr>m_groups := remove1 g (m_groups x)\<rparr>) st;
            st = st\<lparr>groups_at := (groups_at st)(g := None)\<rparr>;
            st = change_manager m (\<lambda>x. x\<lparr>m_live := m_live x - 1\<rparr>) st
        in maybe_free_manager m st)"

definition manager_resource_destroy :: "nat \<Rightarrow> workspaces \<Rightarrow> workspaces" where
  "manager_resource_destroy m st =
     maybe_free_manager m (change_manager m (\<lambda>x. x\<lparr>m_handle := False, m_live := m_live x - 1\<rparr>) st)"

definition group_resource_destroy :: "nat \<Rightarrow> workspaces \<Rightarrow> workspaces" where
  "group_resource_destroy g st =
     maybe_free_group g (change_group g (\<lambda>x. x\<lparr>g_handle := False, g_live := g_live x - 1\<rparr>) st)"

definition workspace_resource_destroy :: "nat \<Rightarrow> nat \<Rightarrow> workspaces \<Rightarrow> workspaces" where
  "workspace_resource_destroy g i st =
     maybe_free_group g
       (change_group g (\<lambda>x. x\<lparr>g_workspaces := (g_workspaces x)(i := False), g_live := g_live x - 1\<rparr>) st)"

text \<open>The loop of \<open>destroy_group_resources\<close> reads the group again for every workspace.\<close>

definition destroy_workspace :: "nat \<Rightarrow> bool \<Rightarrow> nat \<Rightarrow> workspaces \<Rightarrow> workspaces" where
  "destroy_workspace g announce i st =
     (let st = read_group g st
      in if \<not> g_workspaces (group_at st g) i then st
         else workspace_resource_destroy g i (if announce then wsend [Ws_removed g i] st else st))"

definition destroy_group_resources :: "nat \<Rightarrow> bool \<Rightarrow> workspaces \<Rightarrow> workspaces" where
  "destroy_group_resources g announce st =
     (let announce = (announce \<and> \<not> stopped (manager_at st (g_manager (group_at st g))));
          st = fold (destroy_workspace g announce) [0..<WORKSPACE_COUNT] st;
          st = read_group g st
      in if \<not> g_handle (group_at st g) then st
         else group_resource_destroy g (if announce then wsend [Ws_group_removed g] st else st))"

text \<open>The safe loop over the groups of a manager keeps the next one before it destroys the current.\<close>

definition hold_manager :: "nat \<Rightarrow> workspaces \<Rightarrow> workspaces" where
  "hold_manager m st = change_manager m (\<lambda>x. x\<lparr>m_live := m_live x + 1\<rparr>) st"

definition release_manager :: "nat \<Rightarrow> workspaces \<Rightarrow> workspaces" where
  "release_manager m st = maybe_free_manager m (change_manager m (\<lambda>x. x\<lparr>m_live := m_live x - 1\<rparr>) st)"

definition destroy_manager_resources :: "nat \<Rightarrow> workspaces \<Rightarrow> workspaces" where
  "destroy_manager_resources m st =
     (let st = hold_manager m st;
          st = fold (\<lambda>g. destroy_group_resources g False) (m_groups (manager_at st m)) st;
          st = (if m_handle (manager_at st m) then manager_resource_destroy m st else st)
      in release_manager m st)"

section \<open>Requests\<close>

definition workspace_activate :: "nat \<Rightarrow> nat \<Rightarrow> workspaces \<Rightarrow> workspaces" where
  "workspace_activate g i st =
     (if \<not> stopped (manager_at st (g_manager (group_at st g)))
      then change_group g (\<lambda>x. x\<lparr>pending_active := int i\<rparr>) st else st)"

text \<open>\<open>wm\<close>: whether the window manager has a \<open>workspace_activate\<close>.\<close>

definition commit_group :: "bool \<Rightarrow> nat \<Rightarrow> workspaces \<Rightarrow> workspaces" where
  "commit_group wm g st =
     (let x = group_at st g; index = pending_active x;
          st = change_group g (\<lambda>x. x\<lparr>pending_active := -1\<rparr>) st
      in if index < 0 \<or> index \<ge> int WORKSPACE_COUNT then st
         else if \<not> wm \<or> g_screen x \<notin> set (ws_screens st) then st
         else wsend [Wm_activate (g_screen x) (index + 1)] st)"

definition manager_commit :: "bool \<Rightarrow> nat \<Rightarrow> workspaces \<Rightarrow> workspaces" where
  "manager_commit wm m st = fold (commit_group wm) (m_groups (manager_at st m)) st"

definition manager_stop :: "nat \<Rightarrow> workspaces \<Rightarrow> workspaces" where
  "manager_stop m st =
     (if stopped (manager_at st m) then st
      else destroy_manager_resources m
        (wsend [Ws_finished m] (change_manager m (\<lambda>x. x\<lparr>stopped := True\<rparr>) st)))"

section \<open>Screens\<close>

definition find_group :: "workspaces \<Rightarrow> nat \<Rightarrow> nat \<Rightarrow> nat option" where
  "find_group st m screen = find (\<lambda>g. g_screen (group_at st g) = screen) (m_groups (manager_at st m))"

text \<open>
  The loop of \<open>create_group\<close>: \<open>n\<close> is the number of workspace resources that can be created.
\<close>

definition create_workspace :: "nat \<Rightarrow> nat \<Rightarrow> workspaces \<Rightarrow> workspaces" where
  "create_workspace g i st =
     wsend [Ws_workspace (g_manager (group_at st g)) g i,
         Ws_state g i (i + 1 = active_workspace st (g_screen (group_at st g)))]
       (change_group g (\<lambda>x. x\<lparr>g_workspaces := (g_workspaces x)(i := True), g_live := g_live x + 1\<rparr>) st)"

text \<open>\<open>alloc\<close>: the group and its resource can be allocated; \<open>g\<close> is its address.\<close>

definition create_group :: "bool \<Rightarrow> nat \<Rightarrow> nat \<Rightarrow> nat \<Rightarrow> nat \<Rightarrow> workspaces \<Rightarrow> bool \<times> workspaces" where
  "create_group alloc n g m screen st =
     (if \<not> alloc then (False, st)
      else
        let st = st\<lparr>groups_at := (groups_at st)(g := Some \<lparr>g_manager = m, g_screen = screen, g_handle = True,
              g_workspaces = (\<lambda>_. False), pending_active = -1, g_live = 1\<rparr>)\<rparr>;
            st = change_manager m (\<lambda>x. x\<lparr>m_groups := m_groups x @ [g], m_live := m_live x + 1\<rparr>) st;
            st = wsend [Ws_group m g] st;
            st = fold (create_workspace g) [0..<min n WORKSPACE_COUNT] st
        in (n \<ge> WORKSPACE_COUNT, st))"

text \<open>
  \<open>gs\<close> are the addresses of the groups with their \<open>alloc\<close> and \<open>n\<close>, one for each screen.
\<close>

fun create_groups :: "(bool \<times> nat \<times> nat) list \<Rightarrow> nat \<Rightarrow> nat list \<Rightarrow> workspaces \<Rightarrow> bool \<times> workspaces" where
  "create_groups ((alloc, n, g) # gs) m (s # ss) st =
     (let (ok, st) = create_group alloc n g m s st in if ok then create_groups gs m ss st else (False, st))"
| "create_groups gs m ss st = (True, st)"

definition bind_manager :: "bool \<Rightarrow> (bool \<times> nat \<times> nat) list \<Rightarrow> nat \<Rightarrow> workspaces \<Rightarrow> workspaces" where
  "bind_manager alloc gs m st =
     (if \<not> alloc then wsend [Ws_no_memory] st
      else
        let st = st\<lparr>managers_at := (managers_at st)(m := Some \<lparr>m_handle = True, m_groups = [], m_live = 1,
              stopped = False\<rparr>), managers := m # managers st\<rparr>;
            (ok, st) = create_groups gs m (ws_screens st) st
        in if ok then wsend [Ws_done m] st else destroy_manager_resources m (wsend [Ws_no_memory] st))"

definition screen_added_to :: "bool \<Rightarrow> nat \<Rightarrow> nat \<Rightarrow> nat \<Rightarrow> nat \<Rightarrow> workspaces \<Rightarrow> workspaces" where
  "screen_added_to alloc n g screen m st =
     (if \<not> m_handle (manager_at st m) \<or> stopped (manager_at st m) \<or> find_group st m screen \<noteq> None then st
      else
        let st = hold_manager m st;
            (ok, st) = create_group alloc n g m screen st
        in release_manager m (wsend [if ok then Ws_done m else Ws_no_memory] st))"

text \<open>The bodies of the loops over the managers in the functions on screens.\<close>

definition screen_removed_from :: "nat \<Rightarrow> nat \<Rightarrow> workspaces \<Rightarrow> workspaces" where
  "screen_removed_from screen m st =
     (case find_group st m screen of None \<Rightarrow> st
      | Some g \<Rightarrow>
          let st = destroy_group_resources g True (hold_manager m st);
              st = (if m_handle (manager_at st m) \<and> \<not> stopped (manager_at st m) then wsend [Ws_done m] st else st)
          in release_manager m st)"

definition workspace_screen_removed :: "nat \<Rightarrow> workspaces \<Rightarrow> workspaces" where
  "workspace_screen_removed screen st = fold (screen_removed_from screen) (managers st) st"

definition set_active_for :: "nat \<Rightarrow> nat \<Rightarrow> nat \<Rightarrow> workspaces \<Rightarrow> workspaces" where
  "set_active_for screen workspace m st =
     (if stopped (manager_at st m) \<or> \<not> m_handle (manager_at st m) then st
      else case find_group st m screen of None \<Rightarrow> st
        | Some g \<Rightarrow>
            wsend (map (\<lambda>i. Ws_state g i (i + 1 = workspace))
              (filter (g_workspaces (group_at st g)) [0..<WORKSPACE_COUNT]) @ [Ws_done m]) st)"

definition swc_workspace_set_active :: "nat \<Rightarrow> nat \<Rightarrow> workspaces \<Rightarrow> workspaces" where
  "swc_workspace_set_active screen workspace st =
     (if workspace < 1 \<or> workspace > WORKSPACE_COUNT then st
      else
        let st = st\<lparr>active_workspace := (active_workspace st)(screen := workspace)\<rparr>
        in fold (set_active_for screen workspace) (managers st) st)"

text \<open>Every screen that is added makes a group for every manager: \<open>addr\<close> gives the addresses.\<close>

definition workspace_screen_added :: "(nat \<Rightarrow> bool \<times> nat \<times> nat) \<Rightarrow> nat \<Rightarrow> workspaces \<Rightarrow> workspaces" where
  "workspace_screen_added addr screen st =
     fold (\<lambda>m. case addr m of (alloc, n, g) \<Rightarrow> screen_added_to alloc n g screen m) (managers st) st"

section \<open>Counts\<close>

definition live_workspaces :: "workspace_group \<Rightarrow> nat set" where
  "live_workspaces x = {i. i < WORKSPACE_COUNT \<and> g_workspaces x i}"

definition group_ok :: "workspaces \<Rightarrow> nat \<Rightarrow> bool" where
  "group_ok st g \<longleftrightarrow> (\<exists>x. groups_at st g = Some x \<and>
     g_live x = (if g_handle x then 1 else 0) + card (live_workspaces x))"

text \<open>A manager with \<open>h\<close> holds on it.\<close>

definition manager_ok :: "nat \<Rightarrow> workspaces \<Rightarrow> nat \<Rightarrow> bool" where
  "manager_ok h st m \<longleftrightarrow> (\<exists>x. managers_at st m = Some x \<and> distinct (m_groups x) \<and>
     m_live x = h + (if m_handle x then 1 else 0) + length (m_groups x) \<and>
     (\<forall>g \<in> set (m_groups x). group_ok st g \<and> g_manager (group_at st g) = m))"

lemma manager_ok_at:
  "managers_at st m = Some x \<Longrightarrow> manager_ok h st m \<longleftrightarrow> distinct (m_groups x) \<and>
     m_live x = h + (if m_handle x then 1 else 0) + length (m_groups x) \<and>
     (\<forall>g \<in> set (m_groups x). group_ok st g \<and> g_manager (group_at st g) = m)"
  by (simp add: manager_ok_def split del: if_split)

lemma finite_live [simp]: "finite (live_workspaces x)"
  by (simp add: live_workspaces_def)

lemma stale_mono:
  "stale st \<Longrightarrow> stale (change_manager m f st)" "stale st \<Longrightarrow> stale (change_group g f' st)"
  "stale st \<Longrightarrow> stale (maybe_free_manager m st)" "stale st \<Longrightarrow> stale (wsend es st)"
  "stale st \<Longrightarrow> stale (read_group g st)"
  by (auto simp: change_manager_def change_group_def maybe_free_manager_def wsend_def read_group_def
      split: option.split)

lemma stale_free_group: "stale st \<Longrightarrow> stale (maybe_free_group g st)"
  using stale_mono by (simp add: maybe_free_group_def Let_def)

text \<open>The state of a group after the resources of its first \<open>n\<close> workspaces were destroyed.\<close>

definition without_workspaces :: "nat \<Rightarrow> workspace_group \<Rightarrow> workspace_group" where
  "without_workspaces n x = x\<lparr>g_workspaces := (\<lambda>i. n \<le> i \<and> g_workspaces x i),
     g_live := g_live x - card {i \<in> live_workspaces x. i < n}\<rparr>"

lemma live_without: "live_workspaces (without_workspaces n x) = {i \<in> live_workspaces x. n \<le> i}"
  by (auto simp: live_workspaces_def without_workspaces_def)

lemma live_Suc:
  assumes "n < WORKSPACE_COUNT"
  shows "{i \<in> live_workspaces x. i < Suc n} =
    (if g_workspaces x n then insert n {i \<in> live_workspaces x. i < n} else {i \<in> live_workspaces x. i < n})"
  using assms by (auto simp: live_workspaces_def less_Suc_eq)

lemma without_Suc:
  assumes "n < WORKSPACE_COUNT" "g_live x = k + card (live_workspaces x)"
  shows "without_workspaces (Suc n) x =
    (if g_workspaces x n then (without_workspaces n x)\<lparr>g_workspaces := (g_workspaces (without_workspaces n x))(n := False),
       g_live := g_live (without_workspaces n x) - 1\<rparr> else without_workspaces n x)"
proof -
  have "(\<lambda>i. Suc n \<le> i \<and> g_workspaces x i) = (\<lambda>i. n \<le> i \<and> g_workspaces x i)(n := False)" by (auto simp: fun_eq_iff)
  moreover have "\<not> g_workspaces x n \<Longrightarrow> (\<lambda>i. Suc n \<le> i \<and> g_workspaces x i) = (\<lambda>i. n \<le> i \<and> g_workspaces x i)"
    by (auto simp: fun_eq_iff le_less Suc_le_eq)
  ultimately show ?thesis by (simp add: without_workspaces_def live_Suc [OF assms(1)])
qed

text \<open>While the group's handle is alive the loop never frees the group.\<close>

lemma destroy_workspaces_held:
  assumes "groups_at st g = Some x" "g_handle x" "g_live x = 1 + card (live_workspaces x)" "n \<le> WORKSPACE_COUNT"
  shows "fold (destroy_workspace g a) [0..<n] st =
    st\<lparr>groups_at := (groups_at st)(g := Some (without_workspaces n x)),
      ws_sent := ws_sent st @ (if a then map (Ws_removed g) (filter (g_workspaces x) [0..<n]) else [])\<rparr>"
  using assms(4)
proof (induction n)
  case 0
  have "without_workspaces 0 x = x" by (simp add: without_workspaces_def)
  then show ?case using assms(1) by (simp add: fun_upd_idem)
next
  case (Suc n)
  define u where "u = fold (destroy_workspace g a) [0..<n] st"
  have u: "u = st\<lparr>groups_at := (groups_at st)(g := Some (without_workspaces n x)),
      ws_sent := ws_sent st @ (if a then map (Ws_removed g) (filter (g_workspaces x) [0..<n]) else [])\<rparr>"
    unfolding u_def by (rule Suc.IH) (use Suc.prems in simp)
  have n: "n < WORKSPACE_COUNT" using Suc.prems by simp
  note w = without_Suc [OF n assms(3)]
  have s: "{i \<in> live_workspaces x. i < Suc n} \<subseteq> live_workspaces x" by auto
  then have l: "card {i \<in> live_workspaces x. i < Suc n} \<le> card (live_workspaces x)" by (simp add: card_mono)
  have "destroy_workspace g a n u = st\<lparr>groups_at := (groups_at st)(g := Some (without_workspaces (Suc n) x)),
      ws_sent := ws_sent st @ (if a then map (Ws_removed g) (filter (g_workspaces x) [0..<Suc n]) else [])\<rparr>"
  proof (cases "g_workspaces x n")
    case False
    then show ?thesis
      by (simp add: u destroy_workspace_def read_group_def group_at_def Let_def w) (simp add: without_workspaces_def)
  next
    case True
    then have g: "g_workspaces (without_workspaces n x) n" by (simp add: without_workspaces_def)
    have "g_live (without_workspaces (Suc n) x) \<noteq> 0" using l assms(3) by (simp add: without_workspaces_def)
    then show ?thesis
      using True g by (simp add: u destroy_workspace_def read_group_def group_at_def Let_def w
          workspace_resource_destroy_def change_group_def maybe_free_group_def wsend_def)
  qed
  moreover have "fold (destroy_workspace g a) [0..<Suc n] st = destroy_workspace g a n u" by (simp add: u_def)
  ultimately show ?case by (rule trans [rotated])
qed

text \<open>The last resource of a group frees it; its manager keeps a hold.\<close>

lemma group_last_resource:
  assumes "groups_at s g = Some z" "g_live z = 1" "g_manager z = m" "managers_at s m = Some y" "2 \<le> m_live y"
  shows "group_resource_destroy g s =
    s\<lparr>groups_at := (groups_at s)(g := None),
      managers_at := (managers_at s)(m := Some (y\<lparr>m_groups := remove1 g (m_groups y), m_live := m_live y - 1\<rparr>))\<rparr>"
proof -
  have "maybe_free_manager m t = t" if "managers_at t m = Some (y\<lparr>m_groups := gs, m_live := m_live y - 1\<rparr>)" for t gs
    using that assms(5) by (simp add: maybe_free_manager_def manager_at_def)
  then show ?thesis
    using assms(1-4) by (simp add: group_resource_destroy_def change_group_def maybe_free_group_def Let_def group_at_def
        change_manager_def)
qed

lemma destroy_group_held:
  assumes "groups_at st g = Some x" "g_handle x" "g_live x = 1 + card (live_workspaces x)" "g_manager x = m"
    and "managers_at st m = Some y" "2 \<le> m_live y"
  shows "destroy_group_resources g announce st =
    st\<lparr>groups_at := (groups_at st)(g := None),
      managers_at := (managers_at st)(m := Some (y\<lparr>m_groups := remove1 g (m_groups y), m_live := m_live y - 1\<rparr>)),
      ws_sent := ws_sent st @ (if announce \<and> \<not> stopped y
        then map (Ws_removed g) (filter (g_workspaces x) [0..<WORKSPACE_COUNT]) @ [Ws_group_removed g] else [])\<rparr>"
proof -
  define a where "a = (announce \<and> \<not> stopped y)"
  define z where "z = without_workspaces WORKSPACE_COUNT x"
  define u where "u = fold (destroy_workspace g a) [0..<WORKSPACE_COUNT] st"
  have u: "u = st\<lparr>groups_at := (groups_at st)(g := Some z),
      ws_sent := ws_sent st @ (if a then map (Ws_removed g) (filter (g_workspaces x) [0..<WORKSPACE_COUNT]) else [])\<rparr>"
    unfolding u_def z_def by (rule destroy_workspaces_held [OF assms(1-3)]) simp
  have "{i \<in> live_workspaces x. i < WORKSPACE_COUNT} = live_workspaces x" by (auto simp: live_workspaces_def)
  then have z: "g_handle z" "g_live z = 1" "g_manager z = m"
    using assms(2-4) by (simp_all add: z_def without_workspaces_def)
  have d: "destroy_group_resources g announce st =
      group_resource_destroy g (if a then wsend [Ws_group_removed g] u else u)"
  proof -
    have "(announce \<and> \<not> stopped (manager_at st (g_manager (group_at st g)))) = a"
      by (simp add: assms(1,4,5) group_at_def manager_at_def a_def)
    moreover have "read_group g u = u" "g_handle (group_at u g)" using z(1) by (simp_all add: u read_group_def group_at_def)
    ultimately show ?thesis
      by (simp only: destroy_group_resources_def Let_def u_def [symmetric] not_True_eq_False if_False)
  qed
  define s where "s = wsend (if a then [Ws_group_removed g] else []) u"
  have s: "groups_at s g = Some z" "managers_at s = managers_at st" "groups_at s = (groups_at st)(g := Some z)"
    by (simp_all add: s_def u wsend_def)
  have "(if a then wsend [Ws_group_removed g] u else u) = s" by (simp add: s_def wsend_def)
  moreover have "group_resource_destroy g s =
      s\<lparr>groups_at := (groups_at st)(g := None),
        managers_at := (managers_at st)(m := Some (y\<lparr>m_groups := remove1 g (m_groups y), m_live := m_live y - 1\<rparr>))\<rparr>"
    by (rule group_last_resource [OF s(1) z(2,3) _ assms(6), unfolded s(2,3) fun_upd_upd]) (simp add: s(2) assms(5))
  ultimately show ?thesis
    unfolding d a_def [symmetric] by (simp add: s_def u wsend_def split del: if_split) simp
qed

text \<open>A manager whose groups all have their handle.\<close>

definition handles_alive :: "workspaces \<Rightarrow> nat \<Rightarrow> bool" where
  "handles_alive st m \<longleftrightarrow> (\<forall>g \<in> set (m_groups (manager_at st m)). g_handle (group_at st g))"

lemma destroy_groups_held:
  assumes "manager_ok h st m" "1 \<le> h" "handles_alive st m" "gs = m_groups (manager_at st m)"
  shows "\<exists>y. managers_at st m = Some y \<and>
    fold (\<lambda>g. destroy_group_resources g False) gs st =
      st\<lparr>groups_at := (\<lambda>g. if g \<in> set gs then None else groups_at st g),
        managers_at := (managers_at st)(m := Some (y\<lparr>m_groups := [], m_live := h + (if m_handle y then 1 else 0)\<rparr>))\<rparr>"
  using assms
proof (induction gs arbitrary: st)
  case Nil
  then obtain y where y: "managers_at st m = Some y" "m_groups y = []" "m_live y = h + (if m_handle y then 1 else 0)"
    by (auto simp: manager_ok_def manager_at_def)
  then have e: "y\<lparr>m_groups := [], m_live := h + (if m_handle y then 1 else 0)\<rparr> = y" by (cases y) simp
  have f: "(managers_at st)(m := Some y) = managers_at st" by (rule fun_upd_idem) (rule y(1))
  have "fold (\<lambda>g. destroy_group_resources g False) [] st =
      st\<lparr>groups_at := (\<lambda>g. if g \<in> set [] then None else groups_at st g),
        managers_at := (managers_at st)(m := Some (y\<lparr>m_groups := [], m_live := h + (if m_handle y then 1 else 0)\<rparr>))\<rparr>"
    unfolding e f by simp
  then show ?case using y(1) by blast
next
  case (Cons g gs)
  obtain y where y: "managers_at st m = Some y" "distinct (m_groups y)"
      "m_live y = h + (if m_handle y then 1 else 0) + length (m_groups y)" "m_groups y = g # gs"
      "\<forall>g \<in> set (m_groups y). group_ok st g \<and> g_manager (group_at st g) = m"
    using Cons.prems(1) Cons.prems(4) [symmetric] unfolding manager_ok_def manager_at_def by fastforce
  then obtain x where x: "groups_at st g = Some x" "g_live x = (if g_handle x then 1 else 0) + card (live_workspaces x)"
    "g_manager x = m"
    by (auto simp: group_ok_def group_at_def)
  have h: "g_handle x" using Cons.prems(3) x(1) y(1,4) by (simp add: handles_alive_def manager_at_def group_at_def)
  define st1 where "st1 = destroy_group_resources g False st"
  have st1: "st1 = st\<lparr>groups_at := (groups_at st)(g := None),
      managers_at := (managers_at st)(m := Some (y\<lparr>m_groups := gs, m_live := m_live y - 1\<rparr>))\<rparr>"
    using destroy_group_held [OF x(1) h _ x(3) y(1), of False] x(2) h y(3,4) Cons.prems(2) by (simp add: st1_def)
  have n: "g \<notin> set gs" using y(2,4) by simp
  have "manager_ok h st1 m"
  proof -
    have "group_ok st1 c \<and> g_manager (group_at st1 c) = m" if "c \<in> set gs" for c
    proof -
      have "c \<noteq> g" using that n by blast
      then have "groups_at st1 c = groups_at st c" by (simp add: st1)
      moreover have "group_ok st c \<and> g_manager (group_at st c) = m" using that y(4,5) by simp
      ultimately show ?thesis by (simp add: group_ok_def group_at_def)
    qed
    moreover have "managers_at st1 m = Some (y\<lparr>m_groups := gs, m_live := m_live y - 1\<rparr>)" by (simp add: st1)
    ultimately show ?thesis using y(2-4) by (simp add: manager_ok_def)
  qed
  moreover have "handles_alive st1 m"
    using Cons.prems(3) n y(1,4) by (auto simp: handles_alive_def st1 manager_at_def group_at_def)
  moreover have "gs = m_groups (manager_at st1 m)" by (simp add: st1 manager_at_def)
  ultimately obtain y' where y': "managers_at st1 m = Some y'"
    "fold (\<lambda>g. destroy_group_resources g False) gs st1 =
      st1\<lparr>groups_at := (\<lambda>g. if g \<in> set gs then None else groups_at st1 g),
        managers_at := (managers_at st1)(m := Some (y'\<lparr>m_groups := [], m_live := h + (if m_handle y' then 1 else 0)\<rparr>))\<rparr>"
    using Cons.IH [of st1] Cons.prems(2) by blast
  have e: "(\<lambda>c. if c \<in> set gs then None else groups_at st1 c) =
      (\<lambda>c. if c \<in> set (g # gs) then None else groups_at st c)" by (auto simp: fun_eq_iff st1)
  have "y' = y\<lparr>m_groups := gs, m_live := m_live y - 1\<rparr>" using y'(1) by (simp add: st1)
  then have "fold (\<lambda>g. destroy_group_resources g False) (g # gs) st =
      st\<lparr>groups_at := (\<lambda>c. if c \<in> set (g # gs) then None else groups_at st c),
        managers_at := (managers_at st)(m := Some (y\<lparr>m_groups := [], m_live := h + (if m_handle y then 1 else 0)\<rparr>))\<rparr>"
    using y'(2) unfolding fold_Cons o_apply st1_def [symmetric] e by (simp add: st1 split del: if_split)
  then show ?case using y(1) by blast
qed

text \<open>The teardown of a manager whose groups have their handles frees it, its groups and nothing else.\<close>

lemma destroy_manager_resources_freed:
  assumes "manager_ok 0 st m" "handles_alive st m"
  shows "destroy_manager_resources m st =
    st\<lparr>managers := remove1 m (managers st), managers_at := (managers_at st)(m := None),
      groups_at := (\<lambda>g. if g \<in> set (m_groups (manager_at st m)) then None else groups_at st g)\<rparr>"
proof -
  obtain x where x: "managers_at st m = Some x" "distinct (m_groups x)"
      "m_live x = (if m_handle x then 1 else 0) + length (m_groups x)"
      "\<forall>g \<in> set (m_groups x). group_ok st g \<and> g_manager (group_at st g) = m"
    using assms(1) by (fastforce simp: manager_ok_def)
  define s where "s = hold_manager m st"
  have s: "s = st\<lparr>managers_at := (managers_at st)(m := Some (x\<lparr>m_live := m_live x + 1\<rparr>))\<rparr>"
    by (simp add: s_def hold_manager_def change_manager_def x(1))
  have a: "manager_at s m = x\<lparr>m_live := m_live x + 1\<rparr>" by (simp add: s manager_at_def)
  have c: "group_ok s g = group_ok st g" "group_at s g = group_at st g" for g
    by (simp_all add: s group_ok_def group_at_def)
  have m1: "managers_at s m = Some (x\<lparr>m_live := m_live x + 1\<rparr>)" by (simp add: s)
  have "manager_ok 1 s m" using x(2-4) by (simp add: manager_ok_at [OF m1] c)
  moreover have "handles_alive s m"
    using assms(2) x(1) by (simp add: handles_alive_def a c) (simp add: manager_at_def)
  ultimately obtain y where y: "managers_at s m = Some y"
    "fold (\<lambda>g. destroy_group_resources g False) (m_groups x) s =
      s\<lparr>groups_at := (\<lambda>g. if g \<in> set (m_groups x) then None else groups_at s g),
        managers_at := (managers_at s)(m := Some (y\<lparr>m_groups := [], m_live := 1 + (if m_handle y then 1 else 0)\<rparr>))\<rparr>"
    using destroy_groups_held [of 1 s m "m_groups x"] by (auto simp: a)
  have gs: "groups_at s = groups_at st" by (simp add: s)
  have "y = x\<lparr>m_live := m_live x + 1\<rparr>" using y(1) by (simp add: s)
  then have u: "fold (\<lambda>g. destroy_group_resources g False) (m_groups (manager_at s m)) s =
      st\<lparr>groups_at := (\<lambda>g. if g \<in> set (m_groups x) then None else groups_at st g),
        managers_at := (managers_at st)(m := Some (x\<lparr>m_groups := [], m_live := 1 + (if m_handle x then 1 else 0)\<rparr>))\<rparr>"
    using y(2) unfolding gs a by (simp add: s split del: if_split)
  have m: "m_groups (manager_at st m) = m_groups x" by (simp add: manager_at_def x(1))
  show ?thesis
    unfolding destroy_manager_resources_def s_def [symmetric] Let_def u m
    by (cases "m_handle x") (simp_all add: manager_at_def manager_resource_destroy_def release_manager_def
        change_manager_def maybe_free_manager_def)
qed

section \<open>A group without its handle\<close>

lemma live_split: "card (live_workspaces x) = card {i \<in> live_workspaces x. i < n} + card {i \<in> live_workspaces x. n \<le> i}"
proof -
  have "live_workspaces x = {i \<in> live_workspaces x. i < n} \<union> {i \<in> live_workspaces x. n \<le> i}" by auto
  then show ?thesis by (metis (no_types, lifting) card_Un_disjoint disjoint_iff finite_Un finite_live leD mem_Collect_eq)
qed

lemma group_freed: "g_live (group_at st g) = 0 \<Longrightarrow> groups_at (maybe_free_group g st) g = None"
  by (simp add: maybe_free_group_def Let_def maybe_free_manager_def change_manager_def split: option.split)

lemma destroy_workspaces_freed:
  assumes "groups_at st g = Some x" "\<not> g_handle x" "g_live x = card (live_workspaces x)" "live_workspaces x \<noteq> {}"
    and "n \<le> WORKSPACE_COUNT"
  shows "groups_at (fold (destroy_workspace g a) [0..<n] st) g = None \<or>
    groups_at (fold (destroy_workspace g a) [0..<n] st) g = Some (without_workspaces n x) \<and>
    {i \<in> live_workspaces x. n \<le> i} \<noteq> {}"
  using assms(5)
proof (induction n)
  case 0
  have "without_workspaces 0 x = x" by (simp add: without_workspaces_def)
  then show ?case using assms(1,4) by simp
next
  case (Suc n)
  define u where "u = fold (destroy_workspace g a) [0..<n] st"
  define v where "v = destroy_workspace g a n u"
  have n: "n < WORKSPACE_COUNT" using Suc.prems by simp
  have "groups_at v g = None \<or> groups_at v g = Some (without_workspaces (Suc n) x) \<and>
    {i \<in> live_workspaces x. Suc n \<le> i} \<noteq> {}"
  proof (cases "groups_at u g = None")
    case True
    then show ?thesis by (simp add: v_def destroy_workspace_def read_group_def group_at_def no_group_def)
  next
    case False
    then have u: "groups_at u g = Some (without_workspaces n x)" "{i \<in> live_workspaces x. n \<le> i} \<noteq> {}"
      using Suc.IH n by (auto simp: u_def)
    note w = without_Suc [OF n, of x 0, simplified, OF assms(3)]
    show ?thesis
    proof (cases "g_workspaces x n")
      case False
      then have "{i \<in> live_workspaces x. Suc n \<le> i} = {i \<in> live_workspaces x. n \<le> i}"
        by (auto simp: live_workspaces_def le_less Suc_le_eq)
      then show ?thesis using False u
        by (simp add: v_def w destroy_workspace_def read_group_def group_at_def) (simp add: without_workspaces_def)
    next
      case True
      then have g: "g_workspaces (without_workspaces n x) n" by (simp add: without_workspaces_def)
      define t where "t = change_group g (\<lambda>x. x\<lparr>g_workspaces := (g_workspaces x)(n := False), g_live := g_live x - 1\<rparr>)
        (if a then wsend [Ws_removed g n] u else u)"
      have t: "groups_at t g = Some (without_workspaces (Suc n) x)"
        using u(1) True by (simp add: t_def change_group_def wsend_def w)
      have v: "v = maybe_free_group g t"
        using u(1) g by (simp add: v_def t_def destroy_workspace_def read_group_def group_at_def workspace_resource_destroy_def)
      have l: "g_live (without_workspaces (Suc n) x) = card {i \<in> live_workspaces x. Suc n \<le> i}"
        using live_split [of x "Suc n"] assms(3) by (simp add: without_workspaces_def)
      show ?thesis
      proof (cases "g_live (without_workspaces (Suc n) x) = 0")
        case True
        then have "groups_at v g = None" unfolding v by (intro group_freed) (simp add: group_at_def t)
        then show ?thesis by blast
      next
        case False
        then have "v = t" by (simp add: v maybe_free_group_def group_at_def t)
        then show ?thesis using False t l by auto
      qed
    qed
  qed
  moreover have "fold (destroy_workspace g a) [0..<Suc n] st = v" by (simp add: u_def v_def)
  ultimately show ?case by simp
qed

text \<open>When a client has destroyed the handle of a group but not all of its workspaces, the teardown of
  the group (for its screen that went away, for a stopped manager) frees the group with the last workspace
  and then reads it.\<close>

theorem group_torn_down_twice:
  assumes "group_ok st g" "\<not> g_handle (group_at st g)" "live_workspaces (group_at st g) \<noteq> {}"
  shows "stale (destroy_group_resources g announce st)"
proof -
  obtain x where g: "groups_at st g = Some x" "g_live x = (if g_handle x then 1 else 0) + card (live_workspaces x)"
    using assms(1) unfolding group_ok_def by blast
  then have x: "groups_at st g = Some x" "g_live x = card (live_workspaces x)" "\<not> g_handle x" "live_workspaces x \<noteq> {}"
    using assms(2,3) by (simp_all add: group_at_def)
  define u where "u = fold (destroy_workspace g (announce \<and> \<not> stopped (manager_at st (g_manager (group_at st g)))))
    [0..<WORKSPACE_COUNT] st"
  have "{i \<in> live_workspaces x. WORKSPACE_COUNT \<le> i} = {}" by (auto simp: live_workspaces_def)
  then have "groups_at u g = None"
    using destroy_workspaces_freed [OF x(1,3,2,4) order.refl] unfolding u_def by blast
  then have "stale (read_group g u)" "\<not> g_handle (group_at (read_group g u) g)"
    by (simp_all add: read_group_def group_at_def no_group_def)
  then show ?thesis by (simp only: destroy_group_resources_def Let_def u_def [symmetric] not_False_eq_True if_True)
qed

text \<open>Manager 1 has group 2 on screen 7; the client has destroyed the group's handle and workspaces 3 to 8.\<close>

definition ws_example :: "bool \<Rightarrow> nat \<Rightarrow> int \<Rightarrow> workspaces" where
  "ws_example handle n pending = \<lparr>managers = [1],
     managers_at = [1 \<mapsto> \<lparr>m_handle = True, m_groups = [2], m_live = 2, stopped = False\<rparr>],
     groups_at = [2 \<mapsto> \<lparr>g_manager = 1, g_screen = 7, g_handle = handle, g_workspaces = (\<lambda>i. i < n),
       pending_active = pending, g_live = (if handle then 1 else 0) + n\<rparr>],
     ws_screens = [7], active_workspace = (\<lambda>_. 1), ws_sent = [], stale = False\<rparr>"

lemma ws_example_live: "n \<le> WORKSPACE_COUNT \<Longrightarrow> live_workspaces (group_at (ws_example handle n p) 2) = {..<n}"
  by (auto simp: live_workspaces_def ws_example_def group_at_def)

lemma ws_example_group:
  assumes "n \<le> WORKSPACE_COUNT"
  shows "group_ok (ws_example handle n p) 2"
  using ws_example_live [OF assms, of handle p] by (simp add: group_ok_def group_at_def ws_example_def)

lemma ws_example_ok:
  assumes "n \<le> WORKSPACE_COUNT"
  shows "manager_ok 0 (ws_example handle n p) 1"
proof -
  have m: "managers_at (ws_example handle n p) 1 = Some \<lparr>m_handle = True, m_groups = [2], m_live = 2, stopped = False\<rparr>"
    by (simp add: ws_example_def)
  have "g_manager (group_at (ws_example handle n p) 2) = 1" by (simp add: ws_example_def group_at_def)
  then show ?thesis unfolding manager_ok_at [OF m] using ws_example_group [OF assms, of handle p] by simp
qed

theorem group_torn_down_twice_witness: "stale (destroy_group_resources 2 True (ws_example False 3 (-1)))"
  by (rule group_torn_down_twice, rule ws_example_group)
    (simp_all add: WORKSPACE_COUNT_def ws_example_live lessThan_empty_iff, simp add: ws_example_def group_at_def)

text \<open>When a client stops its manager while the handles of its groups are alive, the manager and all its groups
  are freed, nothing else changes, nothing freed is read and the client gets one finished event.\<close>

theorem stop_frees_manager:
  assumes "manager_ok 0 st m" "handles_alive st m" "\<not> stopped (manager_at st m)"
  shows "manager_stop m st =
    st\<lparr>managers := remove1 m (managers st), managers_at := (managers_at st)(m := None),
      groups_at := (\<lambda>g. if g \<in> set (m_groups (manager_at st m)) then None else groups_at st g),
      ws_sent := ws_sent st @ [Ws_finished m]\<rparr>"
proof -
  obtain x where x: "managers_at st m = Some x" using assms(1) by (auto simp: manager_ok_def)
  define s where "s = wsend [Ws_finished m] (change_manager m (\<lambda>x. x\<lparr>stopped := True\<rparr>) st)"
  have s: "s = st\<lparr>managers_at := (managers_at st)(m := Some (x\<lparr>stopped := True\<rparr>)), ws_sent := ws_sent st @ [Ws_finished m]\<rparr>"
    by (simp add: s_def wsend_def change_manager_def x)
  have c: "group_ok s g = group_ok st g" "group_at s g = group_at st g" "groups_at s = groups_at st" for g
    by (simp_all add: s group_ok_def group_at_def)
  have a: "managers_at s m = Some (x\<lparr>stopped := True\<rparr>)" "m_groups (manager_at s m) = m_groups (manager_at st m)"
    by (simp_all add: s manager_at_def x)
  have "manager_ok 0 s m" using assms(1) by (simp add: manager_ok_at [OF a(1)] manager_ok_at [OF x] c)
  moreover have "handles_alive s m" using assms(2) by (simp add: handles_alive_def c a)
  ultimately have "destroy_manager_resources m s = s\<lparr>managers := remove1 m (managers s), managers_at := (managers_at s)(m := None),
      groups_at := (\<lambda>g. if g \<in> set (m_groups (manager_at s m)) then None else groups_at s g)\<rparr>"
    by (rule destroy_manager_resources_freed)
  then have "destroy_manager_resources m s = st\<lparr>managers := remove1 m (managers st), managers_at := (managers_at st)(m := None),
      groups_at := (\<lambda>g. if g \<in> set (m_groups (manager_at st m)) then None else groups_at st g), ws_sent := ws_sent st @ [Ws_finished m]\<rparr>"
    unfolding c(3) a(2) by (simp add: s)
  then show ?thesis using assms(3) by (simp add: manager_stop_def s_def)
qed

theorem stop_frees_manager_witness:
  "managers_at (manager_stop 1 (ws_example True 9 4)) 1 = None \<and> groups_at (manager_stop 1 (ws_example True 9 4)) 2 = None \<and>
   \<not> stale (manager_stop 1 (ws_example True 9 4))"
proof -
  have "manager_ok 0 (ws_example True 9 4) 1" by (rule ws_example_ok) (simp add: WORKSPACE_COUNT_def)
  moreover have "handles_alive (ws_example True 9 4) 1" "\<not> stopped (manager_at (ws_example True 9 4) 1)"
    by (simp_all add: handles_alive_def manager_at_def group_at_def ws_example_def)
  ultimately have e: "manager_stop 1 (ws_example True 9 4) = (ws_example True 9 4)
    \<lparr>managers := remove1 1 (managers (ws_example True 9 4)), managers_at := (managers_at (ws_example True 9 4))(1 := None),
      groups_at := (\<lambda>g. if g \<in> set (m_groups (manager_at (ws_example True 9 4) 1)) then None else groups_at (ws_example True 9 4) g),
      ws_sent := ws_sent (ws_example True 9 4) @ [Ws_finished 1]\<rparr>"
    by (rule stop_frees_manager)
  show ?thesis unfolding e by (simp add: manager_at_def) (simp add: ws_example_def)
qed

section \<open>Commits\<close>

definition activation :: "bool \<Rightarrow> workspaces \<Rightarrow> nat \<Rightarrow> bool" where
  "activation wm st g \<longleftrightarrow> wm \<and> 0 \<le> pending_active (group_at st g) \<and>
     pending_active (group_at st g) < int WORKSPACE_COUNT \<and> g_screen (group_at st g) \<in> set (ws_screens st)"

lemma commit_group_at:
  assumes "groups_at st g = Some x"
  shows "commit_group wm g st = st\<lparr>groups_at := (groups_at st)(g := Some (x\<lparr>pending_active := -1\<rparr>)),
    ws_sent := ws_sent st @ (if activation wm st g
      then [Wm_activate (g_screen (group_at st g)) (pending_active (group_at st g) + 1)] else [])\<rparr>"
  using assms by (simp add: commit_group_def Let_def group_at_def change_group_def activation_def wsend_def)

lemma commit_groups:
  assumes "distinct gs" "\<forall>g \<in> set gs. groups_at st g \<noteq> None"
  shows "fold (commit_group wm) gs st = st
    \<lparr>groups_at := (\<lambda>g. if g \<in> set gs then map_option (\<lambda>x. x\<lparr>pending_active := -1\<rparr>) (groups_at st g) else groups_at st g),
     ws_sent := ws_sent st @ map (\<lambda>g. Wm_activate (g_screen (group_at st g)) (pending_active (group_at st g) + 1))
       (filter (activation wm st) gs)\<rparr>"
  using assms
proof (induction gs arbitrary: st)
  case Nil
  then show ?case by simp
next
  case (Cons g gs)
  then obtain x where x: "groups_at st g = Some x" by auto
  define u where "u = commit_group wm g st"
  note u = commit_group_at [OF x, of wm, folded u_def]
  have n: "g \<notin> set gs" using Cons.prems(1) by simp
  then have c: "groups_at u c = groups_at st c" "group_at u c = group_at st c" "activation wm u c = activation wm st c"
    if "c \<in> set gs" for c
    using that by (auto simp: u group_at_def activation_def)
  have ih: "fold (commit_group wm) gs u = u
    \<lparr>groups_at := (\<lambda>g. if g \<in> set gs then map_option (\<lambda>x. x\<lparr>pending_active := -1\<rparr>) (groups_at u g) else groups_at u g),
     ws_sent := ws_sent u @ map (\<lambda>g. Wm_activate (g_screen (group_at u g)) (pending_active (group_at u g) + 1))
       (filter (activation wm u) gs)\<rparr>"
    by (rule Cons.IH) (use Cons.prems c(1) in simp_all)
  have f: "(\<lambda>g. if g \<in> set gs then map_option (\<lambda>x. x\<lparr>pending_active := -1\<rparr>) (groups_at u g) else groups_at u g) =
    (\<lambda>c. if c \<in> set (g # gs) then map_option (\<lambda>x. x\<lparr>pending_active := -1\<rparr>) (groups_at st c) else groups_at st c)"
    using n x by (auto simp: fun_eq_iff u)
  have "filter (activation wm u) gs = filter (activation wm st) gs" by (rule filter_cong) (simp_all add: c)
  then have m: "map (\<lambda>g. Wm_activate (g_screen (group_at u g)) (pending_active (group_at u g) + 1)) (filter (activation wm u) gs) =
    map (\<lambda>g. Wm_activate (g_screen (group_at st g)) (pending_active (group_at st g) + 1)) (filter (activation wm st) gs)"
    by (simp add: c)
  show ?case
    unfolding fold_Cons o_apply u_def [symmetric] ih f m by (simp add: u)
qed

text \<open>A commit hands the window manager the pending workspace of each group of the manager whose screen is still
  listed, in the order of the groups and numbered from one, and forgets every pending request, those it drops too.\<close>

theorem commit_activates_pending:
  assumes "manager_ok h st m"
  shows "manager_commit wm m st = st
    \<lparr>groups_at := (\<lambda>g. if g \<in> set (m_groups (manager_at st m))
       then map_option (\<lambda>x. x\<lparr>pending_active := -1\<rparr>) (groups_at st g) else groups_at st g),
     ws_sent := ws_sent st @ map (\<lambda>g. Wm_activate (g_screen (group_at st g)) (pending_active (group_at st g) + 1))
       (filter (activation wm st) (m_groups (manager_at st m)))\<rparr>"
proof -
  obtain x where x: "managers_at st m = Some x" using assms by (auto simp: manager_ok_def)
  have "distinct (m_groups (manager_at st m))" "\<forall>g \<in> set (m_groups (manager_at st m)). groups_at st g \<noteq> None"
    using assms unfolding manager_ok_at [OF x] by (auto simp: manager_at_def x group_ok_def)
  then show ?thesis unfolding manager_commit_def by (rule commit_groups)
qed

theorem commit_activates_pending_witness:
  "ws_sent (manager_commit True 1 (ws_example True 9 4)) = [Wm_activate 7 5]"
proof -
  have "manager_ok 0 (ws_example True 9 4) 1" by (rule ws_example_ok) (simp add: WORKSPACE_COUNT_def)
  note e = commit_activates_pending [OF this, of True]
  show ?thesis unfolding e by (simp add: ws_example_def manager_at_def group_at_def activation_def WORKSPACE_COUNT_def)
qed

end
