(* ===== verification/Surface.thy ===== *)
theory Surface
  imports Geometry
begin

text \<open>
  Surfaces (\<open>libswc/surface.c\<close>) and regions (\<open>libswc/region.c\<close>): the pending, cached and current state of a
  \<open>wl_surface\<close>, and the pixels of a buffer with a scale and a transform.

  A \<open>pixman_region32_t\<close> is the set of its points.  A surface has no explicit synchronization
  (\<open>synced\<close> is \<open>NULL\<close>, for which the functions of \<open>libswc/drm_syncobj.c\<close> do nothing and accept everything).
  \<open>sf_log\<close> collects what is sent for the surface and the references taken on its buffers; \<open>Release\<close> stands for
  a release that is owed, which \<open>release_buffer\<close> sends when the renderer is done.
\<close>

section \<open>Regions\<close>

type_synonym region = "(int \<times> int) set"

definition rect_region :: "int \<Rightarrow> int \<Rightarrow> int \<Rightarrow> int \<Rightarrow> region" where
  "rect_region x y w h = {(a, b). x \<le> a \<and> a < x + w \<and> y \<le> b \<and> b < y + h}"

definition region_add :: "int \<Rightarrow> int \<Rightarrow> int \<Rightarrow> int \<Rightarrow> region \<Rightarrow> region" where
  "region_add x y w h r = r \<union> rect_region x y w h"

definition region_subtract :: "int \<Rightarrow> int \<Rightarrow> int \<Rightarrow> int \<Rightarrow> region \<Rightarrow> region" where
  "region_subtract x y w h r = r - rect_region x y w h"

section \<open>State\<close>

record surface_state =
  st_buffer :: "nat option"
  st_resource :: "nat option"
  st_damage :: region
  st_opaque :: region
  st_input :: region
  st_scale :: int
  st_transform :: int
  st_callbacks :: "nat list"
  st_below :: "nat list"
  st_above :: "nat list"

record surface_pending =
  pn_state :: surface_state
  pn_commit :: mask
  pn_x :: int
  pn_y :: int
  pn_geometry :: swc_rectangle

datatype surface_error = INVALID_SIZE | INVALID_TRANSFORM | INVALID_SCALE | UNREADABLE | NO_MEMORY

datatype surf_event =
    Release nat
  | Ref nat
  | Unref nat
  | Callback_done nat int
  | Callback_dropped nat
  | Surface_error surface_error

record surface =
  sf_state :: surface_state
  sf_pending :: surface_pending
  sf_cached :: surface_pending
  applying_cached :: bool
  sf_view :: "nat option"
  sf_role :: "nat option"
  sf_role_name :: "string option"
  sf_sub :: "nat option"
  sf_subs :: "nat list"
  has_window_geometry :: bool
  window_geometry :: swc_rectangle
  sf_log :: "surf_event list"

definition COMMIT_ATTACH :: mask where "COMMIT_ATTACH = 1"
definition COMMIT_DAMAGE :: mask where "COMMIT_DAMAGE = 2"
definition COMMIT_OPAQUE :: mask where "COMMIT_OPAQUE = 4"
definition COMMIT_INPUT :: mask where "COMMIT_INPUT = 8"
definition COMMIT_FRAME :: mask where "COMMIT_FRAME = 16"
definition COMMIT_GEOMETRY :: mask where "COMMIT_GEOMETRY = 32"
definition COMMIT_SCALE :: mask where "COMMIT_SCALE = 64"
definition COMMIT_TRANSFORM :: mask where "COMMIT_TRANSFORM = 128"
definition COMMIT_DAMAGE_BUFFER :: mask where "COMMIT_DAMAGE_BUFFER = 256"

lemmas commit_flags = COMMIT_ATTACH_def COMMIT_DAMAGE_def COMMIT_OPAQUE_def COMMIT_INPUT_def COMMIT_FRAME_def
  COMMIT_GEOMETRY_def COMMIT_SCALE_def COMMIT_TRANSFORM_def COMMIT_DAMAGE_BUFFER_def

datatype slot = Current | Pending | Cached

fun slot_state :: "slot \<Rightarrow> surface \<Rightarrow> surface_state" where
  "slot_state Current s = sf_state s"
| "slot_state Pending s = pn_state (sf_pending s)"
| "slot_state Cached s = pn_state (sf_cached s)"

fun on_state :: "slot \<Rightarrow> (surface_state \<Rightarrow> surface_state) \<Rightarrow> surface \<Rightarrow> surface" where
  "on_state Current f s = s\<lparr>sf_state := f (sf_state s)\<rparr>"
| "on_state Pending f s = s\<lparr>sf_pending := (sf_pending s)\<lparr>pn_state := f (pn_state (sf_pending s))\<rparr>\<rparr>"
| "on_state Cached f s = s\<lparr>sf_cached := (sf_cached s)\<lparr>pn_state := f (pn_state (sf_cached s))\<rparr>\<rparr>"

definition surf_send :: "surf_event list \<Rightarrow> surface \<Rightarrow> surface" where
  "surf_send es s = s\<lparr>sf_log := sf_log s @ es\<rparr>"

definition infinite_extents :: region where
  "infinite_extents = {(x, y). INT32_MIN \<le> x \<and> x < INT32_MAX \<and> INT32_MIN \<le> y \<and> y < INT32_MAX}"

definition state_initialize :: surface_state where
  "state_initialize = \<lparr>st_buffer = None, st_resource = None, st_damage = {}, st_opaque = {},
     st_input = infinite_extents, st_scale = 1, st_transform = 0, st_callbacks = [], st_below = [], st_above = []\<rparr>"

definition pending_initialize :: surface_pending where
  "pending_initialize = \<lparr>pn_state = state_initialize, pn_commit = 0, pn_x = 0, pn_y = 0, pn_geometry = mk_rect 0 0 0 0\<rparr>"

definition surface_new :: surface where
  "surface_new = \<lparr>sf_state = state_initialize, sf_pending = pending_initialize, sf_cached = pending_initialize,
     applying_cached = False, sf_view = None, sf_role = None, sf_role_name = None, sf_sub = None, sf_subs = [],
     has_window_geometry = False, window_geometry = mk_rect 0 0 0 0, sf_log = []\<rparr>"

section \<open>Buffers\<close>

text \<open>
  What the surface asks of the parts below it, in a world \<open>'w\<close> they share: the buffer behind a
  \<open>wl_buffer\<close> (\<open>wayland_buffer_get\<close>), its size, whether its memory can be read (\<open>shm_buffer_read\<close>) and
  whether the pixels of a scaled or rotated buffer can be had.
\<close>

record 'w buffers =
  buffer_get :: "'w \<Rightarrow> nat \<Rightarrow> nat option"
  buffer_size :: "nat \<Rightarrow> nat \<times> nat"
  buffer_read :: "'w \<Rightarrow> nat option \<Rightarrow> bool"
  buffer_raster :: "'w \<Rightarrow> nat \<Rightarrow> bool"

definition handle_buffer_destroy :: "slot \<Rightarrow> surface \<Rightarrow> surface" where
  "handle_buffer_destroy l s = on_state l (\<lambda>t. t\<lparr>st_resource := None\<rparr>) s"

definition state_assign_buffer :: "slot \<Rightarrow> nat option \<Rightarrow> nat option \<Rightarrow> surface \<Rightarrow> surface" where
  "state_assign_buffer l buf resource s =
     (let s = (case buf of None \<Rightarrow> s | Some b \<Rightarrow> surf_send [Ref b] s);
          s = (case st_buffer (slot_state l s) of None \<Rightarrow> s | Some b \<Rightarrow> surf_send [Unref b] s)
      in on_state l (\<lambda>t. t\<lparr>st_buffer := buf, st_resource := resource\<rparr>) s)"

definition state_set_buffer :: "'w buffers \<Rightarrow> 'w \<Rightarrow> slot \<Rightarrow> nat option \<Rightarrow> surface \<Rightarrow> surface" where
  "state_set_buffer B w l resource s =
     state_assign_buffer l (case resource of None \<Rightarrow> None | Some r \<Rightarrow> buffer_get B w r) resource s"

definition release_buffer :: "nat \<Rightarrow> surface \<Rightarrow> surface" where
  "release_buffer r s = surf_send [Release r] s"

definition state_finalize :: "slot \<Rightarrow> surface \<Rightarrow> surface" where
  "state_finalize l s =
     surf_send (map Callback_dropped (st_callbacks (slot_state l s)))
       (case st_buffer (slot_state l s) of None \<Rightarrow> s | Some b \<Rightarrow> surf_send [Unref b] s)"

section \<open>Requests\<close>

definition on_pending :: "mask \<Rightarrow> (surface_state \<Rightarrow> surface_state) \<Rightarrow> surface \<Rightarrow> surface" where
  "on_pending flag f s = s\<lparr>sf_pending := (sf_pending s)\<lparr>pn_commit := pn_commit (sf_pending s) OR flag,
     pn_state := f (pn_state (sf_pending s))\<rparr>\<rparr>"

definition attach :: "'w buffers \<Rightarrow> 'w \<Rightarrow> nat option \<Rightarrow> int \<Rightarrow> int \<Rightarrow> surface \<Rightarrow> surface" where
  "attach B w resource x y s =
     (let s = on_pending COMMIT_ATTACH id s;
          s = state_set_buffer B w Pending resource s
      in s\<lparr>sf_pending := (sf_pending s)\<lparr>pn_x := x, pn_y := y\<rparr>\<rparr>)"

definition damage :: "int \<Rightarrow> int \<Rightarrow> int \<Rightarrow> int \<Rightarrow> surface \<Rightarrow> surface" where
  "damage x y width height s =
     (if width \<le> 0 \<or> height \<le> 0 then s
      else on_pending COMMIT_DAMAGE (\<lambda>t. t\<lparr>st_damage := st_damage t \<union> rect_region x y width height\<rparr>) s)"

text \<open>\<open>callback\<close> is the resource of the callback, if it can be allocated.\<close>

definition frame :: "nat option \<Rightarrow> surface \<Rightarrow> surface" where
  "frame callback s =
     (case callback of None \<Rightarrow> surf_send [Surface_error NO_MEMORY] s
      | Some c \<Rightarrow> on_pending COMMIT_FRAME (\<lambda>t. t\<lparr>st_callbacks := st_callbacks t @ [c]\<rparr>) s)"

definition set_opaque_region :: "region option \<Rightarrow> surface \<Rightarrow> surface" where
  "set_opaque_region r s = on_pending COMMIT_OPAQUE (\<lambda>t. t\<lparr>st_opaque := (case r of None \<Rightarrow> {} | Some r \<Rightarrow> r)\<rparr>) s"

definition set_input_region :: "region option \<Rightarrow> surface \<Rightarrow> surface" where
  "set_input_region r s =
     on_pending COMMIT_INPUT (\<lambda>t. t\<lparr>st_input := (case r of None \<Rightarrow> infinite_extents | Some r \<Rightarrow> r)\<rparr>) s"

definition set_buffer_transform :: "int \<Rightarrow> surface \<Rightarrow> surface" where
  "set_buffer_transform transform s =
     (if transform < 0 \<or> transform > 7 then surf_send [Surface_error INVALID_TRANSFORM] s
      else on_pending COMMIT_TRANSFORM (\<lambda>t. t\<lparr>st_transform := transform\<rparr>) s)"

definition set_buffer_scale :: "int \<Rightarrow> surface \<Rightarrow> surface" where
  "set_buffer_scale scale s =
     (if scale \<le> 0 then surf_send [Surface_error INVALID_SCALE] s
      else on_pending COMMIT_SCALE (\<lambda>t. t\<lparr>st_scale := scale\<rparr>) s)"

definition damage_buffer :: "int \<Rightarrow> int \<Rightarrow> surface \<Rightarrow> surface" where
  "damage_buffer w h s = (if w \<le> 0 \<or> h \<le> 0 then s else on_pending COMMIT_DAMAGE_BUFFER id s)"

text \<open>From \<open>xdg_surface.set_window_geometry\<close>, after its checks.\<close>

definition set_window_geometry :: "swc_rectangle \<Rightarrow> surface \<Rightarrow> surface" where
  "set_window_geometry g s =
     (let s = s\<lparr>sf_pending := (sf_pending s)\<lparr>pn_geometry := g\<rparr>\<rparr> in on_pending COMMIT_GEOMETRY id s)"

datatype surface_request =
    Attach "nat option" int int
  | Damage int int int int
  | Frame "nat option"
  | Set_opaque_region "region option"
  | Set_input_region "region option"
  | Set_buffer_transform int
  | Set_buffer_scale int
  | Damage_buffer int int
  | Set_window_geometry swc_rectangle

fun run_request :: "'w buffers \<Rightarrow> 'w \<Rightarrow> surface_request \<Rightarrow> surface \<Rightarrow> surface" where
  "run_request B w (Attach r x y) s = attach B w r x y s"
| "run_request B w (Damage x y a b) s = damage x y a b s"
| "run_request B w (Frame c) s = frame c s"
| "run_request B w (Set_opaque_region r) s = set_opaque_region r s"
| "run_request B w (Set_input_region r) s = set_input_region r s"
| "run_request B w (Set_buffer_transform t) s = set_buffer_transform t s"
| "run_request B w (Set_buffer_scale t) s = set_buffer_scale t s"
| "run_request B w (Damage_buffer a b) s = damage_buffer a b s"
| "run_request B w (Set_window_geometry g) s = set_window_geometry g s"

section \<open>Commits\<close>

text \<open>\<open>cache_pending\<close> but for the order of the subsurfaces, which \<open>subsurface_cache_parent_commit\<close> takes over.\<close>

definition cache_buffer :: "'w buffers \<Rightarrow> 'w \<Rightarrow> surface \<Rightarrow> surface" where
  "cache_buffer B w s =
     (let p = sf_pending s; c = sf_cached s;
          s = (case st_resource (pn_state c) of None \<Rightarrow> s
               | Some r \<Rightarrow> if st_buffer (pn_state c) \<noteq> st_buffer (pn_state p) then release_buffer r s else s);
          s = state_assign_buffer Cached (st_buffer (pn_state p)) (st_resource (pn_state p)) s;
          s = state_set_buffer B w Pending None s
      in s\<lparr>sf_cached := (sf_cached s)\<lparr>pn_x := pn_x (sf_pending s), pn_y := pn_y (sf_pending s)\<rparr>\<rparr>)"

definition merge_state :: "surface_pending \<Rightarrow> surface_state \<Rightarrow> surface_state" where
  "merge_state p c = c\<lparr>
     st_damage := (if has (pn_commit p) COMMIT_DAMAGE then st_damage c \<union> st_damage (pn_state p) else st_damage c),
     st_opaque := (if has (pn_commit p) COMMIT_OPAQUE then st_opaque (pn_state p) else st_opaque c),
     st_input := (if has (pn_commit p) COMMIT_INPUT then st_input (pn_state p) else st_input c),
     st_scale := (if has (pn_commit p) COMMIT_SCALE then st_scale (pn_state p) else st_scale c),
     st_transform := (if has (pn_commit p) COMMIT_TRANSFORM then st_transform (pn_state p) else st_transform c)\<rparr>"

definition cache_pending :: "'w buffers \<Rightarrow> 'w \<Rightarrow> surface \<Rightarrow> surface" where
  "cache_pending B w s =
     (let s = (if has (pn_commit (sf_pending s)) COMMIT_ATTACH then cache_buffer B w s else s);
          p = sf_pending s;
          s = on_state Cached (\<lambda>c. (merge_state p c)\<lparr>st_callbacks := st_callbacks c @ st_callbacks (pn_state p)\<rparr>) s;
          s = s\<lparr>sf_cached := (sf_cached s)\<lparr>
                  pn_geometry := (if has (pn_commit p) COMMIT_GEOMETRY then pn_geometry p else pn_geometry (sf_cached s)),
                  pn_commit := pn_commit (sf_cached s) OR pn_commit p\<rparr>\<rparr>;
          s = on_state Pending (\<lambda>t. t\<lparr>st_callbacks := [], st_damage := {}\<rparr>) s
      in s\<lparr>sf_pending := (sf_pending s)\<lparr>pn_commit := 0\<rparr>\<rparr>)"

text \<open>
  The part of \<open>surface_apply_pending\<close> that takes the state over (\<open>cached\<close>: the cached state); the
  early returns, the views and the subsurfaces are in \<open>Subsurface\<close>.
\<close>

definition source_of :: "bool \<Rightarrow> surface \<Rightarrow> surface_pending" where
  "source_of cached s = (if cached then sf_cached s else sf_pending s)"

definition source_slot :: "bool \<Rightarrow> slot" where
  "source_slot cached = (if cached then Cached else Pending)"

definition apply_buffer :: "bool \<Rightarrow> surface \<Rightarrow> surface" where
  "apply_buffer cached s =
     (let p = source_of cached s;
          replaced = (if st_buffer (sf_state s) \<noteq> None \<and> st_buffer (sf_state s) \<noteq> st_buffer (pn_state p)
                      then st_resource (sf_state s) else None);
          s = state_assign_buffer Current (st_buffer (pn_state p)) (st_resource (pn_state p)) s
      in case replaced of None \<Rightarrow> s | Some r \<Rightarrow> release_buffer r s)"

definition apply_state :: "bool \<Rightarrow> surface \<Rightarrow> surface" where
  "apply_state cached s =
     (let s = (if has (pn_commit (source_of cached s)) COMMIT_ATTACH then apply_buffer cached s else s);
          p = source_of cached s;
          s = (if has (pn_commit p) COMMIT_GEOMETRY
               then s\<lparr>has_window_geometry := True, window_geometry := pn_geometry p\<rparr> else s);
          s = on_state Current (\<lambda>c. (merge_state p c)\<lparr>st_callbacks :=
                (if has (pn_commit p) COMMIT_FRAME then st_callbacks (pn_state p) else []) @ st_callbacks c\<rparr>) s
      in on_state (source_slot cached) (\<lambda>t. t\<lparr>
           st_damage := (if has (pn_commit p) COMMIT_DAMAGE then {} else st_damage t),
           st_callbacks := (if has (pn_commit p) COMMIT_FRAME then [] else st_callbacks t)\<rparr>) s)"

definition trim_region :: "(nat \<times> nat) option \<Rightarrow> region \<Rightarrow> region" where
  "trim_region d r = r \<inter> (case d of None \<Rightarrow> {} | Some (w, h) \<Rightarrow> rect_region 0 0 (int w) (int h))"

text \<open>\<open>sz\<close>: the size of the committed contents, \<open>shown\<close>: that of what the view shows.\<close>

definition damage_and_trim :: "bool \<Rightarrow> (nat \<times> nat) option \<Rightarrow> (nat \<times> nat) option \<Rightarrow> surface \<Rightarrow> surface" where
  "damage_and_trim cached sz shown s =
     (let commit = pn_commit (source_of cached s);
          s = (if has commit (COMMIT_ATTACH OR COMMIT_SCALE OR COMMIT_TRANSFORM OR COMMIT_DAMAGE_BUFFER)
               then on_state Current (\<lambda>t. t\<lparr>st_damage := st_damage t \<union>
                      (case sz of None \<Rightarrow> {} | Some (w, h) \<Rightarrow> rect_region 0 0 (int w) (int h))\<rparr>) s else s)
      in on_state Current (\<lambda>t. t\<lparr>st_damage := trim_region shown (st_damage t),
           st_opaque := trim_region shown (st_opaque t)\<rparr>) s)"

definition finish_commit :: "'w buffers \<Rightarrow> 'w \<Rightarrow> bool \<Rightarrow> surface \<Rightarrow> surface" where
  "finish_commit B w cached s =
     (let s = (if cached then s\<lparr>sf_cached := (sf_cached s)\<lparr>pn_commit := 0\<rparr>\<rparr>
               else s\<lparr>sf_pending := (sf_pending s)\<lparr>pn_commit := 0\<rparr>\<rparr>)
      in state_set_buffer B w (source_slot cached) None s)"

section \<open>Frames, roles\<close>

definition handle_frame :: "int \<Rightarrow> surface \<Rightarrow> surface" where
  "handle_frame time s =
     on_state Current (\<lambda>t. t\<lparr>st_callbacks := []\<rparr>)
       (surf_send (map (\<lambda>c. Callback_done c time) (st_callbacks (sf_state s))) s)"

definition surface_set_role :: "nat \<Rightarrow> string \<Rightarrow> surface \<Rightarrow> bool \<times> surface" where
  "surface_set_role role name s =
     (if sf_role s = Some role then (True, s)
      else if sf_role s \<noteq> None \<or> (case sf_role_name s of None \<Rightarrow> False | Some n \<Rightarrow> n \<noteq> name) then (False, s)
      else (True, s\<lparr>sf_role_name := Some name, sf_role := Some role\<rparr>))"

definition handle_role_destroy :: "surface \<Rightarrow> surface" where
  "handle_role_destroy s = s\<lparr>sf_role := None\<rparr>"

definition surface_has_buffer :: "surface \<Rightarrow> bool" where
  "surface_has_buffer s \<longleftrightarrow> st_buffer (sf_state s) \<noteq> None \<or> st_buffer (pn_state (sf_cached s)) \<noteq> None \<or>
     has (pn_commit (sf_pending s)) COMMIT_ATTACH \<and> st_resource (pn_state (sf_pending s)) \<noteq> None"

section \<open>Pixels\<close>

text \<open>
  \<open>logical_buffer\<close>: the contents of a view is a buffer with a scale and a transform; the usual 1 and 0
  stand for the buffer itself.
\<close>

record content =
  c_source :: nat
  c_scale :: int
  c_transform :: int

definition rotated_size :: "int \<Rightarrow> nat \<times> nat \<Rightarrow> nat \<times> nat" where
  "rotated_size transform d = (if odd transform then (snd d, fst d) else d)"

definition content_size :: "'w buffers \<Rightarrow> content \<Rightarrow> nat \<times> nat" where
  "content_size B c = (let d = rotated_size (c_transform c) (buffer_size B (c_source c))
     in (fst d div nat (c_scale c), snd d div nat (c_scale c)))"

definition logical_buffer ::
  "'w buffers \<Rightarrow> 'w \<Rightarrow> nat option \<Rightarrow> int \<Rightarrow> int \<Rightarrow> surface_error option \<times> content option" where
  "logical_buffer B w source scale transform =
     (case source of None \<Rightarrow> (None, None)
      | Some b \<Rightarrow>
          let c = \<lparr>c_source = b, c_scale = scale, c_transform = transform\<rparr>;
              d = buffer_size B b; r = rotated_size transform d
          in if scale = 1 \<and> transform = 0 then (None, Some c)
             else if int (fst r) mod scale \<noteq> 0 \<or> int (snd r) mod scale \<noteq> 0 then (Some INVALID_SIZE, None)
             else if fst (content_size B c) = 0 \<or> snd (content_size B c) = 0 \<or> fst d > 4294967295 div 4 \<or>
                     snd d > 18446744073709551615 div (fst d * 4) then (None, None)
             else if \<not> buffer_raster B w b then (Some NO_MEMORY, None)
             else (None, Some c))"

text \<open>The pixel of the source that is copied to \<open>(x, y)\<close>, in the 32 bits of the code.\<close>

definition logical_pixel :: "nat \<times> nat \<Rightarrow> int \<Rightarrow> int \<Rightarrow> int \<Rightarrow> int \<Rightarrow> int \<times> int" where
  "logical_pixel d scale transform x y =
     (let w = int (fst d); h = int (snd d); rw = int (fst (rotated_size transform d));
          tx = u32 (x * scale + cdiv scale 2); ty = u32 (y * scale + cdiv scale 2);
          tx = (if bit transform 2 then u32 (rw - 1 - tx) else tx)
      in if transform mod 4 = 1 then (ty, u32 (h - 1 - tx))
         else if transform mod 4 = 2 then (u32 (w - 1 - tx), u32 (h - 1 - ty))
         else if transform mod 4 = 3 then (u32 (w - 1 - ty), tx)
         else (tx, ty))"

text \<open>The middle of a block of \<open>scale\<close> pixels.\<close>

definition sample :: "int \<Rightarrow> int \<Rightarrow> int" where
  "sample scale x = x * scale + scale div 2"

lemma sample_bounds:
  assumes "0 \<le> x" "x < n div scale" "0 < scale"
  shows "0 \<le> sample scale x" "sample scale x < n"
proof -
  have "x * scale + scale \<le> (n div scale) * scale"
    using assms(2,3) mult_right_mono [of "x + 1" "n div scale" scale] by (simp add: distrib_right)
  also have "\<dots> \<le> n" using assms(3) by (simp add: minus_mod_eq_div_mult [symmetric])
  finally have "x * scale + scale \<le> n" .
  moreover have "scale div 2 < scale" using assms(3) by simp
  ultimately show "sample scale x < n" by (simp add: sample_def)
  show "0 \<le> sample scale x" using assms by (simp add: sample_def)
qed

lemma sample_inj: "0 < scale \<Longrightarrow> sample scale x = sample scale x' \<longleftrightarrow> x = x'"
  by (simp add: sample_def)

lemma logical_pixel_eq:
  assumes "0 \<le> x" "x < int (fst (rotated_size t (w, h))) div scale" "0 \<le> y"
    and "y < int (snd (rotated_size t (w, h))) div scale" "0 < scale" "w < 2 ^ 32" "h < 2 ^ 32"
  shows "logical_pixel (w, h) scale t x y =
    (let tx = (if bit t 2 then int (fst (rotated_size t (w, h))) - 1 - sample scale x else sample scale x);
         ty = sample scale y
     in if t mod 4 = 1 then (ty, int h - 1 - tx) else if t mod 4 = 2 then (int w - 1 - tx, int h - 1 - ty)
        else if t mod 4 = 3 then (int w - 1 - ty, tx) else (tx, ty))"
proof -
  let ?rw = "int (fst (rotated_size t (w, h)))" and ?rh = "int (snd (rotated_size t (w, h)))"
  have o: "t mod 4 = 1 \<Longrightarrow> odd t" "t mod 4 = 3 \<Longrightarrow> odd t" "t mod 4 = 2 \<Longrightarrow> even t" "t mod 4 = 0 \<Longrightarrow> even t"
    by presburger+
  have r: "odd t \<Longrightarrow> ?rw = int h \<and> ?rh = int w" "even t \<Longrightarrow> ?rw = int w \<and> ?rh = int h"
    by (auto simp: rotated_size_def)
  have b: "?rw < 2 ^ 32" "?rh < 2 ^ 32" using assms(6,7) by (auto simp: rotated_size_def)
  have c: "cdiv scale 2 = scale div 2" using assms(5) by (simp add: cdiv_nonneg)
  note x = sample_bounds [OF assms(1,2,5)] and y = sample_bounds [OF assms(3,4,5)]
  have u: "u32 (x * scale + cdiv scale 2) = sample scale x" "u32 (y * scale + cdiv scale 2) = sample scale y"
    "u32 (?rw - 1 - sample scale x) = ?rw - 1 - sample scale x"
    using x y b by (simp_all add: u32_id in_u32_def c sample_def)
  define tx where "tx = (if bit t 2 then ?rw - 1 - sample scale x else sample scale x)"
  have tx: "0 \<le> tx" "tx < ?rw" using x by (auto simp: tx_def)
  have v: "u32 (int k - 1 - z) = int k - 1 - z" if "0 \<le> z" "z < int k" "k < 2 ^ 32" for k z
    using that by (simp add: u32_id in_u32_def)
  have m: "t mod 4 = 0 \<or> t mod 4 = 1 \<or> t mod 4 = 2 \<or> t mod 4 = 3" by presburger
  show ?thesis
    unfolding logical_pixel_def Let_def fst_conv snd_conv u tx_def [symmetric]
    using m v [of tx h] v [of tx w] v [of "sample scale y" h] v [of "sample scale y" w] tx y r o assms(6,7)
    by (elim disjE) simp_all
qed

text \<open>C17: Scaling and rotating a client's buffer reads only pixels of the buffer, for every size, scale and
  transform the requests let through, never reads one twice, and without a scale shows every pixel.\<close>

theorem logical_pixels_once:
  assumes "w < 2 ^ 32" "h < 2 ^ 32" "0 < scale" "0 \<le> transform" "transform \<le> 7"
    and "area = {0..<int (fst (rotated_size transform (w, h))) div scale} \<times>
                {0..<int (snd (rotated_size transform (w, h))) div scale}"
  shows "(\<lambda>(x, y). logical_pixel (w, h) scale transform x y) ` area \<subseteq> {0..<int w} \<times> {0..<int h} \<and>
    inj_on (\<lambda>(x, y). logical_pixel (w, h) scale transform x y) area \<and>
    (scale = 1 \<longrightarrow> (\<lambda>(x, y). logical_pixel (w, h) scale transform x y) ` area = {0..<int w} \<times> {0..<int h})"
proof -
  let ?f = "\<lambda>(x, y). logical_pixel (w, h) scale transform x y"
  let ?rw = "int (fst (rotated_size transform (w, h)))" and ?rh = "int (snd (rotated_size transform (w, h)))"
  have o: "transform mod 4 = 1 \<or> transform mod 4 = 3 \<Longrightarrow> ?rw = int h \<and> ?rh = int w"
    "transform mod 4 = 0 \<or> transform mod 4 = 2 \<Longrightarrow> ?rw = int w \<and> ?rh = int h"
  proof -
    have "transform mod 4 = 1 \<or> transform mod 4 = 3 \<Longrightarrow> odd transform" by presburger
    then show "transform mod 4 = 1 \<or> transform mod 4 = 3 \<Longrightarrow> ?rw = int h \<and> ?rh = int w"
      by (simp add: rotated_size_def)
    have "transform mod 4 = 0 \<or> transform mod 4 = 2 \<Longrightarrow> even transform" by presburger
    then show "transform mod 4 = 0 \<or> transform mod 4 = 2 \<Longrightarrow> ?rw = int w \<and> ?rh = int h"
      by (simp add: rotated_size_def)
  qed
  have m: "transform mod 4 = 0 \<or> transform mod 4 = 1 \<or> transform mod 4 = 2 \<or> transform mod 4 = 3" by presburger
  have e: "\<exists>a b. logical_pixel (w, h) scale transform x y = (a, b) \<and> 0 \<le> a \<and> a < int w \<and> 0 \<le> b \<and> b < int h"
    if "(x, y) \<in> area" for x y
  proof -
    have xy: "0 \<le> x" "x < ?rw div scale" "0 \<le> y" "y < ?rh div scale" using that assms(6) by auto
    show ?thesis
      unfolding logical_pixel_eq [OF xy assms(3,1,2)] Let_def
      using m o sample_bounds [OF xy(1,2) assms(3)] sample_bounds [OF xy(3,4) assms(3)]
      by (elim disjE) auto
  qed
  then have s: "?f ` area \<subseteq> {0..<int w} \<times> {0..<int h}" by fastforce
  have i: "inj_on ?f area"
  proof (rule inj_onI, clarify)
    fix x y x' y'
    assume a: "(x, y) \<in> area" "(x', y') \<in> area"
      "logical_pixel (w, h) scale transform x y = logical_pixel (w, h) scale transform x' y'"
    have p: "0 \<le> x" "x < ?rw div scale" "0 \<le> y" "y < ?rh div scale" using a(1) assms(6) by auto
    have q: "0 \<le> x'" "x' < ?rw div scale" "0 \<le> y'" "y' < ?rh div scale" using a(2) assms(6) by auto
    have "sample scale x = sample scale x' \<and> sample scale y = sample scale y'"
      using a(3) m unfolding logical_pixel_eq [OF p assms(3,1,2)] logical_pixel_eq [OF q assms(3,1,2)] Let_def
      by (cases "bit transform 2"; elim disjE) simp_all
    then show "x = x' \<and> y = y'" using assms(3) by (simp add: sample_inj)
  qed
  have "?f ` area = {0..<int w} \<times> {0..<int h}" if "scale = 1"
  proof (rule card_subset_eq [OF _ s])
    have "card area = card ({0..<int w} \<times> {0..<int h})"
      using o m that by (elim disjE) (auto simp: assms(6) card_cartesian_product)
    then show "card (?f ` area) = card ({0..<int w} \<times> {0..<int h})" using card_image [OF i] by simp
  qed simp
  then show ?thesis using s i by blast
qed

theorem logical_pixels_once_witness:
  "(\<lambda>(x, y). logical_pixel (4, 2) 2 1 x y) ` ({0..<1} \<times> {0..<2}) \<subseteq> {0..<4} \<times> {0..<2} \<and>
   logical_pixel (4, 2) 2 1 0 1 = (3, 0)"
proof -
  have "{0..<1} \<times> {0..<2} = {0..<int (fst (rotated_size 1 (4, 2))) div 2} \<times> {0..<int (snd (rotated_size 1 (4, 2))) div 2}"
    by (simp add: rotated_size_def)
  from logical_pixels_once [OF _ _ _ _ _ this] show ?thesis by simp (code_simp)
qed

end
