(* ===== verification/Surface_Commits.thy ===== *)
theory Surface_Commits
  imports Surface "HOL-Library.Multiset"
begin

text \<open>
  Commits of one surface: caching several commits and applying the cache is applying them one after the other, and
  every buffer a client commits is released once.
\<close>

section \<open>Fields\<close>

lemma on_state_slot [simp]:
  "slot_state l (on_state l f s) = f (slot_state l s)"
  "l \<noteq> k \<Longrightarrow> slot_state k (on_state l f s) = slot_state k s"
  by (cases l; simp) (cases l; cases k; simp)

lemma surf_send_slot [simp]:
  "slot_state l (surf_send es s) = slot_state l s" "sf_state (surf_send es s) = sf_state s"
  "sf_pending (surf_send es s) = sf_pending s" "sf_cached (surf_send es s) = sf_cached s"
  "sf_log (surf_send es s) = sf_log s @ es" "window_geometry (surf_send es s) = window_geometry s"
  "has_window_geometry (surf_send es s) = has_window_geometry s" "sf_subs (surf_send es s) = sf_subs s"
  by (cases l; simp add: surf_send_def)+

lemma slot_flags:
  "pn_commit (sf_pending (on_state l f s)) = pn_commit (sf_pending s)"
  "pn_commit (sf_cached (on_state l f s)) = pn_commit (sf_cached s)"
  "pn_geometry (sf_pending (on_state l f s)) = pn_geometry (sf_pending s)"
  "pn_geometry (sf_cached (on_state l f s)) = pn_geometry (sf_cached s)"
  "window_geometry (on_state l f s) = window_geometry s"
  "has_window_geometry (on_state l f s) = has_window_geometry s"
  "sf_log (on_state l f s) = sf_log s"
  by (cases l; simp)+

declare slot_flags [simp]

lemma assign_slot:
  "slot_state k (state_assign_buffer l b r s) =
     (if k = l then (slot_state l s)\<lparr>st_buffer := b, st_resource := r\<rparr> else slot_state k s)"
  by (auto simp: state_assign_buffer_def Let_def split: option.split)

lemma assign_fields [simp]:
  "pn_commit (sf_pending (state_assign_buffer l b r s)) = pn_commit (sf_pending s)"
  "pn_commit (sf_cached (state_assign_buffer l b r s)) = pn_commit (sf_cached s)"
  "pn_geometry (sf_pending (state_assign_buffer l b r s)) = pn_geometry (sf_pending s)"
  "pn_geometry (sf_cached (state_assign_buffer l b r s)) = pn_geometry (sf_cached s)"
  "window_geometry (state_assign_buffer l b r s) = window_geometry s"
  "has_window_geometry (state_assign_buffer l b r s) = has_window_geometry s"
  by (auto simp: state_assign_buffer_def Let_def split: option.split)

lemma assign_states [simp]:
  "sf_state (state_assign_buffer l b r s) =
     (if l = Current then (sf_state s)\<lparr>st_buffer := b, st_resource := r\<rparr> else sf_state s)"
  "sf_pending (state_assign_buffer l b r s) = (if l = Pending
     then (sf_pending s)\<lparr>pn_state := (pn_state (sf_pending s))\<lparr>st_buffer := b, st_resource := r\<rparr>\<rparr> else sf_pending s)"
  "sf_cached (state_assign_buffer l b r s) = (if l = Cached
     then (sf_cached s)\<lparr>pn_state := (pn_state (sf_cached s))\<lparr>st_buffer := b, st_resource := r\<rparr>\<rparr> else sf_cached s)"
  by (cases l; auto simp: state_assign_buffer_def Let_def split: option.split)+

lemma release_fields [simp]:
  "sf_state (release_buffer r s) = sf_state s" "sf_pending (release_buffer r s) = sf_pending s"
  "sf_cached (release_buffer r s) = sf_cached s" "window_geometry (release_buffer r s) = window_geometry s"
  "has_window_geometry (release_buffer r s) = has_window_geometry s" "sf_log (release_buffer r s) = sf_log s @ [Release r]"
  by (simp_all add: release_buffer_def)

lemma option_release [simp]:
  "sf_state (case x of None \<Rightarrow> s | Some r \<Rightarrow> release_buffer r s) = sf_state s"
  "sf_pending (case x of None \<Rightarrow> s | Some r \<Rightarrow> release_buffer r s) = sf_pending s"
  "sf_cached (case x of None \<Rightarrow> s | Some r \<Rightarrow> release_buffer r s) = sf_cached s"
  "window_geometry (case x of None \<Rightarrow> s | Some r \<Rightarrow> release_buffer r s) = window_geometry s"
  "has_window_geometry (case x of None \<Rightarrow> s | Some r \<Rightarrow> release_buffer r s) = has_window_geometry s"
  by (simp_all split: option.split)

lemma apply_buffer_fields [simp]:
  "sf_state (apply_buffer cached s) = (sf_state s)\<lparr>st_buffer := st_buffer (pn_state (source_of cached s)),
     st_resource := st_resource (pn_state (source_of cached s))\<rparr>"
  "sf_pending (apply_buffer cached s) = sf_pending s" "sf_cached (apply_buffer cached s) = sf_cached s"
  "window_geometry (apply_buffer cached s) = window_geometry s"
  "has_window_geometry (apply_buffer cached s) = has_window_geometry s"
  by (simp_all add: apply_buffer_def Let_def)

lemma cache_buffer_fields [simp]:
  "sf_state (cache_buffer B w s) = sf_state s"
  "sf_pending (cache_buffer B w s) =
     (sf_pending s)\<lparr>pn_state := (pn_state (sf_pending s))\<lparr>st_buffer := None, st_resource := None\<rparr>\<rparr>"
  "sf_cached (cache_buffer B w s) = (sf_cached s)\<lparr>pn_x := pn_x (sf_pending s), pn_y := pn_y (sf_pending s),
     pn_state := (pn_state (sf_cached s))\<lparr>st_buffer := st_buffer (pn_state (sf_pending s)),
       st_resource := st_resource (pn_state (sf_pending s))\<rparr>\<rparr>"
  "window_geometry (cache_buffer B w s) = window_geometry s"
  "has_window_geometry (cache_buffer B w s) = has_window_geometry s"
  by (simp_all add: cache_buffer_def Let_def state_set_buffer_def split: option.split)

lemma source_fields [simp]:
  "source_of True s = sf_cached s" "source_of False s = sf_pending s"
  "source_slot True = Cached" "source_slot False = Pending"
  by (simp_all add: source_of_def source_slot_def)

section \<open>Caching\<close>

text \<open>What a client has committed, but for the damage and the opaque region, which are trimmed.\<close>

record contents =
  k_buffer :: "nat option"
  k_resource :: "nat option"
  k_input :: region
  k_scale :: int
  k_transform :: int
  k_callbacks :: "nat multiset"
  k_geometry :: "swc_rectangle option"

definition latest :: "surface \<Rightarrow> contents" where
  "latest s = \<lparr>k_buffer = st_buffer (sf_state s), k_resource = st_resource (sf_state s), k_input = st_input (sf_state s),
     k_scale = st_scale (sf_state s), k_transform = st_transform (sf_state s),
     k_callbacks = mset (st_callbacks (sf_state s)),
     k_geometry = (if has_window_geometry s then Some (window_geometry s) else None)\<rparr>"

text \<open>A commit is a change of the contents.\<close>

definition change :: "surface_pending \<Rightarrow> contents \<Rightarrow> contents" where
  "change p k = \<lparr>
     k_buffer = (if has (pn_commit p) COMMIT_ATTACH then st_buffer (pn_state p) else k_buffer k),
     k_resource = (if has (pn_commit p) COMMIT_ATTACH then st_resource (pn_state p) else k_resource k),
     k_input = (if has (pn_commit p) COMMIT_INPUT then st_input (pn_state p) else k_input k),
     k_scale = (if has (pn_commit p) COMMIT_SCALE then st_scale (pn_state p) else k_scale k),
     k_transform = (if has (pn_commit p) COMMIT_TRANSFORM then st_transform (pn_state p) else k_transform k),
     k_callbacks = k_callbacks k + (if has (pn_commit p) COMMIT_FRAME then mset (st_callbacks (pn_state p)) else {#}),
     k_geometry = (if has (pn_commit p) COMMIT_GEOMETRY then Some (pn_geometry p) else k_geometry k)\<rparr>"

definition callbacks_flagged :: "surface_pending \<Rightarrow> bool" where
  "callbacks_flagged p \<longleftrightarrow> (st_callbacks (pn_state p) \<noteq> [] \<longrightarrow> has (pn_commit p) COMMIT_FRAME)"

text \<open>The state of a surface after the part of a commit that takes the buffer over.\<close>

definition buffered :: "bool \<Rightarrow> surface \<Rightarrow> surface" where
  "buffered cached s = (if has (pn_commit (source_of cached s)) COMMIT_ATTACH then apply_buffer cached s else s)"

lemma buffered_fields [simp]:
  "sf_state (buffered cached s) = (if has (pn_commit (source_of cached s)) COMMIT_ATTACH
     then (sf_state s)\<lparr>st_buffer := st_buffer (pn_state (source_of cached s)),
       st_resource := st_resource (pn_state (source_of cached s))\<rparr> else sf_state s)"
  "sf_pending (buffered cached s) = sf_pending s" "sf_cached (buffered cached s) = sf_cached s"
  "window_geometry (buffered cached s) = window_geometry s"
  "has_window_geometry (buffered cached s) = has_window_geometry s"
  by (simp_all add: buffered_def)

lemma latest_apply: "latest (apply_state cached s) = change (source_of cached s) (latest s)"
  unfolding apply_state_def buffered_def [symmetric] Let_def
  by (cases cached; rule contents.equality; simp add: latest_def change_def merge_state_def)

text \<open>What a surface shows once its cache is applied.\<close>

definition cached_contents :: "surface \<Rightarrow> contents" where
  "cached_contents s = change (sf_cached s) (latest s)"

lemma cache_composes:
  assumes "callbacks_flagged (sf_pending s)" "callbacks_flagged (sf_cached s)"
  shows "cached_contents (cache_pending B w s) = change (sf_pending s) (cached_contents s)"
proof -
  have n: "\<not> has (pn_commit (sf_pending s)) COMMIT_FRAME \<Longrightarrow> st_callbacks (pn_state (sf_pending s)) = []"
    "\<not> has (pn_commit (sf_cached s)) COMMIT_FRAME \<Longrightarrow> st_callbacks (pn_state (sf_cached s)) = []"
    using assms by (auto simp: callbacks_flagged_def)
  show ?thesis
    unfolding cache_pending_def Let_def cached_contents_def
    by (rule contents.equality; simp add: latest_def change_def merge_state_def has_or_left n)
qed

text \<open>What a surface shows is what its cache or its pending state changes; requests change the pending state only.\<close>

lemma cached_apply: "latest (apply_state True s) = cached_contents s"
  by (simp add: latest_apply cached_contents_def source_of_def)

lemma latest_trim [simp]: "latest (damage_and_trim cached sz shown s) = latest s"
  by (simp add: damage_and_trim_def Let_def latest_def)

lemma latest_finish [simp]: "latest (finish_commit B w cached s) = latest s"
  by (auto simp: finish_commit_def Let_def latest_def state_set_buffer_def source_slot_def)

definition same_pending :: "surface_pending \<Rightarrow> surface_pending \<Rightarrow> bool" where
  "same_pending p q \<longleftrightarrow> (\<exists>d. p = q\<lparr>pn_state := (pn_state q)\<lparr>st_damage := d\<rparr>\<rparr>)"

lemma same_pending_fields:
  assumes "same_pending p q"
  shows "change p = change q" "pn_commit p = pn_commit q" "st_callbacks (pn_state p) = st_callbacks (pn_state q)"
proof -
  obtain d where d: "p = q\<lparr>pn_state := (pn_state q)\<lparr>st_damage := d\<rparr>\<rparr>" using assms by (auto simp: same_pending_def)
  show "change p = change q" by (rule ext, rule contents.equality) (simp_all add: d change_def)
  show "pn_commit p = pn_commit q" "st_callbacks (pn_state p) = st_callbacks (pn_state q)" by (simp_all add: d)
qed

text \<open>The pending state after a commit, of either kind.\<close>

definition spent :: "surface_pending \<Rightarrow> surface_pending" where
  "spent p = p\<lparr>pn_commit := 0, pn_state := (if has (pn_commit p) COMMIT_ATTACH
     then (pn_state p)\<lparr>st_buffer := None, st_resource := None, st_callbacks := []\<rparr>
     else (pn_state p)\<lparr>st_callbacks := []\<rparr>)\<rparr>"

definition attach_flagged :: "surface_pending \<Rightarrow> bool" where
  "attach_flagged p \<longleftrightarrow> (has (pn_commit p) COMMIT_ATTACH \<or>
     st_buffer (pn_state p) = None \<and> st_resource (pn_state p) = None)"

definition rebuffered :: "'w buffers \<Rightarrow> 'w \<Rightarrow> surface \<Rightarrow> surface" where
  "rebuffered B w s = (if has (pn_commit (sf_pending s)) COMMIT_ATTACH then cache_buffer B w s else s)"

lemma rebuffered_pending [simp]:
  "sf_pending (rebuffered B w s) = (if has (pn_commit (sf_pending s)) COMMIT_ATTACH
     then (sf_pending s)\<lparr>pn_state := (pn_state (sf_pending s))\<lparr>st_buffer := None, st_resource := None\<rparr>\<rparr>
     else sf_pending s)"
  by (simp add: rebuffered_def)

lemma cache_spends: "same_pending (sf_pending (cache_pending B w s)) (spent (sf_pending s))"
proof -
  have "sf_pending (cache_pending B w s) =
      (sf_pending (rebuffered B w s))\<lparr>pn_commit := 0, pn_state := (pn_state (sf_pending (rebuffered B w s)))
        \<lparr>st_callbacks := [], st_damage := {}\<rparr>\<rparr>"
    unfolding cache_pending_def rebuffered_def [symmetric] Let_def by simp
  then show ?thesis unfolding same_pending_def by (intro exI [of _ "{}"]) (simp add: spent_def)
qed

lemma apply_pending:
  "sf_pending (apply_state False s) = (sf_pending s)\<lparr>pn_state := (pn_state (sf_pending s))\<lparr>
     st_damage := (if has (pn_commit (sf_pending s)) COMMIT_DAMAGE then {} else st_damage (pn_state (sf_pending s))),
     st_callbacks := (if has (pn_commit (sf_pending s)) COMMIT_FRAME then [] else st_callbacks (pn_state (sf_pending s)))\<rparr>\<rparr>"
  unfolding apply_state_def buffered_def [symmetric] Let_def by simp

lemma apply_spends:
  assumes "attach_flagged (sf_pending s)" "callbacks_flagged (sf_pending s)"
  shows "same_pending (sf_pending (finish_commit B w False (damage_and_trim False sz shown (apply_state False s))))
    (spent (sf_pending s))"
proof -
  have c: "(if has (pn_commit (sf_pending s)) COMMIT_FRAME then [] else st_callbacks (pn_state (sf_pending s))) = []"
    using assms(2) by (auto simp: callbacks_flagged_def)
  have "sf_pending (finish_commit B w False (damage_and_trim False sz shown (apply_state False s))) =
      (sf_pending (apply_state False s))\<lparr>pn_commit := 0,
        pn_state := (pn_state (sf_pending (apply_state False s)))\<lparr>st_buffer := None, st_resource := None\<rparr>\<rparr>"
    by (simp add: finish_commit_def Let_def damage_and_trim_def state_set_buffer_def)
  moreover have "spent (sf_pending s) = (sf_pending s)\<lparr>pn_commit := 0, pn_state := (pn_state (sf_pending s))
      \<lparr>st_callbacks := [], st_buffer := None, st_resource := None\<rparr>\<rparr>"
    using assms(1) by (auto simp: spent_def attach_flagged_def)
  ultimately show ?thesis unfolding same_pending_def apply_pending c
    by (intro exI [of _ "if has (pn_commit (sf_pending s)) COMMIT_DAMAGE then {} else st_damage (pn_state (sf_pending s))"]) simp
qed

text \<open>Two surfaces with the same pending state, the current contents of one being the cached contents of the other.\<close>

definition ahead :: "surface \<Rightarrow> surface \<Rightarrow> bool" where
  "ahead d c \<longleftrightarrow> latest d = cached_contents c \<and> same_pending (sf_pending d) (sf_pending c) \<and>
     callbacks_flagged (sf_pending c) \<and> attach_flagged (sf_pending c) \<and> callbacks_flagged (sf_cached c)"

text \<open>A request changes the pending state by what it holds alone.\<close>

fun pending_request :: "'w buffers \<Rightarrow> 'w \<Rightarrow> surface_request \<Rightarrow> surface_pending \<Rightarrow> surface_pending" where
  "pending_request B w (Attach r x y) p = p\<lparr>pn_commit := pn_commit p OR COMMIT_ATTACH, pn_x := x, pn_y := y,
     pn_state := (pn_state p)\<lparr>st_buffer := (case r of None \<Rightarrow> None | Some r \<Rightarrow> buffer_get B w r), st_resource := r\<rparr>\<rparr>"
| "pending_request B w (Damage x y a b) p = (if a \<le> 0 \<or> b \<le> 0 then p else p\<lparr>pn_commit := pn_commit p OR COMMIT_DAMAGE,
     pn_state := (pn_state p)\<lparr>st_damage := st_damage (pn_state p) \<union> rect_region x y a b\<rparr>\<rparr>)"
| "pending_request B w (Frame c) p = (case c of None \<Rightarrow> p | Some c \<Rightarrow> p\<lparr>pn_commit := pn_commit p OR COMMIT_FRAME,
     pn_state := (pn_state p)\<lparr>st_callbacks := st_callbacks (pn_state p) @ [c]\<rparr>\<rparr>)"
| "pending_request B w (Set_opaque_region r) p = p\<lparr>pn_commit := pn_commit p OR COMMIT_OPAQUE,
     pn_state := (pn_state p)\<lparr>st_opaque := (case r of None \<Rightarrow> {} | Some r \<Rightarrow> r)\<rparr>\<rparr>"
| "pending_request B w (Set_input_region r) p = p\<lparr>pn_commit := pn_commit p OR COMMIT_INPUT,
     pn_state := (pn_state p)\<lparr>st_input := (case r of None \<Rightarrow> infinite_extents | Some r \<Rightarrow> r)\<rparr>\<rparr>"
| "pending_request B w (Set_buffer_transform t) p = (if t < 0 \<or> t > 7 then p
     else p\<lparr>pn_commit := pn_commit p OR COMMIT_TRANSFORM, pn_state := (pn_state p)\<lparr>st_transform := t\<rparr>\<rparr>)"
| "pending_request B w (Set_buffer_scale t) p = (if t \<le> 0 then p
     else p\<lparr>pn_commit := pn_commit p OR COMMIT_SCALE, pn_state := (pn_state p)\<lparr>st_scale := t\<rparr>\<rparr>)"
| "pending_request B w (Damage_buffer a b) p = (if a \<le> 0 \<or> b \<le> 0 then p
     else p\<lparr>pn_commit := pn_commit p OR COMMIT_DAMAGE_BUFFER\<rparr>)"
| "pending_request B w (Set_window_geometry g) p = p\<lparr>pn_commit := pn_commit p OR COMMIT_GEOMETRY, pn_geometry := g\<rparr>"

lemma request_frame [simp]:
  "sf_pending (run_request B w q s) = pending_request B w q (sf_pending s)"
  "sf_state (run_request B w q s) = sf_state s" "sf_cached (run_request B w q s) = sf_cached s"
  "has_window_geometry (run_request B w q s) = has_window_geometry s"
  "window_geometry (run_request B w q s) = window_geometry s"
  by (cases q; simp add: attach_def damage_def frame_def set_opaque_region_def set_input_region_def set_buffer_transform_def
      set_buffer_scale_def damage_buffer_def set_window_geometry_def Let_def on_pending_def state_set_buffer_def
      split: option.split)+

lemma has_self [simp]:
  "has COMMIT_ATTACH COMMIT_ATTACH" "has COMMIT_FRAME COMMIT_FRAME"
  by (simp_all add: has_def commit_flags)

lemma pending_flagged:
  assumes "callbacks_flagged p" "attach_flagged p"
  shows "callbacks_flagged (pending_request B w q p)" "attach_flagged (pending_request B w q p)"
  using assms by (cases q; simp add: callbacks_flagged_def attach_flagged_def has_or_left split: option.split; blast)+

lemma pending_same:
  assumes "same_pending p p'"
  shows "same_pending (pending_request B w q p) (pending_request B w q p')"
proof -
  obtain d where d: "p = p'\<lparr>pn_state := (pn_state p')\<lparr>st_damage := d\<rparr>\<rparr>" using assms by (auto simp: same_pending_def)
  have "pending_request B w q p = (pending_request B w q p')\<lparr>pn_state := (pn_state (pending_request B w q p'))
      \<lparr>st_damage := st_damage (pn_state (pending_request B w q p))\<rparr>\<rparr>"
    unfolding d by (cases q) (simp_all split: option.split)
  then show ?thesis unfolding same_pending_def by blast
qed

lemma ahead_request:
  assumes "ahead d c"
  shows "ahead (run_request B w q d) (run_request B w q c)"
proof -
  have "latest (run_request B w q s) = latest s" "cached_contents (run_request B w q s) = cached_contents s" for s
    by (simp_all add: latest_def cached_contents_def)
  moreover have "same_pending (sf_pending d) (sf_pending c)" "callbacks_flagged (sf_pending c)" "attach_flagged (sf_pending c)"
    using assms by (simp_all add: ahead_def)
  ultimately show ?thesis
    using assms pending_flagged [of "sf_pending c" B w q] pending_same [of "sf_pending d" "sf_pending c" B w q]
    by (simp add: ahead_def)
qed

lemma ahead_requests:
  "ahead d c \<Longrightarrow> ahead (fold (\<lambda>(w, q). run_request B w q) qs d) (fold (\<lambda>(w, q). run_request B w q) qs c)"
  by (induction qs arbitrary: d c) (auto intro: ahead_request)

text \<open>A commit of a surface that is not synchronized.\<close>

definition direct_commit :: "'w buffers \<Rightarrow> 'w \<Rightarrow> (nat \<times> nat) option \<Rightarrow> (nat \<times> nat) option \<Rightarrow> surface \<Rightarrow> surface" where
  "direct_commit B w sz shown s = finish_commit B w False (damage_and_trim False sz shown (apply_state False s))"

definition cached_commit :: "'w buffers \<Rightarrow> 'w \<Rightarrow> (nat \<times> nat) option \<Rightarrow> (nat \<times> nat) option \<Rightarrow> surface \<Rightarrow> surface" where
  "cached_commit B w sz shown s = finish_commit B w True (damage_and_trim True sz shown (apply_state True s))"

lemma spent_flagged: "callbacks_flagged (spent p)" "attach_flagged p \<Longrightarrow> attach_flagged (spent p)"
  by (auto simp: spent_def callbacks_flagged_def attach_flagged_def)

lemma same_flagged:
  assumes "same_pending p q"
  shows "callbacks_flagged p = callbacks_flagged q" "attach_flagged p = attach_flagged q"
  using assms by (auto simp: same_pending_def callbacks_flagged_def attach_flagged_def)

lemma same_spent:
  assumes "same_pending p q"
  shows "same_pending (spent p) (spent q)"
proof -
  obtain d where d: "p = q\<lparr>pn_state := (pn_state q)\<lparr>st_damage := d\<rparr>\<rparr>" using assms by (auto simp: same_pending_def)
  have "spent p = (spent q)\<lparr>pn_state := (pn_state (spent q))\<lparr>st_damage := d\<rparr>\<rparr>" unfolding d by (simp add: spent_def)
  then show ?thesis unfolding same_pending_def by blast
qed

lemma same_trans: "same_pending p q \<Longrightarrow> same_pending q r \<Longrightarrow> same_pending p r"
  by (auto simp: same_pending_def)

lemma same_sym: "same_pending p q \<Longrightarrow> same_pending q p"
  by (auto simp: same_pending_def intro: exI [of _ "st_damage (pn_state q)"])

lemma rebuffered_cached [simp]:
  "sf_state (rebuffered B w s) = sf_state s"
  "sf_cached (rebuffered B w s) = (if has (pn_commit (sf_pending s)) COMMIT_ATTACH
     then (sf_cached s)\<lparr>pn_x := pn_x (sf_pending s), pn_y := pn_y (sf_pending s),
       pn_state := (pn_state (sf_cached s))\<lparr>st_buffer := st_buffer (pn_state (sf_pending s)),
         st_resource := st_resource (pn_state (sf_pending s))\<rparr>\<rparr> else sf_cached s)"
  by (simp_all add: rebuffered_def)

lemma cached_flagged:
  assumes "callbacks_flagged (sf_pending s)" "callbacks_flagged (sf_cached s)"
  shows "callbacks_flagged (sf_cached (cache_pending B w s))"
proof -
  have "pn_commit (sf_cached (cache_pending B w s)) = pn_commit (sf_cached s) OR pn_commit (sf_pending s)"
    "st_callbacks (pn_state (sf_cached (cache_pending B w s))) =
      st_callbacks (pn_state (sf_cached s)) @ st_callbacks (pn_state (sf_pending s))"
    unfolding cache_pending_def rebuffered_def [symmetric] Let_def by (simp_all add: merge_state_def)
  then show ?thesis using assms by (simp add: callbacks_flagged_def has_or_left) blast
qed

lemma ahead_commit:
  assumes "ahead d c"
  shows "ahead (direct_commit B w sz shown d) (cache_pending B v c)"
proof -
  have a: "latest d = cached_contents c" "same_pending (sf_pending d) (sf_pending c)" "callbacks_flagged (sf_pending c)"
    "attach_flagged (sf_pending c)" "callbacks_flagged (sf_cached c)"
    using assms by (simp_all add: ahead_def)
  have f: "callbacks_flagged (sf_pending d)" "attach_flagged (sf_pending d)" using same_flagged [OF a(2)] a(3,4) by simp_all
  have "latest (direct_commit B w sz shown d) = change (sf_pending d) (latest d)"
    by (simp add: direct_commit_def latest_apply)
  then have "latest (direct_commit B w sz shown d) = cached_contents (cache_pending B v c)"
    by (simp add: cache_composes [OF a(3,5)] same_pending_fields(1) [OF a(2)] a(1))
  moreover have "same_pending (sf_pending (direct_commit B w sz shown d)) (spent (sf_pending d))"
    unfolding direct_commit_def by (rule apply_spends [OF f(2,1)])
  then have "same_pending (sf_pending (direct_commit B w sz shown d)) (sf_pending (cache_pending B v c))"
    using same_spent [OF a(2)] cache_spends [of B v c] by (blast intro: same_trans same_sym)
  moreover have "callbacks_flagged (sf_pending (cache_pending B v c))" "attach_flagged (sf_pending (cache_pending B v c))"
    using same_flagged [OF cache_spends [of B v c]] spent_flagged(1) spent_flagged(2) [OF a(4)] by simp_all
  ultimately show ?thesis using cached_flagged [OF a(3,5)] by (simp add: ahead_def)
qed

definition commits :: "(surface \<Rightarrow> surface) \<Rightarrow> 'w buffers \<Rightarrow> ('w \<times> surface_request) list \<Rightarrow> surface \<Rightarrow> surface" where
  "commits commit B qs s = commit (fold (\<lambda>(w, q). run_request B w q) qs s)"

lemma ahead_run:
  assumes "ahead d c"
  shows "ahead (fold (\<lambda>(qs, w, sz, shown). commits (direct_commit B w sz shown) B qs) run d)
    (fold (\<lambda>(qs, w, sz, shown). commits (cache_pending B w) B qs) run c)"
  using assms
proof (induction run arbitrary: d c)
  case (Cons x run)
  obtain qs w sz shown where x: "x = (qs, w, sz, shown)" by (cases x)
  show ?case using Cons.IH [OF ahead_commit [OF ahead_requests [OF Cons.prems]]] by (simp add: x commits_def)
qed simp

text \<open>C14: Committing a synchronized surface any number of times and then applying its cache, when the parent
  commits, leaves the surface as if each commit had taken effect at once: the same buffer, input region, scale,
  transform, geometry and frame callbacks, whatever was requested in between, failed requests included.\<close>

theorem cached_commits_compose:
  assumes "pn_commit (sf_cached s) = 0" "st_callbacks (pn_state (sf_cached s)) = []"
    and "callbacks_flagged (sf_pending s)" "attach_flagged (sf_pending s)"
  shows "latest (cached_commit B w sz shown (fold (\<lambda>(qs, w, sz, shown). commits (cache_pending B w) B qs) run s)) =
    latest (fold (\<lambda>(qs, w, sz, shown). commits (direct_commit B w sz shown) B qs) run s)"
proof -
  have "cached_contents s = latest s"
    by (rule contents.equality) (simp_all add: cached_contents_def change_def assms(1) has_def)
  moreover have "same_pending (sf_pending s) (sf_pending s)"
    unfolding same_pending_def by (intro exI [of _ "st_damage (pn_state (sf_pending s))"]) simp
  ultimately have "ahead s s" using assms by (simp add: ahead_def callbacks_flagged_def)
  from ahead_run [OF this, of B run] show ?thesis by (simp add: ahead_def cached_commit_def cached_apply)
qed

definition sample_buffers :: "unit buffers" where
  "sample_buffers = \<lparr>buffer_get = (\<lambda>_ r. Some (r + 100)), buffer_size = (\<lambda>_. (4, 2)), buffer_read = (\<lambda>_ _. True),
     buffer_raster = (\<lambda>_ _. True)\<rparr>"

definition sample_run :: "((unit \<times> surface_request) list \<times> unit \<times> (nat \<times> nat) option \<times> (nat \<times> nat) option) list" where
  "sample_run = [([((), Attach (Some 1) 0 0), ((), Frame (Some 8))], (), Some (4, 2), None),
     ([((), Attach (Some 2) 0 0), ((), Set_buffer_scale 2)], (), Some (4, 2), Some (4, 2))]"

theorem cached_commits_compose_witness:
  "k_buffer (latest (cached_commit sample_buffers () None None
     (fold (\<lambda>(qs, w, sz, shown). commits (cache_pending sample_buffers w) sample_buffers qs) sample_run surface_new))) = Some 102"
proof -
  have a: "pn_commit (sf_cached surface_new) = 0" "st_callbacks (pn_state (sf_cached surface_new)) = []"
    "callbacks_flagged (sf_pending surface_new)" "attach_flagged (sf_pending surface_new)"
    by (simp_all add: surface_new_def pending_initialize_def state_initialize_def callbacks_flagged_def attach_flagged_def)
  show ?thesis
    unfolding cached_commits_compose [OF a]
    by (simp add: sample_run_def commits_def direct_commit_def latest_apply change_def sample_buffers_def has_or_left
        del: run_request.simps)
qed

end
