(* ===== verification/Surface_Buffers.thy ===== *)
theory Surface_Buffers
  imports Surface_Commits
begin

text \<open>
  The buffers of a surface: every reference is dropped again and every buffer a client commits is released once.
\<close>

section \<open>Counting\<close>

definition releases :: "nat \<Rightarrow> surface \<Rightarrow> nat" where
  "releases r s = count_list (sf_log s) (Release r)"

definition held_by :: "nat \<Rightarrow> surface_state \<Rightarrow> nat" where
  "held_by r t = (if st_resource t = Some r then 1 else 0)"

definition uses :: "nat \<Rightarrow> surface_state \<Rightarrow> nat" where
  "uses b t = (if st_buffer t = Some b then 1 else 0)"

definition refs_balanced :: "surface \<Rightarrow> bool" where
  "refs_balanced s \<longleftrightarrow> (\<forall>b. count_list (sf_log s) (Ref b) = count_list (sf_log s) (Unref b) +
     uses b (sf_state s) + uses b (pn_state (sf_pending s)) + uses b (pn_state (sf_cached s)))"

lemma log_assign:
  "sf_log (state_assign_buffer l b r s) = sf_log s @ (case b of None \<Rightarrow> [] | Some b \<Rightarrow> [Ref b]) @
     (case st_buffer (slot_state l s) of None \<Rightarrow> [] | Some b \<Rightarrow> [Unref b])"
  by (simp add: state_assign_buffer_def Let_def split: option.split)

lemma releases_assign [simp]: "releases r (state_assign_buffer l b q s) = releases r s"
  by (simp add: releases_def log_assign split: option.split)

lemma releases_simps [simp]:
  "releases r (on_state l f s) = releases r s" "releases r (s\<lparr>sf_cached := c\<rparr>) = releases r s"
  "releases r (s\<lparr>sf_pending := c\<rparr>) = releases r s" "releases r (s\<lparr>sf_state := t\<rparr>) = releases r s"
  "releases r (s\<lparr>has_window_geometry := h, window_geometry := g\<rparr>) = releases r s"
  "releases r (release_buffer q s) = releases r s + (if q = r then 1 else 0)"
  "releases r (surf_send [Surface_error e] s) = releases r s"
  by (simp_all add: releases_def)

lemma refs_assign: "refs_balanced s \<Longrightarrow> refs_balanced (state_assign_buffer l b r s)"
  unfolding refs_balanced_def
  by (cases l) (auto simp: log_assign uses_def split: option.split)

lemma refs_keep:
  assumes "refs_balanced s" "\<forall>b. count_list (sf_log s') (Ref b) = count_list (sf_log s) (Ref b) \<and>
      count_list (sf_log s') (Unref b) = count_list (sf_log s) (Unref b)"
    and "st_buffer (sf_state s') = st_buffer (sf_state s)"
    and "st_buffer (pn_state (sf_pending s')) = st_buffer (pn_state (sf_pending s))"
    and "st_buffer (pn_state (sf_cached s')) = st_buffer (pn_state (sf_cached s))"
  shows "refs_balanced s'"
  using assms by (simp add: refs_balanced_def uses_def)

lemma refs_release: "refs_balanced s \<Longrightarrow> refs_balanced (release_buffer r s)"
  by (erule refs_keep) simp_all

lemma refs_release_option: "refs_balanced s \<Longrightarrow> refs_balanced (case x of None \<Rightarrow> s | Some r \<Rightarrow> release_buffer r s)"
  by (simp add: refs_release split: option.split)

lemma refs_apply_buffer: "refs_balanced s \<Longrightarrow> refs_balanced (apply_buffer cached s)"
  by (simp add: apply_buffer_def Let_def refs_assign refs_release_option)

lemma refs_apply: "refs_balanced s \<Longrightarrow> refs_balanced (apply_state cached s)"
  unfolding apply_state_def buffered_def [symmetric] Let_def
  by (rule refs_keep [of "buffered cached s"]; cases cached; simp add: buffered_def refs_apply_buffer merge_state_def)

lemma refs_xy:
  "refs_balanced s \<Longrightarrow> refs_balanced (s\<lparr>sf_cached := (sf_cached s)\<lparr>pn_x := x, pn_y := y\<rparr>\<rparr>)"
  "refs_balanced s \<Longrightarrow> refs_balanced (s\<lparr>sf_pending := (sf_pending s)\<lparr>pn_x := x, pn_y := y\<rparr>\<rparr>)"
  by (simp_all add: refs_balanced_def)

lemma refs_cache_buffer: "refs_balanced s \<Longrightarrow> refs_balanced (cache_buffer B w s)"
  unfolding cache_buffer_def Let_def state_set_buffer_def
  by (intro refs_xy refs_assign) (simp add: refs_release split: option.split)

lemma refs_rebuffered: "refs_balanced s \<Longrightarrow> refs_balanced (rebuffered B w s)"
  by (simp add: rebuffered_def refs_cache_buffer)

lemma refs_cache:
  assumes "refs_balanced s"
  shows "refs_balanced (cache_pending B w s)"
  unfolding cache_pending_def rebuffered_def [symmetric] Let_def
  by (rule refs_keep [OF refs_rebuffered [OF assms]]) (simp_all add: merge_state_def del: rebuffered_pending rebuffered_cached)

lemma refs_finish:
  "refs_balanced s \<Longrightarrow> refs_balanced (finish_commit B w cached (damage_and_trim cached sz shown s))"
  unfolding finish_commit_def Let_def state_set_buffer_def
  by (rule refs_assign, erule refs_keep; simp add: damage_and_trim_def Let_def)

lemma refs_on_pending:
  assumes "refs_balanced s" "\<And>t. st_buffer (f t) = st_buffer t"
  shows "refs_balanced (on_pending flag f s)"
  using assms by (simp add: on_pending_def refs_balanced_def uses_def)

lemma refs_geometry: "refs_balanced s \<Longrightarrow> refs_balanced (s\<lparr>sf_pending := (sf_pending s)\<lparr>pn_geometry := g\<rparr>\<rparr>)"
  by (simp add: refs_balanced_def)

lemma refs_error: "refs_balanced s \<Longrightarrow> refs_balanced (surf_send [Surface_error e] s)"
  by (simp add: refs_balanced_def)

lemma refs_attach: "refs_balanced s \<Longrightarrow> refs_balanced (attach B w r x y s)"
  unfolding attach_def Let_def state_set_buffer_def by (intro refs_xy refs_assign refs_on_pending) simp_all

lemma refs_request: "refs_balanced s \<Longrightarrow> refs_balanced (run_request B w q s)"
  by (cases q) (auto simp: damage_def frame_def set_opaque_region_def set_input_region_def set_buffer_transform_def
      set_buffer_scale_def damage_buffer_def set_window_geometry_def Let_def
      split: option.split intro!: refs_attach refs_on_pending refs_geometry refs_error)

section \<open>The life of a surface\<close>

text \<open>
  The client owns a buffer it commits: the surface does not have it from an earlier commit.  The function counts
  how often each \<open>wl_buffer\<close> was committed.
\<close>

definition client_owns :: "surface \<Rightarrow> bool" where
  "client_owns s \<longleftrightarrow> (case st_resource (pn_state (sf_pending s)) of None \<Rightarrow> True
     | Some r \<Rightarrow> st_resource (sf_state s) \<noteq> Some r \<and> st_resource (pn_state (sf_cached s)) \<noteq> Some r)"

definition committed :: "surface \<Rightarrow> (nat \<Rightarrow> nat) \<Rightarrow> nat \<Rightarrow> nat" where
  "committed s n = (case st_resource (pn_state (sf_pending s)) of None \<Rightarrow> n | Some r \<Rightarrow> n(r := n r + 1))"

inductive buffer_life :: "'w buffers \<Rightarrow> (nat \<Rightarrow> nat) \<Rightarrow> surface \<Rightarrow> bool" for B where
  New: "buffer_life B (\<lambda>_. 0) surface_new"
| Request: "buffer_life B n s \<Longrightarrow> buffer_life B n (run_request B w q s)"
| Commit: "buffer_life B n s \<Longrightarrow> client_owns s \<Longrightarrow> buffer_life B (committed s n) (direct_commit B w sz shown s)"
| Cache: "buffer_life B n s \<Longrightarrow> client_owns s \<Longrightarrow> buffer_life B (committed s n) (cache_pending B w s)"
| Apply: "buffer_life B n s \<Longrightarrow> buffer_life B n (cached_commit B w sz shown s)"

definition buffer_ok :: "(nat \<Rightarrow> nat) \<Rightarrow> surface_state \<Rightarrow> bool" where
  "buffer_ok wld t \<longleftrightarrow> st_buffer t = map_option wld (st_resource t)"

definition cached_kept :: "surface \<Rightarrow> bool" where
  "cached_kept s \<longleftrightarrow> (st_resource (pn_state (sf_cached s)) \<noteq> None \<longrightarrow> has (pn_commit (sf_cached s)) COMMIT_ATTACH)"

definition life_ok :: "(nat \<Rightarrow> nat) \<Rightarrow> (nat \<Rightarrow> nat) \<Rightarrow> surface \<Rightarrow> bool" where
  "life_ok wld n s \<longleftrightarrow> buffer_ok wld (sf_state s) \<and> buffer_ok wld (pn_state (sf_pending s)) \<and>
     buffer_ok wld (pn_state (sf_cached s)) \<and> cached_kept s \<and> attach_flagged (sf_pending s) \<and>
     (st_resource (sf_state s) = None \<or> st_resource (sf_state s) \<noteq> st_resource (pn_state (sf_cached s))) \<and>
     (\<forall>r. n r = releases r s + held_by r (sf_state s) + held_by r (pn_state (sf_cached s)))"

text \<open>The buffers and the releases of each operation.\<close>

lemma log_apply_buffer [simp]:
  "releases r (apply_buffer cached s) = releases r s +
     (if st_buffer (sf_state s) \<noteq> None \<and> st_buffer (sf_state s) \<noteq> st_buffer (pn_state (source_of cached s))
      then held_by r (sf_state s) else 0)"
  by (simp add: apply_buffer_def Let_def held_by_def split: option.split)

lemma log_apply [simp]: "releases r (apply_state cached s) = releases r (buffered cached s)"
  unfolding apply_state_def buffered_def [symmetric] Let_def by (simp add: releases_def)

lemma log_finish [simp]: "releases r (finish_commit B w cached (damage_and_trim cached sz shown s)) = releases r s"
  by (simp add: finish_commit_def damage_and_trim_def Let_def state_set_buffer_def)

lemma apply_current [simp]:
  "st_buffer (sf_state (apply_state cached s)) = st_buffer (sf_state (buffered cached s))"
  "st_resource (sf_state (apply_state cached s)) = st_resource (sf_state (buffered cached s))"
  unfolding apply_state_def buffered_def [symmetric] Let_def by (cases cached; simp add: merge_state_def)+

lemma finish_current [simp]:
  "st_buffer (sf_state (finish_commit B w cached (damage_and_trim cached sz shown s))) = st_buffer (sf_state s)"
  "st_resource (sf_state (finish_commit B w cached (damage_and_trim cached sz shown s))) = st_resource (sf_state s)"
  by (cases cached; simp add: finish_commit_def damage_and_trim_def Let_def state_set_buffer_def)+

lemma other_slot [simp]:
  "sf_cached (apply_state False s) = sf_cached s" "sf_pending (apply_state True s) = sf_pending s"
  "sf_cached (finish_commit B w False (damage_and_trim False sz shown s)) = sf_cached s"
  "sf_pending (finish_commit B w True (damage_and_trim True sz shown s)) = sf_pending s"
  unfolding apply_state_def buffered_def [symmetric] Let_def
  by (simp_all add: finish_commit_def damage_and_trim_def Let_def state_set_buffer_def)

lemma own_slot [simp]:
  "st_buffer (pn_state (sf_pending (finish_commit B w False s))) = None"
  "st_resource (pn_state (sf_pending (finish_commit B w False s))) = None"
  "pn_commit (sf_pending (finish_commit B w False s)) = 0"
  "st_buffer (pn_state (sf_cached (finish_commit B w True s))) = None"
  "st_resource (pn_state (sf_cached (finish_commit B w True s))) = None"
  by (simp_all add: finish_commit_def Let_def state_set_buffer_def)

lemma cache_current [simp]:
  "sf_state (cache_pending B w s) = sf_state s"
  "st_buffer (pn_state (sf_cached (cache_pending B w s))) = st_buffer (pn_state (sf_cached (rebuffered B w s)))"
  "st_resource (pn_state (sf_cached (cache_pending B w s))) = st_resource (pn_state (sf_cached (rebuffered B w s)))"
  "pn_commit (sf_cached (cache_pending B w s)) = pn_commit (sf_cached s) OR pn_commit (sf_pending s)"
  unfolding cache_pending_def rebuffered_def [symmetric] Let_def by (simp_all add: merge_state_def)

lemma log_cache [simp]:
  "releases r (cache_pending B w s) = releases r s +
     (if has (pn_commit (sf_pending s)) COMMIT_ATTACH \<and>
         st_buffer (pn_state (sf_cached s)) \<noteq> st_buffer (pn_state (sf_pending s))
      then held_by r (pn_state (sf_cached s)) else 0)"
proof -
  have "releases r (cache_pending B w s) = releases r (rebuffered B w s)"
    unfolding cache_pending_def rebuffered_def [symmetric] Let_def by (simp add: releases_def)
  then show ?thesis
    by (simp add: rebuffered_def cache_buffer_def Let_def state_set_buffer_def held_by_def split: option.split)
qed

lemma releases_request [simp]: "releases r (run_request B w q s) = releases r s"
  by (cases q) (simp_all add: attach_def damage_def frame_def set_opaque_region_def set_input_region_def
      set_buffer_transform_def set_buffer_scale_def damage_buffer_def set_window_geometry_def Let_def on_pending_def
      state_set_buffer_def split: option.split)

lemma buffer_ok_pending:
  assumes "\<And>w r. buffer_get B w r = Some (wld r)" "buffer_ok wld (pn_state p)"
  shows "buffer_ok wld (pn_state (pending_request B w q p))"
  using assms by (cases q) (simp_all add: buffer_ok_def split: option.split)

lemma attach_flag_request:
  "attach_flagged p \<Longrightarrow> attach_flagged (pending_request B w q p)"
  by (cases q; simp add: attach_flagged_def has_or_left split: option.split; blast)

text \<open>A commit takes the pending buffer and releases the one it replaces.\<close>

lemma life_commit:
  assumes "life_ok wld n s" "client_owns s" "inj wld"
  shows "life_ok wld (committed s n) (direct_commit B w sz shown s)"
proof -
  have i: "wld x = wld y \<longleftrightarrow> x = y" for x y using assms(3) by (auto simp: inj_def)
  have a: "buffer_ok wld (sf_state s)" "buffer_ok wld (pn_state (sf_pending s))" "buffer_ok wld (pn_state (sf_cached s))"
    "cached_kept s" "attach_flagged (sf_pending s)"
    "st_resource (sf_state s) = None \<or> st_resource (sf_state s) \<noteq> st_resource (pn_state (sf_cached s))"
    "\<And>r. n r = releases r s + held_by r (sf_state s) + held_by r (pn_state (sf_cached s))"
    using assms(1) by (simp_all add: life_ok_def)
  show ?thesis
  proof (cases "has (pn_commit (sf_pending s)) COMMIT_ATTACH")
    case False
    then have "st_resource (pn_state (sf_pending s)) = None" using a(5) by (simp add: attach_flagged_def)
    then show ?thesis using False a
      by (simp add: life_ok_def direct_commit_def buffered_def buffer_ok_def attach_flagged_def committed_def cached_kept_def
          held_by_def)
  next
    case True
    have o: "st_resource (pn_state (sf_pending s)) = Some r \<Longrightarrow>
        st_resource (sf_state s) \<noteq> Some r \<and> st_resource (pn_state (sf_cached s)) \<noteq> Some r" for r
      using assms(2) by (simp add: client_owns_def)
    show ?thesis using True a o
      by (cases "st_resource (pn_state (sf_pending s))"; cases "st_resource (sf_state s)")
        (auto simp: life_ok_def direct_commit_def buffered_def buffer_ok_def attach_flagged_def committed_def cached_kept_def
          held_by_def i)
  qed
qed

lemma life_cache:
  assumes "life_ok wld n s" "client_owns s" "inj wld"
  shows "life_ok wld (committed s n) (cache_pending B w s)"
proof -
  have i: "wld x = wld y \<longleftrightarrow> x = y" for x y using assms(3) by (auto simp: inj_def)
  have a: "buffer_ok wld (sf_state s)" "buffer_ok wld (pn_state (sf_pending s))" "buffer_ok wld (pn_state (sf_cached s))"
    "cached_kept s" "attach_flagged (sf_pending s)"
    "st_resource (sf_state s) = None \<or> st_resource (sf_state s) \<noteq> st_resource (pn_state (sf_cached s))"
    "\<And>r. n r = releases r s + held_by r (sf_state s) + held_by r (pn_state (sf_cached s))"
    using assms(1) by (simp_all add: life_ok_def)
  have p: "attach_flagged (sf_pending (cache_pending B w s))" "buffer_ok wld (pn_state (sf_pending (cache_pending B w s)))"
  proof -
    obtain d where "sf_pending (cache_pending B w s) = (spent (sf_pending s))\<lparr>pn_state := (pn_state (spent (sf_pending s)))\<lparr>st_damage := d\<rparr>\<rparr>"
      using cache_spends [of B w s] by (auto simp: same_pending_def)
    then show "attach_flagged (sf_pending (cache_pending B w s))" "buffer_ok wld (pn_state (sf_pending (cache_pending B w s)))"
      using a(2,5) by (auto simp: attach_flagged_def spent_def buffer_ok_def)
  qed
  show ?thesis
  proof (cases "has (pn_commit (sf_pending s)) COMMIT_ATTACH")
    case False
    then have "st_resource (pn_state (sf_pending s)) = None" using a(5) by (simp add: attach_flagged_def)
    then show ?thesis using False a p
      by (simp add: life_ok_def buffer_ok_def committed_def cached_kept_def held_by_def has_or_left)
  next
    case True
    have o: "st_resource (pn_state (sf_pending s)) = Some r \<Longrightarrow>
        st_resource (sf_state s) \<noteq> Some r \<and> st_resource (pn_state (sf_cached s)) \<noteq> Some r" for r
      using assms(2) by (simp add: client_owns_def)
    show ?thesis using True a o p
      by (cases "st_resource (pn_state (sf_pending s))"; cases "st_resource (pn_state (sf_cached s))")
        (auto simp: life_ok_def buffer_ok_def committed_def cached_kept_def held_by_def i has_or_left)
  qed
qed

lemma life_apply:
  assumes "life_ok wld n s" "inj wld"
  shows "life_ok wld n (cached_commit B w sz shown s)"
proof -
  have i: "wld x = wld y \<longleftrightarrow> x = y" for x y using assms(2) by (auto simp: inj_def)
  have a: "buffer_ok wld (sf_state s)" "buffer_ok wld (pn_state (sf_pending s))" "buffer_ok wld (pn_state (sf_cached s))"
    "cached_kept s" "attach_flagged (sf_pending s)"
    "st_resource (sf_state s) = None \<or> st_resource (sf_state s) \<noteq> st_resource (pn_state (sf_cached s))"
    "\<And>r. n r = releases r s + held_by r (sf_state s) + held_by r (pn_state (sf_cached s))"
    using assms(1) by (simp_all add: life_ok_def)
  show ?thesis
  proof (cases "has (pn_commit (sf_cached s)) COMMIT_ATTACH")
    case False
    then have "st_resource (pn_state (sf_cached s)) = None" using a(4) by (auto simp: cached_kept_def)
    then show ?thesis using False a
      by (simp add: life_ok_def cached_commit_def buffered_def buffer_ok_def cached_kept_def held_by_def)
  next
    case True
    then show ?thesis using a
      by (cases "st_resource (pn_state (sf_cached s))"; cases "st_resource (sf_state s)")
        (auto simp: life_ok_def cached_commit_def buffered_def buffer_ok_def cached_kept_def held_by_def i)
  qed
qed

lemma life_invariant:
  assumes "buffer_life B n s" "\<And>w r. buffer_get B w r = Some (wld r)" "inj wld"
  shows "life_ok wld n s \<and> refs_balanced s"
  using assms(1)
proof induction
  case New
  show ?case
    by (simp add: life_ok_def surface_new_def pending_initialize_def state_initialize_def buffer_ok_def cached_kept_def
        attach_flagged_def releases_def held_by_def refs_balanced_def uses_def)
next
  case (Request n s w q)
  have "buffer_ok wld (pn_state (pending_request B w q (sf_pending s)))"
    using Request.IH by (intro buffer_ok_pending [OF assms(2)]) (simp add: life_ok_def)
  moreover have "attach_flagged (pending_request B w q (sf_pending s))"
    using Request.IH by (intro attach_flag_request) (simp add: life_ok_def)
  ultimately have "life_ok wld n (run_request B w q s)" using Request.IH by (simp add: life_ok_def cached_kept_def)
  then show ?case using Request.IH by (simp add: refs_request)
next
  case (Commit n s w sz shown)
  show ?case
  proof
    show "life_ok wld (committed s n) (direct_commit B w sz shown s)" using Commit by (intro life_commit assms(3)) simp_all
    show "refs_balanced (direct_commit B w sz shown s)"
      unfolding direct_commit_def using Commit by (intro refs_finish refs_apply) simp
  qed
next
  case (Cache n s w)
  show ?case
  proof
    show "life_ok wld (committed s n) (cache_pending B w s)" using Cache by (intro life_cache assms(3)) simp_all
    show "refs_balanced (cache_pending B w s)" using Cache by (intro refs_cache) simp
  qed
next
  case (Apply n s w sz shown)
  show ?case
  proof
    show "life_ok wld n (cached_commit B w sz shown s)" using Apply by (intro life_apply assms(3)) simp_all
    show "refs_balanced (cached_commit B w sz shown s)"
      unfolding cached_commit_def using Apply by (intro refs_finish refs_apply) simp
  qed
qed

text \<open>C5: As long as a client commits only buffers it owns, each of its commits of a buffer is answered by one
  release, but for the one or two buffers the surface still has, the current and the cached one, which are
  different; and the references the surface takes on the contents are dropped but for those of the buffers it has.\<close>

theorem buffers_released_once:
  assumes "buffer_life B n s" "\<And>w r. buffer_get B w r = Some (wld r)" "inj wld"
  shows "n r = count_list (sf_log s) (Release r) + (if st_resource (sf_state s) = Some r then 1 else 0) +
      (if st_resource (pn_state (sf_cached s)) = Some r then 1 else 0) \<and>
    \<not> (st_resource (sf_state s) = Some r \<and> st_resource (pn_state (sf_cached s)) = Some r) \<and>
    count_list (sf_log s) (Ref b) = count_list (sf_log s) (Unref b) + (if st_buffer (sf_state s) = Some b then 1 else 0) +
      (if st_buffer (pn_state (sf_pending s)) = Some b then 1 else 0) +
      (if st_buffer (pn_state (sf_cached s)) = Some b then 1 else 0)"
proof -
  have i: "life_ok wld n s" "refs_balanced s" using life_invariant [OF assms] by blast+
  then have "n r = releases r s + held_by r (sf_state s) + held_by r (pn_state (sf_cached s))" by (simp add: life_ok_def)
  moreover have "\<not> (st_resource (sf_state s) = Some r \<and> st_resource (pn_state (sf_cached s)) = Some r)"
    using i(1) by (auto simp: life_ok_def)
  ultimately show ?thesis using i(2) unfolding releases_def held_by_def refs_balanced_def uses_def by blast
qed

text \<open>The client shows buffer 1 and then buffer 2.\<close>

definition shown_twice :: surface where
  "shown_twice = direct_commit sample_buffers () None None (run_request sample_buffers () (Attach (Some 2) 0 0)
     (direct_commit sample_buffers () None None (run_request sample_buffers () (Attach (Some 1) 0 0) surface_new)))"

theorem buffers_released_once_witness:
  "count_list (sf_log shown_twice) (Release 1) = 1 \<and> count_list (sf_log shown_twice) (Release 2) = 0"
proof -
  let ?a = "run_request sample_buffers () (Attach (Some 1) 0 0) surface_new"
  let ?s = "direct_commit sample_buffers () None None ?a"
  let ?t = "run_request sample_buffers () (Attach (Some 2) 0 0) ?s"
  have n: "st_resource (sf_state surface_new) = None" "st_resource (pn_state (sf_cached surface_new)) = None"
    by (simp_all add: surface_new_def state_initialize_def pending_initialize_def)
  have c: "has (x OR COMMIT_ATTACH) COMMIT_ATTACH" for x by (simp add: has_or_left)
  have a: "client_owns ?a" "committed ?a (\<lambda>_. 0) = (\<lambda>_. 0)(1 := 1)"
    by (simp_all add: client_owns_def committed_def n del: run_request.simps)
  have s: "st_resource (sf_state ?s) = Some 1" "sf_cached ?s = sf_cached surface_new"
    by (simp_all add: direct_commit_def buffered_def c del: run_request.simps)
  have t: "client_owns ?t" "committed ?t ((\<lambda>_. 0)(1 := 1)) = (\<lambda>_. 0)(1 := 1, 2 := 1)"
    using s n by (simp_all add: client_owns_def committed_def del: run_request.simps)
  have u: "st_resource (sf_state shown_twice) = Some 2" "sf_cached shown_twice = sf_cached surface_new"
    unfolding shown_twice_def by (simp_all add: direct_commit_def buffered_def c del: run_request.simps)
  have "buffer_life sample_buffers ((\<lambda>_. 0)(1 := 1, 2 := 1)) shown_twice"
    unfolding shown_twice_def t(2) [symmetric]
    by (rule Commit [OF Request t(1)], unfold a(2) [symmetric], rule Commit [OF Request [OF New] a(1)])
  moreover have "buffer_get sample_buffers w r = Some (r + 100)" for w r by (simp add: sample_buffers_def)
  moreover have "inj (\<lambda>r::nat. r + 100)" by simp
  ultimately have "\<And>r. ((\<lambda>_. 0)(1 := 1, 2 := 1)) r = count_list (sf_log shown_twice) (Release r) +
      (if st_resource (sf_state shown_twice) = Some r then 1 else 0) +
      (if st_resource (pn_state (sf_cached shown_twice)) = Some r then 1 else 0)"
    using buffers_released_once [of sample_buffers "(\<lambda>_. 0)(1 := 1, 2 := 1)" shown_twice "\<lambda>r. r + 100"] by blast
  from this [of 1] this [of 2] show ?thesis using n by (simp add: u)
qed

end
