(* ===== verification/Subsurface.thy ===== *)
theory Subsurface
  imports Surface_Buffers View_Stack
begin

text \<open>
  Subsurfaces (\<open>libswc/subsurface.c\<close>, \<open>libswc/subcompositor.c\<close>) and the commits that go through the tree of
  surfaces (\<open>commit\<close> and \<open>surface_apply_pending\<close> of \<open>libswc/surface.c\<close>).

  What the tree asks of views and roles is the argument \<open>E\<close> of the operations: functions on the rest of the
  server, of any type \<open>'w\<close>.  The listeners of a surface's commit signal change that rest only.
\<close>

section \<open>State\<close>

record 'w surface_env =
  bufs :: "'w buffers"
  view_new :: "'w \<Rightarrow> nat option \<times> 'w"
  view_linked :: "nat \<Rightarrow> 'w \<Rightarrow> 'w"
  view_put_below :: "nat \<Rightarrow> nat \<Rightarrow> 'w \<Rightarrow> 'w"
  view_free :: "nat \<Rightarrow> 'w \<Rightarrow> 'w"
  view_contents :: "nat \<Rightarrow> content option \<Rightarrow> 'w \<Rightarrow> 'w"
  view_updated :: "nat \<Rightarrow> 'w \<Rightarrow> 'w"
  view_shown :: "nat \<Rightarrow> 'w \<Rightarrow> 'w"
  view_hidden :: "nat \<Rightarrow> 'w \<Rightarrow> 'w"
  view_moved :: "nat \<Rightarrow> int \<Rightarrow> int \<Rightarrow> 'w \<Rightarrow> 'w"
  view_restacked :: "nat \<Rightarrow> nat \<Rightarrow> bool \<Rightarrow> 'w \<Rightarrow> 'w"
  view_parent :: "nat \<Rightarrow> nat option \<Rightarrow> 'w \<Rightarrow> 'w"
  committed_signal :: "nat \<Rightarrow> 'w \<Rightarrow> 'w"
  view_shows :: "'w \<Rightarrow> nat \<Rightarrow> content option"
  view_visible :: "'w \<Rightarrow> nat \<Rightarrow> bool"
  view_origin :: "'w \<Rightarrow> nat \<Rightarrow> (int \<times> int) \<times> (int \<times> int)"
  view_stacked :: "'w \<Rightarrow> nat \<Rightarrow> bool"
  view_of_window :: "'w \<Rightarrow> nat \<Rightarrow> bool"

record subsurface =
  ss_surface :: nat
  ss_parent :: "nat option"
  ss_parent_view :: "nat option"
  cached_xy :: "int \<times> int"
  cached_position :: bool
  cached_order_dirty :: bool
  ss_xy :: "int \<times> int"
  pending_xy :: "int \<times> int"
  pending_position :: bool
  order_dirty :: bool
  ss_sync :: bool
  ss_pending :: bool
  ss_added :: bool

record 'w scene =
  live :: "nat list"
  live_subs :: "nat list"
  surf :: "nat \<Rightarrow> surface"
  sub :: "nat \<Rightarrow> subsurface"
  world :: 'w

definition upd_surf :: "nat \<Rightarrow> (surface \<Rightarrow> surface) \<Rightarrow> 'w scene \<Rightarrow> 'w scene" where
  "upd_surf s f st = st\<lparr>surf := (surf st)(s := f (surf st s))\<rparr>"

definition upd_sub :: "nat \<Rightarrow> (subsurface \<Rightarrow> subsurface) \<Rightarrow> 'w scene \<Rightarrow> 'w scene" where
  "upd_sub c f st = st\<lparr>sub := (sub st)(c := f (sub st c))\<rparr>"

definition on_world :: "('w \<Rightarrow> 'w) \<Rightarrow> 'w scene \<Rightarrow> 'w scene" where
  "on_world f st = st\<lparr>world := f (world st)\<rparr>"

text \<open>\<open>compositor_view\<close>: the view of a surface, when it is one of the compositor's.\<close>

definition view_of :: "'w surface_env \<Rightarrow> 'w scene \<Rightarrow> nat \<Rightarrow> nat option" where
  "view_of E st s = (case sf_view (surf st s) of None \<Rightarrow> None
     | Some v \<Rightarrow> if view_stacked E (world st) v then Some v else None)"

section \<open>Walks up the tree\<close>

definition surface_parent :: "'w scene \<Rightarrow> nat \<Rightarrow> nat option" where
  "surface_parent st s = (case sf_sub (surf st s) of None \<Rightarrow> None | Some c \<Rightarrow> ss_parent (sub st c))"

definition is_descendant_of :: "'w scene \<Rightarrow> nat \<Rightarrow> nat \<Rightarrow> bool option" where
  "is_descendant_of st ancestor s = descends_loop (surface_parent st) ancestor (surface_parent st s)"

definition sub_parent :: "'w scene \<Rightarrow> nat \<Rightarrow> nat option" where
  "sub_parent st c = (case ss_parent (sub st c) of None \<Rightarrow> None | Some p \<Rightarrow> sf_sub (surf st p))"

partial_function (option) sync_loop :: "(nat \<Rightarrow> bool) \<Rightarrow> (nat \<Rightarrow> nat option) \<Rightarrow> nat option \<Rightarrow> bool option" where
  "sync_loop syn par c =
     (case c of None \<Rightarrow> Some False
      | Some c \<Rightarrow> if syn c then Some True else sync_loop syn par (par c))"

declare sync_loop.simps [code]

definition subsurface_is_synchronized :: "'w scene \<Rightarrow> nat \<Rightarrow> bool option" where
  "subsurface_is_synchronized st c = sync_loop (\<lambda>c. ss_sync (sub st c)) (sub_parent st) (Some c)"

section \<open>Views\<close>

definition subsurface_update_position :: "'w surface_env \<Rightarrow> nat \<Rightarrow> 'w scene \<Rightarrow> 'w scene" where
  "subsurface_update_position E c st =
     (case (view_of E st (ss_surface (sub st c)), ss_parent (sub st c)) of
        (Some v, Some p) \<Rightarrow>
          (case view_of E st p of None \<Rightarrow> st
           | Some q \<Rightarrow>
               let ((px, py), (ox, oy)) = view_origin E (world st) q; (x, y) = ss_xy (sub st c)
               in on_world (view_moved E v (clamp_s32 (px + x - ox)) (clamp_s32 (py + y - oy))) st)
      | _ \<Rightarrow> st)"

definition subsurface_update_visibility :: "'w surface_env \<Rightarrow> nat \<Rightarrow> 'w scene \<Rightarrow> 'w scene" where
  "subsurface_update_visibility E c st =
     (case (view_of E st (ss_surface (sub st c)), ss_parent (sub st c)) of
        (Some v, Some p) \<Rightarrow>
          (case view_of E st p of None \<Rightarrow> st
           | Some q \<Rightarrow>
               if ss_added (sub st c) \<and> view_visible E (world st) q \<and> view_shows E (world st) v \<noteq> None
               then on_world (view_shown E v) st else on_world (view_hidden E v) st)
      | _ \<Rightarrow> st)"

definition subsurface_set_parent_view :: "'w surface_env \<Rightarrow> nat \<Rightarrow> nat option \<Rightarrow> 'w scene \<Rightarrow> 'w scene" where
  "subsurface_set_parent_view E c parent st =
     (let parent = (case parent of None \<Rightarrow> None | Some v \<Rightarrow> if view_stacked E (world st) v then Some v else None);
          view = view_of E st (ss_surface (sub st c));
          st = upd_sub c (\<lambda>x. x\<lparr>ss_parent_view := parent\<rparr>) st;
          st = (case view of None \<Rightarrow> st
                | Some v \<Rightarrow>
                    let st = on_world (view_parent E v parent) st
                    in if parent = None then on_world (view_hidden E v) st else st)
      in if parent = None then st
         else upd_sub c (\<lambda>x. x\<lparr>order_dirty := True\<rparr>) (subsurface_update_position E c st))"

text \<open>The listener and the handler on the view of the parent.\<close>

definition handle_parent_view_change :: "'w surface_env \<Rightarrow> nat \<Rightarrow> 'w scene \<Rightarrow> 'w scene" where
  "handle_parent_view_change E c st = subsurface_update_position E c st"

definition handle_parent_view_destroy :: "'w surface_env \<Rightarrow> nat \<Rightarrow> 'w scene \<Rightarrow> 'w scene" where
  "handle_parent_view_destroy E c st = subsurface_set_parent_view E c None st"

definition surface_set_view :: "'w surface_env \<Rightarrow> nat \<Rightarrow> nat option \<Rightarrow> 'w scene \<Rightarrow> 'w scene" where
  "surface_set_view E s view st =
     (if sf_view (surf st s) = view then st
      else
        let st = upd_surf s (\<lambda>x. x\<lparr>sf_view := view\<rparr>) st;
            st = fold (\<lambda>c. subsurface_set_parent_view E c view) (sf_subs (surf st s)) st
        in case view of None \<Rightarrow> st
           | Some v \<Rightarrow>
               let t = sf_state (surf st s);
                   (err, logical) = logical_buffer (bufs E) (world st) (st_buffer t) (st_scale t) (st_transform t);
                   st = (case err of None \<Rightarrow> st | Some e \<Rightarrow> upd_surf s (surf_send [Surface_error e]) st)
               in on_world (view_updated E v \<circ> view_contents E v logical) st)"

definition create_view :: "'w surface_env \<Rightarrow> nat \<Rightarrow> 'w scene \<Rightarrow> 'w scene" where
  "create_view E s st =
     (let (v, w) = view_new E (world st); st = st\<lparr>world := w\<rparr>
      in case v of None \<Rightarrow> st
         | Some v \<Rightarrow> on_world (view_linked E v) (surface_set_view E s (Some v) st))"

section \<open>Requests on the order\<close>

definition on_pending_order :: "nat \<Rightarrow> (nat list \<Rightarrow> nat list) \<Rightarrow> (nat list \<Rightarrow> nat list) \<Rightarrow> 'w scene \<Rightarrow> 'w scene" where
  "on_pending_order p f g st =
     upd_surf p (on_state Pending (\<lambda>t. t\<lparr>st_below := f (st_below t), st_above := g (st_above t)\<rparr>)) st"

text \<open>\<open>is_valid_sibling\<close>: the sibling is the parent (\<open>Some None\<close>) or one of its other subsurfaces.\<close>

definition subsurface_find_sibling :: "'w scene \<Rightarrow> nat \<Rightarrow> nat \<Rightarrow> nat option" where
  "subsurface_find_sibling st c s =
     (case ss_parent (sub st c) of None \<Rightarrow> None
      | Some p \<Rightarrow> find (\<lambda>d. ss_surface (sub st d) = s \<and> d \<noteq> c)
          (st_below (slot_state Pending (surf st p)) @ st_above (slot_state Pending (surf st p))))"

definition is_valid_sibling :: "'w scene \<Rightarrow> nat \<Rightarrow> nat \<Rightarrow> nat option option" where
  "is_valid_sibling st c s =
     (if ss_parent (sub st c) = None \<or> s = ss_surface (sub st c) then None
      else if Some s = ss_parent (sub st c) then Some None
      else case subsurface_find_sibling st c s of None \<Rightarrow> None | Some d \<Rightarrow> Some (Some d))"

text \<open>\<open>False\<close>: the client is sent \<open>bad_surface\<close>.\<close>

definition place_above :: "nat \<Rightarrow> nat \<Rightarrow> 'w scene \<Rightarrow> bool \<times> 'w scene" where
  "place_above c s st =
     (case (is_valid_sibling st c s, ss_parent (sub st c)) of
        (Some d, Some p) \<Rightarrow>
          let st = on_pending_order p (remove1 c) (remove1 c) st;
              st = (case d of None \<Rightarrow> on_pending_order p id ((#) c) st
                    | Some d \<Rightarrow> on_pending_order p (insert_after d c) (insert_after d c) st)
          in (True, upd_sub c (\<lambda>x. x\<lparr>order_dirty := True\<rparr>) st)
      | _ \<Rightarrow> (False, st))"

definition place_below :: "nat \<Rightarrow> nat \<Rightarrow> 'w scene \<Rightarrow> bool \<times> 'w scene" where
  "place_below c s st =
     (case (is_valid_sibling st c s, ss_parent (sub st c)) of
        (Some d, Some p) \<Rightarrow>
          let st = on_pending_order p (remove1 c) (remove1 c) st;
              st = (case d of None \<Rightarrow> on_pending_order p (\<lambda>l. l @ [c]) id st
                    | Some d \<Rightarrow> on_pending_order p (insert_before d c) (insert_before d c) st)
          in (True, upd_sub c (\<lambda>x. x\<lparr>order_dirty := True\<rparr>) st)
      | _ \<Rightarrow> (False, st))"

definition set_position :: "nat \<Rightarrow> int \<Rightarrow> int \<Rightarrow> 'w scene \<Rightarrow> 'w scene" where
  "set_position c x y st = upd_sub c (\<lambda>s. s\<lparr>pending_xy := (x, y), pending_position := True\<rparr>) st"

section \<open>Commits of the parent\<close>

definition take_order_dirty :: "nat \<Rightarrow> 'w scene \<Rightarrow> bool \<times> 'w scene" where
  "take_order_dirty p st =
     (if applying_cached (surf st p)
      then (\<exists>c \<in> set (sf_subs (surf st p)). cached_order_dirty (sub st c),
            fold (\<lambda>c. upd_sub c (\<lambda>x. x\<lparr>cached_order_dirty := False\<rparr>)) (sf_subs (surf st p)) st)
      else (\<exists>c \<in> set (sf_subs (surf st p)). order_dirty (sub st c),
            fold (\<lambda>c. upd_sub c (\<lambda>x. x\<lparr>order_dirty := False\<rparr>)) (sf_subs (surf st p)) st))"

definition apply_pending_position :: "'w surface_env \<Rightarrow> bool \<Rightarrow> nat \<Rightarrow> 'w scene \<Rightarrow> 'w scene" where
  "apply_pending_position E cached c st =
     (if \<not> (if cached then cached_position (sub st c) else pending_position (sub st c)) then st
      else subsurface_update_position E c (upd_sub c (\<lambda>x.
        if cached then x\<lparr>cached_position := False, ss_xy := cached_xy x\<rparr>
        else x\<lparr>pending_position := False, ss_xy := pending_xy x\<rparr>) st))"

definition apply_pending_positions :: "'w surface_env \<Rightarrow> nat \<Rightarrow> 'w scene \<Rightarrow> 'w scene" where
  "apply_pending_positions E p st =
     fold (apply_pending_position E (applying_cached (surf st p))) (sf_subs (surf st p)) st"

definition cache_child :: "nat \<Rightarrow> 'w scene \<Rightarrow> 'w scene" where
  "cache_child c st = upd_sub c (\<lambda>x.
     let x = x\<lparr>cached_order_dirty := cached_order_dirty x \<or> order_dirty x, order_dirty := False\<rparr>
     in if pending_position x then x\<lparr>cached_xy := pending_xy x, cached_position := True, pending_position := False\<rparr> else x) st"

text \<open>After the loop that unlinks them the cached lists hold no child, then they hold the pending ones.\<close>

definition subsurface_cache_parent_commit :: "nat \<Rightarrow> 'w scene \<Rightarrow> 'w scene" where
  "subsurface_cache_parent_commit p st =
     (let subs = sf_subs (surf st p);
          st = fold cache_child subs st;
          st = upd_surf p (on_state Cached (\<lambda>t. t\<lparr>st_below := filter (\<lambda>c. c \<notin> set subs) (st_below t),
                 st_above := filter (\<lambda>c. c \<notin> set subs) (st_above t)\<rparr>)) st;
          t = slot_state Pending (surf st p)
      in upd_surf p (on_state Cached (\<lambda>c. c\<lparr>st_below := st_below c @ st_below t, st_above := st_above c @ st_above t\<rparr>)) st)"

text \<open>The loops that restack the views of the children, each against the one before.\<close>

fun restack_children :: "'w surface_env \<Rightarrow> bool \<Rightarrow> nat \<Rightarrow> nat list \<Rightarrow> 'w scene \<Rightarrow> 'w scene" where
  "restack_children E over reference [] st = st"
| "restack_children E over reference (c # cs) st =
     (case view_of E st (ss_surface (sub st c)) of None \<Rightarrow> restack_children E over reference cs st
      | Some v \<Rightarrow> restack_children E over v cs (on_world (view_restacked E v reference over) st))"

definition show_child :: "'w surface_env \<Rightarrow> nat \<Rightarrow> 'w scene \<Rightarrow> 'w scene" where
  "show_child E c st = subsurface_update_visibility E c (upd_sub c (\<lambda>x. x\<lparr>ss_added := True\<rparr>) st)"

definition subsurface_parent_commit :: "'w surface_env \<Rightarrow> nat \<Rightarrow> 'w scene \<Rightarrow> 'w scene" where
  "subsurface_parent_commit E p st =
     (let (dirty, st) = take_order_dirty p st
      in if \<not> dirty then apply_pending_positions E p st
         else
           let t = slot_state (if applying_cached (surf st p) then Cached else Pending) (surf st p);
               st = upd_surf p (on_state Current (\<lambda>c. c\<lparr>st_below := st_below t, st_above := st_above t\<rparr>)) st;
               st = (case view_of E st p of None \<Rightarrow> st
                     | Some v \<Rightarrow> restack_children E True v (st_above t) (restack_children E False v (rev (st_below t)) st));
               st = apply_pending_positions E p st
           in fold (show_child E) (st_below t @ st_above t) st)"

section \<open>Commits\<close>

text \<open>
  \<open>surface_apply_pending\<close> up to the loop over the children.  \<open>show_contents\<close> hands the contents to the view,
  \<open>refresh\<close> when they are new.
\<close>

definition show_contents :: "'w surface_env \<Rightarrow> bool \<Rightarrow> nat \<Rightarrow> bool \<Rightarrow> content option \<Rightarrow> 'w scene \<Rightarrow> 'w scene" where
  "show_contents E cached s refresh logical st =
     (let w = world st; view = sf_view (surf st s);
          contents = (case view of Some v \<Rightarrow> if refresh then logical else view_shows E w v | None \<Rightarrow> logical);
          sh = (if view = None \<and> \<not> refresh then map_option (buffer_size (bufs E)) (st_buffer (sf_state (surf st s)))
                else map_option (content_size (bufs E)) contents);
          geometry = has (pn_commit (source_of cached (surf st s))) COMMIT_GEOMETRY;
          st = upd_surf s (damage_and_trim cached (map_option (content_size (bufs E)) logical) sh) st;
          st = (case view of None \<Rightarrow> st
                | Some v \<Rightarrow> on_world (\<lambda>w. view_updated E v
                    (if refresh \<or> geometry then view_contents E v contents w else w)) st)
      in upd_surf s (finish_commit (bufs E) w cached) st)"

definition commit_readable :: "'w surface_env \<Rightarrow> nat \<Rightarrow> 'w scene \<Rightarrow> bool" where
  "commit_readable E s st \<longleftrightarrow> buffer_read (bufs E) (world st)
     (if has (pn_commit (sf_pending (surf st s))) COMMIT_ATTACH then st_resource (pn_state (sf_pending (surf st s)))
      else st_resource (sf_state (surf st s)))"

text \<open>\<open>False\<close>: it returned before.\<close>

definition apply_contents :: "'w surface_env \<Rightarrow> bool \<Rightarrow> nat \<Rightarrow> 'w scene \<Rightarrow> bool \<times> 'w scene" where
  "apply_contents E cached s st =
     (let st = upd_surf s (\<lambda>x. x\<lparr>applying_cached := cached\<rparr>) st
      in if \<not> cached \<and> \<not> commit_readable E s st then (False, st)
         else
           let st = upd_surf s (apply_state cached) st;
               t = sf_state (surf st s);
               refresh = has (pn_commit (source_of cached (surf st s)))
                 (COMMIT_ATTACH OR COMMIT_SCALE OR COMMIT_TRANSFORM OR COMMIT_DAMAGE OR COMMIT_DAMAGE_BUFFER);
               (err, logical) = (if refresh then logical_buffer (bufs E) (world st) (st_buffer t) (st_scale t) (st_transform t)
                                 else (None, None));
               st = (case err of None \<Rightarrow> st | Some e \<Rightarrow> upd_surf s (surf_send [Surface_error e]) st)
           in if refresh \<and> st_buffer t \<noteq> None \<and> logical = None then (False, st)
              else (True, show_contents E cached s refresh logical st))"

definition apply_tree :: "'w surface_env \<Rightarrow> nat \<Rightarrow> 'w scene \<Rightarrow> 'w scene" where
  "apply_tree E s st =
     (let st = (case sf_sub (surf st s) of None \<Rightarrow> st
                | Some c \<Rightarrow> subsurface_update_visibility E c (upd_sub c (\<lambda>x. x\<lparr>ss_pending := False\<rparr>) st))
      in on_world (committed_signal E s) (subsurface_parent_commit E s st))"

definition apply_one :: "'w surface_env \<Rightarrow> bool \<Rightarrow> nat \<Rightarrow> 'w scene \<Rightarrow> bool \<times> 'w scene" where
  "apply_one E cached s st =
     (let (ok, st) = apply_contents E cached s st in (ok, if ok then apply_tree E s st else st))"

text \<open>
  The recursion of \<open>surface_apply_pending\<close> over the children, as the work that is left: children to look at, and
  surfaces whose loop is over.
\<close>

datatype work = Child nat | Done nat

definition children_work :: "'w scene \<Rightarrow> nat \<Rightarrow> work list" where
  "children_work st s = map Child (sf_subs (surf st s)) @ [Done s]"

definition next_work :: "bool \<times> 'w scene \<Rightarrow> nat \<Rightarrow> work list" where
  "next_work r s = (if fst r then children_work (snd r) s else [])"

partial_function (option) flush_work :: "'w surface_env \<Rightarrow> work list \<Rightarrow> 'w scene \<Rightarrow> 'w scene option" where
  "flush_work E ws st =
     (case ws of [] \<Rightarrow> Some st
      | Done s # ws \<Rightarrow> flush_work E ws (upd_surf s (\<lambda>x. x\<lparr>applying_cached := False\<rparr>) st)
      | Child c # ws \<Rightarrow>
          if \<not> ss_pending (sub st c) then flush_work E ws st
          else case subsurface_is_synchronized st c of None \<Rightarrow> None
            | Some synced \<Rightarrow>
                if \<not> synced then flush_work E ws st
                else flush_work E (next_work (apply_one E True (ss_surface (sub st c)) st) (ss_surface (sub st c)) @ ws)
                  (snd (apply_one E True (ss_surface (sub st c)) st)))"

declare flush_work.simps [code]

definition surface_apply_pending :: "'w surface_env \<Rightarrow> bool \<Rightarrow> nat \<Rightarrow> 'w scene \<Rightarrow> 'w scene option" where
  "surface_apply_pending E cached s st =
     (case apply_one E cached s st of (False, st) \<Rightarrow> Some st
      | (True, st) \<Rightarrow> flush_work E (children_work st s) st)"

definition surface_commit_pending :: "'w surface_env \<Rightarrow> nat \<Rightarrow> 'w scene \<Rightarrow> 'w scene option" where
  "surface_commit_pending E s st = surface_apply_pending E True s st"

definition commit :: "'w surface_env \<Rightarrow> nat \<Rightarrow> 'w scene \<Rightarrow> 'w scene option" where
  "commit E s st =
     (let st = upd_surf s (\<lambda>x. x\<lparr>applying_cached := False\<rparr>) st
      in case (case sf_sub (surf st s) of None \<Rightarrow> Some False | Some c \<Rightarrow> subsurface_is_synchronized st c) of
           None \<Rightarrow> None
         | Some False \<Rightarrow> surface_apply_pending E False s st
         | Some True \<Rightarrow>
             let x = surf st s; B = bufs E; w = world st
             in if \<not> buffer_read B w (if has (pn_commit (sf_pending x)) COMMIT_ATTACH then st_resource (pn_state (sf_pending x))
                   else case st_resource (pn_state (sf_cached x)) of None \<Rightarrow> st_resource (sf_state x) | r \<Rightarrow> r)
                then Some st
                else
                  let st = subsurface_cache_parent_commit s (upd_surf s (cache_pending B w) st)
                  in Some (case sf_sub (surf st s) of None \<Rightarrow> st | Some c \<Rightarrow> upd_sub c (\<lambda>x. x\<lparr>ss_pending := True\<rparr>) st))"

definition set_sync :: "nat \<Rightarrow> 'w scene \<Rightarrow> 'w scene" where
  "set_sync c st = upd_sub c (\<lambda>x. x\<lparr>ss_sync := True\<rparr>) st"

definition set_desync :: "'w surface_env \<Rightarrow> nat \<Rightarrow> 'w scene \<Rightarrow> 'w scene option" where
  "set_desync E c st =
     (case subsurface_is_synchronized st c of None \<Rightarrow> None
      | Some synced \<Rightarrow>
          let st = upd_sub c (\<lambda>x. x\<lparr>ss_sync := False\<rparr>) st
          in if \<not> synced then Some st
             else case subsurface_is_synchronized st c of None \<Rightarrow> None
               | Some still \<Rightarrow>
                   if \<not> still \<and> ss_pending (sub st c) then surface_commit_pending E (ss_surface (sub st c)) st
                   else Some st)"

section \<open>Creation and destruction\<close>

datatype subsurface_error = BAD_SURFACE | BAD_PARENT | SS_NO_MEMORY

definition zeroed_subsurface :: "nat \<Rightarrow> nat \<Rightarrow> subsurface" where
  "zeroed_subsurface s p = \<lparr>ss_surface = s, ss_parent = Some p, ss_parent_view = None, cached_xy = (0, 0),
     cached_position = False, cached_order_dirty = False, ss_xy = (0, 0), pending_xy = (0, 0), pending_position = False,
     order_dirty = True, ss_sync = True, ss_pending = False, ss_added = False\<rparr>"

definition unlink_child :: "nat \<Rightarrow> surface \<Rightarrow> surface" where
  "unlink_child c x = fold (\<lambda>l. on_state l (\<lambda>t. t\<lparr>st_below := remove1 c (st_below t), st_above := remove1 c (st_above t)\<rparr>))
     [Pending, Current, Cached] (x\<lparr>sf_subs := remove1 c (sf_subs x)\<rparr>)"

definition subsurface_destroy :: "'w surface_env \<Rightarrow> nat \<Rightarrow> 'w scene \<Rightarrow> 'w scene" where
  "subsurface_destroy E c st =
     (let s = ss_surface (sub st c);
          st = upd_surf s handle_role_destroy st;
          st = subsurface_set_parent_view E c None st;
          st = (if sf_sub (surf st s) = Some c then upd_surf s (\<lambda>x. x\<lparr>sf_sub := None\<rparr>) st else st);
          st = (case ss_parent (sub st c) of None \<Rightarrow> st | Some p \<Rightarrow> upd_surf p (unlink_child c) st);
          st = (case view_of E st s of None \<Rightarrow> st
                | Some v \<Rightarrow> if view_of_window E (world st) v then st
                           else on_world (view_free E v) (surface_set_view E s None (on_world (view_hidden E v) st)))
      in st\<lparr>live_subs := removeAll c (live_subs st)\<rparr>)"

text \<open>\<open>subsurface_new\<close> after the allocations; \<open>c\<close> is the address.\<close>

definition subsurface_new :: "'w surface_env \<Rightarrow> nat \<Rightarrow> nat \<Rightarrow> nat \<Rightarrow> 'w scene \<Rightarrow> bool \<times> 'w scene" where
  "subsurface_new E c s p st =
     (let st = st\<lparr>sub := (sub st)(c := zeroed_subsurface s p), live_subs := c # live_subs st\<rparr>;
          (ok, x) = surface_set_role c ''wl_subsurface'' (surf st s);
          st = upd_surf s (\<lambda>_. x) st
      in if \<not> ok then (False, subsurface_destroy E c st)
         else
           let st = (if sf_view (surf st s) = None then create_view E s st else st);
               st = (if sf_view (surf st p) = None then create_view E p st else st)
           in case (view_of E st s, view_of E st p) of
                (Some v, Some q) \<Rightarrow>
                  let st = subsurface_set_parent_view E c (Some q) st;
                      st = on_world (view_put_below E v q) st;
                      st = upd_surf p (\<lambda>x. x\<lparr>sf_subs := c # sf_subs x\<rparr>) st;
                      st = on_pending_order p id (\<lambda>l. l @ [c]) st
                  in (True, subsurface_update_visibility E c st)
              | _ \<Rightarrow> (False, subsurface_destroy E c st))"

definition get_subsurface :: "'w surface_env \<Rightarrow> bool \<Rightarrow> nat \<Rightarrow> nat \<Rightarrow> nat \<Rightarrow> 'w scene \<Rightarrow> (subsurface_error option \<times> 'w scene) option" where
  "get_subsurface E alloc c s p st =
     (case (if s = p then Some True else is_descendant_of st s p) of None \<Rightarrow> None
      | Some True \<Rightarrow> Some (Some BAD_PARENT, st)
      | Some False \<Rightarrow>
          if sf_sub (surf st s) \<noteq> None \<or> sf_role (surf st s) \<noteq> None \<or>
             (case sf_role_name (surf st s) of None \<Rightarrow> False | Some n \<Rightarrow> n \<noteq> ''wl_subsurface'')
          then Some (Some BAD_SURFACE, st)
          else if \<not> alloc then Some (Some SS_NO_MEMORY, st)
          else case subsurface_new E c s p st of
            (False, st) \<Rightarrow> Some (Some SS_NO_MEMORY, st)
          | (True, st) \<Rightarrow> Some (None, upd_surf s (\<lambda>x. x\<lparr>sf_sub := Some c\<rparr>) st))"

definition handle_parent_destroy :: "'w surface_env \<Rightarrow> nat \<Rightarrow> 'w scene \<Rightarrow> 'w scene" where
  "handle_parent_destroy E c st =
     (let p = ss_parent (sub st c);
          st = subsurface_set_parent_view E c None st;
          st = (case p of None \<Rightarrow> st | Some p \<Rightarrow> upd_surf p (unlink_child c) st)
      in upd_sub c (\<lambda>x. x\<lparr>ss_parent := None\<rparr>) st)"

text \<open>The destruction of a surface's resource: its subsurface goes, its children lose their parent.\<close>

definition surface_destroy :: "'w surface_env \<Rightarrow> nat \<Rightarrow> 'w scene \<Rightarrow> 'w scene" where
  "surface_destroy E s st =
     (let st = (case sf_sub (surf st s) of None \<Rightarrow> st | Some c \<Rightarrow> subsurface_destroy E c st);
          st = fold (handle_parent_destroy E) (sf_subs (surf st s)) st;
          st = upd_surf s (state_finalize Cached \<circ> state_finalize Pending \<circ> state_finalize Current) st
      in st\<lparr>live := removeAll s (live st)\<rparr>)"

end
