(* ===== verification/Subsurface_Tree.thy ===== *)
theory Subsurface_Tree
  imports Subsurface
begin

text \<open>
  The tree of surfaces: its invariant over every sequence of requests, the walks and commits that return, and what
  a commit does to the surfaces below.
\<close>

section \<open>Frames\<close>

text \<open>The links of the tree; \<open>pending_order\<close> is the order the client asked for.\<close>

definition pending_order :: "surface \<Rightarrow> nat list \<times> nat list" where
  "pending_order x = (st_below (pn_state (sf_pending x)), st_above (pn_state (sf_pending x)))"

definition same_tree :: "'w scene \<Rightarrow> 'w scene \<Rightarrow> bool" where
  "same_tree st st' \<longleftrightarrow> live st' = live st \<and> live_subs st' = live_subs st \<and>
     (\<forall>s. sf_sub (surf st' s) = sf_sub (surf st s) \<and> sf_subs (surf st' s) = sf_subs (surf st s) \<and>
        pending_order (surf st' s) = pending_order (surf st s)) \<and>
     (\<forall>c. ss_surface (sub st' c) = ss_surface (sub st c) \<and> ss_parent (sub st' c) = ss_parent (sub st c))"

text \<open>An operation that touches the views, the current order and the order flags of the subsurfaces at most.\<close>

definition quiet :: "'w scene \<Rightarrow> 'w scene \<Rightarrow> bool" where
  "quiet st st' \<longleftrightarrow> same_tree st st' \<and>
     (\<forall>s. latest (surf st' s) = latest (surf st s) \<and> sf_pending (surf st' s) = sf_pending (surf st s) \<and>
        sf_cached (surf st' s) = sf_cached (surf st s) \<and> sf_view (surf st' s) = sf_view (surf st s)) \<and>
     (\<forall>c. ss_pending (sub st' c) = ss_pending (sub st c) \<and> ss_sync (sub st' c) = ss_sync (sub st c))"

lemma same_tree_refl [simp]: "same_tree st st"
  by (simp add: same_tree_def)

lemma same_tree_trans: "same_tree a b \<Longrightarrow> same_tree b c \<Longrightarrow> same_tree a c"
  by (simp add: same_tree_def)

lemma quiet_refl [simp]: "quiet st st"
  by (simp add: quiet_def)

lemma quiet_trans: "quiet a b \<Longrightarrow> quiet b c \<Longrightarrow> quiet a c"
  by (simp add: quiet_def same_tree_def)

lemma upd_fields [simp]:
  "surf (upd_surf s f st) = (surf st)(s := f (surf st s))" "sub (upd_surf s f st) = sub st"
  "live (upd_surf s f st) = live st" "live_subs (upd_surf s f st) = live_subs st" "world (upd_surf s f st) = world st"
  "sub (upd_sub c g st) = (sub st)(c := g (sub st c))" "surf (upd_sub c g st) = surf st"
  "live (upd_sub c g st) = live st" "live_subs (upd_sub c g st) = live_subs st" "world (upd_sub c g st) = world st"
  "surf (on_world h st) = surf st" "sub (on_world h st) = sub st" "live (on_world h st) = live st"
  "live_subs (on_world h st) = live_subs st" "world (on_world h st) = h (world st)"
  by (simp_all add: upd_surf_def upd_sub_def on_world_def)

lemma quiet_world: "quiet st st' \<Longrightarrow> quiet st (on_world h st')"
  by (simp add: quiet_def same_tree_def)

lemma quiet_sub:
  assumes "quiet st st'" "\<And>x. ss_surface (g x) = ss_surface x" "\<And>x. ss_parent (g x) = ss_parent x"
    and "\<And>x. ss_pending (g x) = ss_pending x" "\<And>x. ss_sync (g x) = ss_sync x"
  shows "quiet st (upd_sub c g st')"
  using assms by (simp add: quiet_def same_tree_def)

lemma quiet_fold:
  assumes "\<And>x st. quiet st (f x st)"
  shows "quiet st (fold f xs st)"
  by (induction xs arbitrary: st) (auto intro: quiet_trans assms)

lemma quiet_position: "quiet st (subsurface_update_position E c st)"
  by (auto simp: subsurface_update_position_def quiet_world split: option.split prod.split)

lemma quiet_visibility: "quiet st (subsurface_update_visibility E c st)"
  by (auto simp: subsurface_update_visibility_def quiet_world split: option.split)

lemma quiet_restack: "quiet st (restack_children E over r cs st)"
  by (induction cs arbitrary: r st) (auto intro: quiet_trans [OF quiet_world [OF quiet_refl]] split: option.split)

lemma quiet_apply_position: "quiet st (apply_pending_position E cached c st)"
  unfolding apply_pending_position_def
  by (auto intro!: quiet_trans [OF quiet_sub [OF quiet_refl] quiet_position])

lemma quiet_positions: "quiet st (apply_pending_positions E p st)"
  unfolding apply_pending_positions_def by (rule quiet_fold) (rule quiet_apply_position)

lemma quiet_show: "quiet st (show_child E c st)"
  unfolding show_child_def by (rule quiet_trans [OF quiet_sub [OF quiet_refl] quiet_visibility]) simp_all

lemma quiet_take_dirty: "quiet st (snd (take_order_dirty p st))"
  unfolding take_order_dirty_def by (auto intro!: quiet_fold quiet_sub)

lemma quiet_current_order:
  "quiet st (upd_surf p (on_state Current (\<lambda>c. c\<lparr>st_below := b, st_above := a\<rparr>)) st)"
  by (simp add: quiet_def same_tree_def latest_def pending_order_def)

lemma quiet_parent_commit: "quiet st (subsurface_parent_commit E p st)"
proof -
  obtain dirty st1 where 1: "take_order_dirty p st = (dirty, st1)" by (cases "take_order_dirty p st")
  then have q: "quiet st st1" using quiet_take_dirty [of st p] by simp
  show ?thesis
  proof (cases dirty)
    case False
    then show ?thesis by (simp add: subsurface_parent_commit_def 1 quiet_trans [OF q quiet_positions])
  next
    case True
    define t where "t = slot_state (if applying_cached (surf st1 p) then Cached else Pending) (surf st1 p)"
    define st2 where "st2 = upd_surf p (on_state Current (\<lambda>c. c\<lparr>st_below := st_below t, st_above := st_above t\<rparr>)) st1"
    define st3 where "st3 = (case view_of E st2 p of None \<Rightarrow> st2
      | Some v \<Rightarrow> restack_children E True v (st_above t) (restack_children E False v (rev (st_below t)) st2))"
    have "quiet st1 st2" unfolding st2_def by (rule quiet_current_order)
    moreover have "quiet st2 st3"
      unfolding st3_def by (auto intro: quiet_trans quiet_restack split: option.split)
    moreover have "quiet st3 (fold (show_child E) (st_below t @ st_above t) (apply_pending_positions E p st3))"
      by (rule quiet_trans [OF quiet_positions quiet_fold [OF quiet_show]])
    moreover have "subsurface_parent_commit E p st = fold (show_child E) (st_below t @ st_above t) (apply_pending_positions E p st3)"
      using True by (simp only: subsurface_parent_commit_def 1 Let_def prod.case t_def st2_def st3_def not_True_eq_False if_False)
    ultimately show ?thesis using q quiet_trans by metis
  qed
qed

section \<open>Applying a commit\<close>

lemma latest_send [simp]: "latest (surf_send es x) = latest x"
  by (simp add: latest_def)

lemma links_below [simp]:
  "sf_sub (on_state l f x) = sf_sub x" "sf_subs (on_state l f x) = sf_subs x" "sf_view (on_state l f x) = sf_view x"
  "sf_sub (surf_send es x) = sf_sub x" "sf_subs (surf_send es x) = sf_subs x" "sf_view (surf_send es x) = sf_view x"
  "sf_sub (release_buffer n x) = sf_sub x" "sf_subs (release_buffer n x) = sf_subs x"
  "sf_view (release_buffer n x) = sf_view x"
  by (cases l; simp add: surf_send_def release_buffer_def)+

lemma links_assign [simp]:
  "sf_sub (state_assign_buffer l b r x) = sf_sub x" "sf_subs (state_assign_buffer l b r x) = sf_subs x"
  "sf_view (state_assign_buffer l b r x) = sf_view x"
  by (simp_all add: state_assign_buffer_def Let_def split: option.split)

lemma links_buffered [simp]:
  "sf_sub (buffered cached x) = sf_sub x" "sf_subs (buffered cached x) = sf_subs x" "sf_view (buffered cached x) = sf_view x"
  "sf_sub (rebuffered B w x) = sf_sub x" "sf_subs (rebuffered B w x) = sf_subs x" "sf_view (rebuffered B w x) = sf_view x"
  by (simp_all add: buffered_def apply_buffer_def rebuffered_def cache_buffer_def state_set_buffer_def Let_def split: option.split)

lemma link_ops [simp]:
  "sf_sub (apply_state cached x) = sf_sub x" "sf_subs (apply_state cached x) = sf_subs x"
  "sf_view (apply_state cached x) = sf_view x"
  "sf_sub (damage_and_trim cached sz sh x) = sf_sub x" "sf_subs (damage_and_trim cached sz sh x) = sf_subs x"
  "sf_view (damage_and_trim cached sz sh x) = sf_view x"
  "sf_sub (finish_commit B w cached x) = sf_sub x" "sf_subs (finish_commit B w cached x) = sf_subs x"
  "sf_view (finish_commit B w cached x) = sf_view x"
  "sf_sub (cache_pending B w x) = sf_sub x" "sf_subs (cache_pending B w x) = sf_subs x"
  "sf_view (cache_pending B w x) = sf_view x"
  unfolding apply_state_def cache_pending_def buffered_def [symmetric] rebuffered_def [symmetric] Let_def
  by (simp_all add: damage_and_trim_def finish_commit_def state_set_buffer_def Let_def)

lemma request_links [simp]:
  "sf_sub (run_request B w q x) = sf_sub x" "sf_subs (run_request B w q x) = sf_subs x"
  "sf_view (run_request B w q x) = sf_view x"
  by (cases q; simp add: attach_def damage_def frame_def set_opaque_region_def set_input_region_def set_buffer_transform_def
      set_buffer_scale_def damage_buffer_def set_window_geometry_def Let_def on_pending_def state_set_buffer_def
      split: option.split)+

lemma order_ops [simp]:
  "pending_order (surf_send es x) = pending_order x" "pending_order (apply_state cached x) = pending_order x"
  "pending_order (damage_and_trim cached sz sh x) = pending_order x"
  "pending_order (finish_commit B w cached x) = pending_order x" "pending_order (x\<lparr>applying_cached := b\<rparr>) = pending_order x"
  "pending_order (x\<lparr>sf_view := v\<rparr>) = pending_order x"
proof -
  show "pending_order (apply_state cached x) = pending_order x"
    by (cases cached) (simp_all add: pending_order_def apply_pending)
  show "pending_order (finish_commit B w cached x) = pending_order x"
    by (cases cached) (simp_all add: pending_order_def finish_commit_def state_set_buffer_def Let_def)
qed (simp_all add: pending_order_def damage_and_trim_def Let_def)

lemma order_requests [simp]:
  "pending_order (cache_pending B w x) = pending_order x" "pending_order (run_request B w q x) = pending_order x"
proof -
  obtain d where "sf_pending (cache_pending B w x) = (spent (sf_pending x))\<lparr>pn_state := (pn_state (spent (sf_pending x)))\<lparr>st_damage := d\<rparr>\<rparr>"
    using cache_spends [of B w x] by (auto simp: same_pending_def)
  then show "pending_order (cache_pending B w x) = pending_order x" by (simp add: pending_order_def spent_def)
  show "pending_order (run_request B w q x) = pending_order x"
    by (cases q) (simp_all add: pending_order_def split: option.split del: run_request.simps)
qed

text \<open>What \<open>apply_contents\<close> does: the links stay, the surface shows the new contents and its source is spent.\<close>

definition changes_only :: "nat \<Rightarrow> 'w scene \<Rightarrow> 'w scene \<Rightarrow> bool" where
  "changes_only s st st' \<longleftrightarrow> same_tree st st' \<and> sub st' = sub st \<and> (\<forall>t. t \<noteq> s \<longrightarrow> surf st' t = surf st t) \<and>
     sf_view (surf st' s) = sf_view (surf st s)"

lemma changes_only_surf:
  assumes "changes_only s st st'" "\<And>x. sf_sub (f x) = sf_sub x" "\<And>x. sf_subs (f x) = sf_subs x"
    "\<And>x. pending_order (f x) = pending_order x" "\<And>x. sf_view (f x) = sf_view x"
  shows "changes_only s st (upd_surf s f st')"
  using assms by (simp add: changes_only_def same_tree_def)

lemma changes_only_world: "changes_only s st st' \<Longrightarrow> changes_only s st (on_world h st')"
  by (simp add: changes_only_def same_tree_def)

definition presentable :: "'w surface_env \<Rightarrow> contents \<Rightarrow> bool" where
  "presentable E k \<longleftrightarrow> k_buffer k = None \<or>
     (\<forall>w. snd (logical_buffer (bufs E) w (k_buffer k) (k_scale k) (k_transform k)) \<noteq> None)"

lemma changes_only_refl [simp]: "changes_only s st st"
  by (simp add: changes_only_def)

lemma changes_only_trans: "changes_only s a b \<Longrightarrow> changes_only s b c \<Longrightarrow> changes_only s a c"
  by (auto simp: changes_only_def intro: same_tree_trans)

lemma show_contents_changes: "changes_only s st (show_contents E cached s refresh logical st)"
  unfolding show_contents_def Let_def
  by (rule changes_only_surf; (split option.split)?; simp add: changes_only_surf changes_only_world)

lemma show_contents_latest:
  "latest (surf (show_contents E cached s refresh logical st) s) = latest (surf st s)"
  by (simp add: show_contents_def Let_def split: option.split)

text \<open>The steps of \<open>apply_contents\<close>.\<close>

lemma apply_contents_changes: "changes_only s st (snd (apply_contents E cached s st))"
proof -
  define a where "a = upd_surf s (\<lambda>x. x\<lparr>applying_cached := cached\<rparr>) st"
  define b where "b = upd_surf s (apply_state cached) a"
  have a: "changes_only s st a" unfolding a_def by (rule changes_only_surf) simp_all
  have b: "changes_only s st b" unfolding b_def by (rule changes_only_surf [OF a]) simp_all
  define e where "e err = (case err of None \<Rightarrow> b | Some e \<Rightarrow> upd_surf s (surf_send [Surface_error e]) b)" for err
  have e: "changes_only s st (e err)" for err by (simp add: e_def b changes_only_surf split: option.split)
  note v = changes_only_trans [OF e show_contents_changes]
  show ?thesis
    unfolding apply_contents_def a_def [symmetric] b_def [symmetric] Let_def e_def [symmetric]
    by (simp add: a e v split: prod.split)
qed

lemma apply_contents_result:
  assumes "presentable E (change (source_of cached (surf st s)) (latest (surf st s)))"
    and "cached \<or> (\<forall>w r. buffer_read (bufs E) w r)"
  shows "fst (apply_contents E cached s st) \<and>
    latest (surf (snd (apply_contents E cached s st)) s) = change (source_of cached (surf st s)) (latest (surf st s))"
proof -
  define a where "a = upd_surf s (\<lambda>x. x\<lparr>applying_cached := cached\<rparr>) st"
  define b where "b = upd_surf s (apply_state cached) a"
  define k where "k = change (source_of cached (surf st s)) (latest (surf st s))"
  have "latest (surf a s) = latest (surf st s)" "source_of cached (surf a s) = source_of cached (surf st s)"
    by (cases cached; simp add: a_def latest_def)+
  then have k: "latest (surf b s) = k" by (simp add: b_def k_def latest_apply)
  define e where "e err = (case err of None \<Rightarrow> b | Some e \<Rightarrow> upd_surf s (surf_send [Surface_error e]) b)" for err
  have ke: "latest (surf (e err) s) = k" for err by (simp add: e_def k split: option.split)
  have f: "st_buffer (sf_state (surf b s)) = k_buffer k" "st_scale (sf_state (surf b s)) = k_scale k"
    "st_transform (sf_state (surf b s)) = k_transform k"
    by (simp_all add: k [symmetric] latest_def)
  have n: "k_buffer k = None \<or> logical_buffer (bufs E) w (k_buffer k) (k_scale k) (k_transform k) \<noteq> (x, None)" for w x
    using assms(1) unfolding presentable_def k_def [symmetric] by (metis snd_conv)
  have r: "cached \<or> commit_readable E s a" using assms(2) by (auto simp: commit_readable_def)
  show ?thesis
    unfolding apply_contents_def a_def [symmetric] b_def [symmetric] Let_def e_def [symmetric] f k_def [symmetric]
    using r n by (auto simp: show_contents_latest ke split: prod.split; metis)
qed

section \<open>The tree\<close>

definition child_of :: "'w scene \<Rightarrow> (nat \<times> nat) set" where
  "child_of st = {(s, p). s \<in> set (live st) \<and> surface_parent st s = Some p}"

definition tree_ok :: "'w scene \<Rightarrow> bool" where
  "tree_ok st \<longleftrightarrow>
     (\<forall>c \<in> set (live_subs st). ss_surface (sub st c) \<in> set (live st) \<and> sf_sub (surf st (ss_surface (sub st c))) = Some c \<and>
        (\<forall>p. ss_parent (sub st c) = Some p \<longrightarrow> p \<in> set (live st) \<and> c \<in> set (sf_subs (surf st p)))) \<and>
     (\<forall>s \<in> set (live st). (\<forall>c. sf_sub (surf st s) = Some c \<longrightarrow> c \<in> set (live_subs st) \<and> ss_surface (sub st c) = s) \<and>
        (\<forall>c \<in> set (sf_subs (surf st s)). c \<in> set (live_subs st) \<and> ss_parent (sub st c) = Some s) \<and>
        distinct (sf_subs (surf st s)) \<and>
        distinct (fst (pending_order (surf st s)) @ snd (pending_order (surf st s))) \<and>
        set (fst (pending_order (surf st s)) @ snd (pending_order (surf st s))) = set (sf_subs (surf st s))) \<and>
     acyclic (child_of st)"

lemma same_tree_parent:
  assumes "same_tree st st'"
  shows "surface_parent st' = surface_parent st" "sub_parent st' = sub_parent st" "child_of st' = child_of st"
proof -
  show p: "surface_parent st' = surface_parent st" "sub_parent st' = sub_parent st"
    using assms by (auto simp: same_tree_def surface_parent_def sub_parent_def fun_eq_iff split: option.split)
  show "child_of st' = child_of st" using assms p by (simp add: child_of_def same_tree_def)
qed

lemma same_tree_ok:
  assumes "same_tree st st'"
  shows "tree_ok st' \<longleftrightarrow> tree_ok st"
  using assms same_tree_parent(3) [OF assms] by (simp add: tree_ok_def same_tree_def)

lemma tree_sub:
  assumes "tree_ok st" "c \<in> set (live_subs st)"
  shows "ss_surface (sub st c) \<in> set (live st)" "sf_sub (surf st (ss_surface (sub st c))) = Some c"
    "ss_parent (sub st c) = Some p \<Longrightarrow> p \<in> set (live st)" "ss_parent (sub st c) = Some p \<Longrightarrow> c \<in> set (sf_subs (surf st p))"
  using assms unfolding tree_ok_def by blast+

lemma tree_surf:
  assumes "tree_ok st" "s \<in> set (live st)"
  shows "sf_sub (surf st s) = Some c \<Longrightarrow> c \<in> set (live_subs st)" "sf_sub (surf st s) = Some c \<Longrightarrow> ss_surface (sub st c) = s"
    "d \<in> set (sf_subs (surf st s)) \<Longrightarrow> d \<in> set (live_subs st)" "d \<in> set (sf_subs (surf st s)) \<Longrightarrow> ss_parent (sub st d) = Some s"
    "distinct (sf_subs (surf st s))" "distinct (fst (pending_order (surf st s)) @ snd (pending_order (surf st s)))"
    "set (fst (pending_order (surf st s)) @ snd (pending_order (surf st s))) = set (sf_subs (surf st s))"
  using assms unfolding tree_ok_def by blast+

lemma surface_parent_live:
  assumes "tree_ok st" "s \<in> set (live st)" "surface_parent st s = Some p"
  shows "p \<in> set (live st)"
proof -
  obtain c where c: "sf_sub (surf st s) = Some c" "ss_parent (sub st c) = Some p"
    using assms(3) by (auto simp: surface_parent_def split: option.splits)
  show ?thesis by (rule tree_sub(3) [OF assms(1) tree_surf(1) [OF assms(1,2) c(1)] c(2)])
qed

lemma child_of_wf:
  assumes "tree_ok st"
  shows "wf ((child_of st)\<inverse>)"
proof -
  have "child_of st \<subseteq> set (live st) \<times> set (live st)"
    using surface_parent_live [OF assms] by (auto simp: child_of_def)
  then have "finite (child_of st)" by (rule finite_subset) simp
  moreover have "acyclic (child_of st)" using assms unfolding tree_ok_def by blast
  ultimately show ?thesis by (rule finite_acyclic_wf_converse)
qed

text \<open>A subsurface is synchronized when it or one it descends from is.\<close>

lemma sub_parent_step:
  assumes "tree_ok st" "c \<in> set (live_subs st)" "sub_parent st c = Some d"
  shows "d \<in> set (live_subs st)" "(ss_surface (sub st c), ss_surface (sub st d)) \<in> child_of st"
proof -
  obtain p where p: "ss_parent (sub st c) = Some p" "sf_sub (surf st p) = Some d"
    using assms(3) by (auto simp: sub_parent_def split: option.splits)
  note q = tree_sub(1,2) [OF assms(1,2)] tree_sub(3) [OF assms(1,2) p(1)]
  note d = tree_surf(1,2) [OF assms(1) q(3) p(2)]
  then show "d \<in> set (live_subs st)" "(ss_surface (sub st c), ss_surface (sub st d)) \<in> child_of st"
    using p q by (simp_all add: child_of_def surface_parent_def)
qed

lemma synchronized_returns:
  assumes "tree_ok st" "c \<in> set (live_subs st)"
  shows "\<exists>b. subsurface_is_synchronized st c = Some b"
  using assms(2)
proof (induction "ss_surface (sub st c)" arbitrary: c rule: wf_induct_rule [OF child_of_wf [OF assms(1)]])
  case 1
  show ?case
  proof (cases "ss_sync (sub st c) \<or> sub_parent st c = None")
    case True
    then show ?thesis
      by (auto simp: subsurface_is_synchronized_def sync_loop.simps [of _ _ "Some c"] sync_loop.simps [of _ _ None])
  next
    case False
    then obtain d where d: "sub_parent st c = Some d" by blast
    have "\<exists>b. subsurface_is_synchronized st d = Some b"
      by (rule "1.hyps") (use sub_parent_step [OF assms(1) "1.prems" d] in simp_all)
    then show ?thesis using False d
      by (simp add: subsurface_is_synchronized_def sync_loop.simps [of _ _ "Some c"])
  qed
qed

lemma same_synchronized:
  assumes "same_tree st st'" "\<And>c. ss_sync (sub st' c) = ss_sync (sub st c)"
  shows "subsurface_is_synchronized st' c = subsurface_is_synchronized st c"
  using assms(2) same_tree_parent(2) [OF assms(1)] by (simp add: subsurface_is_synchronized_def)

section \<open>Commits return\<close>

text \<open>The subsurfaces whose cached commit waits: each round of the work takes one away.\<close>

definition waiting :: "'w scene \<Rightarrow> nat set" where
  "waiting st = {c \<in> set (live_subs st). ss_pending (sub st c)}"

lemma finite_waiting [simp]: "finite (waiting st)"
  by (simp add: waiting_def)

text \<open>The links and who is synchronized: all a commit keeps.\<close>

definition keeps_tree :: "'w scene \<Rightarrow> 'w scene \<Rightarrow> bool" where
  "keeps_tree st st' \<longleftrightarrow> same_tree st st' \<and> (\<forall>c. ss_sync (sub st' c) = ss_sync (sub st c))"

lemma keeps_refl [simp]: "keeps_tree st st"
  by (simp add: keeps_tree_def)

lemma keeps_trans: "keeps_tree a b \<Longrightarrow> keeps_tree b c \<Longrightarrow> keeps_tree a c"
  by (auto simp: keeps_tree_def intro: same_tree_trans)

lemma keeps_quiet: "quiet st st' \<Longrightarrow> keeps_tree st st'"
  by (simp add: keeps_tree_def quiet_def)

lemma keeps_changes: "changes_only s st st' \<Longrightarrow> keeps_tree st st'"
  by (simp add: keeps_tree_def changes_only_def)

lemma keeps_ok: "keeps_tree st st' \<Longrightarrow> tree_ok st' \<longleftrightarrow> tree_ok st"
  by (simp add: keeps_tree_def same_tree_ok)

lemma keeps_synchronized:
  "keeps_tree st st' \<Longrightarrow> subsurface_is_synchronized st' c = subsurface_is_synchronized st c"
  by (simp add: keeps_tree_def same_synchronized)

lemma keeps_fields:
  assumes "keeps_tree st st'"
  shows "live_subs st' = live_subs st" "live st' = live st" "sf_sub (surf st' s) = sf_sub (surf st s)"
    "sf_subs (surf st' s) = sf_subs (surf st s)" "ss_surface (sub st' c) = ss_surface (sub st c)"
    "ss_parent (sub st' c) = ss_parent (sub st c)" "ss_sync (sub st' c) = ss_sync (sub st c)"
  using assms by (simp_all add: keeps_tree_def same_tree_def)

text \<open>\<open>apply_tree\<close> forgets that the subsurface of the surface waits, and is quiet otherwise.\<close>

definition no_longer_waits :: "nat \<Rightarrow> 'w scene \<Rightarrow> 'w scene" where
  "no_longer_waits s st = (case sf_sub (surf st s) of None \<Rightarrow> st
     | Some c \<Rightarrow> upd_sub c (\<lambda>x. x\<lparr>ss_pending := False\<rparr>) st)"

lemma apply_tree_quiet: "quiet (no_longer_waits s st) (apply_tree E s st)"
  unfolding apply_tree_def Let_def no_longer_waits_def
  by (rule quiet_world) (auto intro: quiet_trans [OF quiet_visibility quiet_parent_commit] quiet_parent_commit split: option.split)

lemma keeps_no_longer: "keeps_tree st (no_longer_waits s st)"
  by (simp add: keeps_tree_def same_tree_def no_longer_waits_def split: option.split)

lemma keeps_apply_one: "keeps_tree st (snd (apply_one E cached s st))"
proof -
  obtain ok st1 where 1: "apply_contents E cached s st = (ok, st1)" by (cases "apply_contents E cached s st")
  have k: "keeps_tree st st1" using keeps_changes [OF apply_contents_changes [where s = s and st = st and E = E and cached = cached]] by (simp add: 1)
  have "keeps_tree st1 (apply_tree E s st1)"
    by (rule keeps_trans [OF keeps_no_longer keeps_quiet [OF apply_tree_quiet]])
  then show ?thesis using k keeps_trans by (simp add: apply_one_def 1) blast
qed

lemma apply_one_pending:
  "ss_pending (sub (snd (apply_one E cached s st)) c) \<longleftrightarrow>
     ss_pending (sub st c) \<and> \<not> (fst (apply_one E cached s st) \<and> sf_sub (surf st s) = Some c)"
proof -
  obtain ok st1 where 1: "apply_contents E cached s st = (ok, st1)" by (cases "apply_contents E cached s st")
  have s: "sub st1 = sub st" "sf_sub (surf st1 s) = sf_sub (surf st s)"
    using apply_contents_changes [where s = s and st = st and E = E and cached = cached]
    by (simp_all add: 1 changes_only_def same_tree_def)
  have "ss_pending (sub (apply_tree E s st1) c) = ss_pending (sub (no_longer_waits s st1) c)"
    using apply_tree_quiet [where s = s and st = st1 and E = E] by (simp add: quiet_def)
  then show ?thesis by (auto simp: apply_one_def 1 s no_longer_waits_def split: option.split)
qed

lemma waiting_less:
  assumes "tree_ok st" "c \<in> set (live_subs st)" "ss_pending (sub st c)" "fst (apply_one E cached (ss_surface (sub st c)) st)"
  shows "card (waiting (snd (apply_one E cached (ss_surface (sub st c)) st))) < card (waiting st)"
proof (rule psubset_card_mono)
  have "live_subs (snd (apply_one E cached (ss_surface (sub st c)) st)) = live_subs st" by (rule keeps_fields [OF keeps_apply_one])
  then show "waiting (snd (apply_one E cached (ss_surface (sub st c)) st)) \<subset> waiting st"
    using assms tree_sub(2) [OF assms(1,2)] by (auto simp: waiting_def apply_one_pending)
qed simp

lemma waiting_le:
  "card (waiting (snd (apply_one E cached s st))) \<le> card (waiting st)"
proof (rule card_mono)
  have "live_subs (snd (apply_one E cached s st)) = live_subs st" by (rule keeps_fields [OF keeps_apply_one])
  then show "waiting (snd (apply_one E cached s st)) \<subseteq> waiting st" by (auto simp: waiting_def apply_one_pending)
qed simp

definition work_ok :: "work list \<Rightarrow> 'w scene \<Rightarrow> bool" where
  "work_ok ws st \<longleftrightarrow> (\<forall>c. Child c \<in> set ws \<longrightarrow> c \<in> set (live_subs st))"

lemma work_ok_next:
  assumes "tree_ok st" "s \<in> set (live st)" "work_ok ws st"
  shows "work_ok (next_work (apply_one E cached s st) s @ ws) (snd (apply_one E cached s st))"
proof -
  have k: "live_subs (snd (apply_one E cached s st)) = live_subs st"
    "sf_subs (surf (snd (apply_one E cached s st)) s) = sf_subs (surf st s)"
    by (rule keeps_fields [OF keeps_apply_one])+
  show ?thesis using assms(3) tree_surf(3) [OF assms(1,2)]
    by (auto simp: work_ok_def next_work_def children_work_def k)
qed

lemma finish_surface_quiet: "quiet st (upd_surf s (\<lambda>x. x\<lparr>applying_cached := b\<rparr>) st)"
  by (simp add: quiet_def same_tree_def latest_def)

lemma quiet_waiting: "quiet st st' \<Longrightarrow> waiting st' = waiting st"
  by (simp add: waiting_def quiet_def same_tree_def)

text \<open>The rounds of the work, as an induction rule.\<close>

lemma flush_induct [consumes 2, case_names Nil Finished Skip Failed Applied]:
  assumes "tree_ok st" "work_ok ws st"
    and nil: "\<And>st. tree_ok st \<Longrightarrow> P [] st st"
    and finished: "\<And>s ws st r. \<lbrakk>tree_ok st; work_ok ws st;
      P ws (upd_surf s (\<lambda>x. x\<lparr>applying_cached := False\<rparr>) st) r\<rbrakk> \<Longrightarrow> P (Done s # ws) st r"
    and skip: "\<And>c ws st r. \<lbrakk>tree_ok st; work_ok (Child c # ws) st;
      \<not> ss_pending (sub st c) \<or> subsurface_is_synchronized st c = Some False; P ws st r\<rbrakk> \<Longrightarrow> P (Child c # ws) st r"
    and failed: "\<And>c ws st r. \<lbrakk>tree_ok st; work_ok (Child c # ws) st; ss_pending (sub st c);
      subsurface_is_synchronized st c = Some True; \<not> fst (apply_one E True (ss_surface (sub st c)) st);
      P ws (snd (apply_one E True (ss_surface (sub st c)) st)) r\<rbrakk> \<Longrightarrow> P (Child c # ws) st r"
    and applied: "\<And>c ws st st' r. \<lbrakk>tree_ok st; work_ok (Child c # ws) st; ss_pending (sub st c);
      subsurface_is_synchronized st c = Some True; apply_one E True (ss_surface (sub st c)) st = (True, st');
      P (children_work st' (ss_surface (sub st c)) @ ws) st' r\<rbrakk> \<Longrightarrow> P (Child c # ws) st r"
  shows "\<exists>st'. flush_work E ws st = Some st' \<and> P ws st st'"
  using assms(1,2)
proof (induction "(ws, st)" arbitrary: ws st rule: wf_induct_rule
    [OF wf_measures [of "[\<lambda>(ws, st). card (waiting st), \<lambda>(ws, st). length ws]"]])
  case 1
  show ?case
  proof (cases ws)
    case Nil
    then show ?thesis using nil [OF 1(2)] by (simp add: flush_work.simps [of E "[]"])
  next
    case (Cons w rest)
    have rest: "work_ok rest st" using 1(3) by (simp add: work_ok_def Cons)
    show ?thesis
    proof (cases w)
      case (Done s)
      let ?st = "upd_surf s (\<lambda>x. x\<lparr>applying_cached := False\<rparr>) st"
      have q: "quiet st ?st" by (rule finish_surface_quiet)
      then have "tree_ok ?st" "work_ok rest ?st" "waiting ?st = waiting st"
        using 1(2) rest keeps_ok [OF keeps_quiet [OF q]] quiet_waiting [OF q] by (simp_all add: work_ok_def)
      moreover from this have "((rest, ?st), (ws, st)) \<in> measures [\<lambda>(ws, st). card (waiting st), \<lambda>(ws, st). length ws]"
        by (simp add: Cons)
      ultimately obtain st' where "flush_work E rest ?st = Some st'" "P rest ?st st'" using 1(1) by blast
      then show ?thesis using finished [OF 1(2) rest] by (simp add: Cons Done flush_work.simps [of E "Done s # rest"])
    next
      case (Child c)
      have c: "c \<in> set (live_subs st)" using 1(3) by (simp add: work_ok_def Cons Child)
      have wk: "work_ok (Child c # rest) st" using 1(3) by (simp add: Cons Child)
      obtain b where b: "subsurface_is_synchronized st c = Some b" using synchronized_returns [OF 1(2) c] by blast
      show ?thesis
      proof (cases "ss_pending (sub st c) \<and> b")
        case False
        have "((rest, st), (ws, st)) \<in> measures [\<lambda>(ws, st). card (waiting st), \<lambda>(ws, st). length ws]" by (simp add: Cons)
        then obtain st' where "flush_work E rest st = Some st'" "P rest st st'" using 1(1,2) rest by blast
        moreover from False b have "\<not> ss_pending (sub st c) \<or> subsurface_is_synchronized st c = Some False" by auto
        ultimately show ?thesis
          using skip [OF 1(2) wk] False b by (auto simp: Cons Child flush_work.simps [of E "Child c # rest"])
      next
        case True
        let ?s = "ss_surface (sub st c)"
        obtain ok st1 where 2: "apply_one E True ?s st = (ok, st1)" by (cases "apply_one E True ?s st")
        have k: "tree_ok st1" 
          using keeps_ok [OF keeps_apply_one [where st = st and E = E and cached = True and s = ?s]] 1(2) by (simp add: 2)
        have n: "work_ok (next_work (ok, st1) ?s @ rest) st1"
          using work_ok_next [OF 1(2) tree_sub(1) [OF 1(2) c] rest, of E True] by (simp add: 2)
        have f: "flush_work E ws st = flush_work E (next_work (ok, st1) ?s @ rest) st1"
          using True b by (simp add: Cons Child flush_work.simps [of E "Child c # rest"] 2)
        have "((next_work (ok, st1) ?s @ rest, st1), (ws, st)) \<in>
          measures [\<lambda>(ws, st). card (waiting st), \<lambda>(ws, st). length ws]"
          using waiting_less [OF 1(2) c, of E True] waiting_le [of E True ?s st] True
          by (cases ok) (auto simp: 2 Cons next_work_def)
        then obtain st' where 3: "flush_work E (next_work (ok, st1) ?s @ rest) st1 = Some st'"
          "P (next_work (ok, st1) ?s @ rest) st1 st'" using 1(1) k n by blast
        have "P (Child c # rest) st st'"
        proof (cases ok)
          case ok: True
          show ?thesis by (rule applied [OF 1(2) wk]) (use True b 2 3(2) ok in \<open>simp_all add: next_work_def\<close>)
        next
          case ok: False
          show ?thesis by (rule failed [OF 1(2) wk]) (use True b 2 3(2) ok in \<open>simp_all add: next_work_def\<close>)
        qed
        then show ?thesis using f 3(1) by (simp add: Cons Child)
      qed
    qed
  qed
qed

section \<open>What a commit applies\<close>

text \<open>A subsurface that does not wait for its parent to commit.\<close>

definition settled :: "'w scene \<Rightarrow> nat \<Rightarrow> bool" where
  "settled st c \<longleftrightarrow> \<not> (ss_pending (sub st c) \<and> subsurface_is_synchronized st c = Some True)"

definition untouched :: "'w scene \<Rightarrow> 'w scene \<Rightarrow> nat \<Rightarrow> bool" where
  "untouched st st' t \<longleftrightarrow> latest (surf st' t) = latest (surf st t) \<and> sf_cached (surf st' t) = sf_cached (surf st t) \<and>
     (\<forall>c. sf_sub (surf st t) = Some c \<longrightarrow> ss_pending (sub st' c) = ss_pending (sub st c))"

definition cache_applied :: "'w scene \<Rightarrow> 'w scene \<Rightarrow> nat \<Rightarrow> bool" where
  "cache_applied st st' t \<longleftrightarrow> (\<exists>c. sf_sub (surf st t) = Some c \<and> ss_pending (sub st c) \<and> \<not> ss_pending (sub st' c)) \<and>
     latest (surf st' t) = cached_contents (surf st t) \<and> (\<forall>d \<in> set (sf_subs (surf st t)). settled st' d)"

definition flushed :: "work list \<Rightarrow> 'w scene \<Rightarrow> 'w scene \<Rightarrow> bool" where
  "flushed ws st st' \<longleftrightarrow> keeps_tree st st' \<and> (\<forall>t \<in> set (live st). untouched st st' t \<or> cache_applied st st' t) \<and>
     (\<forall>c. Child c \<in> set ws \<longrightarrow> settled st' c)"

definition caches_presentable :: "'w surface_env \<Rightarrow> 'w scene \<Rightarrow> bool" where
  "caches_presentable E st \<longleftrightarrow> (\<forall>c \<in> waiting st. presentable E (cached_contents (surf st (ss_surface (sub st c)))))"

lemma settled_iff: "settled st c \<longleftrightarrow> \<not> ss_pending (sub st c) \<or> subsurface_is_synchronized st c \<noteq> Some True"
  by (auto simp: settled_def)

text \<open>A surface that kept its state so far.\<close>

lemma untouched_then:
  assumes "untouched a b t" "keeps_tree a b" "untouched b c t \<or> cache_applied b c t"
  shows "untouched a c t \<or> cache_applied a c t"
  using assms keeps_fields(3,4) [OF assms(2), of t]
  by (auto simp: untouched_def cache_applied_def cached_contents_def)

lemma quiet_untouched: "quiet st st' \<Longrightarrow> untouched st st' t"
  by (simp add: quiet_def untouched_def)

lemma flushed_quiet:
  assumes "quiet st st1" "flushed ws st1 st'"
  shows "flushed ws st st'"
  unfolding flushed_def
proof (intro conjI)
  have k: "keeps_tree st st1" by (rule keeps_quiet [OF assms(1)])
  then show "keeps_tree st st'" using assms(2) keeps_trans by (auto simp: flushed_def)
  show "\<forall>t \<in> set (live st). untouched st st' t \<or> cache_applied st st' t"
    using untouched_then [OF quiet_untouched [OF assms(1)] k] assms(2) keeps_fields(2) [OF k] by (auto simp: flushed_def)
  show "\<forall>c. Child c \<in> set ws \<longrightarrow> settled st' c" using assms(2) by (simp add: flushed_def)
qed

lemma quiet_presentable:
  assumes "quiet st st1"
  shows "caches_presentable E st1 \<longleftrightarrow> caches_presentable E st"
proof -
  have "ss_surface (sub st1 c) = ss_surface (sub st c)" "cached_contents (surf st1 t) = cached_contents (surf st t)" for c t
    using assms by (simp_all add: quiet_def same_tree_def cached_contents_def)
  then show ?thesis by (simp add: caches_presentable_def quiet_waiting [OF assms])
qed

text \<open>One surface applied.\<close>

lemma apply_one_others:
  assumes "t \<noteq> s" "sf_sub (surf st s) \<noteq> sf_sub (surf st t) \<or> sf_sub (surf st t) = None"
  shows "untouched st (snd (apply_one E cached s st)) t"
proof -
  obtain ok st1 where 1: "apply_contents E cached s st = (ok, st1)" by (cases "apply_contents E cached s st")
  have c: "surf st1 t = surf st t" "sub st1 = sub st" "sf_sub (surf st1 s) = sf_sub (surf st s)"
    using apply_contents_changes [where s = s and st = st and E = E and cached = cached] assms(1)
    by (simp_all add: 1 changes_only_def same_tree_def)
  have "surf (no_longer_waits s st1) = surf st1" by (simp add: no_longer_waits_def split: option.split)
  then have q: "latest (surf (apply_tree E s st1) t) = latest (surf st t)" "sf_cached (surf (apply_tree E s st1) t) = sf_cached (surf st t)"
    using apply_tree_quiet [where s = s and st = st1 and E = E] by (simp_all add: quiet_def c)
  then have "latest (surf (snd (apply_one E cached s st)) t) = latest (surf st t)"
    "sf_cached (surf (snd (apply_one E cached s st)) t) = sf_cached (surf st t)"
    by (simp_all add: apply_one_def 1 c)
  moreover have "ss_pending (sub (snd (apply_one E cached s st)) c) = ss_pending (sub st c)" if "sf_sub (surf st t) = Some c" for c
    unfolding apply_one_pending using assms(2) that by auto
  ultimately show ?thesis by (simp add: untouched_def)
qed

lemma apply_one_latest:
  assumes "presentable E (change (source_of cached (surf st s)) (latest (surf st s)))"
    and "cached \<or> (\<forall>w r. buffer_read (bufs E) w r)"
  shows "fst (apply_one E cached s st)"
    "latest (surf (snd (apply_one E cached s st)) s) = change (source_of cached (surf st s)) (latest (surf st s))"
proof -
  obtain ok st1 where 1: "apply_contents E cached s st = (ok, st1)" by (cases "apply_contents E cached s st")
  have r: "ok" "latest (surf st1 s) = change (source_of cached (surf st s)) (latest (surf st s))"
    using apply_contents_result [OF assms] by (simp_all add: 1)
  have "surf (no_longer_waits s st1) = surf st1" by (simp add: no_longer_waits_def split: option.split)
  then have "latest (surf (apply_tree E s st1) s) = latest (surf st1 s)"
    using apply_tree_quiet [where s = s and st = st1 and E = E] by (simp add: quiet_def)
  then show "fst (apply_one E cached s st)"
    "latest (surf (snd (apply_one E cached s st)) s) = change (source_of cached (surf st s)) (latest (surf st s))"
    using r by (simp_all add: apply_one_def 1)
qed

lemma apply_one_presentable:
  assumes "tree_ok st" "s \<in> set (live st)" "caches_presentable E st" "fst (apply_one E cached s st)"
  shows "caches_presentable E (snd (apply_one E cached s st))"
  unfolding caches_presentable_def
proof
  let ?st = "snd (apply_one E cached s st)"
  note k = keeps_fields [OF keeps_apply_one [where st = st and E = E and cached = cached and s = s]]
  fix c
  assume "c \<in> waiting ?st"
  then have c: "c \<in> waiting st" "sf_sub (surf st s) \<noteq> Some c"
    using assms(4) by (auto simp: waiting_def k apply_one_pending)
  let ?t = "ss_surface (sub st c)"
  have l: "c \<in> set (live_subs st)" using c(1) by (simp add: waiting_def)
  have t2: "sf_sub (surf st ?t) = Some c" by (rule tree_sub(2) [OF assms(1) l])
  then have t1: "?t \<noteq> s" using c(2) by metis
  have "untouched st ?st ?t" by (rule apply_one_others [OF t1]) (metis t2 c(2))
  then have "cached_contents (surf ?st ?t) = cached_contents (surf st ?t)" by (simp add: untouched_def cached_contents_def)
  then show "presentable E (cached_contents (surf ?st (ss_surface (sub ?st c))))"
    using assms(3) c(1) unfolding caches_presentable_def k by simp
qed

lemma flush_flushed:
  assumes "tree_ok st" "work_ok ws st" "caches_presentable E st"
  shows "\<exists>st'. flush_work E ws st = Some st' \<and> flushed ws st st'"
proof -
  have "\<exists>st'. flush_work E ws st = Some st' \<and> (caches_presentable E st \<longrightarrow> flushed ws st st')"
    using assms(1,2)
  proof (induction rule: flush_induct)
    case (Nil st)
    then show ?case by (simp add: flushed_def untouched_def)
  next
    case (Finished s ws st r)
    have q: "quiet st (upd_surf s (\<lambda>x. x\<lparr>applying_cached := False\<rparr>) st)" by (rule finish_surface_quiet)
    show ?case
    proof
      assume "caches_presentable E st"
      then have "flushed ws (upd_surf s (\<lambda>x. x\<lparr>applying_cached := False\<rparr>) st) r"
        using Finished.hyps(3) quiet_presentable [OF q] by blast
      then have "flushed ws st r" by (rule flushed_quiet [OF q])
      then show "flushed (Done s # ws) st r" by (simp add: flushed_def)
    qed
  next
    case (Skip c ws st r)
    show ?case
    proof
      assume "caches_presentable E st"
      then have f: "flushed ws st r" using Skip.hyps(4) by blast
      then have k: "keeps_tree st r" by (simp add: flushed_def)
      have l: "c \<in> set (live_subs st)" using Skip.hyps(2) by (simp add: work_ok_def)
      have "settled r c"
      proof (cases "ss_pending (sub st c)")
        case True
        then show ?thesis using Skip.hyps(3) by (simp add: settled_iff keeps_synchronized [OF k])
      next
        case False
        have "untouched st r (ss_surface (sub st c)) \<or> cache_applied st r (ss_surface (sub st c))"
          using f tree_sub(1) [OF Skip.hyps(1) l] by (simp add: flushed_def)
        then show ?thesis using False tree_sub(2) [OF Skip.hyps(1) l]
          by (auto simp: settled_iff untouched_def cache_applied_def)
      qed
      then show "flushed (Child c # ws) st r" using f by (auto simp: flushed_def)
    qed
  next
    case (Failed c ws st r)
    show ?case
    proof
      assume p: "caches_presentable E st"
      have "c \<in> waiting st" using Failed.hyps(2,3) by (simp add: waiting_def work_ok_def)
      then have "fst (apply_one E True (ss_surface (sub st c)) st)"
        using p by (intro apply_one_latest) (simp_all add: caches_presentable_def cached_contents_def)
      then show "flushed (Child c # ws) st r" using Failed.hyps(5) by blast
    qed
  next
    case (Applied c ws st st1 r)
    let ?s = "ss_surface (sub st c)"
    show ?case
    proof
      assume p: "caches_presentable E st"
      have l: "c \<in> set (live_subs st)" using Applied.hyps(2) by (simp add: work_ok_def)
      have w: "c \<in> waiting st" using l Applied.hyps(3) by (simp add: waiting_def)
      note t = tree_sub(1,2) [OF Applied.hyps(1) l]
      have a: "fst (apply_one E True ?s st)" "st1 = snd (apply_one E True ?s st)" using Applied.hyps(5) by simp_all
      have "latest (surf st1 ?s) = change (source_of True (surf st ?s)) (latest (surf st ?s))"
        unfolding a(2) using p w by (intro apply_one_latest) (simp_all add: caches_presentable_def cached_contents_def)
      then have new: "latest (surf st1 ?s) = cached_contents (surf st ?s)" by (simp add: cached_contents_def)
      have k1: "keeps_tree st st1" unfolding a(2) by (rule keeps_apply_one)
      have np: "\<not> ss_pending (sub st1 c)" unfolding a(2) apply_one_pending using a(1) t(2) by simp
      have f: "flushed (children_work st1 ?s @ ws) st1 r"
        using Applied.hyps(6) apply_one_presentable [OF Applied.hyps(1) t(1) p a(1)] by (simp add: a(2))
      have k: "keeps_tree st1 r" using f by (simp add: flushed_def)
      have "untouched st1 r ?s"
      proof -
        have "untouched st1 r ?s \<or> cache_applied st1 r ?s" using f t(1) keeps_fields(2) [OF k1] by (simp add: flushed_def)
        then show ?thesis using np t(2) keeps_fields(3) [OF k1, of ?s] by (auto simp: cache_applied_def)
      qed
      then have u: "latest (surf r ?s) = cached_contents (surf st ?s)" "\<not> ss_pending (sub r c)"
        using new np t(2) keeps_fields(3) [OF k1, of ?s] by (auto simp: untouched_def)
      have "\<forall>d \<in> set (sf_subs (surf st ?s)). settled r d"
        using f keeps_fields(4) [OF k1, of ?s] by (auto simp: flushed_def children_work_def)
      then have "cache_applied st r ?s" using u t(2) Applied.hyps(3) by (auto simp: cache_applied_def)
      moreover have "untouched st r x \<or> cache_applied st r x" if x: "x \<in> set (live st)" "x \<noteq> ?s" for x
      proof (rule untouched_then [OF _ k1])
        have "sf_sub (surf st x) \<noteq> Some c"
          using x(2) tree_surf(2) [OF Applied.hyps(1) x(1)] by metis
        then show "untouched st st1 x" unfolding a(2) by (intro apply_one_others [OF x(2)]) (simp add: t(2) eq_commute)
        show "untouched st1 r x \<or> cache_applied st1 r x" using f x(1) keeps_fields(2) [OF k1] by (simp add: flushed_def)
      qed
      ultimately have "\<forall>x \<in> set (live st). untouched st r x \<or> cache_applied st r x" by blast
      moreover have "settled r c" using u(2) by (simp add: settled_def)
      ultimately show "flushed (Child c # ws) st r" using f keeps_trans [OF k1 k] by (auto simp: flushed_def)
    qed
  qed
  then show ?thesis using assms(3) by blast
qed

end
