(* ===== verification/Subsurface_Links.thy ===== *)
theory Subsurface_Links
  imports Subsurface_Tree
begin

text \<open>
  Every operation on surfaces and subsurfaces keeps the links of the tree: what each one changes of them.
\<close>

section \<open>Changes of the links\<close>

text \<open>The tree invariant only looks at the links of what is alive.\<close>

lemma tree_links:
  assumes "tree_ok st" "live st' = live st" "live_subs st' = live_subs st"
    and "\<And>s. sf_sub (surf st' s) = sf_sub (surf st s)" "\<And>s. sf_subs (surf st' s) = sf_subs (surf st s)"
    and "\<And>s. pending_order (surf st' s) = pending_order (surf st s)"
    and "\<And>c. c \<in> set (live_subs st) \<Longrightarrow> ss_surface (sub st' c) = ss_surface (sub st c) \<and> ss_parent (sub st' c) = ss_parent (sub st c)"
  shows "tree_ok st'"
proof -
  have "surface_parent st' s = surface_parent st s" if "s \<in> set (live st)" for s
    using assms(4,7) tree_surf(1) [OF assms(1) that]
    by (simp add: surface_parent_def split: option.split)
  then have "child_of st' = child_of st" using assms(2) by (auto simp: child_of_def)
  then have a: "acyclic (child_of st')" using assms(1) unfolding tree_ok_def by simp
  note e = assms(2-6)
  show ?thesis
    unfolding tree_ok_def e
  proof (intro conjI ballI)
    fix c
    assume c: "c \<in> set (live_subs st)"
    have d: "ss_surface (sub st' c) = ss_surface (sub st c)" "ss_parent (sub st' c) = ss_parent (sub st c)"
      using assms(7) [OF c] by simp_all
    show "ss_surface (sub st' c) \<in> set (live st)" "sf_sub (surf st (ss_surface (sub st' c))) = Some c"
      "\<forall>p. ss_parent (sub st' c) = Some p \<longrightarrow> p \<in> set (live st) \<and> c \<in> set (sf_subs (surf st p))"
      unfolding d using tree_sub [OF assms(1) c] by blast+
  next
    fix s
    assume s: "s \<in> set (live st)"
    note t = tree_surf [OF assms(1) s]
    show "\<forall>c. sf_sub (surf st s) = Some c \<longrightarrow> c \<in> set (live_subs st) \<and> ss_surface (sub st' c) = s"
      using t(1,2) assms(7) by metis
    show "distinct (sf_subs (surf st s))" "distinct (fst (pending_order (surf st s)) @ snd (pending_order (surf st s)))"
      "set (fst (pending_order (surf st s)) @ snd (pending_order (surf st s))) = set (sf_subs (surf st s))"
      by (rule t)+
    fix c
    assume c: "c \<in> set (sf_subs (surf st s))"
    show "c \<in> set (live_subs st)" by (rule t(3) [OF c])
    then show "ss_parent (sub st' c) = Some s" using assms(7) t(4) [OF c] by simp
  qed (rule a)
qed

lemma walk_returns:
  assumes "tree_ok st" "s \<in> set (live st)"
  shows "is_descendant_of st a s = Some ((s, a) \<in> (child_of st)\<^sup>+)"
  using assms(2)
proof (induction s rule: wf_induct_rule [OF child_of_wf [OF assms(1)]])
  case (1 s)
  show ?case
  proof (cases "surface_parent st s")
    case None
    then have "(s, a) \<notin> (child_of st)\<^sup>+" by (auto dest: tranclD simp: child_of_def)
    then show ?thesis by (simp add: is_descendant_of_def None descends_loop.simps [of _ _ None])
  next
    case (Some w)
    then have e: "(s, w) \<in> child_of st" using "1.prems" by (simp add: child_of_def)
    have "is_descendant_of st a w = Some ((w, a) \<in> (child_of st)\<^sup>+)"
      using "1.IH" [of w] e surface_parent_live [OF assms(1) "1.prems" Some] by simp
    moreover have "(s, a) \<in> (child_of st)\<^sup>+ \<longleftrightarrow> w = a \<or> (w, a) \<in> (child_of st)\<^sup>+"
    proof
      assume "(s, a) \<in> (child_of st)\<^sup>+"
      then obtain y where "(s, y) \<in> child_of st" "(y, a) \<in> (child_of st)\<^sup>*" by (blast dest: tranclD)
      moreover from this Some have "y = w" by (simp add: child_of_def)
      ultimately show "w = a \<or> (w, a) \<in> (child_of st)\<^sup>+" by (auto simp: rtrancl_eq_or_trancl)
    qed (use e in \<open>auto intro: trancl_into_trancl2\<close>)
    ultimately show ?thesis
      by (simp add: is_descendant_of_def Some descends_loop.simps [of _ _ "Some w"])
  qed
qed

text \<open>The views change with the links kept.\<close>

lemma quiet_parent_view: "quiet st (subsurface_set_parent_view E c v st)"
  by (auto simp: subsurface_set_parent_view_def Let_def split: option.split
      intro!: quiet_world quiet_sub quiet_trans [OF _ quiet_position])

lemma same_tree_world: "same_tree st (on_world f st)"
  by (simp add: same_tree_def)

lemma quiet_same: "quiet st st' \<Longrightarrow> same_tree st st'"
  by (simp add: quiet_def)

lemma set_view_tree: "same_tree st (surface_set_view E s v st)"
proof -
  let ?a = "upd_surf s (\<lambda>x. x\<lparr>sf_view := v\<rparr>) st"
  let ?b = "fold (\<lambda>c. subsurface_set_parent_view E c v) (sf_subs (surf ?a s)) ?a"
  have "same_tree st ?a" by (simp add: same_tree_def)
  moreover have "same_tree ?a ?b" by (rule quiet_same, rule quiet_fold, rule quiet_parent_view)
  ultimately have b: "same_tree st ?b" by (rule same_tree_trans)
  have c: "same_tree st (case err of None \<Rightarrow> ?b | Some e \<Rightarrow> upd_surf s (surf_send [Surface_error e]) ?b)" for err
    using b by (simp add: same_tree_def split: option.split)
  show ?thesis
    using b same_tree_trans [OF c same_tree_world]
    by (auto simp: surface_set_view_def Let_def simp del: upd_fields split: option.split prod.split)
qed

lemma create_view_tree: "same_tree st (create_view E s st)"
proof -
  have "same_tree st (st\<lparr>world := w\<rparr>)" for w by (simp add: same_tree_def)
  from same_tree_trans [OF same_tree_trans [OF this set_view_tree] same_tree_world] this show ?thesis
    by (auto simp: create_view_def Let_def split: prod.split option.split)
qed

text \<open>A child leaves its parent, or its surface, or both; \<open>gone\<close> when it is no longer alive.\<close>

lemma remove_child_tree:
  assumes "tree_ok st" "c \<in> set (live_subs st)" "s = ss_surface (sub st c)"
    and "live st' = live st" "live_subs st' = (if gone then removeAll c (live_subs st) else live_subs st)"
    and "\<And>t. sf_sub (surf st' t) = (if gone \<and> t = s then None else sf_sub (surf st t))"
    and "\<And>t. sf_subs (surf st' t) = (if ss_parent (sub st c) = Some t then remove1 c (sf_subs (surf st t)) else sf_subs (surf st t))"
    and "\<And>t. pending_order (surf st' t) = (if ss_parent (sub st c) = Some t
        then (remove1 c (fst (pending_order (surf st t))), remove1 c (snd (pending_order (surf st t)))) else pending_order (surf st t))"
    and "\<And>d. d \<noteq> c \<or> gone \<Longrightarrow> ss_surface (sub st' d) = ss_surface (sub st d) \<and> ss_parent (sub st' d) = ss_parent (sub st d)"
    and "\<not> gone \<Longrightarrow> ss_surface (sub st' c) = ss_surface (sub st c) \<and> ss_parent (sub st' c) = None"
  shows "tree_ok st'"
proof -
  note c = tree_sub [OF assms(1,2)]
  have sub: "child_of st' \<subseteq> child_of st"
  proof
    fix e
    assume "e \<in> child_of st'"
    then obtain a b where e: "e = (a, b)" "a \<in> set (live st)" "surface_parent st' a = Some b"
      by (auto simp: child_of_def assms(4))
    then obtain d where d: "sf_sub (surf st' a) = Some d" "ss_parent (sub st' d) = Some b"
      by (auto simp: surface_parent_def split: option.splits)
    then have "sf_sub (surf st a) = Some d" by (simp add: assms(6) split: if_splits)
    moreover have "ss_parent (sub st d) = Some b" using d(2) assms(9,10) by (cases "d = c"; cases gone) auto
    ultimately show "e \<in> child_of st" using e by (simp add: child_of_def surface_parent_def)
  qed
  have acy: "acyclic (child_of st')" using assms(1) acyclic_subset [OF _ sub] unfolding tree_ok_def by blast
  show ?thesis
    unfolding tree_ok_def assms(4)
  proof (intro conjI ballI)
    fix d
    assume d: "d \<in> set (live_subs st')"
    then have l: "d \<in> set (live_subs st)" "d \<noteq> c \<or> \<not> gone" by (auto simp: assms(5) split: if_splits)
    note t = tree_sub [OF assms(1) l(1)]
    have ss: "ss_surface (sub st' d) = ss_surface (sub st d)" using assms(9,10) by (cases "d = c"; cases gone) auto
    show "ss_surface (sub st' d) \<in> set (live st)" unfolding ss by (rule t(1))
    have "\<not> (gone \<and> ss_surface (sub st d) = s)" using t(2) c(2) l(2) assms(3) by (metis option.inject)
    then show "sf_sub (surf st' (ss_surface (sub st' d))) = Some d" unfolding ss assms(6) using t(2) by auto
    show "\<forall>p. ss_parent (sub st' d) = Some p \<longrightarrow> p \<in> set (live st) \<and> d \<in> set (sf_subs (surf st' p))"
    proof (intro allI impI)
      fix p
      assume p: "ss_parent (sub st' d) = Some p"
      have "d \<noteq> c" using p assms(10) l(2) by (cases "d = c") auto
      then have "ss_parent (sub st d) = Some p" using p assms(9) by simp
      then show "p \<in> set (live st) \<and> d \<in> set (sf_subs (surf st' p))"
        using t(3,4) \<open>d \<noteq> c\<close> by (simp add: assms(7) in_set_remove1)
    qed
  next
    fix t
    assume t: "t \<in> set (live st)"
    note u = tree_surf [OF assms(1) t]
    show "\<forall>d. sf_sub (surf st' t) = Some d \<longrightarrow> d \<in> set (live_subs st') \<and> ss_surface (sub st' d) = t"
    proof (intro allI impI)
      fix d
      assume "sf_sub (surf st' t) = Some d"
      then have d: "sf_sub (surf st t) = Some d" "\<not> (gone \<and> t = s)" by (auto simp: assms(6) split: if_splits)
      then have "d \<noteq> c \<or> \<not> gone" using u(2) assms(3) by auto
      then show "d \<in> set (live_subs st') \<and> ss_surface (sub st' d) = t"
        using u(1,2) [OF d(1)] assms(5,9,10) by (cases "d = c"; cases gone) auto
    qed
    show "distinct (sf_subs (surf st' t))" using u(5) by (simp add: assms(7))
    show "distinct (fst (pending_order (surf st' t)) @ snd (pending_order (surf st' t)))"
      using u(6) by (auto simp: assms(8) dest: notin_set_remove1)
    show "set (fst (pending_order (surf st' t)) @ snd (pending_order (surf st' t))) = set (sf_subs (surf st' t))"
      using u(5-7) by (auto simp: assms(7,8) set_remove1_eq)
    fix d
    assume "d \<in> set (sf_subs (surf st' t))"
    then have d: "d \<in> set (sf_subs (surf st t))" "d \<noteq> c"
    proof -
      assume a: "d \<in> set (sf_subs (surf st' t))"
      then show "d \<in> set (sf_subs (surf st t))" by (auto simp: assms(7) split: if_splits dest: in_set_remove1 [THEN iffD1, rotated] notin_set_remove1)
      show "d \<noteq> c"
      proof
        assume "d = c"
        then have "ss_parent (sub st c) = Some t" using u(4) a by (auto simp: assms(7) split: if_splits dest: notin_set_remove1)
        then show False using a \<open>d = c\<close> u(5) by (simp add: assms(7) set_remove1_eq)
      qed
    qed
    show "d \<in> set (live_subs st')" using u(3) [OF d(1)] d(2) by (simp add: assms(5))
    show "ss_parent (sub st' d) = Some t" using u(4) [OF d(1)] d(2) assms(9) by simp
  qed (rule acy)
qed

lemma unlink_fields [simp]:
  "sf_sub (unlink_child c x) = sf_sub x" "sf_subs (unlink_child c x) = remove1 c (sf_subs x)"
  "pending_order (unlink_child c x) = (remove1 c (fst (pending_order x)), remove1 c (snd (pending_order x)))"
  by (simp_all add: unlink_child_def pending_order_def)

lemma order_keeps_sub [simp]:
  "pending_order (x\<lparr>sf_sub := b\<rparr>) = pending_order x" "pending_order (x\<lparr>sf_subs := l\<rparr>) = pending_order x"
  by (simp_all add: pending_order_def)

lemma same_treeD:
  assumes "same_tree st st'"
  shows "live st' = live st" "live_subs st' = live_subs st" "sf_sub (surf st' s) = sf_sub (surf st s)"
    "sf_subs (surf st' s) = sf_subs (surf st s)" "pending_order (surf st' s) = pending_order (surf st s)"
    "ss_surface (sub st' c) = ss_surface (sub st c)" "ss_parent (sub st' c) = ss_parent (sub st c)"
  using assms by (simp_all add: same_tree_def)

text \<open>The links after a subsurface went, whether it was linked before or not.\<close>

lemma destroy_links:
  fixes st :: "'w scene" and c :: nat
  defines "s \<equiv> ss_surface (sub st c)"
  shows "live (subsurface_destroy E c st) = live st"
    "live_subs (subsurface_destroy E c st) = removeAll c (live_subs st)"
    "sf_sub (surf (subsurface_destroy E c st) t) =
      (if t = s \<and> sf_sub (surf st s) = Some c then None else sf_sub (surf st t))"
    "sf_subs (surf (subsurface_destroy E c st) t) =
      (if ss_parent (sub st c) = Some t then remove1 c (sf_subs (surf st t)) else sf_subs (surf st t))"
    "pending_order (surf (subsurface_destroy E c st) t) = (if ss_parent (sub st c) = Some t
      then (remove1 c (fst (pending_order (surf st t))), remove1 c (snd (pending_order (surf st t)))) else pending_order (surf st t))"
    "ss_surface (sub (subsurface_destroy E c st) d) = ss_surface (sub st d)"
    "ss_parent (sub (subsurface_destroy E c st) d) = ss_parent (sub st d)"
proof -
  define st1 where "st1 = upd_surf s handle_role_destroy st"
  define st2 where "st2 = subsurface_set_parent_view E c None st1"
  define st3 where "st3 = (if sf_sub (surf st2 s) = Some c then upd_surf s (\<lambda>x. x\<lparr>sf_sub := None\<rparr>) st2 else st2)"
  define st4 where "st4 = (case ss_parent (sub st3 c) of None \<Rightarrow> st3 | Some p \<Rightarrow> upd_surf p (unlink_child c) st3)"
  define st5 where "st5 = (case view_of E st4 s of None \<Rightarrow> st4
    | Some v \<Rightarrow> if view_of_window E (world st4) v then st4
               else on_world (view_free E v) (surface_set_view E s None (on_world (view_hidden E v) st4)))"
  have d: "subsurface_destroy E c st = st5\<lparr>live_subs := removeAll c (live_subs st5)\<rparr>"
    by (simp only: subsurface_destroy_def Let_def s_def [symmetric] st1_def st2_def st3_def st4_def st5_def)
  have "same_tree st st1" by (simp add: st1_def same_tree_def handle_role_destroy_def pending_order_def)
  then have 2: "same_tree st st2"
    unfolding st2_def by (rule same_tree_trans [OF _ quiet_same [OF quiet_parent_view]])
  have 5: "same_tree st4 st5"
    unfolding st5_def
    by (auto intro: same_tree_trans [OF same_tree_world same_tree_trans [OF set_view_tree same_tree_world]] split: option.split)
  note e2 = same_treeD [OF 2] and e5 = same_treeD [OF 5]
  have e3: "live st3 = live st" "live_subs st3 = live_subs st" "sf_subs (surf st3 t) = sf_subs (surf st t)"
    "sf_sub (surf st3 t) = (if t = s \<and> sf_sub (surf st s) = Some c then None else sf_sub (surf st t))"
    "pending_order (surf st3 t) = pending_order (surf st t)" "ss_surface (sub st3 d) = ss_surface (sub st d)"
    "ss_parent (sub st3 d) = ss_parent (sub st d)" for t d
    by (auto simp: st3_def e2)
  have e4: "live st4 = live st" "live_subs st4 = live_subs st" "sf_sub (surf st4 t) = sf_sub (surf st3 t)"
    "sf_subs (surf st4 t) = (if ss_parent (sub st c) = Some t then remove1 c (sf_subs (surf st t)) else sf_subs (surf st t))"
    "pending_order (surf st4 t) = (if ss_parent (sub st c) = Some t
      then (remove1 c (fst (pending_order (surf st t))), remove1 c (snd (pending_order (surf st t)))) else pending_order (surf st t))"
    "ss_surface (sub st4 d) = ss_surface (sub st d)" "ss_parent (sub st4 d) = ss_parent (sub st d)" for t d
    by (auto simp: st4_def e3 split: option.split)
  show "live (subsurface_destroy E c st) = live st"
    "live_subs (subsurface_destroy E c st) = removeAll c (live_subs st)"
    "sf_sub (surf (subsurface_destroy E c st) t) =
      (if t = s \<and> sf_sub (surf st s) = Some c then None else sf_sub (surf st t))"
    "sf_subs (surf (subsurface_destroy E c st) t) =
      (if ss_parent (sub st c) = Some t then remove1 c (sf_subs (surf st t)) else sf_subs (surf st t))"
    "pending_order (surf (subsurface_destroy E c st) t) = (if ss_parent (sub st c) = Some t
      then (remove1 c (fst (pending_order (surf st t))), remove1 c (snd (pending_order (surf st t)))) else pending_order (surf st t))"
    "ss_surface (sub (subsurface_destroy E c st) d) = ss_surface (sub st d)"
    "ss_parent (sub (subsurface_destroy E c st) d) = ss_parent (sub st d)"
    by (simp_all add: d e5 e4 e3)
qed

lemma destroy_tree:
  assumes "tree_ok st" "c \<in> set (live_subs st)"
  shows "tree_ok (subsurface_destroy E c st)"
  by (rule remove_child_tree [where c = c and gone = True, OF assms refl])
    (simp_all add: destroy_links tree_sub(2) [OF assms])

lemma orphan_tree:
  assumes "tree_ok st" "c \<in> set (live_subs st)"
  shows "tree_ok (handle_parent_destroy E c st)"
proof -
  note q = same_treeD [OF quiet_same [OF quiet_parent_view [where c = c and v = None and E = E and st = st]]]
  have o: "handle_parent_destroy E c st = upd_sub c (\<lambda>x. x\<lparr>ss_parent := None\<rparr>)
     (case ss_parent (sub st c) of None \<Rightarrow> subsurface_set_parent_view E c None st
      | Some p \<Rightarrow> upd_surf p (unlink_child c) (subsurface_set_parent_view E c None st))"
    by (simp add: handle_parent_destroy_def Let_def)
  show ?thesis
    unfolding o
    by (rule remove_child_tree [where c = c and gone = False, OF assms refl]) (auto simp: q split: option.split)
qed

text \<open>A subsurface that gets its surface and its parent.\<close>

lemma add_child_tree:
  assumes "tree_ok st" "c \<notin> set (live_subs st)" "s \<in> set (live st)" "p \<in> set (live st)" "sf_sub (surf st s) = None"
    and "s \<noteq> p" "(p, s) \<notin> (child_of st)\<^sup>+"
    and "live st' = live st" "live_subs st' = c # live_subs st"
    and "\<And>t. sf_sub (surf st' t) = (if t = s then Some c else sf_sub (surf st t))"
    and "\<And>t. sf_subs (surf st' t) = (if t = p then c # sf_subs (surf st t) else sf_subs (surf st t))"
    and "\<And>t. pending_order (surf st' t) = (if t = p
        then (fst (pending_order (surf st t)), snd (pending_order (surf st t)) @ [c]) else pending_order (surf st t))"
    and "\<And>d. d \<noteq> c \<Longrightarrow> ss_surface (sub st' d) = ss_surface (sub st d) \<and> ss_parent (sub st' d) = ss_parent (sub st d)"
    and "ss_surface (sub st' c) = s" "ss_parent (sub st' c) = Some p"
  shows "tree_ok st'"
proof -
  have keep: "ss_parent (sub st' d) = ss_parent (sub st d)" if "d \<in> set (live_subs st)" for d
    using assms(2,13) that by metis
  have "surface_parent st' t = (if t = s then Some p else surface_parent st t)" if "t \<in> set (live st)" for t
    using assms(10,15) keep tree_surf(1) [OF assms(1) that] by (simp add: surface_parent_def split: option.split)
  then have "child_of st' \<subseteq> insert (s, p) (child_of st)" by (auto simp: child_of_def assms(8) split: if_splits)
  moreover have "acyclic (insert (s, p) (child_of st))"
    using assms(1,6,7) unfolding tree_ok_def by (simp add: acyclic_insert rtrancl_eq_or_trancl)
  ultimately have acy: "acyclic (child_of st')" by (rule acyclic_subset [rotated])
  show ?thesis
    unfolding tree_ok_def assms(8)
  proof (intro conjI ballI)
    fix d
    assume d: "d \<in> set (live_subs st')"
    have l: "d \<in> set (live_subs st)" if "d \<noteq> c" using d that by (simp add: assms(9))
    show "ss_surface (sub st' d) \<in> set (live st)"
      using tree_sub(1) [OF assms(1) l] assms(3,13,14) by (cases "d = c") auto
    show "sf_sub (surf st' (ss_surface (sub st' d))) = Some d"
    proof (cases "d = c")
      case True
      then show ?thesis by (simp add: assms(10,14))
    next
      case False
      then have "ss_surface (sub st d) \<noteq> s" using tree_sub(2) [OF assms(1) l] assms(5) by force
      then show ?thesis using tree_sub(2) [OF assms(1) l [OF False]] False by (simp add: assms(10,13))
    qed
    show "\<forall>q. ss_parent (sub st' d) = Some q \<longrightarrow> q \<in> set (live st) \<and> d \<in> set (sf_subs (surf st' q))"
    proof (intro allI impI)
      fix q
      assume q: "ss_parent (sub st' d) = Some q"
      show "q \<in> set (live st) \<and> d \<in> set (sf_subs (surf st' q))"
      proof (cases "d = c")
        case True
        then show ?thesis using q assms(4,11,15) by simp
      next
        case False
        then have "ss_parent (sub st d) = Some q" using q assms(13) by simp
        then show ?thesis using tree_sub(3,4) [OF assms(1) l [OF False]] by (auto simp: assms(11))
      qed
    qed
  next
    fix t
    assume t: "t \<in> set (live st)"
    note u = tree_surf [OF assms(1) t]
    show "\<forall>d. sf_sub (surf st' t) = Some d \<longrightarrow> d \<in> set (live_subs st') \<and> ss_surface (sub st' d) = t"
    proof (intro allI impI)
      fix d
      assume d: "sf_sub (surf st' t) = Some d"
      show "d \<in> set (live_subs st') \<and> ss_surface (sub st' d) = t"
      proof (cases "t = s")
        case True
        then show ?thesis using d assms(9,10,14) by simp
      next
        case False
        then have d: "sf_sub (surf st t) = Some d" using d assms(10) by simp
        then have "d \<noteq> c" using u(1) [OF d] assms(2) by blast
        then show ?thesis using u(1,2) [OF d] assms(9,13) by simp
      qed
    qed
    have n: "c \<notin> set (sf_subs (surf st t))" using u(3) assms(2) by blast
    show "distinct (sf_subs (surf st' t))" using u(5) n by (auto simp: assms(11))
    show "distinct (fst (pending_order (surf st' t)) @ snd (pending_order (surf st' t)))"
      "set (fst (pending_order (surf st' t)) @ snd (pending_order (surf st' t))) = set (sf_subs (surf st' t))"
      using u(6,7) n by (auto simp: assms(11,12))
    fix d
    assume "d \<in> set (sf_subs (surf st' t))"
    then have "d = c \<and> t = p \<or> d \<in> set (sf_subs (surf st t))" by (auto simp: assms(11) split: if_splits)
    then show "d \<in> set (live_subs st')" "ss_parent (sub st' d) = Some t"
      using u(3,4) n assms(9,13,15) by (metis list.set_intros, metis)
  qed (rule acy)
qed

text \<open>\<open>subsurface_new\<close>: the links of the new subsurface, or no new link at all.\<close>

lemma on_pending_order_links [simp]:
  "live (on_pending_order p f g st) = live st" "live_subs (on_pending_order p f g st) = live_subs st"
  "sub (on_pending_order p f g st) = sub st" "sf_sub (surf (on_pending_order p f g st) t) = sf_sub (surf st t)"
  "sf_subs (surf (on_pending_order p f g st) t) = sf_subs (surf st t)"
  "pending_order (surf (on_pending_order p f g st) t) =
    (if t = p then (f (fst (pending_order (surf st t))), g (snd (pending_order (surf st t)))) else pending_order (surf st t))"
  by (simp_all add: on_pending_order_def pending_order_def)

lemma visibility_tree: "same_tree st (subsurface_update_visibility E c st)"
  by (rule quiet_same) (rule quiet_visibility)

lemma new_links:
  assumes "tree_ok st" "c \<notin> set (live_subs st)" "s \<in> set (live st)" "p \<in> set (live st)" "sf_sub (surf st s) = None" "s \<noteq> p"
    and "subsurface_new E c s p st = (ok, st')"
  shows "\<not> ok \<Longrightarrow> tree_ok st'"
    and "ok \<Longrightarrow> (p, s) \<notin> (child_of st)\<^sup>+ \<Longrightarrow> tree_ok (upd_surf s (\<lambda>x. x\<lparr>sf_sub := Some c\<rparr>) st')"
    and "live st' = live st"
proof -
  define st1 where "st1 = st\<lparr>sub := (sub st)(c := zeroed_subsurface s p), live_subs := c # live_subs st\<rparr>"
  obtain r x where r: "surface_set_role c ''wl_subsurface'' (surf st1 s) = (r, x)" by (cases "surface_set_role c ''wl_subsurface'' (surf st1 s)")
  define st2 where "st2 = upd_surf s (\<lambda>_. x) st1"
  define st3 where "st3 = (if sf_view (surf st2 s) = None then create_view E s st2 else st2)"
  define st4 where "st4 = (if sf_view (surf st3 p) = None then create_view E p st3 else st3)"
  have x: "sf_sub x = sf_sub (surf st1 s)" "sf_subs x = sf_subs (surf st1 s)" "pending_order x = pending_order (surf st1 s)"
    using r by (auto simp: surface_set_role_def pending_order_def surf_send_def split: if_splits)
  have "same_tree st1 st2" using x by (simp add: st2_def same_tree_def)
  moreover have "same_tree st2 st3" by (simp add: st3_def create_view_tree)
  moreover have "same_tree st3 st4" by (simp add: st4_def create_view_tree)
  ultimately have 12: "same_tree st1 st2" and 14: "same_tree st1 st4" by (blast intro: same_tree_trans)+
  have fail: "tree_ok (subsurface_destroy E c z) \<and> live (subsurface_destroy E c z) = live st" if z: "same_tree st1 z" for z
  proof -
    note e = same_treeD [OF z]
    have n: "c \<notin> set (sf_subs (surf st t))" "remove1 c (fst (pending_order (surf st t))) = fst (pending_order (surf st t))"
      "remove1 c (snd (pending_order (surf st t))) = snd (pending_order (surf st t))" if "t = p" for t
    proof -
      show n: "c \<notin> set (sf_subs (surf st t))" using tree_surf(3) [OF assms(1,4)] assms(2) that by blast
      have "c \<notin> set (fst (pending_order (surf st t)) @ snd (pending_order (surf st t)))"
        using n tree_surf(7) [OF assms(1,4)] that by simp
      then show "remove1 c (fst (pending_order (surf st t))) = fst (pending_order (surf st t))"
        "remove1 c (snd (pending_order (surf st t))) = snd (pending_order (surf st t))"
        by (simp_all add: remove1_idem)
    qed
    have "tree_ok (subsurface_destroy E c z)"
      by (rule tree_links [OF assms(1)])
        (use assms(2,5) n in \<open>auto simp: destroy_links e st1_def zeroed_subsurface_def remove1_idem\<close>)
    then show ?thesis by (simp add: destroy_links e st1_def)
  qed
  have new: "subsurface_new E c s p st =
    (if \<not> r then (False, subsurface_destroy E c st2)
     else case (view_of E st4 s, view_of E st4 p) of
       (Some v, Some q) \<Rightarrow> (True, subsurface_update_visibility E c (on_pending_order p id (\<lambda>l. l @ [c])
          (upd_surf p (\<lambda>x. x\<lparr>sf_subs := c # sf_subs x\<rparr>) (on_world (view_put_below E v q) (subsurface_set_parent_view E c (Some q) st4)))))
     | _ \<Rightarrow> (False, subsurface_destroy E c st4))"
    unfolding subsurface_new_def st1_def [symmetric] Let_def r prod.case st2_def [symmetric] st3_def [symmetric]
      st4_def [symmetric] by simp
  have ok: "live z = live st \<and> ((p, s) \<notin> (child_of st)\<^sup>+ \<longrightarrow> tree_ok (upd_surf s (\<lambda>x. x\<lparr>sf_sub := Some c\<rparr>) z))"
    if z: "z = subsurface_update_visibility E c (on_pending_order p id (\<lambda>l. l @ [c])
      (upd_surf p (\<lambda>x. x\<lparr>sf_subs := c # sf_subs x\<rparr>) (on_world (view_put_below E v q) (subsurface_set_parent_view E c (Some q) st4))))"
    for z v q
  proof -
    define y where "y = subsurface_set_parent_view E c (Some q) st4"
    define y1 where "y1 = upd_surf p (\<lambda>x. x\<lparr>sf_subs := c # sf_subs x\<rparr>) (on_world (view_put_below E v q) y)"
    have "same_tree st1 y" unfolding y_def by (rule same_tree_trans [OF 14 quiet_same [OF quiet_parent_view]])
    note a = same_treeD [OF this]
    have y1: "live y1 = live st" "live_subs y1 = c # live_subs st" "sf_sub (surf y1 t) = sf_sub (surf st t)"
      "sf_subs (surf y1 t) = (if t = p then c # sf_subs (surf st t) else sf_subs (surf st t))"
      "pending_order (surf y1 t) = pending_order (surf st t)" for t
      by (simp_all add: y1_def a st1_def)
    have y2: "ss_surface (sub y1 d) = (if d = c then s else ss_surface (sub st d))"
      "ss_parent (sub y1 d) = (if d = c then Some p else ss_parent (sub st d))" for d
      by (simp_all add: y1_def a st1_def zeroed_subsurface_def)
    have "same_tree (on_pending_order p id (\<lambda>l. l @ [c]) y1) z"
      unfolding z y1_def y_def by (rule visibility_tree)
    note b = same_treeD [OF this, unfolded on_pending_order_links y1 y2]
    have "tree_ok (upd_surf s (\<lambda>x. x\<lparr>sf_sub := Some c\<rparr>) z)" if "(p, s) \<notin> (child_of st)\<^sup>+"
      by (rule add_child_tree [OF assms(1-6) that]) (simp_all add: b)
    then show ?thesis by (simp add: b)
  qed
  show "\<not> ok \<Longrightarrow> tree_ok st'" "ok \<Longrightarrow> (p, s) \<notin> (child_of st)\<^sup>+ \<Longrightarrow> tree_ok (upd_surf s (\<lambda>x. x\<lparr>sf_sub := Some c\<rparr>) st')"
    "live st' = live st"
    using assms(7) fail [OF 12] fail [OF 14] ok [OF refl] unfolding new by (auto split: if_splits option.splits)
qed

text \<open>\<open>get_subsurface\<close> returns; it links surfaces only when no cycle comes of it.\<close>

lemma get_subsurface_tree:
  assumes "tree_ok st" "c \<notin> set (live_subs st)" "s \<in> set (live st)" "p \<in> set (live st)"
  shows "\<exists>e st'. get_subsurface E alloc c s p st = Some (e, st') \<and> tree_ok st' \<and> live st' = live st"
proof (cases "s = p \<or> (p, s) \<in> (child_of st)\<^sup>+ \<or> sf_sub (surf st s) \<noteq> None \<or> sf_role (surf st s) \<noteq> None \<or>
    (case sf_role_name (surf st s) of None \<Rightarrow> False | Some n \<Rightarrow> n \<noteq> ''wl_subsurface'') \<or> \<not> alloc")
  case True
  then show ?thesis
    using assms(1) walk_returns [OF assms(1,4), of s] by (auto simp: get_subsurface_def split: bool.split)
next
  case False
  then have f: "s \<noteq> p" "(p, s) \<notin> (child_of st)\<^sup>+" "sf_sub (surf st s) = None" by blast+
  obtain ok st' where n: "subsurface_new E c s p st = (ok, st')" by (cases "subsurface_new E c s p st")
  have t: "\<not> ok \<Longrightarrow> tree_ok st'" "ok \<Longrightarrow> tree_ok (upd_surf s (\<lambda>x. x\<lparr>sf_sub := Some c\<rparr>) st')" "live st' = live st"
    using new_links [OF assms f(3,1) n] f(2) by blast+
  have "is_descendant_of st s p = Some False" using walk_returns [OF assms(1,4), of s] f(2) by simp
  then show ?thesis
    using False f t n by (cases ok) (simp_all add: get_subsurface_def)
qed

text \<open>The children of a surface that goes.\<close>

lemma orphan_links:
  "live (handle_parent_destroy E c st) = live st" "live_subs (handle_parent_destroy E c st) = live_subs st"
  "sf_sub (surf (handle_parent_destroy E c st) t) = sf_sub (surf st t)"
  "sf_subs (surf (handle_parent_destroy E c st) t) =
    (if ss_parent (sub st c) = Some t then remove1 c (sf_subs (surf st t)) else sf_subs (surf st t))"
proof -
  note q = same_treeD [OF quiet_same [OF quiet_parent_view [where c = c and v = None and E = E and st = st]]]
  show "live (handle_parent_destroy E c st) = live st" "live_subs (handle_parent_destroy E c st) = live_subs st"
    "sf_sub (surf (handle_parent_destroy E c st) t) = sf_sub (surf st t)"
    "sf_subs (surf (handle_parent_destroy E c st) t) =
      (if ss_parent (sub st c) = Some t then remove1 c (sf_subs (surf st t)) else sf_subs (surf st t))"
    by (auto simp: handle_parent_destroy_def Let_def q split: option.split)
qed

lemma orphans_tree:
  assumes "tree_ok st" "s \<in> set (live st)" "sf_subs (surf st s) = cs"
  shows "tree_ok (fold (handle_parent_destroy E) cs st) \<and> sf_subs (surf (fold (handle_parent_destroy E) cs st) s) = [] \<and>
    live (fold (handle_parent_destroy E) cs st) = live st \<and> live_subs (fold (handle_parent_destroy E) cs st) = live_subs st \<and>
    sf_sub (surf (fold (handle_parent_destroy E) cs st) s) = sf_sub (surf st s)"
  using assms
proof (induction cs arbitrary: st)
  case (Cons c cs)
  have c: "c \<in> set (live_subs st)" "ss_parent (sub st c) = Some s"
    using tree_surf(3,4) [OF Cons.prems(1,2), of c] Cons.prems(3) by simp_all
  have "sf_subs (surf (handle_parent_destroy E c st) s) = cs" by (simp add: orphan_links c(2) Cons.prems(3))
  from Cons.IH [OF orphan_tree [OF Cons.prems(1) c(1)] _ this] Cons.prems(2) show ?case
    by (simp add: orphan_links)
qed simp

lemma surface_destroy_tree:
  assumes "tree_ok st" "s \<in> set (live st)"
  shows "tree_ok (surface_destroy E s st)"
proof -
  define st1 where "st1 = (case sf_sub (surf st s) of None \<Rightarrow> st | Some c \<Rightarrow> subsurface_destroy E c st)"
  define st2 where "st2 = fold (handle_parent_destroy E) (sf_subs (surf st1 s)) st1"
  define st3 where "st3 = upd_surf s (state_finalize Cached \<circ> state_finalize Pending \<circ> state_finalize Current) st2"
  have 1: "tree_ok st1" "live st1 = live st" "sf_sub (surf st1 s) = None"
    using assms tree_surf(1,2) [OF assms] by (auto simp: st1_def destroy_tree destroy_links split: option.split)
  then have 2: "tree_ok st2" "sf_subs (surf st2 s) = []" "live st2 = live st" "sf_sub (surf st2 s) = None"
    using orphans_tree [OF 1(1) _ refl, of s E] assms(2) by (simp_all add: st2_def)
  have f: "sf_sub (state_finalize l x) = sf_sub x" "sf_subs (state_finalize l x) = sf_subs x"
    "pending_order (state_finalize l x) = pending_order x" for l x
    by (simp_all add: state_finalize_def split: option.split)
  have q: "same_tree st2 st3" by (simp add: st3_def same_tree_def f)
  have 3: "tree_ok st3" "sf_subs (surf st3 s) = []" "live st3 = live st" "sf_sub (surf st3 s) = None"
    using 2 same_tree_ok [OF q] same_treeD [OF q] by simp_all
  let ?r = "st3\<lparr>live := removeAll s (live st3)\<rparr>"
  have "child_of ?r \<subseteq> child_of st3" by (auto simp: child_of_def surface_parent_def split: option.splits)
  then have a: "acyclic (child_of ?r)" using 3(1) acyclic_subset unfolding tree_ok_def by blast
  have d: "surface_destroy E s st = ?r"
    by (simp only: surface_destroy_def Let_def st1_def [symmetric] st2_def [symmetric] st3_def [symmetric])
  have n: "ss_surface (sub st3 c) \<noteq> s" "ss_parent (sub st3 c) \<noteq> Some s" if "c \<in> set (live_subs st3)" for c
    using tree_sub(2,4) [OF 3(1) that] 3(2,4) by force+
  have l: "live_subs ?r = live_subs st3" "sub ?r = sub st3" "surf ?r = surf st3" "live ?r = removeAll s (live st3)" by simp_all
  show ?thesis
    unfolding d tree_ok_def l
  proof (intro conjI ballI)
    fix c
    assume c: "c \<in> set (live_subs st3)"
    note t = tree_sub [OF 3(1) c] and n = n [OF c]
    show "ss_surface (sub st3 c) \<in> set (removeAll s (live st3))" using t(1) n(1) by simp
    show "sf_sub (surf st3 (ss_surface (sub st3 c))) = Some c" by (rule t(2))
    show "\<forall>p. ss_parent (sub st3 c) = Some p \<longrightarrow> p \<in> set (removeAll s (live st3)) \<and> c \<in> set (sf_subs (surf st3 p))"
      using t(3,4) n(2) by auto
  next
    fix t
    assume "t \<in> set (removeAll s (live st3))"
    then have t: "t \<in> set (live st3)" by simp
    note u = tree_surf [OF 3(1) t]
    show "\<forall>c. sf_sub (surf st3 t) = Some c \<longrightarrow> c \<in> set (live_subs st3) \<and> ss_surface (sub st3 c) = t" using u(1,2) by blast
    show "distinct (sf_subs (surf st3 t))" "distinct (fst (pending_order (surf st3 t)) @ snd (pending_order (surf st3 t)))"
      "set (fst (pending_order (surf st3 t)) @ snd (pending_order (surf st3 t))) = set (sf_subs (surf st3 t))"
      by (rule u)+
    fix c
    assume "c \<in> set (sf_subs (surf st3 t))"
    then show "c \<in> set (live_subs st3)" "ss_parent (sub st3 c) = Some t" using u(3,4) by blast+
  qed (rule a)
qed

end
