(* ===== verification/Subsurface_Safety.thy ===== *)
theory Subsurface_Safety
  imports Subsurface_Links
begin

text \<open>
  Every sequence of requests on surfaces keeps the tree, so every walk and every commit returns; what commits of
  synchronized and other surfaces do.
\<close>

section \<open>The other operations\<close>

lemma insert_elsewhere [simp]:
  "y \<notin> set xs \<Longrightarrow> insert_after y x xs = xs" "y \<notin> set xs \<Longrightarrow> insert_before y x xs = xs"
  by (induction xs) auto

lemma reorder_tree:
  assumes "tree_ok st" "live st' = live st" "live_subs st' = live_subs st"
    and "\<And>s. sf_sub (surf st' s) = sf_sub (surf st s)" "\<And>s. sf_subs (surf st' s) = sf_subs (surf st s)"
    and "\<And>c. ss_surface (sub st' c) = ss_surface (sub st c)" "\<And>c. ss_parent (sub st' c) = ss_parent (sub st c)"
    and "\<And>s. s \<in> set (live st) \<Longrightarrow> distinct (fst (pending_order (surf st' s)) @ snd (pending_order (surf st' s))) \<and>
      set (fst (pending_order (surf st' s)) @ snd (pending_order (surf st' s))) =
      set (fst (pending_order (surf st s)) @ snd (pending_order (surf st s)))"
  shows "tree_ok st'"
proof -
  have "surface_parent st' = surface_parent st"
    by (simp add: surface_parent_def fun_eq_iff assms(4,7) split: option.split)
  then have "child_of st' = child_of st" by (simp only: child_of_def assms(2))
  then have a: "acyclic (child_of st')" using assms(1) unfolding tree_ok_def by simp
  show ?thesis
    unfolding tree_ok_def assms(2-7)
  proof (intro conjI ballI)
    fix c
    assume c: "c \<in> set (live_subs st)"
    show "ss_surface (sub st c) \<in> set (live st)" "sf_sub (surf st (ss_surface (sub st c))) = Some c"
      "\<forall>p. ss_parent (sub st c) = Some p \<longrightarrow> p \<in> set (live st) \<and> c \<in> set (sf_subs (surf st p))"
      using tree_sub [OF assms(1) c] by blast+
  next
    fix s
    assume s: "s \<in> set (live st)"
    note t = tree_surf [OF assms(1) s] and o = assms(8) [OF s]
    show "\<forall>c. sf_sub (surf st s) = Some c \<longrightarrow> c \<in> set (live_subs st) \<and> ss_surface (sub st c) = s" using t(1,2) by blast
    show "distinct (sf_subs (surf st s))" by (rule t(5))
    show "distinct (fst (pending_order (surf st' s)) @ snd (pending_order (surf st' s)))" using o by (rule conjunct1)
    show "set (fst (pending_order (surf st' s)) @ snd (pending_order (surf st' s))) = set (sf_subs (surf st s))"
      using conjunct2 [OF o] t(7) by (rule trans)
    fix c
    assume "c \<in> set (sf_subs (surf st s))"
    then show "c \<in> set (live_subs st)" "ss_parent (sub st c) = Some s" using t(3,4) by blast+
  qed (rule a)
qed

text \<open>A child put elsewhere in the pending order.\<close>

lemma place_order:
  assumes "distinct (b @ a)" "c \<in> set (b @ a)" "d \<in> set (b @ a)" "d \<noteq> c"
    and "ins = insert_after d c \<or> ins = insert_before d c"
  shows "distinct (ins (remove1 c b) @ ins (remove1 c a)) \<and> set (ins (remove1 c b) @ ins (remove1 c a)) = set (b @ a)"
proof -
  have r: "set (remove1 c b) = set b - {c}" "set (remove1 c a) = set a - {c}" "distinct (remove1 c b)" "distinct (remove1 c a)"
    using assms(1) by (simp_all add: set_remove1_eq)
  have k: "set (ins (remove1 c l)) = insert c (set (remove1 c l))" if "d \<in> set (remove1 c l)" for l
    using that assms(5) by (auto simp: set_insert_after set_insert_before)
  have e: "ins (remove1 c l) = remove1 c l" if "d \<notin> set (remove1 c l)" for l using that assms(5) by auto
  have i: "distinct (ins (remove1 c l))" if "distinct l" for l
    using that assms(5) by (auto simp: distinct_insert_after distinct_insert_before set_remove1_eq)
  show ?thesis
  proof (cases "d \<in> set b")
    case True
    then have "d \<notin> set a" using assms(1) by auto
    then show ?thesis using True assms(1,2,4) k [of b] e [of a] i [of b] r by auto
  next
    case False
    then have "d \<in> set a" using assms(3) by simp
    then show ?thesis using False assms(1,2,4) k [of a] e [of b] i [of a] r by auto
  qed
qed

lemma found: "find P xs = Some x \<Longrightarrow> x \<in> set xs \<and> P x"
  by (induction xs) (auto split: if_splits)

lemma place_tree:
  assumes "tree_ok st" "c \<in> set (live_subs st)"
  shows "tree_ok (snd (place_above c s st))" "tree_ok (snd (place_below c s st))"
proof -
  have all: "tree_ok (snd (place_above c s st)) \<and> tree_ok (snd (place_below c s st))"
  proof (cases "is_valid_sibling st c s = None \<or> ss_parent (sub st c) = None")
    case True
    then show ?thesis using assms(1) by (auto simp: place_above_def place_below_def split: option.split)
  next
    case False
    then obtain d p where d: "is_valid_sibling st c s = Some d" and p: "ss_parent (sub st c) = Some p" by auto
    note l = tree_sub(3,4) [OF assms p]
    note o = tree_surf(6,7) [OF assms(1) l(1)]
    define b where "b = fst (pending_order (surf st p))"
    define a where "a = snd (pending_order (surf st p))"
    have o: "distinct (b @ a)" "set (b @ a) = set (sf_subs (surf st p))" using o by (simp_all add: a_def b_def)
    have c: "c \<in> set (b @ a)" using l(2) o(2) by simp
    have k: "tree_ok (upd_sub c (\<lambda>x. x\<lparr>order_dirty := True\<rparr>) z)"
      if "live z = live st" "live_subs z = live_subs st" "sub z = sub st" "\<And>t. sf_sub (surf z t) = sf_sub (surf st t)"
        "\<And>t. sf_subs (surf z t) = sf_subs (surf st t)" "\<And>t. t \<noteq> p \<Longrightarrow> pending_order (surf z t) = pending_order (surf st t)"
        "distinct (fst (pending_order (surf z p)) @ snd (pending_order (surf z p)))"
        "set (fst (pending_order (surf z p)) @ snd (pending_order (surf z p))) = set (b @ a)" for z
    proof (rule reorder_tree [OF assms(1)])
      fix t
      assume t: "t \<in> set (live st)"
      show "distinct (fst (pending_order (surf (upd_sub c (\<lambda>x. x\<lparr>order_dirty := True\<rparr>) z) t)) @
          snd (pending_order (surf (upd_sub c (\<lambda>x. x\<lparr>order_dirty := True\<rparr>) z) t))) \<and>
        set (fst (pending_order (surf (upd_sub c (\<lambda>x. x\<lparr>order_dirty := True\<rparr>) z) t)) @
          snd (pending_order (surf (upd_sub c (\<lambda>x. x\<lparr>order_dirty := True\<rparr>) z) t))) =
        set (fst (pending_order (surf st t)) @ snd (pending_order (surf st t)))"
      proof (cases "t = p")
        case True
        then show ?thesis using that(7,8) by (simp add: a_def b_def)
      next
        case False
        then show ?thesis using that(6) tree_surf(6) [OF assms(1) t] by simp
      qed
    qed (simp_all add: that(1-5))
    show ?thesis
    proof (cases d)
      case None
      have "distinct (remove1 c b @ c # remove1 c a)" "set (remove1 c b @ c # remove1 c a) = set (b @ a)"
        "distinct ((remove1 c b @ [c]) @ remove1 c a)" "set ((remove1 c b @ [c]) @ remove1 c a) = set (b @ a)"
        using o(1) c by (auto simp: set_remove1_eq)
      then show ?thesis
        by (auto simp: place_above_def place_below_def d p None a_def [symmetric] b_def [symmetric] simp del: upd_fields intro!: k)
    next
      case (Some e)
      then have f: "subsurface_find_sibling st c s = Some e"
        using d by (auto simp: is_valid_sibling_def split: if_splits option.splits)
      have e: "e \<in> set (b @ a)" "e \<noteq> c"
        using f p found [of _ "b @ a" e] by (auto simp: subsurface_find_sibling_def a_def b_def pending_order_def)
      note r = place_order [OF o(1) c e]
      show ?thesis
        using r [of "insert_after e c"] r [of "insert_before e c"]
        by (auto simp: place_above_def place_below_def d p Some a_def [symmetric] b_def [symmetric] simp del: upd_fields intro!: k)
    qed
  qed
  show "tree_ok (snd (place_above c s st))" "tree_ok (snd (place_below c s st))" using all by blast+
qed

section \<open>Commits keep the links and return\<close>

lemma flush_returns:
  assumes "tree_ok st" "work_ok ws st"
  shows "\<exists>st'. flush_work E ws st = Some st' \<and> keeps_tree st st'"
  using assms
proof (induction rule: flush_induct)
  case (Finished s ws st r)
  show ?case by (rule keeps_trans [OF keeps_quiet [OF finish_surface_quiet] Finished.hyps(3)])
next
  case (Failed c ws st r)
  show ?case by (rule keeps_trans [OF keeps_apply_one Failed.hyps(6)])
next
  case (Applied c ws st st' r)
  have "keeps_tree st st'" using keeps_apply_one [of st E True "ss_surface (sub st c)"] Applied.hyps(5) by simp
  then show ?case using Applied.hyps(6) by (rule keeps_trans)
qed simp_all

lemma children_work_ok:
  assumes "tree_ok st" "s \<in> set (live st)"
  shows "work_ok (children_work st s) st"
  using tree_surf(3) [OF assms] by (auto simp: work_ok_def children_work_def)

lemma apply_pending_returns:
  assumes "tree_ok st" "s \<in> set (live st)"
  shows "\<exists>st'. surface_apply_pending E cached s st = Some st' \<and> keeps_tree st st'"
proof -
  obtain ok st1 where 1: "apply_one E cached s st = (ok, st1)" by (cases "apply_one E cached s st")
  have k: "keeps_tree st st1" using keeps_apply_one [of st E cached s] by (simp add: 1)
  have "tree_ok st1" "s \<in> set (live st1)" using keeps_ok [OF k] keeps_fields(2) [OF k] assms by simp_all
  from flush_returns [OF this(1) children_work_ok [OF this]] obtain st2
    where "flush_work E (children_work st1 s) st1 = Some st2" "keeps_tree st1 st2" by blast
  then show ?thesis using k keeps_trans [OF k] by (cases ok) (auto simp: surface_apply_pending_def 1)
qed

text \<open>The commit of a synchronized surface changes its cached state only.\<close>

definition cached_only :: "nat \<Rightarrow> 'w scene \<Rightarrow> 'w scene \<Rightarrow> bool" where
  "cached_only s st st' \<longleftrightarrow> same_tree st st' \<and> world st' = world st \<and>
     (\<forall>t. sf_state (surf st' t) = sf_state (surf st t) \<and> sf_view (surf st' t) = sf_view (surf st t) \<and>
        (t \<noteq> s \<longrightarrow> surf st' t = surf st t)) \<and>
     (\<forall>c. ss_xy (sub st' c) = ss_xy (sub st c) \<and> ss_added (sub st' c) = ss_added (sub st c) \<and>
        ss_sync (sub st' c) = ss_sync (sub st c) \<and> ss_parent_view (sub st' c) = ss_parent_view (sub st c))"

lemma cached_only_fold:
  "cached_only s st (fold cache_child cs st)"
  by (induction cs arbitrary: st)
    (auto simp: cached_only_def cache_child_def same_tree_def Let_def split: if_splits)

lemma cache_parent_commit_only: "cached_only s st (subsurface_cache_parent_commit s st)"
proof -
  define st1 where "st1 = fold cache_child (sf_subs (surf st s)) st"
  have 1: "cached_only s st st1" unfolding st1_def by (rule cached_only_fold)
  have k: "cached_only s st (upd_surf s (on_state Cached f) z)" if "cached_only s st z" for f z
    using that by (simp add: cached_only_def same_tree_def pending_order_def)
  show ?thesis
    unfolding subsurface_cache_parent_commit_def Let_def st1_def [symmetric] by (intro k 1)
qed

definition commit_start :: "nat \<Rightarrow> 'w scene \<Rightarrow> 'w scene" where
  "commit_start s st = upd_surf s (\<lambda>x. x\<lparr>applying_cached := False\<rparr>) st"

lemma quiet_start: "quiet st (commit_start s st)"
  unfolding commit_start_def by (rule finish_surface_quiet)

lemma commit_cases:
  assumes "tree_ok st" "s \<in> set (live st)"
  obtains (direct) "sf_sub (surf st s) = None \<or> (\<exists>c. sf_sub (surf st s) = Some c \<and> subsurface_is_synchronized st c = Some False)"
      "commit E s st = surface_apply_pending E False s (commit_start s st)"
    | (unread) c r where "sf_sub (surf st s) = Some c" "subsurface_is_synchronized st c = Some True"
      "\<not> buffer_read (bufs E) (world st) r" "commit E s st = Some (commit_start s st)"
    | (cached) c where "sf_sub (surf st s) = Some c" "subsurface_is_synchronized st c = Some True"
      "commit E s st = Some (upd_sub c (\<lambda>x. x\<lparr>ss_pending := True\<rparr>)
        (subsurface_cache_parent_commit s (upd_surf s (cache_pending (bufs E) (world st)) (commit_start s st))))"
proof -
  note y = same_synchronized [OF quiet_same [OF quiet_start]]
  have f: "sf_sub (surf (commit_start s st) s) = sf_sub (surf st s)" "world (commit_start s st) = world st"
    "\<And>c. subsurface_is_synchronized (commit_start s st) c = subsurface_is_synchronized st c"
    by (simp add: commit_start_def) (simp_all add: commit_start_def y [unfolded commit_start_def])
  show thesis
  proof (cases "sf_sub (surf st s)")
    case None
    then show ?thesis
      by (intro direct) (simp_all add: commit_def commit_start_def [symmetric] f Let_def)
  next
    case (Some c)
    obtain b where b: "subsurface_is_synchronized st c = Some b"
      using synchronized_returns [OF assms(1) tree_surf(1) [OF assms Some]] by blast
    show ?thesis
    proof (cases b)
      case False
      then show ?thesis using Some b
        by (intro direct) (simp_all add: commit_def commit_start_def [symmetric] f Let_def)
    next
      case True
      let ?z = "upd_surf s (cache_pending (bufs E) (world st)) (commit_start s st)"
      have c: "sf_sub (surf (subsurface_cache_parent_commit s ?z) s) = Some c"
        using cache_parent_commit_only [of s ?z] Some by (simp add: cached_only_def same_tree_def f)
      have sync: "(case sf_sub (surf (commit_start s st) s) of None \<Rightarrow> Some False
        | Some c \<Rightarrow> subsurface_is_synchronized (commit_start s st) c) = Some True"
        using Some b True by (simp add: f)
      note d = commit_def [of E s st, folded commit_start_def, unfolded Let_def sync option.case bool.case f(2) c]
      show ?thesis
        by (cases "buffer_read (bufs E) (world st) (if has (pn_commit (sf_pending (surf (commit_start s st) s))) COMMIT_ATTACH
            then st_resource (pn_state (sf_pending (surf (commit_start s st) s)))
            else case st_resource (pn_state (sf_cached (surf (commit_start s st) s))) of
              None \<Rightarrow> st_resource (sf_state (surf (commit_start s st) s)) | Some r \<Rightarrow> Some r)")
          (use Some b True d in \<open>simp_all add: unread cached\<close>)
    qed
  qed
qed

lemma commit_returned:
  assumes "tree_ok st" "s \<in> set (live st)"
  shows "\<exists>st'. commit E s st = Some st' \<and> same_tree st st'"
  using assms
proof (cases rule: commit_cases [where E = E])
  case direct
  have q: "keeps_tree st (commit_start s st)" by (rule keeps_quiet [OF quiet_start])
  have "tree_ok (commit_start s st)" "s \<in> set (live (commit_start s st))"
    using keeps_ok [OF q] keeps_fields(2) [OF q] assms by simp_all
  from apply_pending_returns [OF this, of E False] show ?thesis
    using direct(2) keeps_trans [OF q] by (auto simp: keeps_tree_def)
next
  case (unread c r)
  then show ?thesis using quiet_same [OF quiet_start] by simp
next
  case (cached c)
  let ?a = "upd_surf s (cache_pending (bufs E) (world st)) (commit_start s st)"
  have "same_tree st (commit_start s st)" by (rule quiet_same [OF quiet_start])
  moreover have "same_tree (commit_start s st) ?a" by (simp add: same_tree_def)
  moreover have "same_tree ?a (subsurface_cache_parent_commit s ?a)"
    using cache_parent_commit_only [of s ?a] by (simp add: cached_only_def)
  moreover have "same_tree z (upd_sub c (\<lambda>x. x\<lparr>ss_pending := True\<rparr>) z)" for z :: "'a scene"
    by (simp add: same_tree_def)
  ultimately have "same_tree st (upd_sub c (\<lambda>x. x\<lparr>ss_pending := True\<rparr>) (subsurface_cache_parent_commit s ?a))"
    by (blast intro: same_tree_trans)
  then show ?thesis using cached(3) by simp
qed

lemma desync_returned:
  assumes "tree_ok st" "c \<in> set (live_subs st)"
  shows "\<exists>st'. set_desync E c st = Some st' \<and> same_tree st st'"
proof -
  define st1 where "st1 = upd_sub c (\<lambda>x. x\<lparr>ss_sync := False\<rparr>) st"
  have t: "same_tree st st1" by (simp add: st1_def same_tree_def)
  then have o: "tree_ok st1" "live_subs st1 = live_subs st" "ss_surface (sub st1 c) = ss_surface (sub st c)" "live st1 = live st"
    using same_tree_ok [OF t] same_treeD [OF t] assms(1) by simp_all
  obtain b where b: "subsurface_is_synchronized st c = Some b" using synchronized_returns [OF assms] by blast
  obtain b' where b': "subsurface_is_synchronized st1 c = Some b'" using synchronized_returns [OF o(1)] assms(2) o(2) by metis
  have "ss_surface (sub st1 c) \<in> set (live st1)" using tree_sub(1) [OF assms] o(3,4) by simp
  from apply_pending_returns [OF o(1) this, of E True] obtain st2
    where "surface_commit_pending E (ss_surface (sub st1 c)) st1 = Some st2" "same_tree st1 st2"
    by (auto simp: surface_commit_pending_def keeps_tree_def)
  then show ?thesis using t same_tree_trans [OF t]
    by (auto simp: set_desync_def b Let_def st1_def [symmetric] b')
qed

section \<open>Every sequence of requests\<close>

text \<open>Fresh addresses are those nothing alive has.\<close>

inductive scene_step :: "'w surface_env \<Rightarrow> 'w scene \<Rightarrow> 'w scene \<Rightarrow> bool" for E where
  Create: "s \<notin> set (live st) \<Longrightarrow>
    scene_step E st (st\<lparr>live := s # live st, surf := (surf st)(s := surface_new)\<rparr>)"
| Request: "s \<in> set (live st) \<Longrightarrow> scene_step E st (upd_surf s (run_request (bufs E) (world st) q) st)"
| Buffer_gone: "s \<in> set (live st) \<Longrightarrow> scene_step E st (upd_surf s (handle_buffer_destroy l) st)"
| Frames: "s \<in> set (live st) \<Longrightarrow> scene_step E st (upd_surf s (handle_frame time) st)"
| Role: "s \<in> set (live st) \<Longrightarrow> surface_set_role r n (surf st s) = (ok, x) \<Longrightarrow> scene_step E st (upd_surf s (\<lambda>_. x) st)"
| Role_gone: "s \<in> set (live st) \<Longrightarrow> scene_step E st (upd_surf s handle_role_destroy st)"
| Commit: "s \<in> set (live st) \<Longrightarrow> commit E s st = Some st' \<Longrightarrow> scene_step E st st'"
| Set_view: "s \<in> set (live st) \<Longrightarrow> scene_step E st (surface_set_view E s v st)"
| Create_view: "s \<in> set (live st) \<Longrightarrow> scene_step E st (create_view E s st)"
| Destroy: "s \<in> set (live st) \<Longrightarrow> scene_step E st (surface_destroy E s st)"
| Get_subsurface: "c \<notin> set (live_subs st) \<Longrightarrow> s \<in> set (live st) \<Longrightarrow> p \<in> set (live st) \<Longrightarrow>
    get_subsurface E alloc c s p st = Some (e, st') \<Longrightarrow> scene_step E st st'"
| Place_above: "c \<in> set (live_subs st) \<Longrightarrow> scene_step E st (snd (place_above c s st))"
| Place_below: "c \<in> set (live_subs st) \<Longrightarrow> scene_step E st (snd (place_below c s st))"
| Set_position: "c \<in> set (live_subs st) \<Longrightarrow> scene_step E st (set_position c x y st)"
| Set_sync: "c \<in> set (live_subs st) \<Longrightarrow> scene_step E st (set_sync c st)"
| Set_desync: "c \<in> set (live_subs st) \<Longrightarrow> set_desync E c st = Some st' \<Longrightarrow> scene_step E st st'"
| Parent_view_changed: "c \<in> set (live_subs st) \<Longrightarrow> scene_step E st (handle_parent_view_change E c st)"
| Parent_view_gone: "c \<in> set (live_subs st) \<Longrightarrow> scene_step E st (handle_parent_view_destroy E c st)"
| Destroy_subsurface: "c \<in> set (live_subs st) \<Longrightarrow> scene_step E st (subsurface_destroy E c st)"
| Elsewhere: "scene_step E st (on_world h st)"

inductive scene_reachable :: "'w surface_env \<Rightarrow> 'w scene \<Rightarrow> bool" for E where
  Start: "live st = [] \<Longrightarrow> live_subs st = [] \<Longrightarrow> scene_reachable E st"
| Step: "scene_reachable E st \<Longrightarrow> scene_step E st st' \<Longrightarrow> scene_reachable E st'"

lemma create_tree:
  assumes "tree_ok st" "s \<notin> set (live st)"
  shows "tree_ok (st\<lparr>live := s # live st, surf := (surf st)(s := surface_new)\<rparr>)" (is "tree_ok ?r")
proof -
  have f: "live ?r = s # live st" "live_subs ?r = live_subs st" "sub ?r = sub st"
    "\<And>t. surf ?r t = (if t = s then surface_new else surf st t)" by simp_all
  have n: "sf_sub surface_new = None" "sf_subs surface_new = []" "pending_order surface_new = ([], [])"
    by (simp_all add: surface_new_def pending_order_def pending_initialize_def state_initialize_def)
  have "child_of ?r \<subseteq> child_of st"
    by (auto simp: child_of_def surface_parent_def n split: if_splits option.splits)
  then have a: "acyclic (child_of ?r)" using assms(1) acyclic_subset unfolding tree_ok_def by blast
  show ?thesis
    unfolding tree_ok_def f
  proof (intro conjI ballI)
    fix c
    assume c: "c \<in> set (live_subs st)"
    note t = tree_sub [OF assms(1) c]
    have m: "ss_surface (sub st c) \<noteq> s" "ss_parent (sub st c) \<noteq> Some s" using t(1,3) assms(2) by auto
    show "ss_surface (sub st c) \<in> set (s # live st)"
      "sf_sub (if ss_surface (sub st c) = s then surface_new else surf st (ss_surface (sub st c))) = Some c"
      "\<forall>p. ss_parent (sub st c) = Some p \<longrightarrow>
        p \<in> set (s # live st) \<and> c \<in> set (sf_subs (if p = s then surface_new else surf st p))"
      using t m by auto
  next
    fix t
    assume t: "t \<in> set (s # live st)"
    have u: "t \<in> set (live st)" if "t \<noteq> s" using t that by simp
    let ?x = "if t = s then surface_new else surf st t"
    show "\<forall>c. sf_sub ?x = Some c \<longrightarrow> c \<in> set (live_subs st) \<and> ss_surface (sub st c) = t"
      using tree_surf(1,2) [OF assms(1) u] by (auto simp: n)
    show "distinct (sf_subs ?x)" using tree_surf(5) [OF assms(1) u] by (auto simp: n)
    show "distinct (fst (pending_order ?x) @ snd (pending_order ?x))"
      "set (fst (pending_order ?x) @ snd (pending_order ?x)) = set (sf_subs ?x)"
      using tree_surf(6,7) [OF assms(1) u] by (auto simp: n)
    fix c
    assume "c \<in> set (sf_subs ?x)"
    then show "c \<in> set (live_subs st)" "ss_parent (sub st c) = Some t"
      using tree_surf(3,4) [OF assms(1) u] by (auto simp: n split: if_splits)
  qed (rule a)
qed

lemma role_links:
  assumes "surface_set_role r n x = (ok, y)"
  shows "sf_sub y = sf_sub x" "sf_subs y = sf_subs x" "pending_order y = pending_order x" "latest y = latest x"
  using assms by (auto simp: surface_set_role_def pending_order_def latest_def split: if_splits)

lemma small_links [simp]:
  "pending_order (handle_buffer_destroy l x) = pending_order x" "pending_order (handle_frame t x) = pending_order x"
  "pending_order (handle_role_destroy x) = pending_order x" "sf_sub (handle_buffer_destroy l x) = sf_sub x"
  "sf_subs (handle_buffer_destroy l x) = sf_subs x" "sf_sub (handle_frame t x) = sf_sub x" "sf_subs (handle_frame t x) = sf_subs x"
  "sf_sub (handle_role_destroy x) = sf_sub x" "sf_subs (handle_role_destroy x) = sf_subs x"
  by (cases l; simp add: handle_buffer_destroy_def handle_frame_def handle_role_destroy_def pending_order_def surf_send_def)+

lemma step_tree:
  assumes "scene_step E st st'" "tree_ok st"
  shows "tree_ok st'"
proof -
  have s: "tree_ok st" if "same_tree st st'" using assms(2) that by simp
  have k: "tree_ok z" if "same_tree st z" for z using same_tree_ok [OF that] assms(2) by simp
  show ?thesis
    using assms(1)
  proof cases
    case (Create s)
    then show ?thesis using create_tree [OF assms(2)] by simp
  next
    case (Commit s)
    then show ?thesis using commit_returned [OF assms(2), of s E] k by auto
  next
    case (Role s r n ok x)
    then show ?thesis using role_links [OF Role(3)] by (intro k) (simp add: same_tree_def)
  next
    case (Set_view s v)
    then show ?thesis using k set_view_tree by metis
  next
    case (Create_view s)
    then show ?thesis using k create_view_tree by metis
  next
    case (Destroy s)
    then show ?thesis using surface_destroy_tree [OF assms(2)] by simp
  next
    case (Get_subsurface c s p alloc e)
    then show ?thesis using get_subsurface_tree [OF assms(2) Get_subsurface(1-3), of E alloc] by auto
  next
    case (Place_above c s)
    then show ?thesis using place_tree(1) [OF assms(2)] by simp
  next
    case (Place_below c s)
    then show ?thesis using place_tree(2) [OF assms(2)] by simp
  next
    case (Set_desync c)
    then show ?thesis using desync_returned [OF assms(2), of c E] k by auto
  next
    case (Destroy_subsurface c)
    then show ?thesis using destroy_tree [OF assms(2)] by simp
  next
    case (Parent_view_changed c)
    then show ?thesis using k quiet_same [OF quiet_position] by (metis handle_parent_view_change_def)
  next
    case (Parent_view_gone c)
    then show ?thesis using k quiet_same [OF quiet_parent_view] by (metis handle_parent_view_destroy_def)
  qed (rule k, simp add: same_tree_def set_position_def set_sync_def)+
qed

section \<open>The properties\<close>

lemma synchronized_unfold:
  "subsurface_is_synchronized st c = (if ss_sync (sub st c) then Some True
     else case sub_parent st c of None \<Rightarrow> Some False | Some d \<Rightarrow> subsurface_is_synchronized st d)"
  by (simp add: subsurface_is_synchronized_def sync_loop.simps [of _ _ "Some c"] sync_loop.simps [of _ _ None] split: option.split)

lemma reachable_tree: "scene_reachable E st \<Longrightarrow> tree_ok st"
  by (induction rule: scene_reachable.induct) (simp add: tree_ok_def child_of_def acyclic_def, rule step_tree)

text \<open>C2: whatever the clients ask for, in any order, the surfaces form a forest: a subsurface and its surface, and a
  child and its parent, always know each other, no surface is its own ancestor, and the pending order of a parent
  holds each of its children exactly once.
\<close>

theorem subsurface_tree:
  assumes "scene_reachable E st"
  shows "acyclic (child_of st) \<and>
    (\<forall>c \<in> set (live_subs st). ss_surface (sub st c) \<in> set (live st) \<and> sf_sub (surf st (ss_surface (sub st c))) = Some c \<and>
      (\<forall>p. ss_parent (sub st c) = Some p \<longrightarrow> p \<in> set (live st) \<and> c \<in> set (sf_subs (surf st p)))) \<and>
    (\<forall>s \<in> set (live st). (\<forall>c. sf_sub (surf st s) = Some c \<longrightarrow> c \<in> set (live_subs st) \<and> ss_surface (sub st c) = s) \<and>
      (\<forall>c \<in> set (sf_subs (surf st s)). c \<in> set (live_subs st) \<and> ss_parent (sub st c) = Some s) \<and>
      distinct (sf_subs (surf st s)) \<and> distinct (fst (pending_order (surf st s)) @ snd (pending_order (surf st s))) \<and>
      set (fst (pending_order (surf st s)) @ snd (pending_order (surf st s))) = set (sf_subs (surf st s)))"
  using reachable_tree [OF assms] unfolding tree_ok_def by (elim conjE) (intro conjI, assumption+)

text \<open>C15: the walks up the tree end, so the requests that make them return: a commit with everything it flushes, leaving the
  synchronized mode and the creation of a subsurface.
\<close>

theorem commit_returns:
  assumes "scene_reachable E st" "s \<in> set (live st)" "c \<in> set (live_subs st)" "p \<in> set (live st)" "d \<notin> set (live_subs st)"
  shows "commit E s st \<noteq> None \<and> set_desync E c st \<noteq> None \<and> is_descendant_of st p s \<noteq> None \<and>
    get_subsurface E alloc d s p st \<noteq> None"
proof -
  note t = reachable_tree [OF assms(1)]
  obtain st1 where 1: "commit E s st = Some st1" using commit_returned [OF t assms(2)] by blast
  obtain st2 where 2: "set_desync E c st = Some st2" using desync_returned [OF t assms(3)] by blast
  obtain r where 3: "get_subsurface E alloc d s p st = Some r" using get_subsurface_tree [OF t assms(5,2,4)] by blast
  show ?thesis by (simp add: 1 2 3 walk_returns [OF t assms(2)])
qed

text \<open>C16: the commit of a synchronized subsurface shows nothing: the views and the current state of every surface stay
  as they were, and so do the positions of the children and all of every other surface.
\<close>

theorem sync_commit_invisible:
  assumes "scene_reachable E st" "s \<in> set (live st)" "sf_sub (surf st s) = Some c"
    and "subsurface_is_synchronized st c = Some True" "commit E s st = Some st'"
  shows "world st' = world st \<and> (\<forall>t. sf_state (surf st' t) = sf_state (surf st t) \<and> sf_view (surf st' t) = sf_view (surf st t)) \<and>
    (\<forall>t. t \<noteq> s \<longrightarrow> surf st' t = surf st t) \<and> (\<forall>d. ss_xy (sub st' d) = ss_xy (sub st d) \<and> ss_added (sub st' d) = ss_added (sub st d))"
proof -
  let ?r = "\<lambda>st'. cached_only s st st'"
  have start: "?r (commit_start s st)" by (simp add: commit_start_def cached_only_def same_tree_def)
  from reachable_tree [OF assms(1)] assms(2) have "?r st'"
  proof (cases rule: commit_cases [where E = E])
    case direct
    then show ?thesis using assms(3,4) by auto
  next
    case (unread d r)
    then show ?thesis using start assms(5) by simp
  next
    case (cached d)
    let ?a = "upd_surf s (cache_pending (bufs E) (world st)) (commit_start s st)"
    have "?r ?a" using start by (simp add: cached_only_def same_tree_def)
    moreover have "cached_only s ?a (subsurface_cache_parent_commit s ?a)" by (rule cache_parent_commit_only)
    ultimately have "?r (subsurface_cache_parent_commit s ?a)" by (auto simp: cached_only_def intro: same_tree_trans)
    then show ?thesis using cached(3) assms(5) by (auto simp: cached_only_def same_tree_def)
  qed
  then show ?thesis by (simp add: cached_only_def)
qed

lemma commit_applied:
  assumes "tree_ok st" "s \<in> set (live st)"
    and "sf_sub (surf st s) = None \<or> (\<exists>c. sf_sub (surf st s) = Some c \<and> subsurface_is_synchronized st c = Some False)"
    and "presentable E (change (sf_pending (surf st s)) (latest (surf st s)))" "caches_presentable E st"
    and "\<forall>w r. buffer_read (bufs E) w r"
  shows "\<exists>st'. commit E s st = Some st' \<and>
    latest (surf st' s) = change (sf_pending (surf st s)) (latest (surf st s)) \<and>
    (\<forall>t \<in> set (live st). t \<noteq> s \<longrightarrow> untouched st st' t \<or> cache_applied st st' t) \<and>
    (\<forall>c \<in> set (sf_subs (surf st s)). settled st' c) \<and>
    (\<forall>c. sf_sub (surf st s) = Some c \<longrightarrow> \<not> ss_pending (sub st' c))"
proof -
  let ?a = "commit_start s st"
  note t = assms(1)
  have q: "quiet st ?a" by (rule quiet_start)
  note kq = keeps_quiet [OF q]
  have a: "tree_ok ?a" "s \<in> set (live ?a)" "caches_presentable E ?a"
    using keeps_ok [OF kq] keeps_fields(2) [OF kq] t assms(2,5) quiet_presentable [OF q] by simp_all
  obtain ok st1 where 1: "apply_one E False s ?a = (ok, st1)" by (cases "apply_one E False s ?a")
  have k1: "keeps_tree ?a st1" using keeps_apply_one [of ?a E False s] by (simp add: 1)
  have src: "source_of False (surf ?a s) = sf_pending (surf st s)" "latest (surf ?a s) = latest (surf st s)"
    using q by (simp_all add: quiet_def)
  note l = apply_one_latest [where E = E and cached = False and s = s and st = ?a, unfolded src 1 fst_conv snd_conv]
  have ok: "ok" and new: "latest (surf st1 s) = change (sf_pending (surf st s)) (latest (surf st s))"
    using l assms(4,6) by simp_all
  have p1: "caches_presentable E st1" using apply_one_presentable [OF a(1,2,3), of False] ok by (simp add: 1)
  have t1: "tree_ok st1" "s \<in> set (live st1)" using keeps_ok [OF k1] keeps_fields(2) [OF k1] a(1,2) by simp_all
  obtain st2 where 2: "flush_work E (children_work st1 s) st1 = Some st2" "flushed (children_work st1 s) st1 st2"
    using flush_flushed [OF t1(1) children_work_ok [OF t1] p1] by blast
  have run: "commit E s st = Some st2"
    using t assms(2)
  proof (cases rule: commit_cases [where E = E])
    case direct
    then show ?thesis using 2(1) ok by (simp add: surface_apply_pending_def 1)
  next
    case (unread c r)
    then show ?thesis using assms(3) by simp
  next
    case (cached c)
    then show ?thesis using assms(3) by simp
  qed
  have sub: "sf_sub (surf ?a s) = sf_sub (surf st s)" by (rule keeps_fields(3) [OF kq])
  have np: "\<not> ss_pending (sub st1 c)" if "sf_sub (surf st s) = Some c" for c
    using that ok apply_one_pending [of E False s ?a c] by (simp add: 1 sub)
  have u: "untouched st1 st2 s"
  proof -
    have "untouched st1 st2 s \<or> cache_applied st1 st2 s" using 2(2) t1(2) by (simp add: flushed_def)
    moreover have "sf_sub (surf st1 s) = sf_sub (surf st s)" using keeps_fields(3) [OF k1, of s] sub by simp
    ultimately show ?thesis using np by (auto simp: cache_applied_def)
  qed
  from u have own: "latest (surf st2 s) = change (sf_pending (surf st s)) (latest (surf st s))" using new by (simp add: untouched_def)
  have still: "\<not> ss_pending (sub st2 c)" if "sf_sub (surf st s) = Some c" for c
    using u np [OF that] that keeps_fields(3) [OF k1, of s] sub by (simp add: untouched_def)
  have others: "untouched st st2 t \<or> cache_applied st st2 t" if "t \<in> set (live st)" "t \<noteq> s" for t
  proof (rule untouched_then [OF quiet_untouched [OF q] kq], rule untouched_then [OF _ k1])
    have "sf_sub (surf ?a s) \<noteq> sf_sub (surf ?a t) \<or> sf_sub (surf ?a t) = None"
    proof (cases "sf_sub (surf ?a t)")
      case (Some d)
      have ta: "t \<in> set (live ?a)" using that(1) keeps_fields(2) [OF kq] by simp
      have "ss_surface (sub ?a d) = t" by (rule tree_surf(2) [OF a(1) ta Some])
      then have "sf_sub (surf ?a s) \<noteq> Some d" using tree_surf(2) [OF a(1,2)] that(2) by metis
      then show ?thesis using Some by simp
    qed simp
    then show "untouched ?a st1 t" using apply_one_others [OF that(2), of ?a E False] by (simp add: 1)
    have "t \<in> set (live st1)" using that(1) keeps_fields(2) [OF k1] keeps_fields(2) [OF kq] by simp
    then show "untouched st1 st2 t \<or> cache_applied st1 st2 t" using 2(2) by (simp add: flushed_def)
  qed
  have "settled st2 c" if "c \<in> set (sf_subs (surf st s))" for c
    using that 2(2) keeps_fields(4) [OF k1, of s] keeps_fields(4) [OF kq, of s] by (simp add: flushed_def children_work_def)
  then show ?thesis using run own others still by blast
qed


text \<open>C18: leaving the synchronized mode flushes one subsurface only: a child that only was synchronized by its parent is not
  any longer, and its cached commit still waits; the next commit of the child takes the mark away and never
  shows what was cached.
\<close>

theorem desync_loses_cached_state:
  assumes "scene_reachable E st" "c \<in> set (live_subs st)" "d \<in> set (live_subs st)"
    and "sub_parent st c = Some d" "sub_parent st d = None" "ss_sync (sub st d)" "\<not> ss_pending (sub st d)"
    and "\<not> ss_sync (sub st c)" "ss_pending (sub st c)" "c \<noteq> d" "s = ss_surface (sub st c)"
    and "presentable E (change (sf_pending (surf st s)) (latest (surf st s)))" "caches_presentable E st"
    and "\<forall>w r. buffer_read (bufs E) w r"
  shows "\<exists>st1 st2. set_desync E d st = Some st1 \<and> ss_pending (sub st1 c) \<and>
    subsurface_is_synchronized st1 c = Some False \<and> commit E s st1 = Some st2 \<and>
    \<not> ss_pending (sub st2 c) \<and> latest (surf st2 s) = change (sf_pending (surf st s)) (latest (surf st s))"
proof -
  define st1 where "st1 = upd_sub d (\<lambda>x. x\<lparr>ss_sync := False\<rparr>) st"
  note t = reachable_tree [OF assms(1)]
  have q: "same_tree st st1" by (simp add: st1_def same_tree_def)
  have up: "sub_parent st1 = sub_parent st" by (rule same_tree_parent(2) [OF q])
  have y: "subsurface_is_synchronized st d = Some True" by (simp add: synchronized_unfold assms(6))
  have n: "subsurface_is_synchronized st1 d = Some False" "subsurface_is_synchronized st1 c = Some False"
    by (simp_all add: synchronized_unfold [of st1 d] synchronized_unfold [of st1 c] up assms(4,5))
      (simp_all add: st1_def assms(8,10))
  have des: "set_desync E d st = Some st1"
    using n(1) assms(7) by (simp add: set_desync_def y Let_def st1_def)
  have w: "waiting st1 = waiting st" by (auto simp: waiting_def st1_def)
  have f: "surf st1 = surf st" "ss_surface (sub st1 e) = ss_surface (sub st e)" for e by (simp_all add: st1_def)
  have t1: "tree_ok st1" using same_tree_ok [OF q] t by simp
  have l: "s \<in> set (live st1)" "sf_sub (surf st1 s) = Some c"
    using tree_sub(1,2) [OF t assms(2)] by (simp_all add: assms(11) st1_def)
  have cp: "caches_presentable E st1" using assms(13) by (simp add: caches_presentable_def w f)
  have sub: "sf_sub (surf st1 s) = None \<or> (\<exists>c. sf_sub (surf st1 s) = Some c \<and> subsurface_is_synchronized st1 c = Some False)"
    using l(2) n(2) by simp
  from commit_applied [OF t1 l(1) sub _ cp assms(14)] assms(12) l(2) obtain st2
    where "commit E s st1 = Some st2" "\<not> ss_pending (sub st2 c)"
      "latest (surf st2 s) = change (sf_pending (surf st s)) (latest (surf st s))"
    by (auto simp: f)
  moreover have "ss_pending (sub st1 c)" using assms(9,10) by (simp add: st1_def)
  ultimately show ?thesis using des n(2) by blast
qed

section \<open>A scene\<close>

text \<open>Surface 0 with the child 1, which has the child 2: the subsurfaces are 10 and 20.\<close>

definition sample_env :: "nat surface_env" where
  "sample_env = \<lparr>bufs = \<lparr>buffer_get = (\<lambda>_ r. Some (r + 100)), buffer_size = (\<lambda>_. (4, 2)), buffer_read = (\<lambda>_ _. True),
       buffer_raster = (\<lambda>_ _. True)\<rparr>,
     view_new = (\<lambda>w. (Some w, w + 1)), view_linked = (\<lambda>_ w. w), view_put_below = (\<lambda>_ _ w. w), view_free = (\<lambda>_ w. w),
     view_contents = (\<lambda>_ _ w. w), view_updated = (\<lambda>_ w. w), view_shown = (\<lambda>_ w. w), view_hidden = (\<lambda>_ w. w),
     view_moved = (\<lambda>_ _ _ w. w), view_restacked = (\<lambda>_ _ _ w. w), view_parent = (\<lambda>_ _ w. w), committed_signal = (\<lambda>_ w. w),
     view_shows = (\<lambda>_ _. None), view_visible = (\<lambda>_ _. True), view_origin = (\<lambda>_ _. ((0, 0), (0, 0))),
     view_stacked = (\<lambda>_ _. True), view_of_window = (\<lambda>_ _. False)\<rparr>"

definition created :: "nat \<Rightarrow> nat scene \<Rightarrow> nat scene" where
  "created s st = st\<lparr>live := s # live st, surf := (surf st)(s := surface_new)\<rparr>"

definition sample_surfaces :: "nat scene" where
  "sample_surfaces = created 2 (created 1 (created 0
     \<lparr>live = [], live_subs = [], surf = (\<lambda>_. surface_new), sub = (\<lambda>_. zeroed_subsurface 0 0), world = 0\<rparr>))"

lemma sample_surfaces_eq:
  "sample_surfaces = \<lparr>live = [2, 1, 0], live_subs = [], surf = (\<lambda>_. surface_new), sub = (\<lambda>_. zeroed_subsurface 0 0), world = 0\<rparr>"
  by (simp add: sample_surfaces_def created_def fun_eq_iff)

lemma new_fields [simp]:
  "sf_sub surface_new = None" "sf_subs surface_new = []" "sf_view surface_new = None" "sf_role surface_new = None"
  "sf_role_name surface_new = None" "sf_state surface_new = state_initialize" "sf_pending surface_new = pending_initialize"
  "sf_cached surface_new = pending_initialize" "st_buffer state_initialize = None" "st_resource state_initialize = None"
  "pn_state pending_initialize = state_initialize" "pn_commit pending_initialize = 0" "st_above state_initialize = []"
  by (simp_all add: surface_new_def state_initialize_def pending_initialize_def)

lemma zeroed_fields [simp]:
  "ss_surface (zeroed_subsurface s p) = s" "ss_parent (zeroed_subsurface s p) = Some p" "ss_sync (zeroed_subsurface s p)"
  "\<not> ss_pending (zeroed_subsurface s p)" "ss_xy (zeroed_subsurface s p) = (0, 0)" "\<not> ss_added (zeroed_subsurface s p)" "order_dirty (zeroed_subsurface s p)"
  by (simp_all add: zeroed_subsurface_def)

lemmas sample_ops = sample_env_def get_subsurface_def subsurface_new_def Let_def
  surface_set_role_def create_view_def surface_set_view_def view_of_def subsurface_set_parent_view_def
  subsurface_update_position_def subsurface_update_visibility_def on_pending_order_def logical_buffer_def clamp_s32_def
  upd_surf_def upd_sub_def on_world_def

lemmas sample_walks = is_descendant_of_def surface_parent_def descends_loop.simps [of _ _ None]
  descends_loop.simps [of _ _ "Some p" for p] 



definition with_child :: "nat \<Rightarrow> surface \<Rightarrow> surface" where
  "with_child c x = x\<lparr>sf_subs := [c], sf_pending := pending_initialize\<lparr>pn_state := state_initialize\<lparr>st_above := [c]\<rparr>\<rparr>\<rparr>"

definition as_child :: "nat \<Rightarrow> nat \<Rightarrow> surface" where
  "as_child v c = surface_new\<lparr>sf_role_name := Some ''wl_subsurface'', sf_role := Some c, sf_view := Some v, sf_sub := Some c\<rparr>"

definition sample_child :: "nat scene" where
  "sample_child = \<lparr>live = [2, 1, 0], live_subs = [10],
     surf = (\<lambda>_. surface_new)(0 := with_child 10 (surface_new\<lparr>sf_view := Some 1\<rparr>), 1 := as_child 0 10),
     sub = (\<lambda>_. zeroed_subsurface 0 0)(10 := zeroed_subsurface 1 0\<lparr>ss_parent_view := Some 1, order_dirty := True\<rparr>), world = 2\<rparr>"

definition sample_nested :: "nat scene" where
  "sample_nested = sample_child\<lparr>live_subs := [20, 10],
     surf := (surf sample_child)(1 := with_child 20 (as_child 0 10), 2 := as_child 2 20),
     sub := (sub sample_child)(20 := zeroed_subsurface 2 1\<lparr>ss_parent_view := Some 0, order_dirty := True\<rparr>), world := 3\<rparr>"

lemma sample_links [simp]:
  "sf_sub (as_child v c) = Some c" "sf_subs (as_child v c) = []" "sf_view (as_child v c) = Some v"
  "sf_sub (with_child c x) = sf_sub x" "sf_subs (with_child c x) = [c]" "sf_view (with_child c x) = sf_view x"
  by (simp_all add: as_child_def with_child_def)

lemma sample_first: "get_subsurface sample_env True 10 1 0 sample_surfaces = Some (None, sample_child)"
  by (simp add: sample_ops sample_walks sample_surfaces_eq with_child_def as_child_def sample_child_def del: upd_fields)

lemma sample_second: "get_subsurface sample_env True 20 2 1 sample_child = Some (None, sample_nested)"
  by (simp add: sample_ops sample_walks with_child_def as_child_def sample_child_def sample_nested_def del: upd_fields)

lemma sample_sync: "subsurface_is_synchronized sample_nested 20 = Some True"
  by (simp add: synchronized_unfold [of _ 20] sample_nested_def)

definition sample_scene :: "nat scene" where
  "sample_scene = upd_surf 2 (run_request (bufs sample_env) (world sample_nested) (Attach (Some 7) 0 0))
     (upd_sub 20 (\<lambda>x. x\<lparr>ss_sync := False\<rparr>) sample_nested)"

lemma scene_sync: "subsurface_is_synchronized sample_scene 20 = Some True"
  by (simp add: synchronized_unfold [of _ 20] synchronized_unfold [of _ 10] sub_parent_def sample_scene_def sample_nested_def sample_child_def)

lemma sample_reachable: "scene_reachable sample_env sample_scene"
proof -
  have r: "scene_reachable sample_env \<lparr>live = [], live_subs = [], surf = (\<lambda>_. surface_new), sub = (\<lambda>_. zeroed_subsurface 0 0), world = 0\<rparr>"
    by (rule Start) simp_all
  have c: "scene_reachable sample_env (created s st)" if "scene_reachable sample_env st" "s \<notin> set (live st)" for s st
    unfolding created_def by (rule Step [OF that(1) Create [OF that(2)]])
  have 1: "scene_reachable sample_env sample_surfaces"
    unfolding sample_surfaces_def by (intro c r) (simp_all add: created_def)
  have 2: "scene_reachable sample_env sample_child"
    by (rule Step [OF 1], rule Get_subsurface [OF _ _ _ sample_first]) (simp_all add: sample_surfaces_eq)
  have 3: "scene_reachable sample_env sample_nested"
    by (rule Step [OF 2], rule Get_subsurface [OF _ _ _ sample_second]) (simp_all add: sample_child_def)
  let ?d = "upd_sub 20 (\<lambda>x. x\<lparr>ss_sync := False\<rparr>) sample_nested"
  have "subsurface_is_synchronized ?d 20 = Some True"
    by (simp add: synchronized_unfold [of _ 20] synchronized_unfold [of _ 10] sub_parent_def sample_nested_def sample_child_def)
  then have "set_desync sample_env 20 sample_nested = Some ?d" by (simp add: set_desync_def sample_sync Let_def)
  then have 4: "scene_reachable sample_env ?d"
    by (intro Step [OF 3] Set_desync [of 20]) (simp_all add: sample_nested_def)
  show ?thesis unfolding sample_scene_def
    by (rule Step [OF 4], rule Request [of 2 ?d "sample_env" "Attach (Some 7) 0 0", simplified]) (simp add: sample_nested_def sample_child_def)
qed

lemma scene_fields:
  "live sample_scene = [2, 1, 0]" "live_subs sample_scene = [20, 10]" "sf_sub (surf sample_scene 2) = Some 20"
  "sf_sub (surf sample_scene 0) = None" "sf_subs (surf sample_scene 0) = [10]" "ss_parent (sub sample_scene 20) = Some 1"
  "sf_sub (surf sample_scene 1) = Some 10" "sf_subs (surf sample_scene 1) = [20]" "ss_sync (sub sample_scene 10)"
  "\<not> ss_sync (sub sample_scene 20)" "\<not> ss_pending (sub sample_scene 10)" "ss_surface (sub sample_scene 20) = 2"
  "ss_parent (sub sample_scene 10) = Some 0" "ss_surface (sub sample_scene 10) = 1"
  by (simp_all add: sample_scene_def sample_nested_def sample_child_def del: run_request.simps)


theorem subsurface_tree_witness: "acyclic (child_of sample_scene) \<and> (2, 1) \<in> child_of sample_scene"
proof
  show "acyclic (child_of sample_scene)" by (rule conjunct1 [OF subsurface_tree [OF sample_reachable]])
  show "(2, 1) \<in> child_of sample_scene" by (simp add: child_of_def surface_parent_def scene_fields)
qed

theorem commit_returns_witness: "commit sample_env 2 sample_scene \<noteq> None \<and> set_desync sample_env 20 sample_scene \<noteq> None"
  using commit_returns [OF sample_reachable, of 2 20 0 30] by (simp add: scene_fields)

text \<open>The commit of the inner child waits for its parent.\<close>

lemma latest_cache: "latest (cache_pending B w x) = latest x"
  unfolding cache_pending_def Let_def by (simp add: latest_def)

lemma order_contents:
  "latest (on_state Cached f x) = latest x"
  "cached_contents (on_state Cached (\<lambda>t. t\<lparr>st_below := b t, st_above := a t\<rparr>) x) = cached_contents x"
  by (simp_all add: latest_def cached_contents_def change_def)

definition waiting_scene :: "nat scene" where
  "waiting_scene = the (commit sample_env 2 sample_scene)"

lemma sample_commit:
  defines "x \<equiv> cache_pending (bufs sample_env) (world sample_scene) (surf (commit_start 2 sample_scene) 2)"
  shows "commit sample_env 2 sample_scene = Some waiting_scene"
    "waiting_scene = upd_sub 20 (\<lambda>x. x\<lparr>ss_pending := True\<rparr>) (upd_surf 2 (\<lambda>_.
       on_state Cached (\<lambda>t. t\<lparr>st_below := st_below t @ st_below (slot_state Pending x),
         st_above := st_above t @ st_above (slot_state Pending x)\<rparr>) x) sample_scene)"
proof -
  define a where "a = upd_surf 2 (cache_pending (bufs sample_env) (world sample_scene)) (commit_start 2 sample_scene)"
  have "2 \<in> set (live sample_scene)" by (simp add: scene_fields)
  with reachable_tree [OF sample_reachable]
  have run: "commit sample_env 2 sample_scene = Some (upd_sub 20 (\<lambda>x. x\<lparr>ss_pending := True\<rparr>) (subsurface_cache_parent_commit 2 a))"
  proof (cases rule: commit_cases [where E = sample_env])
    case direct
    then show ?thesis by (simp add: scene_fields scene_sync)
  next
    case (unread c r)
    then show ?thesis by (simp add: sample_env_def)
  next
    case (cached c)
    then show ?thesis by (simp add: scene_fields a_def)
  qed
  then show "commit sample_env 2 sample_scene = Some waiting_scene" by (simp add: waiting_scene_def)
  have c: "sf_subs (surf a 2) = []"
    by (simp add: a_def commit_start_def sample_scene_def sample_nested_def sample_child_def del: run_request.simps)
  have "a = upd_surf 2 (\<lambda>_. x) sample_scene" by (simp add: a_def x_def commit_start_def upd_surf_def)
  moreover have same: "on_state Cached (\<lambda>t. t) x = x" for x by simp
  moreover have "slot_state Pending (surf a 2) = slot_state Pending x" by (simp add: a_def x_def commit_start_def)
  ultimately show "waiting_scene = upd_sub 20 (\<lambda>x. x\<lparr>ss_pending := True\<rparr>) (upd_surf 2 (\<lambda>_.
       on_state Cached (\<lambda>t. t\<lparr>st_below := st_below t @ st_below (slot_state Pending x),
         st_above := st_above t @ st_above (slot_state Pending x)\<rparr>) x) sample_scene)"
    unfolding waiting_scene_def run option.sel subsurface_cache_parent_commit_def Let_def c
    by (simp add: upd_surf_def same del: slot_state.simps on_state.simps)
qed

lemma sample_waits:
  shows "scene_reachable sample_env waiting_scene" "same_tree sample_scene waiting_scene"
    "ss_pending (sub waiting_scene 20)" "surf waiting_scene 0 = surf sample_scene 0" "waiting waiting_scene = {20}"
    "ss_sync (sub waiting_scene c) = ss_sync (sub sample_scene c)" "pn_commit (sf_pending (surf waiting_scene 2)) = 0"
    "latest (surf waiting_scene 2) = latest surface_new"
    "cached_contents (surf waiting_scene 2) = latest surface_new\<lparr>k_buffer := Some 107, k_resource := Some 7\<rparr>"
proof -
  note run = sample_commit(1) and s = sample_commit(2)
  have l: "2 \<in> set (live sample_scene)" by (simp add: scene_fields)
  show "scene_reachable sample_env waiting_scene" by (rule Step [OF sample_reachable Commit [OF l run]])
  show "same_tree sample_scene waiting_scene"
    using commit_returned [OF reachable_tree [OF sample_reachable] l, of sample_env] run by simp
  show "ss_pending (sub waiting_scene 20)" "surf waiting_scene 0 = surf sample_scene 0"
    "ss_sync (sub waiting_scene c) = ss_sync (sub sample_scene c)"
    by (simp_all add: s)
  show "waiting waiting_scene = {20}" by (auto simp: waiting_def s scene_fields)
  let ?x = "surf (commit_start 2 sample_scene) 2"
  have x: "sf_pending ?x = pending_initialize\<lparr>pn_commit := COMMIT_ATTACH,
      pn_state := state_initialize\<lparr>st_buffer := Some 107, st_resource := Some 7\<rparr>, pn_x := 0, pn_y := 0\<rparr>"
    "sf_cached ?x = pending_initialize" "latest ?x = latest surface_new"
    by (simp_all add: commit_start_def sample_scene_def sample_nested_def as_child_def attach_def on_pending_def
      state_set_buffer_def sample_env_def latest_def)
  have fl: "callbacks_flagged (sf_pending ?x)" "callbacks_flagged (sf_cached ?x)"
    by (simp_all add: x callbacks_flagged_def state_initialize_def)
  let ?y = "cache_pending (bufs sample_env) (world sample_scene) ?x"
  have "pn_commit (spent x) = 0" for x by (simp add: spent_def)
  then have "pn_commit (sf_pending ?y) = 0"
    using cache_spends [of "bufs sample_env" "world sample_scene" ?x] by (auto simp: same_pending_def)
  then show "pn_commit (sf_pending (surf waiting_scene 2)) = 0" by (simp add: s)
  have "latest (surf waiting_scene 2) = latest ?x" "cached_contents (surf waiting_scene 2) = cached_contents ?y"
    by (simp_all add: s latest_cache order_contents del: on_state.simps)
  moreover have "change (sf_pending ?x) (cached_contents ?x) = latest surface_new\<lparr>k_buffer := Some 107, k_resource := Some 7\<rparr>"
    unfolding cached_contents_def x by (rule contents.equality) (simp_all add: change_def has_def commit_flags)
  ultimately show "latest (surf waiting_scene 2) = latest surface_new"
    "cached_contents (surf waiting_scene 2) = latest surface_new\<lparr>k_buffer := Some 107, k_resource := Some 7\<rparr>"
    by (simp_all add: cache_composes [OF fl] x(3))
qed

lemma sample_presentable: "caches_presentable sample_env waiting_scene"
  using same_treeD(6) [OF sample_waits(2), of 20]
  by (simp add: caches_presentable_def scene_fields sample_waits(5,9) presentable_def logical_buffer_def latest_def
    state_initialize_def Let_def)

lemma sample_readable: "\<forall>w r. buffer_read (bufs sample_env) w r"
  by (simp add: sample_env_def)


theorem desync_loses_cached_state_witness:
  "\<exists>st1 st2. k_buffer (cached_contents (surf waiting_scene 2)) = Some 107 \<and>
    set_desync sample_env 10 waiting_scene = Some st1 \<and> commit sample_env 2 st1 = Some st2 \<and> \<not> ss_pending (sub st2 20) \<and>
    k_buffer (latest (surf st2 2)) = None"
proof -
  let ?st = waiting_scene
  note d = same_treeD [OF sample_waits(2)] scene_fields sample_waits(6)
  have l: "20 \<in> set (live_subs ?st)" "10 \<in> set (live_subs ?st)" by (simp_all add: d)
  have up: "sub_parent ?st 20 = Some 10" "sub_parent ?st 10 = None" by (simp_all add: sub_parent_def d del: One_nat_def)
  have "10 \<notin> waiting ?st" by (simp add: sample_waits(5))
  then have np: "\<not> ss_pending (sub ?st 10)" using l(2) by (simp add: waiting_def)
  have y: "ss_sync (sub ?st 10)" "\<not> ss_sync (sub ?st 20)" "2 = ss_surface (sub ?st 20)" by (simp_all add: d)
  have new: "change (sf_pending (surf ?st 2)) (latest (surf ?st 2)) = latest surface_new"
    unfolding sample_waits(8) by (rule contents.equality) (simp_all add: change_def sample_waits(7) has_def)
  have p: "presentable sample_env (change (sf_pending (surf ?st 2)) (latest (surf ?st 2)))"
    unfolding new by (simp add: presentable_def latest_def)
  have n: "(20 :: nat) \<noteq> 10" by simp
  obtain st1 st2 where "set_desync sample_env 10 ?st = Some st1" "commit sample_env 2 st1 = Some st2"
    "\<not> ss_pending (sub st2 20)" "latest (surf st2 2) = latest surface_new"
    using desync_loses_cached_state [OF sample_waits(1) l up y(1) np y(2) sample_waits(3) n y(3) p sample_presentable sample_readable]
    unfolding new by blast
  then show ?thesis by (intro exI [of _ st1] exI [of _ st2]) (simp add: sample_waits(9), simp add: latest_def)
qed

theorem sync_commit_invisible_witness:
  "world waiting_scene = world sample_scene \<and> st_buffer (sf_state (surf waiting_scene 2)) = None"
proof -
  have "sf_state (surf sample_scene 2) = state_initialize"
    by (simp add: sample_scene_def sample_nested_def as_child_def attach_def on_pending_def state_set_buffer_def sample_env_def)
  then show ?thesis
    using sync_commit_invisible [OF sample_reachable _ _ scene_sync sample_commit(1)] by (simp add: scene_fields)
qed

end
