(* ===== verification/Data_Source.thy ===== *)
theory Data_Source
  imports Prelude
begin

text \<open>
  Data sources and offers (\<open>libswc/data.c\<close>): what a client, or the compositor itself, offers to others
  through the clipboard and drag and drop, and the offers handed out for it.

  A source outlives none of its offers: an offer keeps a pointer to the data of its source, and clients may use the
  offer after the source is gone.  The store says which data is allocated; using other data sets \<open>ds_fault\<close>.
\<close>

section \<open>State\<close>

text \<open>\<open>dt_source\<close> is \<open>NULL\<close> when the compositor owns the data; then \<open>dt_impl\<close> answers for it.\<close>

record data =
  mime_types :: "string list"
  dt_source :: "nat option"
  dt_impl :: "nat option"
  dt_offers :: "nat list"
  dnd_actions :: mask

datatype data_event =
    Send_target nat "string option"
  | Send_send nat string int
  | Send_cancelled nat
  | Impl_send nat string int
  | Impl_cancelled nat
  | Close int
  | Offer_mime nat string
  | Source_no_memory nat

text \<open>
  \<open>source_data\<close> and \<open>offer_data\<close> are the user data of the resources; an offer in \<open>offer_unlinks\<close> has
  the destructor that takes it off the list of its data.
\<close>

record data_store =
  data_at :: "nat \<Rightarrow> data"
  allocated :: "nat list"
  source_data :: "nat \<Rightarrow> nat option"
  offer_data :: "nat \<Rightarrow> nat option"
  offer_unlinks :: "nat list"
  ds_fault :: bool
  ds_log :: "data_event list"

definition DND_NONE :: mask where "DND_NONE = 0"
definition DND_COPY :: mask where "DND_COPY = 1"
definition DND_MOVE :: mask where "DND_MOVE = 2"
definition DND_ASK :: mask where "DND_ASK = 4"
definition DATA_DND_ACTION_ALL :: mask where "DATA_DND_ACTION_ALL = DND_COPY OR DND_MOVE OR DND_ASK"

definition ds_emit :: "data_event list \<Rightarrow> data_store \<Rightarrow> data_store" where
  "ds_emit es s = s\<lparr>ds_log := ds_log s @ es\<rparr>"

text \<open>Every use of a pointer to data goes through here.\<close>

definition touch :: "nat \<Rightarrow> data_store \<Rightarrow> data_store" where
  "touch d s = s\<lparr>ds_fault := ds_fault s \<or> d \<notin> set (allocated s)\<rparr>"

definition upd_data :: "nat \<Rightarrow> (data \<Rightarrow> data) \<Rightarrow> data_store \<Rightarrow> data_store" where
  "upd_data d f s = (let s = touch d s in s\<lparr>data_at := (data_at s)(d := f (data_at s d))\<rparr>)"

text \<open>\<open>wl_resource_find_for_client\<close>: the first resource of the client.\<close>

definition device_for :: "(nat \<times> nat) list \<Rightarrow> nat \<Rightarrow> nat option" where
  "device_for rs client = map_option fst (find (\<lambda>(r, k). k = client) rs)"

section \<open>Requests on offers\<close>

text \<open>\<open>accept\<close> up to the call into the drag, which is in \<open>Drag\<close>: \<open>False\<close> when the offer has expired.\<close>

definition offer_accept :: "nat \<Rightarrow> string option \<Rightarrow> data_store \<Rightarrow> bool \<times> data_store" where
  "offer_accept offer mime s =
     (case offer_data s offer of None \<Rightarrow> (False, s)
      | Some d \<Rightarrow>
          let s = touch d s
          in (True, case dt_source (data_at s d) of None \<Rightarrow> s | Some r \<Rightarrow> ds_emit [Send_target r mime] s))"

definition data_send :: "nat option \<Rightarrow> string \<Rightarrow> int \<Rightarrow> data_store \<Rightarrow> data_store" where
  "data_send d mime fd s =
     (case d of None \<Rightarrow> ds_emit [Close fd] s
      | Some d \<Rightarrow>
          let s = touch d s
          in case dt_impl (data_at s d) of
               Some i \<Rightarrow> ds_emit [Impl_send i mime fd] s
             | None \<Rightarrow> (case dt_source (data_at s d) of None \<Rightarrow> s\<lparr>ds_fault := True\<rparr>
                        | Some r \<Rightarrow> ds_emit [Send_send r mime fd, Close fd] s))"

definition offer_receive :: "nat \<Rightarrow> string \<Rightarrow> int \<Rightarrow> data_store \<Rightarrow> data_store" where
  "offer_receive offer mime fd s =
     (case offer_data s offer of None \<Rightarrow> ds_emit [Close fd] s | Some d \<Rightarrow> data_send (Some d) mime fd s)"

section \<open>Sources\<close>

text \<open>\<open>copied\<close> and \<open>added\<close>: whether \<open>strdup\<close> and \<open>wl_array_add\<close> get memory.\<close>

definition source_offer :: "bool \<Rightarrow> bool \<Rightarrow> nat \<Rightarrow> string \<Rightarrow> data_store \<Rightarrow> data_store" where
  "source_offer copied added source mime s =
     (case source_data s source of None \<Rightarrow> s\<lparr>ds_fault := True\<rparr>
      | Some d \<Rightarrow>
          if \<not> copied \<or> \<not> added then ds_emit [Source_no_memory source] s
          else upd_data d (\<lambda>x. x\<lparr>mime_types := mime_types x @ [mime]\<rparr>) s)"

definition source_set_actions :: "nat \<Rightarrow> mask \<Rightarrow> data_store \<Rightarrow> data_store" where
  "source_set_actions source actions s =
     (case source_data s source of None \<Rightarrow> s\<lparr>ds_fault := True\<rparr>
      | Some d \<Rightarrow> upd_data d (\<lambda>x. x\<lparr>dnd_actions := actions AND DATA_DND_ACTION_ALL\<rparr>) s)"

definition data_source_actions :: "nat \<Rightarrow> data_store \<Rightarrow> mask" where
  "data_source_actions source s = (case source_data s source of None \<Rightarrow> 0 | Some d \<Rightarrow> dnd_actions (data_at s d))"

definition new_data :: "nat option \<Rightarrow> nat option \<Rightarrow> data" where
  "new_data source impl = \<lparr>mime_types = [], dt_source = source, dt_impl = impl, dt_offers = [], dnd_actions = 0\<rparr>"

text \<open>\<open>d\<close> is the address \<open>malloc\<close> returns, \<open>r\<close> the new resource.\<close>

definition data_source_new :: "nat option \<Rightarrow> nat option \<Rightarrow> data_store \<Rightarrow> nat option \<times> data_store" where
  "data_source_new d r s =
     (case (d, r) of
        (Some d, Some r) \<Rightarrow> (Some r, s\<lparr>data_at := (data_at s)(d := new_data (Some r) None), allocated := d # allocated s,
           source_data := (source_data s)(r := Some d)\<rparr>)
      | _ \<Rightarrow> (None, s))"

definition data_create_internal :: "nat option \<Rightarrow> nat \<Rightarrow> data_store \<Rightarrow> nat option \<times> data_store" where
  "data_create_internal d impl s =
     (case d of None \<Rightarrow> (None, s)
      | Some d \<Rightarrow> (Some d, s\<lparr>data_at := (data_at s)(d := new_data None (Some impl)), allocated := d # allocated s\<rparr>))"

definition data_add_mime_type :: "bool \<Rightarrow> bool \<Rightarrow> nat \<Rightarrow> string \<Rightarrow> data_store \<Rightarrow> bool \<times> data_store" where
  "data_add_mime_type copied added d mime s =
     (if \<not> copied \<or> \<not> added then (False, s) else (True, upd_data d (\<lambda>x. x\<lparr>mime_types := mime_types x @ [mime]\<rparr>) s))"

text \<open>The offers lose their data, and with it the destructor that would unlink them from a list that is freed.\<close>

definition free_data :: "nat \<Rightarrow> data_store \<Rightarrow> data_store" where
  "free_data d s =
     (let s = touch d s; os = dt_offers (data_at s d)
      in s\<lparr>offer_data := (\<lambda>x. if x \<in> set os then None else offer_data s x),
           offer_unlinks := filter (\<lambda>x. x \<notin> set os) (offer_unlinks s), allocated := removeAll d (allocated s)\<rparr>)"

definition data_destroy :: "nat \<Rightarrow> data_store \<Rightarrow> data_store" where
  "data_destroy source s =
     (case source_data s source of None \<Rightarrow> s\<lparr>ds_fault := True\<rparr>
      | Some d \<Rightarrow> (free_data d s)\<lparr>source_data := (source_data s)(source := None)\<rparr>)"

definition data_destroy_internal :: "nat option \<Rightarrow> data_store \<Rightarrow> data_store" where
  "data_destroy_internal d s = (case d of None \<Rightarrow> s | Some d \<Rightarrow> free_data d s)"

definition data_from_source :: "nat option \<Rightarrow> data_store \<Rightarrow> nat option" where
  "data_from_source source s = (case source of None \<Rightarrow> None | Some r \<Rightarrow> source_data s r)"

definition data_internal_owner :: "nat option \<Rightarrow> data_store \<Rightarrow> nat option" where
  "data_internal_owner d s = (case d of None \<Rightarrow> None | Some d \<Rightarrow> dt_impl (data_at s d))"

section \<open>Offers\<close>

text \<open>\<open>r\<close>: the resource, when it can be had.\<close>

definition data_offer_new_for :: "nat option \<Rightarrow> nat option \<Rightarrow> data_store \<Rightarrow> nat option \<times> data_store" where
  "data_offer_new_for r d s =
     (case (d, r) of
        (Some d, Some r) \<Rightarrow> (Some r, upd_data d (\<lambda>x. x\<lparr>dt_offers := r # dt_offers x\<rparr>)
           (s\<lparr>offer_data := (offer_data s)(r := Some d), offer_unlinks := r # offer_unlinks s\<rparr>))
      | _ \<Rightarrow> (None, s))"

definition data_offer_new :: "nat option \<Rightarrow> nat option \<Rightarrow> data_store \<Rightarrow> nat option \<times> data_store" where
  "data_offer_new r source s = data_offer_new_for r (data_from_source source s) s"

definition data_send_mime_types_for :: "nat option \<Rightarrow> nat \<Rightarrow> data_store \<Rightarrow> data_store" where
  "data_send_mime_types_for d offer s =
     (case d of None \<Rightarrow> s
      | Some d \<Rightarrow> let s = touch d s in ds_emit (map (Offer_mime offer) (mime_types (data_at s d))) s)"

definition data_send_mime_types :: "nat option \<Rightarrow> nat \<Rightarrow> data_store \<Rightarrow> data_store" where
  "data_send_mime_types source offer s = data_send_mime_types_for (data_from_source source s) offer s"

text \<open>The destruction of an offer's resource: \<open>remove_resource\<close>, while it is the destructor, unlinks it.\<close>

definition offer_destroy :: "nat \<Rightarrow> data_store \<Rightarrow> data_store" where
  "offer_destroy offer s =
     (if offer \<in> set (offer_unlinks s)
      then
        let s = s\<lparr>offer_unlinks := removeAll offer (offer_unlinks s)\<rparr>
        in case offer_data s offer of None \<Rightarrow> s\<lparr>ds_fault := True\<rparr>
           | Some d \<Rightarrow> (upd_data d (\<lambda>x. x\<lparr>dt_offers := removeAll offer (dt_offers x)\<rparr>) s)\<lparr>offer_data := (offer_data s)(offer := None)\<rparr>
      else s)"

end
