(* ===== verification/Drag.thy ===== *)
theory Drag
  imports Data_Source
begin

text \<open>
  Drag and drop (\<open>libswc/drag.c\<close>): the one drag of the seat, from the button that starts it to the drop and to
  what the destination says of the drop afterwards.

  Each object the drag refers to has a listener on its destroy signal.  The field of a listener is the object it is
  on; taking a listener off when it is on none sets \<open>dg_fault\<close>, for it would corrupt a list.
\<close>

section \<open>State\<close>

datatype drag_event =
    Offer_action nat mask | Source_action nat mask | Offer_source_actions nat mask | Device_data_offer nat nat
  | Device_leave nat | Device_enter nat nat int int "nat option" | Device_motion nat int int int | Device_drop nat
  | Drop_performed nat | Drag_cancelled nat | Drag_finished nat
  | Icon_moved nat int int | Icon_shown nat | Icon_view_destroyed nat
  | Refocus | Pointer_cleared | Role_error nat | Client_no_memory nat

text \<open>\<open>dg_pointer_hook\<close> and \<open>dg_keyboard_hook\<close>: whether the handlers are in the lists of the devices.
  \<open>dg_button_grab\<close>: the button whose release comes to the drag's handler.\<close>

record drag =
  dg_active :: bool
  dg_dropped :: bool
  dg_button :: nat
  dg_source :: "nat option"
  dg_source_hook :: "nat option"
  dg_focus :: "nat option"
  dg_focus_hook :: "nat option"
  dg_device :: "nat option"
  dg_device_hook :: "nat option"
  dg_offer :: "nat option"
  dg_offer_hook :: "nat option"
  dg_accepted :: bool
  offer_actions :: mask
  preferred_action :: mask
  dg_action :: mask
  dg_icon :: "nat option"
  dg_icon_hooks :: "nat option"
  icon_view :: "nat option"
  icon_at :: "int \<times> int"
  dg_pointer_hook :: bool
  dg_keyboard_hook :: bool
  dg_devices :: "(nat \<times> nat) list"
  dg_store :: data_store
  dg_fault :: bool
  dg_log :: "drag_event list"

text \<open>
  What the drag reads of the other components and of libwayland: the version of a resource, the surface of a view and
  its client, the place of a view, the pointer in fixed-point coordinates, the view at a point, what part of a
  decoration is there, and the resource a new offer gets.
\<close>

record drag_env =
  version :: "nat \<Rightarrow> nat"
  surface_of :: "nat \<Rightarrow> nat option"
  client_of :: "nat \<Rightarrow> nat"
  view_place :: "nat \<Rightarrow> int \<times> int"
  buffer_offset_of :: "nat \<Rightarrow> int \<times> int"
  pointer_at :: "int \<times> int"
  fixed_to_int :: "int \<Rightarrow> int"
  fixed_from_int :: "int \<Rightarrow> int"
  view_at :: "int \<Rightarrow> int \<Rightarrow> nat option"
  titlebar_at :: "nat \<Rightarrow> int \<Rightarrow> int \<Rightarrow> int"
  offer_resource :: "nat option"

definition dg_emit :: "drag_event list \<Rightarrow> drag \<Rightarrow> drag" where
  "dg_emit es d = d\<lparr>dg_log := dg_log d @ es\<rparr>"

text \<open>\<open>wl_list_remove\<close> of a listener that must be on a list.\<close>

definition must :: "bool \<Rightarrow> drag \<Rightarrow> drag" where
  "must b d = d\<lparr>dg_fault := dg_fault d \<or> \<not> b\<rparr>"

section \<open>The action\<close>

definition send_action :: "drag_env \<Rightarrow> drag \<Rightarrow> drag" where
  "send_action e d =
     (let d = (case dg_offer d of None \<Rightarrow> d | Some x \<Rightarrow> if version e x \<ge> 3 then dg_emit [Offer_action x (dg_action d)] d else d)
      in case dg_source d of None \<Rightarrow> d | Some s \<Rightarrow> if version e s \<ge> 3 then dg_emit [Source_action s (dg_action d)] d else d)"

definition compute_action :: "drag_env \<Rightarrow> drag \<Rightarrow> mask" where
  "compute_action e d =
     (case dg_offer d of None \<Rightarrow> DND_NONE
      | Some x \<Rightarrow>
          if version e x < 3 \<or> (case dg_source d of None \<Rightarrow> False | Some s \<Rightarrow> version e s < 3) then DND_COPY
          else
            let source_actions = (case dg_source d of None \<Rightarrow> DATA_DND_ACTION_ALL | Some s \<Rightarrow> data_source_actions s (dg_store d));
                matched = source_actions AND offer_actions d
            in if matched = 0 then DND_NONE
               else if preferred_action d AND matched \<noteq> 0 then preferred_action d
               else if matched AND DND_COPY \<noteq> 0 then DND_COPY
               else if matched AND DND_MOVE \<noteq> 0 then DND_MOVE
               else DND_ASK)"

definition update_action :: "drag_env \<Rightarrow> drag \<Rightarrow> drag" where
  "update_action e d =
     (if compute_action e d = dg_action d then d else send_action e (d\<lparr>dg_action := compute_action e d\<rparr>))"

section \<open>Letting go\<close>

definition release_source :: "drag \<Rightarrow> drag" where
  "release_source d =
     (if dg_source d \<noteq> None then (must (dg_source_hook d \<noteq> None) d)\<lparr>dg_source_hook := None, dg_source := None\<rparr> else d)"

definition forget_focus :: "drag \<Rightarrow> drag" where
  "forget_focus d =
     (let d = (if dg_offer d \<noteq> None then (must (dg_offer_hook d \<noteq> None) d)\<lparr>dg_offer_hook := None, dg_offer := None\<rparr> else d);
          d = (if dg_focus d \<noteq> None then (must (dg_focus_hook d \<noteq> None) d)\<lparr>dg_focus_hook := None, dg_focus := None\<rparr> else d);
          d = (if dg_device d \<noteq> None then (must (dg_device_hook d \<noteq> None) d)\<lparr>dg_device_hook := None, dg_device := None\<rparr> else d)
      in d\<lparr>dg_accepted := False, offer_actions := 0, preferred_action := DND_NONE, dg_action := DND_NONE\<rparr>)"

definition leave_focus :: "drag_env \<Rightarrow> drag \<Rightarrow> drag" where
  "leave_focus e d =
     (let d = (case dg_device d of None \<Rightarrow> d | Some r \<Rightarrow> dg_emit [Device_leave r] d)
      in send_action e (forget_focus d))"

definition move_icon :: "drag_env \<Rightarrow> drag \<Rightarrow> drag" where
  "move_icon e d =
     (case icon_view d of None \<Rightarrow> d
      | Some v \<Rightarrow> dg_emit [Icon_moved v (s32 (fixed_to_int e (fst (pointer_at e)) + fst (icon_at d)))
          (s32 (fixed_to_int e (snd (pointer_at e)) + snd (icon_at d)))] d)"

text \<open>\<open>compositor_view_destroy\<close> and \<open>compositor_view_show\<close> need a view that is not \<open>NULL\<close>.\<close>

definition with_icon_view :: "(nat \<Rightarrow> drag_event) \<Rightarrow> drag \<Rightarrow> drag" where
  "with_icon_view ev d = (case icon_view d of None \<Rightarrow> must False d | Some v \<Rightarrow> dg_emit [ev v] d)"

definition destroy_icon :: "drag \<Rightarrow> drag" where
  "destroy_icon d =
     (if dg_icon d = None then d
      else (with_icon_view Icon_view_destroyed (must (dg_icon_hooks d \<noteq> None) d))
        \<lparr>dg_icon_hooks := None, dg_icon := None, icon_view := None\<rparr>)"

definition handle_icon_destroy :: "drag \<Rightarrow> drag" where
  "handle_icon_destroy d =
     (with_icon_view Icon_view_destroyed (must (dg_icon_hooks d \<noteq> None) d))
       \<lparr>dg_icon_hooks := None, dg_icon := None, icon_view := None\<rparr>"

text \<open>\<open>pending\<close> is the offset of the attach of the commit, which the handler takes.\<close>

definition handle_icon_commit :: "drag_env \<Rightarrow> int \<times> int \<Rightarrow> bool \<Rightarrow> drag \<Rightarrow> drag" where
  "handle_icon_commit e pending has_buffer d =
     (let d = move_icon e (d\<lparr>icon_at := (s32 (fst (icon_at d) + fst pending), s32 (snd (icon_at d) + snd pending))\<rparr>)
      in if has_buffer then with_icon_view Icon_shown d else d)"

text \<open>\<open>v\<close>: the view \<open>compositor_create_view\<close> makes.\<close>

definition create_icon :: "drag_env \<Rightarrow> nat option \<Rightarrow> nat \<Rightarrow> bool \<Rightarrow> drag \<Rightarrow> bool \<times> drag" where
  "create_icon e v surface has_buffer d =
     (case v of None \<Rightarrow> (False, d\<lparr>icon_view := None\<rparr>)
      | Some v \<Rightarrow>
          let d = move_icon e (d\<lparr>icon_view := Some v, dg_icon := Some surface, icon_at := (0, 0), dg_icon_hooks := Some surface\<rparr>)
          in (True, if has_buffer then dg_emit [Icon_shown v] d else d))"

definition end_grab :: "drag \<Rightarrow> drag" where
  "end_grab d =
     (if \<not> dg_active d then d
      else destroy_icon ((must (dg_pointer_hook d \<and> dg_keyboard_hook d) d)
        \<lparr>dg_active := False, dg_pointer_hook := False, dg_keyboard_hook := False\<rparr>))"

definition restore_pointer :: "drag \<Rightarrow> drag" where
  "restore_pointer d = (if dg_active d \<or> dg_dropped d then d else dg_emit [Refocus] d)"

definition cancel_source :: "drag \<Rightarrow> drag" where
  "cancel_source d = (case dg_source d of None \<Rightarrow> d | Some s \<Rightarrow> release_source (dg_emit [Drag_cancelled s] d))"

definition cancel_drag :: "drag_env \<Rightarrow> drag \<Rightarrow> drag" where
  "cancel_drag e d = restore_pointer ((cancel_source (leave_focus e (end_grab d)))\<lparr>dg_dropped := False\<rparr>)"

section \<open>Objects that go away\<close>

definition handle_offer_destroy :: "drag \<Rightarrow> drag" where
  "handle_offer_destroy d =
     (let d = d\<lparr>dg_offer_hook := None, dg_offer := None, dg_accepted := False\<rparr>
      in if dg_dropped d then restore_pointer (cancel_source (d\<lparr>dg_dropped := False\<rparr>)) else d)"

definition handle_device_destroy :: "drag \<Rightarrow> drag" where
  "handle_device_destroy d =
     (let d = forget_focus (d\<lparr>dg_device_hook := None, dg_device := None\<rparr>)
      in restore_pointer (if dg_dropped d then cancel_source (d\<lparr>dg_dropped := False\<rparr>) else d))"

definition handle_focus_destroy :: "drag_env \<Rightarrow> drag \<Rightarrow> drag" where
  "handle_focus_destroy e d = leave_focus e d"

definition handle_source_destroy :: "drag_env \<Rightarrow> drag \<Rightarrow> drag" where
  "handle_source_destroy e d =
     (let d = d\<lparr>dg_source_hook := None, dg_source := None\<rparr>
      in if dg_active d \<or> dg_dropped d
         then restore_pointer (leave_focus e ((end_grab d)\<lparr>dg_dropped := False\<rparr>)) else d)"

section \<open>The view under the pointer\<close>

definition surface_coords :: "drag_env \<Rightarrow> nat \<Rightarrow> int \<times> int" where
  "surface_coords e v =
     (s32 (fst (pointer_at e) - fixed_from_int e (s32 (fst (view_place e v) - fst (buffer_offset_of e v)))),
      s32 (snd (pointer_at e) - fixed_from_int e (s32 (snd (view_place e v) - snd (buffer_offset_of e v)))))"

text \<open>The part of \<open>set_focus\<close> that makes the offer; \<open>None\<close> when the client is out of memory.\<close>

definition make_offer :: "drag_env \<Rightarrow> nat \<Rightarrow> nat \<Rightarrow> drag \<Rightarrow> nat option option \<times> drag" where
  "make_offer e client device d =
     (case dg_source d of None \<Rightarrow> (Some None, d)
      | Some s \<Rightarrow>
          let (x, st) = data_offer_new (offer_resource e) (Some s) (dg_store d); d = d\<lparr>dg_store := st\<rparr>
          in case x of None \<Rightarrow> (None, dg_emit [Client_no_memory client] d)
             | Some x \<Rightarrow>
                 let d = dg_emit [Device_data_offer device x] d;
                     d = d\<lparr>dg_store := data_send_mime_types (Some s) x (dg_store d)\<rparr>;
                     d = (if version e x \<ge> 3 then dg_emit [Offer_source_actions x (data_source_actions s (dg_store d))] d else d)
                 in (Some (Some x), d\<lparr>dg_offer := Some x, dg_offer_hook := Some x\<rparr>))"

definition drag_set_focus :: "drag_env \<Rightarrow> nat option \<Rightarrow> drag \<Rightarrow> drag" where
  "drag_set_focus e view d =
     (if view = dg_focus d then d
      else
        let d = leave_focus e d
        in case view of None \<Rightarrow> d
           | Some v \<Rightarrow>
              (case surface_of e v of None \<Rightarrow> d
               | Some surface \<Rightarrow>
                   let d = d\<lparr>dg_focus := Some v, dg_focus_hook := Some v\<rparr>; client = client_of e surface
                   in case device_for (dg_devices d) client of None \<Rightarrow> d
                      | Some device \<Rightarrow>
                          (case make_offer e client device d of
                             (None, d) \<Rightarrow> d
                           | (Some x, d) \<Rightarrow>
                               update_action e (dg_emit [Device_enter device surface (fst (surface_coords e v)) (snd (surface_coords e v)) x]
                                 (d\<lparr>dg_device := Some device, dg_device_hook := Some device\<rparr>)))))"

section \<open>The grab\<close>

definition drop_drag :: "drag_env \<Rightarrow> drag \<Rightarrow> drag" where
  "drop_drag e d =
     (let deliver = dg_device d \<noteq> None \<and> dg_offer d \<noteq> None \<and> dg_accepted d \<and> dg_action d \<noteq> DND_NONE; d = end_grab d
      in if \<not> deliver then cancel_drag e d
         else
           let d = (case dg_device d of None \<Rightarrow> d | Some r \<Rightarrow> dg_emit [Device_drop r] d)
           in case dg_source d of
                Some s \<Rightarrow>
                  if version e s \<ge> 3 then (dg_emit [Drop_performed s] d)\<lparr>dg_dropped := True\<rparr>
                  else restore_pointer (leave_focus e (release_source d))
              | None \<Rightarrow> restore_pointer (leave_focus e (release_source d)))"

definition handle_motion :: "drag_env \<Rightarrow> int \<Rightarrow> int \<Rightarrow> int \<Rightarrow> drag \<Rightarrow> bool \<times> drag" where
  "handle_motion e time x y d =
     (if \<not> dg_active d then (False, d)
      else
        let ix = fixed_to_int e x; iy = fixed_to_int e y; d = move_icon e d;
            view = (case view_at e ix iy of None \<Rightarrow> None | Some v \<Rightarrow> if titlebar_at e v ix iy \<noteq> - 2 then None else Some v)
        in (True,
            if view \<noteq> dg_focus d then drag_set_focus e view d
            else case (dg_device d, dg_focus d) of
                (Some r, Some v) \<Rightarrow> dg_emit [Device_motion r time (fst (surface_coords e v)) (snd (surface_coords e v))] d
              | (Some r, None) \<Rightarrow> d\<lparr>dg_fault := True\<rparr>
              | _ \<Rightarrow> d))"

definition handle_button :: "drag_env \<Rightarrow> nat \<Rightarrow> bool \<Rightarrow> drag \<Rightarrow> bool \<times> drag" where
  "handle_button e button released d =
     (True, if dg_active d \<and> released \<and> button = dg_button d then drop_drag e d else d)"

definition KEY_ESC :: nat where "KEY_ESC = 1"

definition drag_handle_key :: "drag_env \<Rightarrow> nat \<Rightarrow> bool \<Rightarrow> drag \<Rightarrow> bool \<times> drag" where
  "drag_handle_key e key pressed d =
     (if key \<noteq> KEY_ESC then (False, d) else (True, if dg_active d \<and> pressed then cancel_drag e d else d))"

section \<open>The start of a drag\<close>

text \<open>
  A request: whether the seat has a pointer and a keyboard, the source and the surface of the origin, the button
  \<open>pointer_get_button\<close> finds for the serial, the surface under the pointer, and of the icon its surface (when the
  resource has one), whether it has or gets the role, the view made for it and whether it has a buffer.
\<close>

record drag_request =
  rq_seat :: bool
  rq_device :: nat
  rq_client :: nat
  rq_source :: "nat option"
  rq_origin :: "nat option"
  rq_button :: "nat option"
  rq_under_pointer :: "nat option"
  rq_icon :: "nat option option"
  rq_role_ok :: bool
  rq_icon_view :: "nat option"
  rq_icon_buffer :: bool

definition drag_allowed :: "drag_request \<Rightarrow> drag \<Rightarrow> bool" where
  "drag_allowed q d \<longleftrightarrow> rq_seat q \<and> \<not> dg_active d \<and> rq_origin q \<noteq> None \<and> rq_button q \<noteq> None \<and>
     rq_under_pointer q = rq_origin q \<and> rq_icon q \<noteq> Some None"

definition drag_start :: "drag_env \<Rightarrow> drag_request \<Rightarrow> drag \<Rightarrow> drag" where
  "drag_start e q d =
     (if \<not> drag_allowed q d then d
      else if rq_icon q \<noteq> None \<and> \<not> rq_role_ok q then dg_emit [Role_error (rq_device q)] d
      else
        let d = (release_source (forget_focus d))\<lparr>dg_dropped := False\<rparr>;
            d = d\<lparr>dg_button := the (rq_button q), dg_source := rq_source q, dg_source_hook := rq_source q\<rparr>;
            (ok, d) = (case rq_icon q of Some (Some s) \<Rightarrow> create_icon e (rq_icon_view q) s (rq_icon_buffer q) d | _ \<Rightarrow> (True, d))
        in if \<not> ok then release_source (dg_emit [Client_no_memory (rq_client q)] d)
           else
             let d = dg_emit [Pointer_cleared] (d\<lparr>dg_pointer_hook := True, dg_keyboard_hook := True, dg_active := True\<rparr>)
             in drag_set_focus e (view_at e (fixed_to_int e (fst (pointer_at e))) (fixed_to_int e (snd (pointer_at e)))) d)"

section \<open>Requests on the offer and the source\<close>

definition drag_offer_accept :: "drag_env \<Rightarrow> nat \<Rightarrow> string option \<Rightarrow> drag \<Rightarrow> drag" where
  "drag_offer_accept e offer mime d =
     (if Some offer \<noteq> dg_offer d then d else update_action e (d\<lparr>dg_accepted := mime \<noteq> None\<rparr>))"

definition drag_offer_set_actions :: "drag_env \<Rightarrow> nat \<Rightarrow> mask \<Rightarrow> mask \<Rightarrow> drag \<Rightarrow> drag" where
  "drag_offer_set_actions e offer actions preferred d =
     (if Some offer \<noteq> dg_offer d then d
      else update_action e (d\<lparr>offer_actions := actions AND DATA_DND_ACTION_ALL,
        preferred_action := preferred AND DATA_DND_ACTION_ALL\<rparr>))"

definition drag_offer_finish :: "drag_env \<Rightarrow> nat \<Rightarrow> drag \<Rightarrow> drag" where
  "drag_offer_finish e offer d =
     (if Some offer \<noteq> dg_offer d \<or> \<not> dg_dropped d then d
      else
        let d = d\<lparr>dg_dropped := False\<rparr>;
            d = (case dg_source d of None \<Rightarrow> d | Some s \<Rightarrow> if version e s \<ge> 3 then dg_emit [Drag_finished s] d else d)
        in restore_pointer (leave_focus e (release_source d)))"

definition drag_source_actions_changed :: "drag_env \<Rightarrow> nat \<Rightarrow> drag \<Rightarrow> drag" where
  "drag_source_actions_changed e source d =
     (if Some source \<noteq> dg_source d then d
      else
        let d = (case dg_offer d of None \<Rightarrow> d
                 | Some x \<Rightarrow> if version e x \<ge> 3 then dg_emit [Offer_source_actions x (data_source_actions source (dg_store d))] d else d)
        in update_action e d)"

text \<open>The requests of \<open>data.c\<close> that end in the drag.\<close>

definition accept_request :: "drag_env \<Rightarrow> nat \<Rightarrow> string option \<Rightarrow> drag \<Rightarrow> drag" where
  "accept_request e offer mime d =
     (let (live, s) = offer_accept offer mime (dg_store d); d = d\<lparr>dg_store := s\<rparr>
      in if live then drag_offer_accept e offer mime d else d)"

definition set_actions_request :: "drag_env \<Rightarrow> nat \<Rightarrow> mask \<Rightarrow> drag \<Rightarrow> drag" where
  "set_actions_request e source actions d =
     drag_source_actions_changed e source (d\<lparr>dg_store := source_set_actions source actions (dg_store d)\<rparr>)"

text \<open>The resource of a source goes away: the drag hears it first, then the data is freed.\<close>

definition source_resource_gone :: "drag_env \<Rightarrow> nat \<Rightarrow> drag \<Rightarrow> drag" where
  "source_resource_gone e source d =
     (let d = (if dg_source_hook d = Some source then handle_source_destroy e d else d)
      in d\<lparr>dg_store := data_destroy source (dg_store d)\<rparr>)"

text \<open>The resource of an offer goes away: the destroy listeners run before the destructor.\<close>

definition offer_resource_gone :: "nat \<Rightarrow> drag \<Rightarrow> drag" where
  "offer_resource_gone offer d =
     (let d = (if dg_offer_hook d = Some offer then handle_offer_destroy d else d)
      in d\<lparr>dg_store := offer_destroy offer (dg_store d)\<rparr>)"

end
