(* ===== verification/Selection.thy ===== *)
theory Selection
  imports Data_Source Input_Focus
begin

text \<open>
  The selections of the seat: the clipboard (\<open>libswc/data_device.c\<close>), which a client or the bridge to X
  (\<open>libswc/xselection.c\<close>) may own, and the primary selection (\<open>libswc/primary_selection.c\<close>), with the
  handlers of \<open>libswc/seat.c\<close> that offer them to the focused client.
\<close>

section \<open>State\<close>

text \<open>\<open>dd_listener\<close>: the source whose destroy signal holds the device's listener.\<close>

record data_device =
  dd_selection :: "nat option"
  dd_data :: "nat option"
  dd_listener :: "nat option"
  dd_resources :: "(nat \<times> nat) list"

record primary_device =
  ps_selection :: "nat option"
  ps_listener :: "nat option"
  ps_resources :: "(nat \<times> nat) list"

datatype device_event = Data_offer nat nat | Selection_is nat "nat option"

text \<open>
  \<open>kb_client\<close> is the client of the keyboard's focus, \<open>xs_source\<close> the data of the bridge to X.  The sources and
  offers of the primary selection have the structure of data that no compositor owns, and a store of their own.
\<close>

record clipboard =
  store :: data_store
  primary :: data_store
  device :: data_device
  ps_device :: primary_device
  xs_source :: "nat option"
  kb_client :: "nat option"
  cb_log :: "device_event list"

definition on_store :: "(data_store \<Rightarrow> data_store) \<Rightarrow> clipboard \<Rightarrow> clipboard" where
  "on_store f c = c\<lparr>store := f (store c)\<rparr>"

definition on_primary :: "(data_store \<Rightarrow> data_store) \<Rightarrow> clipboard \<Rightarrow> clipboard" where
  "on_primary f c = c\<lparr>primary := f (primary c)\<rparr>"

definition cb_emit :: "device_event list \<Rightarrow> clipboard \<Rightarrow> clipboard" where
  "cb_emit es c = c\<lparr>cb_log := cb_log c @ es\<rparr>"

section \<open>Offers of the clipboard\<close>

text \<open>\<open>r\<close>: the resource of an offer, when it can be had.\<close>

definition new_offer :: "nat option \<Rightarrow> nat \<Rightarrow> nat \<Rightarrow> clipboard \<Rightarrow> nat option \<times> clipboard" where
  "new_offer r resource source c =
     (let (offer, s) = data_offer_new_for r (Some source) (store c)
      in case offer of None \<Rightarrow> (None, c\<lparr>store := s\<rparr>)
         | Some o' \<Rightarrow> (Some o', cb_emit [Data_offer resource o'] (c\<lparr>store := data_send_mime_types_for (Some source) o' s\<rparr>)))"

definition data_device_offer_selection :: "nat option \<Rightarrow> nat \<Rightarrow> clipboard \<Rightarrow> clipboard" where
  "data_device_offer_selection r client c =
     (case device_for (dd_resources (device c)) client of None \<Rightarrow> c
      | Some resource \<Rightarrow>
          let (offer, c) = (case dd_data (device c) of None \<Rightarrow> (None, c) | Some d \<Rightarrow> new_offer r resource d c)
          in cb_emit [Selection_is resource offer] c)"

text \<open>\<open>handle_data_device_event\<close> of the seat.\<close>

definition handle_data_device_event :: "nat option \<Rightarrow> clipboard \<Rightarrow> clipboard" where
  "handle_data_device_event r c =
     (case kb_client c of None \<Rightarrow> c | Some client \<Rightarrow> data_device_offer_selection r client c)"

section \<open>The clipboard\<close>

text \<open>\<open>source_cancelled\<close> of \<open>xselection.c\<close>, the hook of the only data the compositor owns.\<close>

definition source_cancelled :: "nat \<Rightarrow> clipboard \<Rightarrow> clipboard" where
  "source_cancelled d c =
     (let c = (if xs_source c = Some d then c\<lparr>xs_source := None\<rparr> else c)
      in on_store (data_destroy_internal (Some d)) c)"

definition drop_selection :: "clipboard \<Rightarrow> clipboard" where
  "drop_selection c =
     (let c = (case dd_selection (device c) of
                 Some s \<Rightarrow>
                   let c = on_store (ds_emit [Send_cancelled s]) c
                   in if dd_listener (device c) = None then on_store (\<lambda>s. s\<lparr>ds_fault := True\<rparr>) c
                      else c\<lparr>device := (device c)\<lparr>dd_listener := None\<rparr>\<rparr>
               | None \<Rightarrow>
                   (case dd_data (device c) of None \<Rightarrow> c
                    | Some d \<Rightarrow>
                        let c = on_store (touch d) c
                        in case data_internal_owner (Some d) (store c) of None \<Rightarrow> c
                           | Some i \<Rightarrow> source_cancelled d (on_store (ds_emit [Impl_cancelled i]) c)))
      in c\<lparr>device := (device c)\<lparr>dd_selection := None, dd_data := None\<rparr>\<rparr>)"

definition set_selection :: "bool \<Rightarrow> nat option \<Rightarrow> nat option \<Rightarrow> clipboard \<Rightarrow> clipboard" where
  "set_selection allowed r source c =
     (if \<not> allowed then c
      else if source = dd_selection (device c) \<and> (source \<noteq> None \<or> dd_data (device c) = None) then c
      else
        let c = drop_selection c;
            c = c\<lparr>device := (device c)\<lparr>dd_selection := source, dd_data := data_from_source source (store c)\<rparr>\<rparr>;
            c = (case source of None \<Rightarrow> c
                 | Some s \<Rightarrow> if dd_listener (device c) \<noteq> None then on_store (\<lambda>s. s\<lparr>ds_fault := True\<rparr>) c
                            else c\<lparr>device := (device c)\<lparr>dd_listener := Some s\<rparr>\<rparr>)
        in handle_data_device_event r c)"

definition handle_selection_destroy :: "nat option \<Rightarrow> clipboard \<Rightarrow> clipboard" where
  "handle_selection_destroy r c =
     handle_data_device_event r (c\<lparr>device := (device c)\<lparr>dd_selection := None, dd_data := None\<rparr>\<rparr>)"

definition data_device_set_internal_selection :: "nat option \<Rightarrow> nat option \<Rightarrow> clipboard \<Rightarrow> clipboard" where
  "data_device_set_internal_selection r d c =
     (if dd_data (device c) = d then c
      else
        let c = drop_selection c
        in handle_data_device_event r (c\<lparr>device := (device c)\<lparr>dd_data := d\<rparr>\<rparr>))"

text \<open>\<open>data_device_bind\<close> past the creation of the resource, and its destruction.\<close>

definition data_device_bind :: "nat \<Rightarrow> nat \<Rightarrow> clipboard \<Rightarrow> clipboard" where
  "data_device_bind resource client c = c\<lparr>device := (device c)\<lparr>dd_resources := (resource, client) # dd_resources (device c)\<rparr>\<rparr>"

definition data_device_unbind :: "nat \<Rightarrow> clipboard \<Rightarrow> clipboard" where
  "data_device_unbind resource c =
     c\<lparr>device := (device c)\<lparr>dd_resources := filter (\<lambda>(r, k). r \<noteq> resource) (dd_resources (device c))\<rparr>\<rparr>"

text \<open>
  The destruction of the resource of a source: libwayland unlinks the listener it calls, then \<open>data_destroy\<close> runs.
\<close>

definition source_gone :: "nat option \<Rightarrow> nat \<Rightarrow> clipboard \<Rightarrow> clipboard" where
  "source_gone r source c =
     (let c = (if dd_listener (device c) = Some source
               then handle_selection_destroy r (c\<lparr>device := (device c)\<lparr>dd_listener := None\<rparr>\<rparr>) else c)
      in on_store (data_destroy source) c)"

section \<open>The bridge to X\<close>

text \<open>\<open>publish_targets\<close> with the types of the atoms; \<open>d\<close> is the allocated data, \<open>added\<close> the types that got memory.\<close>

definition publish_targets :: "nat option \<Rightarrow> nat option \<Rightarrow> string list \<Rightarrow> clipboard \<Rightarrow> clipboard" where
  "publish_targets r d added c =
     (let (source, s) = data_create_internal d 0 (store c); c = c\<lparr>store := s\<rparr>
      in case source of None \<Rightarrow> c
         | Some d \<Rightarrow>
             let c = on_store (fold (\<lambda>m. snd \<circ> data_add_mime_type True True d m) added) c
             in if added = [] then on_store (data_destroy_internal (Some d)) c
                else data_device_set_internal_selection r (Some d) (c\<lparr>xs_source := Some d\<rparr>))"

text \<open>The part of \<open>handle_xfixes_selection_notify\<close> and of \<open>xselection_finalize\<close> that gives the clipboard up.\<close>

definition disown_selection :: "nat option \<Rightarrow> clipboard \<Rightarrow> clipboard" where
  "disown_selection r c = (if xs_source c \<noteq> None then data_device_set_internal_selection r None c else c)"

section \<open>The primary selection\<close>

definition primary_offer_receive :: "nat \<Rightarrow> string \<Rightarrow> int \<Rightarrow> data_store \<Rightarrow> data_store" where
  "primary_offer_receive offer mime fd s =
     (case offer_data s offer of None \<Rightarrow> ds_emit [Close fd] s
      | Some d \<Rightarrow>
          let s = touch d s
          in case dt_source (data_at s d) of None \<Rightarrow> s\<lparr>ds_fault := True\<rparr> | Some r \<Rightarrow> ds_emit [Send_send r mime fd, Close fd] s)"

definition primary_offer_new :: "nat option \<Rightarrow> nat \<Rightarrow> data_store \<Rightarrow> nat option \<times> data_store" where
  "primary_offer_new r source s =
     (case r of None \<Rightarrow> (None, s)
      | Some r \<Rightarrow>
          (case source_data s source of None \<Rightarrow> (None, s\<lparr>ds_fault := True\<rparr>)
           | Some d \<Rightarrow> (Some r, upd_data d (\<lambda>x. x\<lparr>dt_offers := r # dt_offers x\<rparr>)
               (s\<lparr>offer_data := (offer_data s)(r := Some d), offer_unlinks := r # offer_unlinks s\<rparr>))))"

definition primary_source_offer :: "bool \<Rightarrow> bool \<Rightarrow> nat \<Rightarrow> string \<Rightarrow> data_store \<Rightarrow> data_store" where
  "primary_source_offer copied added source mime s =
     (case source_data s source of None \<Rightarrow> s\<lparr>ds_fault := True\<rparr>
      | Some d \<Rightarrow>
          if \<not> copied \<or> \<not> added then ds_emit [Source_no_memory source] s
          else upd_data d (\<lambda>x. x\<lparr>mime_types := mime_types x @ [mime]\<rparr>) s)"

definition primary_source_destroy :: "nat \<Rightarrow> data_store \<Rightarrow> data_store" where
  "primary_source_destroy source s =
     (case source_data s source of None \<Rightarrow> s\<lparr>ds_fault := True\<rparr>
      | Some d \<Rightarrow>
          let s = touch d s; os = dt_offers (data_at s d)
          in s\<lparr>offer_data := (\<lambda>x. if x \<in> set os then None else offer_data s x),
               offer_unlinks := filter (\<lambda>x. x \<notin> set os) (offer_unlinks s), allocated := removeAll d (allocated s),
               source_data := (source_data s)(source := None)\<rparr>)"

definition source_send_mime_types :: "nat \<Rightarrow> nat \<Rightarrow> data_store \<Rightarrow> data_store" where
  "source_send_mime_types source offer s =
     (case source_data s source of None \<Rightarrow> s\<lparr>ds_fault := True\<rparr>
      | Some d \<Rightarrow> let s = touch d s in ds_emit (map (Offer_mime offer) (mime_types (data_at s d))) s)"

definition primary_selection_device_offer :: "nat option \<Rightarrow> nat \<Rightarrow> clipboard \<Rightarrow> clipboard" where
  "primary_selection_device_offer r client c =
     (case device_for (ps_resources (ps_device c)) client of None \<Rightarrow> c
      | Some resource \<Rightarrow>
          let (offer, c) = (case ps_selection (ps_device c) of None \<Rightarrow> (None, c)
            | Some source \<Rightarrow>
                let (offer, s) = primary_offer_new r source (primary c)
                in case offer of None \<Rightarrow> (None, c\<lparr>primary := s\<rparr>)
                   | Some o' \<Rightarrow> (Some o', cb_emit [Data_offer resource o'] (c\<lparr>primary := source_send_mime_types source o' s\<rparr>)))
          in cb_emit [Selection_is resource offer] c)"

definition handle_primary_selection_event :: "nat option \<Rightarrow> clipboard \<Rightarrow> clipboard" where
  "handle_primary_selection_event r c =
     (case kb_client c of None \<Rightarrow> c | Some client \<Rightarrow> primary_selection_device_offer r client c)"

definition device_set_selection :: "bool \<Rightarrow> nat option \<Rightarrow> nat option \<Rightarrow> clipboard \<Rightarrow> clipboard" where
  "device_set_selection allowed r source c =
     (if \<not> allowed \<or> source = ps_selection (ps_device c) then c
      else
        let c = (case ps_selection (ps_device c) of None \<Rightarrow> c
                 | Some s \<Rightarrow>
                     let c = on_primary (ds_emit [Send_cancelled s]) c
                     in if ps_listener (ps_device c) = None then on_primary (\<lambda>s. s\<lparr>ds_fault := True\<rparr>) c
                        else c\<lparr>ps_device := (ps_device c)\<lparr>ps_listener := None\<rparr>\<rparr>);
            c = c\<lparr>ps_device := (ps_device c)\<lparr>ps_selection := source\<rparr>\<rparr>;
            c = (case source of None \<Rightarrow> c
                 | Some s \<Rightarrow> if ps_listener (ps_device c) \<noteq> None then on_primary (\<lambda>s. s\<lparr>ds_fault := True\<rparr>) c
                            else c\<lparr>ps_device := (ps_device c)\<lparr>ps_listener := Some s\<rparr>\<rparr>)
        in handle_primary_selection_event r c)"

definition primary_handle_selection_destroy :: "nat option \<Rightarrow> clipboard \<Rightarrow> clipboard" where
  "primary_handle_selection_destroy r c =
     handle_primary_selection_event r (c\<lparr>ps_device := (ps_device c)\<lparr>ps_selection := None\<rparr>\<rparr>)"

definition primary_source_gone :: "nat option \<Rightarrow> nat \<Rightarrow> clipboard \<Rightarrow> clipboard" where
  "primary_source_gone r source c =
     (let c = (if ps_listener (ps_device c) = Some source
               then primary_handle_selection_destroy r (c\<lparr>ps_device := (ps_device c)\<lparr>ps_listener := None\<rparr>\<rparr>) else c)
      in on_primary (primary_source_destroy source) c)"

definition create_source :: "nat option \<Rightarrow> nat option \<Rightarrow> data_store \<Rightarrow> data_store" where
  "create_source d r s =
     (case (d, r) of
        (Some d, Some r) \<Rightarrow> s\<lparr>data_at := (data_at s)(d := new_data (Some r) None), allocated := d # allocated s,
           source_data := (source_data s)(r := Some d)\<rparr>
      | _ \<Rightarrow> s)"

definition get_device :: "nat option \<Rightarrow> nat \<Rightarrow> nat \<Rightarrow> clipboard \<Rightarrow> clipboard" where
  "get_device r resource client c =
     (let c = c\<lparr>ps_device := (ps_device c)\<lparr>ps_resources := (resource, client) # ps_resources (ps_device c)\<rparr>\<rparr>
      in if ps_selection (ps_device c) \<noteq> None \<and> kb_client c = Some client
         then primary_selection_device_offer r client c else c)"

section \<open>The focus\<close>

definition handle_keyboard_focus_event :: "nat option \<Rightarrow> nat option \<Rightarrow> nat option \<Rightarrow> clipboard \<Rightarrow> clipboard" where
  "handle_keyboard_focus_event r1 r2 client c =
     (let c = c\<lparr>kb_client := client\<rparr>
      in case client of None \<Rightarrow> c
         | Some k \<Rightarrow> primary_selection_device_offer r2 k (data_device_offer_selection r1 k c))"

end
