(* ===== verification/Selection_Safety.thy ===== *)
theory Selection_Safety
  imports Selection
begin

text \<open>
  The selections over every sequence of requests: no freed data is used and none is lost, a source that is replaced
  is told so once, and the focused client is offered what is selected.
\<close>

section \<open>The store\<close>

definition store_ok :: "data_store \<Rightarrow> bool" where
  "store_ok s \<longleftrightarrow> \<not> ds_fault s \<and>
     (\<forall>x d. offer_data s x = Some d \<longrightarrow> d \<in> set (allocated s) \<and> x \<in> set (dt_offers (data_at s d)) \<and> x \<in> set (offer_unlinks s)) \<and>
     (\<forall>x \<in> set (offer_unlinks s). offer_data s x \<noteq> None) \<and>
     (\<forall>d \<in> set (allocated s). (\<forall>x \<in> set (dt_offers (data_at s d)). offer_data s x = Some d) \<and>
        (\<forall>r. dt_source (data_at s d) = Some r \<longrightarrow> source_data s r = Some d \<and> dt_impl (data_at s d) = None) \<and>
        (dt_source (data_at s d) = None \<longrightarrow> dt_impl (data_at s d) \<noteq> None)) \<and>
     (\<forall>r d. source_data s r = Some d \<longrightarrow> d \<in> set (allocated s) \<and> dt_source (data_at s d) = Some r)"

lemma store_okD:
  assumes "store_ok s"
  shows "\<not> ds_fault s" "offer_data s x = Some d \<Longrightarrow> d \<in> set (allocated s)"
    "offer_data s x = Some d \<Longrightarrow> x \<in> set (dt_offers (data_at s d))" "offer_data s x = Some d \<Longrightarrow> x \<in> set (offer_unlinks s)"
    "x \<in> set (offer_unlinks s) \<Longrightarrow> \<exists>d. offer_data s x = Some d"
    "d \<in> set (allocated s) \<Longrightarrow> x \<in> set (dt_offers (data_at s d)) \<Longrightarrow> offer_data s x = Some d"
    "d \<in> set (allocated s) \<Longrightarrow> dt_source (data_at s d) = Some r \<Longrightarrow> source_data s r = Some d"
    "d \<in> set (allocated s) \<Longrightarrow> dt_source (data_at s d) = Some r \<Longrightarrow> dt_impl (data_at s d) = None"
    "d \<in> set (allocated s) \<Longrightarrow> dt_source (data_at s d) = None \<Longrightarrow> dt_impl (data_at s d) \<noteq> None"
    "source_data s r = Some d \<Longrightarrow> d \<in> set (allocated s)" "source_data s r = Some d \<Longrightarrow> dt_source (data_at s d) = Some r"
  using assms unfolding store_ok_def by blast+

lemma store_okI:
  assumes "\<not> ds_fault s"
    "\<And>x d. offer_data s x = Some d \<Longrightarrow> d \<in> set (allocated s) \<and> x \<in> set (dt_offers (data_at s d)) \<and> x \<in> set (offer_unlinks s)"
    "\<And>x. x \<in> set (offer_unlinks s) \<Longrightarrow> \<exists>d. offer_data s x = Some d"
    "\<And>d x. d \<in> set (allocated s) \<Longrightarrow> x \<in> set (dt_offers (data_at s d)) \<Longrightarrow> offer_data s x = Some d"
    "\<And>d r. d \<in> set (allocated s) \<Longrightarrow> dt_source (data_at s d) = Some r \<Longrightarrow> source_data s r = Some d \<and> dt_impl (data_at s d) = None"
    "\<And>d. d \<in> set (allocated s) \<Longrightarrow> dt_source (data_at s d) = None \<Longrightarrow> dt_impl (data_at s d) \<noteq> None"
    "\<And>r d. source_data s r = Some d \<Longrightarrow> d \<in> set (allocated s) \<and> dt_source (data_at s d) = Some r"
  shows "store_ok s"
  using assms unfolding store_ok_def by blast

text \<open>What most operations keep.\<close>

definition same_store :: "data_store \<Rightarrow> data_store \<Rightarrow> bool" where
  "same_store s t \<longleftrightarrow> ds_fault t = ds_fault s \<and> offer_data t = offer_data s \<and> offer_unlinks t = offer_unlinks s \<and>
     allocated t = allocated s \<and> source_data t = source_data s \<and>
     (\<forall>d. dt_offers (data_at t d) = dt_offers (data_at s d) \<and> dt_source (data_at t d) = dt_source (data_at s d) \<and>
        dt_impl (data_at t d) = dt_impl (data_at s d))"

lemma same_store_refl [simp]: "same_store s s"
  by (simp add: same_store_def)

lemma same_store_trans: "same_store a b \<Longrightarrow> same_store b c \<Longrightarrow> same_store a c"
  by (simp add: same_store_def)

lemma same_store_ok:
  assumes "same_store s t" "store_ok s"
  shows "store_ok t"
proof -
  have e: "ds_fault t = ds_fault s" "offer_data t = offer_data s" "offer_unlinks t = offer_unlinks s"
    "allocated t = allocated s" "source_data t = source_data s" "dt_offers (data_at t d) = dt_offers (data_at s d)"
    "dt_source (data_at t d) = dt_source (data_at s d)" "dt_impl (data_at t d) = dt_impl (data_at s d)" for d
    using assms(1) by (simp_all add: same_store_def)
  show ?thesis using assms(2) unfolding store_ok_def e .
qed

lemma same_emit [simp]: "same_store s (ds_emit es s)"
  by (simp add: same_store_def ds_emit_def)

lemma touch_ok: "d \<in> set (allocated s) \<Longrightarrow> touch d s = s"
  by (simp add: touch_def)

lemma same_upd:
  assumes "d \<in> set (allocated s)" "\<And>x. dt_offers (f x) = dt_offers x" "\<And>x. dt_source (f x) = dt_source x"
    "\<And>x. dt_impl (f x) = dt_impl x"
  shows "same_store s (upd_data d f s)"
  using assms by (simp add: upd_data_def touch_ok same_store_def)

text \<open>The operations on offers and sources.\<close>

lemma offer_accept_same:
  assumes "store_ok s"
  shows "same_store s (snd (offer_accept x m s))"
proof (cases "offer_data s x")
  case (Some d)
  then show ?thesis using touch_ok [OF store_okD(2) [OF assms Some]]
    by (simp add: offer_accept_def Let_def split: option.split)
qed (simp add: offer_accept_def)

lemma offer_receive_same:
  assumes "store_ok s"
  shows "same_store s (offer_receive x m fd s)"
proof (cases "offer_data s x")
  case (Some d)
  note d = store_okD(2) [OF assms Some]
  have "dt_impl (data_at s d) = None \<Longrightarrow> dt_source (data_at s d) \<noteq> None"
    using store_okD(9) [OF assms d] by blast
  then show ?thesis
    by (auto simp: offer_receive_def data_send_def Some touch_ok [OF d] Let_def split: option.split)
qed (simp add: offer_receive_def)

lemma source_offer_same:
  assumes "store_ok s" "source_data s r = Some d"
  shows "same_store s (source_offer a b r m s)" "same_store s (source_set_actions r k s)"
  using store_okD(10) [OF assms] by (simp_all add: source_offer_def source_set_actions_def assms(2) same_upd)

lemma mime_types_same: "d \<in> set (allocated s) \<Longrightarrow> same_store s (data_send_mime_types_for (Some d) x s)"
  by (simp add: data_send_mime_types_for_def touch_ok Let_def)

lemma add_types_same: "d \<in> set (allocated s) \<Longrightarrow> same_store s (fold (\<lambda>m. snd \<circ> data_add_mime_type True True d m) ms s)"
proof (induction ms arbitrary: s)
  case (Cons m ms)
  have k: "same_store s (snd (data_add_mime_type True True d m s))"
    using Cons.prems by (simp add: data_add_mime_type_def same_upd)
  moreover from this have "d \<in> set (allocated (snd (data_add_mime_type True True d m s)))"
    using Cons.prems by (simp add: same_store_def)
  ultimately show ?case using same_store_trans [OF k Cons.IH] by (simp add: o_def)
qed simp

lemma new_data_ok:
  assumes "store_ok s" "d \<notin> set (allocated s)" "source_data s r = None"
  shows "store_ok (s\<lparr>data_at := (data_at s)(d := new_data (Some r) None), allocated := d # allocated s,
    source_data := (source_data s)(r := Some d)\<rparr>)"
proof (rule store_okI)
  note k = store_okD [OF assms(1)]
  let ?t = "s\<lparr>data_at := (data_at s)(d := new_data (Some r) None), allocated := d # allocated s,
    source_data := (source_data s)(r := Some d)\<rparr>"
  show "\<not> ds_fault ?t" using k(1) by simp
  show "\<exists>e. offer_data ?t x = Some e" if "x \<in> set (offer_unlinks ?t)" for x using k(5) that by simp
  show "e \<in> set (allocated ?t) \<and> x \<in> set (dt_offers (data_at ?t e)) \<and> x \<in> set (offer_unlinks ?t)"
    if "offer_data ?t x = Some e" for x e
    using that k(2-4) [of x e] assms(2) by auto
  show "offer_data ?t x = Some e" if "e \<in> set (allocated ?t)" "x \<in> set (dt_offers (data_at ?t e))" for x e
    using that k(6) [of e x] by (auto simp: new_data_def split: if_splits)
  show "source_data ?t q = Some e \<and> dt_impl (data_at ?t e) = None"
    if "e \<in> set (allocated ?t)" "dt_source (data_at ?t e) = Some q" for e q
    using that k(7,8) [of e q] assms(3) by (cases "e = d"; cases "q = r") (auto simp: new_data_def)
  show "dt_impl (data_at ?t e) \<noteq> None" if "e \<in> set (allocated ?t)" "dt_source (data_at ?t e) = None" for e
    using that k(9) [of e] by (auto simp: new_data_def split: if_splits)
  show "e \<in> set (allocated ?t) \<and> dt_source (data_at ?t e) = Some q" if "source_data ?t q = Some e" for q e
    using that k(10,11) [of q e] assms(2) by (auto simp: new_data_def split: if_splits)
qed

lemma internal_new_ok:
  assumes "store_ok s" "d \<notin> set (allocated s)"
  shows "store_ok (s\<lparr>data_at := (data_at s)(d := new_data None (Some i)), allocated := d # allocated s\<rparr>)"
proof (rule store_okI)
  note k = store_okD [OF assms(1)]
  let ?t = "s\<lparr>data_at := (data_at s)(d := new_data None (Some i)), allocated := d # allocated s\<rparr>"
  show "\<not> ds_fault ?t" using k(1) by simp
  show "\<exists>e. offer_data ?t x = Some e" if "x \<in> set (offer_unlinks ?t)" for x using k(5) that by simp
  show "e \<in> set (allocated ?t) \<and> x \<in> set (dt_offers (data_at ?t e)) \<and> x \<in> set (offer_unlinks ?t)"
    if "offer_data ?t x = Some e" for x e
    using that k(2-4) [of x e] assms(2) by auto
  show "offer_data ?t x = Some e" if "e \<in> set (allocated ?t)" "x \<in> set (dt_offers (data_at ?t e))" for x e
    using that k(6) [of e x] by (auto simp: new_data_def split: if_splits)
  show "source_data ?t q = Some e \<and> dt_impl (data_at ?t e) = None"
    if "e \<in> set (allocated ?t)" "dt_source (data_at ?t e) = Some q" for e q
    using that k(7,8) [of e q] by (auto simp: new_data_def split: if_splits)
  show "dt_impl (data_at ?t e) \<noteq> None" if "e \<in> set (allocated ?t)" "dt_source (data_at ?t e) = None" for e
    using that k(9) [of e] by (auto simp: new_data_def split: if_splits)
  show "e \<in> set (allocated ?t) \<and> dt_source (data_at ?t e) = Some q" if "source_data ?t q = Some e" for q e
    using that k(10,11) [of q e] assms(2) by (auto split: if_splits)
qed

text \<open>A resource that is no offer yet.\<close>

definition fresh_offer :: "nat option \<Rightarrow> data_store \<Rightarrow> bool" where
  "fresh_offer r s \<longleftrightarrow> (\<forall>x. r = Some x \<longrightarrow> offer_data s x = None)"

lemma offer_ok:
  assumes "store_ok s" "d \<in> set (allocated s)" "offer_data s x = None"
  shows "store_ok (upd_data d (\<lambda>y. y\<lparr>dt_offers := x # dt_offers y\<rparr>)
    (s\<lparr>offer_data := (offer_data s)(x := Some d), offer_unlinks := x # offer_unlinks s\<rparr>))" (is "store_ok ?t")
proof (rule store_okI)
  note k = store_okD [OF assms(1)]
  have t: "ds_fault ?t = ds_fault s" "allocated ?t = allocated s" "source_data ?t = source_data s"
    "offer_data ?t = (offer_data s)(x := Some d)" "offer_unlinks ?t = x # offer_unlinks s"
    "dt_source (data_at ?t e) = dt_source (data_at s e)" "dt_impl (data_at ?t e) = dt_impl (data_at s e)"
    "dt_offers (data_at ?t e) = (if e = d then x # dt_offers (data_at s e) else dt_offers (data_at s e))" for e
    using assms(2) by (simp_all add: upd_data_def touch_def)
  have n: "x \<notin> set (dt_offers (data_at s e))" if "e \<in> set (allocated s)" for e using k(6) [OF that] assms(3) by force
  show "\<not> ds_fault ?t" using k(1) by (simp add: t)
  show "\<exists>e. offer_data ?t y = Some e" if "y \<in> set (offer_unlinks ?t)" for y using k(5) [of y] that by (auto simp: t)
  show "e \<in> set (allocated ?t) \<and> y \<in> set (dt_offers (data_at ?t e)) \<and> y \<in> set (offer_unlinks ?t)"
    if "offer_data ?t y = Some e" for y e
    using that k(2-4) [of y e] assms(2) by (auto simp: t split: if_splits)
  show "offer_data ?t y = Some e" if "e \<in> set (allocated ?t)" "y \<in> set (dt_offers (data_at ?t e))" for y e
    using that k(6) [of e y] n [of e] by (auto simp: t split: if_splits)
  show "source_data ?t q = Some e \<and> dt_impl (data_at ?t e) = None"
    if "e \<in> set (allocated ?t)" "dt_source (data_at ?t e) = Some q" for e q
    using that k(7,8) [of e q] by (simp add: t)
  show "dt_impl (data_at ?t e) \<noteq> None" if "e \<in> set (allocated ?t)" "dt_source (data_at ?t e) = None" for e
    using that k(9) [of e] by (simp add: t)
  show "e \<in> set (allocated ?t) \<and> dt_source (data_at ?t e) = Some q" if "source_data ?t q = Some e" for q e
    using that k(10,11) [of q e] by (simp add: t)
qed

lemma freed_store_ok:
  assumes "store_ok s" "d \<in> set (allocated s)"
  shows "store_ok ((free_data d s)\<lparr>source_data := (\<lambda>q. if dt_source (data_at s d) = Some q then None else source_data s q)\<rparr>)"
    (is "store_ok ?t")
proof (rule store_okI)
  note k = store_okD [OF assms(1)]
  have t: "ds_fault ?t = ds_fault s" "allocated ?t = removeAll d (allocated s)"
    "source_data ?t q = (if dt_source (data_at s d) = Some q then None else source_data s q)"
    "offer_data ?t y = (if y \<in> set (dt_offers (data_at s d)) then None else offer_data s y)"
    "offer_unlinks ?t = filter (\<lambda>y. y \<notin> set (dt_offers (data_at s d))) (offer_unlinks s)"
    "data_at ?t = data_at s" for q y
    using assms(2) by (simp_all add: free_data_def touch_def Let_def)
  show "\<not> ds_fault ?t" using k(1) unfolding t .
  show "\<exists>e. offer_data ?t y = Some e" if "y \<in> set (offer_unlinks ?t)" for y using k(5) [of y] that unfolding t by auto
  show "e \<in> set (allocated ?t) \<and> y \<in> set (dt_offers (data_at ?t e)) \<and> y \<in> set (offer_unlinks ?t)"
    if "offer_data ?t y = Some e" for y e
    using that k(2-4) [of y e] unfolding t by (auto split: if_splits)
  show "offer_data ?t y = Some e" if "e \<in> set (allocated ?t)" "y \<in> set (dt_offers (data_at ?t e))" for y e
    using that k(6) [of e y] k(6) [OF assms(2), of y] unfolding t by auto
  show "source_data ?t q = Some e \<and> dt_impl (data_at ?t e) = None"
    if "e \<in> set (allocated ?t)" "dt_source (data_at ?t e) = Some q" for e q
    using that k(7,8) [of e q] k(7) [OF assms(2), of q] unfolding t by auto
  show "dt_impl (data_at ?t e) \<noteq> None" if "e \<in> set (allocated ?t)" "dt_source (data_at ?t e) = None" for e
    using that k(9) [of e] unfolding t by simp
  show "e \<in> set (allocated ?t) \<and> dt_source (data_at ?t e) = Some q" if "source_data ?t q = Some e" for q e
    using that k(10,11) [of q e] unfolding t by (auto split: if_splits)
qed

lemma destroy_ok:
  assumes "store_ok s"
  shows "source_data s r = Some d \<Longrightarrow> store_ok (data_destroy r s)"
    "d \<in> set (allocated s) \<Longrightarrow> dt_source (data_at s d) = None \<Longrightarrow> store_ok (free_data d s)"
proof -
  have f: "source_data (free_data d s) = source_data s" by (simp add: free_data_def touch_def Let_def)
  show "store_ok (data_destroy r s)" if r: "source_data s r = Some d"
  proof -
    have "(\<lambda>q. if dt_source (data_at s d) = Some q then None else source_data s q) = (source_data s)(r := None)"
      using store_okD(11) [OF assms r] by auto
    then show ?thesis using freed_store_ok [OF assms store_okD(10) [OF assms r]] by (simp add: data_destroy_def r)
  qed
  show "store_ok (free_data d s)" if "d \<in> set (allocated s)" "dt_source (data_at s d) = None"
    using freed_store_ok [OF assms that(1)] that(2) by (simp add: f [symmetric])
qed

lemma offer_destroy_ok:
  assumes "store_ok s"
  shows "store_ok (offer_destroy x s)"
proof (cases "x \<in> set (offer_unlinks s)")
  case True
  note k = store_okD [OF assms]
  obtain d where d: "offer_data s x = Some d" using k(5) [OF True] by blast
  let ?t = "offer_destroy x s"
  have t: "ds_fault ?t = ds_fault s" "allocated ?t = allocated s" "source_data ?t = source_data s"
    "offer_data ?t = (offer_data s)(x := None)" "offer_unlinks ?t = removeAll x (offer_unlinks s)"
    "dt_source (data_at ?t e) = dt_source (data_at s e)" "dt_impl (data_at ?t e) = dt_impl (data_at s e)"
    "dt_offers (data_at ?t e) = (if e = d then removeAll x (dt_offers (data_at s e)) else dt_offers (data_at s e))" for e
    using k(2) [OF d] True by (simp_all add: offer_destroy_def d upd_data_def touch_def Let_def)
  show ?thesis
  proof (rule store_okI)
    show "\<not> ds_fault ?t" using k(1) by (simp add: t)
    show "\<exists>e. offer_data ?t y = Some e" if "y \<in> set (offer_unlinks ?t)" for y using k(5) [of y] that by (auto simp: t)
    show "e \<in> set (allocated ?t) \<and> y \<in> set (dt_offers (data_at ?t e)) \<and> y \<in> set (offer_unlinks ?t)"
      if "offer_data ?t y = Some e" for y e
      using that k(2-4) [of y e] by (auto simp: t split: if_splits)
    show "offer_data ?t y = Some e" if "e \<in> set (allocated ?t)" "y \<in> set (dt_offers (data_at ?t e))" for y e
      using that k(6) [of e y] d by (auto simp: t split: if_splits)
    show "source_data ?t q = Some e \<and> dt_impl (data_at ?t e) = None"
      if "e \<in> set (allocated ?t)" "dt_source (data_at ?t e) = Some q" for e q
      using that k(7,8) [of e q] by (simp add: t)
    show "dt_impl (data_at ?t e) \<noteq> None" if "e \<in> set (allocated ?t)" "dt_source (data_at ?t e) = None" for e
      using that k(9) [of e] by (simp add: t)
    show "e \<in> set (allocated ?t) \<and> dt_source (data_at ?t e) = Some q" if "source_data ?t q = Some e" for q e
      using that k(10,11) [of q e] by (simp add: t)
  qed
qed (use assms in \<open>simp add: offer_destroy_def\<close>)

text \<open>The operations of the primary selection are those of client-owned data.\<close>

lemma primary_same:
  assumes "store_ok s"
  shows "source_data s r = Some d \<Longrightarrow> same_store s (primary_source_offer a b r m s)"
    "source_data s r = Some d \<Longrightarrow> same_store s (source_send_mime_types r x s)"
    "source_data s r = Some d \<Longrightarrow> primary_source_destroy r s = data_destroy r s"
proof -
  note k = store_okD [OF assms]
  show "same_store s (primary_source_offer a b r m s)" "same_store s (source_send_mime_types r x s)"
    "primary_source_destroy r s = data_destroy r s" if r: "source_data s r = Some d"
    using k(10) [OF r] by (simp_all add: primary_source_offer_def source_send_mime_types_def primary_source_destroy_def
      data_destroy_def free_data_def r same_upd touch_ok Let_def)
qed

lemma primary_receive_same:
  assumes "store_ok s" "\<forall>d \<in> set (allocated s). dt_source (data_at s d) \<noteq> None"
  shows "same_store s (primary_offer_receive x m fd s)"
proof (cases "offer_data s x")
  case (Some d)
  note d = store_okD(2) [OF assms(1) Some]
  then show ?thesis using assms(2)
    by (auto simp: primary_offer_receive_def Some touch_ok [OF d] Let_def)
qed (simp add: primary_offer_receive_def)

section \<open>The clipboard\<close>

text \<open>
  The selection of the clipboard is a live source of a client, or the one data of the bridge to X, and the bridge's
  data is always selected: none is left behind.
\<close>

definition clip_ok :: "clipboard \<Rightarrow> bool" where
  "clip_ok c \<longleftrightarrow> store_ok (store c) \<and> store_ok (primary c) \<and> dd_listener (device c) = dd_selection (device c) \<and>
     (\<forall>s. dd_selection (device c) = Some s \<longrightarrow> (\<exists>d. source_data (store c) s = Some d \<and> dd_data (device c) = Some d)) \<and>
     (dd_selection (device c) = None \<longrightarrow> dd_data (device c) = xs_source c) \<and>
     (dd_selection (device c) \<noteq> None \<longrightarrow> xs_source c = None) \<and>
     (\<forall>d. xs_source c = Some d \<longleftrightarrow> d \<in> set (allocated (store c)) \<and> dt_source (data_at (store c) d) = None) \<and>
     ps_listener (ps_device c) = ps_selection (ps_device c) \<and>
     (\<forall>s. ps_selection (ps_device c) = Some s \<longrightarrow> source_data (primary c) s \<noteq> None) \<and>
     (\<forall>d \<in> set (allocated (primary c)). dt_source (data_at (primary c) d) \<noteq> None)"

lemma clip_okD:
  assumes "clip_ok c"
  shows "store_ok (store c)" "store_ok (primary c)" "dd_listener (device c) = dd_selection (device c)"
    "dd_selection (device c) = Some s \<Longrightarrow> \<exists>d. source_data (store c) s = Some d \<and> dd_data (device c) = Some d"
    "dd_selection (device c) = None \<Longrightarrow> dd_data (device c) = xs_source c"
    "dd_selection (device c) \<noteq> None \<Longrightarrow> xs_source c = None"
    "xs_source c = Some d \<longleftrightarrow> d \<in> set (allocated (store c)) \<and> dt_source (data_at (store c) d) = None"
    "ps_listener (ps_device c) = ps_selection (ps_device c)"
    "ps_selection (ps_device c) = Some s \<Longrightarrow> source_data (primary c) s \<noteq> None"
    "\<forall>d \<in> set (allocated (primary c)). dt_source (data_at (primary c) d) \<noteq> None"
  using assms unfolding clip_ok_def by blast+

text \<open>Offers leave the sources as they are.\<close>

definition same_sources :: "data_store \<Rightarrow> data_store \<Rightarrow> bool" where
  "same_sources s t \<longleftrightarrow> allocated t = allocated s \<and> source_data t = source_data s \<and>
     (\<forall>d. dt_source (data_at t d) = dt_source (data_at s d)) \<and> (store_ok s \<longrightarrow> store_ok t)"

definition offered :: "clipboard \<Rightarrow> clipboard \<Rightarrow> bool" where
  "offered c c' \<longleftrightarrow> device c' = device c \<and> ps_device c' = ps_device c \<and> xs_source c' = xs_source c \<and> kb_client c' = kb_client c \<and>
     same_sources (store c) (store c') \<and> same_sources (primary c) (primary c')"

lemma same_sources_refl [simp]: "same_sources s s"
  by (simp add: same_sources_def)

lemma same_store_sources: "same_store s t \<Longrightarrow> same_sources s t"
  using same_store_ok by (auto simp: same_sources_def same_store_def)

lemma same_sources_trans: "same_sources a b \<Longrightarrow> same_sources b c \<Longrightarrow> same_sources a c"
  by (simp add: same_sources_def)

lemma offered_refl [simp]: "offered c c"
  by (simp add: offered_def)

lemma offered_trans: "offered a b \<Longrightarrow> offered b c \<Longrightarrow> offered a c"
  by (auto simp: offered_def intro: same_sources_trans)

lemma clip_fields [simp]:
  "store (on_store f c) = f (store c)" "primary (on_store f c) = primary c" "device (on_store f c) = device c"
  "ps_device (on_store f c) = ps_device c" "xs_source (on_store f c) = xs_source c" "kb_client (on_store f c) = kb_client c"
  "cb_log (on_store f c) = cb_log c" "primary (on_primary g c) = g (primary c)" "store (on_primary g c) = store c"
  "device (on_primary g c) = device c" "ps_device (on_primary g c) = ps_device c" "xs_source (on_primary g c) = xs_source c"
  "kb_client (on_primary g c) = kb_client c" "cb_log (on_primary g c) = cb_log c"
  "store (cb_emit es c) = store c" "primary (cb_emit es c) = primary c" "device (cb_emit es c) = device c"
  "ps_device (cb_emit es c) = ps_device c" "xs_source (cb_emit es c) = xs_source c" "kb_client (cb_emit es c) = kb_client c"
  "cb_log (cb_emit es c) = cb_log c @ es"
  by (simp_all add: on_store_def on_primary_def cb_emit_def)

lemma offered_ok:
  assumes "offered c c'" "clip_ok c"
  shows "clip_ok c'"
proof -
  have e: "device c' = device c" "ps_device c' = ps_device c" "xs_source c' = xs_source c"
    "allocated (store c') = allocated (store c)" "source_data (store c') = source_data (store c)"
    "dt_source (data_at (store c') d) = dt_source (data_at (store c) d)"
    "allocated (primary c') = allocated (primary c)" "source_data (primary c') = source_data (primary c)"
    "dt_source (data_at (primary c') d) = dt_source (data_at (primary c) d)" for d
    using assms(1) by (simp_all add: offered_def same_sources_def)
  have "store_ok (store c')" "store_ok (primary c')"
    using assms clip_okD(1,2) [OF assms(2)] by (simp_all add: offered_def same_sources_def)
  then show ?thesis using assms(2) unfolding clip_ok_def e by blast
qed

lemma offer_sources:
  assumes "d \<in> set (allocated s)" "fresh_offer r s"
  shows "same_sources s (snd (data_offer_new_for r (Some d) s))"
proof (cases r)
  case (Some x)
  have n: "offer_data s x = None" using assms(2) Some by (simp add: fresh_offer_def)
  then show ?thesis using offer_ok [OF _ assms(1) n]
    by (simp add: data_offer_new_for_def Some same_sources_def) (simp add: upd_data_def touch_def)
qed (simp add: data_offer_new_for_def)

lemma new_offer_offered:
  assumes "d \<in> set (allocated (store c))" "fresh_offer r (store c)"
  shows "offered c (snd (new_offer r x d c))"
proof -
  obtain p s where o: "data_offer_new_for r (Some d) (store c) = (p, s)" by (metis surj_pair)
  have s: "same_sources (store c) s" using offer_sources [OF assms] by (simp add: o)
  then have "d \<in> set (allocated s)" using assms(1) by (simp add: same_sources_def)
  then have "same_sources s (data_send_mime_types_for (Some d) y s)" for y
    by (intro same_store_sources mime_types_same)
  then show ?thesis using same_sources_trans [OF s] s
    by (simp add: new_offer_def o offered_def split: option.split)
qed

lemma selection_offered:
  assumes "\<forall>d. dd_data (device c) = Some d \<longrightarrow> d \<in> set (allocated (store c))" "fresh_offer r (store c)"
  shows "offered c (data_device_offer_selection r k c)"
proof -
  have e: "offered c z \<Longrightarrow> offered c (cb_emit es z)" for z es by (simp add: offered_def)
  show ?thesis
  proof (cases "dd_data (device c)")
    case None
    then show ?thesis using e by (simp add: data_device_offer_selection_def split: option.split)
  next
    case (Some d)
    then have "offered c (snd (new_offer r x d c))" for x by (intro new_offer_offered assms(2)) (use assms(1) in simp)
    then show ?thesis using e Some by (simp add: data_device_offer_selection_def split: option.split prod.split) (metis snd_conv)
  qed
qed

lemma clip_data_live:
  assumes "clip_ok c"
  shows "\<forall>d. dd_data (device c) = Some d \<longrightarrow> d \<in> set (allocated (store c))"
proof (cases "dd_selection (device c)")
  case None
  then show ?thesis using clip_okD(5,7) [OF assms] by simp
next
  case (Some s)
  then show ?thesis using clip_okD(4) [OF assms Some] store_okD(10) [OF clip_okD(1) [OF assms]] by auto
qed

lemma device_event_ok:
  assumes "clip_ok c" "fresh_offer r (store c)"
  shows "clip_ok (handle_data_device_event r c)"
  using offered_ok [OF selection_offered [OF clip_data_live [OF assms(1)] assms(2)] assms(1)] assms(1)
  by (simp add: handle_data_device_event_def split: option.split)

text \<open>What \<open>drop_selection\<close> leaves, also while the bridge has new data that is not selected yet.\<close>

lemma drop_facts:
  assumes "store_ok (store c)" "dd_listener (device c) = dd_selection (device c)"
    and "\<forall>d. dd_selection (device c) = None \<and> dd_data (device c) = Some d \<longrightarrow>
      d \<in> set (allocated (store c)) \<and> dt_source (data_at (store c) d) = None"
  shows "device (drop_selection c) = (device c)\<lparr>dd_selection := None, dd_data := None, dd_listener := None\<rparr>"
    "primary (drop_selection c) = primary c" "ps_device (drop_selection c) = ps_device c"
    "kb_client (drop_selection c) = kb_client c" "store_ok (store (drop_selection c))"
    "source_data (store (drop_selection c)) = source_data (store c)"
    "data_at (store (drop_selection c)) = data_at (store c)"
    "set (allocated (store (drop_selection c))) = set (allocated (store c)) -
      (if dd_selection (device c) = None then set_option (dd_data (device c)) else {})"
    "xs_source (drop_selection c) = (if dd_selection (device c) = None \<and> dd_data (device c) = xs_source c then None else xs_source c)"
    "fresh_offer r (store c) \<Longrightarrow> fresh_offer r (store (drop_selection c))"
proof -
  have all: "device (drop_selection c) = (device c)\<lparr>dd_selection := None, dd_data := None, dd_listener := None\<rparr> \<and>
    primary (drop_selection c) = primary c \<and> ps_device (drop_selection c) = ps_device c \<and>
    kb_client (drop_selection c) = kb_client c \<and> store_ok (store (drop_selection c)) \<and>
    source_data (store (drop_selection c)) = source_data (store c) \<and> data_at (store (drop_selection c)) = data_at (store c) \<and>
    set (allocated (store (drop_selection c))) = set (allocated (store c)) -
      (if dd_selection (device c) = None then set_option (dd_data (device c)) else {}) \<and>
    xs_source (drop_selection c) =
      (if dd_selection (device c) = None \<and> dd_data (device c) = xs_source c then None else xs_source c) \<and>
    (fresh_offer r (store c) \<longrightarrow> fresh_offer r (store (drop_selection c)))"
  proof (cases "dd_selection (device c)")
    case (Some s)
    have "same_store (store c) (ds_emit [Send_cancelled s] (store c))" by simp
    from same_store_ok [OF this assms(1)] this show ?thesis
      using assms(2) Some by (simp add: drop_selection_def Let_def fresh_offer_def same_store_def) (simp add: ds_emit_def)
  next
    case None
    show ?thesis
    proof (cases "dd_data (device c)")
      case (Some d)
      have d: "d \<in> set (allocated (store c))" "dt_source (data_at (store c) d) = None" using assms(3) None Some by blast+
      then obtain i where i: "dt_impl (data_at (store c) d) = Some i" using store_okD(9) [OF assms(1)] by blast
      let ?s = "ds_emit [Impl_cancelled i] (store c)"
      have "same_store (store c) ?s" by simp
      then have "store_ok ?s" by (rule same_store_ok [OF _ assms(1)])
      moreover have f: "allocated ?s = allocated (store c)" "data_at ?s = data_at (store c)" "source_data ?s = source_data (store c)"
        "offer_data ?s = offer_data (store c)"
        by (simp_all add: ds_emit_def)
      ultimately have "store_ok (free_data d ?s)" using d by (intro destroy_ok(2)) simp_all
      moreover have g: "allocated (free_data d ?s) = removeAll d (allocated (store c))" "data_at (free_data d ?s) = data_at (store c)"
        "source_data (free_data d ?s) = source_data (store c)"
        "fresh_offer r (store c) \<Longrightarrow> fresh_offer r (free_data d ?s)"
        by (simp_all add: free_data_def touch_def f fresh_offer_def Let_def)
      moreover have "drop_selection c = (let c = on_store (ds_emit [Impl_cancelled i]) c; c = source_cancelled d c
        in c\<lparr>device := (device c)\<lparr>dd_selection := None, dd_data := None\<rparr>\<rparr>)"
        by (simp add: drop_selection_def None Some data_internal_owner_def touch_ok [OF d(1)] i Let_def on_store_def)
      ultimately show ?thesis
        using assms(2) None Some
        by (auto simp: source_cancelled_def data_destroy_internal_def Let_def)
    qed (use assms(1,2) None in \<open>simp add: drop_selection_def Let_def\<close>)
  qed
  then show "device (drop_selection c) = (device c)\<lparr>dd_selection := None, dd_data := None, dd_listener := None\<rparr>"
    "primary (drop_selection c) = primary c" "ps_device (drop_selection c) = ps_device c"
    "kb_client (drop_selection c) = kb_client c" "store_ok (store (drop_selection c))"
    "source_data (store (drop_selection c)) = source_data (store c)"
    "data_at (store (drop_selection c)) = data_at (store c)"
    "set (allocated (store (drop_selection c))) = set (allocated (store c)) -
      (if dd_selection (device c) = None then set_option (dd_data (device c)) else {})"
    "xs_source (drop_selection c) = (if dd_selection (device c) = None \<and> dd_data (device c) = xs_source c then None else xs_source c)"
    "fresh_offer r (store c) \<Longrightarrow> fresh_offer r (store (drop_selection c))"
    by blast+
qed

lemma clip_drop:
  assumes "clip_ok c"
  shows "\<forall>d. dd_selection (device c) = None \<and> dd_data (device c) = Some d \<longrightarrow>
      d \<in> set (allocated (store c)) \<and> dt_source (data_at (store c) d) = None"
  using clip_okD(5,7) [OF assms] by metis

lemma set_selection_ok:
  assumes "clip_ok c" "fresh_offer r (store c)" "\<And>s. source = Some s \<Longrightarrow> source_data (store c) s \<noteq> None"
  shows "clip_ok (set_selection allowed r source c)"
proof (cases "\<not> allowed \<or> source = dd_selection (device c) \<and> (source \<noteq> None \<or> dd_data (device c) = None)")
  case True
  then show ?thesis using assms(1) by (auto simp: set_selection_def)
next
  case False
  note k = clip_okD [OF assms(1)]
  note f = drop_facts [where c = c, OF k(1,3) clip_drop [OF assms(1)]]
  have xs: "xs_source (drop_selection c) = None"
    using k(5,6) by (cases "dd_selection (device c)") (simp_all add: f)
  let ?z = "(drop_selection c)\<lparr>device := (device (drop_selection c))\<lparr>dd_listener := source, dd_selection := source,
    dd_data := data_from_source source (store (drop_selection c))\<rparr>\<rparr>"
  have u: "x\<lparr>dd_selection := a, dd_data := b, dd_listener := l\<rparr> = x\<lparr>dd_listener := l, dd_selection := a, dd_data := b\<rparr>"
    for x :: data_device and a b l by simp
  have "set_selection allowed r source c = handle_data_device_event r ?z"
    using False by (cases source) (auto simp: set_selection_def Let_def f(1) u)
  moreover have "clip_ok ?z"
  proof -
    have no: "\<not> (d \<in> set (allocated (store ?z)) \<and> dt_source (data_at (store ?z) d) = None)" for d
      using k(5,6) k(7) [of d] by (auto simp: f)
    have src: "\<exists>d. source_data (store ?z) s = Some d \<and> dd_data (device ?z) = Some d" if "source = Some s" for s
      using assms(3) [OF that] by (auto simp: f(6) data_from_source_def that)
    show ?thesis
      unfolding clip_ok_def
      using f(5) k(2,8,9,10) xs no src by (auto simp: f(2,3) data_from_source_def)
  qed
  moreover have "fresh_offer r (store ?z)" using f(10) [OF assms(2)] by simp
  ultimately show ?thesis using device_event_ok by metis
qed

lemma source_gone_ok:
  assumes "clip_ok c" "fresh_offer r (store c)" "source_data (store c) s = Some d"
  shows "clip_ok (source_gone r s c)"
proof -
  note k = clip_okD [OF assms(1)]
  let ?d = "(device c)\<lparr>dd_listener := None, dd_selection := None, dd_data := None\<rparr>"
  define c1 where "c1 = (if dd_listener (device c) = Some s then handle_selection_destroy r (c\<lparr>device := (device c)\<lparr>dd_listener := None\<rparr>\<rparr>) else c)"
  have g: "source_gone r s c = on_store (data_destroy s) c1" by (simp only: source_gone_def c1_def Let_def)
  have 1: "clip_ok c1 \<and> source_data (store c1) s = Some d \<and> dd_selection (device c1) \<noteq> Some s"
  proof (cases "dd_listener (device c) = Some s")
    case True
    then have sel: "dd_selection (device c) = Some s" using k(3) by simp
    let ?z = "c\<lparr>device := ?d\<rparr>"
    have z: "clip_ok ?z"
      using k(1,2,7,8,9,10) k(6) sel unfolding clip_ok_def by auto
    have "c1 = handle_data_device_event r ?z"
      using True by (simp add: c1_def handle_selection_destroy_def)
    moreover have "offered ?z (handle_data_device_event r ?z)"
      using selection_offered [OF clip_data_live [OF z], of r] assms(2) by (simp add: handle_data_device_event_def split: option.split)
    ultimately show ?thesis
      using device_event_ok [OF z] assms(2,3) by (simp add: offered_def same_sources_def)
  qed (use assms k(3) in \<open>simp add: c1_def\<close>)
  note k1 = clip_okD [OF conjunct1 [OF 1]]
  have r1: "source_data (store c1) s = Some d" using 1 by blast
  have f: "source_data (data_destroy s t) = (source_data t)(s := None)" "data_at (data_destroy s t) = data_at t"
    "allocated (data_destroy s t) = removeAll d (allocated t)" if "source_data t s = Some d" for t
    using that by (simp_all add: data_destroy_def free_data_def touch_def Let_def)
  have "store_ok (data_destroy s (store c1))" by (rule destroy_ok(1) [OF k1(1) r1])
  moreover have "dt_source (data_at (store c1) d) = Some s" by (rule store_okD(11) [OF k1(1) r1])
  ultimately have "clip_ok (on_store (data_destroy s) c1)"
    using k1(2-10) 1 unfolding clip_ok_def clip_fields f [OF r1] by (auto simp: f [OF r1])
  then show ?thesis by (simp add: g)
qed

lemma set_internal_ok:
  assumes "store_ok (store c)" "store_ok (primary c)" "dd_listener (device c) = dd_selection (device c)"
    and "\<forall>e. dd_selection (device c) = None \<and> dd_data (device c) = Some e \<longrightarrow>
      e \<in> set (allocated (store c)) \<and> dt_source (data_at (store c) e) = None"
    and "dd_data (device c) \<noteq> d"
    and "\<And>e. e \<in> set (allocated (store c)) \<Longrightarrow> dt_source (data_at (store c) e) = None \<Longrightarrow>
      Some e = d \<or> dd_selection (device c) = None \<and> dd_data (device c) = Some e"
    and "\<And>e. d = Some e \<Longrightarrow> e \<in> set (allocated (store c)) \<and> dt_source (data_at (store c) e) = None"
    and "xs_source c = d \<or> d = None \<and> dd_selection (device c) = None \<and> dd_data (device c) = xs_source c"
    and "ps_listener (ps_device c) = ps_selection (ps_device c)"
    and "\<And>s. ps_selection (ps_device c) = Some s \<Longrightarrow> source_data (primary c) s \<noteq> None"
    and "\<forall>d \<in> set (allocated (primary c)). dt_source (data_at (primary c) d) \<noteq> None"
    and "fresh_offer r (store c)"
  shows "clip_ok (data_device_set_internal_selection r d c)"
proof -
  note f = drop_facts [where c = c, OF assms(1) assms(3) assms(4)]
  let ?z = "(drop_selection c)\<lparr>device := (device (drop_selection c))\<lparr>dd_data := d\<rparr>\<rparr>"
  have xs: "xs_source (drop_selection c) = d" using assms(5,8) by (auto simp: f(9))
  have al: "d = Some e \<longleftrightarrow> e \<in> set (allocated (store ?z)) \<and> dt_source (data_at (store ?z) e) = None" for e
    using assms(5) assms(6) [of e] assms(7) [of e] by (auto simp: f(7,8))
  have "clip_ok ?z"
    unfolding clip_ok_def using f(5) assms(2,9,10,11) xs al by (auto simp: f(1,2,3))
  moreover have "data_device_set_internal_selection r d c = handle_data_device_event r ?z"
    using assms(5) by (simp add: data_device_set_internal_selection_def Let_def)
  ultimately show ?thesis using device_event_ok f(10) [OF assms(12)] by simp
qed

lemma disown_ok:
  assumes "clip_ok c" "fresh_offer r (store c)"
  shows "clip_ok (disown_selection r c)"
proof (cases "xs_source c = None")
  case False
  note k = clip_okD [OF assms(1)]
  have s: "dd_selection (device c) = None" using k(6) False by blast
  have "clip_ok (data_device_set_internal_selection r None c)"
  proof (rule set_internal_ok [OF k(1,2,3) _ _ _ _ _ k(8,9,10) assms(2)])
    show "dd_data (device c) \<noteq> None" using k(5) [OF s] False by simp
    show "Some e = None \<or> dd_selection (device c) = None \<and> dd_data (device c) = Some e"
      if "e \<in> set (allocated (store c))" "dt_source (data_at (store c) e) = None" for e
      using that k(5) [OF s] k(7) [of e] s by simp
    show "xs_source c = None \<or> None = None \<and> dd_selection (device c) = None \<and> dd_data (device c) = xs_source c"
      using s k(5) [OF s] by simp
  qed (use clip_drop [OF assms(1)] in simp_all)
  then show ?thesis using False by (simp add: disown_selection_def)
qed (use assms(1) in \<open>simp add: disown_selection_def\<close>)

lemma publish_ok:
  assumes "clip_ok c" "fresh_offer r (store c)" "\<And>x. d = Some x \<Longrightarrow> x \<notin> set (allocated (store c))"
  shows "clip_ok (publish_targets r d added c)"
proof (cases d)
  case None
  then show ?thesis using assms(1) by (simp add: publish_targets_def data_create_internal_def)
next
  case (Some x)
  note k = clip_okD [OF assms(1)] and n = assms(3) [OF Some]
  define s where "s = (store c)\<lparr>data_at := (data_at (store c))(x := new_data None (Some 0)), allocated := x # allocated (store c)\<rparr>"
  define t where "t = fold (\<lambda>m. snd \<circ> data_add_mime_type True True x m) added s"
  have p: "publish_targets r d added c =
    (if added = [] then c\<lparr>store := free_data x s\<rparr> else data_device_set_internal_selection r (Some x) (c\<lparr>store := t, xs_source := Some x\<rparr>))"
    by (simp add: publish_targets_def Some data_create_internal_def s_def t_def on_store_def data_destroy_internal_def Let_def)
  have s: "store_ok s" unfolding s_def by (rule internal_new_ok [OF k(1) n])
  have src: "source_data s = source_data (store c)" "offer_data s = offer_data (store c)" by (simp_all add: s_def)
  have at: "e \<in> set (allocated s) \<and> dt_source (data_at s e) = None \<longleftrightarrow> e = x \<or> xs_source c = Some e" for e
    using k(7) [of e] n by (auto simp: s_def new_data_def)
  have nx: "xs_source c \<noteq> Some x" "dd_data (device c) \<noteq> Some x"
  proof -
    show xs: "xs_source c \<noteq> Some x" using k(7) [of x] n by simp
    show "dd_data (device c) \<noteq> Some x"
    proof (cases "dd_selection (device c)")
      case (Some y)
      then show ?thesis using k(4) [OF Some] store_okD(10) [OF k(1)] n by auto
    qed (use k(5) xs in simp)
  qed
  show ?thesis
  proof (cases "added = []")
    case True
    have f: "source_data (free_data x s) = source_data (store c)" "data_at (free_data x s) = data_at s"
      "allocated (free_data x s) = removeAll x (allocated s)"
      by (simp_all add: free_data_def touch_def s_def Let_def)
    have "store_ok (free_data x s)" using at [of x] by (intro destroy_ok(2) s) simp_all
    moreover have "xs_source c = Some e \<longleftrightarrow> e \<in> set (removeAll x (allocated s)) \<and> dt_source (data_at s e) = None" for e
      using at [of e] nx(1) by auto
    ultimately have "clip_ok (c\<lparr>store := free_data x s\<rparr>)"
      using k(2-6) k(8-10) unfolding clip_ok_def by (simp add: f)
    then show ?thesis unfolding p by (simp add: True)
  next
    case False
    have t: "same_store s t" unfolding t_def by (rule add_types_same) (simp add: s_def)
    have e: "allocated t = allocated s" "dt_source (data_at t y) = dt_source (data_at s y)" "source_data t = source_data s"
      "offer_data t = offer_data s" for y
      using t by (simp_all add: same_store_def)
    define z where "z = c\<lparr>store := t, xs_source := Some x\<rparr>"
    have z: "store z = t" "primary z = primary c" "device z = device c" "ps_device z = ps_device c" "xs_source z = Some x"
      by (simp_all add: z_def)
    have at': "y \<in> set (allocated t) \<and> dt_source (data_at t y) = None \<longleftrightarrow> y = x \<or> xs_source c = Some y" for y
      using at by (simp add: e)
    have "clip_ok (data_device_set_internal_selection r (Some x) z)"
    proof (rule set_internal_ok; unfold z)
      show "store_ok t" using same_store_ok [OF t s] .
      show "fresh_offer r t" using assms(2) by (simp add: fresh_offer_def e src)
      show "\<forall>y. dd_selection (device c) = None \<and> dd_data (device c) = Some y \<longrightarrow>
        y \<in> set (allocated t) \<and> dt_source (data_at t y) = None"
        unfolding at' using k(5) by auto
      show "Some y = Some x \<or> dd_selection (device c) = None \<and> dd_data (device c) = Some y"
        if "y \<in> set (allocated t)" "dt_source (data_at t y) = None" for y
        using that at' [of y] k(5,6) by (cases "dd_selection (device c)") auto
      show "y \<in> set (allocated t) \<and> dt_source (data_at t y) = None" if "Some x = Some y" for y
        using that at' [of y] by simp
    qed (use k(2,3,8,9,10) nx in simp_all)
    then have "clip_ok (data_device_set_internal_selection r (Some x) (c\<lparr>store := t, xs_source := Some x\<rparr>))"
      unfolding z_def .
    then show ?thesis unfolding p by (simp add: False)
  qed
qed

section \<open>The primary selection\<close>

lemma clip_ok_primary:
  assumes "clip_ok c" "store c' = store c" "device c' = device c" "xs_source c' = xs_source c" "store_ok (primary c')"
    "ps_listener (ps_device c') = ps_selection (ps_device c')"
    "\<And>s. ps_selection (ps_device c') = Some s \<Longrightarrow> source_data (primary c') s \<noteq> None"
    "\<And>d. d \<in> set (allocated (primary c')) \<Longrightarrow> dt_source (data_at (primary c') d) \<noteq> None"
  shows "clip_ok c'"
  using assms clip_okD [OF assms(1)] unfolding clip_ok_def by simp

lemma primary_new_eq: "source_data s source = Some d \<Longrightarrow> primary_offer_new r source s = data_offer_new_for r (Some d) s"
  by (simp add: primary_offer_new_def data_offer_new_for_def split: option.split)

lemma primary_offered:
  assumes "store_ok (primary c)" "fresh_offer r (primary c)"
    "\<And>s. ps_selection (ps_device c) = Some s \<Longrightarrow> source_data (primary c) s \<noteq> None"
  shows "offered c (primary_selection_device_offer r k c)"
proof -
  have e: "offered c z \<Longrightarrow> offered c (cb_emit es z)" for z es by (simp add: offered_def)
  show ?thesis
  proof (cases "ps_selection (ps_device c)")
    case None
    then show ?thesis using e by (simp add: primary_selection_device_offer_def split: option.split)
  next
    case (Some source)
    obtain d where d: "source_data (primary c) source = Some d" using assms(3) [OF Some] by blast
    obtain q s where o: "data_offer_new_for r (Some d) (primary c) = (q, s)" by (metis surj_pair)
    have s: "same_sources (primary c) s" using offer_sources [OF store_okD(10) [OF assms(1) d] assms(2)] by (simp add: o)
    then have "store_ok s" "source_data s source = Some d" using assms(1) d by (simp_all add: same_sources_def)
    then have "same_sources (primary c) (source_send_mime_types source y s)" for y
      using same_sources_trans [OF s] same_store_sources primary_same(2) by blast
    then show ?thesis using s Some e
      by (simp add: primary_selection_device_offer_def primary_new_eq [OF d] o offered_def cb_emit_def split: option.split)
  qed
qed

lemma primary_event_ok:
  assumes "clip_ok c" "fresh_offer r (primary c)"
  shows "offered c (handle_primary_selection_event r c)" "clip_ok (handle_primary_selection_event r c)"
proof -
  show o: "offered c (handle_primary_selection_event r c)"
    using primary_offered [OF clip_okD(2) [OF assms(1)] assms(2) clip_okD(9) [OF assms(1)]]
    by (simp add: handle_primary_selection_event_def split: option.split)
  show "clip_ok (handle_primary_selection_event r c)" by (rule offered_ok [OF o assms(1)])
qed

lemma device_set_selection_ok:
  assumes "clip_ok c" "fresh_offer r (primary c)" "\<And>s. source = Some s \<Longrightarrow> source_data (primary c) s \<noteq> None"
  shows "clip_ok (device_set_selection allowed r source c)"
proof (cases "\<not> allowed \<or> source = ps_selection (ps_device c)")
  case True
  then show ?thesis using assms(1) by (simp add: device_set_selection_def)
next
  case False
  note k = clip_okD [OF assms(1)]
  let ?p = "case ps_selection (ps_device c) of None \<Rightarrow> primary c | Some s \<Rightarrow> ds_emit [Send_cancelled s] (primary c)"
  let ?z = "c\<lparr>primary := ?p, ps_device := (ps_device c)\<lparr>ps_listener := source, ps_selection := source\<rparr>\<rparr>"
  have p: "same_store (primary c) ?p" by (simp split: option.split)
  have e: "source_data ?p = source_data (primary c)" "allocated ?p = allocated (primary c)"
    "dt_source (data_at ?p d) = dt_source (data_at (primary c) d)" "offer_data ?p = offer_data (primary c)" for d
    using p by (simp_all add: same_store_def)
  have u: "x\<lparr>ps_selection := a, ps_listener := l\<rparr> = x\<lparr>ps_listener := l, ps_selection := a\<rparr>" for x :: primary_device and a l by simp
  have "device_set_selection allowed r source c = handle_primary_selection_event r ?z"
    using False k(8) by (cases source; cases "ps_selection (ps_device c)")
      (simp_all add: device_set_selection_def on_primary_def u Let_def)
  moreover have "clip_ok ?z"
    by (rule clip_ok_primary [OF assms(1)]) (use same_store_ok [OF p k(2)] assms(3) k(10) in \<open>simp_all add: e\<close>)
  moreover have "fresh_offer r (primary ?z)" using assms(2) by (simp add: fresh_offer_def e)
  ultimately show ?thesis using primary_event_ok(2) by metis
qed

lemma primary_gone_ok:
  assumes "clip_ok c" "fresh_offer r (primary c)" "source_data (primary c) s = Some d"
  shows "clip_ok (primary_source_gone r s c)"
proof -
  note k = clip_okD [OF assms(1)]
  define c1 where "c1 = (if ps_listener (ps_device c) = Some s
    then primary_handle_selection_destroy r (c\<lparr>ps_device := (ps_device c)\<lparr>ps_listener := None\<rparr>\<rparr>) else c)"
  have g: "primary_source_gone r s c = on_primary (primary_source_destroy s) c1" by (simp only: primary_source_gone_def c1_def Let_def)
  have 1: "clip_ok c1 \<and> source_data (primary c1) s = Some d \<and> ps_selection (ps_device c1) \<noteq> Some s"
  proof (cases "ps_listener (ps_device c) = Some s")
    case True
    let ?z = "c\<lparr>ps_device := (ps_device c)\<lparr>ps_listener := None, ps_selection := None\<rparr>\<rparr>"
    have z: "clip_ok ?z" by (rule clip_ok_primary [OF assms(1)]) (use k(2,10) in simp_all)
    have "c1 = handle_primary_selection_event r ?z" using True by (simp add: c1_def primary_handle_selection_destroy_def)
    then show ?thesis using primary_event_ok [OF z] assms(2,3) by (simp add: offered_def same_sources_def)
  qed (use assms k(8) in \<open>simp add: c1_def\<close>)
  note k1 = clip_okD [OF conjunct1 [OF 1]]
  have r1: "source_data (primary c1) s = Some d" using 1 by blast
  have f: "source_data (data_destroy s t) = (source_data t)(s := None)" "data_at (data_destroy s t) = data_at t"
    "allocated (data_destroy s t) = removeAll d (allocated t)" if "source_data t s = Some d" for t
    using that by (simp_all add: data_destroy_def free_data_def touch_def Let_def)
  have "clip_ok (on_primary (data_destroy s) c1)"
    by (rule clip_ok_primary [OF conjunct1 [OF 1]])
      (use destroy_ok(1) [OF k1(2) r1] k1(8,9,10) 1 in \<open>auto simp: f [OF r1]\<close>)
  then show ?thesis using primary_same(3) [OF k1(2) r1] by (simp add: g on_primary_def)
qed

section \<open>Every sequence of requests\<close>

text \<open>
  \<open>live\<close> and \<open>spare\<close> are what libwayland promises of the resources it passes and makes: a request comes
  on a resource that exists, and a new one is no source or offer yet.
\<close>

definition live :: "nat option \<Rightarrow> data_store \<Rightarrow> bool" where
  "live source s \<longleftrightarrow> (\<forall>r. source = Some r \<longrightarrow> source_data s r \<noteq> None)"

definition spare :: "nat option \<Rightarrow> nat option \<Rightarrow> data_store \<Rightarrow> bool" where
  "spare d r s \<longleftrightarrow> (\<forall>x. d = Some x \<longrightarrow> x \<notin> set (allocated s)) \<and> (\<forall>x. r = Some x \<longrightarrow> source_data s x = None)"

inductive clip_step :: "clipboard \<Rightarrow> clipboard \<Rightarrow> bool" where
  accepted: "clip_step c (on_store (snd \<circ> offer_accept x m) c)"
| received: "clip_step c (on_store (offer_receive x m fd) c)"
| offer_gone: "clip_step c (on_store (offer_destroy x) c)"
| source_made: "spare d r (store c) \<Longrightarrow> clip_step c (on_store (snd \<circ> data_source_new d r) c)"
| source_type: "live (Some r) (store c) \<Longrightarrow> clip_step c (on_store (source_offer a b r m) c)"
| source_actions: "live (Some r) (store c) \<Longrightarrow> clip_step c (on_store (source_set_actions r k) c)"
| source_destroyed: "live (Some s) (store c) \<Longrightarrow> fresh_offer r (store c) \<Longrightarrow> clip_step c (source_gone r s c)"
| dragged: "live source (store c) \<Longrightarrow> fresh_offer r (store c) \<Longrightarrow> clip_step c (on_store (snd \<circ> data_offer_new r source) c)"
| selected: "live source (store c) \<Longrightarrow> fresh_offer r (store c) \<Longrightarrow> clip_step c (set_selection allowed r source c)"
| bound: "clip_step c (data_device_bind x k c)"
| unbound: "clip_step c (data_device_unbind x c)"
| published: "spare d None (store c) \<Longrightarrow> fresh_offer r (store c) \<Longrightarrow> clip_step c (publish_targets r d ms c)"
| disowned: "fresh_offer r (store c) \<Longrightarrow> clip_step c (disown_selection r c)"
| p_received: "clip_step c (on_primary (primary_offer_receive x m fd) c)"
| p_offer_gone: "clip_step c (on_primary (offer_destroy x) c)"
| p_made: "spare d r (primary c) \<Longrightarrow> clip_step c (on_primary (create_source d r) c)"
| p_type: "live (Some r) (primary c) \<Longrightarrow> clip_step c (on_primary (primary_source_offer a b r m) c)"
| p_destroyed: "live (Some s) (primary c) \<Longrightarrow> fresh_offer r (primary c) \<Longrightarrow> clip_step c (primary_source_gone r s c)"
| p_selected: "live source (primary c) \<Longrightarrow> fresh_offer r (primary c) \<Longrightarrow> clip_step c (device_set_selection allowed r source c)"
| p_bound: "fresh_offer r (primary c) \<Longrightarrow> clip_step c (get_device r x k c)"
| focused: "fresh_offer r1 (store c) \<Longrightarrow> fresh_offer r2 (primary c) \<Longrightarrow> clip_step c (handle_keyboard_focus_event r1 r2 client c)"

definition empty_store :: data_store where
  "empty_store = \<lparr>data_at = \<lambda>_. new_data None None, allocated = [], source_data = \<lambda>_. None, offer_data = \<lambda>_. None,
     offer_unlinks = [], ds_fault = False, ds_log = []\<rparr>"

definition clip_start :: clipboard where
  "clip_start = \<lparr>store = empty_store, primary = empty_store,
     device = \<lparr>dd_selection = None, dd_data = None, dd_listener = None, dd_resources = []\<rparr>,
     ps_device = \<lparr>ps_selection = None, ps_listener = None, ps_resources = []\<rparr>, xs_source = None, kb_client = None, cb_log = []\<rparr>"

inductive clip_reachable :: "clipboard \<Rightarrow> bool" where
  start: "clip_reachable clip_start"
| step: "clip_reachable c \<Longrightarrow> clip_step c c' \<Longrightarrow> clip_reachable c'"

lemma clip_start_ok: "clip_ok clip_start"
  by (simp add: clip_ok_def clip_start_def empty_store_def store_ok_def)

lemma clip_ok_store:
  assumes "clip_ok c" "store_ok (f (store c))" "\<And>s d. source_data (store c) s = Some d \<Longrightarrow> source_data (f (store c)) s = Some d"
    "\<And>d. d \<in> set (allocated (f (store c))) \<and> dt_source (data_at (f (store c)) d) = None \<longleftrightarrow>
      d \<in> set (allocated (store c)) \<and> dt_source (data_at (store c) d) = None"
  shows "clip_ok (on_store f c)"
proof -
  note k = clip_okD [OF assms(1)]
  show ?thesis unfolding clip_ok_def clip_fields using k(2,3,5,6,8,9,10) k(4,7) assms(2-4) by blast
qed

lemma clip_same_store:
  assumes "clip_ok c" "same_sources (store c) (f (store c))"
  shows "clip_ok (on_store f c)"
  using assms clip_okD(1) [OF assms(1)] by (intro clip_ok_store) (auto simp: same_sources_def)

lemma clip_same_primary:
  assumes "clip_ok c" "same_sources (primary c) (f (primary c))"
  shows "clip_ok (on_primary f c)"
  using assms clip_okD [OF assms(1)] by (intro clip_ok_primary [OF assms(1)]) (auto simp: same_sources_def)

lemma offer_destroy_sources: "store_ok s \<Longrightarrow> same_sources s (offer_destroy x s)"
  using offer_destroy_ok [of s x] store_okD(2,5) [of s x]
  by (simp add: same_sources_def) (auto simp: offer_destroy_def upd_data_def touch_def Let_def split: option.split)

lemma new_source_ok:
  assumes "store_ok s" "spare d r s"
  shows "store_ok (create_source d r s)" "snd (data_source_new d r s) = create_source d r s"
    "source_data s q = Some e \<Longrightarrow> source_data (create_source d r s) q = Some e"
    "e \<in> set (allocated (create_source d r s)) \<and> dt_source (data_at (create_source d r s) e) = None \<longleftrightarrow>
      e \<in> set (allocated s) \<and> dt_source (data_at s e) = None"
  using new_data_ok [OF assms(1)] assms
  by (auto simp: spare_def create_source_def data_source_new_def new_data_def split: option.split)

lemma data_offer_new_sources:
  assumes "store_ok s" "live source s" "fresh_offer r s"
  shows "same_sources s (snd (data_offer_new r source s))"
proof (cases "data_from_source source s")
  case None
  then show ?thesis by (simp add: data_offer_new_def data_offer_new_for_def)
next
  case (Some d)
  then obtain q where "source_data s q = Some d" by (auto simp: data_from_source_def split: option.splits)
  from offer_sources [OF store_okD(10) [OF assms(1) this] assms(3)] show ?thesis by (simp add: data_offer_new_def Some)
qed

lemma clip_step_ok: "clip_step c c' \<Longrightarrow> clip_ok c \<Longrightarrow> clip_ok c'"
proof (induction rule: clip_step.induct)
  case (accepted c x m)
  then show ?case by (intro clip_same_store) (simp_all add: same_store_sources [OF offer_accept_same [OF clip_okD(1)]])
next
  case (received c x m fd)
  then show ?case by (intro clip_same_store) (simp_all add: same_store_sources [OF offer_receive_same [OF clip_okD(1)]])
next
  case (offer_gone c x)
  then show ?case by (intro clip_same_store) (simp_all add: offer_destroy_sources [OF clip_okD(1)])
next
  case (source_made d r c)
  note n = new_source_ok [OF clip_okD(1) [OF source_made(2)] source_made(1)]
  show ?case by (rule clip_ok_store [OF source_made(2)]) (simp_all add: n)
next
  case (source_type r c a b m)
  then show ?case by (intro clip_same_store) (auto simp: live_def intro!: same_store_sources source_offer_same(1) [OF clip_okD(1)])
next
  case (source_actions r c k)
  then show ?case by (intro clip_same_store) (auto simp: live_def intro!: same_store_sources source_offer_same(2) [OF clip_okD(1)])
next
  case (source_destroyed s c r)
  then show ?case using source_gone_ok by (auto simp: live_def)
next
  case (dragged source c r)
  then show ?case by (intro clip_same_store) (simp_all add: data_offer_new_sources [OF clip_okD(1)])
next
  case (selected source c r allowed)
  then show ?case by (intro set_selection_ok) (simp_all add: live_def)
next
  case (published d c r ms)
  then show ?case by (intro publish_ok) (simp_all add: spare_def)
next
  case (p_received c x m fd)
  then show ?case
    by (intro clip_same_primary) (simp_all add: same_store_sources [OF primary_receive_same [OF clip_okD(2) clip_okD(10)]])
next
  case (p_offer_gone c x)
  then show ?case by (intro clip_same_primary) (simp_all add: offer_destroy_sources [OF clip_okD(2)])
next
  case (p_made d r c)
  note n = new_source_ok [OF clip_okD(2) [OF p_made(2)] p_made(1)]
  note k = clip_okD [OF p_made(2)]
  show ?case
  proof (rule clip_ok_primary [OF p_made(2)])
    show "source_data (primary (on_primary (create_source d r) c)) s \<noteq> None"
      if "ps_selection (ps_device (on_primary (create_source d r) c)) = Some s" for s
      using k(9) [of s] that n(3) [of s] by auto
    show "dt_source (data_at (primary (on_primary (create_source d r) c)) e) \<noteq> None"
      if "e \<in> set (allocated (primary (on_primary (create_source d r) c)))" for e
      using k(10) that n(4) [of e] by auto
  qed (use n(1) k(8) in simp_all)
next
  case (p_type r c a b m)
  then show ?case by (intro clip_same_primary) (auto simp: live_def intro!: same_store_sources primary_same(1) [OF clip_okD(2)])
next
  case (p_destroyed s c r)
  then show ?case using primary_gone_ok by (auto simp: live_def)
next
  case (p_selected source c r allowed)
  then show ?case by (intro device_set_selection_ok) (simp_all add: live_def)
next
  case (p_bound r c x k)
  let ?z = "c\<lparr>ps_device := (ps_device c)\<lparr>ps_resources := (x, k) # ps_resources (ps_device c)\<rparr>\<rparr>"
  have z: "clip_ok ?z" using clip_okD [OF p_bound(2)] by (intro clip_ok_primary [OF p_bound(2)]) simp_all
  have "offered ?z (primary_selection_device_offer r k ?z)"
    by (rule primary_offered) (use p_bound clip_okD [OF p_bound(2)] in simp_all)
  from offered_ok [OF this z] z show ?case by (simp add: get_device_def Let_def)
next
  case (focused r1 c r2 client)
  let ?z = "c\<lparr>kb_client := client\<rparr>"
  have z: "clip_ok ?z" using focused(3) by (simp add: clip_ok_def)
  show ?case
  proof (cases client)
    case (Some k)
    have o: "offered ?z (data_device_offer_selection r1 k ?z)"
      by (rule selection_offered [OF clip_data_live [OF z]]) (use focused(1) in simp)
    then have p: "primary (data_device_offer_selection r1 k ?z) = primary c"
      by (simp add: data_device_offer_selection_def new_offer_def cb_emit_def split: option.split prod.split)
    note z1 = offered_ok [OF o z]
    have "offered (data_device_offer_selection r1 k ?z) (primary_selection_device_offer r2 k (data_device_offer_selection r1 k ?z))"
      by (rule primary_offered [OF clip_okD(2) [OF z1] _ clip_okD(9) [OF z1]]) (use focused(2) p in simp_all)
    from offered_ok [OF this z1] show ?thesis by (simp add: handle_keyboard_focus_event_def Some)
  qed (use z in \<open>simp add: handle_keyboard_focus_event_def\<close>)
next
  case (disowned r c)
  then show ?case by (intro disown_ok)
qed (simp_all add: data_device_bind_def data_device_unbind_def clip_ok_def)

lemma clip_reachable_ok: "clip_reachable c \<Longrightarrow> clip_ok c"
  by (induction rule: clip_reachable.induct) (auto intro: clip_start_ok clip_step_ok)

text \<open>C19: Whatever clients, the bridge to X and the focus do, no data that was freed is used, and no listener is
  added twice or taken off a list it is not on; the clipboard and the primary selection are only ever a source that
  still exists, and data of the bridge to X is the selection until it is freed: none is lost.\<close>

theorem selection_is_live:
  assumes "clip_reachable c"
  shows "\<not> ds_fault (store c) \<and> \<not> ds_fault (primary c) \<and>
    (\<forall>s. dd_selection (device c) = Some s \<longrightarrow>
      (\<exists>d \<in> set (allocated (store c)). dd_data (device c) = Some d \<and> dt_source (data_at (store c) d) = Some s)) \<and>
    (\<forall>s. ps_selection (ps_device c) = Some s \<longrightarrow>
      (\<exists>d \<in> set (allocated (primary c)). dt_source (data_at (primary c) d) = Some s)) \<and>
    (\<forall>d \<in> set (allocated (store c)). dt_source (data_at (store c) d) = None \<longrightarrow>
      dd_selection (device c) = None \<and> dd_data (device c) = Some d)"
proof -
  note k = clip_okD [OF clip_reachable_ok [OF assms]]
  note s = store_okD [OF k(1)] and p = store_okD [OF k(2)]
  show ?thesis
  proof (intro conjI allI impI ballI)
    show "\<exists>d \<in> set (allocated (store c)). dd_data (device c) = Some d \<and> dt_source (data_at (store c) d) = Some x"
      if "dd_selection (device c) = Some x" for x
      using k(4) [OF that] s(10,11) by blast
    show "\<exists>d \<in> set (allocated (primary c)). dt_source (data_at (primary c) d) = Some x"
      if "ps_selection (ps_device c) = Some x" for x
      using k(9) [OF that] p(10,11) by blast
    show "dd_selection (device c) = None" "dd_data (device c) = Some d"
      if "d \<in> set (allocated (store c))" "dt_source (data_at (store c) d) = None" for d
      using that k(5,6) k(7) [of d] by (cases "dd_selection (device c)"; auto)+
  qed (use s(1) p(1) in simp_all)
qed

definition clip_example :: clipboard where
  "clip_example = set_selection True (Some 9) (Some 1)
     (handle_keyboard_focus_event None None (Some 7)
       (data_device_bind 5 7 (on_store (snd \<circ> data_source_new (Some 0) (Some 1)) clip_start)))"

lemma clip_example_reachable: "clip_reachable clip_example"
  unfolding clip_example_def
  by (intro clip_reachable.step [OF _ clip_step.selected] clip_reachable.step [OF _ clip_step.focused]
      clip_reachable.step [OF _ clip_step.bound] clip_reachable.step [OF _ clip_step.source_made] clip_reachable.start)
    (simp_all add: live_def spare_def fresh_offer_def clip_start_def empty_store_def data_device_bind_def
      data_source_new_def handle_keyboard_focus_event_def data_device_offer_selection_def device_for_def
      primary_selection_device_offer_def on_store_def cb_emit_def)

lemma selection_is_live_witness:
  "(\<exists>d \<in> set (allocated (store clip_example)). dt_source (data_at (store clip_example) d) = Some 1) \<and>
   dd_selection (device clip_example) = Some 1"
proof -
  have s: "dd_selection (device clip_example) = Some 1"
    by (simp add: clip_example_def clip_start_def empty_store_def data_device_bind_def data_source_new_def
        handle_keyboard_focus_event_def data_device_offer_selection_def device_for_def primary_selection_device_offer_def
        set_selection_def drop_selection_def handle_data_device_event_def new_offer_def on_store_def cb_emit_def Let_def
        split: prod.split option.split)
  then show ?thesis using selection_is_live [OF clip_example_reachable] by blast
qed

section \<open>What the clients are told\<close>

text \<open>
  Only one client owns a selection.  \<open>takeovers\<close> says how often a source loses it over a sequence of owners; the
  laws of the locale are what both clipboards promise of one change.
\<close>

fun takeovers :: "'x option \<Rightarrow> 'x option list \<Rightarrow> 'x \<Rightarrow> nat" where
  "takeovers cur [] y = 0"
| "takeovers cur (x # xs) y = (if cur = Some y \<and> x \<noteq> Some y then 1 else 0) + takeovers x xs y"

lemma takeovers_distinct:
  "distinct xs \<Longrightarrow> Some y \<in> set xs \<Longrightarrow> cur \<noteq> Some y \<Longrightarrow> takeovers cur xs y = (if last xs = Some y then 0 else 1)"
proof (induction xs arbitrary: cur)
  case (Cons x xs)
  have none: "Some y \<notin> set ys \<Longrightarrow> takeovers z ys y = (if z = Some y \<and> ys \<noteq> [] then 1 else 0)" for z and ys :: "'a option list"
    by (induction ys arbitrary: z) auto
  have "xs \<noteq> [] \<Longrightarrow> last xs = Some y \<Longrightarrow> Some y \<in> set xs" using last_in_set by metis
  then show ?case using Cons none [of xs x] by (cases "x = Some y") auto
qed simp

locale exclusive_selection =
  fixes current :: "'c \<Rightarrow> 'x option" and cancels :: "'c \<Rightarrow> 'x \<Rightarrow> nat" and change :: "'r \<Rightarrow> 'x option \<Rightarrow> 'c \<Rightarrow> 'c"
  assumes current_change: "current (change r x c) = x"
    and cancels_change: "cancels (change r x c) y = cancels c y + (if current c = Some y \<and> x \<noteq> Some y then 1 else 0)"
begin

lemma cancelled_when_replaced:
  "cancels (fold (\<lambda>(r, x). change r x) xs c) y = cancels c y + takeovers (current c) (map snd xs) y"
  by (induction xs arbitrary: c) (auto simp: cancels_change current_change)

lemma last_selected: "xs \<noteq> [] \<Longrightarrow> current (fold (\<lambda>(r, x). change r x) xs c) = snd (last xs)"
  by (induction xs arbitrary: c) (auto simp: current_change)

lemma told_at_most_once:
  assumes "distinct (map snd xs)" "current c \<noteq> Some y" "Some y \<in> set (map snd xs)"
  shows "cancels (fold (\<lambda>(r, x). change r x) xs c) y =
    cancels c y + (if current (fold (\<lambda>(r, x). change r x) xs c) = Some y then 0 else 1)"
proof -
  have "xs \<noteq> []" using assms(3) by auto
  then show ?thesis
    unfolding cancelled_when_replaced takeovers_distinct [OF assms(1,3,2)] last_selected [OF \<open>xs \<noteq> []\<close>]
    by (simp add: last_map)
qed

end

definition cancelled_count :: "data_store \<Rightarrow> nat \<Rightarrow> nat" where
  "cancelled_count s y = count_list (ds_log s) (Send_cancelled y)"

lemma count_emit [simp]: "cancelled_count (ds_emit es s) y = cancelled_count s y + count_list es (Send_cancelled y)"
  by (simp add: cancelled_count_def ds_emit_def)

lemma count_mime [simp]: "count_list (map (Offer_mime x) ms) (Send_cancelled y) = 0"
  by (induction ms) auto

lemma count_log [simp]:
  "cancelled_count (s\<lparr>ds_fault := b\<rparr>) y = cancelled_count s y" "cancelled_count (touch d s) y = cancelled_count s y"
  "cancelled_count (upd_data d f s) y = cancelled_count s y" "cancelled_count (free_data d s) y = cancelled_count s y"
  "cancelled_count (data_destroy_internal e s) y = cancelled_count s y"
  "cancelled_count (snd (data_offer_new_for r e s)) y = cancelled_count s y"
  "cancelled_count (snd (primary_offer_new r q s)) y = cancelled_count s y"
  by (simp_all add: cancelled_count_def touch_def upd_data_def free_data_def data_destroy_internal_def
    data_offer_new_for_def primary_offer_new_def Let_def split: option.split)

lemma count_mime_types [simp]: "cancelled_count (data_send_mime_types_for e x s) y = cancelled_count s y"
  "cancelled_count (source_send_mime_types q x s) y = cancelled_count s y"
  by (simp_all add: data_send_mime_types_for_def source_send_mime_types_def Let_def split: option.split)

lemma new_offer_count: "cancelled_count (store (snd (new_offer r x d c))) y = cancelled_count (store c) y"
proof -
  obtain p s where o: "data_offer_new_for r (Some d) (store c) = (p, s)" by (metis surj_pair)
  have "cancelled_count s y = cancelled_count (store c) y"
    using count_log(6) [of r "Some d" "store c" y] by (simp add: o)
  then show ?thesis by (simp add: new_offer_def o split: option.split)
qed

lemma event_count:
  "cancelled_count (store (handle_data_device_event r c)) y = cancelled_count (store c) y"
  "device (handle_data_device_event r c) = device c"
proof -
  have n: "device (snd (new_offer r x d c)) = device c" for x d
    by (simp add: new_offer_def split: prod.split option.split)
  have "cancelled_count (store (data_device_offer_selection r k c)) y = cancelled_count (store c) y \<and>
    device (data_device_offer_selection r k c) = device c" for k
    using new_offer_count n by (simp add: data_device_offer_selection_def split: option.split prod.split) (metis snd_conv)
  then show "cancelled_count (store (handle_data_device_event r c)) y = cancelled_count (store c) y"
    "device (handle_data_device_event r c) = device c"
    by (simp_all add: handle_data_device_event_def split: option.split)
qed

lemma drop_count:
  "cancelled_count (store (drop_selection c)) y =
    cancelled_count (store c) y + (if dd_selection (device c) = Some y then 1 else 0)"
proof (cases "dd_selection (device c)")
  case (Some s)
  then show ?thesis by (simp add: drop_selection_def Let_def)
next
  case None
  have "cancelled_count (store (source_cancelled d z)) y = cancelled_count (store z) y" for d z
    by (simp add: source_cancelled_def Let_def)
  then show ?thesis using None
    by (simp add: drop_selection_def Let_def split: option.split)
qed

lemma drop_selected: "dd_selection (device (drop_selection c)) = None"
  by (simp add: drop_selection_def Let_def)

lemma selection_change:
  "dd_selection (device (set_selection True r x c)) = x"
  "cancelled_count (store (set_selection True r x c)) y =
    cancelled_count (store c) y + (if dd_selection (device c) = Some y \<and> x \<noteq> Some y then 1 else 0)"
proof -
  let ?a = "x = dd_selection (device c) \<and> (x \<noteq> None \<or> dd_data (device c) = None)"
  define z where "z = (let c = drop_selection c; c = c\<lparr>device := (device c)\<lparr>dd_selection := x, dd_data := data_from_source x (store c)\<rparr>\<rparr>
    in case x of None \<Rightarrow> c | Some s \<Rightarrow> if dd_listener (device c) \<noteq> None then on_store (\<lambda>s. s\<lparr>ds_fault := True\<rparr>) c
      else c\<lparr>device := (device c)\<lparr>dd_listener := Some s\<rparr>\<rparr>)"
  have z: "dd_selection (device z) = x" "cancelled_count (store z) y = cancelled_count (store (drop_selection c)) y"
    by (simp_all add: z_def Let_def split: option.split)
  have s: "set_selection True r x c = (if ?a then c else handle_data_device_event r z)"
    unfolding set_selection_def z_def Let_def by (simp only: simp_thms if_False)
  show "dd_selection (device (set_selection True r x c)) = x" by (auto simp: s event_count z)
  show "cancelled_count (store (set_selection True r x c)) y =
    cancelled_count (store c) y + (if dd_selection (device c) = Some y \<and> x \<noteq> Some y then 1 else 0)"
    by (auto simp: s event_count z drop_count)
qed

lemma primary_event_count:
  "cancelled_count (primary (handle_primary_selection_event r c)) y = cancelled_count (primary c) y"
  "ps_device (handle_primary_selection_event r c) = ps_device c"
proof -
  have n: "cancelled_count s y = cancelled_count (primary c) y" if "primary_offer_new r q (primary c) = (p, s)" for q p s
    using count_log(7) [of r q "primary c" y] that by simp
  show "cancelled_count (primary (handle_primary_selection_event r c)) y = cancelled_count (primary c) y"
    "ps_device (handle_primary_selection_event r c) = ps_device c"
    using n by (auto simp: handle_primary_selection_event_def primary_selection_device_offer_def
      split: option.split prod.split)
qed

lemma primary_change:
  "ps_selection (ps_device (device_set_selection True r x c)) = x"
  "cancelled_count (primary (device_set_selection True r x c)) y =
    cancelled_count (primary c) y + (if ps_selection (ps_device c) = Some y \<and> x \<noteq> Some y then 1 else 0)"
  by (auto simp: device_set_selection_def Let_def primary_event_count split: option.split)

interpretation cbsel: exclusive_selection "\<lambda>c. dd_selection (device c)" "\<lambda>c. cancelled_count (store c)" "set_selection True"
  by unfold_locales (rule selection_change)+

interpretation prsel: exclusive_selection "\<lambda>c. ps_selection (ps_device c)" "\<lambda>c. cancelled_count (primary c)" "device_set_selection True"
  by unfold_locales (rule primary_change)+

text \<open>C24: Over any sequence of selections a source gets one \<open>cancelled\<close> event for every time it loses the
  selection to another, and none while it keeps it, for the clipboard and for the primary selection.\<close>

theorem cancelled_per_takeover:
  "cancelled_count (store (fold (\<lambda>(r, x). set_selection True r x) xs c)) y =
     cancelled_count (store c) y + takeovers (dd_selection (device c)) (map snd xs) y \<and>
   cancelled_count (primary (fold (\<lambda>(r, x). device_set_selection True r x) xs c)) y =
     cancelled_count (primary c) y + takeovers (ps_selection (ps_device c)) (map snd xs) y"
  using cbsel.cancelled_when_replaced prsel.cancelled_when_replaced by blast

text \<open>What is offered to one client: the announcement of an offer with the types of the data, then the selection.\<close>

definition announces :: "nat \<Rightarrow> nat \<Rightarrow> nat \<Rightarrow> string list \<Rightarrow> clipboard \<Rightarrow> clipboard \<Rightarrow> bool" where
  "announces dev x d types c c' \<longleftrightarrow> cb_log c' = cb_log c @ [Data_offer dev x, Selection_is dev (Some x)] \<and>
     offer_data (store c') x = Some d \<and> ds_log (store c') = ds_log (store c) @ map (Offer_mime x) types"

lemma offer_announces:
  assumes "device_for (dd_resources (device c)) k = Some dev" "dd_data (device c) = Some d" "d \<in> set (allocated (store c))"
  shows "announces dev x d (mime_types (data_at (store c) d)) c (data_device_offer_selection (Some x) k c)"
  using assms by (simp add: announces_def data_device_offer_selection_def new_offer_def data_offer_new_for_def cb_emit_def
    data_send_mime_types_for_def upd_data_def touch_def ds_emit_def Let_def)

lemma none_announced:
  assumes "device_for (dd_resources (device c)) k = Some dev" "dd_data (device c) = None"
  shows "cb_log (data_device_offer_selection r k c) = cb_log c @ [Selection_is dev None]"
  using assms by (simp add: data_device_offer_selection_def cb_emit_def)

text \<open>C25: When the focused client, or any client the compositor lets do so, sets the clipboard to a source, the client
  with the keyboard focus is at once given an offer of that source, with all of its types in order, and told that
  this is the selection; clearing the clipboard tells it that there is none.\<close>

theorem selection_announced:
  assumes "clip_reachable c" "kb_client c = Some k" "device_for (dd_resources (device c)) k = Some dev"
    and "offer_data (store c) x = None" "source \<noteq> dd_selection (device c)"
    and "\<And>s. source = Some s \<Longrightarrow> source_data (store c) s = Some d"
  shows "case source of
      Some s \<Rightarrow> announces dev x d (mime_types (data_at (store c) d)) (drop_selection c) (set_selection True (Some x) source c)
    | None \<Rightarrow> cb_log (set_selection True (Some x) source c) = cb_log c @ [Selection_is dev None]"
proof -
  note ok = clip_reachable_ok [OF assms(1)]
  note k = clip_okD [OF ok]
  note f = drop_facts [where c = c, OF k(1,3) clip_drop [OF ok]]
  let ?z = "(drop_selection c)\<lparr>device := (device (drop_selection c))\<lparr>dd_listener := source, dd_selection := source,
    dd_data := data_from_source source (store (drop_selection c))\<rparr>\<rparr>"
  have u: "x\<lparr>dd_selection := a, dd_data := b, dd_listener := l\<rparr> = x\<lparr>dd_listener := l, dd_selection := a, dd_data := b\<rparr>"
    for x :: data_device and a b l by simp
  have l: "cb_log (drop_selection c) = cb_log c"
    by (simp add: drop_selection_def source_cancelled_def Let_def split: option.split)
  have "set_selection True (Some x) source c = data_device_offer_selection (Some x) k ?z"
    using assms(2,5) by (cases source) (auto simp: set_selection_def Let_def f(1,4) u handle_data_device_event_def)
  moreover have "device_for (dd_resources (device ?z)) k = Some dev" using assms(3) by (simp add: f(1))
  moreover have "dd_data (device ?z) = Some d \<and> d \<in> set (allocated (store ?z))" if s: "source = Some s" for s
  proof -
    have d: "source_data (store c) s = Some d" by (rule assms(6) [OF s])
    have "d \<in> set (allocated (store c))" "dt_source (data_at (store c) d) = Some s"
      using store_okD(10,11) [OF k(1) d] by simp_all
    moreover have "d \<notin> set_option (dd_data (device c))" if "dd_selection (device c) = None"
      using k(5) [OF that] k(7) [of d] \<open>dt_source (data_at (store c) d) = Some s\<close> by auto
    ultimately show ?thesis using d by (simp add: s f(6,8) data_from_source_def)
  qed
  ultimately show ?thesis
    using offer_announces [of ?z k dev d x] none_announced [of ?z k dev "Some x"] l
    by (auto simp: f(7) announces_def data_from_source_def split: option.split)
qed

text \<open>The clipboard before a second source of the focused client is selected.\<close>

definition clip_two :: clipboard where
  "clip_two = on_store (source_offer True True 2 ''text/plain'') (on_store (snd \<circ> data_source_new (Some 3) (Some 2)) clip_example)"

lemma clip_two_facts:
  "kb_client clip_two = Some 7" "device_for (dd_resources (device clip_two)) 7 = Some 5" "offer_data (store clip_two) 8 = None"
  "dd_selection (device clip_two) = Some 1" "source_data (store clip_two) 2 = Some 3"
  "mime_types (data_at (store clip_two) 3) = [''text/plain'']" "clip_reachable clip_two"
proof -
  show "kb_client clip_two = Some 7" "device_for (dd_resources (device clip_two)) 7 = Some 5" "offer_data (store clip_two) 8 = None"
    "dd_selection (device clip_two) = Some 1" "source_data (store clip_two) 2 = Some 3"
    "mime_types (data_at (store clip_two) 3) = [''text/plain'']"
    by code_simp+
  show "clip_reachable clip_two"
    unfolding clip_two_def
    by (intro clip_reachable.step [OF _ clip_step.source_type] clip_reachable.step [OF _ clip_step.source_made] clip_example_reachable)
      (simp_all add: live_def spare_def data_source_new_def, code_simp+)
qed

lemma selection_announced_witness:
  "announces 5 8 3 [''text/plain''] (drop_selection clip_two) (set_selection True (Some 8) (Some 2) clip_two)"
  using selection_announced [OF clip_two_facts(7,1,2,3), of "Some 2" 3] by (simp add: clip_two_facts)

text \<open>C0: The descriptor that comes with \<open>receive\<close> is passed on and closed, or passed to the bridge to X, or closed
  because the offer has expired: it is never kept, nor lost, nor closed twice.\<close>

theorem received_fd_settled:
  assumes "clip_reachable c"
  shows "\<exists>es. ds_log (offer_receive x m fd (store c)) = ds_log (store c) @ es \<and>
    (es = [Close fd] \<or> (\<exists>r. es = [Send_send r m fd, Close fd]) \<or> (\<exists>i. es = [Impl_send i m fd]))"
proof (cases "offer_data (store c) x")
  case None
  then show ?thesis by (simp add: offer_receive_def ds_emit_def)
next
  case (Some d)
  note k = clip_okD [OF clip_reachable_ok [OF assms]]
  have d: "d \<in> set (allocated (store c))" by (rule store_okD(2) [OF k(1) Some])
  have "dt_impl (data_at (store c) d) = None \<Longrightarrow> dt_source (data_at (store c) d) \<noteq> None"
    using store_okD(9) [OF k(1) d] by blast
  then show ?thesis
    by (cases "dt_impl (data_at (store c) d)"; cases "dt_source (data_at (store c) d)")
      (simp_all add: offer_receive_def data_send_def Some touch_ok [OF d] ds_emit_def Let_def)
qed

lemma received_fd_settled_witness:
  "\<exists>es. ds_log (offer_receive 9 ''text/plain'' 4 (store clip_example)) = ds_log (store clip_example) @ es \<and>
    (es = [Close 4] \<or> (\<exists>r. es = [Send_send r ''text/plain'' 4, Close 4]) \<or> (\<exists>i. es = [Impl_send i ''text/plain'' 4]))"
  by (rule received_fd_settled [OF clip_example_reachable])

end
