(* ===== verification/Drag_Safety.thy ===== *)
theory Drag_Safety
  imports Drag Selection_Safety
begin

text \<open>
  Drag and drop over every sequence of events: the listeners are on the objects the drag refers to and nowhere else,
  the source hears of one outcome, and the pointer goes back to the clients when the drag is over.
\<close>

section \<open>The invariant\<close>

definition hooks_ok :: "drag \<Rightarrow> bool" where
  "hooks_ok d \<longleftrightarrow> \<not> dg_fault d \<and> dg_source_hook d = dg_source d \<and> dg_focus_hook d = dg_focus d \<and>
     dg_device_hook d = dg_device d \<and> dg_offer_hook d = dg_offer d \<and> dg_pointer_hook d = dg_active d \<and>
     dg_keyboard_hook d = dg_active d \<and> dg_icon_hooks d = dg_icon d \<and> (dg_icon d = None \<longleftrightarrow> icon_view d = None) \<and>
     (icon_view d \<noteq> None \<longrightarrow> dg_active d)"

text \<open>An offer is made for the source and sent to a device; past the drag only a drop that is not finished keeps the source.\<close>

definition dg_ok :: "drag \<Rightarrow> bool" where
  "dg_ok d \<longleftrightarrow> hooks_ok d \<and> (dg_offer d \<noteq> None \<longrightarrow> dg_source d \<noteq> None \<and> dg_device d \<noteq> None) \<and>
     (dg_device d \<noteq> None \<longrightarrow> dg_focus d \<noteq> None) \<and> (dg_dropped d \<longrightarrow> \<not> dg_active d \<and> dg_source d \<noteq> None) \<and>
     (\<not> dg_active d \<and> \<not> dg_dropped d \<longrightarrow> dg_source d = None) \<and>
     store_ok (dg_store d) \<and> live (dg_source d) (dg_store d)"

lemma hooks_okD:
  assumes "hooks_ok d"
  shows "\<not> dg_fault d" "dg_source_hook d = dg_source d" "dg_focus_hook d = dg_focus d"
    "dg_device_hook d = dg_device d" "dg_offer_hook d = dg_offer d" "dg_pointer_hook d = dg_active d"
    "dg_keyboard_hook d = dg_active d" "dg_icon_hooks d = dg_icon d" "dg_icon d = None \<longleftrightarrow> icon_view d = None"
    "icon_view d \<noteq> None \<Longrightarrow> dg_active d"
  using assms unfolding hooks_ok_def by blast+

section \<open>What each operation comes to while the listeners are in order\<close>

definition no_focus :: "drag \<Rightarrow> drag" where
  "no_focus d = d\<lparr>dg_focus := None, dg_focus_hook := None, dg_device := None, dg_device_hook := None, dg_offer := None,
     dg_offer_hook := None, dg_accepted := False, offer_actions := 0, preferred_action := 0, dg_action := 0\<rparr>"

definition no_source :: "drag \<Rightarrow> drag" where
  "no_source d = d\<lparr>dg_source := None, dg_source_hook := None\<rparr>"

definition no_grab :: "drag \<Rightarrow> drag" where
  "no_grab d = d\<lparr>dg_active := False, dg_pointer_hook := False, dg_keyboard_hook := False, dg_icon := None,
     dg_icon_hooks := None, icon_view := None\<rparr>"

definition action_events :: "drag_env \<Rightarrow> drag \<Rightarrow> drag_event list" where
  "action_events e d =
     (case dg_offer d of None \<Rightarrow> [] | Some x \<Rightarrow> if version e x \<ge> 3 then [Offer_action x (dg_action d)] else []) @
     (case dg_source d of None \<Rightarrow> [] | Some s \<Rightarrow> if version e s \<ge> 3 then [Source_action s (dg_action d)] else [])"

definition leave_events :: "drag_env \<Rightarrow> drag \<Rightarrow> drag_event list" where
  "leave_events e d = (case dg_device d of None \<Rightarrow> [] | Some r \<Rightarrow> [Device_leave r]) @
     (case dg_source d of None \<Rightarrow> [] | Some s \<Rightarrow> if version e s \<ge> 3 then [Source_action s 0] else [])"

definition cancelled_events :: "drag \<Rightarrow> drag_event list" where
  "cancelled_events d = (case dg_source d of None \<Rightarrow> [] | Some s \<Rightarrow> [Drag_cancelled s])"

definition icon_events :: "drag \<Rightarrow> drag_event list" where
  "icon_events d = (case icon_view d of None \<Rightarrow> [] | Some v \<Rightarrow> [Icon_view_destroyed v])"

lemma emit_emit [simp]: "dg_emit b (dg_emit a d) = dg_emit (a @ b) d" "dg_emit [] d = d"
  by (simp_all add: dg_emit_def)

lemma drag_emit_fields [simp]:
  "dg_active (dg_emit es d) = dg_active d" "dg_dropped (dg_emit es d) = dg_dropped d" "dg_source (dg_emit es d) = dg_source d"
  "dg_focus (dg_emit es d) = dg_focus d" "dg_device (dg_emit es d) = dg_device d" "dg_offer (dg_emit es d) = dg_offer d"
  "dg_store (dg_emit es d) = dg_store d" "dg_log (dg_emit es d) = dg_log d @ es" "icon_view (dg_emit es d) = icon_view d"
  "dg_action (dg_emit es d) = dg_action d" "offer_actions (dg_emit es d) = offer_actions d"
  "preferred_action (dg_emit es d) = preferred_action d" "dg_devices (dg_emit es d) = dg_devices d"
  "hooks_ok (dg_emit es d) = hooks_ok d" "dg_ok (dg_emit es d) = dg_ok d" "no_focus (dg_emit es d) = dg_emit es (no_focus d)"
  "no_source (dg_emit es d) = dg_emit es (no_source d)" "no_grab (dg_emit es d) = dg_emit es (no_grab d)"
  "dg_fault (dg_emit es d) = dg_fault d" "leave_events e (dg_emit es d) = leave_events e d"
  "cancelled_events (dg_emit es d) = cancelled_events d" "icon_events (dg_emit es d) = icon_events d"
  by (simp_all add: dg_emit_def hooks_ok_def dg_ok_def no_focus_def no_source_def no_grab_def leave_events_def
    cancelled_events_def icon_events_def)

lemma no_fields [simp]:
  "dg_active (no_focus d) = dg_active d" "dg_dropped (no_focus d) = dg_dropped d" "dg_source (no_focus d) = dg_source d"
  "dg_focus (no_focus d) = None" "dg_device (no_focus d) = None" "dg_offer (no_focus d) = None" "dg_action (no_focus d) = 0" "dg_log (no_focus d) = dg_log d"
  "dg_store (no_focus d) = dg_store d" "icon_view (no_focus d) = icon_view d" "dg_devices (no_focus d) = dg_devices d"
  "dg_active (no_source d) = dg_active d" "dg_dropped (no_source d) = dg_dropped d" "dg_source (no_source d) = None"
  "dg_focus (no_source d) = dg_focus d" "dg_device (no_source d) = dg_device d" "dg_offer (no_source d) = dg_offer d"
  "dg_log (no_source d) = dg_log d" "dg_store (no_source d) = dg_store d" "icon_view (no_source d) = icon_view d"
  "dg_active (no_grab d) = False" "dg_dropped (no_grab d) = dg_dropped d" "dg_source (no_grab d) = dg_source d"
  "dg_focus (no_grab d) = dg_focus d" "dg_device (no_grab d) = dg_device d" "dg_offer (no_grab d) = dg_offer d"
  "dg_log (no_grab d) = dg_log d" "dg_store (no_grab d) = dg_store d" "icon_view (no_grab d) = None"
  "leave_events e (no_grab d) = leave_events e d" "cancelled_events (no_grab d) = cancelled_events d"
  "cancelled_events (no_focus d) = cancelled_events d" "icon_events (no_focus d) = icon_events d"
  by (simp_all add: no_focus_def no_source_def no_grab_def leave_events_def cancelled_events_def icon_events_def)

lemma no_hooks:
  assumes "hooks_ok d"
  shows "hooks_ok (no_focus d)" "hooks_ok (no_source d)" "hooks_ok (no_grab d)" "hooks_ok (d\<lparr>dg_dropped := b\<rparr>)"
  using assms by (auto simp: hooks_ok_def no_focus_def no_source_def no_grab_def)

lemma send_action_eq: "send_action e d = dg_emit (action_events e d) d"
  by (simp add: send_action_def action_events_def Let_def split: option.split)

lemma must_ok: "b \<Longrightarrow> must b d = d"
  by (simp add: must_def)

lemma release_eq: "hooks_ok d \<Longrightarrow> release_source d = no_source d"
  using hooks_okD(2) [of d] by (cases "dg_source d") (simp_all add: release_source_def must_ok no_source_def)

lemma forget_eq:
  assumes "hooks_ok d"
  shows "forget_focus d = no_focus d"
proof -
  note k = hooks_okD(3-5) [OF assms]
  have n: "must True x = x" for x by (simp add: must_ok)
  show ?thesis
    unfolding forget_focus_def no_focus_def Let_def
    by (cases "dg_offer d"; cases "dg_focus d"; cases "dg_device d") (simp_all add: k must_ok DND_NONE_def)
qed

lemma leave_eq:
  assumes "hooks_ok d"
  shows "leave_focus e d = dg_emit (leave_events e d) (no_focus d)"
proof -
  have h: "forget_focus (dg_emit es d) = dg_emit es (no_focus d)" for es using forget_eq [of "dg_emit es d"] assms by simp
  have a: "action_events e (dg_emit es (no_focus d)) =
      (case dg_source d of None \<Rightarrow> [] | Some s \<Rightarrow> if version e s \<ge> 3 then [Source_action s 0] else [])" for es
    by (simp add: action_events_def split: option.split)
  show ?thesis using h [of "[]"] a [of "[]"]
    by (cases "dg_device d") (simp_all add: leave_focus_def send_action_eq leave_events_def h a)
qed

lemma cancel_source_eq: "hooks_ok d \<Longrightarrow> cancel_source d = dg_emit (cancelled_events d) (no_source d)"
  using hooks_okD(2) [of d]
  by (simp add: cancel_source_def cancelled_events_def release_eq split: option.split) (simp add: no_source_def)

lemma end_grab_eq:
  assumes "hooks_ok d"
  shows "end_grab d = dg_emit (icon_events d) (no_grab d)"
proof (cases "dg_active d")
  case True
  note k = hooks_okD [OF assms]
  show ?thesis
  proof (cases "icon_view d")
    case None
    then show ?thesis using k True
      by (simp add: end_grab_def destroy_icon_def must_ok icon_events_def no_grab_def)
  next
    case (Some v)
    then obtain i where "dg_icon d = Some i" using k(9) by auto
    then show ?thesis using k True Some
      by (simp add: end_grab_def destroy_icon_def must_ok icon_events_def no_grab_def with_icon_view_def dg_emit_def)
  qed
next
  case False
  note k = hooks_okD [OF assms]
  have "dg_icon d = None" "icon_view d = None" using k(9,10) False by auto
  then show ?thesis using False k by (simp add: end_grab_def icon_events_def no_grab_def)
qed

lemma restore_eq: "restore_pointer d = dg_emit (if dg_active d \<or> dg_dropped d then [] else [Refocus]) d"
  by (simp add: restore_pointer_def)

lemma cancel_drag_eq:
  assumes "hooks_ok d"
  shows "cancel_drag e d = dg_emit (icon_events d @ leave_events e d @ cancelled_events d @ [Refocus])
    ((no_source (no_focus (no_grab d)))\<lparr>dg_dropped := False\<rparr>)"
proof -
  have u: "(dg_emit es x)\<lparr>dg_dropped := b\<rparr> = dg_emit es (x\<lparr>dg_dropped := b\<rparr>)" for es x b by (simp add: dg_emit_def)
  show ?thesis
    using no_hooks [OF assms]
    by (simp add: cancel_drag_def end_grab_eq [OF assms] leave_eq cancel_source_eq no_hooks u restore_eq)
qed

section \<open>Operations that only look for a target\<close>

definition plain :: "drag_event list \<Rightarrow> bool" where
  "plain es \<longleftrightarrow> (\<forall>x \<in> set es. x \<noteq> Refocus \<and> (\<forall>s. x \<noteq> Drag_cancelled s \<and> x \<noteq> Drag_finished s))"

lemma plain_simps [simp]:
  "plain []" "plain (x # es) \<longleftrightarrow> x \<noteq> Refocus \<and> (\<forall>s. x \<noteq> Drag_cancelled s \<and> x \<noteq> Drag_finished s) \<and> plain es"
  "plain (a @ b) \<longleftrightarrow> plain a \<and> plain b" "plain (action_events e d)" "plain (leave_events e d)" "plain (icon_events d)"
  by (auto simp: plain_def action_events_def leave_events_def icon_events_def split: option.splits if_splits)

text \<open>\<open>quiet\<close>: the source, the grab and the phase of the drag stay, and nobody hears of an outcome.\<close>

definition quiet :: "drag \<Rightarrow> drag \<Rightarrow> bool" where
  "quiet d d' \<longleftrightarrow> dg_source d' = dg_source d \<and> dg_active d' = dg_active d \<and> dg_dropped d' = dg_dropped d \<and>
     dg_button d' = dg_button d \<and> dg_icon d' = dg_icon d \<and> dg_devices d' = dg_devices d \<and>
     (\<exists>es. dg_log d' = dg_log d @ es \<and> plain es)"

lemma drag_quiet_refl [simp]: "quiet d d"
  by (simp add: quiet_def)

lemma drag_quiet_trans: "quiet a b \<Longrightarrow> quiet b c \<Longrightarrow> quiet a c"
  unfolding quiet_def by (metis append_assoc plain_simps(3))

lemma quiet_emit: "plain es \<Longrightarrow> quiet d (dg_emit es d)"
  by (simp add: quiet_def dg_emit_def)

lemma quiet_no_focus: "quiet d (no_focus d)"
  by (simp add: quiet_def no_focus_def)

lemma update_action_eq: "update_action e d =
  (if compute_action e d = dg_action d then d
   else dg_emit (action_events e (d\<lparr>dg_action := compute_action e d\<rparr>)) (d\<lparr>dg_action := compute_action e d\<rparr>))"
  by (simp add: update_action_def send_action_eq)

lemma update_quiet: "quiet d (update_action e d)" "dg_ok (update_action e d) = dg_ok d"
proof -
  have o: "dg_ok (d\<lparr>dg_action := a\<rparr>) = dg_ok d" for a by (simp add: dg_ok_def hooks_ok_def)
  have q: "quiet d (d\<lparr>dg_action := a\<rparr>)" for a by (simp add: quiet_def)
  show "quiet d (update_action e d)" by (auto simp: update_action_eq intro: drag_quiet_trans [OF q quiet_emit])
  show "dg_ok (update_action e d) = dg_ok d" by (auto simp: update_action_eq o)
qed

lemma move_icon_quiet: "quiet d (move_icon e d)" "dg_ok (move_icon e d) = dg_ok d" "hooks_ok (move_icon e d) = hooks_ok d"
  by (simp_all add: move_icon_def quiet_emit split: option.split)

lemma no_focus_ok: "dg_ok d \<Longrightarrow> dg_ok (no_focus d)"
  by (simp add: dg_ok_def no_hooks)

lemma leave_quiet:
  assumes "dg_ok d"
  shows "quiet d (leave_focus e d)" "dg_ok (leave_focus e d)"
proof -
  have l: "leave_focus e d = dg_emit (leave_events e d) (no_focus d)" using assms by (simp add: leave_eq dg_ok_def)
  show "quiet d (leave_focus e d)" unfolding l by (rule drag_quiet_trans [OF quiet_no_focus quiet_emit]) simp
  show "dg_ok (leave_focus e d)" by (simp add: l no_focus_ok assms)
qed

text \<open>\<open>make_offer\<close> fails, or makes nothing for a drag of the compositor, or makes one offer.\<close>

lemma make_offer_ok:
  assumes "dg_ok d" "fresh_offer (offer_resource e) (dg_store d)" "dg_focus d \<noteq> None" "dg_offer d = None"
    and "make_offer e client dev d = (r, d')" "dg_device d = None"
  shows "quiet d d'" "dg_ok (d'\<lparr>dg_device := Some dev, dg_device_hook := Some dev\<rparr>)"
    "r = None \<Longrightarrow> dg_ok d'" "dg_device d' = dg_device d"
    "r = Some x \<Longrightarrow> x = dg_offer d'" "dg_focus d' = dg_focus d"
proof -
  let ?u = "\<lambda>d. d\<lparr>dg_device := Some dev, dg_device_hook := Some dev\<rparr>"
  have "quiet d d' \<and> dg_ok (?u d') \<and> (r = None \<longrightarrow> dg_ok d') \<and> dg_device d' = dg_device d \<and>
    (\<forall>x. r = Some x \<longrightarrow> x = dg_offer d') \<and> dg_focus d' = dg_focus d"
  proof (cases "dg_source d")
    case None
    then show ?thesis using assms by (auto simp: make_offer_def dg_ok_def hooks_ok_def)
  next
    case (Some s)
    obtain x st where o: "data_offer_new (offer_resource e) (Some s) (dg_store d) = (x, st)" by (metis surj_pair)
    have k: "store_ok (dg_store d)" "live (Some s) (dg_store d)" using assms(1) Some by (simp_all add: dg_ok_def)
    have "same_sources (dg_store d) st" using data_offer_new_sources [OF k assms(2)] by (simp add: o)
    then have st: "store_ok st" "live (Some s) st" "source_data st = source_data (dg_store d)"
      using k by (simp_all add: same_sources_def live_def)
    then have mt: "same_store st (data_send_mime_types (Some s) y st)" for y
      using mime_types_same store_okD(10) [OF st(1)]
      by (auto simp: data_send_mime_types_def data_from_source_def live_def)
    have mk: "store_ok (data_send_mime_types (Some s) y st)" "live (Some s) (data_send_mime_types (Some s) y st)" for y
      using same_store_ok [OF mt st(1)] st(2) mt [of y] by (simp_all add: live_def same_store_def)
    have u: "quiet d z" "dg_ok (?u z)" "dg_ok z \<longleftrightarrow> y = None" "dg_device z = dg_device d" "dg_offer z = y" "dg_focus z = dg_focus d"
      if "z = dg_emit es (d\<lparr>dg_store := t, dg_offer := y, dg_offer_hook := y\<rparr>)" "plain es" "store_ok t" "live (Some s) t"
        "dg_device d = None" for z es t y
      using that assms(1,3) Some by (auto simp: dg_emit_def quiet_def dg_ok_def hooks_ok_def)
    show ?thesis
    proof (cases x)
      case None
      have "d' = dg_emit [Client_no_memory client] (d\<lparr>dg_store := st, dg_offer := None, dg_offer_hook := None\<rparr>)" "r = None"
        using assms(1,4,5) o Some None by (auto simp: make_offer_def dg_emit_def dg_ok_def hooks_ok_def)
      from u [OF this(1) _ st(1,2) assms(6)] this show ?thesis by simp
    next
      case (Some y)
      let ?t = "data_send_mime_types (Some s) y st"
      let ?es = "Device_data_offer dev y # (if version e y \<ge> 3 then [Offer_source_actions y (data_source_actions s ?t)] else [])"
      have "d' = dg_emit ?es (d\<lparr>dg_store := ?t, dg_offer := Some y, dg_offer_hook := Some y\<rparr>)" "r = Some (Some y)"
        using assms(5) o Some \<open>dg_source d = Some s\<close> by (auto simp: make_offer_def dg_emit_def Let_def)
      from u [OF this(1) _ mk assms(6)] this show ?thesis by simp
    qed
  qed
  then show "quiet d d'" "dg_ok (d'\<lparr>dg_device := Some dev, dg_device_hook := Some dev\<rparr>)"
    "r = None \<Longrightarrow> dg_ok d'" "dg_device d' = dg_device d" "r = Some x \<Longrightarrow> x = dg_offer d'" "dg_focus d' = dg_focus d"
    by blast+
qed

lemma set_focus_ok:
  assumes "dg_ok d" "fresh_offer (offer_resource e) (dg_store d)"
  shows "quiet d (drag_set_focus e view d) \<and> dg_ok (drag_set_focus e view d)"
proof (cases "view = dg_focus d")
  case True
  then show ?thesis using assms by (simp add: drag_set_focus_def)
next
  case False
  define l where "l = leave_focus e d"
  have l: "quiet d l" "dg_ok l" using leave_quiet [OF assms(1)] by (simp_all add: l_def)
  have "l = dg_emit (leave_events e d) (no_focus d)" using assms(1) by (simp add: l_def leave_eq dg_ok_def)
  then have lo: "dg_offer l = None" "dg_device l = None" "dg_store l = dg_store d" by simp_all
  show ?thesis
  proof (cases "\<exists>v surface. view = Some v \<and> surface_of e v = Some surface")
    case False
    then have "drag_set_focus e view d = l"
      using \<open>view \<noteq> dg_focus d\<close> by (cases view) (simp_all add: drag_set_focus_def l_def Let_def)
    then show ?thesis using l by simp
  next
    case True
    then obtain v surface where v: "view = Some v" "surface_of e v = Some surface" by blast
    define z where "z = l\<lparr>dg_focus := Some v, dg_focus_hook := Some v\<rparr>"
    have z: "dg_ok z" "quiet d z" "dg_focus z \<noteq> None" "dg_offer z = None" "dg_device z = None" "dg_store z = dg_store d"
      "dg_devices z = dg_devices l"
      using l lo by (auto simp: z_def dg_ok_def hooks_ok_def quiet_def)
    show ?thesis
    proof (cases "device_for (dg_devices l) (client_of e surface)")
      case None
      then have "drag_set_focus e view d = z"
        using \<open>view \<noteq> dg_focus d\<close> v by (simp add: drag_set_focus_def Let_def z_def l_def)
      then show ?thesis using z by simp
    next
      case (Some dev)
      obtain r z' where m: "make_offer e (client_of e surface) dev z = (r, z')" by (metis surj_pair)
      have f: "fresh_offer (offer_resource e) (dg_store z)" using assms(2) z(6) by simp
      note mk = make_offer_ok [OF z(1) f z(3,4) m z(5)]
      show ?thesis
      proof (cases r)
        case None
        then have "drag_set_focus e view d = z'"
          using \<open>view \<noteq> dg_focus d\<close> v Some m by (simp add: drag_set_focus_def Let_def z_def l_def)
        then show ?thesis using mk(3) [OF None] drag_quiet_trans [OF z(2) mk(1)] by simp
      next
        case (Some x)
        let ?y = "dg_emit [Device_enter dev surface (fst (surface_coords e v)) (snd (surface_coords e v)) x]
          (z'\<lparr>dg_device := Some dev, dg_device_hook := Some dev\<rparr>)"
        have "drag_set_focus e view d = update_action e ?y"
          using \<open>view \<noteq> dg_focus d\<close> v Some m \<open>device_for (dg_devices l) (client_of e surface) = Some dev\<close>
          by (simp add: drag_set_focus_def Let_def z_def l_def)
        moreover have "quiet z' ?y" by (simp add: quiet_def dg_emit_def)
        then have "quiet d (update_action e ?y)"
          by (rule drag_quiet_trans [OF drag_quiet_trans [OF drag_quiet_trans [OF z(2) mk(1)]] update_quiet(1)])
        moreover have "dg_ok (update_action e ?y)" using mk(2) by (simp add: update_quiet(2))
        ultimately show ?thesis by simp
      qed
    qed
  qed
qed

section \<open>Outcomes\<close>

definition outcomes :: "nat \<Rightarrow> drag_event list \<Rightarrow> nat" where
  "outcomes s es = count_list es (Drag_cancelled s) + count_list es (Drag_finished s)"

lemma count_append: "count_list (a @ b) x = count_list a x + count_list b x"
  by simp

lemma outcomes_simps [simp]:
  "outcomes s [] = 0" "outcomes s (a @ b) = outcomes s a + outcomes s b" "plain es \<Longrightarrow> outcomes s es = 0"
  "outcomes s [Refocus] = 0" "outcomes s [Drag_finished t] = (if s = t then 1 else 0)" "outcomes s [Device_drop x] = 0"
  "outcomes s (cancelled_events d) = (if dg_source d = Some s then 1 else 0)"
proof -
  have "Drag_cancelled s \<notin> set es \<and> Drag_finished s \<notin> set es" if "plain es" using that by (auto simp: plain_def)
  then show "plain es \<Longrightarrow> outcomes s es = 0" by (simp add: outcomes_def)
qed (auto simp: outcomes_def cancelled_events_def split: option.split)

lemma plain_refocus: "plain es \<Longrightarrow> Refocus \<notin> set es"
  by (auto simp: plain_def)

lemma event_sets [simp]:
  "Refocus \<notin> set (cancelled_events d)" "Refocus \<notin> set (leave_events e d)" "Refocus \<notin> set (icon_events d)"
  using plain_refocus [OF plain_simps(5)] plain_refocus [OF plain_simps(6)]
  by (auto simp: cancelled_events_def split: option.splits)

text \<open>
  What a step tells: an outcome goes only to the source of the drag, once, and the drag lets the source go; the
  clients get the pointer back when the drag is over for them, and not before.
\<close>

definition on :: "drag \<Rightarrow> bool" where
  "on d \<longleftrightarrow> dg_active d \<or> dg_dropped d"

definition moved :: "drag \<Rightarrow> drag \<Rightarrow> bool" where
  "moved d d' \<longleftrightarrow> dg_ok d' \<and> (\<exists>es. dg_log d' = dg_log d @ es \<and>
     (\<forall>s. outcomes s es \<le> (if dg_source d = Some s \<and> dg_source d' = None then 1 else 0)) \<and>
     (dg_source d' = None \<or> dg_source d' = dg_source d) \<and>
     (Refocus \<in> set es \<longrightarrow> \<not> on d') \<and> (on d \<and> \<not> on d' \<longrightarrow> Refocus \<in> set es))"

lemma quiet_moved: "quiet d d' \<Longrightarrow> dg_ok d' \<Longrightarrow> moved d d'"
  using plain_refocus by (auto simp: quiet_def moved_def on_def)

lemma moved_quiet:
  assumes "quiet a b" "moved b c"
  shows "moved a c"
proof -
  obtain x where x: "dg_log b = dg_log a @ x" "plain x" using assms(1) by (auto simp: quiet_def)
  obtain y where y: "dg_log c = dg_log b @ y" "\<forall>s. outcomes s y \<le> (if dg_source b = Some s \<and> dg_source c = None then 1 else 0)"
    "dg_source c = None \<or> dg_source c = dg_source b" "Refocus \<in> set y \<longrightarrow> \<not> on c" "on b \<and> \<not> on c \<longrightarrow> Refocus \<in> set y"
    using assms(2) by (auto simp: moved_def)
  have "dg_log c = dg_log a @ (x @ y)" "\<forall>s. outcomes s (x @ y) \<le> (if dg_source a = Some s \<and> dg_source c = None then 1 else 0)"
    using x y(1,2) assms(1) by (simp_all add: quiet_def)
  moreover have q: "dg_source b = dg_source a" "on b \<longleftrightarrow> on a" using assms(1) by (simp_all add: quiet_def on_def)
  moreover have "dg_ok c" using assms(2) by (simp add: moved_def)
  moreover have "Refocus \<in> set (x @ y) \<longleftrightarrow> Refocus \<in> set y" using plain_refocus [OF x(2)] by simp
  ultimately show ?thesis unfolding moved_def using y(3-5) unfolding q by (intro conjI exI [of _ "x @ y"]) simp_all
qed

text \<open>The shape of every end of a drag.\<close>

lemma ended:
  assumes "d' = dg_emit es z" "dg_log z = dg_log d" "dg_ok z" "dg_source z = None" "\<not> on z"
    "\<And>s. outcomes s es \<le> (if dg_source d = Some s then 1 else 0)" "Refocus \<in> set es"
  shows "moved d d'"
  using assms by (auto simp: moved_def on_def)

lemma over_ok:
  assumes "dg_ok d"
  shows "dg_ok ((no_source (no_focus (no_grab d)))\<lparr>dg_dropped := False\<rparr>)"
  using assms no_hooks by (simp add: dg_ok_def live_def)

lemma cancel_moved: "dg_ok d \<Longrightarrow> moved d (cancel_drag e d)"
  by (rule ended [OF cancel_drag_eq _ over_ok]) (simp_all add: dg_ok_def on_def)

lemma drop_eq:
  assumes "dg_ok d" "dg_active d"
  shows "drop_drag e d =
    (case (dg_device d, dg_source d) of
       (Some r, Some s) \<Rightarrow>
         if dg_offer d \<noteq> None \<and> dg_accepted d \<and> dg_action d \<noteq> DND_NONE
         then if version e s \<ge> 3 then dg_emit (icon_events d @ [Device_drop r, Drop_performed s]) ((no_grab d)\<lparr>dg_dropped := True\<rparr>)
              else dg_emit (icon_events d @ [Device_drop r, Device_leave r, Refocus]) (no_focus (no_source (no_grab d)))
         else dg_emit (icon_events d @ leave_events e d @ cancelled_events d @ [Refocus]) (no_source (no_focus (no_grab d)))
     | _ \<Rightarrow> dg_emit (icon_events d @ leave_events e d @ cancelled_events d @ [Refocus]) (no_source (no_focus (no_grab d))))"
proof -
  have h: "hooks_ok d" "dg_dropped d = False" using assms by (auto simp: dg_ok_def)
  have g: "end_grab d = dg_emit (icon_events d) (no_grab d)" by (rule end_grab_eq [OF h(1)])
  have i: "icon_events (no_grab d) = []" "no_grab (no_grab d) = no_grab d" by (simp_all add: icon_events_def no_grab_def)
  have x: "(no_source (no_focus (no_grab d)))\<lparr>dg_dropped := False\<rparr> = no_source (no_focus (no_grab d))"
    using h(2) by (simp add: no_source_def no_focus_def no_grab_def)
  have n: "(dg_emit es z)\<lparr>dg_dropped := b\<rparr> = dg_emit es (z\<lparr>dg_dropped := b\<rparr>)" for es z b by (simp add: dg_emit_def)
  have c: "cancel_drag e (end_grab d) =
      dg_emit (icon_events d @ leave_events e d @ cancelled_events d @ [Refocus]) (no_source (no_focus (no_grab d)))"
    by (simp add: g cancel_drag_eq no_hooks h i x n)
  have src: "dg_offer d \<noteq> None \<Longrightarrow> dg_source d \<noteq> None" using assms(1) by (simp add: dg_ok_def)
  have l: "leave_events e (no_source (no_grab d)) = [Device_leave r]" if "dg_device d = Some r" for r
    using that by (simp add: leave_events_def)
  show ?thesis
    using src
    by (cases "dg_device d"; cases "dg_source d"; cases "dg_offer d")
      (simp_all add: drop_drag_def c, simp_all add: g release_eq leave_eq no_hooks h n restore_eq l)
qed

lemma drop_moved:
  assumes "dg_ok d" "dg_active d"
  shows "moved d (drop_drag e d)"
proof -
  have "\<not> dg_dropped d" using assms by (auto simp: dg_ok_def)
  then have o: "dg_ok (no_source (no_focus (no_grab d)))" "dg_ok (no_focus (no_source (no_grab d)))"
    "dg_source d \<noteq> None \<Longrightarrow> dg_ok ((no_grab d)\<lparr>dg_dropped := True\<rparr>)" "\<not> on (no_source (no_focus (no_grab d)))"
    "\<not> on (no_focus (no_source (no_grab d)))"
    using assms no_hooks by (simp_all add: dg_ok_def live_def on_def)
  have c: "moved d (dg_emit (icon_events d @ leave_events e d @ cancelled_events d @ [Refocus]) (no_source (no_focus (no_grab d))))"
    by (rule ended [OF refl _ o(1)]) (use o(4) in simp_all)
  have f: "moved d (dg_emit (icon_events d @ [Device_drop r, Device_leave r, Refocus]) (no_focus (no_source (no_grab d))))" for r
    by (rule ended [OF refl _ o(2)]) (use o(5) in \<open>simp_all add: outcomes_def icon_events_def split: option.split\<close>)
  have p: "moved d (dg_emit (icon_events d @ [Device_drop r, Drop_performed s]) ((no_grab d)\<lparr>dg_dropped := True\<rparr>))"
    if "dg_source d = Some s" for r s
    unfolding moved_def
    by (intro conjI exI [of _ "icon_events d @ [Device_drop r, Drop_performed s]"])
      (use o(3) that in \<open>simp_all add: on_def\<close>)
  show ?thesis unfolding drop_eq [OF assms] using c f p by (simp split: option.split)
qed

section \<open>Every event\<close>

lemma dropped_emit: "(dg_emit es z)\<lparr>dg_dropped := b\<rparr> = dg_emit es (z\<lparr>dg_dropped := b\<rparr>)"
  by (simp add: dg_emit_def)

lemma offer_gone_moved:
  assumes "dg_ok d" "dg_offer d \<noteq> None"
  shows "moved d (handle_offer_destroy d)"
proof -
  define z where "z = d\<lparr>dg_offer_hook := None, dg_offer := None, dg_accepted := False\<rparr>"
  have z: "dg_ok z" "quiet d z" using assms by (simp_all add: z_def dg_ok_def hooks_ok_def quiet_def)
  show ?thesis
  proof (cases "dg_dropped d")
    case True
    have h: "hooks_ok (z\<lparr>dg_dropped := False\<rparr>)" using z(1) by (simp add: dg_ok_def no_hooks)
    have f: "dg_active z = False" "dg_source z = dg_source d" "dg_log z = dg_log d"
      using True assms(1) by (auto simp: z_def dg_ok_def)
    have c: "cancelled_events (z\<lparr>dg_dropped := False\<rparr>) = cancelled_events d" by (simp add: cancelled_events_def f)
    have "handle_offer_destroy d = dg_emit (cancelled_events d @ [Refocus]) (no_source (z\<lparr>dg_dropped := False\<rparr>))"
      using True by (simp add: handle_offer_destroy_def Let_def z_def [symmetric] cancel_source_eq [OF h] c restore_eq f)
        (simp add: z_def)
    then show ?thesis
    proof (rule ended)
      show "dg_ok (no_source (z\<lparr>dg_dropped := False\<rparr>))"
        using z(1) no_hooks(2) [OF h] by (simp add: dg_ok_def live_def f z_def)
    qed (simp_all add: f on_def)
  next
    case False
    then have "handle_offer_destroy d = z" by (simp add: handle_offer_destroy_def z_def)
    then show ?thesis using quiet_moved [OF z(2,1)] by simp
  qed
qed

lemma device_gone_moved:
  assumes "dg_ok d"
  shows "moved d (handle_device_destroy d)"
proof -
  define z where "z = no_focus d"
  have z: "dg_ok z" "quiet d z" using assms by (simp_all add: z_def no_focus_ok quiet_no_focus)
  have "hooks_ok (d\<lparr>dg_device_hook := None, dg_device := None\<rparr>)" using assms by (simp add: dg_ok_def hooks_ok_def)
  then have f: "forget_focus (d\<lparr>dg_device_hook := None, dg_device := None\<rparr>) = z"
    by (simp add: forget_eq) (simp add: z_def no_focus_def)
  have zf: "dg_dropped z = dg_dropped d" "dg_active z = dg_active d" "dg_source z = dg_source d" "dg_log z = dg_log d"
    by (simp_all add: z_def)
  show ?thesis
  proof (cases "dg_dropped d")
    case True
    then have a: "dg_active d = False" using assms by (simp add: dg_ok_def)
    have h: "hooks_ok (z\<lparr>dg_dropped := False\<rparr>)" using z(1) by (simp add: dg_ok_def no_hooks)
    have c: "cancelled_events (z\<lparr>dg_dropped := False\<rparr>) = cancelled_events d" by (simp add: cancelled_events_def zf)
    have "handle_device_destroy d = dg_emit (cancelled_events d @ [Refocus]) (no_source (z\<lparr>dg_dropped := False\<rparr>))"
      using True by (simp add: handle_device_destroy_def f zf cancel_source_eq [OF h] c restore_eq a)
    then show ?thesis
    proof (rule ended)
      show "dg_ok (no_source (z\<lparr>dg_dropped := False\<rparr>))"
        using z(1) no_hooks(2) [OF h] by (simp add: dg_ok_def live_def zf a z_def)
    qed (simp_all add: zf on_def a)
  next
    case False
    then have r: "handle_device_destroy d = dg_emit (if dg_active d then [] else [Refocus]) z"
      by (simp add: handle_device_destroy_def f zf restore_eq)
    show ?thesis unfolding moved_def
      by (intro conjI exI [of _ "if dg_active d then [] else [Refocus]"]) (use z(1) False in \<open>simp_all add: r zf on_def\<close>)
  qed
qed

lemma source_gone_moved:
  assumes "dg_ok d"
  shows "moved d (handle_source_destroy e d) \<and> dg_source (handle_source_destroy e d) = None"
proof -
  define z where "z = no_source d"
  have z: "z = d\<lparr>dg_source_hook := None, dg_source := None\<rparr>" by (simp add: z_def no_source_def)
  have h: "hooks_ok z" using assms by (simp add: z_def dg_ok_def no_hooks)
  show ?thesis
  proof (cases "dg_active d \<or> dg_dropped d")
    case True
    let ?l = "dg_emit (icon_events d @ leave_events e (no_grab z)) (no_focus ((no_grab z)\<lparr>dg_dropped := False\<rparr>))"
    have i: "icon_events z = icon_events d" "dg_source z = None" "dg_log z = dg_log d"
      by (simp_all add: z_def icon_events_def)
    have ln: "leave_events e ((no_grab z)\<lparr>dg_dropped := False\<rparr>) = leave_events e (no_grab z)" by (simp add: leave_events_def)
    have "handle_source_destroy e d = restore_pointer (leave_focus e ((end_grab z)\<lparr>dg_dropped := False\<rparr>))"
      using True by (simp add: handle_source_destroy_def z)
    also have "\<dots> = dg_emit [Refocus] ?l"
      by (simp add: end_grab_eq [OF h] i dropped_emit leave_eq no_hooks h restore_eq ln)
    finally have eq: "handle_source_destroy e d = dg_emit (icon_events d @ leave_events e (no_grab z) @ [Refocus])
      (no_focus ((no_grab z)\<lparr>dg_dropped := False\<rparr>))" by simp
    have k: "dg_ok (no_focus ((no_grab z)\<lparr>dg_dropped := False\<rparr>))"
      using assms no_hooks(1) [OF no_hooks(4) [OF no_hooks(3) [OF h]]] by (simp add: dg_ok_def live_def i z_def)
    show ?thesis using ended [OF eq _ k] by (simp add: i on_def eq)
  next
    case False
    then have "dg_source d = None" using assms by (auto simp: dg_ok_def)
    moreover have "handle_source_destroy e d = d"
      using False assms \<open>dg_source d = None\<close> by (simp add: handle_source_destroy_def Let_def dg_ok_def hooks_ok_def)
    ultimately show ?thesis using quiet_moved [OF drag_quiet_refl assms] by simp
  qed
qed

lemma finish_moved:
  assumes "dg_ok d"
  shows "moved d (drag_offer_finish e x d)"
proof (cases "Some x \<noteq> dg_offer d \<or> \<not> dg_dropped d")
  case True
  then show ?thesis using quiet_moved [OF drag_quiet_refl assms] by (auto simp: drag_offer_finish_def)
next
  case False
  then have a: "dg_dropped d" "\<not> dg_active d" "dg_offer d = Some x" "hooks_ok d" using assms by (auto simp: dg_ok_def)
  define f where "f = (case dg_source d of None \<Rightarrow> [] | Some s \<Rightarrow> if version e s \<ge> 3 then [Drag_finished s] else [])"
  define z where "z = d\<lparr>dg_dropped := False\<rparr>"
  have h: "hooks_ok z" using a(4) by (simp add: z_def no_hooks)
  have t: "(case dg_source z of None \<Rightarrow> z | Some s \<Rightarrow> if version e s \<ge> 3 then dg_emit [Drag_finished s] z else z) = dg_emit f z"
    by (simp add: f_def z_def split: option.split)
  have zf: "dg_active z = False" "dg_dropped z = False" "dg_log z = dg_log d" "dg_store z = dg_store d"
    using a by (simp_all add: z_def)
  have eq: "drag_offer_finish e x d = dg_emit (f @ leave_events e (no_source z) @ [Refocus]) (no_focus (no_source z))"
    using False h t by (simp add: drag_offer_finish_def z_def [symmetric] release_eq leave_eq no_hooks restore_eq zf)
  have k: "dg_ok (no_focus (no_source z))" using assms no_hooks(1) [OF no_hooks(2) [OF h]] by (simp add: dg_ok_def live_def zf)
  show ?thesis
  proof (rule ended [OF eq _ k])
    show "outcomes s (f @ leave_events e (no_source z) @ [Refocus]) \<le> (if dg_source d = Some s then 1 else 0)" for s
      by (simp add: f_def split: option.split)
  qed (simp_all add: zf on_def)
qed

lemma motion_moved:
  assumes "dg_ok d" "fresh_offer (offer_resource e) (dg_store d)"
  shows "moved d (snd (handle_motion e time x y d))"
proof (cases "dg_active d")
  case False
  then show ?thesis using quiet_moved [OF drag_quiet_refl assms(1)] by (simp add: handle_motion_def)
next
  case True
  define z where "z = move_icon e d"
  have z: "dg_ok z" "quiet d z" "dg_store z = dg_store d"
    using assms move_icon_quiet [where d = d and e = e] by (simp_all add: z_def) (simp add: move_icon_def split: option.split)
  have f: "dg_device z \<noteq> None \<Longrightarrow> dg_focus z \<noteq> None" using z(1) by (simp add: dg_ok_def)
  have s: "moved d (drag_set_focus e v z)" for v
    using set_focus_ok [OF z(1), of e v] assms(2) z(2,3) quiet_moved drag_quiet_trans by metis
  have m: "moved d (dg_emit [Device_motion r t a b] z)" for r t a b
    by (rule quiet_moved [OF drag_quiet_trans [OF z(2) quiet_emit]]) (use z(1) in simp_all)
  show ?thesis
    using True f s m quiet_moved [OF z(2,1)]
    by (cases "dg_device z"; cases "dg_focus z")
      (simp_all add: handle_motion_def z_def [symmetric] Let_def split: option.split)
qed

text \<open>The start of a drag, which may follow a drop that was never finished.\<close>

definition begun :: "drag_request \<Rightarrow> drag \<Rightarrow> bool" where
  "begun q d \<longleftrightarrow> drag_allowed q d \<and> (rq_icon q = None \<or> rq_role_ok q)"

lemma start_ok:
  assumes "dg_ok d" "fresh_offer (offer_resource e) (dg_store d)" "live (rq_source q) (dg_store d)"
  shows "dg_ok (drag_start e q d) \<and> (\<exists>es. dg_log (drag_start e q d) = dg_log d @ es \<and> plain es) \<and>
    (if begun q d then dg_source (drag_start e q d) \<in> {None, rq_source q} else quiet d (drag_start e q d))"
proof (cases "begun q d")
  case False
  then show ?thesis using assms(1) quiet_emit [of "[Role_error (rq_device q)]" d]
    by (auto simp: drag_start_def begun_def quiet_def)
next
  case True
  then have ok: "drag_allowed q d" "\<not> (rq_icon q \<noteq> None \<and> \<not> rq_role_ok q)" "\<not> dg_active d"
    by (auto simp: begun_def drag_allowed_def)
  have h: "hooks_ok d" using assms(1) by (simp add: dg_ok_def)
  define a where "a = (no_source (no_focus d))\<lparr>dg_dropped := False, dg_button := the (rq_button q),
    dg_source := rq_source q, dg_source_hook := rq_source q\<rparr>"
  have a: "hooks_ok a" "dg_active a = False" "dg_dropped a = False" "dg_source a = rq_source q" "dg_offer a = None"
    "dg_device a = None" "dg_log a = dg_log d" "dg_store a = dg_store d" "dg_icon a = None" "icon_view a = None"
    using no_hooks(2) [OF no_hooks(1) [OF h]] ok(3) h by (auto simp: a_def hooks_ok_def no_source_def no_focus_def)
  define r where "r = (case rq_icon q of Some (Some s) \<Rightarrow> create_icon e (rq_icon_view q) s (rq_icon_buffer q) a | _ \<Rightarrow> (True, a))"
  define b where "b = snd r"
  have start: "drag_start e q d = (if \<not> fst r then release_source (dg_emit [Client_no_memory (rq_client q)] b)
    else drag_set_focus e (view_at e (fixed_to_int e (fst (pointer_at e))) (fixed_to_int e (snd (pointer_at e))))
      (dg_emit [Pointer_cleared] (b\<lparr>dg_pointer_hook := True, dg_keyboard_hook := True, dg_active := True\<rparr>)))"
  proof -
    have c: "(\<not> drag_allowed q d) = False" "(rq_icon q \<noteq> None \<and> \<not> rq_role_ok q) = False" using ok(1,2) by auto
    show ?thesis
      unfolding drag_start_def Let_def c if_False forget_eq [OF h] release_eq [OF no_hooks(1) [OF h]] b_def r_def
      by (simp only: case_prod_beta a_def)
  qed
  have b: "\<exists>es. dg_log b = dg_log d @ es \<and> plain es" "dg_source b = rq_source q" "dg_store b = dg_store d" "dg_offer b = None"
    "dg_device b = None" "\<not> fst r \<Longrightarrow> hooks_ok b \<and> \<not> dg_active b \<and> \<not> dg_dropped b"
    "fst r \<Longrightarrow> dg_ok (b\<lparr>dg_pointer_hook := True, dg_keyboard_hook := True, dg_active := True\<rparr>)"
    using a assms(1,3)
    by (auto simp: b_def r_def create_icon_def move_icon_def dg_emit_def dg_ok_def hooks_ok_def Let_def split: option.split)
  show ?thesis
  proof (cases "fst r")
    case False
    let ?z = "dg_emit [Client_no_memory (rq_client q)] b"
    have "hooks_ok ?z" using b(6) False by simp
    then have s: "drag_start e q d = dg_emit [Client_no_memory (rq_client q)] (no_source b)" using False start release_eq by simp
    have "dg_ok (no_source b)" using b assms(1) False no_hooks(2) by (simp add: dg_ok_def live_def)
    then show ?thesis using b(1) True by (auto simp: s)
  next
    case t: True
    let ?z = "dg_emit [Pointer_cleared] (b\<lparr>dg_pointer_hook := True, dg_keyboard_hook := True, dg_active := True\<rparr>)"
    let ?v = "view_at e (fixed_to_int e (fst (pointer_at e))) (fixed_to_int e (snd (pointer_at e)))"
    have f: "quiet ?z (drag_set_focus e ?v ?z) \<and> dg_ok (drag_set_focus e ?v ?z)"
      using b(7) [OF t] assms(2) b(3) by (intro set_focus_ok) simp_all
    moreover from this obtain es where "dg_log (drag_set_focus e ?v ?z) = dg_log ?z @ es" "plain es" by (auto simp: quiet_def)
    moreover obtain fs where "dg_log b = dg_log d @ fs" "plain fs" using b(1) by blast
    ultimately show ?thesis using t start b(2) True by (auto simp: quiet_def)
  qed
qed

text \<open>\<open>In_store\<close>: the other requests on the sources and offers of the seat, which may not take the drag's source.\<close>

datatype drag_input =
    In_start drag_env drag_request | In_motion drag_env int int int | In_button drag_env nat bool | In_key drag_env nat bool
  | In_accept drag_env nat "string option" | In_set_actions drag_env nat mask mask | In_finish drag_env nat
  | In_source_actions drag_env nat mask | In_source_gone drag_env nat | In_offer_gone nat | In_device_gone nat
  | In_view_gone drag_env nat | In_icon_gone | In_icon_commit drag_env "int \<times> int" bool | In_bind nat nat | In_store data_store

fun drag_run :: "drag_input \<Rightarrow> drag \<Rightarrow> drag" where
  "drag_run (In_start e q) d = drag_start e q d"
| "drag_run (In_motion e t x y) d = snd (handle_motion e t x y d)"
| "drag_run (In_button e b r) d = snd (handle_button e b r d)"
| "drag_run (In_key e k p) d = snd (drag_handle_key e k p d)"
| "drag_run (In_accept e x m) d = accept_request e x m d"
| "drag_run (In_set_actions e x a p) d = drag_offer_set_actions e x a p d"
| "drag_run (In_finish e x) d = drag_offer_finish e x d"
| "drag_run (In_source_actions e s a) d = set_actions_request e s a d"
| "drag_run (In_source_gone e s) d = source_resource_gone e s d"
| "drag_run (In_offer_gone x) d = offer_resource_gone x d"
| "drag_run (In_device_gone r) d =
    (let d = (if dg_device_hook d = Some r then handle_device_destroy d else d)
     in d\<lparr>dg_devices := filter (\<lambda>(q, k). q \<noteq> r) (dg_devices d)\<rparr>)"
| "drag_run (In_view_gone e v) d = (if dg_focus_hook d = Some v then handle_focus_destroy e d else d)"
| "drag_run In_icon_gone d = (if dg_icon_hooks d \<noteq> None then handle_icon_destroy d else d)"
| "drag_run (In_icon_commit e p b) d = (if dg_icon_hooks d \<noteq> None then handle_icon_commit e p b d else d)"
| "drag_run (In_bind r k) d = d\<lparr>dg_devices := (r, k) # dg_devices d\<rparr>"
| "drag_run (In_store s) d = d\<lparr>dg_store := s\<rparr>"

text \<open>What the caller and libwayland promise of an input: live sources, and offer resources that are new.\<close>

fun drag_possible :: "drag_input \<Rightarrow> drag \<Rightarrow> bool" where
  "drag_possible (In_start e q) d \<longleftrightarrow> fresh_offer (offer_resource e) (dg_store d) \<and> live (rq_source q) (dg_store d)"
| "drag_possible (In_motion e t x y) d \<longleftrightarrow> fresh_offer (offer_resource e) (dg_store d)"
| "drag_possible (In_source_actions e s a) d \<longleftrightarrow> live (Some s) (dg_store d)"
| "drag_possible (In_source_gone e s) d \<longleftrightarrow> live (Some s) (dg_store d)"
| "drag_possible (In_store s) d \<longleftrightarrow> store_ok s \<and> live (dg_source d) s"
| "drag_possible _ d \<longleftrightarrow> True"

lemma store_quiet:
  assumes "dg_ok d" "store_ok s" "live (dg_source d) s"
  shows "moved d (d\<lparr>dg_store := s\<rparr>)" "dg_ok (d\<lparr>dg_store := s\<rparr>)" "quiet d (d\<lparr>dg_store := s\<rparr>)"
proof -
  show o: "dg_ok (d\<lparr>dg_store := s\<rparr>)" using assms by (simp add: dg_ok_def hooks_ok_def)
  show q: "quiet d (d\<lparr>dg_store := s\<rparr>)" by (simp add: quiet_def)
  show "moved d (d\<lparr>dg_store := s\<rparr>)" by (rule quiet_moved [OF q o])
qed

lemma moved_store:
  assumes "moved d d'" "store_ok s" "live (dg_source d') s"
  shows "moved d (d'\<lparr>dg_store := s\<rparr>)"
  using assms by (simp add: moved_def dg_ok_def hooks_ok_def on_def)

lemma same_store_keeps:
  assumes "dg_ok d" "same_store (dg_store d) s"
  shows "store_ok s" "live (dg_source d) s"
  using assms same_store_ok by (auto simp: dg_ok_def live_def same_store_def)

lemma icon_gone_eq:
  assumes "hooks_ok d" "dg_icon_hooks d \<noteq> None"
  shows "handle_icon_destroy d = dg_emit (icon_events d) (d\<lparr>dg_icon_hooks := None, dg_icon := None, icon_view := None\<rparr>)"
proof -
  note k = hooks_okD(8,9) [OF assms(1)]
  obtain v where "icon_view d = Some v" using k assms(2) by auto
  then show ?thesis using assms(2)
    by (simp add: handle_icon_destroy_def must_ok with_icon_view_def icon_events_def dg_emit_def)
qed

lemma source_resource_moved:
  assumes "dg_ok d" "live (Some s) (dg_store d)"
  shows "moved d (source_resource_gone e s d)"
proof -
  define z where "z = (if dg_source_hook d = Some s then handle_source_destroy e d else d)"
  have st: "dg_store (handle_source_destroy e d) = dg_store d"
  proof -
    have h: "hooks_ok (d\<lparr>dg_source_hook := None, dg_source := None\<rparr>)" using assms(1) by (simp add: dg_ok_def hooks_ok_def)
    show ?thesis
      by (simp add: handle_source_destroy_def Let_def end_grab_eq [OF h] dropped_emit leave_eq no_hooks h restore_eq)
  qed
  have src: "dg_source_hook d = dg_source d" using assms(1) by (simp add: dg_ok_def hooks_ok_def)
  have z: "moved d z" "dg_source z \<noteq> Some s" "dg_store z = dg_store d"
    using source_gone_moved [OF assms(1), of e] quiet_moved [OF drag_quiet_refl assms(1)] src st by (simp_all add: z_def)
  have k: "store_ok (dg_store d)" "live (dg_source z) (dg_store d)" using assms(1) z(1,3) by (simp_all add: dg_ok_def moved_def)
  obtain x where x: "source_data (dg_store d) s = Some x" using assms(2) by (auto simp: live_def)
  have "store_ok (data_destroy s (dg_store d))" by (rule destroy_ok(1) [OF k(1) x])
  moreover have "live (dg_source z) (data_destroy s (dg_store d))"
    using k(2) z(2) x by (auto simp: live_def data_destroy_def free_data_def touch_def Let_def)
  ultimately have "moved d (z\<lparr>dg_store := data_destroy s (dg_store z)\<rparr>)" using moved_store [OF z(1)] z(3) by simp
  then show ?thesis by (simp add: source_resource_gone_def z_def Let_def)
qed

lemma offer_resource_moved:
  assumes "dg_ok d"
  shows "moved d (offer_resource_gone x d)"
proof -
  define z where "z = (if dg_offer_hook d = Some x then handle_offer_destroy d else d)"
  have "dg_offer_hook d = dg_offer d" using assms by (simp add: dg_ok_def hooks_ok_def)
  then have z: "moved d z" using offer_gone_moved [OF assms] quiet_moved [OF drag_quiet_refl assms] by (simp add: z_def)
  then have k: "store_ok (dg_store z)" "live (dg_source z) (dg_store z)" by (simp_all add: moved_def dg_ok_def)
  have "store_ok (offer_destroy x (dg_store z))" "live (dg_source z) (offer_destroy x (dg_store z))"
    using offer_destroy_sources [OF k(1), of x] k by (simp_all add: same_sources_def live_def)
  then have "moved d (z\<lparr>dg_store := offer_destroy x (dg_store z)\<rparr>)" by (rule moved_store [OF z])
  then show ?thesis by (simp add: offer_resource_gone_def z_def Let_def)
qed

lemma accept_moved:
  assumes "dg_ok d"
  shows "moved d (accept_request e x m d)"
proof -
  obtain b s where a: "offer_accept x m (dg_store d) = (b, s)" by (metis surj_pair)
  have k: "store_ok (dg_store d)" using assms by (simp add: dg_ok_def)
  have "same_store (dg_store d) s" using offer_accept_same [OF k, of x m] by (simp add: a)
  note q = store_quiet [OF assms same_store_keeps [OF assms this]]
  let ?y = "(d\<lparr>dg_store := s\<rparr>)\<lparr>dg_accepted := m \<noteq> None\<rparr>"
  have y: "dg_ok ?y" "quiet d ?y" using q(2) by (simp_all add: dg_ok_def hooks_ok_def quiet_def)
  have "moved d (update_action e ?y)"
    by (rule quiet_moved [OF drag_quiet_trans [OF y(2) update_quiet(1)]]) (simp only: update_quiet(2) y(1))
  then show ?thesis using q(1) by (simp add: accept_request_def a drag_offer_accept_def Let_def)
qed

lemma set_actions_moved:
  assumes "dg_ok d"
  shows "moved d (drag_offer_set_actions e x a p d)" "live (Some s) (dg_store d) \<Longrightarrow> moved d (set_actions_request e s a d)"
proof -
  let ?y = "d\<lparr>offer_actions := a AND DATA_DND_ACTION_ALL, preferred_action := p AND DATA_DND_ACTION_ALL\<rparr>"
  have y: "dg_ok ?y" "quiet d ?y" using assms by (simp_all add: dg_ok_def hooks_ok_def quiet_def)
  have "moved d (update_action e ?y)"
    by (rule quiet_moved [OF drag_quiet_trans [OF y(2) update_quiet(1)]]) (simp only: update_quiet(2) y(1))
  then show "moved d (drag_offer_set_actions e x a p d)"
    using quiet_moved [OF drag_quiet_refl assms] by (simp add: drag_offer_set_actions_def)
  show "moved d (set_actions_request e s a d)" if l: "live (Some s) (dg_store d)"
  proof -
    have k: "store_ok (dg_store d)" using assms by (simp add: dg_ok_def)
    obtain z where "source_data (dg_store d) s = Some z" using l by (auto simp: live_def)
    from source_offer_same(2) [OF k this, of a]
    have "same_store (dg_store d) (source_set_actions s a (dg_store d))" .
    note q = store_quiet [OF assms same_store_keeps [OF assms this]]
    let ?z = "d\<lparr>dg_store := source_set_actions s a (dg_store d)\<rparr>"
    have e: "quiet d (update_action e (dg_emit es ?z)) \<and> dg_ok (update_action e (dg_emit es ?z))" if "plain es" for es
      using drag_quiet_trans [OF drag_quiet_trans [OF q(3) quiet_emit [OF that]] update_quiet(1)] q(2) by (simp add: update_quiet(2))
    show ?thesis
      using q(1) quiet_moved conjunct1 [OF e] conjunct2 [OF e] e [of "[]"]
      by (simp add: set_actions_request_def drag_source_actions_changed_def Let_def split: option.split)
  qed
qed

lemma icon_gone_moved:
  assumes "dg_ok d"
  shows "moved d (if dg_icon_hooks d \<noteq> None then handle_icon_destroy d else d)"
proof (cases "dg_icon_hooks d")
  case None
  then show ?thesis using quiet_moved [OF drag_quiet_refl assms] by simp
next
  case (Some i)
  let ?z = "d\<lparr>dg_icon_hooks := None, dg_icon := None, icon_view := None\<rparr>"
  have h: "hooks_ok d" using assms by (simp add: dg_ok_def)
  have z: "dg_ok ?z" using assms by (simp add: dg_ok_def hooks_ok_def)
  have "moved d (dg_emit (icon_events d) ?z)"
    unfolding moved_def by (intro conjI exI [of _ "icon_events d"]) (use z in \<open>auto simp: on_def\<close>)
  then show ?thesis using Some icon_gone_eq [OF h] by simp
qed

lemma icon_commit_moved:
  assumes "dg_ok d"
  shows "moved d (if dg_icon_hooks d \<noteq> None then handle_icon_commit e p b d else d)"
proof (cases "dg_icon_hooks d")
  case None
  then show ?thesis using quiet_moved [OF drag_quiet_refl assms] by simp
next
  case (Some i)
  define z where "z = d\<lparr>icon_at := (s32 (fst (icon_at d) + fst p), s32 (snd (icon_at d) + snd p))\<rparr>"
  have z: "dg_ok z" "quiet d z" "icon_view z = icon_view d" using assms by (simp_all add: z_def dg_ok_def hooks_ok_def quiet_def)
  have m: "dg_ok (move_icon e z)" "quiet d (move_icon e z)" "icon_view (move_icon e z) = icon_view d"
    using move_icon_quiet [where d = z and e = e] z drag_quiet_trans [OF z(2)] by (simp_all add: move_icon_def split: option.split)
  obtain v where v: "icon_view d = Some v" using assms Some by (cases "icon_view d") (auto simp: dg_ok_def hooks_ok_def)
  have "moved d (dg_emit es (move_icon e z))" if "plain es" for es
    by (rule quiet_moved [OF drag_quiet_trans [OF m(2) quiet_emit [OF that]]]) (simp add: m(1))
  from this [of "[Icon_shown v]"] show ?thesis
    using Some quiet_moved [OF m(2,1)] by (simp add: handle_icon_commit_def z_def [symmetric] with_icon_view_def m(3) v Let_def)
qed

text \<open>Everything but the start of a drag moves it along; a start makes the state of the drag that begins.\<close>

lemma run_moved:
  assumes "dg_ok d" "drag_possible i d" "\<And>e q. i \<noteq> In_start e q"
  shows "moved d (drag_run i d)"
proof (cases i)
  case (In_button e b r)
  then show ?thesis using drop_moved [OF assms(1)] quiet_moved [OF drag_quiet_refl assms(1)] by (simp add: handle_button_def)
next
  case (In_key e k p)
  then show ?thesis using cancel_moved [OF assms(1)] quiet_moved [OF drag_quiet_refl assms(1)] by (simp add: drag_handle_key_def)
next
  case (In_device_gone r)
  have m: "moved d z \<Longrightarrow> moved d (z\<lparr>dg_devices := rs\<rparr>)" for z rs by (simp add: moved_def dg_ok_def hooks_ok_def on_def)
  show ?thesis using In_device_gone m device_gone_moved [OF assms(1)] quiet_moved [OF drag_quiet_refl assms(1)] by (simp add: Let_def)
next
  case (In_view_gone e v)
  then show ?thesis
    using quiet_moved [OF leave_quiet [OF assms(1)]] quiet_moved [OF drag_quiet_refl assms(1)] by (simp add: handle_focus_destroy_def)
next
  case In_icon_gone
  then show ?thesis using icon_gone_moved [OF assms(1)] by simp
next
  case (In_icon_commit e p b)
  then show ?thesis using icon_commit_moved [OF assms(1)] by simp
next
  case (In_bind r k)
  have "dg_ok (drag_run i d)" "dg_log (drag_run i d) = dg_log d" "dg_source (drag_run i d) = dg_source d"
    "on (drag_run i d) \<longleftrightarrow> on d"
    using assms(1) In_bind by (simp_all add: dg_ok_def hooks_ok_def on_def)
  then show ?thesis by (auto simp: moved_def)
next
  case (In_start e q)
  then show ?thesis using assms(3) by blast
next
  case (In_motion e t x y)
  then show ?thesis using motion_moved [OF assms(1)] assms(2) by simp
next
  case (In_source_actions e s a)
  then show ?thesis using set_actions_moved(2) [OF assms(1)] assms(2) by simp
next
  case (In_source_gone e s)
  then show ?thesis using source_resource_moved [OF assms(1)] assms(2) by simp
next
  case (In_store s)
  then show ?thesis using store_quiet(1) [OF assms(1)] assms(2) by simp
qed (simp_all add: accept_moved set_actions_moved(1) finish_moved offer_resource_moved assms(1))

lemma run_in_order: "dg_ok d \<Longrightarrow> drag_possible i d \<Longrightarrow> dg_ok (drag_run i d)"
  using run_moved [of d i] start_ok [of d] by (cases i) (auto simp: moved_def)

definition drag_initial :: drag where
  "drag_initial = \<lparr>dg_active = False, dg_dropped = False, dg_button = 0, dg_source = None, dg_source_hook = None,
     dg_focus = None, dg_focus_hook = None, dg_device = None, dg_device_hook = None, dg_offer = None, dg_offer_hook = None,
     dg_accepted = False, offer_actions = 0, preferred_action = 0, dg_action = 0, dg_icon = None, dg_icon_hooks = None,
     icon_view = None, icon_at = (0, 0), dg_pointer_hook = False, dg_keyboard_hook = False, dg_devices = [],
     dg_store = empty_store, dg_fault = False, dg_log = []\<rparr>"

text \<open>\<open>ss\<close>: the sources of the drags that were begun.\<close>

inductive drag_reachable :: "nat option list \<Rightarrow> drag \<Rightarrow> bool" where
  initially: "drag_reachable [] drag_initial"
| begins: "drag_reachable ss d \<Longrightarrow> drag_possible (In_start e q) d \<Longrightarrow> begun q d \<Longrightarrow>
    drag_reachable (ss @ [rq_source q]) (drag_start e q d)"
| continues: "drag_reachable ss d \<Longrightarrow> drag_possible i d \<Longrightarrow> (\<And>e q. i = In_start e q \<Longrightarrow> \<not> begun q d) \<Longrightarrow>
    drag_reachable ss (drag_run i d)"

lemma drag_initial_ok: "dg_ok drag_initial"
  by (simp add: dg_ok_def hooks_ok_def drag_initial_def empty_store_def store_ok_def live_def)

lemma drag_reachable_ok: "drag_reachable ss d \<Longrightarrow> dg_ok d"
proof (induction rule: drag_reachable.induct)
  case (begins ss d e q)
  then show ?case using run_in_order [of d "In_start e q"] by simp
qed (auto intro: drag_initial_ok run_in_order)


text \<open>C21: The source of a drag hears of at most one outcome: over any run, the \<open>cancelled\<close> and \<open>dnd_finished\<close> events a
  source gets are no more than the drags that began with it, and one fewer while its drag is still on.\<close>

theorem drag_outcome_once:
  assumes "drag_reachable ss d"
  shows "outcomes s (dg_log d) + (if dg_source d = Some s then 1 else 0) \<le> count_list ss (Some s)"
  using assms
proof (induction rule: drag_reachable.induct)
  case initially
  then show ?case by (simp add: drag_initial_def)
next
  case (begins ss d e q)
  note st = start_ok [OF drag_reachable_ok [OF begins(1)], of e q]
  obtain es where "dg_log (drag_start e q d) = dg_log d @ es" "plain es" "dg_source (drag_start e q d) \<in> {None, rq_source q}"
    using st begins by auto
  then show ?case using begins.IH by auto
next
  case (continues ss d i)
  show ?case
  proof (cases "\<exists>e q. i = In_start e q")
    case True
    then obtain e q where i: "i = In_start e q" by blast
    then have "quiet d (drag_start e q d)"
      using start_ok [OF drag_reachable_ok [OF continues(1)], of e q] continues(2,3) by simp
    then show ?thesis using continues.IH i by (auto simp: quiet_def)
  next
    case False
    then have "moved d (drag_run i d)" using run_moved [OF drag_reachable_ok [OF continues(1)] continues(2)] by blast
    then obtain es where es: "dg_log (drag_run i d) = dg_log d @ es"
      "outcomes s es \<le> (if dg_source d = Some s \<and> dg_source (drag_run i d) = None then 1 else 0)"
      "dg_source (drag_run i d) = None \<or> dg_source (drag_run i d) = dg_source d"
      by (auto simp: moved_def)
    then show ?thesis using continues.IH by (auto split: if_splits)
  qed
qed

text \<open>C22: The pointer goes back to the clients when a drag is over for them and not before: no event refocuses it while
  the grab is held or a drop waits to be finished, and an event that ends that, other than the start of another drag,
  refocuses it.\<close>

theorem pointer_given_back:
  assumes "drag_reachable ss d" "drag_possible i d" "\<And>e q. i \<noteq> In_start e q"
  shows "\<exists>es. dg_log (drag_run i d) = dg_log d @ es \<and>
    (Refocus \<in> set es \<longrightarrow> \<not> dg_active (drag_run i d) \<and> \<not> dg_dropped (drag_run i d)) \<and>
    ((dg_active d \<or> dg_dropped d) \<and> \<not> dg_active (drag_run i d) \<and> \<not> dg_dropped (drag_run i d) \<longrightarrow> Refocus \<in> set es)"
  using run_moved [OF drag_reachable_ok [OF assms(1)] assms(2,3)] by (auto simp: moved_def on_def)

section \<open>The drop\<close>

text \<open>C23: Releasing the button of a drag drops: when the destination has an offer, has accepted a type, and the two sides
  agree on an action, the destination gets \<open>drop\<close>, and a source of version 3 hears \<open>dnd_drop_performed\<close> and waits
  for the finish while older ones are done with; otherwise the source hears \<open>cancelled\<close> and the drag is over.\<close>

theorem release_drops:
  assumes "drag_reachable ss d" "dg_active d"
  shows "case (dg_device d, dg_source d) of
      (Some r, Some s) \<Rightarrow>
        (if dg_offer d \<noteq> None \<and> dg_accepted d \<and> dg_action d \<noteq> DND_NONE
         then Device_drop r \<in> set (dg_log (drag_run (In_button e (dg_button d) True) d)) \<and>
           (if version e s \<ge> 3 then dg_dropped (drag_run (In_button e (dg_button d) True) d) \<and>
              dg_offer (drag_run (In_button e (dg_button d) True) d) = dg_offer d \<and>
              last (dg_log (drag_run (In_button e (dg_button d) True) d)) = Drop_performed s
            else \<not> dg_dropped (drag_run (In_button e (dg_button d) True) d))
         else dg_log (drag_run (In_button e (dg_button d) True) d) =
           dg_log d @ icon_events d @ leave_events e d @ [Drag_cancelled s, Refocus])
    | _ \<Rightarrow> dg_log (drag_run (In_button e (dg_button d) True) d) =
        dg_log d @ icon_events d @ leave_events e d @ cancelled_events d @ [Refocus]"
proof -
  have ok: "dg_ok d" by (rule drag_reachable_ok [OF assms(1)])
  then have "\<not> dg_dropped d" using assms(2) by (auto simp: dg_ok_def)
  then show ?thesis
    using assms(2) drop_eq [OF ok assms(2), of e] by (simp add: handle_button_def cancelled_events_def split: option.split)
qed

definition one_of :: "mask \<Rightarrow> bool" where
  "one_of a \<longleftrightarrow> a = DND_COPY \<or> a = DND_MOVE \<or> a = DND_ASK"

lemma and_action:
  "a AND DND_COPY \<noteq> 0 \<Longrightarrow> a AND DND_COPY = DND_COPY" "a AND DND_MOVE \<noteq> 0 \<Longrightarrow> a AND DND_MOVE = DND_MOVE"
  "a AND DND_ASK \<noteq> 0 \<Longrightarrow> a AND DND_ASK = DND_ASK"
proof -
  have m: "a AND mask_of = mask_of" if "a AND mask_of \<noteq> 0" "mask_of = push_bit n 1" for mask_of :: mask and n
  proof -
    have "a AND mask_of = (if bit a n then push_bit n 1 else 0)"
      unfolding that(2) by (rule bit_eqI) (auto simp: bit_simps)
    then show ?thesis using that by (simp split: if_splits)
  qed
  show "a AND DND_COPY \<noteq> 0 \<Longrightarrow> a AND DND_COPY = DND_COPY" by (rule m [of _ 0]) (simp_all add: DND_COPY_def)
  show "a AND DND_MOVE \<noteq> 0 \<Longrightarrow> a AND DND_MOVE = DND_MOVE" by (rule m [of _ 1]) (simp_all add: DND_MOVE_def)
  show "a AND DND_ASK \<noteq> 0 \<Longrightarrow> a AND DND_ASK = DND_ASK" by (rule m [of _ 2]) (simp_all add: DND_ASK_def)
qed

lemma and_both: "a AND (p AND q) = a \<Longrightarrow> a AND p = a \<and> a AND q = (a :: mask)"
  unfolding bit_eq_iff by (simp add: bit_simps) blast

lemma all_actions: "a AND DATA_DND_ACTION_ALL \<noteq> 0 \<Longrightarrow> a AND DND_COPY \<noteq> 0 \<or> a AND DND_MOVE \<noteq> 0 \<or> a AND DND_ASK \<noteq> 0"
  by (simp add: DATA_DND_ACTION_ALL_def bit.conj_disj_distrib or_eq_0_iff)


section \<open>A drag from one client to another\<close>

text \<open>
  The source is resource 11 of data 0, the device of the destination (client 7) is resource 5, the offer gets resource
  9; the pointer is over view 3 with surface 4.
\<close>

definition demo_env :: drag_env where
  "demo_env = \<lparr>version = \<lambda>_. 3, surface_of = \<lambda>v. if v = 3 then Some 4 else None, client_of = \<lambda>_. 7, view_place = \<lambda>_. (0, 0),
     buffer_offset_of = \<lambda>_. (0, 0), pointer_at = (256, 512), fixed_to_int = \<lambda>x. x div 256, fixed_from_int = \<lambda>x. x * 256,
     view_at = \<lambda>_ _. Some 3, titlebar_at = \<lambda>_ _ _. - 2, offer_resource = Some 9\<rparr>"

definition demo_request :: drag_request where
  "demo_request = \<lparr>rq_seat = True, rq_device = 6, rq_client = 8, rq_source = Some 11, rq_origin = Some 2, rq_button = Some 272,
     rq_under_pointer = Some 2, rq_icon = None, rq_role_ok = True, rq_icon_view = None, rq_icon_buffer = False\<rparr>"

definition demo_store :: data_store where
  "demo_store = source_set_actions 11 (DND_COPY OR DND_MOVE) (snd (data_source_new (Some 0) (Some 11) empty_store))"

definition demo_ready :: drag where
  "demo_ready = drag_run (In_bind 5 7) (drag_run (In_store demo_store) drag_initial)"

definition demo_dragging :: drag where
  "demo_dragging = drag_start demo_env demo_request demo_ready"

definition demo_accepted :: drag where
  "demo_accepted = drag_run (In_set_actions demo_env 9 DND_MOVE DND_MOVE)
     (drag_run (In_accept demo_env 9 (Some ''text/plain'')) demo_dragging)"

definition demo_dropped :: drag where
  "demo_dropped = drag_run (In_button demo_env 272 True) demo_accepted"

lemma demo_reachable:
  "drag_reachable [] demo_ready" "drag_reachable [Some 11] demo_dragging" "drag_reachable [Some 11] demo_accepted"
  "drag_reachable [Some 11] demo_dropped"
proof -
  have so: "store_ok demo_store" "source_data demo_store 11 = Some 0" "offer_data demo_store = (\<lambda>_. None)"
    by (simp_all add: demo_store_def source_set_actions_def data_source_new_def empty_store_def upd_data_def touch_def
        new_data_def store_ok_def Let_def)
  show r: "drag_reachable [] demo_ready"
    unfolding demo_ready_def
    by (intro drag_reachable.continues drag_reachable.initially) (simp_all add: so(1) live_def drag_initial_def)
  have st: "dg_store demo_ready = demo_store" "dg_active demo_ready = False"
    by (simp_all add: demo_ready_def drag_initial_def)
  have "drag_reachable ([] @ [rq_source demo_request]) demo_dragging"
    unfolding demo_dragging_def
    by (rule drag_reachable.begins [OF r])
      (simp_all add: st so demo_request_def demo_env_def fresh_offer_def live_def begun_def drag_allowed_def)
  then show d: "drag_reachable [Some 11] demo_dragging" by (simp add: demo_request_def)
  show a: "drag_reachable [Some 11] demo_accepted"
    unfolding demo_accepted_def by (intro drag_reachable.continues d) simp_all
  show "drag_reachable [Some 11] demo_dropped"
    unfolding demo_dropped_def by (intro drag_reachable.continues a) simp_all
qed

lemma demo_accepted_facts:
  "dg_active demo_accepted" "dg_device demo_accepted = Some 5" "dg_source demo_accepted = Some 11" "dg_offer demo_accepted = Some 9"
  "dg_accepted demo_accepted" "dg_action demo_accepted = DND_MOVE" "dg_button demo_accepted = 272" "dg_focus_hook demo_accepted = Some 3"
  by code_simp+

lemma demo_dropped_facts:
  "dg_active demo_dropped = False" "dg_dropped demo_dropped" "dg_source demo_dropped = Some 11" "dg_offer demo_dropped = Some 9"
  "dg_focus_hook demo_dropped = Some 3"
  by code_simp+


lemma drag_outcome_once_witness: "outcomes 11 (dg_log demo_dropped) = 0"
  using drag_outcome_once [OF demo_reachable(4), of 11] by (simp add: demo_dropped_facts)

lemma pointer_given_back_witness:
  "\<exists>es. dg_log (drag_run (In_finish demo_env 9) demo_dropped) = dg_log demo_dropped @ es \<and> Refocus \<in> set es"
proof -
  have "dg_active (drag_run (In_finish demo_env 9) demo_dropped) = False" "dg_dropped (drag_run (In_finish demo_env 9) demo_dropped) = False"
    by code_simp+
  then show ?thesis
    using pointer_given_back [OF demo_reachable(4), of "In_finish demo_env 9"] by (auto simp: demo_dropped_facts)
qed

lemma release_drops_witness:
  "Device_drop 5 \<in> set (dg_log (drag_run (In_button demo_env 272 True) demo_accepted)) \<and>
   dg_dropped (drag_run (In_button demo_env 272 True) demo_accepted)"
proof -
  have v: "version demo_env 11 = 3" by (simp add: demo_env_def)
  show ?thesis
    using release_drops [OF demo_reachable(3), of demo_env]
    by (simp add: demo_accepted_facts DND_MOVE_def DND_NONE_def v del: drag_run.simps)
qed


text \<open>
  A view that goes away between the drop and its finish takes the offer from the drag: the finish of that offer is
  then ignored, and the source waits for an outcome that does not come.
\<close>

theorem finish_lost_with_view:
  "dg_dropped demo_dropped \<and> dg_dropped (drag_run (In_finish demo_env 9) (drag_run (In_view_gone demo_env 3) demo_dropped)) \<and>
   dg_source (drag_run (In_finish demo_env 9) (drag_run (In_view_gone demo_env 3) demo_dropped)) = Some 11 \<and>
   outcomes 11 (dg_log (drag_run (In_offer_gone 9) (drag_run (In_finish demo_env 9) (drag_run (In_view_gone demo_env 3) demo_dropped)))) = 0"
  by code_simp

text \<open>A preference of several actions is taken as it is: the drop would then do what neither side offers.\<close>

theorem preference_not_validated:
  "dg_action (drag_run (In_set_actions demo_env 9 DND_MOVE DATA_DND_ACTION_ALL) demo_dragging) = DATA_DND_ACTION_ALL \<and>
   data_source_actions 11 (dg_store demo_dragging) = DND_COPY OR DND_MOVE"
  by code_simp

text \<open>A drag without a source is never dropped on anyone.\<close>

theorem internal_drag_not_dropped:
  assumes "drag_reachable ss d" "dg_active d" "dg_source d = None"
  shows "dg_log (drag_run (In_button e (dg_button d) True) d) = dg_log d @ icon_events d @ leave_events e d @ [Refocus]"
  using release_drops [OF assms(1,2), of e] assms(3) by (simp add: cancelled_events_def split: option.splits)

end
