(* ===== verification/Pointer_Motion.thy ===== *)
theory Pointer_Motion
  imports Input_Focus
begin

text \<open>
  Where the pointer may go: the clipping to the screens (\<open>libswc/pointer.c\<close>, \<open>libswc/screen.c\<close>) and the locked
  and confined pointers of clients (\<open>libswc/pointer_constraints.c\<close>).

  A region of pixman is the list of its rectangles, as \<open>pixman_region32_rectangles\<close> returns them; its
  intersection is an argument.  Positions are in the fixed-point format of the protocol, 256 units to a pixel;
  the conversions of libwayland are arguments.
\<close>

section \<open>Rectangles\<close>

record box =
  x1 :: int
  y1 :: int
  x2 :: int
  y2 :: int

definition in_box :: "int \<Rightarrow> int \<Rightarrow> box \<Rightarrow> bool" where
  "in_box x y b \<longleftrightarrow> x1 b \<le> x \<and> x < x2 b \<and> y1 b \<le> y \<and> y < y2 b"

text \<open>\<open>pixman_region32_contains_point\<close> with the rectangle that has the point.\<close>

definition box_at :: "box list \<Rightarrow> int \<Rightarrow> int \<Rightarrow> box option" where
  "box_at bs x y = find (in_box x y) bs"

text \<open>The order pixman keeps: non-empty, in bands from top to bottom, each from left to right.\<close>

definition banded :: "box list \<Rightarrow> bool" where
  "banded bs \<longleftrightarrow> (\<forall>b \<in> set bs. x1 b < x2 b \<and> y1 b < y2 b) \<and>
     sorted_wrt (\<lambda>a b. y2 a \<le> y1 b \<or> y1 a = y1 b \<and> y2 a = y2 b \<and> x2 a \<le> x1 b) bs"

section \<open>The position\<close>

record pointer_base =
  pt_focus :: input_focus
  pt_x :: int
  pt_y :: int
  pt_region :: "box list"

text \<open>\<open>wl_fixed_to_int\<close> and \<open>wl_fixed_from_int\<close>.\<close>

type_synonym fixed_ops = "(int \<Rightarrow> int) \<times> (int \<Rightarrow> int)"

definition clip_position :: "fixed_ops \<Rightarrow> int \<Rightarrow> int \<Rightarrow> 'a pointer_base_scheme \<Rightarrow> 'a pointer_base_scheme" where
  "clip_position fo fx fy p =
     (let x = fst fo fx; y = fst fo fy; last_x = fst fo (pt_x p); last_y = fst fo (pt_y p)
      in if box_at (pt_region p) x y = None
         then case box_at (pt_region p) last_x last_y of
             None \<Rightarrow> p\<lparr>pt_x := 0, pt_y := 0\<rparr>
           | Some b \<Rightarrow> p\<lparr>pt_x := snd fo (max (min x (x2 b - 1)) (x1 b)), pt_y := snd fo (max (min y (y2 b - 1)) (y1 b))\<rparr>
         else p\<lparr>pt_x := fx, pt_y := fy\<rparr>)"

text \<open>\<open>pointer_warp\<close> but for the cursor's image, which follows.\<close>

definition pointer_warp :: "fixed_ops \<Rightarrow> int \<Rightarrow> int \<Rightarrow> 'a pointer_base_scheme \<Rightarrow> 'a pointer_base_scheme" where
  "pointer_warp fo x y p = clip_position fo x y p"

definition pointer_set_region :: "fixed_ops \<Rightarrow> box list \<Rightarrow> 'a pointer_base_scheme \<Rightarrow> 'a pointer_base_scheme" where
  "pointer_set_region fo r p = clip_position fo (pt_x p) (pt_y p) (p\<lparr>pt_region := r\<rparr>)"

text \<open>
  \<open>screens_update_pointer_region\<close>: the screens by their geometry \<open>(x, y, width, height)\<close>, and \<open>join\<close>, the
  rectangles of the union of some.
\<close>

definition screens_update_pointer_region ::
  "fixed_ops \<Rightarrow> ((int \<times> int \<times> int \<times> int) list \<Rightarrow> box list) \<Rightarrow> (int \<times> int \<times> int \<times> int) list \<Rightarrow>
    'a pointer_base_scheme \<Rightarrow> 'a pointer_base_scheme" where
  "screens_update_pointer_region fo join screens p =
     (case screens of [] \<Rightarrow> p
      | (gx, gy, w, h) # _ \<Rightarrow>
          let region = join screens;
              p = (if box_at region (fst fo (pt_x p)) (fst fo (pt_y p)) = None
                   then p\<lparr>pt_x := snd fo (s32 (gx + cdiv (s32 w) 2)), pt_y := snd fo (s32 (gy + cdiv (s32 h) 2))\<rparr> else p);
              p = pointer_set_region fo region p
          in pointer_warp fo (pt_x p) (pt_y p) p)"

section \<open>Constraints\<close>

text \<open>\<open>cn_pointer\<close>: whether the constraint still names the pointer of the seat.  \<open>cn_hooked\<close>: its listeners.\<close>

record pending_constraint =
  pc_region :: "box list"
  region_set :: bool
  pc_has_region :: bool
  hint_set :: bool
  pc_hint :: "int \<times> int"

record pointer_constraint =
  cn_resource :: nat
  cn_surface :: "nat option"
  cn_pointer :: bool
  cn_hooked :: bool
  cn_locked :: bool
  cn_active :: bool
  defunct :: bool
  oneshot :: bool
  cn_region :: "box list"
  effective :: "box list"
  has_region :: bool
  hint :: "int \<times> int"
  has_hint :: bool
  cn_pending :: pending_constraint

datatype constraint_event =
    Send_locked nat | Send_unlocked nat | Send_confined nat | Send_unconfined nat
  | Bad_lifetime nat | Already_constrained nat | Constraint_no_memory nat

text \<open>The list is of addresses; \<open>swc_active\<close> is \<open>swc.active\<close>.\<close>

record constraints_base = pointer_base +
  constraint_list :: "nat list"
  constraint_at :: "nat \<Rightarrow> pointer_constraint"
  active_constraint :: "nat option"
  swc_active :: bool
  cn_log :: "constraint_event list"

text \<open>
  What the constraints read of views and surfaces, and the intersection of regions.
\<close>

record constraint_env =
  view_visible :: "nat \<Rightarrow> bool"
  surface_of_view :: "nat \<Rightarrow> nat"
  geometry_of :: "nat \<Rightarrow> int \<times> int"
  offset_of :: "nat \<Rightarrow> int \<times> int"
  input_of :: "nat \<Rightarrow> box list"
  buffer_of :: "nat \<Rightarrow> (int \<times> int) option"
  intersect :: "box list \<Rightarrow> box list \<Rightarrow> box list"

definition upd_constraint :: "nat \<Rightarrow> (pointer_constraint \<Rightarrow> pointer_constraint) \<Rightarrow> 'a constraints_base_scheme \<Rightarrow> 'a constraints_base_scheme" where
  "upd_constraint c f s = s\<lparr>constraint_at := (constraint_at s)(c := f (constraint_at s c))\<rparr>"

definition cn_emit :: "constraint_event list \<Rightarrow> 'a constraints_base_scheme \<Rightarrow> 'a constraints_base_scheme" where
  "cn_emit es s = s\<lparr>cn_log := cn_log s @ es\<rparr>"

definition make_defunct :: "nat \<Rightarrow> 'a constraints_base_scheme \<Rightarrow> 'a constraints_base_scheme" where
  "make_defunct c s = upd_constraint c (\<lambda>x. x\<lparr>defunct := True, cn_hooked := False, cn_surface := None, cn_pointer := False\<rparr>) s"

definition constraint_deactivate :: "nat \<Rightarrow> 'a constraints_base_scheme \<Rightarrow> 'a constraints_base_scheme" where
  "constraint_deactivate c s =
     (if \<not> cn_active (constraint_at s c) then s
      else
        let s = upd_constraint c (\<lambda>x. x\<lparr>cn_active := False\<rparr>) s;
            s = (if active_constraint s = Some c then s\<lparr>active_constraint := None\<rparr> else s);
            x = constraint_at s c;
            s = cn_emit [if cn_locked x then Send_unlocked (cn_resource x) else Send_unconfined (cn_resource x)] s
        in if oneshot x then make_defunct c s else s)"

text \<open>The focused view, when it shows the surface of the constraint.\<close>

definition constraint_view :: "constraint_env \<Rightarrow> nat \<Rightarrow> 'a constraints_base_scheme \<Rightarrow> nat option" where
  "constraint_view e c s =
     (let x = constraint_at s c; view = (if cn_pointer x then fc_view (pt_focus s) else None)
      in case (cn_surface x, view) of
           (Some f, Some v) \<Rightarrow> if view_visible e v \<and> surface_of_view e v = f then Some v else None
         | _ \<Rightarrow> None)"

definition update_region :: "constraint_env \<Rightarrow> nat \<Rightarrow> 'a constraints_base_scheme \<Rightarrow> 'a constraints_base_scheme" where
  "update_region e c s =
     (case cn_surface (constraint_at s c) of None \<Rightarrow> s
      | Some f \<Rightarrow>
          let (w, h) = (case buffer_of e f of None \<Rightarrow> (0, 0) | Some d \<Rightarrow> d);
              r = intersect e (input_of e f) [\<lparr>x1 = 0, y1 = 0, x2 = w, y2 = h\<rparr>];
              r = (if has_region (constraint_at s c) then intersect e r (cn_region (constraint_at s c)) else r)
          in upd_constraint c (\<lambda>x. x\<lparr>effective := r\<rparr>) s)"

definition contains_fixed :: "box list \<Rightarrow> int \<Rightarrow> int \<Rightarrow> bool" where
  "contains_fixed r x y \<longleftrightarrow> 0 \<le> x \<and> 0 \<le> y \<and> x div 256 \<le> INT32_MAX \<and> y div 256 \<le> INT32_MAX \<and>
     box_at r (x div 256) (y div 256) \<noteq> None"

definition pointer_constraints_pointer_locked :: "'a constraints_base_scheme \<Rightarrow> bool" where
  "pointer_constraints_pointer_locked s = (case active_constraint s of None \<Rightarrow> False | Some c \<Rightarrow> cn_locked (constraint_at s c))"

text \<open>The origin of a view's buffer, in fixed-point coordinates of 64 bits.\<close>

definition fixed_origin :: "constraint_env \<Rightarrow> nat \<Rightarrow> int \<times> int" where
  "fixed_origin e v = ((fst (geometry_of e v) - fst (offset_of e v)) * 256, (snd (geometry_of e v) - snd (offset_of e v)) * 256)"

text \<open>The loop stops at the first constraint of the focused surface.\<close>

definition wanted :: "constraint_env \<Rightarrow> 'a constraints_base_scheme \<Rightarrow> nat option" where
  "wanted e s =
     (case fc_view (pt_focus s) of None \<Rightarrow> None
      | Some v \<Rightarrow>
          if swc_active s \<and> view_visible e v
          then case find (\<lambda>c. \<not> defunct (constraint_at s c) \<and> cn_pointer (constraint_at s c) \<and>
                     cn_surface (constraint_at s c) = Some (surface_of_view e v)) (constraint_list s) of
              None \<Rightarrow> None
            | Some c \<Rightarrow>
                if contains_fixed (effective (constraint_at s c)) (pt_x s - fst (fixed_origin e v)) (pt_y s - snd (fixed_origin e v))
                then Some c else None
          else None)"

definition pointer_constraints_update_focus :: "constraint_env \<Rightarrow> 'a constraints_base_scheme \<Rightarrow> 'a constraints_base_scheme" where
  "pointer_constraints_update_focus e s =
     (let want = wanted e s;
          s = (case active_constraint s of None \<Rightarrow> s | Some c \<Rightarrow> if want \<noteq> Some c then constraint_deactivate c s else s)
      in case want of None \<Rightarrow> s
         | Some c \<Rightarrow>
             if cn_active (constraint_at s c) then s
             else
               let s = (upd_constraint c (\<lambda>x. x\<lparr>cn_active := True\<rparr>) s)\<lparr>active_constraint := Some c\<rparr>; x = constraint_at s c
               in cn_emit [if cn_locked x then Send_locked (cn_resource x) else Send_confined (cn_resource x)] s)"

section \<open>Confining a motion\<close>

text \<open>The interval of a rectangle along one axis, the last unit included, when the rectangle has the other coordinate.\<close>

definition span_at :: "bool \<Rightarrow> int \<Rightarrow> box \<Rightarrow> (int \<times> int) option" where
  "span_at horizontal other b =
     (let low = (if horizontal then y1 b else x1 b) * 256; high = (if horizontal then y2 b else x2 b) * 256
      in if other < low \<or> other \<ge> high then None
         else Some ((if horizontal then x1 b else y1 b) * 256, (if horizontal then x2 b else y2 b) * 256 - 1))"

fun confine_loop :: "bool \<Rightarrow> int \<Rightarrow> int \<Rightarrow> int \<Rightarrow> int \<Rightarrow> int \<Rightarrow> box list \<Rightarrow> int" where
  "confine_loop horizontal start other target low high [] =
     (if start \<ge> low \<and> start \<le> high then max low (min target high) else start)"
| "confine_loop horizontal start other target low high (b # bs) =
     (case span_at horizontal other b of
        None \<Rightarrow> confine_loop horizontal start other target low high bs
      | Some (a, z) \<Rightarrow>
          if high \<ge> low \<and> a > high + 1 then
            if start \<ge> low \<and> start \<le> high then max low (min target high)
            else confine_loop horizontal start other target a (max high z) bs
          else confine_loop horizontal start other target (if high < low then a else low) (max high z) bs)"

definition confine_axis :: "box list \<Rightarrow> int \<Rightarrow> int \<Rightarrow> int \<Rightarrow> bool \<Rightarrow> int" where
  "confine_axis region start other target horizontal = confine_loop horizontal start other target 0 (- 1) region"

text \<open>\<open>nearer\<close>: the comparison of the squared distances, in floating point.\<close>

definition pointer_constraints_confine ::
  "(int \<times> int \<Rightarrow> int \<times> int \<Rightarrow> bool) \<Rightarrow> constraint_env \<Rightarrow> int \<Rightarrow> int \<Rightarrow> 'a constraints_base_scheme \<Rightarrow> int \<times> int" where
  "pointer_constraints_confine nearer e x y s =
     (case active_constraint s of None \<Rightarrow> (x, y)
      | Some c \<Rightarrow>
          if cn_locked (constraint_at s c) \<or> \<not> cn_pointer (constraint_at s c) then (x, y)
          else case constraint_view e c s of None \<Rightarrow> (x, y)
            | Some v \<Rightarrow>
                let (ox, oy) = fixed_origin e v; sx = pt_x s - ox; sy = pt_y s - oy; tx = x - ox; ty = y - oy;
                    r = effective (constraint_at s c);
                    ax = confine_axis r sx sy tx True; ay = confine_axis r sy ax ty False;
                    by' = confine_axis r sy sx ty False; bx = confine_axis r sx by' tx True;
                    (ax, ay) = (if nearer (tx - bx, ty - by') (tx - ax, ty - ay) then (bx, by') else (ax, ay))
                in (s32 (ox + ax), s32 (oy + ay)))"

text \<open>\<open>pointer_handle_absolute_motion\<close> up to the handlers: \<open>False\<close> when the pointer is locked.\<close>

definition move_pointer ::
  "fixed_ops \<Rightarrow> (int \<times> int \<Rightarrow> int \<times> int \<Rightarrow> bool) \<Rightarrow> constraint_env \<Rightarrow> int \<Rightarrow> int \<Rightarrow>
    'a constraints_base_scheme \<Rightarrow> bool \<times> 'a constraints_base_scheme" where
  "move_pointer fo nearer e x y s =
     (let s = pointer_constraints_update_focus e s
      in if pointer_constraints_pointer_locked s then (False, s)
         else let (x, y) = pointer_constraints_confine nearer e x y s in (True, clip_position fo x y s))"

section \<open>Requests\<close>

definition apply_position_hint :: "fixed_ops \<Rightarrow> constraint_env \<Rightarrow> nat \<Rightarrow> 'a constraints_base_scheme \<Rightarrow> 'a constraints_base_scheme" where
  "apply_position_hint fo e c s =
     (let x = constraint_at s c
      in case constraint_view e c s of None \<Rightarrow> s
         | Some v \<Rightarrow>
             if \<not> has_hint x \<or> \<not> contains_fixed (effective x) (fst (hint x)) (snd (hint x)) then s
             else
               let px = fst (fixed_origin e v) + fst (hint x); py = snd (fixed_origin e v) + snd (hint x)
               in if \<not> in_s32 px \<or> \<not> in_s32 py then s else pointer_warp fo px py s)"

definition destroy_constraint :: "fixed_ops \<Rightarrow> constraint_env \<Rightarrow> nat \<Rightarrow> 'a constraints_base_scheme \<Rightarrow> 'a constraints_base_scheme" where
  "destroy_constraint fo e c s =
     (let was_active = cn_active (constraint_at s c);
          s = s\<lparr>constraint_list := remove1 c (constraint_list s)\<rparr>;
          s = upd_constraint c (\<lambda>x. x\<lparr>cn_active := False\<rparr>) s;
          s = (if active_constraint s = Some c then s\<lparr>active_constraint := None\<rparr> else s);
          s = (if was_active \<and> cn_locked (constraint_at s c) then apply_position_hint fo e c s else s)
      in make_defunct c s)"

text \<open>\<open>handle_surface_destroy\<close> and \<open>handle_pointer_destroy\<close>, which are the same.\<close>

definition constraint_object_gone :: "nat \<Rightarrow> 'a constraints_base_scheme \<Rightarrow> 'a constraints_base_scheme" where
  "constraint_object_gone c s = make_defunct c (constraint_deactivate c s)"

definition constraint_surface_commit :: "constraint_env \<Rightarrow> nat \<Rightarrow> 'a constraints_base_scheme \<Rightarrow> 'a constraints_base_scheme" where
  "constraint_surface_commit e c s =
     (let s = upd_constraint c (\<lambda>x.
            let p = cn_pending x;
                x = (if region_set p then x\<lparr>cn_region := pc_region p, has_region := pc_has_region p,
                       cn_pending := (cn_pending x)\<lparr>region_set := False\<rparr>\<rparr> else x)
            in if hint_set p then x\<lparr>hint := pc_hint p, has_hint := True, cn_pending := (cn_pending x)\<lparr>hint_set := False\<rparr>\<rparr> else x) s
      in pointer_constraints_update_focus e (update_region e c s))"

definition constraint_set_region :: "nat \<Rightarrow> box list option \<Rightarrow> 'a constraints_base_scheme \<Rightarrow> 'a constraints_base_scheme" where
  "constraint_set_region c r s =
     (if defunct (constraint_at s c) then s
      else upd_constraint c (\<lambda>x. x\<lparr>cn_pending := (cn_pending x)\<lparr>region_set := True, pc_has_region := r \<noteq> None,
        pc_region := (case r of None \<Rightarrow> [] | Some r \<Rightarrow> r)\<rparr>\<rparr>) s)"

definition set_cursor_position_hint :: "nat \<Rightarrow> int \<Rightarrow> int \<Rightarrow> 'a constraints_base_scheme \<Rightarrow> 'a constraints_base_scheme" where
  "set_cursor_position_hint c x y s =
     (if defunct (constraint_at s c) then s
      else upd_constraint c (\<lambda>z. z\<lparr>cn_pending := (cn_pending z)\<lparr>hint_set := True, pc_hint := (x, y)\<rparr>\<rparr>) s)"

text \<open>
  \<open>lifetime\<close> is \<open>None\<close> when it is no lifetime of the protocol; \<open>c\<close> and \<open>r\<close> are what the allocations return;
  \<open>surface\<close> and \<open>pointer\<close> are \<open>None\<close> and \<open>False\<close> when their resources have outlived them.
\<close>

definition constraint_new ::
  "constraint_env \<Rightarrow> nat \<Rightarrow> nat option \<Rightarrow> nat option \<Rightarrow> nat option \<Rightarrow> bool \<Rightarrow> box list option \<Rightarrow> bool option \<Rightarrow> bool \<Rightarrow>
    'a constraints_base_scheme \<Rightarrow> 'a constraints_base_scheme" where
  "constraint_new e manager c r surface pointer region lifetime locked s =
     (case lifetime of None \<Rightarrow> cn_emit [Bad_lifetime manager] s
      | Some once \<Rightarrow>
          if \<exists>o' \<in> set (constraint_list s). \<not> defunct (constraint_at s o') \<and> cn_surface (constraint_at s o') = surface \<and>
               cn_pointer (constraint_at s o') = pointer
          then cn_emit [Already_constrained manager] s
          else case (c, r) of
              (Some c, Some r) \<Rightarrow>
                let s = s\<lparr>constraint_at := (constraint_at s)(c := \<lparr>cn_resource = r, cn_surface = surface, cn_pointer = pointer,
                      cn_hooked = False, cn_locked = locked, cn_active = False, defunct = False, oneshot = once,
                      cn_region = (case region of None \<Rightarrow> [] | Some b \<Rightarrow> b), effective = [], has_region = region \<noteq> None,
                      hint = (0, 0), has_hint = False, cn_pending = \<lparr>pc_region = [], region_set = False,
                      pc_has_region = False, hint_set = False, pc_hint = (0, 0)\<rparr>\<rparr>),
                      constraint_list := c # constraint_list s\<rparr>
                in if surface = None \<or> \<not> pointer then make_defunct c s
                   else pointer_constraints_update_focus e (update_region e c (upd_constraint c (\<lambda>x. x\<lparr>cn_hooked := True\<rparr>) s))
            | _ \<Rightarrow> cn_emit [Constraint_no_memory manager] s)"

end
