(* ===== verification/Pointer_Motion_Safety.thy ===== *)
theory Pointer_Motion_Safety
  imports Pointer_Motion
begin

text \<open>
  What locked and confined pointers promise: a confined pointer stays in its region and goes as far as it can, a
  locked one stays where it is, no two constraints are active, and the pointer never leaves the screens.
\<close>

section \<open>Moving along an axis\<close>

text \<open>The fixed-point positions of an interval and of a list of intervals.\<close>

definition in_spans :: "(int \<times> int) list \<Rightarrow> int \<Rightarrow> bool" where
  "in_spans ss p \<longleftrightarrow> (\<exists>(a, z) \<in> set ss. a \<le> p \<and> p \<le> z)"

text \<open>\<open>slides\<close>: \<open>r\<close> is reached from \<open>start\<close> without leaving \<open>P\<close>, on the way to \<open>target\<close>, and no position further
  towards the target is.\<close>

definition slides :: "(int \<Rightarrow> bool) \<Rightarrow> int \<Rightarrow> int \<Rightarrow> int \<Rightarrow> bool" where
  "slides P start target r \<longleftrightarrow> (\<forall>p. min start r \<le> p \<and> p \<le> max start r \<longrightarrow> P p) \<and>
     min start target \<le> r \<and> r \<le> max start target \<and> (r < target \<longrightarrow> \<not> P (r + 1)) \<and> (target < r \<longrightarrow> \<not> P (r - 1))"

fun span_loop :: "int \<Rightarrow> int \<Rightarrow> int \<Rightarrow> int \<Rightarrow> (int \<times> int) list \<Rightarrow> int" where
  "span_loop start target low high [] = (if start \<ge> low \<and> start \<le> high then max low (min target high) else start)"
| "span_loop start target low high ((a, z) # ss) =
     (if high \<ge> low \<and> a > high + 1 then
        if start \<ge> low \<and> start \<le> high then max low (min target high)
        else span_loop start target a (max high z) ss
      else span_loop start target (if high < low then a else low) (max high z) ss)"

lemma confine_spans: "confine_loop h start other target low high bs =
  span_loop start target low high (List.map_filter (span_at h other) bs)"
  by (induction bs arbitrary: low high) (auto simp: List.map_filter_simps split: option.split)

text \<open>Intervals from left to right, that may touch.\<close>

definition ordered_spans :: "int \<Rightarrow> (int \<times> int) list \<Rightarrow> bool" where
  "ordered_spans low ss \<longleftrightarrow> (\<forall>(a, z) \<in> set ss. low < a \<and> a \<le> z) \<and> sorted_wrt (\<lambda>s t. snd s < fst t) ss"

lemma span_loop_slides:
  assumes "low \<le> high" "ordered_spans high ss"
  shows "if in_spans ((low, high) # ss) start then slides (in_spans ((low, high) # ss)) start target (span_loop start target low high ss)
    else span_loop start target low high ss = start"
  using assms
proof (induction ss arbitrary: low high)
  case Nil
  then show ?case by (auto simp: in_spans_def slides_def min_def max_def)
next
  case (Cons s ss)
  obtain a z where s: "s = (a, z)" by (metis surj_pair)
  have o: "high < a" "a \<le> z" "ordered_spans z ss" "\<forall>(b, y) \<in> set ss. z < b" and zh: "max high z = z"
    using Cons.prems by (auto simp: ordered_spans_def s)
  show ?case
  proof (cases "a > high + 1")
    case True
    show ?thesis
    proof (cases "low \<le> start \<and> start \<le> high")
      case True
      then have "in_spans ((low, high) # s # ss) start" by (auto simp: in_spans_def)
      moreover have "slides (in_spans ((low, high) # s # ss)) start target (max low (min target high))"
      proof -
        have n: "\<not> in_spans ((low, high) # s # ss) (high + 1)" if "target > high"
          using \<open>a > high + 1\<close> o(2,4) by (fastforce simp: in_spans_def s)
        have m: "\<not> in_spans ((low, high) # s # ss) (low - 1)"
          using o(1,2,4) Cons.prems(1) by (fastforce simp: in_spans_def s)
        have i: "low \<le> p \<Longrightarrow> p \<le> high \<Longrightarrow> in_spans ((low, high) # s # ss) p" for p by (auto simp: in_spans_def)
        show ?thesis
          using True n m i by (auto simp: slides_def min_def max_def split: if_splits)
      qed
      ultimately show ?thesis using True \<open>a > high + 1\<close> Cons.prems(1) by (simp add: s)
    next
      case False
      have l: "span_loop start target low high (s # ss) = span_loop start target a z ss"
        using False \<open>a > high + 1\<close> Cons.prems(1) zh by (auto simp: s)
      have i: "in_spans ((low, high) # s # ss) start \<longleftrightarrow> in_spans ((a, z) # ss) start" using False by (auto simp: in_spans_def s)
      have "slides (in_spans ((low, high) # s # ss)) start target r" if "slides (in_spans ((a, z) # ss)) start target r"
        "in_spans ((a, z) # ss) start" for r
      proof -
        have up: "in_spans ((a, z) # ss) p \<Longrightarrow> in_spans ((low, high) # s # ss) p" for p by (auto simp: in_spans_def s)
        have ge: "in_spans ((a, z) # ss) p \<Longrightarrow> a \<le> p" for p using o(2,4) by (fastforce simp: in_spans_def)
        have "a \<le> r" using that ge [of r] by (auto simp: slides_def)
        then have "in_spans ((low, high) # s # ss) q \<longleftrightarrow> in_spans ((a, z) # ss) q" if "r - 1 \<le> q" for q
          using that \<open>a > high + 1\<close> by (auto simp: in_spans_def s)
        then have "in_spans ((low, high) # s # ss) (r + 1) \<longleftrightarrow> in_spans ((a, z) # ss) (r + 1)"
          "in_spans ((low, high) # s # ss) (r - 1) \<longleftrightarrow> in_spans ((a, z) # ss) (r - 1)" by simp_all
        then show ?thesis using that(1) up by (simp add: slides_def)
      qed
      then show ?thesis using Cons.IH [OF o(2,3)] by (simp add: l i split: if_splits)
    qed
  next
    case False
    then have a: "a = high + 1" using o(1) by simp
    have l: "span_loop start target low high (s # ss) = span_loop start target low z ss"
      using False Cons.prems(1) zh by (simp add: s)
    have i: "in_spans ((low, high) # s # ss) = in_spans ((low, z) # ss)"
      using a o(2) Cons.prems(1) by (fastforce simp: in_spans_def s fun_eq_iff)
    have "low \<le> z" using o(1,2) Cons.prems(1) by simp
    from Cons.IH [OF this o(3)] show ?thesis by (simp only: l i)
  qed
qed

text \<open>The intervals of a region along an axis.\<close>

definition axis_point :: "box list \<Rightarrow> bool \<Rightarrow> int \<Rightarrow> int \<Rightarrow> bool" where
  "axis_point bs h other p \<longleftrightarrow> (\<exists>b \<in> set bs. if h
     then x1 b * 256 \<le> p \<and> p < x2 b * 256 \<and> y1 b * 256 \<le> other \<and> other < y2 b * 256
     else y1 b * 256 \<le> p \<and> p < y2 b * 256 \<and> x1 b * 256 \<le> other \<and> other < x2 b * 256)"

lemma axis_spans: "axis_point bs h other = in_spans (List.map_filter (span_at h other) bs)"
  by (rule ext) (induction bs, auto simp: axis_point_def in_spans_def List.map_filter_simps span_at_def Let_def split: option.split)

lemma banded_spans:
  assumes "banded bs" "\<forall>b \<in> set bs. 0 \<le> x1 b \<and> 0 \<le> y1 b"
  shows "ordered_spans (- 1) (List.map_filter (span_at h other) bs)"
  using assms
proof (induction bs)
  case Nil
  then show ?case by (simp add: ordered_spans_def List.map_filter_simps)
next
  case (Cons b bs)
  have r: "banded bs" using Cons.prems(1) by (simp add: banded_def)
  note ih = Cons.IH [OF r] 
  have b: "x1 b < x2 b" "y1 b < y2 b" "0 \<le> x1 b" "0 \<le> y1 b" using Cons.prems by (simp_all add: banded_def)
  show ?case
  proof (cases "span_at h other b")
    case None
    then show ?thesis using ih Cons.prems(2) by (simp add: List.map_filter_simps)
  next
    case (Some s)
    obtain a z where s: "s = (a, z)" by (metis surj_pair)
    have az: "-1 < a \<and> a \<le> z"
      using Some b by (auto simp: span_at_def Let_def s split: if_splits)
    have "z < fst t" if t: "t \<in> set (List.map_filter (span_at h other) bs)" for t
    proof -
      obtain c where c: "c \<in> set bs" "span_at h other c = Some t"
        using t by (auto simp: List.map_filter_def)
      have o: "y2 b \<le> y1 c \<or> y1 b = y1 c \<and> y2 b = y2 c \<and> x2 b \<le> x1 c" "x1 c < x2 c" "y1 c < y2 c"
        using Cons.prems(1) c(1) by (simp_all add: banded_def)
      show ?thesis using Some c(2) o b by (cases h) (auto simp: span_at_def Let_def s split: if_splits)
    qed
    then show ?thesis using ih Cons.prems(2) az Some s
      by (auto simp: ordered_spans_def List.map_filter_simps)
  qed
qed

lemma confine_axis_spec:
  assumes "banded bs" "\<forall>b \<in> set bs. 0 \<le> x1 b \<and> 0 \<le> y1 b"
  shows "if axis_point bs h other start then slides (axis_point bs h other) start target (confine_axis bs start other target h)
    else confine_axis bs start other target h = start"
proof -
  let ?ss = "List.map_filter (span_at h other) bs"
  have o: "ordered_spans (- 1) ?ss" by (rule banded_spans [OF assms])
  have c: "confine_axis bs start other target h = span_loop start target 0 (- 1) ?ss"
    by (simp add: confine_axis_def confine_spans)
  show ?thesis
  proof (cases ?ss)
    case Nil
    then show ?thesis by (auto simp: c axis_spans in_spans_def)
  next
    case (Cons s ss)
    obtain a z where s: "s = (a, z)" by (metis surj_pair)
    have l: "span_loop start target 0 (- 1) ?ss = span_loop start target a z ss"
      using o by (simp add: Cons s ordered_spans_def)
    have "a \<le> z" "ordered_spans z ss" using o by (auto simp: Cons s ordered_spans_def)
    from span_loop_slides [OF this, of start target] show ?thesis unfolding c axis_spans l unfolding Cons s .
  qed
qed

text \<open>Confining a motion along one axis goes as far towards the target as the region lets it without a jump: every
  position between start and result is in the region, and either the target is reached or the next position towards
  it is outside; a start outside the region is left where it is.\<close>

theorem confine_axis_farthest:
  assumes "banded bs" "\<forall>b \<in> set bs. 0 \<le> x1 b \<and> 0 \<le> y1 b"
  shows "if axis_point bs h other start then slides (axis_point bs h other) start target (confine_axis bs start other target h)
    else confine_axis bs start other target h = start"
  using confine_axis_spec [OF assms] .

definition two_boxes :: "box list" where
  "two_boxes = [\<lparr>x1 = 0, y1 = 0, x2 = 10, y2 = 10\<rparr>, \<lparr>x1 = 20, y1 = 0, x2 = 30, y2 = 10\<rparr>]"

lemma confine_axis_farthest_witness:
  "slides (axis_point two_boxes True 256) 512 6000 (confine_axis two_boxes 512 256 6000 True) \<and>
   confine_axis two_boxes 512 256 6000 True = 2559"
proof -
  have b: "banded two_boxes" "\<forall>b \<in> set two_boxes. 0 \<le> x1 b \<and> 0 \<le> y1 b" by (simp_all add: banded_def two_boxes_def)
  have "axis_point two_boxes True 256 512" by (simp add: axis_point_def two_boxes_def)
  moreover have "confine_axis two_boxes 512 256 6000 True = 2559" by code_simp
  ultimately show ?thesis using confine_axis_farthest [OF b, of True 256 512 6000] by simp
qed

section \<open>One constraint at a time\<close>

definition starts :: "nat \<Rightarrow> constraint_event list \<Rightarrow> nat" where
  "starts r es = count_list es (Send_locked r) + count_list es (Send_confined r)"

definition ends :: "nat \<Rightarrow> constraint_event list \<Rightarrow> nat" where
  "ends r es = count_list es (Send_unlocked r) + count_list es (Send_unconfined r)"

text \<open>
  The active constraint is the one marked so; a constraint that is not defunct has its surface, its pointer and its
  listeners, and is the only one of its surface; each client has been told of the starts and ends of its constraint,
  and a one-shot constraint starts once.
\<close>

definition con_ok :: "'a constraints_base_scheme \<Rightarrow> bool" where
  "con_ok s \<longleftrightarrow> distinct (constraint_list s) \<and>
     (\<forall>c \<in> set (constraint_list s). cn_active (constraint_at s c) \<longleftrightarrow> active_constraint s = Some c) \<and>
     (\<forall>c. active_constraint s = Some c \<longrightarrow> c \<in> set (constraint_list s) \<and> \<not> defunct (constraint_at s c)) \<and>
     (\<forall>c \<in> set (constraint_list s). (cn_surface (constraint_at s c) = None \<longleftrightarrow> defunct (constraint_at s c)) \<and>
        (cn_pointer (constraint_at s c) \<longleftrightarrow> \<not> defunct (constraint_at s c)) \<and>
        (cn_hooked (constraint_at s c) \<longleftrightarrow> \<not> defunct (constraint_at s c))) \<and>
     (\<forall>c \<in> set (constraint_list s). \<forall>d \<in> set (constraint_list s). cn_surface (constraint_at s c) = cn_surface (constraint_at s d) \<and>
        cn_surface (constraint_at s c) \<noteq> None \<longrightarrow> c = d) \<and>
     (\<forall>c \<in> set (constraint_list s). \<forall>d \<in> set (constraint_list s).
        cn_resource (constraint_at s c) = cn_resource (constraint_at s d) \<longrightarrow> c = d) \<and>
     (\<forall>c \<in> set (constraint_list s).
        starts (cn_resource (constraint_at s c)) (cn_log s) =
          ends (cn_resource (constraint_at s c)) (cn_log s) + (if cn_active (constraint_at s c) then 1 else 0) \<and>
        (oneshot (constraint_at s c) \<and> \<not> defunct (constraint_at s c) \<longrightarrow> ends (cn_resource (constraint_at s c)) (cn_log s) = 0) \<and>
        (oneshot (constraint_at s c) \<longrightarrow> starts (cn_resource (constraint_at s c)) (cn_log s) \<le> 1))"

lemma con_okD:
  assumes "con_ok s"
  shows "distinct (constraint_list s)"
    "c \<in> set (constraint_list s) \<Longrightarrow> cn_active (constraint_at s c) \<longleftrightarrow> active_constraint s = Some c"
    "active_constraint s = Some c \<Longrightarrow> c \<in> set (constraint_list s)" "active_constraint s = Some c \<Longrightarrow> \<not> defunct (constraint_at s c)"
    "c \<in> set (constraint_list s) \<Longrightarrow> cn_surface (constraint_at s c) = None \<longleftrightarrow> defunct (constraint_at s c)"
    "c \<in> set (constraint_list s) \<Longrightarrow> cn_pointer (constraint_at s c) \<longleftrightarrow> \<not> defunct (constraint_at s c)"
    "c \<in> set (constraint_list s) \<Longrightarrow> cn_hooked (constraint_at s c) \<longleftrightarrow> \<not> defunct (constraint_at s c)"
    "c \<in> set (constraint_list s) \<Longrightarrow> d \<in> set (constraint_list s) \<Longrightarrow> cn_surface (constraint_at s c) = cn_surface (constraint_at s d) \<Longrightarrow>
      cn_surface (constraint_at s c) \<noteq> None \<Longrightarrow> c = d"
    "c \<in> set (constraint_list s) \<Longrightarrow> d \<in> set (constraint_list s) \<Longrightarrow> cn_resource (constraint_at s c) = cn_resource (constraint_at s d) \<Longrightarrow> c = d"
    "c \<in> set (constraint_list s) \<Longrightarrow> starts (cn_resource (constraint_at s c)) (cn_log s) =
      ends (cn_resource (constraint_at s c)) (cn_log s) + (if cn_active (constraint_at s c) then 1 else 0)"
    "c \<in> set (constraint_list s) \<Longrightarrow> oneshot (constraint_at s c) \<Longrightarrow> \<not> defunct (constraint_at s c) \<Longrightarrow>
      ends (cn_resource (constraint_at s c)) (cn_log s) = 0"
    "c \<in> set (constraint_list s) \<Longrightarrow> oneshot (constraint_at s c) \<Longrightarrow> starts (cn_resource (constraint_at s c)) (cn_log s) \<le> 1"
  using assms unfolding con_ok_def by blast+

lemma con_okI:
  assumes "distinct (constraint_list s)"
    "\<And>c. c \<in> set (constraint_list s) \<Longrightarrow> cn_active (constraint_at s c) \<longleftrightarrow> active_constraint s = Some c"
    "\<And>c. active_constraint s = Some c \<Longrightarrow> c \<in> set (constraint_list s) \<and> \<not> defunct (constraint_at s c)"
    "\<And>c. c \<in> set (constraint_list s) \<Longrightarrow> (cn_surface (constraint_at s c) = None \<longleftrightarrow> defunct (constraint_at s c)) \<and>
      (cn_pointer (constraint_at s c) \<longleftrightarrow> \<not> defunct (constraint_at s c)) \<and> (cn_hooked (constraint_at s c) \<longleftrightarrow> \<not> defunct (constraint_at s c))"
    "\<And>c d. c \<in> set (constraint_list s) \<Longrightarrow> d \<in> set (constraint_list s) \<Longrightarrow>
      cn_surface (constraint_at s c) = cn_surface (constraint_at s d) \<Longrightarrow> cn_surface (constraint_at s c) \<noteq> None \<Longrightarrow> c = d"
    "\<And>c d. c \<in> set (constraint_list s) \<Longrightarrow> d \<in> set (constraint_list s) \<Longrightarrow>
      cn_resource (constraint_at s c) = cn_resource (constraint_at s d) \<Longrightarrow> c = d"
    "\<And>c. c \<in> set (constraint_list s) \<Longrightarrow> starts (cn_resource (constraint_at s c)) (cn_log s) =
      ends (cn_resource (constraint_at s c)) (cn_log s) + (if cn_active (constraint_at s c) then 1 else 0)"
    "\<And>c. c \<in> set (constraint_list s) \<Longrightarrow> oneshot (constraint_at s c) \<Longrightarrow> \<not> defunct (constraint_at s c) \<Longrightarrow>
      ends (cn_resource (constraint_at s c)) (cn_log s) = 0"
    "\<And>c. c \<in> set (constraint_list s) \<Longrightarrow> oneshot (constraint_at s c) \<Longrightarrow> starts (cn_resource (constraint_at s c)) (cn_log s) \<le> 1"
  shows "con_ok s"
  unfolding con_ok_def using assms by blast

text \<open>What most operations leave of the constraints.\<close>

definition same_core :: "'a constraints_base_scheme \<Rightarrow> 'b constraints_base_scheme \<Rightarrow> bool" where
  "same_core s t \<longleftrightarrow> constraint_list t = constraint_list s \<and> active_constraint t = active_constraint s \<and> cn_log t = cn_log s \<and>
     (\<forall>c. cn_resource (constraint_at t c) = cn_resource (constraint_at s c) \<and> cn_surface (constraint_at t c) = cn_surface (constraint_at s c) \<and>
        cn_pointer (constraint_at t c) = cn_pointer (constraint_at s c) \<and> cn_hooked (constraint_at t c) = cn_hooked (constraint_at s c) \<and>
        cn_active (constraint_at t c) = cn_active (constraint_at s c) \<and> defunct (constraint_at t c) = defunct (constraint_at s c) \<and>
        oneshot (constraint_at t c) = oneshot (constraint_at s c) \<and> cn_locked (constraint_at t c) = cn_locked (constraint_at s c))"

lemma same_core_ok:
  assumes "same_core s t" "con_ok s"
  shows "con_ok t"
proof -
  have e: "constraint_list t = constraint_list s" "active_constraint t = active_constraint s" "cn_log t = cn_log s"
    "cn_resource (constraint_at t c) = cn_resource (constraint_at s c)" "cn_surface (constraint_at t c) = cn_surface (constraint_at s c)"
    "cn_pointer (constraint_at t c) = cn_pointer (constraint_at s c)" "cn_hooked (constraint_at t c) = cn_hooked (constraint_at s c)"
    "cn_active (constraint_at t c) = cn_active (constraint_at s c)" "defunct (constraint_at t c) = defunct (constraint_at s c)"
    "oneshot (constraint_at t c) = oneshot (constraint_at s c)" for c
    using assms(1) by (simp_all add: same_core_def)
  show ?thesis using assms(2) unfolding con_ok_def e .
qed

lemma same_core_refl: "same_core s s"
  by (simp add: same_core_def)

lemma same_core_trans: "same_core a b \<Longrightarrow> same_core b c \<Longrightarrow> same_core a c"
  by (simp add: same_core_def)

lemma same_core_upd:
  assumes "\<And>x. cn_resource (f x) = cn_resource x" "\<And>x. cn_surface (f x) = cn_surface x" "\<And>x. cn_pointer (f x) = cn_pointer x"
    "\<And>x. cn_hooked (f x) = cn_hooked x" "\<And>x. cn_active (f x) = cn_active x" "\<And>x. defunct (f x) = defunct x"
    "\<And>x. oneshot (f x) = oneshot x" "\<And>x. cn_locked (f x) = cn_locked x"
  shows "same_core s (upd_constraint c f s)"
  using assms by (simp add: same_core_def upd_constraint_def)

lemma same_core_clip: "same_core s (clip_position fo x y s)"
  by (simp add: same_core_def clip_position_def Let_def split: option.split)

lemma same_core_hint: "same_core s (apply_position_hint fo e c s)"
  by (simp add: apply_position_hint_def pointer_warp_def same_core_clip same_core_refl Let_def split: option.split)

lemma update_region_core: "same_core s (update_region e c s)"
  by (simp add: update_region_def Let_def same_core_upd split: option.split prod.split) (simp add: same_core_def)

lemma told_simps [simp]:
  "starts r (es @ [Send_locked q]) = starts r es + (if r = q then 1 else 0)" "starts r (es @ [Send_confined q]) = starts r es + (if r = q then 1 else 0)"
  "starts r (es @ [Send_unlocked q]) = starts r es" "starts r (es @ [Send_unconfined q]) = starts r es"
  "ends r (es @ [Send_locked q]) = ends r es" "ends r (es @ [Send_confined q]) = ends r es"
  "ends r (es @ [Send_unlocked q]) = ends r es + (if r = q then 1 else 0)" "ends r (es @ [Send_unconfined q]) = ends r es + (if r = q then 1 else 0)"
  by (auto simp: starts_def ends_def)

lemma defunct_ok:
  assumes "con_ok s" "active_constraint s \<noteq> Some c"
  shows "con_ok (make_defunct c s)"
proof (rule con_okI)
  note k = con_okD [OF assms(1)]
  have f: "constraint_list (make_defunct c s) = constraint_list s" "active_constraint (make_defunct c s) = active_constraint s"
    "cn_log (make_defunct c s) = cn_log s" "cn_resource (constraint_at (make_defunct c s) d) = cn_resource (constraint_at s d)"
    "cn_active (constraint_at (make_defunct c s) d) = cn_active (constraint_at s d)"
    "oneshot (constraint_at (make_defunct c s) d) = oneshot (constraint_at s d)"
    "defunct (constraint_at (make_defunct c s) d) \<longleftrightarrow> d = c \<or> defunct (constraint_at s d)"
    "cn_surface (constraint_at (make_defunct c s) d) = (if d = c then None else cn_surface (constraint_at s d))"
    "cn_pointer (constraint_at (make_defunct c s) d) \<longleftrightarrow> d \<noteq> c \<and> cn_pointer (constraint_at s d)"
    "cn_hooked (constraint_at (make_defunct c s) d) \<longleftrightarrow> d \<noteq> c \<and> cn_hooked (constraint_at s d)" for d
    by (simp_all add: make_defunct_def upd_constraint_def)
  show "distinct (constraint_list (make_defunct c s))" using k(1) by (simp add: f)
  fix d assume d: "d \<in> set (constraint_list (make_defunct c s))"
  note d' = d [unfolded f]
  show "cn_active (constraint_at (make_defunct c s) d) \<longleftrightarrow> active_constraint (make_defunct c s) = Some d" using k(2) d' by (simp add: f)
  show "(cn_surface (constraint_at (make_defunct c s) d) = None \<longleftrightarrow> defunct (constraint_at (make_defunct c s) d)) \<and>
    (cn_pointer (constraint_at (make_defunct c s) d) \<longleftrightarrow> \<not> defunct (constraint_at (make_defunct c s) d)) \<and>
    (cn_hooked (constraint_at (make_defunct c s) d) \<longleftrightarrow> \<not> defunct (constraint_at (make_defunct c s) d))"
    using k(5-7) [OF d'] by (simp add: f)
  show "starts (cn_resource (constraint_at (make_defunct c s) d)) (cn_log (make_defunct c s)) =
    ends (cn_resource (constraint_at (make_defunct c s) d)) (cn_log (make_defunct c s)) +
      (if cn_active (constraint_at (make_defunct c s) d) then 1 else 0)"
    using k(10) [OF d'] by (simp add: f)
  show "ends (cn_resource (constraint_at (make_defunct c s) d)) (cn_log (make_defunct c s)) = 0"
    if "oneshot (constraint_at (make_defunct c s) d)" "\<not> defunct (constraint_at (make_defunct c s) d)"
    using k(11) [OF d'] that by (simp add: f)
  show "starts (cn_resource (constraint_at (make_defunct c s) d)) (cn_log (make_defunct c s)) \<le> 1"
    if "oneshot (constraint_at (make_defunct c s) d)"
    using k(12) [OF d'] that by (simp add: f)
  fix b assume b: "b \<in> set (constraint_list (make_defunct c s))"
  note b' = b [unfolded f]
  show "d = b" if "cn_surface (constraint_at (make_defunct c s) d) = cn_surface (constraint_at (make_defunct c s) b)"
    "cn_surface (constraint_at (make_defunct c s) d) \<noteq> None"
    using k(8) [OF d' b'] that by (auto simp: f split: if_splits)
  show "d = b" if "cn_resource (constraint_at (make_defunct c s) d) = cn_resource (constraint_at (make_defunct c s) b)"
    using k(9) [OF d' b'] that by (simp add: f)
next
  fix d assume "active_constraint (make_defunct c s) = Some d"
  then show "d \<in> set (constraint_list (make_defunct c s)) \<and> \<not> defunct (constraint_at (make_defunct c s) d)"
    using con_okD(3,4) [OF assms(1)] assms(2) by (auto simp: make_defunct_def upd_constraint_def)
qed

lemma deactivate_ok:
  assumes "con_ok s" "active_constraint s = Some c"
  shows "con_ok (constraint_deactivate c s)" "active_constraint (constraint_deactivate c s) = None"
    "constraint_list (constraint_deactivate c s) = constraint_list s"
    "d \<noteq> c \<Longrightarrow> constraint_at (constraint_deactivate c s) d = constraint_at s d"
proof -
  note k = con_okD [OF assms(1)]
  let ?u = "constraint_deactivate c s"
  have c: "c \<in> set (constraint_list s)" "cn_active (constraint_at s c)" using k(2,3) assms(2) by simp_all
  have f: "constraint_list ?u = constraint_list s" "active_constraint ?u = None"
    "cn_log ?u = cn_log s @ [if cn_locked (constraint_at s c) then Send_unlocked (cn_resource (constraint_at s c))
      else Send_unconfined (cn_resource (constraint_at s c))]"
    "cn_resource (constraint_at ?u d) = cn_resource (constraint_at s d)"
    "cn_active (constraint_at ?u d) \<longleftrightarrow> d \<noteq> c \<and> cn_active (constraint_at s d)"
    "oneshot (constraint_at ?u d) = oneshot (constraint_at s d)"
    "defunct (constraint_at ?u d) \<longleftrightarrow> d = c \<and> oneshot (constraint_at s c) \<or> defunct (constraint_at s d)"
    "cn_surface (constraint_at ?u d) = (if d = c \<and> oneshot (constraint_at s c) then None else cn_surface (constraint_at s d))"
    "cn_pointer (constraint_at ?u d) \<longleftrightarrow> \<not> (d = c \<and> oneshot (constraint_at s c)) \<and> cn_pointer (constraint_at s d)"
    "cn_hooked (constraint_at ?u d) \<longleftrightarrow> \<not> (d = c \<and> oneshot (constraint_at s c)) \<and> cn_hooked (constraint_at s d)"
    "d \<noteq> c \<Longrightarrow> constraint_at ?u d = constraint_at s d" for d
    using c(2) assms(2) by (auto simp: constraint_deactivate_def make_defunct_def upd_constraint_def cn_emit_def Let_def)
  show "active_constraint ?u = None" "constraint_list ?u = constraint_list s" "d \<noteq> c \<Longrightarrow> constraint_at ?u d = constraint_at s d"
    by (rule f)+
  show "con_ok ?u"
  proof (rule con_okI)
    show "distinct (constraint_list ?u)" using k(1) by (simp add: f)
    fix d assume "d \<in> set (constraint_list ?u)"
    then have d: "d \<in> set (constraint_list s)" by (simp add: f)
    have ce: "cn_resource (constraint_at s d) = cn_resource (constraint_at s c) \<longleftrightarrow> d = c" using k(9) [OF d c(1)] by auto
    show "cn_active (constraint_at ?u d) \<longleftrightarrow> active_constraint ?u = Some d" using k(2) [OF d] assms(2) by (auto simp: f)
    show "(cn_surface (constraint_at ?u d) = None \<longleftrightarrow> defunct (constraint_at ?u d)) \<and>
      (cn_pointer (constraint_at ?u d) \<longleftrightarrow> \<not> defunct (constraint_at ?u d)) \<and> (cn_hooked (constraint_at ?u d) \<longleftrightarrow> \<not> defunct (constraint_at ?u d))"
      using k(5-7) [OF d] by (auto simp: f)
    show "starts (cn_resource (constraint_at ?u d)) (cn_log ?u) =
      ends (cn_resource (constraint_at ?u d)) (cn_log ?u) + (if cn_active (constraint_at ?u d) then 1 else 0)"
      using k(10) [OF d] ce c(2) by (auto simp: f)
    show "ends (cn_resource (constraint_at ?u d)) (cn_log ?u) = 0" if "oneshot (constraint_at ?u d)" "\<not> defunct (constraint_at ?u d)"
      using k(11) [OF d] ce that by (auto simp: f)
    show "starts (cn_resource (constraint_at ?u d)) (cn_log ?u) \<le> 1" if "oneshot (constraint_at ?u d)"
      using k(12) [OF d] that by (auto simp: f)
    fix b assume "b \<in> set (constraint_list ?u)"
    then have b: "b \<in> set (constraint_list s)" by (simp add: f)
    show "d = b" if "cn_surface (constraint_at ?u d) = cn_surface (constraint_at ?u b)" "cn_surface (constraint_at ?u d) \<noteq> None"
      using k(8) [OF d b] that by (auto simp: f split: if_splits)
    show "d = b" if "cn_resource (constraint_at ?u d) = cn_resource (constraint_at ?u b)" using k(9) [OF d b] that by (simp add: f)
  qed (simp add: f)
qed

lemma wanted_live:
  assumes "wanted e s = Some c"
  shows "c \<in> set (constraint_list s)" "\<not> defunct (constraint_at s c)"
  using assms by (auto simp: wanted_def find_Some_iff split: option.splits if_splits)

text \<open>After an update the active constraint is the one that is wanted.\<close>

lemma refocus_ok:
  assumes "con_ok s"
  shows "con_ok (pointer_constraints_update_focus e s)" "active_constraint (pointer_constraints_update_focus e s) = wanted e s"
proof -
  define t where "t = (case active_constraint s of None \<Rightarrow> s | Some c \<Rightarrow> if wanted e s \<noteq> Some c then constraint_deactivate c s else s)"
  have t: "con_ok t" "constraint_list t = constraint_list s" "active_constraint t = None \<or> active_constraint t = wanted e s"
    "wanted e s = Some c \<Longrightarrow> constraint_at t c = constraint_at s c" for c
    using deactivate_ok [OF assms] assms by (auto simp: t_def split: option.split)
  note k = con_okD [OF t(1)]
  have u: "pointer_constraints_update_focus e s =
    (case wanted e s of None \<Rightarrow> t
     | Some c \<Rightarrow> if cn_active (constraint_at t c) then t
        else cn_emit [if cn_locked (constraint_at t c) then Send_locked (cn_resource (constraint_at t c)) else Send_confined (cn_resource (constraint_at t c))]
          ((upd_constraint c (\<lambda>x. x\<lparr>cn_active := True\<rparr>) t)\<lparr>active_constraint := Some c\<rparr>))"
    by (simp add: pointer_constraints_update_focus_def t_def Let_def upd_constraint_def split: option.split)
  have "con_ok (pointer_constraints_update_focus e s) \<and> active_constraint (pointer_constraints_update_focus e s) = wanted e s"
  proof (cases "wanted e s")
    case None
    then show ?thesis using t(1,3) by (auto simp: u)
  next
    case (Some c)
    have c: "c \<in> set (constraint_list t)" "\<not> defunct (constraint_at t c)"
      using wanted_live [OF Some] t(4) [OF Some] by (simp_all add: t(2))
    show ?thesis
    proof (cases "cn_active (constraint_at t c)")
      case True
      then show ?thesis using Some t(1) k(2) [OF c(1)] by (simp add: u)
    next
      case False
      let ?u = "pointer_constraints_update_focus e s"
      have a: "active_constraint t = None" using k(2) [OF c(1)] False t(3) Some by auto
      have f: "constraint_list ?u = constraint_list t" "active_constraint ?u = Some c"
        "cn_log ?u = cn_log t @ [if cn_locked (constraint_at t c) then Send_locked (cn_resource (constraint_at t c))
          else Send_confined (cn_resource (constraint_at t c))]"
        "cn_resource (constraint_at ?u d) = cn_resource (constraint_at t d)" "cn_active (constraint_at ?u d) \<longleftrightarrow> d = c \<or> cn_active (constraint_at t d)"
        "oneshot (constraint_at ?u d) = oneshot (constraint_at t d)" "defunct (constraint_at ?u d) = defunct (constraint_at t d)"
        "cn_surface (constraint_at ?u d) = cn_surface (constraint_at t d)" "cn_pointer (constraint_at ?u d) = cn_pointer (constraint_at t d)"
        "cn_hooked (constraint_at ?u d) = cn_hooked (constraint_at t d)" for d
        using False by (auto simp: u Some upd_constraint_def cn_emit_def)
      have "con_ok ?u"
      proof (rule con_okI)
        show "distinct (constraint_list ?u)" using k(1) by (simp add: f)
        fix d assume "d \<in> set (constraint_list ?u)"
        then have d: "d \<in> set (constraint_list t)" by (simp add: f)
        have ce: "cn_resource (constraint_at t d) = cn_resource (constraint_at t c) \<longleftrightarrow> d = c" using k(9) [OF d c(1)] by auto
        show "cn_active (constraint_at ?u d) \<longleftrightarrow> active_constraint ?u = Some d" using k(2) [OF d] a by (auto simp: f)
        show "(cn_surface (constraint_at ?u d) = None \<longleftrightarrow> defunct (constraint_at ?u d)) \<and>
          (cn_pointer (constraint_at ?u d) \<longleftrightarrow> \<not> defunct (constraint_at ?u d)) \<and> (cn_hooked (constraint_at ?u d) \<longleftrightarrow> \<not> defunct (constraint_at ?u d))"
          using k(5-7) [OF d] by (simp add: f)
        show "starts (cn_resource (constraint_at ?u d)) (cn_log ?u) =
          ends (cn_resource (constraint_at ?u d)) (cn_log ?u) + (if cn_active (constraint_at ?u d) then 1 else 0)"
          using k(10) [OF d] ce False by (auto simp: f)
        show "ends (cn_resource (constraint_at ?u d)) (cn_log ?u) = 0" if "oneshot (constraint_at ?u d)" "\<not> defunct (constraint_at ?u d)"
          using k(11) [OF d] that by (auto simp: f)
        show "starts (cn_resource (constraint_at ?u d)) (cn_log ?u) \<le> 1" if "oneshot (constraint_at ?u d)"
          using k(10,11,12) [OF d] that ce c(2) False by (auto simp: f)
        fix b assume "b \<in> set (constraint_list ?u)"
        then have b: "b \<in> set (constraint_list t)" by (simp add: f)
        show "d = b" if "cn_surface (constraint_at ?u d) = cn_surface (constraint_at ?u b)" "cn_surface (constraint_at ?u d) \<noteq> None"
          using k(8) [OF d b] that by (simp add: f)
        show "d = b" if "cn_resource (constraint_at ?u d) = cn_resource (constraint_at ?u b)" using k(9) [OF d b] that by (simp add: f)
      qed (use c in \<open>simp add: f\<close>)
      then show ?thesis using Some by (simp add: f)
    qed
  qed
  then show "con_ok (pointer_constraints_update_focus e s)" "active_constraint (pointer_constraints_update_focus e s) = wanted e s" by simp_all
qed

lemma gone_ok:
  assumes "con_ok s" "c \<in> set (constraint_list s)"
  shows "con_ok (constraint_object_gone c s)"
proof (cases "active_constraint s = Some c")
  case True
  from deactivate_ok [OF assms(1) this] show ?thesis by (simp add: constraint_object_gone_def defunct_ok)
next
  case False
  then have "constraint_deactivate c s = s" using con_okD(2) [OF assms] by (simp add: constraint_deactivate_def)
  then show ?thesis using defunct_ok [OF assms(1) False] by (simp add: constraint_object_gone_def)
qed

lemma destroy_constraint_ok:
  assumes "con_ok s" "c \<in> set (constraint_list s)"
  shows "con_ok (destroy_constraint fo e c s)"
proof -
  note k = con_okD [OF assms(1)]
  define t where "t = (let s = upd_constraint c (\<lambda>x. x\<lparr>cn_active := False\<rparr>) (s\<lparr>constraint_list := remove1 c (constraint_list s)\<rparr>)
    in if active_constraint s = Some c then s\<lparr>active_constraint := None\<rparr> else s)"
  have f: "constraint_list t = remove1 c (constraint_list s)" "active_constraint t = (if active_constraint s = Some c then None else active_constraint s)"
    "cn_log t = cn_log s" "d \<noteq> c \<Longrightarrow> constraint_at t d = constraint_at s d" for d
    by (simp_all add: t_def Let_def upd_constraint_def)
  have m: "d \<in> set (remove1 c (constraint_list s)) \<longleftrightarrow> d \<in> set (constraint_list s) \<and> d \<noteq> c" for d using k(1) by auto
  have t: "con_ok t"
  proof (rule con_okI)
    show "distinct (constraint_list t)" using k(1) by (simp add: f)
    show "d \<in> set (constraint_list t) \<and> \<not> defunct (constraint_at t d)" if "active_constraint t = Some d" for d
      using that k(3,4) [of d] by (auto simp: f m split: if_splits)
    fix d assume "d \<in> set (constraint_list t)"
    then have d: "d \<in> set (constraint_list s)" "d \<noteq> c" by (simp_all add: f m)
    note e = f(4) [OF d(2)]
    show "cn_active (constraint_at t d) \<longleftrightarrow> active_constraint t = Some d" using k(2) [OF d(1)] d(2) by (auto simp: f(2) e)
    show "(cn_surface (constraint_at t d) = None \<longleftrightarrow> defunct (constraint_at t d)) \<and>
      (cn_pointer (constraint_at t d) \<longleftrightarrow> \<not> defunct (constraint_at t d)) \<and> (cn_hooked (constraint_at t d) \<longleftrightarrow> \<not> defunct (constraint_at t d))"
      using k(5-7) [OF d(1)] by (simp add: e)
    show "starts (cn_resource (constraint_at t d)) (cn_log t) =
      ends (cn_resource (constraint_at t d)) (cn_log t) + (if cn_active (constraint_at t d) then 1 else 0)"
      using k(10) [OF d(1)] by (simp add: e f(3))
    show "ends (cn_resource (constraint_at t d)) (cn_log t) = 0" if "oneshot (constraint_at t d)" "\<not> defunct (constraint_at t d)"
      using k(11) [OF d(1)] that by (simp add: e f(3))
    show "starts (cn_resource (constraint_at t d)) (cn_log t) \<le> 1" if "oneshot (constraint_at t d)"
      using k(12) [OF d(1)] that by (simp add: e f(3))
    fix b assume "b \<in> set (constraint_list t)"
    then have b: "b \<in> set (constraint_list s)" "b \<noteq> c" by (simp_all add: f m)
    note e' = f(4) [OF b(2)]
    show "d = b" if "cn_surface (constraint_at t d) = cn_surface (constraint_at t b)" "cn_surface (constraint_at t d) \<noteq> None"
      using k(8) [OF d(1) b(1)] that by (simp add: e e')
    show "d = b" if "cn_resource (constraint_at t d) = cn_resource (constraint_at t b)" using k(9) [OF d(1) b(1)] that by (simp add: e e')
  qed
  define u where "u = (if cn_active (constraint_at s c) \<and> cn_locked (constraint_at t c) then apply_position_hint fo e c t else t)"
  have "same_core t u" by (simp add: u_def same_core_hint same_core_refl)
  from same_core_ok [OF this t] have u: "con_ok u" .
  have "active_constraint u \<noteq> Some c" using \<open>same_core t u\<close> f(2) by (simp add: same_core_def)
  moreover have "destroy_constraint fo e c s = make_defunct c u"
    unfolding destroy_constraint_def Let_def u_def t_def by (rule refl)
  ultimately show ?thesis using defunct_ok [OF u] by simp
qed

text \<open>A new constraint, before its region is computed.\<close>

lemma new_constraint_ok:
  assumes "con_ok s" "c \<notin> set (constraint_list s)" "\<not> cn_active x" "cn_surface x = None \<longleftrightarrow> defunct x"
    "cn_pointer x \<longleftrightarrow> \<not> defunct x" "cn_hooked x \<longleftrightarrow> \<not> defunct x"
    "\<And>d. d \<in> set (constraint_list s) \<Longrightarrow> cn_surface (constraint_at s d) = cn_surface x \<Longrightarrow> cn_surface x = None"
    "\<And>d. d \<in> set (constraint_list s) \<Longrightarrow> cn_resource (constraint_at s d) \<noteq> cn_resource x"
    "starts (cn_resource x) (cn_log s) = 0" "ends (cn_resource x) (cn_log s) = 0"
  shows "con_ok (s\<lparr>constraint_at := (constraint_at s)(c := x), constraint_list := c # constraint_list s\<rparr>)" (is "con_ok ?t")
proof (rule con_okI)
  note k = con_okD [OF assms(1)]
  have f: "constraint_list ?t = c # constraint_list s" "active_constraint ?t = active_constraint s" "cn_log ?t = cn_log s"
    "constraint_at ?t d = (if d = c then x else constraint_at s d)" for d by simp_all
  have na: "active_constraint s \<noteq> Some c" using k(3) assms(2) by blast
  show "distinct (constraint_list ?t)" using k(1) assms(2) by simp
  show "d \<in> set (constraint_list ?t) \<and> \<not> defunct (constraint_at ?t d)" if "active_constraint ?t = Some d" for d
    using that k(3,4) [of d] assms(2) by auto
  fix d assume d: "d \<in> set (constraint_list ?t)"
  show "cn_active (constraint_at ?t d) \<longleftrightarrow> active_constraint ?t = Some d" using k(2) d na assms(2,3) by auto
  show "(cn_surface (constraint_at ?t d) = None \<longleftrightarrow> defunct (constraint_at ?t d)) \<and>
    (cn_pointer (constraint_at ?t d) \<longleftrightarrow> \<not> defunct (constraint_at ?t d)) \<and> (cn_hooked (constraint_at ?t d) \<longleftrightarrow> \<not> defunct (constraint_at ?t d))"
    using k(5-7) d assms(4-6) by auto
  show "starts (cn_resource (constraint_at ?t d)) (cn_log ?t) =
    ends (cn_resource (constraint_at ?t d)) (cn_log ?t) + (if cn_active (constraint_at ?t d) then 1 else 0)"
    using k(10) d assms(3,9,10) by auto
  show "ends (cn_resource (constraint_at ?t d)) (cn_log ?t) = 0" if "oneshot (constraint_at ?t d)" "\<not> defunct (constraint_at ?t d)"
    using k(11) d that assms(10) by (auto split: if_splits)
  show "starts (cn_resource (constraint_at ?t d)) (cn_log ?t) \<le> 1" if "oneshot (constraint_at ?t d)"
    using k(12) d that assms(9) by (auto split: if_splits)
  fix b assume b: "b \<in> set (constraint_list ?t)"
  show "d = b" if "cn_surface (constraint_at ?t d) = cn_surface (constraint_at ?t b)" "cn_surface (constraint_at ?t d) \<noteq> None"
  proof (cases "d = c \<or> b = c")
    case True
    then show ?thesis using assms(7) [of b] assms(7) [of d] b d that unfolding f by (metis set_ConsD)
  next
    case False
    then show ?thesis using k(8) [of d b] b d that unfolding f by simp
  qed
  show "d = b" if "cn_resource (constraint_at ?t d) = cn_resource (constraint_at ?t b)"
  proof (cases "d = c \<or> b = c")
    case True
    then show ?thesis using assms(8) [of b] assms(8) [of d] b d that unfolding f by (metis set_ConsD)
  next
    case False
    then show ?thesis using k(9) [of d b] b d that unfolding f by simp
  qed
qed

lemma upd_upd: "upd_constraint c f (s\<lparr>constraint_at := (constraint_at s)(c := x), constraint_list := l\<rparr>) =
  s\<lparr>constraint_at := (constraint_at s)(c := f x), constraint_list := l\<rparr>"
  by (simp add: upd_constraint_def)

lemma constraint_new_ok:
  assumes "con_ok s" "\<And>x. c = Some x \<Longrightarrow> x \<notin> set (constraint_list s)"
    "\<And>x d. r = Some x \<Longrightarrow> d \<in> set (constraint_list s) \<Longrightarrow> cn_resource (constraint_at s d) \<noteq> x"
    "\<And>x. r = Some x \<Longrightarrow> starts x (cn_log s) = 0 \<and> ends x (cn_log s) = 0"
  shows "con_ok (constraint_new e m c r surface pointer region lifetime locked s)"
proof -
  have em: "con_ok (cn_emit [ev] s)" if "ev \<in> {Bad_lifetime m, Already_constrained m, Constraint_no_memory m}" for ev
  proof -
    have t: "starts q (cn_log s @ [ev]) = starts q (cn_log s)" "ends q (cn_log s @ [ev]) = ends q (cn_log s)" for q
      using that by (auto simp: starts_def ends_def)
    have e: "constraint_list (cn_emit [ev] s) = constraint_list s" "active_constraint (cn_emit [ev] s) = active_constraint s"
      "constraint_at (cn_emit [ev] s) = constraint_at s" "cn_log (cn_emit [ev] s) = cn_log s @ [ev]" by (simp_all add: cn_emit_def)
    show ?thesis using assms(1) unfolding con_ok_def e t .
  qed
  show ?thesis
  proof (cases "lifetime = None \<or> (\<exists>o' \<in> set (constraint_list s). \<not> defunct (constraint_at s o') \<and>
      cn_surface (constraint_at s o') = surface \<and> cn_pointer (constraint_at s o') = pointer) \<or> c = None \<or> r = None")
    case True
    then show ?thesis using em by (auto simp: constraint_new_def split: option.split)
  next
    case False
    then obtain once x q where x: "lifetime = Some once" "c = Some x" "r = Some q" by auto
    note k = con_okD [OF assms(1)]
    define z where "z = \<lparr>cn_resource = q, cn_surface = surface, cn_pointer = pointer, cn_hooked = False, cn_locked = locked,
      cn_active = False, defunct = False, oneshot = once, cn_region = (case region of None \<Rightarrow> [] | Some b \<Rightarrow> b), effective = [],
      has_region = region \<noteq> None, hint = (0, 0), has_hint = False, cn_pending = \<lparr>pc_region = [], region_set = False,
      pc_has_region = False, hint_set = False, pc_hint = (0, 0)\<rparr>\<rparr>"
    let ?s = "\<lambda>x'. s\<lparr>constraint_at := (constraint_at s)(x := x'), constraint_list := x # constraint_list s\<rparr>"
    have n: "constraint_new e m c r surface pointer region lifetime locked s =
      (if surface = None \<or> \<not> pointer then make_defunct x (?s z)
       else pointer_constraints_update_focus e (update_region e x (upd_constraint x (\<lambda>x. x\<lparr>cn_hooked := True\<rparr>) (?s z))))"
    proof -
      have ex: "(\<exists>o' \<in> set (constraint_list s). \<not> defunct (constraint_at s o') \<and>
        cn_surface (constraint_at s o') = surface \<and> cn_pointer (constraint_at s o') = pointer) = False" using False by blast
      show ?thesis unfolding constraint_new_def x z_def Let_def by (simp only: option.case prod.case ex if_False)
    qed
    show ?thesis
    proof (cases "surface = None \<or> \<not> pointer")
      case True
      have "con_ok (?s (z\<lparr>defunct := True, cn_hooked := False, cn_surface := None, cn_pointer := False\<rparr>))"
        by (rule new_constraint_ok [OF assms(1)]) (use assms(2-4) x in \<open>simp_all add: z_def\<close>)
      then show ?thesis unfolding n using True by (simp add: make_defunct_def upd_upd)
    next
      case live: False
      have uniq: "cn_surface (constraint_at s d) \<noteq> surface" if "d \<in> set (constraint_list s)" for d
        using False live that k(5,6) [OF that] by auto
      have "con_ok (?s (z\<lparr>cn_hooked := True\<rparr>))"
        by (rule new_constraint_ok [OF assms(1)]) (use assms(2-4) x live uniq in \<open>simp_all add: z_def\<close>)
      from refocus_ok(1) [OF same_core_ok [OF update_region_core this]] show ?thesis
        unfolding n if_not_P [OF live] upd_upd by this
    qed
  qed
qed

lemma commit_core:
  "\<exists>t. constraint_surface_commit e c s = pointer_constraints_update_focus e t \<and> same_core s t \<and>
     pt_x t = pt_x s \<and> pt_y t = pt_y s \<and> pt_region t = pt_region s"
proof -
  define u where "u = upd_constraint c (\<lambda>x. let p = cn_pending x;
      x = (if region_set p then x\<lparr>cn_region := pc_region p, has_region := pc_has_region p, cn_pending := (cn_pending x)\<lparr>region_set := False\<rparr>\<rparr> else x)
    in if hint_set p then x\<lparr>hint := pc_hint p, has_hint := True, cn_pending := (cn_pending x)\<lparr>hint_set := False\<rparr>\<rparr> else x) s"
  have "same_core s u" unfolding u_def by (rule same_core_upd) (simp_all add: Let_def)
  then have "same_core s (update_region e c u)" using update_region_core same_core_trans by blast
  moreover have "pt_x (update_region e c u) = pt_x s \<and> pt_y (update_region e c u) = pt_y s \<and> pt_region (update_region e c u) = pt_region s"
    by (simp add: update_region_def u_def upd_constraint_def Let_def split: option.split prod.split)
  moreover have "constraint_surface_commit e c s = pointer_constraints_update_focus e (update_region e c u)"
    by (simp add: constraint_surface_commit_def u_def)
  ultimately show ?thesis by blast
qed

section \<open>Every event\<close>

text \<open>\<open>region_fits\<close>: non-empty rectangles whose coordinates the fixed-point format can hold.\<close>

definition fits :: "int \<Rightarrow> bool" where
  "fits i \<longleftrightarrow> - 8388608 \<le> i \<and> i < 8388608"

definition region_fits :: "box list \<Rightarrow> bool" where
  "region_fits bs \<longleftrightarrow> (\<forall>b \<in> set bs. x1 b < x2 b \<and> y1 b < y2 b \<and> fits (x1 b) \<and> fits (x2 b - 1) \<and> fits (y1 b) \<and> fits (y2 b - 1))"

text \<open>What \<open>wl_fixed_to_int\<close> and \<open>wl_fixed_from_int\<close> promise: a whole number that fits is kept.\<close>

definition fixed_law :: "fixed_ops \<Rightarrow> bool" where
  "fixed_law fo \<longleftrightarrow> (\<forall>i. fits i \<longrightarrow> fst fo (snd fo i) = i)"

definition on_screen :: "fixed_ops \<Rightarrow> 'a pointer_base_scheme \<Rightarrow> bool" where
  "on_screen fo p \<longleftrightarrow> region_fits (pt_region p) \<and> box_at (pt_region p) (fst fo (pt_x p)) (fst fo (pt_y p)) \<noteq> None"

lemma box_at_some: "box_at bs x y \<noteq> None \<longleftrightarrow> (\<exists>b \<in> set bs. in_box x y b)"
  by (auto simp: box_at_def find_None_iff)

lemma clip_on_screen:
  assumes "fixed_law fo" "on_screen fo p"
  shows "on_screen fo (clip_position fo x y p)"
proof (cases "box_at (pt_region p) (fst fo x) (fst fo y)")
  case (Some b)
  then show ?thesis using assms(2) by (simp add: clip_position_def on_screen_def)
next
  case None
  obtain b where b: "box_at (pt_region p) (fst fo (pt_x p)) (fst fo (pt_y p)) = Some b" using assms(2) by (auto simp: on_screen_def)
  then have "b \<in> set (pt_region p)" by (auto simp: box_at_def find_Some_iff)
  then have f: "x1 b < x2 b" "y1 b < y2 b" "fits (x1 b)" "fits (x2 b - 1)" "fits (y1 b)" "fits (y2 b - 1)"
    using assms(2) by (simp_all add: on_screen_def region_fits_def)
  let ?x = "max (min (fst fo x) (x2 b - 1)) (x1 b)" and ?y = "max (min (fst fo y) (y2 b - 1)) (y1 b)"
  have "fits ?x" "fits ?y" using f by (auto simp: fits_def)
  then have "fst fo (snd fo ?x) = ?x" "fst fo (snd fo ?y) = ?y" using assms(1) by (simp_all add: fixed_law_def)
  moreover have "in_box ?x ?y b" using f(1,2) by (auto simp: in_box_def)
  ultimately have "box_at (pt_region p) (fst fo (snd fo ?x)) (fst fo (snd fo ?y)) \<noteq> None"
    using \<open>b \<in> set (pt_region p)\<close> unfolding box_at_some by auto
  then show ?thesis using assms(2) None b by (simp add: clip_position_def on_screen_def)
qed

lemma on_screen_cong: "pt_x q = pt_x p \<Longrightarrow> pt_y q = pt_y p \<Longrightarrow> pt_region q = pt_region p \<Longrightarrow> on_screen fo q \<longleftrightarrow> on_screen fo p"
  by (simp add: on_screen_def)

lemma still [simp]:
  "pt_x (make_defunct c s) = pt_x s" "pt_y (make_defunct c s) = pt_y s" "pt_region (make_defunct c s) = pt_region s"
  "pt_x (constraint_deactivate c s) = pt_x s" "pt_y (constraint_deactivate c s) = pt_y s" "pt_region (constraint_deactivate c s) = pt_region s"
  "pt_x (pointer_constraints_update_focus e s) = pt_x s" "pt_y (pointer_constraints_update_focus e s) = pt_y s"
  "pt_region (pointer_constraints_update_focus e s) = pt_region s"
  "pt_x (update_region e c s) = pt_x s" "pt_y (update_region e c s) = pt_y s" "pt_region (update_region e c s) = pt_region s"
  "pt_x (constraint_object_gone c s) = pt_x s" "pt_y (constraint_object_gone c s) = pt_y s" "pt_region (constraint_object_gone c s) = pt_region s"
proof -
  have m: "pt_x (make_defunct c s) = pt_x s \<and> pt_y (make_defunct c s) = pt_y s \<and> pt_region (make_defunct c s) = pt_region s" for c s
    by (simp add: make_defunct_def upd_constraint_def)
  have d: "pt_x (constraint_deactivate c s) = pt_x s \<and> pt_y (constraint_deactivate c s) = pt_y s \<and> pt_region (constraint_deactivate c s) = pt_region s" for c s
    by (simp add: constraint_deactivate_def upd_constraint_def cn_emit_def m Let_def)
  have u: "pt_x (pointer_constraints_update_focus e s) = pt_x s \<and> pt_y (pointer_constraints_update_focus e s) = pt_y s \<and>
    pt_region (pointer_constraints_update_focus e s) = pt_region s"
    by (simp add: pointer_constraints_update_focus_def upd_constraint_def cn_emit_def d Let_def split: option.split)
  have r: "pt_x (update_region e c s) = pt_x s \<and> pt_y (update_region e c s) = pt_y s \<and> pt_region (update_region e c s) = pt_region s"
    by (simp add: update_region_def upd_constraint_def Let_def split: option.split prod.split)
  show "pt_x (make_defunct c s) = pt_x s" "pt_y (make_defunct c s) = pt_y s" "pt_region (make_defunct c s) = pt_region s"
  "pt_x (constraint_deactivate c s) = pt_x s" "pt_y (constraint_deactivate c s) = pt_y s" "pt_region (constraint_deactivate c s) = pt_region s"
  "pt_x (pointer_constraints_update_focus e s) = pt_x s" "pt_y (pointer_constraints_update_focus e s) = pt_y s"
  "pt_region (pointer_constraints_update_focus e s) = pt_region s"
  "pt_x (update_region e c s) = pt_x s" "pt_y (update_region e c s) = pt_y s" "pt_region (update_region e c s) = pt_region s"
  "pt_x (constraint_object_gone c s) = pt_x s" "pt_y (constraint_object_gone c s) = pt_y s" "pt_region (constraint_object_gone c s) = pt_region s"
    by (simp_all add: m d u r constraint_object_gone_def)
qed

text \<open>
  The state of the pointer with its constraints, without more.  A request comes on a constraint that is in the list,
  a listener runs only while it is hooked, and new addresses and resources are new.
\<close>

inductive con_step :: "fixed_ops \<Rightarrow> constraints_base \<Rightarrow> constraints_base \<Rightarrow> bool" for fo where
  moves: "con_step fo s (snd (move_pointer fo nearer e x y s))"
| focuses: "con_step fo s (pointer_constraints_update_focus e (s\<lparr>pt_focus := f\<rparr>))"
| session: "con_step fo s (pointer_constraints_update_focus e (s\<lparr>swc_active := b\<rparr>))"
| makes: "(\<And>x. c = Some x \<Longrightarrow> x \<notin> set (constraint_list s)) \<Longrightarrow>
    (\<And>x d. r = Some x \<Longrightarrow> d \<in> set (constraint_list s) \<Longrightarrow> cn_resource (constraint_at s d) \<noteq> x) \<Longrightarrow>
    (\<And>x. r = Some x \<Longrightarrow> starts x (cn_log s) = 0 \<and> ends x (cn_log s) = 0) \<Longrightarrow>
    con_step fo s (constraint_new e m c r surface pointer region lifetime locked s)"
| destroys: "c \<in> set (constraint_list s) \<Longrightarrow> con_step fo s (destroy_constraint fo e c s)"
| gone: "c \<in> set (constraint_list s) \<Longrightarrow> cn_hooked (constraint_at s c) \<Longrightarrow> con_step fo s (constraint_object_gone c s)"
| commits: "c \<in> set (constraint_list s) \<Longrightarrow> cn_hooked (constraint_at s c) \<Longrightarrow> con_step fo s (constraint_surface_commit e c s)"
| sets_region: "c \<in> set (constraint_list s) \<Longrightarrow> con_step fo s (constraint_set_region c reg s)"
| hints: "c \<in> set (constraint_list s) \<Longrightarrow> con_step fo s (set_cursor_position_hint c x y s)"
| screens: "region_fits (join ss) \<Longrightarrow> ss \<noteq> [] \<Longrightarrow>
    box_at (join ss) (fst fo (snd fo (s32 (fst (hd ss) + cdiv (s32 (fst (snd (snd (hd ss))))) 2))))
      (fst fo (snd fo (s32 (fst (snd (hd ss)) + cdiv (s32 (snd (snd (snd (hd ss))))) 2)))) \<noteq> None \<Longrightarrow>
    con_step fo s (screens_update_pointer_region fo join ss s)"

lemma screens_on_screen:
  assumes "fixed_law fo" "region_fits (join ss)" "ss \<noteq> []"
    "box_at (join ss) (fst fo (snd fo (s32 (fst (hd ss) + cdiv (s32 (fst (snd (snd (hd ss))))) 2))))
      (fst fo (snd fo (s32 (fst (snd (hd ss)) + cdiv (s32 (snd (snd (snd (hd ss))))) 2)))) \<noteq> None"
  shows "on_screen fo (screens_update_pointer_region fo join ss p)"
    "same_core s (screens_update_pointer_region fo join ss s)"
proof -
  obtain gx gy w h rest where ss: "ss = (gx, gy, w, h) # rest" using assms(3) by (metis list.exhaust prod_cases4)
  define q where "q = (if box_at (join ss) (fst fo (pt_x p)) (fst fo (pt_y p)) = None
    then p\<lparr>pt_x := snd fo (s32 (gx + cdiv (s32 w) 2)), pt_y := snd fo (s32 (gy + cdiv (s32 h) 2))\<rparr> else p)"
  have "on_screen fo (q\<lparr>pt_region := join ss\<rparr>)"
    using assms(2,4) by (auto simp: q_def on_screen_def ss)
  then have s: "on_screen fo (pointer_set_region fo (join ss) q)" unfolding pointer_set_region_def by (rule clip_on_screen [OF assms(1)])
  have "screens_update_pointer_region fo join ss p =
    pointer_warp fo (pt_x (pointer_set_region fo (join ss) q)) (pt_y (pointer_set_region fo (join ss) q)) (pointer_set_region fo (join ss) q)"
    by (simp add: screens_update_pointer_region_def ss q_def Let_def)
  then show "on_screen fo (screens_update_pointer_region fo join ss p)"
    using clip_on_screen [OF assms(1) s] by (simp add: pointer_warp_def)
  have c: "same_core a (clip_position fo x y b)" if "same_core a b" for a b :: "'b constraints_base_scheme" and x y
    using that by (rule same_core_trans [OF _ same_core_clip])
  have b: "same_core s (s\<lparr>pt_x := x, pt_y := y, pt_region := z\<rparr>)" "same_core s (s\<lparr>pt_region := z\<rparr>)" for x y z by (simp_all add: same_core_def)
  show "same_core s (screens_update_pointer_region fo join ss s)"
    by (simp add: screens_update_pointer_region_def ss Let_def pointer_warp_def pointer_set_region_def c b)
qed

lemma con_step_ok:
  assumes "fixed_law fo" "con_step fo s s'" "con_ok s"
  shows "con_ok s'"
  using assms(2,3)
proof (cases rule: con_step.cases)
  case (moves nearer e x y)
  define u where "u = pointer_constraints_update_focus e s"
  have u: "con_ok u" using refocus_ok(1) [OF assms(3)] by (simp add: u_def)
  have "same_core u (snd (move_pointer fo nearer e x y s))"
    by (simp add: move_pointer_def u_def [symmetric] Let_def same_core_refl same_core_clip split: prod.split)
  from same_core_ok [OF this u] show ?thesis using moves by simp
next
  case (focuses e f)
  have "same_core s (s\<lparr>pt_focus := f\<rparr>)" by (simp add: same_core_def)
  from refocus_ok(1) [OF same_core_ok [OF this assms(3)]] show ?thesis using focuses by simp
next
  case (session e b)
  have "same_core s (s\<lparr>swc_active := b\<rparr>)" by (simp add: same_core_def)
  from refocus_ok(1) [OF same_core_ok [OF this assms(3)]] show ?thesis using session by simp
next
  case (makes c r e m surface pointer region lifetime locked)
  from constraint_new_ok [OF assms(3) makes(2-4)] show ?thesis using makes(1) by simp
next
  case (destroys c e)
  then show ?thesis using destroy_constraint_ok [OF assms(3)] by simp
next
  case (gone c)
  then show ?thesis using gone_ok [OF assms(3)] by simp
next
  case (commits c e)
  obtain t where "constraint_surface_commit e c s = pointer_constraints_update_focus e t" "same_core s t"
    using commit_core by blast
  from this(1) refocus_ok(1) [OF same_core_ok [OF this(2) assms(3)]] show ?thesis using commits by simp
next
  case (sets_region c reg)
  have "same_core s (constraint_set_region c reg s)"
    by (simp add: constraint_set_region_def same_core_refl same_core_upd)
  from same_core_ok [OF this assms(3)] show ?thesis using sets_region by simp
next
  case (hints c x y)
  have "same_core s (set_cursor_position_hint c x y s)"
    by (simp add: set_cursor_position_hint_def same_core_refl same_core_upd)
  from same_core_ok [OF this assms(3)] show ?thesis using hints by simp
next
  case (screens join ss)
  from same_core_ok [OF screens_on_screen(2) [where join = join and ss = ss, OF assms(1) screens(2,3,4)] assms(3)] show ?thesis using screens(1) by simp
qed

lemma con_step_screen:
  assumes "fixed_law fo" "con_step fo s s'" "on_screen fo s"
  shows "on_screen fo s'"
  using assms(2,3)
proof (cases rule: con_step.cases)
  case (moves nearer e x y)
  have "on_screen fo (pointer_constraints_update_focus e s)" using assms(3) by (simp add: on_screen_def)
  then have "on_screen fo (snd (move_pointer fo nearer e x y s))"
    by (simp add: move_pointer_def Let_def clip_on_screen [OF assms(1)] split: prod.split)
  then show ?thesis using moves by simp
next
  case (makes c r e m surface pointer region lifetime locked)
  have "pt_x s' = pt_x s \<and> pt_y s' = pt_y s \<and> pt_region s' = pt_region s"
    unfolding makes(1) constraint_new_def
    by (simp add: cn_emit_def upd_constraint_def Let_def split: option.split)
  then show ?thesis using on_screen_cong assms(3) by metis
next
  case (destroys c e)
  have "on_screen fo (apply_position_hint fo e c t)" if "on_screen fo t" for t :: constraints_base
    using that by (simp add: apply_position_hint_def pointer_warp_def Let_def clip_on_screen [OF assms(1)] split: option.split)
  moreover have "on_screen fo (make_defunct c t) \<longleftrightarrow> on_screen fo t" for t :: constraints_base by (rule on_screen_cong) simp_all
  ultimately show ?thesis using assms(3) destroys(1)
    by (simp add: destroy_constraint_def Let_def) (simp add: on_screen_def upd_constraint_def)
next
  case (gone c)
  have "on_screen fo (constraint_object_gone c s) \<longleftrightarrow> on_screen fo s" by (rule on_screen_cong) simp_all
  then show ?thesis using gone assms(3) by simp
next
  case (commits c e)
  obtain t where t: "constraint_surface_commit e c s = pointer_constraints_update_focus e t"
    "pt_x t = pt_x s" "pt_y t = pt_y s" "pt_region t = pt_region s"
    using commit_core by blast
  have "on_screen fo (constraint_surface_commit e c s) \<longleftrightarrow> on_screen fo s" by (rule on_screen_cong) (simp_all add: t)
  then show ?thesis using commits assms(3) by simp
next
  case (screens join ss)
  from screens_on_screen(1) [where join = join and ss = ss, OF assms(1) screens(2,3,4)] show ?thesis using screens(1) by simp
qed (simp_all add: on_screen_def constraint_set_region_def set_cursor_position_hint_def upd_constraint_def)

inductive con_reachable :: "fixed_ops \<Rightarrow> constraints_base \<Rightarrow> bool" for fo where
  con_start: "on_screen fo s \<Longrightarrow> constraint_list s = [] \<Longrightarrow> active_constraint s = None \<Longrightarrow> con_reachable fo s"
| con_next: "con_reachable fo s \<Longrightarrow> con_step fo s s' \<Longrightarrow> con_reachable fo s'"

lemma con_reachable_ok:
  assumes "fixed_law fo" "con_reachable fo s"
  shows "con_ok s \<and> on_screen fo s"
  using assms(2)
proof (induction rule: con_reachable.induct)
  case (con_start s)
  then show ?case by (simp add: con_ok_def)
qed (use con_step_ok [OF assms(1)] con_step_screen [OF assms(1)] in blast)

text \<open>C31: The pointer never leaves the screens: whatever motions, warps of released locks and changes of the screens
  come, its position is in the region of the screens, as long as the first screen has its own middle.\<close>

theorem pointer_stays_on_screen:
  assumes "fixed_law fo" "con_reachable fo s"
  shows "\<exists>b \<in> set (pt_region s). in_box (fst fo (pt_x s)) (fst fo (pt_y s)) b"
  using con_reachable_ok [OF assms] box_at_some unfolding on_screen_def by blast

text \<open>C32: At most one constraint is active, and it is the one the server holds for active; it is not defunct, no surface
  has two live constraints, each client has been told of as many starts as ends, one more while its constraint is
  active, and a one-shot constraint starts once at most.\<close>

theorem one_constraint_active:
  assumes "fixed_law fo" "con_reachable fo s"
    and "c \<in> set (constraint_list s)" "d \<in> set (constraint_list s)"
  shows "(cn_active (constraint_at s c) \<longleftrightarrow> active_constraint s = Some c) \<and>
    (cn_active (constraint_at s c) \<longrightarrow> \<not> defunct (constraint_at s c)) \<and>
    (cn_surface (constraint_at s c) = cn_surface (constraint_at s d) \<and> \<not> defunct (constraint_at s c) \<longrightarrow> c = d) \<and>
    starts (cn_resource (constraint_at s c)) (cn_log s) =
      ends (cn_resource (constraint_at s c)) (cn_log s) + (if cn_active (constraint_at s c) then 1 else 0) \<and>
    (oneshot (constraint_at s c) \<longrightarrow> starts (cn_resource (constraint_at s c)) (cn_log s) \<le> 1)"
proof -
  have ok: "con_ok s" using con_reachable_ok [OF assms(1,2)] by simp
  note k = con_okD [OF ok]
  show ?thesis
    using k(2) [OF assms(3)] k(4) [of c] k(5) [OF assms(3)] k(8) [OF assms(3,4)] k(10) [OF assms(3)] k(12) [OF assms(3)] by blast
qed

lemma contains_point:
  assumes "contains_fixed r x y"
  shows "axis_point r True y x" "axis_point r False x y" "0 \<le> x" "0 \<le> y"
proof -
  obtain b where b: "b \<in> set r" "in_box (x div 256) (y div 256) b"
    using assms box_at_some [of r "x div 256" "y div 256"] by (auto simp: contains_fixed_def)
  then have "x1 b * 256 \<le> x" "x < x2 b * 256" "y1 b * 256 \<le> y" "y < y2 b * 256"
    by (auto simp: in_box_def)
  then show "axis_point r True y x" "axis_point r False x y" using b(1) by (auto simp: axis_point_def)
  show "0 \<le> x" "0 \<le> y" using assms by (simp_all add: contains_fixed_def)
qed

lemma axis_swap: "axis_point r True y x \<longleftrightarrow> axis_point r False x y"
  by (auto simp: axis_point_def)

text \<open>Both orders of the axes end inside the region.\<close>

lemma confine_inside:
  assumes "banded r" "\<forall>b \<in> set r. 0 \<le> x1 b \<and> 0 \<le> y1 b" "axis_point r True sy sx"
  shows "axis_point r True (confine_axis r sy (confine_axis r sx sy tx True) ty False) (confine_axis r sx sy tx True)"
    "axis_point r True (confine_axis r sy sx ty False) (confine_axis r sx (confine_axis r sy sx ty False) tx True)"
proof -
  have e: "P r'" if "slides P a t r'" for P a t r'
    using that unfolding slides_def by (metis min.cobounded2 max.cobounded2)
  note far = confine_axis_spec [OF assms(1,2)]
  have 1: "axis_point r True sy (confine_axis r sx sy tx True)" using far [of True sy sx tx] assms(3) e by auto
  then have "axis_point r False (confine_axis r sx sy tx True) sy" by (simp add: axis_swap)
  then have "axis_point r False (confine_axis r sx sy tx True) (confine_axis r sy (confine_axis r sx sy tx True) ty False)"
    using far [of False "confine_axis r sx sy tx True" sy ty] e by auto
  then show "axis_point r True (confine_axis r sy (confine_axis r sx sy tx True) ty False) (confine_axis r sx sy tx True)"
    by (simp add: axis_swap)
  have "axis_point r False sx sy" using assms(3) by (simp add: axis_swap)
  then have "axis_point r False sx (confine_axis r sy sx ty False)" using far [of False sx sy ty] e by auto
  then have "axis_point r True (confine_axis r sy sx ty False) sx" by (simp add: axis_swap)
  then show "axis_point r True (confine_axis r sy sx ty False) (confine_axis r sx (confine_axis r sy sx ty False) tx True)"
    using far [of True "confine_axis r sy sx ty False" sx tx] e by auto
qed


text \<open>A locked pointer stays where it is and no handler hears of the motion; afterwards the constraint in force is the
  one the focused view wants.\<close>

theorem locked_pointer_still:
  assumes "fixed_law fo" "con_reachable fo s" "wanted e s = Some c" "cn_locked (constraint_at s c)"
  shows "fst (move_pointer fo nearer e x y s) = False \<and> pt_x (snd (move_pointer fo nearer e x y s)) = pt_x s \<and>
    pt_y (snd (move_pointer fo nearer e x y s)) = pt_y s \<and>
    active_constraint (snd (move_pointer fo nearer e x y s)) = Some c"
proof -
  have ok: "con_ok s" using con_reachable_ok [OF assms(1,2)] by simp
  note u = refocus_ok [OF ok, of e]
  have "cn_locked (constraint_at (pointer_constraints_update_focus e s) d) = cn_locked (constraint_at s d)" for d
    by (simp add: pointer_constraints_update_focus_def constraint_deactivate_def make_defunct_def upd_constraint_def cn_emit_def Let_def
        split: option.split)
  then have "pointer_constraints_pointer_locked (pointer_constraints_update_focus e s)"
    using u(2) assms(3,4) by (simp add: pointer_constraints_pointer_locked_def)
  then show ?thesis using u(2) assms(3) by (simp add: move_pointer_def Let_def)
qed

section \<open>A pointer in a window\<close>

text \<open>One screen of 100 by 100 pixels, and view 4 with surface 2 on it, which shows a buffer of 50 by 40 pixels at (10, 10).\<close>

definition demo_fixed :: fixed_ops where
  "demo_fixed = (\<lambda>x. cdiv x 256, \<lambda>i. i * 256)"

lemma demo_fixed_law: "fixed_law demo_fixed"
  by (auto simp: fixed_law_def demo_fixed_def cdiv_def abs_mult sgn_mult sgn_if)

definition one_box :: "int \<Rightarrow> int \<Rightarrow> box list" where
  "one_box w h = [\<lparr>x1 = 0, y1 = 0, x2 = w, y2 = h\<rparr>]"

definition demo_view :: constraint_env where
  "demo_view = \<lparr>view_visible = \<lambda>_. True, surface_of_view = \<lambda>_. 2, geometry_of = \<lambda>_. (10, 10), offset_of = \<lambda>_. (0, 0),
     input_of = \<lambda>_. one_box 50 40, buffer_of = \<lambda>_. Some (50, 40), intersect = \<lambda>a b. b\<rparr>"

definition demo_pointer :: constraints_base where
  "demo_pointer = \<lparr>pt_focus = (input_focus_initialize (\<lambda>_. 0) (\<lambda>_. 0))\<lparr>fc_view := Some 4\<rparr>, pt_x = 20 * 256, pt_y = 20 * 256,
     pt_region = one_box 100 100, constraint_list = [], constraint_at = \<lambda>_. undefined, active_constraint = None,
     swc_active = True, cn_log = []\<rparr>"

definition demo_constrained :: "bool \<Rightarrow> constraints_base" where
  "demo_constrained locked = constraint_new demo_view 3 (Some 0) (Some 5) (Some 2) True None (Some False) locked demo_pointer"

lemma demo_constrained_reachable: "con_reachable demo_fixed (demo_constrained locked)"
proof -
  have "on_screen demo_fixed demo_pointer"
    by (simp add: on_screen_def demo_pointer_def one_box_def region_fits_def fits_def box_at_def in_box_def demo_fixed_def cdiv_def)
  then have "con_reachable demo_fixed demo_pointer" by (rule con_start) (simp_all add: demo_pointer_def)
  then show ?thesis unfolding demo_constrained_def
    by (rule con_next) (rule con_step.makes, simp_all add: demo_pointer_def starts_def ends_def)
qed

lemma demo_constrained_facts:
  "constraint_list (demo_constrained l) = [0]" "active_constraint (demo_constrained l) = Some 0"
  "cn_locked (constraint_at (demo_constrained l) 0) = l" "cn_pointer (constraint_at (demo_constrained l) 0)"
  "constraint_view demo_view 0 (demo_constrained l) = Some 4" "effective (constraint_at (demo_constrained l) 0) = one_box 50 40"
  "cn_active (constraint_at (demo_constrained l) 0)" "pt_x (demo_constrained l) = 5120" "pt_y (demo_constrained l) = 5120"
  "wanted demo_view (demo_constrained l) = Some 0" "fixed_origin demo_view 4 = (2560, 2560)"
  by (simp_all add: demo_constrained_def constraint_new_def demo_pointer_def demo_view_def update_region_def upd_constraint_def
    pointer_constraints_update_focus_def wanted_def contains_fixed_def box_at_def in_box_def one_box_def fixed_origin_def
    cn_emit_def constraint_view_def input_focus_initialize_def Let_def)

lemma pointer_stays_on_screen_witness:
  "\<exists>b \<in> set (pt_region (demo_constrained True)). in_box (fst demo_fixed (pt_x (demo_constrained True))) (fst demo_fixed (pt_y (demo_constrained True))) b"
  by (rule pointer_stays_on_screen [OF demo_fixed_law demo_constrained_reachable])

lemma one_constraint_active_witness:
  "starts (cn_resource (constraint_at (demo_constrained True) 0)) (cn_log (demo_constrained True)) =
    ends (cn_resource (constraint_at (demo_constrained True) 0)) (cn_log (demo_constrained True)) + 1"
  using one_constraint_active [OF demo_fixed_law demo_constrained_reachable, of 0 True 0] by (simp add: demo_constrained_facts)

lemma locked_pointer_still_witness:
  "fst (move_pointer demo_fixed (\<lambda>_ _. False) demo_view 0 0 (demo_constrained True)) = False \<and>
   pt_x (snd (move_pointer demo_fixed (\<lambda>_ _. False) demo_view 0 0 (demo_constrained True))) = 5120"
  using locked_pointer_still [OF demo_fixed_law demo_constrained_reachable demo_constrained_facts(10), of True "\<lambda>_ _. False" 0 0]
  by (simp add: demo_constrained_facts)


end
