(* ===== verification/Pointer_Cursor.thy ===== *)
theory Pointer_Cursor
  imports Pointer_Motion
begin

text \<open>
  The pointer of the seat (\<open>libswc/pointer.c\<close>): its state, its image and its focus.

  A buffer of wld is a number; \<open>buffer_refs\<close> counts the references this file holds.  The planes of the
  screens and the copying of the pixels are outside: \<open>cursor_shows\<close> is the buffer that was last uploaded.
  \<open>pointer_fault\<close> records a use of \<open>NULL\<close> or of a buffer without a reference, \<open>walk_fault\<close> a walk over handlers
  or buttons that follows a link that is gone, and \<open>assert_failed\<close> a failed \<open>assert\<close>.
\<close>

section \<open>State\<close>

record pointer_resource =
  pr_resource :: nat
  enter_serial :: int
  entered :: bool

record cursor_image =
  ci_buffer :: "nat option"
  ci_hotspot :: "int \<times> int"
  ci_active :: bool

text \<open>The fields of \<open>struct button\<close>.\<close>

record held_button =
  press_value :: int
  press_serial :: int
  press_handler :: "nat option"

datatype cursor_mode = CURSOR_MODE_CLIENT | CURSOR_MODE_COMPOSITOR

datatype pointer_event =
    Resource_created nat
  | Enter_sent nat int "nat option" "int \<times> int"
  | Leave_sent nat int "nat option"
  | Motion_sent nat int "int \<times> int"
  | Button_sent nat int int int bool
  | Axis_source_sent nat int
  | Axis_value120_sent nat int int
  | Axis_discrete_sent nat int int
  | Axis_sent nat int int int
  | Axis_stop_sent nat int int
  | Frame_sent nat
  | Relative_motion_sent nat int "int \<times> int" "int \<times> int"
  | Cursor_uploaded "nat option"
  | Cursor_moved "int \<times> int"
  | Frame_timer int
  | Frames_done nat
  | Role_error_sent nat
  | Shape_error_sent nat
  | Select_update nat "int \<times> int" "int \<times> int"
  | Select_done nat "int \<times> int" "int \<times> int"
  | Wm_motion int int int
  | Mode_motion int int
  | Mode_button int
  | Mode_cancelled nat
  | Window_focus_cleared

datatype select_state = STATE_NONE | STATE_WAIT | STATE_DRAG

record pointer_state = constraints_base +
  pointer_resources :: "pointer_resource list"
  display_serial :: int
  serials :: serial_ring
  cursor_surface :: "nat option"
  cursor_hook :: "nat option"
  has_cursor_view :: "nat \<Rightarrow> bool"
  surface_damaged :: "nat \<Rightarrow> bool"
  view_buffer :: "nat option"
  cursor_shows :: "nat option"
  internal_buffer :: "nat option"
  hotspot :: "int \<times> int"
  cursor_position :: "int \<times> int"
  frame_pending :: bool
  buffer_refs :: "nat \<Rightarrow> nat"
  cursor_images :: "nat \<Rightarrow> cursor_image"
  cursor_override :: nat
  cursor_mode :: cursor_mode
  client_shape :: nat
  client_shape_set :: bool
  held_buttons :: "held_button list"
  pointer_handlers :: "nat list"
  handler_pending :: "nat \<Rightarrow> bool"
  client_axis_source :: "int option"
  wm_grab :: "nat option"
  input_mode :: "(nat \<times> nat) option"
  pointer_inside :: bool
  select_state :: select_state
  select_start :: "int \<times> int"
  select_resources :: "nat list"
  pointer_fault :: bool
  walk_fault :: bool
  assert_failed :: bool
  pointer_log :: "pointer_event list"

text \<open>
  What is around the pointer: the views and screens, the allocator of wld (\<open>import_buffer\<close>, which depends on
  the buffers in use), and the cursor that is built in.  \<open>surface_buffer\<close> is a surface's buffer and
  \<open>surface_contents\<close> the one scaled and turned for its view, \<open>refresh_rates\<close> the preferred modes of the
  screens a position is on.
\<close>

record pointer_env =
  around :: constraint_env
  fixed :: fixed_ops
  resource_version :: "nat \<Rightarrow> nat"
  import_buffer :: "(nat \<Rightarrow> nat) \<Rightarrow> nat option"
  builtin_hotspot :: "int \<times> int"
  surface_buffer :: "nat \<Rightarrow> nat option"
  surface_contents :: "nat \<Rightarrow> nat option"
  contents_ready :: "nat \<Rightarrow> bool"
  on_screen_at :: "int \<times> int \<Rightarrow> bool"
  refresh_rates :: "int \<times> int \<Rightarrow> int list"
  frames_waiting :: "nat \<Rightarrow> bool"
  timer_set :: bool
  mode_geometry :: "nat \<Rightarrow> int \<times> int \<times> int \<times> int"

abbreviation SWC_CURSOR_DEFAULT :: nat where "SWC_CURSOR_DEFAULT \<equiv> 0"
abbreviation SWC_CURSOR_CROSS :: nat where "SWC_CURSOR_CROSS \<equiv> 2"
abbreviation SWC_CURSOR_KIND_COUNT :: nat where "SWC_CURSOR_KIND_COUNT \<equiv> 41"

definition pt_emit :: "pointer_event list \<Rightarrow> pointer_state \<Rightarrow> pointer_state" where
  "pt_emit es s = s\<lparr>pointer_log := pointer_log s @ es\<rparr>"

definition pt_must :: "bool \<Rightarrow> pointer_state \<Rightarrow> pointer_state" where
  "pt_must ok s = s\<lparr>pointer_fault := pointer_fault s \<or> \<not> ok\<rparr>"

definition next_serial :: "pointer_state \<Rightarrow> int \<times> pointer_state" where
  "next_serial s = (let n = u32 (display_serial s + 1) in (n, s\<lparr>display_serial := n\<rparr>))"

section \<open>Buffers and the cursor's view\<close>

definition buffer_reference :: "nat \<Rightarrow> pointer_state \<Rightarrow> pointer_state" where
  "buffer_reference b s = s\<lparr>buffer_refs := (buffer_refs s)(b := Suc (buffer_refs s b))\<rparr>"

definition buffer_unreference :: "nat option \<Rightarrow> pointer_state \<Rightarrow> pointer_state" where
  "buffer_unreference b s =
     (case b of None \<Rightarrow> s
      | Some b \<Rightarrow> pt_must (0 < buffer_refs s b) (s\<lparr>buffer_refs := (buffer_refs s)(b := buffer_refs s b - 1)\<rparr>))"

text \<open>\<open>attach\<close> of the cursor's view: nothing to upload when the buffer is the same and nothing in it changed.\<close>

definition cursor_attach :: "nat option \<Rightarrow> pointer_state \<Rightarrow> pointer_state" where
  "cursor_attach b s =
     (if b = view_buffer s \<and> (case cursor_surface s of None \<Rightarrow> True | Some f \<Rightarrow> \<not> surface_damaged s f) then s
      else
        let s = (case cursor_surface s of None \<Rightarrow> s | Some f \<Rightarrow> s\<lparr>surface_damaged := (surface_damaged s)(f := False)\<rparr>)
        in pt_emit [Cursor_uploaded b] (s\<lparr>cursor_shows := b\<rparr>))"

definition cursor_view_attach :: "nat option \<Rightarrow> pointer_state \<Rightarrow> pointer_state" where
  "cursor_view_attach b s =
     (let s = cursor_attach b s;
          s = (case b of None \<Rightarrow> s | Some b \<Rightarrow> buffer_reference b s);
          s = buffer_unreference (view_buffer s) s
      in s\<lparr>view_buffer := b\<rparr>)"

text \<open>The callbacks of a cursor are paced by the fastest screen that shows it, or by 60 Hz.\<close>

definition frame_delay :: "int list \<Rightarrow> int" where
  "frame_delay rates =
     (let refresh = fold max rates 0; refresh = (if refresh = 0 then 60000 else refresh)
      in max 1 ((1000000 + refresh - 1) div refresh))"

definition cursor_visible :: "pointer_env \<Rightarrow> pointer_state \<Rightarrow> bool" where
  "cursor_visible e s \<longleftrightarrow> swc_active s \<and> cursor_surface s \<noteq> None \<and> view_buffer s \<noteq> None \<and> on_screen_at e (cursor_position s)"

definition cursor_update :: "pointer_env \<Rightarrow> pointer_state \<Rightarrow> pointer_state" where
  "cursor_update e s =
     (let s = (case cursor_surface s of None \<Rightarrow> s
               | Some f \<Rightarrow> if surface_damaged s f then cursor_view_attach (surface_buffer e f) s else s)
      in if cursor_visible e s \<and> (case cursor_surface s of None \<Rightarrow> False | Some f \<Rightarrow> frames_waiting e f) \<and> \<not> frame_pending s
         then
           let s = pt_emit [Frame_timer (frame_delay (refresh_rates e (cursor_position s)))] s
           in if timer_set e then s\<lparr>frame_pending := True\<rparr> else s
         else s)"

definition cursor_frame_ready :: "pointer_env \<Rightarrow> pointer_state \<Rightarrow> pointer_state" where
  "cursor_frame_ready e s =
     (let s = s\<lparr>frame_pending := False\<rparr>
      in case cursor_surface s of None \<Rightarrow> s
         | Some f \<Rightarrow> if cursor_visible e s then pt_emit [Frames_done f] s else s)"

text \<open>\<open>update_cursor\<close> and the \<open>move\<close> of the cursor's view.\<close>

definition update_cursor :: "pointer_env \<Rightarrow> pointer_state \<Rightarrow> pointer_state" where
  "update_cursor e s =
     (let x = s32 (fst (fixed e) (pt_x s) - fst (hotspot s)); y = s32 (fst (fixed e) (pt_y s) - snd (hotspot s))
      in if (x, y) = cursor_position s then s else pt_emit [Cursor_moved (x, y)] (s\<lparr>cursor_position := (x, y)\<rparr>))"

text \<open>\<open>surface_set_view\<close> with the cursor's view and with \<open>NULL\<close>.\<close>

definition give_cursor_view :: "pointer_env \<Rightarrow> nat \<Rightarrow> pointer_state \<Rightarrow> pointer_state" where
  "give_cursor_view e f s =
     (if has_cursor_view s f then s
      else
        let s = s\<lparr>has_cursor_view := (has_cursor_view s)(f := True)\<rparr>;
            s = (if contents_ready e f then cursor_view_attach (surface_contents e f) s else s)
        in cursor_update e s)"

definition take_cursor_view :: "nat \<Rightarrow> pointer_state \<Rightarrow> pointer_state" where
  "take_cursor_view f s = s\<lparr>has_cursor_view := (has_cursor_view s)(f := False)\<rparr>"

section \<open>Which cursor is shown\<close>

text \<open>\<open>drop_client_cursor_surface\<close>, whose statements \<open>pointer_set_cursor\<close> repeats.\<close>

definition drop_client_cursor_surface :: "pointer_state \<Rightarrow> pointer_state" where
  "drop_client_cursor_surface s =
     (case cursor_surface s of None \<Rightarrow> s
      | Some f \<Rightarrow> (take_cursor_view f s)\<lparr>cursor_hook := None, cursor_surface := None\<rparr>)"

text \<open>An override of the window manager outranks the shape that a client asks for.\<close>

definition shown_kind :: "pointer_state \<Rightarrow> nat" where
  "shown_kind s =
     (let kind = (if cursor_override s = SWC_CURSOR_DEFAULT \<and> client_shape_set s then client_shape s else cursor_override s)
      in if kind < SWC_CURSOR_KIND_COUNT then kind else SWC_CURSOR_DEFAULT)"

text \<open>The buffer \<open>pointer_set_cursor\<close> shows, with a reference for the caller, and its hotspot.\<close>

definition cursor_source :: "pointer_env \<Rightarrow> pointer_state \<Rightarrow> (nat \<times> int \<times> int) option \<times> pointer_state" where
  "cursor_source e s =
     (let i = cursor_images s (shown_kind s)
      in if ci_active i
         then case ci_buffer i of None \<Rightarrow> (None, pt_must False s)
              | Some b \<Rightarrow> (Some (b, ci_hotspot i), buffer_reference b s)
         else case import_buffer e (buffer_refs s) of None \<Rightarrow> (None, s)
              | Some b \<Rightarrow> (Some (b, builtin_hotspot e), buffer_reference b s))"

text \<open>\<open>pointer_set_cursor\<close>, which is only called for the default cursor.\<close>

definition pointer_set_cursor :: "pointer_env \<Rightarrow> pointer_state \<Rightarrow> pointer_state" where
  "pointer_set_cursor e s =
     (case cursor_source e s of
        (None, s) \<Rightarrow> s
      | (Some (b, h), s) \<Rightarrow>
          let s = drop_client_cursor_surface (buffer_unreference (internal_buffer s) s);
              s = update_cursor e (s\<lparr>internal_buffer := Some b, hotspot := h\<rparr>)
          in cursor_view_attach (Some b) s)"

definition handle_cursor_surface_destroy :: "pointer_env \<Rightarrow> pointer_state \<Rightarrow> pointer_state" where
  "handle_cursor_surface_destroy e s =
     (case cursor_surface s of None \<Rightarrow> pt_must False s
      | Some f \<Rightarrow> pointer_set_cursor e ((take_cursor_view f s)\<lparr>cursor_surface := None, cursor_hook := None\<rparr>))"

text \<open>A surface is destroyed: the listener is on the surface it was added to.\<close>

definition surface_destroyed :: "pointer_env \<Rightarrow> nat \<Rightarrow> pointer_state \<Rightarrow> pointer_state" where
  "surface_destroyed e f s = (if cursor_hook s = Some f then handle_cursor_surface_destroy e s else s)"

definition apply_cursor_override :: "pointer_env \<Rightarrow> pointer_state \<Rightarrow> pointer_state" where
  "apply_cursor_override e s = (if cursor_surface s \<noteq> None then s else pointer_set_cursor e s)"

definition swc_set_cursor :: "pointer_env \<Rightarrow> nat \<Rightarrow> pointer_state \<Rightarrow> pointer_state" where
  "swc_set_cursor e kind s = apply_cursor_override e (drop_client_cursor_surface (s\<lparr>cursor_override := kind\<rparr>))"

definition swc_set_cursor_mode :: "pointer_env \<Rightarrow> cursor_mode \<Rightarrow> pointer_state \<Rightarrow> pointer_state" where
  "swc_set_cursor_mode e m s =
     (let s = s\<lparr>cursor_mode := m\<rparr>
      in apply_cursor_override e (if m = CURSOR_MODE_COMPOSITOR then drop_client_cursor_surface s else s))"

text \<open>\<open>created\<close> is the buffer with the pixels, when it can be made and mapped; \<open>pixels\<close> whether there are any.\<close>

definition swc_set_cursor_image ::
  "pointer_env \<Rightarrow> nat \<Rightarrow> bool \<Rightarrow> int \<Rightarrow> int \<Rightarrow> int \<times> int \<Rightarrow> nat option \<Rightarrow> pointer_state \<Rightarrow> bool \<times> pointer_state" where
  "swc_set_cursor_image e kind pixels width height h created s =
     (if \<not> kind < SWC_CURSOR_KIND_COUNT \<or> \<not> pixels \<or> width = 0 \<or> height = 0 \<or> width > 4096 \<or> height > 4096
      then (False, s)
      else case created of None \<Rightarrow> (False, s)
        | Some b \<Rightarrow>
            let s = buffer_reference b s;
                s = buffer_unreference (ci_buffer (cursor_images s kind)) s;
                s = s\<lparr>cursor_images := (cursor_images s)(kind := \<lparr>ci_buffer = Some b, ci_hotspot = h, ci_active = True\<rparr>)\<rparr>;
                s = (if cursor_mode s = CURSOR_MODE_COMPOSITOR then drop_client_cursor_surface s else s)
            in (True, apply_cursor_override e s))"

definition swc_clear_cursor_image :: "pointer_env \<Rightarrow> nat \<Rightarrow> pointer_state \<Rightarrow> pointer_state" where
  "swc_clear_cursor_image e kind s =
     (if \<not> kind < SWC_CURSOR_KIND_COUNT then s
      else
        let i = cursor_images s kind; s = buffer_unreference (ci_buffer i) s
        in apply_cursor_override e
             (s\<lparr>cursor_images := (cursor_images s)(kind := i\<lparr>ci_active := False, ci_buffer := None\<rparr>)\<rparr>))"

definition pointer_set_shape :: "pointer_env \<Rightarrow> nat \<Rightarrow> pointer_state \<Rightarrow> pointer_state" where
  "pointer_set_shape e kind s =
     (if \<not> kind < SWC_CURSOR_KIND_COUNT then s
      else pointer_set_cursor e ((drop_client_cursor_surface s)\<lparr>client_shape := kind, client_shape_set := True\<rparr>))"

definition pointer_clear_shape :: "pointer_env \<Rightarrow> pointer_state \<Rightarrow> pointer_state" where
  "pointer_clear_shape e s =
     (if \<not> client_shape_set s then s
      else
        let s = s\<lparr>client_shape_set := False, client_shape := SWC_CURSOR_DEFAULT\<rparr>
        in if cursor_surface s = None then pointer_set_cursor e s else s)"

section \<open>Focus\<close>

definition find_pointer_resource :: "nat \<Rightarrow> pointer_state \<Rightarrow> pointer_resource option" where
  "find_pointer_resource r s = find (\<lambda>p. pr_resource p = r) (pointer_resources s)"

text \<open>\<open>wl_resource_get_user_data\<close> of a pointer's resource is the pointer until \<open>pointer_finalize\<close>, with which the model ends.\<close>

definition pointer_cursor_serial_valid :: "nat \<Rightarrow> nat \<Rightarrow> int \<Rightarrow> pointer_state \<Rightarrow> bool" where
  "pointer_cursor_serial_valid r client serial s =
     (case find_pointer_resource r s of None \<Rightarrow> False
      | Some p \<Rightarrow> entered p \<and> serial = enter_serial p \<and> fc_client (pt_focus s) = Some client \<and> fc_view (pt_focus s) \<noteq> None)"

text \<open>The first record of the resource is changed.\<close>

fun mark_record :: "nat \<Rightarrow> (pointer_resource \<Rightarrow> pointer_resource) \<Rightarrow> pointer_resource list \<Rightarrow> pointer_resource list" where
  "mark_record r f [] = []"
| "mark_record r f (p # ps) = (if pr_resource p = r then f p # ps else p # mark_record r f ps)"

definition frame_if :: "pointer_env \<Rightarrow> nat \<Rightarrow> pointer_event list" where
  "frame_if e r = (if resource_version e r \<ge> 5 then [Frame_sent r] else [])"

definition surface_position :: "pointer_env \<Rightarrow> nat \<Rightarrow> int \<Rightarrow> int \<Rightarrow> int \<times> int" where
  "surface_position e v x y =
     (s32 (x - snd (fixed e) (s32 (fst (geometry_of (around e) v) - fst (offset_of (around e) v)))),
      s32 (y - snd (fixed e) (s32 (snd (geometry_of (around e) v) - snd (offset_of (around e) v)))))"

text \<open>A view is needed; without one the code reads through \<open>NULL\<close>.\<close>

definition enter_one :: "pointer_env \<Rightarrow> int \<Rightarrow> nat option \<Rightarrow> nat \<Rightarrow> pointer_state \<Rightarrow> pointer_state" where
  "enter_one e serial v r s =
     pt_emit (Enter_sent r serial (map_option (surface_of_view (around e)) v)
         (case v of None \<Rightarrow> (0, 0) | Some v \<Rightarrow> surface_position e v (pt_x s) (pt_y s)) # frame_if e r)
       (s\<lparr>pointer_resources := mark_record r (\<lambda>p. p\<lparr>enter_serial := serial, entered := True\<rparr>) (pointer_resources s)\<rparr>)"

definition leave_one :: "pointer_env \<Rightarrow> int \<Rightarrow> nat option \<Rightarrow> nat \<Rightarrow> pointer_state \<Rightarrow> pointer_state" where
  "leave_one e serial v r s =
     pt_emit (Leave_sent r serial (map_option (surface_of_view (around e)) v) # frame_if e r)
       (s\<lparr>pointer_resources := mark_record r (\<lambda>p. p\<lparr>entered := False\<rparr>) (pointer_resources s)\<rparr>)"

definition enter :: "pointer_env \<Rightarrow> pointer_state focus_call" where
  "enter e rs v s =
     (let s = pointer_clear_shape e s
      in if rs = [] then pointer_set_cursor e s
         else
           let (serial, s) = next_serial s
           in fold (enter_one e serial v) rs (pt_must (v \<noteq> None) s))"

definition leave :: "pointer_env \<Rightarrow> pointer_state focus_call" where
  "leave e rs v s =
     (let (serial, s) = next_serial s in fold (leave_one e serial v) rs (pt_must (rs = [] \<or> v \<noteq> None) s))"

text \<open>An operation of \<open>Input_Focus\<close> on the pointer's own focus.\<close>

definition focus_op :: "(input_focus \<times> pointer_state \<Rightarrow> input_focus \<times> pointer_state) \<Rightarrow> pointer_state \<Rightarrow> pointer_state" where
  "focus_op g s = (let (f, t) = g (pt_focus s, s) in t\<lparr>pt_focus := f\<rparr>)"

definition handle_focus_changed :: "pointer_env \<Rightarrow> pointer_state \<Rightarrow> pointer_state" where
  "handle_focus_changed e s =
     (let s = pointer_constraints_update_focus (around e) s
      in if fc_view (pt_focus s) = None
         then
           let s = pointer_clear_shape e s
           in if cursor_surface s \<noteq> None \<or> view_buffer s = None then pointer_set_cursor e s else s
         else s)"

definition handle_activity_changed :: "pointer_env \<Rightarrow> pointer_state \<Rightarrow> pointer_state" where
  "handle_activity_changed e s =
     (let s = pointer_constraints_update_focus (around e) s in if swc_active s then cursor_update e s else s)"

text \<open>\<open>input_mode_active\<close> of \<open>libswc/input_mode.c\<close>: a mode of the window manager has the screen the pointer is on.\<close>

definition input_mode_active :: "pointer_env \<Rightarrow> pointer_state \<Rightarrow> bool" where
  "input_mode_active e s =
     (case input_mode s of None \<Rightarrow> False
      | Some (_, screen) \<Rightarrow>
          let (gx, gy, w, h) = mode_geometry e screen; x = fst (fixed e) (pt_x s); y = fst (fixed e) (pt_y s)
          in x \<ge> gx \<and> y \<ge> gy \<and> x < gx + w \<and> y < gy + h)"

text \<open>The event of \<open>input_focus_set\<close> is emitted when the view changes.\<close>

definition pointer_set_focus :: "pointer_env \<Rightarrow> nat option \<Rightarrow> pointer_state \<Rightarrow> pointer_state" where
  "pointer_set_focus e v s =
     (if v \<noteq> None \<and> input_mode_active e s then s
      else
        let old = fc_view (pt_focus s);
            s = focus_op (input_focus_set (enter e) (leave e) v) s;
            s = (if v \<noteq> old then handle_focus_changed e s else s)
        in pointer_constraints_update_focus (around e) s)"

text \<open>The focused view is destroyed.\<close>

definition pointer_view_destroyed :: "pointer_env \<Rightarrow> nat \<Rightarrow> pointer_state \<Rightarrow> pointer_state" where
  "pointer_view_destroyed e v s =
     (if fc_linked (pt_focus s) = Some v then handle_focus_changed e (focus_op (focus_view_destroyed (leave e) v) s) else s)"

section \<open>Requests for a cursor\<close>

text \<open>\<open>surface\<close> is \<open>None\<close> to hide the cursor; \<open>role_ok\<close>: the surface is a cursor or can become one.\<close>

definition set_cursor :: "pointer_env \<Rightarrow> nat \<Rightarrow> nat \<Rightarrow> int \<Rightarrow> nat option \<Rightarrow> bool \<Rightarrow> int \<times> int \<Rightarrow> pointer_state \<Rightarrow> pointer_state" where
  "set_cursor e client r serial surface role_ok h s =
     (if \<not> pointer_cursor_serial_valid r client serial s then s
      else if cursor_mode s = CURSOR_MODE_COMPOSITOR \<or> cursor_override s \<noteq> SWC_CURSOR_DEFAULT then s
      else if surface \<noteq> None \<and> \<not> role_ok then pt_emit [Role_error_sent r] s
      else if surface \<noteq> None \<and> surface = cursor_surface s then update_cursor e (s\<lparr>hotspot := h\<rparr>)
      else if surface = None \<and> cursor_surface s = None \<and> view_buffer s = None then s
      else
        let s = (case cursor_surface s of None \<Rightarrow> s | Some f \<Rightarrow> (take_cursor_view f s)\<lparr>cursor_hook := None\<rparr>);
            s = s\<lparr>cursor_surface := surface, hotspot := h\<rparr>
        in case surface of
             Some f \<Rightarrow> (give_cursor_view e f (update_cursor e s))\<lparr>cursor_hook := Some f\<rparr>
           | None \<Rightarrow> cursor_view_attach None s)"

text \<open>\<open>set_shape\<close> of \<open>libswc/cursor_shape.c\<close>; \<open>kinds\<close> is \<open>shape_to_kind\<close>, \<open>pointer\<close> the device's pointer resource.\<close>

definition shape_to_kind :: "nat list" where
  "shape_to_kind = [0, 0, 6, 7, 8, 9, 10, 11, 12, 13, 14, 15, 16, 17, 18, 19, 20, 21, 22, 23, 24, 25, 26, 27, 28, 29,
     30, 31, 32, 33, 34, 35, 36, 37, 38, 39, 40]"

definition device_set_shape ::
  "pointer_env \<Rightarrow> nat \<Rightarrow> nat \<Rightarrow> nat option \<Rightarrow> int \<Rightarrow> nat \<Rightarrow> pointer_state \<Rightarrow> pointer_state" where
  "device_set_shape e client device pointer serial shape s =
     (if shape = 0 \<or> shape \<ge> length shape_to_kind then pt_emit [Shape_error_sent device] s
      else case pointer of None \<Rightarrow> s
        | Some r \<Rightarrow>
            if pointer_cursor_serial_valid r client serial s then pointer_set_shape e (shape_to_kind ! shape) s else s)"

section \<open>Resources\<close>

text \<open>\<open>r\<close> is the new resource, when the record and the resource can be allocated.\<close>

definition pointer_bind :: "pointer_env \<Rightarrow> nat option \<Rightarrow> pointer_state \<Rightarrow> pointer_state" where
  "pointer_bind e r s =
     (case r of None \<Rightarrow> s
      | Some r \<Rightarrow>
          focus_op (input_focus_add_resource (enter e) r)
            ((pt_emit [Resource_created r] s)\<lparr>pointer_resources := \<lparr>pr_resource = r, enter_serial = 0, entered = False\<rparr> # pointer_resources s\<rparr>))"

definition pointer_unbind :: "nat \<Rightarrow> pointer_state \<Rightarrow> pointer_state" where
  "pointer_unbind r s =
     (let s = s\<lparr>pt_focus := input_focus_remove_resource r (pt_focus s)\<rparr>
      in case find_pointer_resource r s of None \<Rightarrow> s
         | Some p \<Rightarrow> s\<lparr>pointer_resources := remove1 p (pointer_resources s)\<rparr>)"

end
