(* ===== verification/Pointer.thy ===== *)
theory Pointer
  imports Pointer_Cursor
begin

text \<open>
  The events of the pointer: the list of handlers that are asked in turn, the clients' handler
  (\<open>libswc/pointer.c\<close>), the grab and the input mode of the window manager (\<open>libswc/pointer.c\<close>,
  \<open>libswc/input_mode.c\<close>), the selection of a region (\<open>libswc/select.c\<close>) and relative motion
  (\<open>libswc/relative_pointer.c\<close>).

  A handler is a number.  Those of bindings, windows, popups, drags, title bars and screens are an argument, as
  are the callbacks of the window manager.
\<close>

section \<open>Handlers\<close>

abbreviation CLIENT_HANDLER :: nat where "CLIENT_HANDLER \<equiv> 0"
abbreviation GRAB_HANDLER :: nat where "GRAB_HANDLER \<equiv> 1"
abbreviation MODE_HANDLER :: nat where "MODE_HANDLER \<equiv> 2"
abbreviation SELECT_HANDLER :: nat where "SELECT_HANDLER \<equiv> 3"

datatype handler_call =
    Call_motion int int int
  | Call_button int int int bool
  | Call_axis int int "int option" int int
  | Call_frame

text \<open>\<open>other_has\<close>: whether the member of the handler is set.\<close>

record pointer_callbacks =
  wm_motion :: "nat \<Rightarrow> int \<Rightarrow> int \<Rightarrow> int \<Rightarrow> pointer_state \<Rightarrow> pointer_state"
  mode_motion :: "nat \<Rightarrow> int \<Rightarrow> int \<Rightarrow> pointer_state \<Rightarrow> pointer_state"
  mode_button :: "nat \<Rightarrow> int \<Rightarrow> pointer_state \<Rightarrow> pointer_state"
  mode_cancel :: "nat \<Rightarrow> pointer_state \<Rightarrow> pointer_state"
  other_has :: "nat \<Rightarrow> handler_call \<Rightarrow> bool"
  other_call :: "nat \<Rightarrow> handler_call \<Rightarrow> pointer_state \<Rightarrow> bool \<times> pointer_state"

section \<open>The clients' handler\<close>

definition client_handle_motion :: "pointer_env \<Rightarrow> int \<Rightarrow> int \<Rightarrow> int \<Rightarrow> pointer_state \<Rightarrow> bool \<times> pointer_state" where
  "client_handle_motion e time x y s =
     (let active = fc_active (pt_focus s)
      in if active = [] then (False, s)
         else if pointer_constraints_pointer_locked s then (True, s)
         else case fc_view (pt_focus s) of None \<Rightarrow> (True, pt_must False s)
           | Some v \<Rightarrow> (True, pt_emit (map (\<lambda>r. Motion_sent r time (surface_position e v x y)) active) s))"

definition client_handle_button :: "int \<Rightarrow> int \<Rightarrow> int \<Rightarrow> bool \<Rightarrow> pointer_state \<Rightarrow> bool \<times> pointer_state" where
  "client_handle_button time value serial pressed s =
     (let active = fc_active (pt_focus s)
      in if active = [] then (False, s)
         else (True, pt_emit (map (\<lambda>r. Button_sent r serial time value pressed) active)
           (s\<lparr>serials := input_record_serial (fc_client (pt_focus s)) serial (serials s)\<rparr>)))"

definition axis_events :: "pointer_env \<Rightarrow> int \<Rightarrow> int \<Rightarrow> int option \<Rightarrow> int \<Rightarrow> int \<Rightarrow> nat \<Rightarrow> pointer_event list" where
  "axis_events e time axis source value value120 r =
     (let ver = resource_version e r
      in (case source of Some k \<Rightarrow> if ver \<ge> 5 then [Axis_source_sent r k] else [] | None \<Rightarrow> []) @
         (if value120 = 0 then []
          else if ver \<ge> 8 then [Axis_value120_sent r axis value120]
          else if ver \<ge> 5 then [Axis_discrete_sent r axis (cdiv value120 120)] else []) @
         (if value \<noteq> 0 then [Axis_sent r time axis value] else if ver \<ge> 5 then [Axis_stop_sent r time axis] else []))"

text \<open>A source of -1 is \<open>None\<close>; a source that changes between two frames fails the \<open>assert\<close>.\<close>

definition client_handle_axis ::
  "pointer_env \<Rightarrow> int \<Rightarrow> int \<Rightarrow> int option \<Rightarrow> int \<Rightarrow> int \<Rightarrow> pointer_state \<Rightarrow> bool \<times> pointer_state" where
  "client_handle_axis e time axis source value value120 s =
     (let active = fc_active (pt_focus s)
      in if active = [] then (False, s)
         else
           let (source, s) = (if client_axis_source s \<noteq> None then (None, s\<lparr>assert_failed := assert_failed s \<or> client_axis_source s \<noteq> source\<rparr>)
                              else (source, s\<lparr>client_axis_source := source\<rparr>))
           in (True, pt_emit (concat (map (axis_events e time axis source value value120) active)) s))"

definition client_handle_frame :: "pointer_env \<Rightarrow> pointer_state \<Rightarrow> pointer_state" where
  "client_handle_frame e s = (pt_emit (concat (map (frame_if e) (fc_active (pt_focus s)))) s)\<lparr>client_axis_source := None\<rparr>"

section \<open>Grabs of the window manager\<close>

definition handle_wm_grab_motion :: "pointer_callbacks \<Rightarrow> int \<Rightarrow> int \<Rightarrow> int \<Rightarrow> pointer_state \<Rightarrow> bool \<times> pointer_state" where
  "handle_wm_grab_motion cb time x y s =
     (case wm_grab s of None \<Rightarrow> (False, s) | Some data \<Rightarrow> (True, wm_motion cb data time x y (pt_emit [Wm_motion time x y] s)))"

definition swc_pointer_grab_begin :: "nat option \<Rightarrow> pointer_state \<Rightarrow> bool \<times> pointer_state" where
  "swc_pointer_grab_begin handler s =
     (case handler of None \<Rightarrow> (False, s)
      | Some h \<Rightarrow>
          let s = (if wm_grab s = None
                   then s\<lparr>handler_pending := (handler_pending s)(GRAB_HANDLER := False),
                          pointer_handlers := GRAB_HANDLER # pointer_handlers s\<rparr> else s)
          in (True, s\<lparr>wm_grab := Some h\<rparr>))"

definition swc_pointer_grab_end :: "pointer_state \<Rightarrow> pointer_state" where
  "swc_pointer_grab_end s =
     (if wm_grab s = None then s
      else s\<lparr>pointer_handlers := remove1 GRAB_HANDLER (pointer_handlers s), wm_grab := None\<rparr>)"

text \<open>
  The handlers of \<open>libswc/input_mode.c\<close>, which take a press and a scroll on the screen of the mode.
  \<open>Window_focus_cleared\<close> is \<open>swc_window_focus(NULL)\<close>, which is about the keyboard.
\<close>

definition mode_handle_motion :: "pointer_env \<Rightarrow> pointer_callbacks \<Rightarrow> int \<Rightarrow> int \<Rightarrow> pointer_state \<Rightarrow> bool \<times> pointer_state" where
  "mode_handle_motion e cb x y s =
     (let inside = input_mode_active e s;
          s = (if inside \<and> \<not> pointer_inside s
               then pointer_set_focus e None (pt_emit [Window_focus_cleared] s) else s);
          s = s\<lparr>pointer_inside := inside\<rparr>;
          s = (case input_mode s of None \<Rightarrow> s | Some (m, _) \<Rightarrow> mode_motion cb m x y (pt_emit [Mode_motion x y] s))
      in (inside, s))"

definition mode_handle_button :: "pointer_env \<Rightarrow> pointer_callbacks \<Rightarrow> int \<Rightarrow> bool \<Rightarrow> pointer_state \<Rightarrow> bool \<times> pointer_state" where
  "mode_handle_button e cb value pressed s =
     (if \<not> pressed then (True, s)
      else if \<not> input_mode_active e s then (False, s)
      else (True, case input_mode s of None \<Rightarrow> s | Some (m, _) \<Rightarrow> mode_button cb m value (pt_emit [Mode_button value] s)))"

text \<open>\<open>allowed\<close>: the session is active and not locked, and the seat has a keyboard and a pointer.\<close>

definition swc_input_mode_begin ::
  "pointer_env \<Rightarrow> nat option \<Rightarrow> nat option \<Rightarrow> bool \<Rightarrow> pointer_state \<Rightarrow> bool \<times> pointer_state" where
  "swc_input_mode_begin e screen handler allowed s =
     (case (screen, handler) of
        (Some g, Some h) \<Rightarrow>
          if input_mode s \<noteq> None \<or> \<not> allowed \<or> held_buttons s \<noteq> [] then (False, s)
          else
            let s = s\<lparr>input_mode := Some (h, g)\<rparr>;
                s = s\<lparr>pointer_inside := input_mode_active e s, pointer_handlers := MODE_HANDLER # pointer_handlers s\<rparr>
            in (True, if pointer_inside s then pointer_set_focus e None (pt_emit [Window_focus_cleared] s) else s)
      | _ \<Rightarrow> (False, s))"

definition swc_input_mode_end :: "pointer_state \<Rightarrow> pointer_state" where
  "swc_input_mode_end s =
     (if input_mode s = None then s
      else s\<lparr>input_mode := None, pointer_inside := False, pointer_handlers := remove1 MODE_HANDLER (pointer_handlers s)\<rparr>)"

definition input_mode_cancel :: "pointer_callbacks \<Rightarrow> pointer_state \<Rightarrow> pointer_state" where
  "input_mode_cancel cb s =
     (case input_mode s of None \<Rightarrow> s
      | Some (m, _) \<Rightarrow> mode_cancel cb m (pt_emit [Mode_cancelled m] (swc_input_mode_end s)))"

section \<open>Selecting a region\<close>

definition pixel_position :: "pointer_env \<Rightarrow> pointer_state \<Rightarrow> int \<times> int" where
  "pixel_position e s = (fst (fixed e) (pt_x s), fst (fixed e) (pt_y s))"

definition select_handle_motion :: "pointer_env \<Rightarrow> int \<Rightarrow> int \<Rightarrow> pointer_state \<Rightarrow> bool \<times> pointer_state" where
  "select_handle_motion e x y s =
     (if select_state s \<noteq> STATE_DRAG then (False, s)
      else (True, pt_emit (map (\<lambda>r. Select_update r (select_start s) (fst (fixed e) x, fst (fixed e) y)) (select_resources s)) s))"

definition select_handle_button :: "pointer_env \<Rightarrow> bool \<Rightarrow> pointer_state \<Rightarrow> bool \<times> pointer_state" where
  "select_handle_button e pressed s =
     (if pressed \<and> select_state s = STATE_WAIT
      then (True, s\<lparr>select_start := pixel_position e s, select_state := STATE_DRAG\<rparr>)
      else if \<not> pressed \<and> select_state s = STATE_DRAG
      then
        let at = pixel_position e s;
            s = s\<lparr>pointer_handlers := remove1 SELECT_HANDLER (pointer_handlers s), select_state := STATE_NONE\<rparr>;
            s = swc_set_cursor e SWC_CURSOR_DEFAULT s
        in (True, pt_emit (map (\<lambda>r. Select_done r (select_start s) at) (select_resources s)) s)
      else (False, s))"

definition handle_grab :: "pointer_env \<Rightarrow> pointer_state \<Rightarrow> pointer_state" where
  "handle_grab e s =
     (if select_state s \<noteq> STATE_NONE then s
      else swc_set_cursor e SWC_CURSOR_CROSS
        (s\<lparr>select_state := STATE_WAIT, pointer_handlers := SELECT_HANDLER # pointer_handlers s\<rparr>))"

definition bind_select :: "nat option \<Rightarrow> pointer_state \<Rightarrow> pointer_state" where
  "bind_select r s = (case r of None \<Rightarrow> s | Some r \<Rightarrow> s\<lparr>select_resources := r # select_resources s\<rparr>)"

definition select_resource_destroy :: "pointer_env \<Rightarrow> nat \<Rightarrow> pointer_state \<Rightarrow> pointer_state" where
  "select_resource_destroy e r s =
     (let s = s\<lparr>select_resources := remove1 r (select_resources s)\<rparr>
      in if select_resources s \<noteq> [] \<or> select_state s = STATE_NONE then s
         else swc_set_cursor e SWC_CURSOR_DEFAULT
           (s\<lparr>pointer_handlers := remove1 SELECT_HANDLER (pointer_handlers s), select_state := STATE_NONE\<rparr>))"

section \<open>Dispatch\<close>

definition handler_has :: "pointer_callbacks \<Rightarrow> nat \<Rightarrow> handler_call \<Rightarrow> bool" where
  "handler_has cb h c =
     (if h = CLIENT_HANDLER then True
      else if h = GRAB_HANDLER then (case c of Call_motion _ _ _ \<Rightarrow> True | _ \<Rightarrow> False)
      else if h = MODE_HANDLER then c \<noteq> Call_frame
      else if h = SELECT_HANDLER then (case c of Call_motion _ _ _ \<Rightarrow> True | Call_button _ _ _ _ \<Rightarrow> True | _ \<Rightarrow> False)
      else other_has cb h c)"

definition client_call :: "pointer_env \<Rightarrow> handler_call \<Rightarrow> pointer_state \<Rightarrow> bool \<times> pointer_state" where
  "client_call e c s =
     (case c of
        Call_motion time x y \<Rightarrow> client_handle_motion e time x y s
      | Call_button time value serial pressed \<Rightarrow> client_handle_button time value serial pressed s
      | Call_axis time axis source value value120 \<Rightarrow> client_handle_axis e time axis source value value120 s
      | Call_frame \<Rightarrow> (True, client_handle_frame e s))"

definition handler_run :: "pointer_env \<Rightarrow> pointer_callbacks \<Rightarrow> nat \<Rightarrow> handler_call \<Rightarrow> pointer_state \<Rightarrow> bool \<times> pointer_state" where
  "handler_run e cb h c s =
     (if h = CLIENT_HANDLER then client_call e c s
      else if h = GRAB_HANDLER
      then (case c of Call_motion time x y \<Rightarrow> handle_wm_grab_motion cb time x y s | _ \<Rightarrow> (False, s))
      else if h = MODE_HANDLER
      then (case c of
          Call_motion time x y \<Rightarrow> mode_handle_motion e cb x y s
        | Call_button time value serial pressed \<Rightarrow> mode_handle_button e cb value pressed s
        | Call_axis time axis source value value120 \<Rightarrow> (input_mode_active e s, s)
        | Call_frame \<Rightarrow> (False, s))
      else if h = SELECT_HANDLER
      then (case c of
          Call_motion time x y \<Rightarrow> select_handle_motion e x y s
        | Call_button time value serial pressed \<Rightarrow> select_handle_button e pressed s
        | _ \<Rightarrow> (False, s))
      else other_call cb h c s)"

text \<open>What follows an element in a list, where \<open>wl_list_for_each\<close> goes on after it.\<close>

definition following :: "nat \<Rightarrow> nat list \<Rightarrow> nat list" where
  "following h hs = drop 1 (dropWhile (\<lambda>x. x \<noteq> h) hs)"

text \<open>
  \<open>wl_list_for_each\<close> over the handlers until one takes the event.  A handler that declines has to be in the list
  still, since the loop goes on from its links.  The bound on the number of handlers asked is the length of the
  list; it is reached when a handler that declines puts another behind itself.
\<close>

fun dispatch :: "pointer_env \<Rightarrow> pointer_callbacks \<Rightarrow> handler_call \<Rightarrow> nat \<Rightarrow> nat list \<Rightarrow> pointer_state \<Rightarrow> nat option \<times> pointer_state" where
  "dispatch e cb c n [] s = (None, s)"
| "dispatch e cb c 0 (h # hs) s = (None, s\<lparr>walk_fault := True\<rparr>)"
| "dispatch e cb c (Suc n) (h # hs) s =
     (if \<not> handler_has cb h c then dispatch e cb c n hs s
      else case handler_run e cb h c s of
          (True, t) \<Rightarrow> (Some h, t)
        | (False, t) \<Rightarrow>
            if h \<notin> set (pointer_handlers t) then (None, t\<lparr>walk_fault := True\<rparr>)
            else dispatch e cb c n (following h (pointer_handlers t)) t)"

definition ask :: "pointer_env \<Rightarrow> pointer_callbacks \<Rightarrow> handler_call \<Rightarrow> pointer_state \<Rightarrow> nat option \<times> pointer_state" where
  "ask e cb c s = dispatch e cb c (length (pointer_handlers s)) (pointer_handlers s) s"

definition set_pending :: "nat option \<Rightarrow> pointer_state \<Rightarrow> pointer_state" where
  "set_pending h s = (case h of None \<Rightarrow> s | Some h \<Rightarrow> s\<lparr>handler_pending := (handler_pending s)(h := True)\<rparr>)"

section \<open>Buttons\<close>

definition pointer_get_button :: "int \<Rightarrow> pointer_state \<Rightarrow> held_button option" where
  "pointer_get_button serial s = find (\<lambda>b. press_serial b = serial) (held_buttons s)"

definition swc_pointer_has_buttons :: "pointer_state \<Rightarrow> bool" where
  "swc_pointer_has_buttons s \<longleftrightarrow> held_buttons s \<noteq> []"

text \<open>The first entry that satisfies the test is changed, or removed.\<close>

fun change_first :: "(held_button \<Rightarrow> bool) \<Rightarrow> (held_button \<Rightarrow> held_button) \<Rightarrow> held_button list \<Rightarrow> held_button list" where
  "change_first P f [] = []"
| "change_first P f (b # bs) = (if P b then f b # bs else b # change_first P f bs)"

fun remove_first :: "(held_button \<Rightarrow> bool) \<Rightarrow> held_button list \<Rightarrow> held_button list" where
  "remove_first P [] = []"
| "remove_first P (b # bs) = (if P b then bs else b # remove_first P bs)"

text \<open>The handler of the button is read again after its callback.\<close>

definition release_button :: "pointer_env \<Rightarrow> pointer_callbacks \<Rightarrow> int \<Rightarrow> int \<Rightarrow> int \<Rightarrow> pointer_state \<Rightarrow> pointer_state" where
  "release_button e cb time value serial s =
     (let mine = (\<lambda>b. press_value b = value)
      in case find mine (held_buttons s) of None \<Rightarrow> s
         | Some b \<Rightarrow>
             let s = (case press_handler b of None \<Rightarrow> s
                 | Some h \<Rightarrow>
                     let s = s\<lparr>held_buttons := change_first mine (\<lambda>b. b\<lparr>press_serial := serial\<rparr>) (held_buttons s)\<rparr>;
                         s = snd (handler_run e cb h (Call_button time value serial False) s)
                     in case find mine (held_buttons s) of
                          Some b' \<Rightarrow> (case press_handler b' of None \<Rightarrow> s\<lparr>walk_fault := True\<rparr> | Some h' \<Rightarrow> set_pending (Some h') s)
                        | None \<Rightarrow> s\<lparr>walk_fault := True\<rparr>)
             in s\<lparr>held_buttons := remove_first mine (held_buttons s)\<rparr>)"

text \<open>\<open>room\<close>: the array of buttons could grow.  The new button is the last of the array.\<close>

definition press_button :: "pointer_env \<Rightarrow> pointer_callbacks \<Rightarrow> bool \<Rightarrow> int \<Rightarrow> int \<Rightarrow> int \<Rightarrow> pointer_state \<Rightarrow> pointer_state" where
  "press_button e cb room time value serial s =
     (if \<not> room then s
      else
        let s = s\<lparr>held_buttons := held_buttons s @ [\<lparr>press_value = value, press_serial = serial, press_handler = None\<rparr>]\<rparr>;
            n = length (held_buttons s) - 1;
            (h, s) = ask e cb (Call_button time value serial True) s
        in case h of None \<Rightarrow> s
           | Some h \<Rightarrow>
               set_pending (Some h)
                 (s\<lparr>held_buttons := (held_buttons s)[n := (held_buttons s ! n)\<lparr>press_handler := Some h\<rparr>]\<rparr>))"

definition pointer_handle_button :: "pointer_env \<Rightarrow> pointer_callbacks \<Rightarrow> bool \<Rightarrow> int \<Rightarrow> int \<Rightarrow> bool \<Rightarrow> pointer_state \<Rightarrow> pointer_state" where
  "pointer_handle_button e cb room time value pressed s =
     (let (serial, s) = next_serial s
      in if \<not> pressed then release_button e cb time value serial s else press_button e cb room time value serial s)"

section \<open>Scrolling, motion and frames\<close>

definition pointer_handle_axis ::
  "pointer_env \<Rightarrow> pointer_callbacks \<Rightarrow> int \<Rightarrow> int \<Rightarrow> int option \<Rightarrow> int \<Rightarrow> int \<Rightarrow> pointer_state \<Rightarrow> pointer_state" where
  "pointer_handle_axis e cb time axis source value value120 s =
     (let (h, s) = ask e cb (Call_axis time axis source value value120) s in set_pending h s)"

definition pointer_handle_absolute_motion ::
  "pointer_env \<Rightarrow> pointer_callbacks \<Rightarrow> (int \<times> int \<Rightarrow> int \<times> int \<Rightarrow> bool) \<Rightarrow> int \<Rightarrow> int \<Rightarrow> int \<Rightarrow> pointer_state \<Rightarrow> pointer_state" where
  "pointer_handle_absolute_motion e cb nearer time x y s =
     (let (moved, s) = move_pointer (fixed e) nearer (around e) x y s
      in if \<not> moved then s
         else let (h, s) = ask e cb (Call_motion time (pt_x s) (pt_y s)) s in update_cursor e (set_pending h s))"

definition pointer_handle_relative_motion ::
  "pointer_env \<Rightarrow> pointer_callbacks \<Rightarrow> (int \<times> int \<Rightarrow> int \<times> int \<Rightarrow> bool) \<Rightarrow> int \<Rightarrow> int \<Rightarrow> int \<Rightarrow> pointer_state \<Rightarrow> pointer_state" where
  "pointer_handle_relative_motion e cb nearer time dx dy s =
     pointer_handle_absolute_motion e cb nearer time (s32 (pt_x s + dx)) (s32 (pt_y s + dy)) s"

definition frame_one :: "pointer_env \<Rightarrow> pointer_callbacks \<Rightarrow> nat \<Rightarrow> pointer_state \<Rightarrow> pointer_state" where
  "frame_one e cb h s =
     (if handler_pending s h
      then
        let s = (if handler_has cb h Call_frame then snd (handler_run e cb h Call_frame s) else s)
        in s\<lparr>handler_pending := (handler_pending s)(h := False)\<rparr>
      else s)"

text \<open>Only the clients' handler has a \<open>frame\<close>, so the list stays as it is during the loop.\<close>

definition pointer_handle_frame :: "pointer_env \<Rightarrow> pointer_callbacks \<Rightarrow> pointer_state \<Rightarrow> pointer_state" where
  "pointer_handle_frame e cb s = update_cursor e (fold (frame_one e cb) (pointer_handlers s) s)"

section \<open>Events made by the window manager\<close>

definition swc_pointer_send_button :: "pointer_env \<Rightarrow> int \<Rightarrow> int \<Rightarrow> bool \<Rightarrow> pointer_state \<Rightarrow> pointer_state" where
  "swc_pointer_send_button e time button pressed s =
     (let active = fc_active (pt_focus s)
      in if active = [] then s
         else
           let (serial, s) = next_serial s;
               s = s\<lparr>serials := input_record_serial (fc_client (pt_focus s)) serial (serials s)\<rparr>
           in (pt_emit (map (\<lambda>r. Button_sent r serial time button pressed) active @ concat (map (frame_if e) active)) s)
                \<lparr>client_axis_source := None\<rparr>)"

text \<open>\<open>value\<close> is \<open>wl_fixed_from_double(value120 / 120.0)\<close>; the source is the wheel.\<close>

definition swc_pointer_send_axis :: "pointer_env \<Rightarrow> int \<Rightarrow> int \<Rightarrow> int \<Rightarrow> int \<Rightarrow> pointer_state \<Rightarrow> pointer_state" where
  "swc_pointer_send_axis e time axis value value120 s =
     (let active = fc_active (pt_focus s)
      in if active = [] then s
         else (pt_emit (concat (map (axis_events e time axis (Some 0) value value120) active) @
           concat (map (frame_if e) active)) s)\<lparr>client_axis_source := None\<rparr>)"

section \<open>Relative motion\<close>

text \<open>\<open>relatives\<close> are the resources whose pointer has not been destroyed, with their clients.\<close>

definition relative_pointer_send_motion ::
  "(nat \<times> nat) list \<Rightarrow> int \<Rightarrow> int \<times> int \<Rightarrow> int \<times> int \<Rightarrow> pointer_state \<Rightarrow> pointer_state" where
  "relative_pointer_send_motion relatives time d raw s =
     (case fc_client (pt_focus s) of None \<Rightarrow> s
      | Some c \<Rightarrow>
          let rs = map fst (filter (\<lambda>(r, k). k = c) relatives);
              s = pt_emit (map (\<lambda>r. Relative_motion_sent r time d raw) rs) s
          in if rs = [] then s else s\<lparr>handler_pending := (handler_pending s)(CLIENT_HANDLER := True)\<rparr>)"

section \<open>The start\<close>

definition no_constraint :: pointer_constraint where
  "no_constraint = \<lparr>cn_resource = 0, cn_surface = None, cn_pointer = False, cn_hooked = False, cn_locked = False,
     cn_active = False, defunct = True, oneshot = False, cn_region = [], effective = [], has_region = False, hint = (0, 0),
     has_hint = False, cn_pending = \<lparr>pc_region = [], region_set = False, pc_has_region = False, hint_set = False, pc_hint = (0, 0)\<rparr>\<rparr>"

text \<open>The pointer before its cursor is shown, at a position.\<close>

definition new_pointer :: "input_focus \<Rightarrow> int \<Rightarrow> int \<Rightarrow> bool \<Rightarrow> pointer_state" where
  "new_pointer f x y active =
     \<lparr>pt_focus = f, pt_x = x, pt_y = y, pt_region = [], constraint_list = [], constraint_at = (\<lambda>_. no_constraint),
      active_constraint = None, swc_active = active, cn_log = [], pointer_resources = [], display_serial = 0,
      serials = no_serials, cursor_surface = None, cursor_hook = None, has_cursor_view = (\<lambda>_. False),
      surface_damaged = (\<lambda>_. False), view_buffer = None, cursor_shows = None, internal_buffer = None, hotspot = (0, 0),
      cursor_position = (0, 0), frame_pending = False, buffer_refs = (\<lambda>_. 0),
      cursor_images = (\<lambda>_. \<lparr>ci_buffer = None, ci_hotspot = (0, 0), ci_active = False\<rparr>),
      cursor_override = SWC_CURSOR_DEFAULT, cursor_mode = CURSOR_MODE_CLIENT, client_shape = SWC_CURSOR_DEFAULT,
      client_shape_set = False, held_buttons = [], pointer_handlers = [CLIENT_HANDLER], handler_pending = (\<lambda>_. False),
      client_axis_source = None, wm_grab = None, input_mode = None, pointer_inside = False, select_state = STATE_NONE,
      select_start = (0, 0), select_resources = [], pointer_fault = False, walk_fault = False, assert_failed = False,
      pointer_log = []\<rparr>"

text \<open>\<open>pointer_initialize\<close>, in the middle of the first screen and with the cursor that is built in.\<close>

definition pointer_initialize ::
  "pointer_env \<Rightarrow> (nat \<Rightarrow> nat) \<Rightarrow> (nat \<Rightarrow> nat) \<Rightarrow> int \<times> int \<times> int \<times> int \<Rightarrow> bool \<Rightarrow> pointer_state" where
  "pointer_initialize e rc sc geometry active =
     (let (gx, gy, w, h) = geometry
      in pointer_set_cursor e (new_pointer (input_focus_initialize rc sc)
           (snd (fixed e) (s32 (gx + w div 2))) (snd (fixed e) (s32 (gy + h div 2))) active))"

end
