(* ===== verification/Pointer_Safety.thy ===== *)
theory Pointer_Safety
  imports Pointer
begin

text \<open>
  What the pointer keeps: the buffers and the surface of the cursor, what clients are told of the focus, which
  handlers are in the list, and where a button's release goes.
\<close>

section \<open>Parts of the state\<close>

definition cursor_part where
  "cursor_part s = (cursor_surface s, cursor_hook s, has_cursor_view s, view_buffer s, cursor_shows s,
     internal_buffer s, buffer_refs s, cursor_images s)"

definition is_focus_event :: "pointer_event \<Rightarrow> bool" where
  "is_focus_event x = (case x of Resource_created _ \<Rightarrow> True | Enter_sent _ _ _ _ \<Rightarrow> True | Leave_sent _ _ _ \<Rightarrow> True | _ \<Rightarrow> False)"

definition focus_part where
  "focus_part s = (pt_focus s, pointer_resources s, filter is_focus_event (pointer_log s))"

definition handler_part where
  "handler_part s = (pointer_handlers s, wm_grab s, input_mode s, select_state s, held_buttons s)"

named_theorems pt_frames \<open>the parts of the pointer an operation leaves alone\<close>

lemma part_basics [pt_frames]:
  "cursor_part (pt_emit es s) = cursor_part s" "handler_part (pt_emit es s) = handler_part s"
  "cursor_part (pt_must b s) = cursor_part s" "handler_part (pt_must b s) = handler_part s"
  "focus_part (pt_must b s) = focus_part s"
  "cursor_part (snd (next_serial s)) = cursor_part s" "handler_part (snd (next_serial s)) = handler_part s"
  "focus_part (snd (next_serial s)) = focus_part s"
  "client_shape_set (pt_emit es s) = client_shape_set s" "client_shape_set (pt_must b s) = client_shape_set s"
  "client_shape_set (snd (next_serial s)) = client_shape_set s"
  "pointer_fault (pt_emit es s) = pointer_fault s" "pointer_fault (snd (next_serial s)) = pointer_fault s"
  by (simp_all add: cursor_part_def handler_part_def focus_part_def pt_emit_def pt_must_def next_serial_def Let_def)

lemma emit_focus_part [pt_frames]:
  "\<forall>x \<in> set es. \<not> is_focus_event x \<Longrightarrow> focus_part (pt_emit es s) = focus_part s"
  by (simp add: focus_part_def pt_emit_def)

section \<open>The constraints leave the rest alone\<close>

definition beyond_constraints where
  "beyond_constraints s = (cursor_part s, focus_part s, handler_part s, client_shape_set s, pointer_fault s,
     hotspot s, client_axis_source s, handler_pending s, pt_x s, pt_y s, pointer_log s)"

lemma deactivate_beyond: "beyond_constraints (constraint_deactivate c s) = beyond_constraints s"
  by (simp add: constraint_deactivate_def Let_def upd_constraint_def cn_emit_def make_defunct_def
      beyond_constraints_def cursor_part_def focus_part_def handler_part_def)

lemma update_focus_beyond: "beyond_constraints (pointer_constraints_update_focus e s) = beyond_constraints s"
proof -
  have 1: "beyond_constraints (case active_constraint s of None \<Rightarrow> s
      | Some c \<Rightarrow> if w \<noteq> Some c then constraint_deactivate c s else s) = beyond_constraints s" for w
    by (simp add: deactivate_beyond split: option.split)
  have 2: "beyond_constraints (cn_emit es ((upd_constraint c f t)\<lparr>active_constraint := k\<rparr>)) = beyond_constraints t" for es c f t k
    by (simp add: upd_constraint_def cn_emit_def beyond_constraints_def cursor_part_def focus_part_def handler_part_def)
  show ?thesis
    unfolding pointer_constraints_update_focus_def Let_def
    by (auto simp: 1 2 split: option.split)
qed

lemma update_focus_parts [pt_frames]:
  "cursor_part (pointer_constraints_update_focus e s) = cursor_part s"
  "focus_part (pointer_constraints_update_focus e s) = focus_part s"
  "handler_part (pointer_constraints_update_focus e s) = handler_part s"
  "client_shape_set (pointer_constraints_update_focus e s) = client_shape_set s"
  "pointer_fault (pointer_constraints_update_focus e s) = pointer_fault s"
  "pointer_log (pointer_constraints_update_focus e s) = pointer_log s"
  "pt_focus (pointer_constraints_update_focus e s) = pt_focus s"
  using update_focus_beyond [of e s] by (simp_all add: beyond_constraints_def focus_part_def)

lemma clip_parts [pt_frames]:
  "cursor_part (clip_position fo x y s) = cursor_part s" "focus_part (clip_position fo x y s) = focus_part s"
  "handler_part (clip_position fo x y s) = handler_part s"
  "client_shape_set (clip_position fo x y s) = client_shape_set s"
  "pointer_fault (clip_position fo x y s) = pointer_fault s"
  by (simp_all add: clip_position_def Let_def cursor_part_def focus_part_def handler_part_def split: option.split)

section \<open>The cursor\<close>

text \<open>The operations of the cursor leave the focus and the handlers alone.\<close>

definition off_cursor where
  "off_cursor s = (focus_part s, handler_part s, client_shape_set s, pt_x s, pt_y s, serials s, display_serial s,
     handler_pending s, client_axis_source s, pointer_inside s)"

lemma off_cursor_basics [simp]:
  "off_cursor (pt_must b s) = off_cursor s" "off_cursor (buffer_reference x s) = off_cursor s"
  "off_cursor (buffer_unreference y s) = off_cursor s" "off_cursor (take_cursor_view f s) = off_cursor s"
  "off_cursor (drop_client_cursor_surface s) = off_cursor s"
  by (simp_all add: off_cursor_def focus_part_def handler_part_def pt_must_def buffer_reference_def
      buffer_unreference_def take_cursor_view_def drop_client_cursor_surface_def split: option.split)

lemma off_cursor_emit: "\<forall>x \<in> set es. \<not> is_focus_event x \<Longrightarrow> off_cursor (pt_emit es s) = off_cursor s"
  by (simp add: off_cursor_def focus_part_def handler_part_def pt_emit_def)

lemma off_cursor_fields [simp]:
  "off_cursor (s\<lparr>view_buffer := a\<rparr>) = off_cursor s" "off_cursor (s\<lparr>cursor_shows := a\<rparr>) = off_cursor s"
  "off_cursor (s\<lparr>surface_damaged := d\<rparr>) = off_cursor s" "off_cursor (s\<lparr>frame_pending := p\<rparr>) = off_cursor s"
  "off_cursor (s\<lparr>has_cursor_view := v\<rparr>) = off_cursor s" "off_cursor (s\<lparr>cursor_position := q\<rparr>) = off_cursor s"
  "off_cursor (s\<lparr>internal_buffer := a\<rparr>) = off_cursor s" "off_cursor (s\<lparr>hotspot := h\<rparr>) = off_cursor s"
  "off_cursor (s\<lparr>cursor_surface := a\<rparr>) = off_cursor s" "off_cursor (s\<lparr>cursor_hook := a\<rparr>) = off_cursor s"
  "off_cursor (s\<lparr>cursor_override := k\<rparr>) = off_cursor s" "off_cursor (s\<lparr>cursor_mode := m\<rparr>) = off_cursor s"
  "off_cursor (s\<lparr>cursor_images := i\<rparr>) = off_cursor s"
  by (simp_all add: off_cursor_def focus_part_def handler_part_def)

lemma off_cursor_attach [simp]: "off_cursor (cursor_attach b s) = off_cursor s" "off_cursor (cursor_view_attach b s) = off_cursor s"
  by (simp_all add: cursor_attach_def cursor_view_attach_def Let_def off_cursor_emit is_focus_event_def split: option.split)

lemma off_cursor_update [simp]:
  "off_cursor (update_cursor e s) = off_cursor s" "off_cursor (cursor_update e s) = off_cursor s"
  "off_cursor (give_cursor_view e f s) = off_cursor s" "off_cursor (cursor_frame_ready e s) = off_cursor s"
  by (simp_all add: update_cursor_def cursor_update_def give_cursor_view_def cursor_frame_ready_def Let_def
      off_cursor_emit is_focus_event_def split: option.split)

lemma off_cursor_source: "off_cursor (snd (cursor_source e s)) = off_cursor s"
  by (simp add: cursor_source_def Let_def split: option.split)

lemma off_cursor_set [simp]: "off_cursor (pointer_set_cursor e s) = off_cursor s"
  using off_cursor_source [of e s]
  by (auto simp: pointer_set_cursor_def Let_def split: prod.split option.split)

lemma off_cursor_requests [simp]:
  "off_cursor (handle_cursor_surface_destroy e s) = off_cursor s" "off_cursor (surface_destroyed e f s) = off_cursor s"
  "off_cursor (apply_cursor_override e s) = off_cursor s" "off_cursor (swc_set_cursor e k s) = off_cursor s"
  "off_cursor (swc_set_cursor_mode e m s) = off_cursor s" "off_cursor (swc_clear_cursor_image e k s) = off_cursor s"
  "off_cursor (snd (swc_set_cursor_image e k p w i q b s)) = off_cursor s"
  "off_cursor (set_cursor e c r n g ok h s) = off_cursor s"
  by (simp_all add: handle_cursor_surface_destroy_def surface_destroyed_def apply_cursor_override_def swc_set_cursor_def
      swc_set_cursor_mode_def swc_clear_cursor_image_def swc_set_cursor_image_def set_cursor_def Let_def off_cursor_emit
      is_focus_event_def split: option.split)

text \<open>
  The buffers: every reference is held by the theme, by the pointer, by the view, or by \<open>xs\<close>, the references an
  operation has in hand.  What was uploaded is what the view shows.
\<close>

definition theme_refs :: "nat \<Rightarrow> (nat \<Rightarrow> cursor_image) \<Rightarrow> nat" where
  "theme_refs b images = card {k. k < SWC_CURSOR_KIND_COUNT \<and> ci_buffer (images k) = Some b}"

definition holders :: "nat \<Rightarrow> pointer_state \<Rightarrow> nat" where
  "holders b s = of_bool (internal_buffer s = Some b) + of_bool (view_buffer s = Some b) + theme_refs b (cursor_images s)"

lemma theme_refs_upd:
  assumes "k < SWC_CURSOR_KIND_COUNT"
  shows "theme_refs b (images(k := j)) + of_bool (ci_buffer (images k) = Some b) =
    theme_refs b images + of_bool (ci_buffer j = Some b)"
proof -
  define others where "others = {l. l < SWC_CURSOR_KIND_COUNT \<and> l \<noteq> k \<and> ci_buffer (images l) = Some b}"
  have fin: "finite others" "k \<notin> others" by (auto simp: others_def)
  have "theme_refs b (images(k := i)) = card others + of_bool (ci_buffer i = Some b)" for i
  proof -
    have "{l. l < SWC_CURSOR_KIND_COUNT \<and> ci_buffer ((images(k := i)) l) = Some b} =
        (if ci_buffer i = Some b then insert k others else others)"
      using assms by (auto simp: others_def)
    then show ?thesis using fin by (simp add: theme_refs_def)
  qed
  from this [of j] this [of "images k"] show ?thesis by simp
qed

definition buffers_ok :: "nat list \<Rightarrow> pointer_state \<Rightarrow> bool" where
  "buffers_ok xs s \<longleftrightarrow> (\<forall>b. buffer_refs s b = holders b s + count_list xs b) \<and>
     (\<forall>k < SWC_CURSOR_KIND_COUNT. ci_active (cursor_images s k) \<longrightarrow> ci_buffer (cursor_images s k) \<noteq> None) \<and>
     cursor_shows s = view_buffer s \<and> \<not> pointer_fault s"

definition buffer_part where
  "buffer_part s = (view_buffer s, cursor_shows s, internal_buffer s, buffer_refs s, cursor_images s, pointer_fault s)"

definition link_part where
  "link_part s = (cursor_surface s, cursor_hook s, has_cursor_view s)"

text \<open>The surface of the cursor has the listener and the view, and no other has.\<close>

definition link_ok :: "pointer_state \<Rightarrow> bool" where
  "link_ok s \<longleftrightarrow> cursor_hook s = cursor_surface s \<and> (\<forall>f. has_cursor_view s f \<longleftrightarrow> cursor_surface s = Some f)"

lemma buffers_ok_cong: "buffer_part s = buffer_part t \<Longrightarrow> buffers_ok xs s = buffers_ok xs t"
  by (simp add: buffers_ok_def holders_def buffer_part_def)

lemma link_ok_cong: "link_part s = link_part t \<Longrightarrow> link_ok s = link_ok t"
  by (simp add: link_ok_def link_part_def)

lemma buffer_part_simps [simp]:
  "buffer_part (pt_emit es s) = buffer_part s" "buffer_part (take_cursor_view f s) = buffer_part s"
  "buffer_part (s\<lparr>surface_damaged := d\<rparr>) = buffer_part s" "buffer_part (s\<lparr>frame_pending := p\<rparr>) = buffer_part s"
  "buffer_part (s\<lparr>has_cursor_view := v\<rparr>) = buffer_part s" "buffer_part (s\<lparr>cursor_position := q\<rparr>) = buffer_part s"
  "buffer_part (s\<lparr>hotspot := h\<rparr>) = buffer_part s" "buffer_part (s\<lparr>cursor_surface := a\<rparr>) = buffer_part s"
  "buffer_part (s\<lparr>cursor_hook := a\<rparr>) = buffer_part s" "buffer_part (s\<lparr>cursor_override := k\<rparr>) = buffer_part s"
  "buffer_part (s\<lparr>cursor_mode := m\<rparr>) = buffer_part s" "buffer_part (s\<lparr>client_shape := k\<rparr>) = buffer_part s"
  "buffer_part (s\<lparr>client_shape_set := z\<rparr>) = buffer_part s" "buffer_part (update_cursor e s) = buffer_part s"
  "buffer_part (drop_client_cursor_surface s) = buffer_part s"
  by (simp_all add: buffer_part_def pt_emit_def take_cursor_view_def update_cursor_def drop_client_cursor_surface_def
      Let_def split: option.split)

lemma link_part_simps [simp]:
  "link_part (pt_emit es s) = link_part s" "link_part (pt_must b s) = link_part s"
  "link_part (buffer_reference x s) = link_part s" "link_part (buffer_unreference y s) = link_part s"
  "link_part (s\<lparr>surface_damaged := d\<rparr>) = link_part s" "link_part (s\<lparr>frame_pending := p\<rparr>) = link_part s"
  "link_part (s\<lparr>cursor_position := q\<rparr>) = link_part s" "link_part (s\<lparr>hotspot := h\<rparr>) = link_part s"
  "link_part (s\<lparr>cursor_override := k\<rparr>) = link_part s" "link_part (s\<lparr>cursor_mode := m\<rparr>) = link_part s"
  "link_part (s\<lparr>client_shape := k\<rparr>) = link_part s" "link_part (s\<lparr>client_shape_set := z\<rparr>) = link_part s"
  "link_part (s\<lparr>view_buffer := a\<rparr>) = link_part s" "link_part (s\<lparr>cursor_shows := a\<rparr>) = link_part s"
  "link_part (s\<lparr>internal_buffer := a\<rparr>) = link_part s" "link_part (s\<lparr>cursor_images := i\<rparr>) = link_part s"
  "link_part (update_cursor e s) = link_part s" "link_part (cursor_attach a s) = link_part s"
  "link_part (cursor_view_attach a s) = link_part s" "link_part (cursor_update e s) = link_part s"
  "link_part (snd (cursor_source e s)) = link_part s"
  by (simp_all add: link_part_def pt_emit_def pt_must_def buffer_reference_def buffer_unreference_def update_cursor_def
      cursor_attach_def cursor_view_attach_def cursor_update_def cursor_source_def Let_def split: option.split)

lemma attach_fields:
  "view_buffer (cursor_attach b s) = view_buffer s" "internal_buffer (cursor_attach b s) = internal_buffer s"
  "buffer_refs (cursor_attach b s) = buffer_refs s" "cursor_images (cursor_attach b s) = cursor_images s"
  "pointer_fault (cursor_attach b s) = pointer_fault s"
  "cursor_shows s = view_buffer s \<Longrightarrow> cursor_shows (cursor_attach b s) = b"
  by (simp_all add: cursor_attach_def pt_emit_def Let_def split: option.split)

lemma attach_buffers:
  assumes "buffers_ok xs s"
  shows "buffers_ok xs (cursor_view_attach b s)"
proof -
  have "0 < buffer_refs s x" if "view_buffer s = Some x" for x
    using assms that by (simp add: buffers_ok_def holders_def)
  then show ?thesis
    using assms
    by (cases b; cases "view_buffer s")
      (auto simp: cursor_view_attach_def Let_def buffers_ok_def holders_def attach_fields buffer_reference_def
        buffer_unreference_def pt_must_def)
qed

lemma update_buffers: "buffers_ok xs s \<Longrightarrow> buffers_ok xs (cursor_update e s)"
  by (simp add: cursor_update_def Let_def attach_buffers buffers_ok_cong [OF buffer_part_simps(1)]
      buffers_ok_cong [OF buffer_part_simps(4)] split: option.split)

lemma give_buffers: "buffers_ok xs s \<Longrightarrow> buffers_ok xs (give_cursor_view e f s)"
  by (simp add: give_cursor_view_def Let_def attach_buffers update_buffers buffers_ok_cong [OF buffer_part_simps(5)])

lemma frame_ready_buffers: "buffers_ok xs s \<Longrightarrow> buffers_ok xs (cursor_frame_ready e s)"
  by (simp add: cursor_frame_ready_def Let_def buffers_ok_cong [OF buffer_part_simps(1)]
      buffers_ok_cong [OF buffer_part_simps(4)] split: option.split)

lemma shown_kind_less: "shown_kind s < SWC_CURSOR_KIND_COUNT"
  by (simp add: shown_kind_def Let_def)

lemma source_buffers:
  assumes "buffers_ok xs s"
  shows "fst (cursor_source e s) = None \<and> snd (cursor_source e s) = s \<or>
    (\<exists>b h. cursor_source e s = (Some (b, h), buffer_reference b s))"
  using assms shown_kind_less [of s]
  by (auto simp: cursor_source_def Let_def buffers_ok_def split: option.split)

lemma reference_buffers: "buffers_ok xs s \<Longrightarrow> buffers_ok (b # xs) (buffer_reference b s)"
  by (auto simp: buffers_ok_def holders_def buffer_reference_def)

lemma replace_internal:
  assumes "buffers_ok (b # xs) s"
  shows "buffers_ok xs ((buffer_unreference (internal_buffer s) s)\<lparr>internal_buffer := Some b\<rparr>)"
proof -
  have "0 < buffer_refs s x" if "internal_buffer s = Some x" for x
    using assms that by (simp add: buffers_ok_def holders_def)
  then show ?thesis
    using assms by (auto simp: buffers_ok_def holders_def buffer_unreference_def pt_must_def split: option.splits)
qed

lemma set_cursor_buffers:
  assumes "buffers_ok xs s"
  shows "buffers_ok xs (pointer_set_cursor e s)"
  using source_buffers [OF assms, of e]
proof (elim disjE conjE exE)
  assume "fst (cursor_source e s) = None" "snd (cursor_source e s) = s"
  then show ?thesis using assms by (simp add: pointer_set_cursor_def split_beta)
next
  fix b h
  assume c: "cursor_source e s = (Some (b, h), buffer_reference b s)"
  let ?t = "buffer_reference b s"
  let ?u = "(buffer_unreference (internal_buffer ?t) ?t)\<lparr>internal_buffer := Some b\<rparr>"
  have u: "buffers_ok xs ?u" by (rule replace_internal [OF reference_buffers [OF assms]])
  have "buffer_part ((drop_client_cursor_surface (buffer_unreference (internal_buffer ?t) ?t))
      \<lparr>internal_buffer := Some b, hotspot := h\<rparr>) = buffer_part ?u"
    by (simp add: buffer_part_def drop_client_cursor_surface_def take_cursor_view_def split: option.split)
  then have "buffers_ok xs (update_cursor e ((drop_client_cursor_surface (buffer_unreference (internal_buffer ?t) ?t))
      \<lparr>internal_buffer := Some b, hotspot := h\<rparr>))"
    using u by (simp add: buffers_ok_cong [where s = "update_cursor e v" and t = ?u for v])
  then show ?thesis
    by (simp add: pointer_set_cursor_def c Let_def attach_buffers)
qed

lemma update_cursor_fields [simp]:
  "cursor_surface (update_cursor e s) = cursor_surface s" "cursor_hook (update_cursor e s) = cursor_hook s"
  "has_cursor_view (update_cursor e s) = has_cursor_view s"
  by (simp_all add: update_cursor_def Let_def pt_emit_def)

definition cursor_ok :: "pointer_state \<Rightarrow> bool" where
  "cursor_ok s \<longleftrightarrow> buffers_ok [] s \<and> link_ok s"

lemma cursor_ok_cong: "cursor_part s = cursor_part t \<Longrightarrow> pointer_fault s = pointer_fault t \<Longrightarrow> cursor_ok s = cursor_ok t"
  by (simp add: cursor_ok_def cursor_part_def buffers_ok_cong [of s t] buffer_part_def link_ok_cong [of s t] link_part_def)

lemma drop_link: "link_ok s \<Longrightarrow> link_ok (drop_client_cursor_surface s)"
  by (auto simp: link_ok_def drop_client_cursor_surface_def take_cursor_view_def split: option.split)

lemma drop_surface [simp]: "cursor_surface (drop_client_cursor_surface s) = None"
  by (simp add: drop_client_cursor_surface_def split: option.split)

lemma set_cursor_link:
  assumes "link_ok s"
  shows "link_ok (pointer_set_cursor e s)"
proof (cases "fst (cursor_source e s)")
  case None
  then show ?thesis
    using assms link_ok_cong [OF link_part_simps(21), of e s] by (simp add: pointer_set_cursor_def split_beta)
next
  case (Some c)
  obtain b h t where c: "cursor_source e s = (Some (b, h), t)" using Some by (metis prod.collapse)
  have "link_ok t" using assms link_ok_cong [OF link_part_simps(21), of e s] by (simp add: c)
  then have "link_ok (drop_client_cursor_surface (buffer_unreference (internal_buffer t) t))"
    by (intro drop_link) (simp add: link_ok_cong [OF link_part_simps(4)])
  moreover have "link_part (pointer_set_cursor e s) =
      link_part (drop_client_cursor_surface (buffer_unreference (internal_buffer t) t))"
    by (simp add: pointer_set_cursor_def c Let_def)
  ultimately show ?thesis by (simp cong: link_ok_cong)
qed

lemma set_cursor_ok: "cursor_ok s \<Longrightarrow> cursor_ok (pointer_set_cursor e s)"
  by (simp add: cursor_ok_def set_cursor_buffers set_cursor_link)

lemma cursor_ok_simps [simp]:
  "cursor_ok (pt_emit es s) = cursor_ok s" "cursor_ok (s\<lparr>surface_damaged := d\<rparr>) = cursor_ok s"
  "cursor_ok (s\<lparr>hotspot := h\<rparr>) = cursor_ok s" "cursor_ok (s\<lparr>cursor_override := k\<rparr>) = cursor_ok s"
  "cursor_ok (s\<lparr>cursor_mode := m\<rparr>) = cursor_ok s" "cursor_ok (s\<lparr>client_shape := k\<rparr>) = cursor_ok s"
  "cursor_ok (s\<lparr>client_shape_set := z\<rparr>) = cursor_ok s" "cursor_ok (update_cursor e s) = cursor_ok s"
  by (simp_all add: cursor_ok_def buffers_ok_cong [OF buffer_part_simps(1)] buffers_ok_cong [OF buffer_part_simps(3)]
      buffers_ok_cong [OF buffer_part_simps(7)] buffers_ok_cong [OF buffer_part_simps(10)]
      buffers_ok_cong [OF buffer_part_simps(11)] buffers_ok_cong [OF buffer_part_simps(12)]
      buffers_ok_cong [OF buffer_part_simps(13)] buffers_ok_cong [OF buffer_part_simps(14)]
      link_ok_cong [OF link_part_simps(1)] link_ok_cong [OF link_part_simps(5)] link_ok_cong [OF link_part_simps(8)]
      link_ok_cong [OF link_part_simps(9)] link_ok_cong [OF link_part_simps(10)] link_ok_cong [OF link_part_simps(11)]
      link_ok_cong [OF link_part_simps(12)] link_ok_cong [OF link_part_simps(17)])

lemma drop_ok: "cursor_ok s \<Longrightarrow> cursor_ok (drop_client_cursor_surface s)"
  by (simp add: cursor_ok_def drop_link buffers_ok_cong [OF buffer_part_simps(15)])

lemma view_ops_ok:
  assumes "cursor_ok s"
  shows "cursor_ok (cursor_update e s)" "cursor_ok (cursor_frame_ready e s)" "cursor_ok (cursor_view_attach b s)"
  using assms
  by (simp_all add: cursor_ok_def update_buffers frame_ready_buffers attach_buffers link_ok_cong [OF link_part_simps(20)]
      link_ok_cong [OF link_part_simps(19)])
    (simp add: cursor_frame_ready_def Let_def link_ok_cong [OF link_part_simps(1)] link_ok_cong [OF link_part_simps(6)]
      split: option.split)

lemma override_ok: "cursor_ok s \<Longrightarrow> cursor_ok (apply_cursor_override e s)"
  by (simp add: apply_cursor_override_def set_cursor_ok)

lemma surface_gone_ok:
  assumes "cursor_ok s"
  shows "cursor_ok (surface_destroyed e f s)"
proof (cases "cursor_hook s = Some f")
  case True
  then have c: "cursor_surface s = Some f" using assms by (simp add: cursor_ok_def link_ok_def)
  have "cursor_ok ((take_cursor_view f s)\<lparr>cursor_surface := None, cursor_hook := None\<rparr>)"
    using assms c
    by (auto simp: cursor_ok_def link_ok_def take_cursor_view_def buffers_ok_def holders_def)
  then show ?thesis using True c by (simp add: surface_destroyed_def handle_cursor_surface_destroy_def set_cursor_ok)
qed (simp add: surface_destroyed_def assms)

lemma shape_ok: "cursor_ok s \<Longrightarrow> cursor_ok (pointer_set_shape e k s)" "cursor_ok s \<Longrightarrow> cursor_ok (pointer_clear_shape e s)"
  by (simp_all add: pointer_set_shape_def pointer_clear_shape_def Let_def set_cursor_ok drop_ok)

text \<open>Replacing or clearing an image gives back the theme's reference.\<close>

lemma theme_image:
  assumes "buffers_ok (xs @ ys) s" "k < SWC_CURSOR_KIND_COUNT" "xs = (case ci_buffer j of None \<Rightarrow> [] | Some b \<Rightarrow> [b])"
    "ci_active j \<longrightarrow> ci_buffer j \<noteq> None"
  shows "buffers_ok ys ((buffer_unreference (ci_buffer (cursor_images s k)) s)\<lparr>cursor_images := (cursor_images s)(k := j)\<rparr>)"
proof -
  have u: "theme_refs x ((cursor_images s)(k := j)) + of_bool (ci_buffer (cursor_images s k) = Some x) =
      theme_refs x (cursor_images s) + of_bool (ci_buffer j = Some x)" for x
    using assms(2) by (rule theme_refs_upd)
  have r: "buffer_refs s x = holders x s + of_bool (ci_buffer j = Some x) + count_list ys x" for x
    using assms(1,3) by (auto simp: buffers_ok_def split: option.splits)
  have pos: "0 < buffer_refs s x" "theme_refs x (cursor_images s) > 0" if "ci_buffer (cursor_images s k) = Some x" for x
  proof -
    have "k \<in> {l. l < SWC_CURSOR_KIND_COUNT \<and> ci_buffer (cursor_images s l) = Some x}" using assms(2) that by simp
    then show "theme_refs x (cursor_images s) > 0" by (auto simp: theme_refs_def card_gt_0_iff)
    then show "0 < buffer_refs s x" using r [of x] by (simp add: holders_def)
  qed
  let ?t = "(buffer_unreference (ci_buffer (cursor_images s k)) s)\<lparr>cursor_images := (cursor_images s)(k := j)\<rparr>"
  have "buffer_refs ?t x = holders x ?t + count_list ys x" for x
    using r [of x] u [of x] pos [of x]
    by (auto simp: holders_def buffer_unreference_def pt_must_def simp del: fun_upd_apply split: option.split)
      (auto simp: holders_def buffer_unreference_def pt_must_def)
  moreover have "\<not> pointer_fault ?t" "cursor_shows ?t = view_buffer ?t"
    "\<forall>l < SWC_CURSOR_KIND_COUNT. ci_active (cursor_images ?t l) \<longrightarrow> ci_buffer (cursor_images ?t l) \<noteq> None"
    using assms(1,4) pos by (auto simp: buffers_ok_def buffer_unreference_def pt_must_def split: option.splits)
  ultimately show ?thesis by (simp add: buffers_ok_def)
qed

lemma unreference_fields [simp]:
  "cursor_images (buffer_unreference x s) = cursor_images s" "cursor_images (buffer_reference y s) = cursor_images s"
  by (simp_all add: buffer_unreference_def buffer_reference_def pt_must_def split: option.split)

lemma link_ok_simps [simp]:
  "link_ok (buffer_unreference x s) = link_ok s" "link_ok (buffer_reference y s) = link_ok s"
  "link_ok (s\<lparr>cursor_images := i\<rparr>) = link_ok s"
  by (rule link_ok_cong, simp)+

lemma clear_image_ok:
  assumes "cursor_ok s"
  shows "cursor_ok (swc_clear_cursor_image e k s)"
proof (cases "k < SWC_CURSOR_KIND_COUNT")
  case True
  let ?j = "(cursor_images s k)\<lparr>ci_active := False, ci_buffer := None\<rparr>"
  have "buffers_ok [] ((buffer_unreference (ci_buffer (cursor_images s k)) s)\<lparr>cursor_images := (cursor_images s)(k := ?j)\<rparr>)"
    using assms True by (intro theme_image [where xs = "[]"]) (simp_all add: cursor_ok_def)
  then have "cursor_ok ((buffer_unreference (ci_buffer (cursor_images s k)) s)\<lparr>cursor_images := (cursor_images s)(k := ?j)\<rparr>)"
    using assms by (simp add: cursor_ok_def)
  then show ?thesis
    using True by (simp add: swc_clear_cursor_image_def Let_def override_ok)
qed (simp add: swc_clear_cursor_image_def assms)

lemma set_image_ok:
  assumes "cursor_ok s"
  shows "cursor_ok (snd (swc_set_cursor_image e k p w i h b s))"
proof -
  have "cursor_ok ((buffer_unreference (ci_buffer (cursor_images s k)) (buffer_reference x s))
      \<lparr>cursor_images := (cursor_images s)(k := \<lparr>ci_buffer = Some x, ci_hotspot = h, ci_active = True\<rparr>)\<rparr>)"
    if "k < SWC_CURSOR_KIND_COUNT" for x
  proof -
    have "buffers_ok ([x] @ []) (buffer_reference x s)" using assms by (simp add: cursor_ok_def reference_buffers)
    from theme_image [OF this that, of "\<lparr>ci_buffer = Some x, ci_hotspot = h, ci_active = True\<rparr>"]
    show ?thesis using assms by (simp add: cursor_ok_def)
  qed
  then show ?thesis
    using assms by (simp add: swc_set_cursor_image_def Let_def override_ok drop_ok split: option.split)
qed

lemma client_cursor_ok:
  assumes "cursor_ok s"
  shows "cursor_ok (set_cursor e c r n f ok h s)"
proof -
  let ?t = "case cursor_surface s of None \<Rightarrow> s | Some g \<Rightarrow> (take_cursor_view g s)\<lparr>cursor_hook := None\<rparr>"
  have b: "buffers_ok [] (?t\<lparr>cursor_surface := f, hotspot := h\<rparr>)"
    using assms by (simp add: cursor_ok_def buffers_ok_def holders_def take_cursor_view_def split: option.split)
  have l: "cursor_hook ?t = None" "\<not> has_cursor_view ?t g" for g
    using assms by (auto simp: cursor_ok_def link_ok_def take_cursor_view_def split: option.split)
  have "cursor_ok (cursor_view_attach None (?t\<lparr>cursor_surface := f, hotspot := h\<rparr>))" if "f = None"
    using b l that
    by (simp add: cursor_ok_def attach_buffers link_ok_cong [OF link_part_simps(19)]) (simp add: link_ok_def)
  moreover have "cursor_ok ((give_cursor_view e x (update_cursor e (?t\<lparr>cursor_surface := f, hotspot := h\<rparr>)))\<lparr>cursor_hook := Some x\<rparr>)"
    if "f = Some x" for x
  proof -
    let ?u = "update_cursor e (?t\<lparr>cursor_surface := f, hotspot := h\<rparr>)"
    have u: "link_part ?u = link_part (?t\<lparr>cursor_surface := f\<rparr>)" "buffers_ok [] ?u"
      using b by (simp_all add: buffers_ok_cong [OF buffer_part_simps(14)] link_part_def [of "?t\<lparr>cursor_surface := f, hotspot := h\<rparr>"]
          link_part_def [of "?t\<lparr>cursor_surface := f\<rparr>"])
    have "link_part (give_cursor_view e x ?u) = (Some x, None, (has_cursor_view ?t)(x := True))"
      using u(1) l that
      by (simp add: give_cursor_view_def Let_def) (simp add: link_part_def)
    then have "link_ok ((give_cursor_view e x ?u)\<lparr>cursor_hook := Some x\<rparr>)"
      using l by (auto simp: link_ok_def link_part_def)
    then show ?thesis
      using give_buffers [OF u(2)] by (simp add: cursor_ok_def buffers_ok_cong [OF buffer_part_simps(9)])
  qed
  ultimately show ?thesis
    using assms unfolding set_cursor_def Let_def
    by (cases f; cases "cursor_surface s") simp_all
qed

section \<open>What clients are told\<close>

text \<open>The serial of the last enter a resource was sent and has not been left since.\<close>

definition told_by :: "nat \<Rightarrow> pointer_event \<Rightarrow> int option \<Rightarrow> int option" where
  "told_by r x t = (case x of
       Resource_created q \<Rightarrow> if q = r then None else t
     | Enter_sent q n _ _ \<Rightarrow> if q = r then Some n else t
     | Leave_sent q _ _ \<Rightarrow> if q = r then None else t
     | _ \<Rightarrow> t)"

definition last_enter :: "pointer_event list \<Rightarrow> nat \<Rightarrow> int option" where
  "last_enter es r = fold (told_by r) es None"

lemma last_enter_append: "last_enter (es @ fs) r = fold (told_by r) fs (last_enter es r)"
  by (simp add: last_enter_def)

lemma told_by_other: "\<not> is_focus_event x \<Longrightarrow> told_by r x t = t"
  by (cases x) (simp_all add: told_by_def is_focus_event_def)

lemma last_enter_filter: "last_enter (filter is_focus_event es) r = last_enter es r"
proof (induction es rule: rev_induct)
  case (snoc x es)
  then show ?case using told_by_other [of x r] by (simp add: last_enter_append)
qed simp

lemma last_enter_part: "focus_part s = focus_part t \<Longrightarrow> last_enter (pointer_log s) = last_enter (pointer_log t)"
  by (rule ext) (metis focus_part_def last_enter_filter prod.inject)

definition record_names :: "pointer_state \<Rightarrow> nat list" where
  "record_names s = map pr_resource (pointer_resources s)"

definition records_ok :: "pointer_state \<Rightarrow> bool" where
  "records_ok s \<longleftrightarrow> distinct (record_names s) \<and>
     (\<forall>p \<in> set (pointer_resources s). (if entered p then Some (enter_serial p) else None) = last_enter (pointer_log s) (pr_resource p))"

lemma records_ok_cong: "focus_part s = focus_part t \<Longrightarrow> records_ok s = records_ok t"
  using last_enter_part [of s t] by (simp add: records_ok_def record_names_def focus_part_def)

lemma mark_names: "\<forall>p. pr_resource (f p) = pr_resource p \<Longrightarrow> map pr_resource (mark_record r f ps) = map pr_resource ps"
  by (induction ps) simp_all

lemma mark_set:
  assumes "distinct (map pr_resource ps)" "\<forall>p. pr_resource (f p) = pr_resource p"
  shows "set (mark_record r f ps) = (\<lambda>p. if pr_resource p = r then f p else p) ` set ps"
  using assms by (induction ps) (auto simp: image_iff)

lemma told_frame: "fold (told_by r) (frame_if e q) t = t"
  by (simp add: frame_if_def told_by_def)

lemma one_told:
  "last_enter (pointer_log (enter_one e n v q s)) r = (if r = q then Some n else last_enter (pointer_log s) r)"
  "last_enter (pointer_log (leave_one e n v q s)) r = (if r = q then None else last_enter (pointer_log s) r)"
  by (auto simp: enter_one_def leave_one_def pt_emit_def last_enter_append told_frame) (auto simp: told_by_def)

lemma one_records:
  assumes "records_ok s"
  shows "records_ok (enter_one e n v q s)" "records_ok (leave_one e n v q s)"
proof -
  have d: "distinct (map pr_resource (pointer_resources s))" using assms by (simp add: records_ok_def record_names_def)
  have "pointer_resources (enter_one e n v q s) = mark_record q (\<lambda>p. p\<lparr>enter_serial := n, entered := True\<rparr>) (pointer_resources s)"
    "pointer_resources (leave_one e n v q s) = mark_record q (\<lambda>p. p\<lparr>entered := False\<rparr>) (pointer_resources s)"
    by (simp_all add: enter_one_def leave_one_def pt_emit_def)
  then show "records_ok (enter_one e n v q s)" "records_ok (leave_one e n v q s)"
    using assms d by (auto simp: records_ok_def record_names_def mark_names mark_set one_told split: if_splits)
qed

lemma one_frames:
  "record_names (enter_one e n v q s) = record_names s" "record_names (leave_one e n v q s) = record_names s"
  "handler_part (enter_one e n v q s) = handler_part s" "handler_part (leave_one e n v q s) = handler_part s"
  "cursor_part (enter_one e n v q s) = cursor_part s" "cursor_part (leave_one e n v q s) = cursor_part s"
  "pointer_fault (enter_one e n v q s) = pointer_fault s" "pointer_fault (leave_one e n v q s) = pointer_fault s"
  "client_shape_set (enter_one e n v q s) = client_shape_set s" "client_shape_set (leave_one e n v q s) = client_shape_set s"
  by (simp_all add: enter_one_def leave_one_def pt_emit_def record_names_def mark_names handler_part_def cursor_part_def)

lemma all_told:
  "last_enter (pointer_log (fold (enter_one e n v) rs s)) r = (if r \<in> set rs then Some n else last_enter (pointer_log s) r)"
  "last_enter (pointer_log (fold (leave_one e n v) rs s)) r = (if r \<in> set rs then None else last_enter (pointer_log s) r)"
  by (induction rs arbitrary: s) (auto simp: one_told)

lemma all_records: "records_ok s \<Longrightarrow> records_ok (fold (enter_one e n v) rs s)" "records_ok s \<Longrightarrow> records_ok (fold (leave_one e n v) rs s)"
  by (induction rs arbitrary: s) (auto simp: one_records)

lemma all_frames:
  "record_names (fold (enter_one e n v) rs s) = record_names s" "record_names (fold (leave_one e n v) rs s) = record_names s"
  "handler_part (fold (enter_one e n v) rs s) = handler_part s" "handler_part (fold (leave_one e n v) rs s) = handler_part s"
  "cursor_part (fold (enter_one e n v) rs s) = cursor_part s" "cursor_part (fold (leave_one e n v) rs s) = cursor_part s"
  "pointer_fault (fold (enter_one e n v) rs s) = pointer_fault s" "pointer_fault (fold (leave_one e n v) rs s) = pointer_fault s"
  "client_shape_set (fold (enter_one e n v) rs s) = client_shape_set s" "client_shape_set (fold (leave_one e n v) rs s) = client_shape_set s"
  by (induction rs arbitrary: s) (auto simp: one_frames)

section \<open>The pointer owns its focus\<close>

lemma clear_shape_frames:
  "focus_part (pointer_clear_shape e s) = focus_part s" "handler_part (pointer_clear_shape e s) = handler_part s"
  "\<not> client_shape_set (pointer_clear_shape e s)"
proof -
  let ?t = "s\<lparr>client_shape_set := False, client_shape := SWC_CURSOR_DEFAULT\<rparr>"
  have t: "focus_part ?t = focus_part s" "handler_part ?t = handler_part s" "\<not> client_shape_set ?t"
    by (simp_all add: focus_part_def handler_part_def)
  have "off_cursor (pointer_set_cursor e ?t) = off_cursor ?t" by simp
  then have u: "focus_part (pointer_set_cursor e ?t) = focus_part ?t" "handler_part (pointer_set_cursor e ?t) = handler_part ?t"
    "client_shape_set (pointer_set_cursor e ?t) = client_shape_set ?t"
    by (auto simp only: off_cursor_def prod.inject)
  show "focus_part (pointer_clear_shape e s) = focus_part s" "handler_part (pointer_clear_shape e s) = handler_part s"
    "\<not> client_shape_set (pointer_clear_shape e s)"
    using t u by (simp_all add: pointer_clear_shape_def Let_def)
qed

lemma set_cursor_frames:
  "focus_part (pointer_set_cursor e s) = focus_part s" "handler_part (pointer_set_cursor e s) = handler_part s"
  "client_shape_set (pointer_set_cursor e s) = client_shape_set s"
  using off_cursor_set [of e s] by (auto simp only: off_cursor_def prod.inject)

lemma focus_part_names: "focus_part s = focus_part t \<Longrightarrow> record_names s = record_names t"
  by (simp add: focus_part_def record_names_def)

lemma enter_eq:
  "enter e rs v s = (let t = pointer_clear_shape e s
     in if rs = [] then pointer_set_cursor e t
        else fold (enter_one e (fst (next_serial t)) v) rs (pt_must (v \<noteq> None) (snd (next_serial t))))"
  by (simp add: enter_def Let_def split_beta)

lemma pointer_leave_eq:
  "leave e rs v s = fold (leave_one e (fst (next_serial s)) v) rs (pt_must (rs = [] \<or> v \<noteq> None) (snd (next_serial s)))"
  by (simp add: leave_def Let_def split_beta)

lemma part_told:
  "last_enter (pointer_log (pointer_clear_shape e s)) = last_enter (pointer_log s)"
  "last_enter (pointer_log (pointer_set_cursor e s)) = last_enter (pointer_log s)"
  "last_enter (pointer_log (pt_must b s)) = last_enter (pointer_log s)"
  "last_enter (pointer_log (snd (next_serial s))) = last_enter (pointer_log s)"
  by (rule last_enter_part, simp add: clear_shape_frames set_cursor_frames pt_frames)+

lemma enter_told:
  "last_enter (pointer_log (enter e rs v s)) r = (if r \<in> set rs then last_enter (pointer_log (enter e rs v s)) r else last_enter (pointer_log s) r)"
  "r \<in> set rs \<Longrightarrow> last_enter (pointer_log (enter e rs v s)) r \<noteq> None"
  "last_enter (pointer_log (leave e rs v s)) r = (if r \<in> set rs then None else last_enter (pointer_log s) r)"
  by (auto simp: enter_eq pointer_leave_eq Let_def all_told part_told)

text \<open>What a resource was told is that it is entered; an entered resource need know no more.\<close>

definition entered_now :: "pointer_state \<Rightarrow> nat \<Rightarrow> unit option" where
  "entered_now s r = map_option (\<lambda>_. ()) (last_enter (pointer_log s) r)"

interpretation pointer_focus: focus_owner "enter e" "leave e" entered_now "\<lambda>_. ()" for e
proof
  fix rs v k r
  show "entered_now (enter e rs v k) r = (if r \<in> set rs then Some () else entered_now k r)"
    using enter_told(2) [of r rs e v k] enter_told(1) [of e rs v k r] by (auto simp: entered_now_def)
  show "entered_now (leave e rs v k) r = (if r \<in> set rs then None else entered_now k r)"
    by (simp add: entered_now_def enter_told(3))
qed simp_all

lemma enter_handlers: "handler_part (enter e rs v k) = handler_part k" "handler_part (leave e rs v k) = handler_part k"
  by (simp_all add: enter_eq pointer_leave_eq Let_def clear_shape_frames set_cursor_frames all_frames part_basics)

lemma enter_names: "record_names (enter e rs v k) = record_names k" "record_names (leave e rs v k) = record_names k"
proof -
  have n: "record_names (pointer_clear_shape e k) = record_names k" for k
    by (rule focus_part_names) (rule clear_shape_frames)
  have c: "record_names (pointer_set_cursor e k) = record_names k" for k
    by (rule focus_part_names) (rule set_cursor_frames)
  have s: "record_names (snd (next_serial k)) = record_names k" "record_names (pt_must b k) = record_names k" for b k
    by (rule focus_part_names, simp add: pt_frames)+
  show "record_names (enter e rs v k) = record_names k" "record_names (leave e rs v k) = record_names k"
    by (simp_all add: enter_eq pointer_leave_eq Let_def all_frames n c s)
qed

interpretation pointer_frame: focus_frame "enter e" "leave e" "\<lambda>s. (handler_part s, record_names s)" for e
  by unfold_locales (simp_all add: enter_handlers enter_names)

text \<open>
  What the owner's calls keep as long as resources are only entered and left with a view.  A focus in order makes no
  other calls.
\<close>

locale focus_keeps =
  fixes enter :: "'k focus_call" and leave :: "'k focus_call" and holds :: "'k \<Rightarrow> bool"
  assumes keep_enter: "rs = [] \<or> v \<noteq> None \<Longrightarrow> holds k \<Longrightarrow> holds (enter rs v k)"
    and keep_leave: "rs = [] \<or> v \<noteq> None \<Longrightarrow> holds k \<Longrightarrow> holds (leave rs v k)"
begin

lemma focus_view: "focus_ok f \<Longrightarrow> fc_active f = [] \<or> fc_view f \<noteq> None"
  by (cases "fc_active f") (auto simp: focus_ok_def)

lemma keeps_set:
  assumes "focus_ok f" "holds k"
  shows "holds (snd (input_focus_set enter leave v (f, k)))"
proof -
  have "holds (leave (fc_active f) (fc_view f) k)" using focus_view [OF assms(1)] assms(2) by (rule keep_leave)
  then show ?thesis
    using assms
    by (cases v) (auto simp: input_focus_set_def changed_def focus_def unfocus_def Let_def intro!: keep_enter)
qed

lemma keeps_destroyed:
  assumes "focus_ok f" "holds k"
  shows "holds (snd (focus_view_destroyed leave v (f, k)))"
  using assms focus_view [OF assms(1)]
  by (auto simp: focus_view_destroyed_def handle_focus_view_destroy_def changed_def unfocus_def Let_def
      intro!: keep_leave)

lemma keeps_added:
  assumes "focus_ok f" "holds k"
  shows "holds (snd (input_focus_add_resource enter r (f, k)))"
  using assms by (auto simp: input_focus_add_resource_def focus_ok_def intro!: keep_enter)

end

lemma must_simps [simp]:
  "pt_must True s = s" "cursor_ok (snd (next_serial s)) = cursor_ok s"
  by (simp_all add: pt_must_def) (rule cursor_ok_cong, simp_all add: pt_frames)

lemma fold_cursor_ok [simp]:
  "cursor_ok (fold (enter_one e n v) rs s) = cursor_ok s" "cursor_ok (fold (leave_one e n v) rs s) = cursor_ok s"
  by (rule cursor_ok_cong; simp add: all_frames)+

definition told_ok :: "pointer_state \<Rightarrow> bool" where
  "told_ok s \<longleftrightarrow> cursor_ok s \<and> records_ok s"

lemma records_simps [simp]:
  "records_ok (pointer_clear_shape e s) = records_ok s" "records_ok (pointer_set_cursor e s) = records_ok s"
  "records_ok (snd (next_serial s)) = records_ok s" "records_ok (pt_must b s) = records_ok s"
  by (rule records_ok_cong, simp add: clear_shape_frames set_cursor_frames pt_frames)+

interpretation pointer_keeps: focus_keeps "enter e" "leave e" told_ok for e
  by unfold_locales
    (auto simp: told_ok_def enter_eq pointer_leave_eq Let_def set_cursor_ok shape_ok all_records)

section \<open>The whole pointer\<close>

text \<open>
  The records are those of the resources in the focus; resources are told what the focus says; a shape is kept only
  while the pointer is on a view.
\<close>

definition focus_told :: "pointer_state \<Rightarrow> bool" where
  "focus_told s \<longleftrightarrow> pointer_focus.in_step (pt_focus s, s) \<and>
     set (record_names s) = set (fc_active (pt_focus s)) \<union> set (fc_inactive (pt_focus s))"

definition shape_held :: "pointer_state \<Rightarrow> bool" where
  "shape_held s \<longleftrightarrow> (client_shape_set s \<longrightarrow> fc_view (pt_focus s) \<noteq> None)"

definition pointer_ok :: "pointer_state \<Rightarrow> bool" where
  "pointer_ok s \<longleftrightarrow> told_ok s \<and> focus_told s \<and> shape_held s"

lemma entered_part: "focus_part s = focus_part t \<Longrightarrow> entered_now s = entered_now t"
  using last_enter_part [of s t] by (simp add: fun_eq_iff entered_now_def)

lemma focus_told_cong: "focus_part s = focus_part t \<Longrightarrow> focus_told s = focus_told t"
  using entered_part [of s t] focus_part_names [of s t]
  by (simp add: focus_told_def pointer_focus.in_step_def focus_part_def)

lemma in_step_focus_ok: "pointer_focus.in_step (f, k) \<Longrightarrow> focus_ok f"
  by (simp add: pointer_focus.in_step_def)

lemma in_step_log: "last_enter (pointer_log k) = last_enter (pointer_log k') \<Longrightarrow> pointer_focus.in_step (f, k) = pointer_focus.in_step (f, k')"
  by (simp add: pointer_focus.in_step_def entered_now_def)

lemma told_ok_focus [simp]: "told_ok (s\<lparr>pt_focus := f\<rparr>) = told_ok s"
proof -
  have "cursor_ok (s\<lparr>pt_focus := f\<rparr>) = cursor_ok s" by (rule cursor_ok_cong) (simp_all add: cursor_part_def)
  moreover have "records_ok (s\<lparr>pt_focus := f\<rparr>) = records_ok s" by (simp add: records_ok_def record_names_def)
  ultimately show ?thesis by (simp add: told_ok_def)
qed

lemma enter_shape: "\<not> client_shape_set (enter e rs v k)" "client_shape_set (leave e rs v k) = client_shape_set k"
  by (simp_all add: enter_eq pointer_leave_eq Let_def all_frames set_cursor_frames clear_shape_frames part_basics)

text \<open>An operation of the focus, seen from the pointer.\<close>

lemma focus_op_fields:
  assumes "g (pt_focus s, s) = (f, t)"
  shows "pt_focus (focus_op g s) = f" "told_ok (focus_op g s) = told_ok t" "record_names (focus_op g s) = record_names t"
    "handler_part (focus_op g s) = handler_part t" "client_shape_set (focus_op g s) = client_shape_set t"
    "pointer_focus.in_step (f, focus_op g s) = pointer_focus.in_step (f, t)"
proof -
  show "told_ok (focus_op g s) = told_ok t" using assms by (simp add: focus_op_def)
  show "pointer_focus.in_step (f, focus_op g s) = pointer_focus.in_step (f, t)"
    using assms by (intro in_step_log) (simp add: focus_op_def)
qed (use assms in \<open>simp_all add: focus_op_def record_names_def handler_part_def\<close>)

lemma input_set_parts:
  assumes "input_focus_set ent lea v (f, k) = (f', t)"
  shows "fc_view f' = v" "set (fc_active f') \<union> set (fc_inactive f') = set (fc_active f) \<union> set (fc_inactive f)"
    "t = (if v = fc_view f then k else ent (fc_active f') v (lea (fc_active f) (fc_view f) k))"
  using assms
  by (cases v; auto simp: input_focus_set_def changed_def focus_def unfocus_def Let_def split: if_splits)+

lemma set_focus_result:
  assumes "pointer_ok s"
  shows "told_ok (focus_op (input_focus_set (enter e) (leave e) v) s)"
    "focus_told (focus_op (input_focus_set (enter e) (leave e) v) s)"
    "fc_view (pt_focus (focus_op (input_focus_set (enter e) (leave e) v) s)) = v"
    "v \<noteq> fc_view (pt_focus s) \<Longrightarrow> \<not> client_shape_set (focus_op (input_focus_set (enter e) (leave e) v) s)"
    "v = fc_view (pt_focus s) \<Longrightarrow> client_shape_set (focus_op (input_focus_set (enter e) (leave e) v) s) = client_shape_set s"
proof -
  let ?g = "input_focus_set (enter e) (leave e) v"
  obtain f t where g: "?g (pt_focus s, s) = (f, t)" by (metis surj_pair)
  have i: "pointer_focus.in_step (pt_focus s, s)" using assms by (simp add: pointer_ok_def focus_told_def)
  note n = focus_op_fields [where g = ?g, OF g]
  note parts = input_set_parts [OF g]
  have "pointer_focus.in_step (f, t)" using pointer_focus.set_in_step [OF i, where e = e and v = v] g by simp
  moreover have "record_names t = record_names s"
    using pointer_frame.focus_frames(1) [where e = e and v = v and f = "pt_focus s" and k = s] g by simp
  moreover note parts(2)
  ultimately show "focus_told (focus_op ?g s)"
    using assms n by (simp add: focus_told_def pointer_ok_def)
  have "told_ok t"
    using pointer_keeps.keeps_set [OF in_step_focus_ok [OF i], where k = s and e = e and v = v] assms g by (simp add: pointer_ok_def)
  then show "told_ok (focus_op ?g s)" using n by simp
  show "fc_view (pt_focus (focus_op ?g s)) = v"
    using parts n by simp
  show "\<not> client_shape_set (focus_op ?g s)" if "v \<noteq> fc_view (pt_focus s)"
    using parts n that by (simp add: enter_shape)
  show "client_shape_set (focus_op ?g s) = client_shape_set s" if "v = fc_view (pt_focus s)"
    using parts n that by simp
qed

lemma told_ok_update [simp]: "told_ok (pointer_constraints_update_focus e s) = told_ok s"
  by (simp add: told_ok_def cursor_ok_cong [OF update_focus_parts(1,5)] records_ok_cong [OF update_focus_parts(2)])

lemma clear_told: "told_ok s \<Longrightarrow> told_ok (pointer_clear_shape e s)" "told_ok s \<Longrightarrow> told_ok (pointer_set_cursor e s)"
  by (simp_all add: told_ok_def shape_ok set_cursor_ok)

lemma focus_changed_ok:
  assumes "told_ok s" "focus_told s"
  shows "told_ok (handle_focus_changed e s)" "focus_part (handle_focus_changed e s) = focus_part s"
    "handler_part (handle_focus_changed e s) = handler_part s"
    "client_shape_set (handle_focus_changed e s) \<longleftrightarrow> client_shape_set s \<and> fc_view (pt_focus s) \<noteq> None"
  using assms
  by (auto simp: handle_focus_changed_def Let_def clear_told clear_shape_frames set_cursor_frames update_focus_parts)

lemma focus_part_focus: "focus_part s = focus_part t \<Longrightarrow> pt_focus s = pt_focus t"
  by (simp add: focus_part_def)

lemma pointer_focus_set_ok:
  assumes "pointer_ok s"
  shows "pointer_ok (pointer_set_focus e v s)" "handler_part (pointer_set_focus e v s) = handler_part s"
proof -
  let ?t = "focus_op (input_focus_set (enter e) (leave e) v) s"
  note r = set_focus_result [OF assms, where e = e and v = v]
  let ?u = "if v \<noteq> fc_view (pt_focus s) then handle_focus_changed e ?t else ?t"
  have p: "focus_part ?u = focus_part ?t" using focus_changed_ok(2) [OF r(1,2)] by (simp only: simp_thms split: if_split)
  then have f: "focus_told ?u" "pt_focus ?u = pt_focus ?t" using r(2) by (simp_all add: focus_told_cong [OF p] focus_part_focus [OF p])
  have u: "told_ok ?u" using focus_changed_ok(1) [OF r(1,2)] r(1) by (simp only: simp_thms split: if_split)
  have "client_shape_set ?u \<longrightarrow> v \<noteq> None"
    using r(3-5) focus_changed_ok(4) [OF r(1,2)] assms by (auto simp: pointer_ok_def shape_held_def)
  then have "pointer_ok (pointer_constraints_update_focus (around e) ?u)"
    using u f r(3) by (simp add: pointer_ok_def shape_held_def focus_told_cong [OF update_focus_parts(2)] update_focus_parts)
  then show "pointer_ok (pointer_set_focus e v s)"
    using assms by (simp add: pointer_set_focus_def Let_def)
  obtain f' t' where g: "input_focus_set (enter e) (leave e) v (pt_focus s, s) = (f', t')" by (metis surj_pair)
  have "handler_part ?t = handler_part s"
    using pointer_frame.focus_frames(1) [where e = e and v = v and f = "pt_focus s" and k = s] g
      focus_op_fields(4) [where g = "input_focus_set (enter e) (leave e) v", OF g] by simp
  then show "handler_part (pointer_set_focus e v s) = handler_part s"
    using focus_changed_ok(3) [OF r(1,2)]
    by (simp only: pointer_set_focus_def Let_def update_focus_parts simp_thms split: if_split)
qed

lemma view_destroyed_ok:
  assumes "pointer_ok s"
  shows "pointer_ok (pointer_view_destroyed e v s)" "handler_part (pointer_view_destroyed e v s) = handler_part s"
proof -
  let ?g = "focus_view_destroyed (leave e) v"
  obtain f t where g: "?g (pt_focus s, s) = (f, t)" by (metis surj_pair)
  have i: "pointer_focus.in_step (pt_focus s, s)" using assms by (simp add: pointer_ok_def focus_told_def)
  note n = focus_op_fields [where g = ?g, OF g]
  have "pointer_focus.in_step (f, t)" using pointer_focus.destroyed_in_step [OF i, where e = e and v = v] g by simp
  moreover have "record_names t = record_names s" "handler_part t = handler_part s"
    using pointer_frame.focus_frames(2) [where e = e and w = v and f = "pt_focus s" and k = s] g by simp_all
  moreover have "set (fc_active f) \<union> set (fc_inactive f) = set (fc_active (pt_focus s)) \<union> set (fc_inactive (pt_focus s))"
    using g by (auto simp: focus_view_destroyed_def handle_focus_view_destroy_def changed_def unfocus_def Let_def split: if_splits)
  moreover have "told_ok t"
    using pointer_keeps.keeps_destroyed [OF in_step_focus_ok [OF i], where k = s and e = e and v = v] assms g
    by (simp add: pointer_ok_def)
  ultimately have o: "told_ok (focus_op ?g s)" "focus_told (focus_op ?g s)" "handler_part (focus_op ?g s) = handler_part s"
    using assms n by (simp_all add: focus_told_def pointer_ok_def)
  have gone: "fc_linked (pt_focus s) = Some v \<Longrightarrow> fc_view f = None"
    using g by (auto simp: focus_view_destroyed_def handle_focus_view_destroy_def changed_def Let_def split: prod.splits)
  note c = focus_changed_ok [OF o(1,2), of e]
  have "focus_told (handle_focus_changed e (focus_op ?g s))" "pt_focus (handle_focus_changed e (focus_op ?g s)) = f"
    using o(2) n(1) focus_told_cong [OF c(2)] focus_part_focus [OF c(2)] by simp_all
  then have "fc_linked (pt_focus s) = Some v \<Longrightarrow> pointer_ok (handle_focus_changed e (focus_op ?g s))"
    using c(1,4) n(1) gone by (simp add: pointer_ok_def shape_held_def)
  then show "pointer_ok (pointer_view_destroyed e v s)" "handler_part (pointer_view_destroyed e v s) = handler_part s"
    using assms focus_changed_ok(3) [OF o(1,2), of e] o by (simp_all add: pointer_view_destroyed_def)
qed

lemma bind_ok:
  assumes "pointer_ok s" "r \<notin> set (record_names s)"
  shows "pointer_ok (pointer_bind e (Some r) s)" "handler_part (pointer_bind e (Some r) s) = handler_part s"
proof -
  let ?s = "(pt_emit [Resource_created r] s)\<lparr>pointer_resources := \<lparr>pr_resource = r, enter_serial = 0, entered = False\<rparr> # pointer_resources s\<rparr>"
  let ?g = "input_focus_add_resource (enter e) r"
  have b: "pt_focus ?s = pt_focus s" "record_names ?s = r # record_names s" "handler_part ?s = handler_part s"
    "client_shape_set ?s = client_shape_set s"
    by (simp_all add: pt_emit_def record_names_def handler_part_def)
  have l: "last_enter (pointer_log ?s) q = (if q = r then None else last_enter (pointer_log s) q)" for q
    by (simp add: pt_emit_def last_enter_append told_by_def)
  have "records_ok ?s"
    using assms l b(2) by (auto simp: pointer_ok_def told_ok_def records_ok_def record_names_def)
  moreover have "cursor_ok ?s = cursor_ok s"
    by (rule cursor_ok_cong) (simp_all add: cursor_part_def pt_emit_def)
  ultimately have t: "told_ok ?s" using assms by (simp add: pointer_ok_def told_ok_def)
  have fresh: "r \<notin> set (fc_active (pt_focus s)) \<union> set (fc_inactive (pt_focus s))"
    using assms by (auto simp: pointer_ok_def focus_told_def)
  have i: "pointer_focus.in_step (pt_focus s, ?s)"
    using assms fresh l by (auto simp: pointer_ok_def focus_told_def pointer_focus.in_step_def entered_now_def)
  obtain f t where g: "?g (pt_focus s, ?s) = (f, t)" by (metis surj_pair)
  have n: "pt_focus (focus_op ?g ?s) = f" "told_ok (focus_op ?g ?s) = told_ok t" "record_names (focus_op ?g ?s) = record_names t"
    "handler_part (focus_op ?g ?s) = handler_part t" "client_shape_set (focus_op ?g ?s) = client_shape_set t"
    "pointer_focus.in_step (f, focus_op ?g ?s) = pointer_focus.in_step (f, t)"
    using focus_op_fields [where g = ?g and s = ?s] g b(1) by simp_all
  have "entered_now ?s r = None" using l by (simp add: entered_now_def)
  then have "pointer_focus.in_step (f, t)"
    using pointer_focus.add_in_step [OF i fresh, where e = e] g by simp
  moreover have "record_names t = r # record_names s" "handler_part t = handler_part s"
    using pointer_frame.focus_frames(3) [where e = e and r = r and f = "pt_focus s" and k = ?s] g b by simp_all
  moreover have "set (fc_active f) \<union> set (fc_inactive f) = insert r (set (fc_active (pt_focus s)) \<union> set (fc_inactive (pt_focus s)))"
    using g by (auto simp: input_focus_add_resource_def split: if_splits)
  moreover have "told_ok t"
    using pointer_keeps.keeps_added [OF in_step_focus_ok [OF i] t, where e = e and r = r] g by simp
  moreover have "client_shape_set t \<longrightarrow> client_shape_set s" "fc_view f = fc_view (pt_focus s)"
    using g b enter_shape(1) by (auto simp: input_focus_add_resource_def split: if_splits)
  ultimately show "pointer_ok (pointer_bind e (Some r) s)" "handler_part (pointer_bind e (Some r) s) = handler_part s"
    using assms n by (auto simp: pointer_bind_def pointer_ok_def focus_told_def shape_held_def)
qed

lemma unbind_ok:
  assumes "pointer_ok s"
  shows "pointer_ok (pointer_unbind r s)" "handler_part (pointer_unbind r s) = handler_part s"
proof -
  let ?f = "input_focus_remove_resource r (pt_focus s)"
  define ps where "ps = filter (\<lambda>p. pr_resource p \<noteq> r) (pointer_resources s)"
  have d: "distinct (map pr_resource (pointer_resources s))"
    using assms by (simp add: pointer_ok_def told_ok_def records_ok_def record_names_def)
  have del: "(case find (\<lambda>p. pr_resource p = r) qs of None \<Rightarrow> qs | Some p \<Rightarrow> remove1 p qs) = filter (\<lambda>p. pr_resource p \<noteq> r) qs"
    if "distinct (map pr_resource qs)" for qs
    using that
  proof (induction qs)
    case (Cons q qs)
    show ?case
    proof (cases "pr_resource q = r")
      case True
      then have "\<forall>p \<in> set qs. pr_resource p \<noteq> r" using Cons.prems by (metis distinct.simps(2) image_eqI list.simps(9) set_map)
      then show ?thesis using True by simp
    next
      case False
      then have "q \<noteq> p" if "find (\<lambda>p. pr_resource p = r) qs = Some p" for p using that by (auto simp: find_Some_iff)
      then show ?thesis using Cons False by (auto split: option.splits)
    qed
  qed simp
  have u: "pointer_unbind r s = s\<lparr>pt_focus := ?f, pointer_resources := ps\<rparr>"
    using del [OF d] by (auto simp: pointer_unbind_def find_pointer_resource_def Let_def ps_def split: option.splits)
  have "told_ok (s\<lparr>pt_focus := ?f, pointer_resources := ps\<rparr>)"
  proof -
    have "cursor_ok (s\<lparr>pt_focus := ?f, pointer_resources := ps\<rparr>) = cursor_ok s"
      by (rule cursor_ok_cong) (simp_all add: cursor_part_def)
    moreover have "records_ok (s\<lparr>pt_focus := ?f, pointer_resources := ps\<rparr>)"
      using assms d by (auto simp: pointer_ok_def told_ok_def records_ok_def record_names_def ps_def intro: distinct_map_filter)
    ultimately show ?thesis using assms by (simp add: pointer_ok_def told_ok_def)
  qed
  moreover have "pointer_focus.in_step (?f, s)"
    using assms by (intro pointer_focus.remove_in_step) (simp add: pointer_ok_def focus_told_def)
  moreover have "set (map pr_resource ps) = set (fc_active ?f) \<union> set (fc_inactive ?f)"
  proof -
    have "focus_ok (pt_focus s)" using assms by (auto simp: pointer_ok_def focus_told_def dest: in_step_focus_ok)
    moreover have "set (map pr_resource ps) = set (record_names s) - {r}" by (auto simp: ps_def record_names_def)
    ultimately show ?thesis
      using assms by (auto simp: pointer_ok_def focus_told_def input_focus_remove_resource_def focus_ok_def)
  qed
  ultimately show "pointer_ok (pointer_unbind r s)" "handler_part (pointer_unbind r s) = handler_part s"
    using assms unfolding u
    by (simp_all add: pointer_ok_def focus_told_def shape_held_def record_names_def handler_part_def
        input_focus_remove_resource_def in_step_log [of "s\<lparr>pt_focus := g, pointer_resources := ps\<rparr>" s for g])
qed

section \<open>Calls and events\<close>

text \<open>
  Everything else that may happen to the pointer.  The constraints change only what is theirs, which
  \<open>Pointer_Motion_Safety\<close> is about; handlers of other parts come and go, and may take over a held button.
\<close>

inductive pointer_call :: "pointer_env \<Rightarrow> pointer_state \<Rightarrow> pointer_state \<Rightarrow> bool" for e where
  Focus: "pointer_call e s (pointer_set_focus e v s)"
| View_gone: "pointer_call e s (pointer_view_destroyed e v s)"
| Bind: "r \<notin> set (record_names s) \<Longrightarrow> pointer_call e s (pointer_bind e (Some r) s)"
| Unbind: "pointer_call e s (pointer_unbind r s)"
| Request: "pointer_call e s (set_cursor e client r serial surface role_ok h s)"
| Shape: "pointer_call e s (device_set_shape e client device pointer serial shape s)"
| Surface_gone: "pointer_call e s (surface_destroyed e f s)"
| Surface_changed: "has_cursor_view s f \<Longrightarrow> pointer_call e s (cursor_update e (s\<lparr>surface_damaged := (surface_damaged s)(f := True)\<rparr>))"
| Frame_ready: "pointer_call e s (cursor_frame_ready e s)"
| Activity: "pointer_call e s (handle_activity_changed e (s\<lparr>swc_active := a\<rparr>))"
| Set_kind: "pointer_call e s (swc_set_cursor e kind s)"
| Set_mode: "pointer_call e s (swc_set_cursor_mode e m s)"
| Set_image: "pointer_call e s (snd (swc_set_cursor_image e kind pixels width height hot created s))"
| Clear_image: "pointer_call e s (swc_clear_cursor_image e kind s)"
| Grab_begin: "pointer_call e s (snd (swc_pointer_grab_begin handler s))"
| Grab_end: "pointer_call e s (swc_pointer_grab_end s)"
| Mode_begin: "pointer_call e s (snd (swc_input_mode_begin e screen handler allowed s))"
| Mode_end: "pointer_call e s (swc_input_mode_end s)"
| Select_grab: "pointer_call e s (handle_grab e s)"
| Select_bind: "pointer_call e s (bind_select q s)"
| Select_gone: "pointer_call e s (select_resource_destroy e r s)"
| Send_button: "pointer_call e s (swc_pointer_send_button e time button pressed s)"
| Send_axis: "pointer_call e s (swc_pointer_send_axis e time axis value value120 s)"
| Relative: "pointer_call e s (relative_pointer_send_motion relatives time d raw s)"
| Warp: "pointer_call e s (update_cursor e (pointer_warp (fixed e) x y s))"
| Region: "pointer_call e s (pointer_set_region (fixed e) region s)"
| Constraints: "pointer_call e s (s\<lparr>constraint_list := l, constraint_at := at, active_constraint := c, cn_log := g\<rparr>)"
| Link: "4 \<le> h \<Longrightarrow> h \<notin> set (pointer_handlers s) \<Longrightarrow> pointer_call e s (s\<lparr>pointer_handlers := h # pointer_handlers s\<rparr>)"
| Unlink: "4 \<le> h \<Longrightarrow> pointer_call e s (s\<lparr>pointer_handlers := remove1 h (pointer_handlers s)\<rparr>)"
| Repoint: "pointer_call e s (s\<lparr>held_buttons := map (\<lambda>b. if press_serial b = serial then b\<lparr>press_handler := to\<rparr> else b) (held_buttons s)\<rparr>)"

text \<open>A callback of the window manager and a handler of another part act on the pointer through these calls.\<close>

definition callbacks_call :: "pointer_env \<Rightarrow> pointer_callbacks \<Rightarrow> bool" where
  "callbacks_call e cb \<longleftrightarrow>
     (\<forall>h time x y s. (pointer_call e)\<^sup>*\<^sup>* s (wm_motion cb h time x y s)) \<and>
     (\<forall>h x y s. (pointer_call e)\<^sup>*\<^sup>* s (mode_motion cb h x y s)) \<and>
     (\<forall>h v s. (pointer_call e)\<^sup>*\<^sup>* s (mode_button cb h v s)) \<and>
     (\<forall>h s. (pointer_call e)\<^sup>*\<^sup>* s (mode_cancel cb h s)) \<and>
     (\<forall>h c s. (pointer_call e)\<^sup>*\<^sup>* s (snd (other_call cb h c s)))"

inductive pointer_event_step :: "pointer_env \<Rightarrow> pointer_callbacks \<Rightarrow> pointer_state \<Rightarrow> pointer_state \<Rightarrow> bool" for e cb where
  Call: "pointer_call e s t \<Longrightarrow> pointer_event_step e cb s t"
| Button: "pointer_event_step e cb s (pointer_handle_button e cb room time value pressed s)"
| Scroll: "pointer_event_step e cb s (pointer_handle_axis e cb time axis source value value120 s)"
| Absolute: "pointer_event_step e cb s (pointer_handle_absolute_motion e cb nearer time x y s)"
| Relative_motion: "pointer_event_step e cb s (pointer_handle_relative_motion e cb nearer time dx dy s)"
| Frame: "pointer_event_step e cb s (pointer_handle_frame e cb s)"
| Cancel_mode: "pointer_event_step e cb s (input_mode_cancel cb s)"

text \<open>A step may see other views and screens than the one before.\<close>

inductive pointer_reachable :: "pointer_state \<Rightarrow> bool" where
  Start: "pointer_reachable (pointer_initialize e rc sc geometry active)"
| Step: "pointer_reachable s \<Longrightarrow> callbacks_call e cb \<Longrightarrow> pointer_event_step e cb s t \<Longrightarrow> pointer_reachable t"

text \<open>The handlers of this file are linked while they are in use, and once.\<close>

definition handlers_linked :: "pointer_state \<Rightarrow> bool" where
  "handlers_linked s \<longleftrightarrow> distinct (pointer_handlers s) \<and> CLIENT_HANDLER \<in> set (pointer_handlers s) \<and>
     (GRAB_HANDLER \<in> set (pointer_handlers s) \<longleftrightarrow> wm_grab s \<noteq> None) \<and>
     (MODE_HANDLER \<in> set (pointer_handlers s) \<longleftrightarrow> input_mode s \<noteq> None) \<and>
     (SELECT_HANDLER \<in> set (pointer_handlers s) \<longleftrightarrow> select_state s \<noteq> STATE_NONE)"

definition pointer_inv :: "pointer_state \<Rightarrow> bool" where
  "pointer_inv s \<longleftrightarrow> pointer_ok s \<and> handlers_linked s"

lemma pointer_ok_off:
  assumes "pointer_ok s" "off_cursor t = off_cursor s" "cursor_ok t"
  shows "pointer_ok t" "handler_part t = handler_part s"
proof -
  have p: "focus_part t = focus_part s" "client_shape_set t = client_shape_set s"
    using assms(2) by (auto simp only: off_cursor_def prod.inject)
  show "pointer_ok t"
    using assms(1,3) p records_ok_cong [OF p(1)] focus_told_cong [OF p(1)] focus_part_focus [OF p(1)]
    by (simp add: pointer_ok_def told_ok_def shape_held_def)
  show "handler_part t = handler_part s" using assms(2) by (auto simp only: off_cursor_def prod.inject)
qed

lemma pointer_ok_same:
  assumes "cursor_part t = cursor_part s" "focus_part t = focus_part s" "client_shape_set t = client_shape_set s"
    "pointer_fault t = pointer_fault s"
  shows "pointer_ok t = pointer_ok s"
  using cursor_ok_cong [OF assms(1,4)] assms(3) records_ok_cong [OF assms(2)] focus_told_cong [OF assms(2)]
    focus_part_focus [OF assms(2)]
  by (simp add: pointer_ok_def told_ok_def shape_held_def)

lemma ok_cursor: "pointer_ok s \<Longrightarrow> cursor_ok s"
  by (simp add: pointer_ok_def told_ok_def)

lemma links_same: "handler_part t = handler_part s \<Longrightarrow> handlers_linked t = handlers_linked s"
  by (simp add: handlers_linked_def handler_part_def)

text \<open>Operations of the cursor.\<close>

lemma inv_off: "pointer_inv s \<Longrightarrow> off_cursor t = off_cursor s \<Longrightarrow> (cursor_ok s \<Longrightarrow> cursor_ok t) \<Longrightarrow> pointer_inv t"
  using pointer_ok_off [of s t] links_same [of t s] ok_cursor [of s] by (simp add: pointer_inv_def)

lemma set_kind_ok: "cursor_ok s \<Longrightarrow> cursor_ok (swc_set_cursor e k s)" "cursor_ok s \<Longrightarrow> cursor_ok (swc_set_cursor_mode e m s)"
  by (simp_all add: swc_set_cursor_def swc_set_cursor_mode_def Let_def override_ok drop_ok)

lemma inv_cursor:
  assumes "pointer_inv s"
  shows "pointer_inv (set_cursor e client r serial surface role_ok h s)" "pointer_inv (surface_destroyed e f s)"
    "pointer_inv (cursor_update e s)" "pointer_inv (cursor_frame_ready e s)" "pointer_inv (update_cursor e s)"
    "pointer_inv (swc_set_cursor e kind s)" "pointer_inv (swc_set_cursor_mode e m s)"
    "pointer_inv (snd (swc_set_cursor_image e kind pixels width height hot created s))"
    "pointer_inv (swc_clear_cursor_image e kind s)" "pointer_inv (s\<lparr>surface_damaged := d\<rparr>)"
  by (rule inv_off [OF assms]; simp add: client_cursor_ok surface_gone_ok view_ops_ok set_kind_ok set_image_ok clear_image_ok)+

lemma inv_same:
  assumes "pointer_inv s" "cursor_part t = cursor_part s" "focus_part t = focus_part s" "client_shape_set t = client_shape_set s"
    "pointer_fault t = pointer_fault s" "handler_part t = handler_part s"
  shows "pointer_inv t"
  using assms pointer_ok_same [OF assms(2-5)] links_same [OF assms(6)] by (simp add: pointer_inv_def)

lemma inv_fields:
  assumes "pointer_inv s"
  shows "pointer_inv (s\<lparr>swc_active := a\<rparr>)" "pointer_inv (s\<lparr>handler_pending := p\<rparr>)" "pointer_inv (s\<lparr>client_axis_source := x\<rparr>)"
    "pointer_inv (s\<lparr>serials := ring\<rparr>)" "pointer_inv (s\<lparr>pointer_inside := i\<rparr>)" "pointer_inv (s\<lparr>assert_failed := b\<rparr>)"
    "pointer_inv (s\<lparr>walk_fault := b\<rparr>)" "pointer_inv (set_pending h s)"
    "pointer_inv (s\<lparr>constraint_list := l, constraint_at := at, active_constraint := c, cn_log := g\<rparr>)"
    "pointer_inv (s\<lparr>pt_region := r\<rparr>)" "pointer_inv (s\<lparr>select_start := q\<rparr>)" "pointer_inv (s\<lparr>select_resources := rs\<rparr>)"
  by (rule inv_same [OF assms]; simp add: cursor_part_def focus_part_def handler_part_def set_pending_def
      split: option.split)+

lemma inv_moves:
  assumes "pointer_inv s"
  shows "pointer_inv (snd (next_serial s))" "pointer_inv (clip_position fo fx fy s)"
    "pointer_inv (pointer_constraints_update_focus ce s)"
  by (rule inv_same [OF assms]; simp add: pt_frames)+

lemma inv_emit: "pointer_inv s \<Longrightarrow> \<forall>x \<in> set es. \<not> is_focus_event x \<Longrightarrow> pointer_inv (pt_emit es s)"
  by (rule inv_same [of s "pt_emit es s"]) (assumption | simp only: part_basics emit_focus_part)+

lemma inv_held: "pointer_inv (s\<lparr>held_buttons := bs\<rparr>) = pointer_inv s"
  using pointer_ok_same [of "s\<lparr>held_buttons := bs\<rparr>" s]
  by (simp add: pointer_inv_def handlers_linked_def cursor_part_def focus_part_def)

text \<open>Operations of the focus.\<close>

lemma inv_focus:
  assumes "pointer_inv s"
  shows "pointer_inv (pointer_set_focus e w s)" "pointer_inv (pointer_view_destroyed e v s)"
    "r \<notin> set (record_names s) \<Longrightarrow> pointer_inv (pointer_bind e (Some r) s)" "pointer_inv (pointer_unbind q s)"
proof -
  have i: "pointer_ok s" "handlers_linked s" using assms by (simp_all add: pointer_inv_def)
  show "pointer_inv (pointer_set_focus e w s)"
    using i links_same [OF pointer_focus_set_ok(2) [OF i(1)]] by (simp add: pointer_inv_def pointer_focus_set_ok)
  show "pointer_inv (pointer_view_destroyed e v s)"
    using i links_same [OF view_destroyed_ok(2) [OF i(1)]] by (simp add: pointer_inv_def view_destroyed_ok)
  show "pointer_inv (pointer_bind e (Some r) s)" if "r \<notin> set (record_names s)"
    using i that links_same [OF bind_ok(2) [OF i(1) that]] by (simp add: pointer_inv_def bind_ok)
  show "pointer_inv (pointer_unbind q s)"
    using i links_same [OF unbind_ok(2) [OF i(1)]] by (simp add: pointer_inv_def unbind_ok)
qed

lemma valid_view: "pointer_cursor_serial_valid r c n s \<Longrightarrow> fc_view (pt_focus s) \<noteq> None"
  by (auto simp: pointer_cursor_serial_valid_def split: option.splits)

lemma inv_shape:
  assumes "pointer_inv s"
  shows "pointer_inv (device_set_shape e client device pointer serial shape s)"
proof -
  have "pointer_inv (pointer_set_shape e k s)" if "fc_view (pt_focus s) \<noteq> None" for k
  proof (cases "k < SWC_CURSOR_KIND_COUNT")
    case True
    let ?d = "drop_client_cursor_surface s"
    let ?t = "?d\<lparr>client_shape := k, client_shape_set := True\<rparr>"
    have d: "off_cursor ?d = off_cursor s" by simp
    have p: "focus_part ?t = focus_part s" "handler_part ?t = handler_part s" "client_shape_set ?t"
      using d by (auto simp: off_cursor_def focus_part_def handler_part_def)
    have "cursor_ok ?t" using assms by (simp add: drop_ok ok_cursor pointer_inv_def)
    then have "pointer_inv ?t"
      using assms that p records_ok_cong [OF p(1)] focus_told_cong [OF p(1)] focus_part_focus [OF p(1)] links_same [OF p(2)]
      by (simp add: pointer_inv_def pointer_ok_def told_ok_def shape_held_def)
    then show ?thesis
      using inv_off [of ?t "pointer_set_cursor e ?t"] True by (simp add: pointer_set_shape_def set_cursor_ok)
  qed (simp add: pointer_set_shape_def assms)
  then show ?thesis
    using assms inv_emit [OF assms, of "[Shape_error_sent device]"]
    by (auto simp: device_set_shape_def is_focus_event_def dest: valid_view split: option.split)
qed

text \<open>The handlers.\<close>

lemma inv_links:
  assumes "pointer_ok s" "pointer_ok s \<Longrightarrow> pointer_ok t" "handlers_linked t"
  shows "pointer_inv t"
  using assms by (simp add: pointer_inv_def)

lemma ok_links:
  "pointer_ok (s\<lparr>pointer_handlers := hs\<rparr>) = pointer_ok s" "pointer_ok (s\<lparr>wm_grab := g\<rparr>) = pointer_ok s"
  "pointer_ok (s\<lparr>input_mode := m\<rparr>) = pointer_ok s" "pointer_ok (s\<lparr>select_state := z\<rparr>) = pointer_ok s"
  "pointer_ok (s\<lparr>pointer_inside := i\<rparr>) = pointer_ok s" "pointer_ok (s\<lparr>handler_pending := p\<rparr>) = pointer_ok s"
  by (rule pointer_ok_same; simp add: cursor_part_def focus_part_def)+

lemma inv_grab:
  assumes "pointer_inv s"
  shows "pointer_inv (snd (swc_pointer_grab_begin h s))" "pointer_inv (swc_pointer_grab_end s)"
  using assms
  by (auto simp: swc_pointer_grab_begin_def swc_pointer_grab_end_def Let_def pointer_inv_def ok_links handlers_linked_def
      split: option.split)

lemma inv_mode:
  assumes "pointer_inv s"
  shows "pointer_inv (snd (swc_input_mode_begin e g h a s))" "pointer_inv (swc_input_mode_end s)"
proof -
  have "pointer_inv (s\<lparr>input_mode := Some (x, y), pointer_inside := i, pointer_handlers := MODE_HANDLER # pointer_handlers s\<rparr>)"
    if "input_mode s = None" for x y i
    using assms that by (simp add: pointer_inv_def ok_links handlers_linked_def)
  then show "pointer_inv (snd (swc_input_mode_begin e g h a s))"
    using assms
    by (cases "input_mode s")
      (auto simp: swc_input_mode_begin_def Let_def is_focus_event_def intro!: inv_focus inv_emit split: option.split)
  show "pointer_inv (swc_input_mode_end s)"
    using assms by (simp add: swc_input_mode_end_def pointer_inv_def ok_links handlers_linked_def)
qed

lemma inv_select:
  assumes "pointer_inv s"
  shows "pointer_inv (handle_grab e s)" "pointer_inv (bind_select q s)" "pointer_inv (select_resource_destroy e r s)"
    "pointer_inv (snd (select_handle_motion e x y s))" "pointer_inv (snd (select_handle_button e pressed s))"
proof -
  have out: "pointer_inv (t\<lparr>pointer_handlers := remove1 SELECT_HANDLER (pointer_handlers t), select_state := STATE_NONE\<rparr>)"
    if "pointer_inv t" for t
    using that by (simp add: pointer_inv_def ok_links handlers_linked_def)
  have into: "pointer_inv (s\<lparr>select_state := STATE_WAIT, pointer_handlers := SELECT_HANDLER # pointer_handlers s\<rparr>)"
    if "select_state s = STATE_NONE"
    using assms that by (simp add: pointer_inv_def ok_links handlers_linked_def)
  have drag: "pointer_inv (s\<lparr>select_start := at, select_state := STATE_DRAG\<rparr>)" if "select_state s = STATE_WAIT" for at
    using inv_fields(11) [OF assms, of at] that by (simp add: pointer_inv_def ok_links handlers_linked_def)
  show "pointer_inv (handle_grab e s)"
    using assms into by (simp add: handle_grab_def inv_cursor)
  show "pointer_inv (bind_select q s)"
    using assms by (simp add: bind_select_def inv_fields split: option.split)
  show "pointer_inv (select_resource_destroy e r s)"
    using inv_fields(12) [OF assms] inv_cursor(6) [OF out [OF inv_fields(12) [OF assms]]]
    by (simp only: select_resource_destroy_def Let_def simp_thms split: if_split)
  show "pointer_inv (snd (select_handle_motion e x y s))"
    using assms by (auto simp: select_handle_motion_def is_focus_event_def intro!: inv_emit)
  show "pointer_inv (snd (select_handle_button e pressed s))"
    using assms drag out [OF assms]
    by (auto simp: select_handle_button_def Let_def is_focus_event_def intro!: inv_emit inv_cursor)
qed

lemma client_events:
  "\<forall>x \<in> set (frame_if e r). \<not> is_focus_event x" "\<forall>x \<in> set (axis_events e t ax src v w r). \<not> is_focus_event x"
  by (auto simp: frame_if_def axis_events_def Let_def is_focus_event_def split: option.splits)

lemma inv_sent:
  assumes "pointer_inv s"
  shows "pointer_inv (swc_pointer_send_button e time button pressed s)" "pointer_inv (swc_pointer_send_axis e time axis value w s)"
    "pointer_inv (relative_pointer_send_motion relatives time d raw s)"
proof -
  have "pointer_inv (snd (next_serial s))" using assms by (simp add: inv_moves)
  then show "pointer_inv (swc_pointer_send_button e time button pressed s)"
    using assms client_events
    by (auto simp: swc_pointer_send_button_def Let_def is_focus_event_def next_serial_def intro!: inv_emit inv_fields)
  show "pointer_inv (swc_pointer_send_axis e time axis value w s)"
    using assms client_events by (auto simp: swc_pointer_send_axis_def Let_def intro!: inv_emit inv_fields)
  show "pointer_inv (relative_pointer_send_motion relatives time d raw s)"
    using assms
    by (auto simp: relative_pointer_send_motion_def Let_def is_focus_event_def intro!: inv_emit inv_fields split: option.split)
qed

lemma pointer_call_inv:
  assumes "pointer_call e s t" "pointer_inv s"
  shows "pointer_inv t"
  using assms
proof cases
  case (Activity a)
  have "pointer_inv (s\<lparr>swc_active := a\<rparr>)" using assms(2) by (rule inv_fields)
  then show ?thesis unfolding Activity handle_activity_changed_def Let_def by (simp add: inv_moves inv_cursor)
next
  case (Link h)
  then show ?thesis using assms(2) by (auto simp: pointer_inv_def ok_links handlers_linked_def)
next
  case (Unlink h)
  then show ?thesis using assms(2) by (auto simp: pointer_inv_def ok_links handlers_linked_def)
qed (use assms(2) in \<open>simp_all add: inv_focus inv_cursor inv_shape inv_grab inv_mode inv_select inv_sent inv_fields inv_moves inv_held
   pointer_warp_def pointer_set_region_def\<close>)

lemma pointer_calls_inv: "(pointer_call e)\<^sup>*\<^sup>* s t \<Longrightarrow> pointer_inv s \<Longrightarrow> pointer_inv t"
  by (induction rule: rtranclp_induct) (auto intro: pointer_call_inv)

text \<open>Whatever handler is asked.\<close>

lemma inv_client: "pointer_inv s \<Longrightarrow> pointer_inv (snd (client_call e c s))"
proof (cases c)
  case (Call_motion t x y)
  assume i: "pointer_inv s"
  have "pointer_inv (pt_must False s)" if "fc_active (pt_focus s) \<noteq> []" "fc_view (pt_focus s) = None"
    using i that by (auto simp: pointer_inv_def pointer_ok_def focus_told_def pointer_focus.in_step_def focus_ok_def hd_in_set
        dest!: hd_in_set)
  then show ?thesis
    using i Call_motion
    by (auto simp: client_call_def client_handle_motion_def Let_def is_focus_event_def intro!: inv_emit split: option.split)
next
  case (Call_button t v n p)
  assume "pointer_inv s"
  then show ?thesis
    using Call_button
    by (auto simp: client_call_def client_handle_button_def Let_def is_focus_event_def intro!: inv_emit inv_fields)
next
  case (Call_axis t a src v w)
  assume "pointer_inv s"
  then show ?thesis
    using Call_axis client_events(2)
    by (auto simp: client_call_def client_handle_axis_def Let_def intro!: inv_emit inv_fields)
next
  case Call_frame
  assume "pointer_inv s"
  then show ?thesis
    using Call_frame client_events(1)
    by (auto simp: client_call_def client_handle_frame_def intro!: inv_fields inv_emit)
qed

lemma inv_handler:
  assumes "callbacks_call e cb" "pointer_inv s"
  shows "pointer_inv (snd (handler_run e cb h c s))"
proof -
  have cb: "pointer_inv t \<Longrightarrow> pointer_inv (wm_motion cb d q x y t)" "pointer_inv t \<Longrightarrow> pointer_inv (mode_motion cb d x y t)"
    "pointer_inv t \<Longrightarrow> pointer_inv (mode_button cb d x t)" "pointer_inv t \<Longrightarrow> pointer_inv (snd (other_call cb d c t))" for d q x y t
    using assms(1) pointer_calls_inv unfolding callbacks_call_def by blast+
  have g: "pointer_inv (snd (handle_wm_grab_motion cb time x y s))" for time x y
    using assms(2) by (auto simp: handle_wm_grab_motion_def is_focus_event_def intro!: cb inv_emit split: option.split)
  have m: "pointer_inv (snd (mode_handle_motion e cb x y s))" for x y
  proof -
    have "pointer_inv (pointer_set_focus e None (pt_emit [Window_focus_cleared] s))"
      using assms(2) by (auto simp: is_focus_event_def intro!: inv_focus inv_emit)
    then show ?thesis
      using assms(2)
      by (auto simp: mode_handle_motion_def Let_def is_focus_event_def intro!: cb inv_emit inv_fields split: option.split)
  qed
  have b: "pointer_inv (snd (mode_handle_button e cb v p s))" for v p
    using assms(2) by (auto simp: mode_handle_button_def is_focus_event_def intro!: cb inv_emit split: option.split)
  show ?thesis
    using assms(2) g m b cb inv_client inv_select
    by (auto simp: handler_run_def split: handler_call.split)
qed

lemma inv_walk: "pointer_inv s \<Longrightarrow> pointer_inv (s\<lparr>walk_fault := True\<rparr>)"
  by (rule inv_fields)

lemma inv_dispatch: "callbacks_call e cb \<Longrightarrow> pointer_inv s \<Longrightarrow> pointer_inv (snd (dispatch e cb c n hs s))"
proof (induction e cb c n hs s rule: dispatch.induct)
  case (3 e cb c n h hs s)
  obtain took t where r: "handler_run e cb h c s = (took, t)" by (metis surj_pair)
  have "pointer_inv t" using inv_handler [OF 3(3,4), of h c] r by simp
  then show ?case
    using 3 r inv_walk by (cases took) auto
qed (auto simp: inv_walk)

lemma inv_ask: "callbacks_call e cb \<Longrightarrow> pointer_inv s \<Longrightarrow> pointer_inv (snd (ask e cb c s))"
  by (simp add: ask_def inv_dispatch)

lemma inv_press:
  assumes "callbacks_call e cb" "pointer_inv s"
  shows "pointer_inv (press_button e cb room time value n s)"
proof -
  have "pointer_inv (snd (ask e cb c (s\<lparr>held_buttons := bs\<rparr>)))" for bs c
    using assms by (simp add: inv_ask inv_held)
  then show ?thesis
    using assms(2) by (auto simp: press_button_def Let_def inv_held intro!: inv_fields split: prod.split option.split)
      (metis inv_held snd_conv)+
qed

lemma inv_release:
  assumes "callbacks_call e cb" "pointer_inv s"
  shows "pointer_inv (release_button e cb time value n s)"
proof -
  have "pointer_inv (snd (handler_run e cb h c (s\<lparr>held_buttons := bs\<rparr>)))" for bs c h
    using assms by (simp add: inv_handler inv_held)
  then show ?thesis
    using assms(2)
    by (auto simp: release_button_def Let_def inv_held intro!: inv_fields split: option.split)
qed

lemma inv_frame_one:
  assumes "callbacks_call e cb" "pointer_inv s"
  shows "pointer_inv (frame_one e cb h s)"
  using assms by (auto simp: frame_one_def Let_def intro!: inv_fields inv_handler)

lemma inv_frames: "callbacks_call e cb \<Longrightarrow> pointer_inv s \<Longrightarrow> pointer_inv (fold (frame_one e cb) hs s)"
  by (induction hs arbitrary: s) (simp_all add: inv_frame_one)

lemma inv_absolute:
  assumes "callbacks_call e cb" "pointer_inv s"
  shows "pointer_inv (pointer_handle_absolute_motion e cb nearer time x y s)"
proof -
  let ?t = "snd (move_pointer (fixed e) nearer (around e) x y s)"
  have t: "pointer_inv ?t"
    using assms(2) by (auto simp: move_pointer_def Let_def split_beta intro!: inv_moves)
  then have "pointer_inv (snd (ask e cb c ?t))" for c using assms(1) by (simp add: inv_ask)
  then show ?thesis
    using t by (auto simp: pointer_handle_absolute_motion_def split_beta intro!: inv_cursor(5) inv_fields)
qed

lemma event_step_inv:
  assumes "callbacks_call e cb" "pointer_event_step e cb s t" "pointer_inv s"
  shows "pointer_inv t"
  using assms(2)
proof cases
  case Call
  then show ?thesis using assms(3) by (rule pointer_call_inv)
next
  case (Button room t v pressed)
  have "pointer_inv (snd (next_serial s))" using assms(3) by (rule inv_moves)
  then show ?thesis
    unfolding Button using assms(1) by (simp add: pointer_handle_button_def split_beta inv_press inv_release)
next
  case (Scroll t axis source v w)
  then show ?thesis using assms(1,3) by (simp add: pointer_handle_axis_def split_beta inv_fields inv_ask)
next
  case (Frame)
  then show ?thesis using assms(1,3) by (simp add: pointer_handle_frame_def inv_cursor inv_frames)
next
  case Cancel_mode
  have later: "pointer_inv u \<Longrightarrow> pointer_inv (mode_cancel cb h u)" for h u
    using assms(1) pointer_calls_inv unfolding callbacks_call_def by blast
  then show ?thesis
    unfolding Cancel_mode using assms(3)
    by (auto simp: input_mode_cancel_def is_focus_event_def intro!: later inv_emit inv_mode split: option.split)
qed (use assms in \<open>simp_all add: inv_absolute pointer_handle_relative_motion_def\<close>)

lemma new_inv: "pointer_inv (new_pointer f x y active)" if "f = input_focus_initialize rc sc"
  using that
  by (auto simp: new_pointer_def pointer_inv_def pointer_ok_def told_ok_def cursor_ok_def buffers_ok_def holders_def theme_refs_def
      link_ok_def records_ok_def record_names_def focus_told_def pointer_focus.in_step_def focus_ok_def shape_held_def
      handlers_linked_def input_focus_initialize_def)

lemma start_inv: "pointer_inv (pointer_initialize e rc sc geometry active)"
  using new_inv [OF refl, of rc sc] inv_off [OF _ off_cursor_set] set_cursor_ok
  by (simp add: pointer_initialize_def split: prod.split)

lemma reachable_inv: "pointer_reachable s \<Longrightarrow> pointer_inv s"
  by (induction rule: pointer_reachable.induct) (auto intro: start_inv event_step_inv)

section \<open>What is shown and what is accepted\<close>

text \<open>C29: Whatever clients, the window manager and the input devices do: the surface that a client made the cursor
  is the one with the cursor's view and the listener for its destruction; every reference to a buffer is held by
  the theme, by the pointer or by its view, so none is lost and none used after it is freed; what is on the
  screen is the buffer of the view; and a client's shape is gone when the pointer is on no view.\<close>

theorem cursor_kept:
  assumes "pointer_reachable s"
  shows "cursor_hook s = cursor_surface s \<and> (\<forall>f. has_cursor_view s f \<longleftrightarrow> cursor_surface s = Some f) \<and>
    (\<forall>b. buffer_refs s b = of_bool (internal_buffer s = Some b) + of_bool (view_buffer s = Some b) +
       card {k. k < SWC_CURSOR_KIND_COUNT \<and> ci_buffer (cursor_images s k) = Some b}) \<and>
    cursor_shows s = view_buffer s \<and> (fc_view (pt_focus s) = None \<longrightarrow> \<not> client_shape_set s) \<and> \<not> pointer_fault s"
  using reachable_inv [OF assms]
  by (auto simp: pointer_inv_def pointer_ok_def told_ok_def cursor_ok_def buffers_ok_def link_ok_def shape_held_def holders_def
      theme_refs_def)

text \<open>C27: A request for a cursor counts exactly when it carries the serial of the enter event that the resource was
  sent last and has not been sent a leave for: no other client's request, no request after the pointer left, and
  none with the serial of an earlier enter.\<close>

theorem cursor_requests_current:
  assumes "pointer_reachable s"
  shows "pointer_cursor_serial_valid r client serial s \<longleftrightarrow>
    r \<in> set (record_names s) \<and> resource_client (pt_focus s) r = client \<and> last_enter (pointer_log s) r = Some serial"
proof -
  have i: "records_ok s" "pointer_focus.in_step (pt_focus s, s)"
    "set (record_names s) = set (fc_active (pt_focus s)) \<union> set (fc_inactive (pt_focus s))"
    using reachable_inv [OF assms] by (simp_all add: pointer_inv_def pointer_ok_def told_ok_def focus_told_def)
  have told: "last_enter (pointer_log s) r \<noteq> None \<longleftrightarrow> r \<in> set (fc_active (pt_focus s))" if "r \<in> set (record_names s)"
    using i(2,3) that by (auto simp: pointer_focus.in_step_def entered_now_def)
  have active: "fc_client (pt_focus s) = Some (resource_client (pt_focus s) r)" "fc_view (pt_focus s) \<noteq> None"
    if "r \<in> set (fc_active (pt_focus s))"
    using i(2) that by (auto simp: pointer_focus.in_step_def focus_ok_def)
  show ?thesis
  proof (cases "find_pointer_resource r s")
    case None
    then have "r \<notin> set (record_names s)" by (auto simp: find_pointer_resource_def record_names_def find_None_iff)
    then show ?thesis using None by (simp add: pointer_cursor_serial_valid_def)
  next
    case (Some p)
    then have p: "p \<in> set (pointer_resources s)" "pr_resource p = r"
      by (auto simp: find_pointer_resource_def find_Some_iff in_set_conv_nth)
    then have "r \<in> set (record_names s)" "(if entered p then Some (enter_serial p) else None) = last_enter (pointer_log s) r"
      using i(1) by (auto simp: record_names_def records_ok_def)
    then show ?thesis
      using Some told active by (auto simp: pointer_cursor_serial_valid_def split: if_splits)
  qed
qed

section \<open>Buttons\<close>

text \<open>The handler that has a button, and what a step that is not about the button may do.\<close>

definition holder :: "int \<Rightarrow> pointer_state \<Rightarrow> nat option" where
  "holder v s = Option.bind (find (\<lambda>b. press_value b = v) (held_buttons s)) press_handler"

definition held_once :: "int \<Rightarrow> pointer_state \<Rightarrow> bool" where
  "held_once v s \<longleftrightarrow> length (filter (\<lambda>b. press_value b = v) (held_buttons s)) = 1"

definition callbacks_leave_buttons :: "pointer_callbacks \<Rightarrow> bool" where
  "callbacks_leave_buttons cb \<longleftrightarrow>
     (\<forall>h time x y s. held_buttons (wm_motion cb h time x y s) = held_buttons s) \<and>
     (\<forall>h x y s. held_buttons (mode_motion cb h x y s) = held_buttons s) \<and>
     (\<forall>h v s. held_buttons (mode_button cb h v s) = held_buttons s) \<and>
     (\<forall>h s. held_buttons (mode_cancel cb h s) = held_buttons s) \<and>
     (\<forall>h c s. held_buttons (snd (other_call cb h c s)) = held_buttons s)"

lemma off_held: "off_cursor t = off_cursor s \<Longrightarrow> held_buttons t = held_buttons s"
  by (auto simp: off_cursor_def handler_part_def)

lemma held_basics [simp]:
  "held_buttons (pt_emit es s) = held_buttons s" "held_buttons (pt_must b s) = held_buttons s"
  "held_buttons (set_pending h s) = held_buttons s" "held_buttons (snd (next_serial s)) = held_buttons s"
  "held_buttons (pointer_constraints_update_focus ce s) = held_buttons s" "held_buttons (clip_position fo x y s) = held_buttons s"
  "held_buttons (update_cursor e s) = held_buttons s" "held_buttons (swc_set_cursor e k s) = held_buttons s"
  using off_held [OF off_cursor_update(1), of e s] off_held [OF off_cursor_requests(4), of e k s]
    update_focus_parts(3) [of ce s] clip_parts(3) [of fo x y s]
  by (simp_all add: pt_emit_def pt_must_def set_pending_def next_serial_def Let_def handler_part_def split: option.split)

lemma focus_op_held:
  "held_buttons (focus_op (input_focus_set (enter e) (leave e) v) s) = held_buttons s"
proof -
  obtain f t where g: "input_focus_set (enter e) (leave e) v (pt_focus s, s) = (f, t)" by (metis surj_pair)
  have "handler_part t = handler_part s"
    using pointer_frame.focus_frames(1) [where e = e and v = v and f = "pt_focus s" and k = s] g by simp
  then show ?thesis using g by (simp add: focus_op_def handler_part_def)
qed

lemma focus_changed_held: "held_buttons (handle_focus_changed e s) = held_buttons s"
proof -
  have "held_buttons (pointer_clear_shape e t) = held_buttons t" "held_buttons (pointer_set_cursor e t) = held_buttons t" for t
    using clear_shape_frames(2) [of e t] set_cursor_frames(2) [of e t] by (simp_all add: handler_part_def)
  then show ?thesis by (simp add: handle_focus_changed_def Let_def)
qed

lemma set_focus_held [simp]: "held_buttons (pointer_set_focus e v s) = held_buttons s"
  by (simp add: pointer_set_focus_def Let_def focus_op_held focus_changed_held)

lemma handler_held:
  assumes "callbacks_leave_buttons cb"
  shows "held_buttons (snd (handler_run e cb h c s)) = held_buttons s"
  using assms
  by (auto simp: handler_run_def client_call_def client_handle_motion_def client_handle_button_def client_handle_axis_def
      client_handle_frame_def handle_wm_grab_motion_def mode_handle_motion_def mode_handle_button_def select_handle_motion_def
      select_handle_button_def callbacks_leave_buttons_def Let_def split: handler_call.split option.split)

lemma dispatch_held: "callbacks_leave_buttons cb \<Longrightarrow> held_buttons (snd (dispatch e cb c n hs s)) = held_buttons s"
proof (induction e cb c n hs s rule: dispatch.induct)
  case (3 e cb c n h hs s)
  obtain took t where r: "handler_run e cb h c s = (took, t)" by (metis surj_pair)
  have "held_buttons t = held_buttons s" using handler_held [OF 3(3), of e h c s] r by simp
  then show ?case using 3 r by (cases took) auto
qed auto

lemma ask_held: "callbacks_leave_buttons cb \<Longrightarrow> held_buttons (snd (ask e cb c s)) = held_buttons s"
  by (simp add: ask_def dispatch_held)

text \<open>What a press and a release do to the buttons.\<close>

lemma press_held:
  assumes "callbacks_leave_buttons cb"
  shows "held_buttons (press_button e cb room time v n s) = (if \<not> room then held_buttons s
    else held_buttons s @ [\<lparr>press_value = v, press_serial = n, press_handler = fst (ask e cb (Call_button time v n True)
      (s\<lparr>held_buttons := held_buttons s @ [\<lparr>press_value = v, press_serial = n, press_handler = None\<rparr>]\<rparr>))\<rparr>])"
proof -
  let ?s = "s\<lparr>held_buttons := held_buttons s @ [\<lparr>press_value = v, press_serial = n, press_handler = None\<rparr>]\<rparr>"
  obtain h t where a: "ask e cb (Call_button time v n True) ?s = (h, t)" by (metis surj_pair)
  have "held_buttons t = held_buttons s @ [\<lparr>press_value = v, press_serial = n, press_handler = None\<rparr>]"
    using ask_held [OF assms, of e "Call_button time v n True" ?s] a by simp
  then show ?thesis
    using a by (simp add: press_button_def Let_def split: option.split)
qed

lemma remove_change: "remove_first P (change_first P f bs) = remove_first P bs" if "\<And>b. P (f b) = P b"
  using that by (induction bs) auto

lemma find_change: "find P (change_first P f bs) = map_option f (find P bs)" if "\<And>b. P (f b) = P b"
  using that by (induction bs) auto

lemma release_held:
  assumes "callbacks_leave_buttons cb"
  shows "held_buttons (release_button e cb time v n s) = remove_first (\<lambda>b. press_value b = v) (held_buttons s)"
proof -
  have none: "remove_first (\<lambda>b. press_value b = v) bs = bs" if "find (\<lambda>b. press_value b = v) bs = None" for bs
    using that by (induction bs) (auto split: if_splits)
  show ?thesis
    using none by (auto simp: release_button_def Let_def handler_held [OF assms] remove_change find_change split: option.split)
qed

text \<open>Steps in which the button is neither pressed nor released and nobody takes it over.\<close>

inductive other_step :: "pointer_env \<Rightarrow> pointer_callbacks \<Rightarrow> int \<Rightarrow> pointer_state \<Rightarrow> pointer_state \<Rightarrow> bool" for e cb v where
  Other_call: "pointer_call e s t \<Longrightarrow> held_buttons t = held_buttons s \<Longrightarrow> other_step e cb v s t"
| Other_button: "w \<noteq> v \<Longrightarrow> other_step e cb v s (pointer_handle_button e cb room time w pressed s)"
| Other_scroll: "other_step e cb v s (pointer_handle_axis e cb time axis source x y s)"
| Other_motion: "other_step e cb v s (pointer_handle_absolute_motion e cb nearer time x y s)"
| Other_frame: "other_step e cb v s (pointer_handle_frame e cb s)"

lemma find_other: "find (\<lambda>b. press_value b = v) (remove_first (\<lambda>b. press_value b = w) bs) = find (\<lambda>b. press_value b = v) bs"
  "filter (\<lambda>b. press_value b = v) (remove_first (\<lambda>b. press_value b = w) bs) = filter (\<lambda>b. press_value b = v) bs" if "w \<noteq> v"
  using that by (induction bs) auto

lemma find_append: "find P (xs @ ys) = (case find P xs of None \<Rightarrow> find P ys | Some x \<Rightarrow> Some x)"
  by (induction xs) auto

lemma other_step_holder:
  assumes "other_step e cb v s t" "callbacks_leave_buttons cb"
  shows "holder v t = holder v s \<and> held_once v t = held_once v s"
  using assms(1)
proof cases
  case (Other_button w room time pressed)
  then show ?thesis
    by (auto simp: pointer_handle_button_def split_beta press_held [OF assms(2)] release_held [OF assms(2)] holder_def
        held_once_def find_other find_append split: option.split)
next
  case (Other_scroll time axis source x y)
  then show ?thesis
    using ask_held [OF assms(2)] by (simp add: pointer_handle_axis_def split_beta holder_def held_once_def)
next
  case (Other_motion nearer time x y)
  have "held_buttons (snd (move_pointer (fixed e) nearer (around e) x y s)) = held_buttons s"
    by (simp add: move_pointer_def Let_def split_beta)
  then show ?thesis
    unfolding Other_motion using ask_held [OF assms(2)]
    by (simp add: pointer_handle_absolute_motion_def split_beta holder_def held_once_def)
next
  case Other_frame
  have "held_buttons (fold (frame_one e cb) hs u) = held_buttons u" for hs u
    by (induction hs arbitrary: u) (simp_all add: frame_one_def Let_def handler_held [OF assms(2)])
  then show ?thesis unfolding Other_frame by (simp add: pointer_handle_frame_def holder_def held_once_def)
qed (simp add: holder_def held_once_def)

lemma other_steps_holder:
  "(other_step e cb v)\<^sup>*\<^sup>* s t \<Longrightarrow> callbacks_leave_buttons cb \<Longrightarrow> holder v t = holder v s \<and> held_once v t = held_once v s"
  by (induction rule: rtranclp_induct) (auto dest: other_step_holder)

text \<open>The handler that takes a press, if one does.\<close>

definition taker :: "pointer_env \<Rightarrow> pointer_callbacks \<Rightarrow> int \<Rightarrow> int \<Rightarrow> pointer_state \<Rightarrow> nat option" where
  "taker e cb time v s =
     (let (n, s) = next_serial s
      in fst (ask e cb (Call_button time v n True)
           (s\<lparr>held_buttons := held_buttons s @ [\<lparr>press_value = v, press_serial = n, press_handler = None\<rparr>]\<rparr>)))"

lemma remove_once:
  "length (filter P bs) = 1 \<Longrightarrow> remove_first P bs = filter (\<lambda>b. \<not> P b) bs"
proof (induction bs)
  case (Cons b bs)
  then show ?case by (cases "P b") (auto simp: filter_empty_conv intro: filter_True [symmetric])
qed simp

lemma press_taken:
  assumes "callbacks_leave_buttons cb" "\<forall>b \<in> set (held_buttons s). press_value b \<noteq> v"
  shows "holder v (pointer_handle_button e cb True time v True s) = taker e cb time v s"
    "held_once v (pointer_handle_button e cb True time v True s)"
proof -
  have n: "find (\<lambda>b. press_value b = v) (held_buttons s) = None" "filter (\<lambda>b. press_value b = v) (held_buttons s) = []"
    using assms(2) by (auto simp: find_None_iff filter_empty_conv)
  show "holder v (pointer_handle_button e cb True time v True s) = taker e cb time v s"
    using n by (simp add: pointer_handle_button_def split_beta holder_def press_held [OF assms(1)] find_append taker_def)
  show "held_once v (pointer_handle_button e cb True time v True s)"
    using n by (simp add: pointer_handle_button_def split_beta held_once_def press_held [OF assms(1)])
qed


section \<open>The input mode\<close>

lemma mode_active_cong:
  "input_mode t = input_mode s \<Longrightarrow> pt_x t = pt_x s \<Longrightarrow> pt_y t = pt_y s \<Longrightarrow> input_mode_active e t = input_mode_active e s"
  unfolding input_mode_active_def Let_def by (simp only:)

lemma mode_takes_press:
  assumes "pointer_handlers s = MODE_HANDLER # hs" "input_mode_active e s"
  shows "taker e cb time v s = Some MODE_HANDLER"
proof -
  let ?t = "(snd (next_serial s))\<lparr>held_buttons := held_buttons s @ [\<lparr>press_value = v, press_serial = fst (next_serial s), press_handler = None\<rparr>]\<rparr>"
  have "pointer_handlers ?t = MODE_HANDLER # hs" using assms(1) by (simp add: next_serial_def Let_def)
  moreover have "input_mode_active e ?t = input_mode_active e s"
    by (rule mode_active_cong) (simp_all add: next_serial_def Let_def)
  moreover have "held_buttons (snd (next_serial s)) = held_buttons s" by simp
  ultimately show ?thesis
    using assms(2) by (simp add: taker_def split_beta ask_def handler_has_def handler_run_def mode_handle_button_def)
qed


section \<open>Where the code falls short\<close>

text \<open>
  A mode that ends itself when the pointer has crossed to another screen unlinks its handler and then declines the
  motion, so the loop over the handlers goes on from links that are gone.
\<close>

theorem mode_ended_outside:
  assumes "pointer_handlers t = MODE_HANDLER # hs" "input_mode t = Some m" "\<not> input_mode_active e t"
    "move_pointer (fixed e) nearer (around e) x y s = (True, t)" "MODE_HANDLER \<notin> set hs"
    "\<forall>k x y u. mode_motion cb k x y u = swc_input_mode_end u"
  shows "walk_fault (pointer_handle_absolute_motion e cb nearer time x y s)"
proof -
  obtain k g where m: "m = (k, g)" by (cases m)
  have "ask e cb (Call_motion time (pt_x t) (pt_y t)) t =
      (None, (swc_input_mode_end (pt_emit [Mode_motion (pt_x t) (pt_y t)] (t\<lparr>pointer_inside := False\<rparr>)))\<lparr>walk_fault := True\<rparr>)"
    using assms m
    by (simp add: ask_def handler_has_def handler_run_def mode_handle_motion_def Let_def swc_input_mode_end_def pt_emit_def)
  then show ?thesis
    using assms(4) by (simp add: pointer_handle_absolute_motion_def set_pending_def update_cursor_def Let_def pt_emit_def)
qed

text \<open>A client that selects a region and goes away leaves the grab behind when another client has bound the global.\<close>

theorem selection_outlives_client:
  assumes "select_resources s = [a, b]" "select_state s \<noteq> STATE_NONE"
  shows "select_state (select_resource_destroy e a s) = select_state s"
    "pointer_handlers (select_resource_destroy e a s) = pointer_handlers s"
  using assms by (simp_all add: select_resource_destroy_def Let_def)

text \<open>While the window manager has the pointer, clients under it do hear a scroll.\<close>

theorem grab_lets_scroll_through:
  assumes "pointer_handlers s = [GRAB_HANDLER, CLIENT_HANDLER]" "fc_active (pt_focus s) = [r]" "value \<noteq> 0" "wm_grab s = Some d"
  shows "Axis_sent r time axis value \<in> set (pointer_log (pointer_handle_axis e cb time axis source value value120 s))"
  using assms
  by (auto simp: pointer_handle_axis_def ask_def handler_has_def handler_run_def client_call_def client_handle_axis_def Let_def
      axis_events_def pt_emit_def set_pending_def numeral_eq_Suc split: prod.split option.split)

text \<open>Entering another client leaves the cursor surface of the one before in place.\<close>

theorem cursor_surface_survives_enter:
  assumes "cursor_surface s = Some f" "rs \<noteq> []"
  shows "cursor_surface (enter e rs v s) = Some f"
proof -
  have o: "cursor_surface (fold (enter_one e n v) rs t) = cursor_surface t" for n t
    by (induction rs arbitrary: t) (simp_all add: enter_one_def pt_emit_def)
  show ?thesis
    using assms by (simp add: enter_eq Let_def o) (simp add: pointer_clear_shape_def next_serial_def pt_must_def Let_def)
qed

section \<open>Examples\<close>

definition demo_pointer_env :: pointer_env where
  "demo_pointer_env = \<lparr>around = \<lparr>view_visible = (\<lambda>_. True), surface_of_view = (\<lambda>v. v), geometry_of = (\<lambda>_. (10, 20)),
       offset_of = (\<lambda>_. (0, 0)), input_of = (\<lambda>_. []), buffer_of = (\<lambda>_. None), intersect = (\<lambda>_ _. [])\<rparr>,
     fixed = (\<lambda>x. x div 256, \<lambda>x. x * 256), resource_version = (\<lambda>_. 5), import_buffer = (\<lambda>_. None),
     builtin_hotspot = (3, 3), surface_buffer = (\<lambda>f. Some 6), surface_contents = (\<lambda>f. Some 6), contents_ready = (\<lambda>_. True),
     on_screen_at = (\<lambda>_. True), refresh_rates = (\<lambda>_. [144000]), frames_waiting = (\<lambda>_. True), timer_set = True,
     mode_geometry = (\<lambda>_. (0, 0, 800, 600))\<rparr>"

definition demo_callbacks :: pointer_callbacks where
  "demo_callbacks = \<lparr>wm_motion = (\<lambda>_ _ _ _ s. s), mode_motion = (\<lambda>_ _ _ s. s), mode_button = (\<lambda>_ _ s. swc_input_mode_end s),
     mode_cancel = (\<lambda>_ s. s), other_has = (\<lambda>_ _. False), other_call = (\<lambda>_ _ s. (False, s))\<rparr>"

definition demo_start :: pointer_state where
  "demo_start = pointer_initialize demo_pointer_env (\<lambda>_. 3) (\<lambda>_. 3) (0, 0, 800, 600) True"

definition demo_bound :: pointer_state where
  "demo_bound = pointer_bind demo_pointer_env (Some 7) demo_start"

definition demo_focused :: pointer_state where
  "demo_focused = pointer_set_focus demo_pointer_env (Some 9) demo_bound"

definition demo_cursor :: pointer_state where
  "demo_cursor = set_cursor demo_pointer_env 3 7 2 (Some 8) True (5, 5) demo_focused"

definition demo_mode :: pointer_state where
  "demo_mode = snd (swc_input_mode_begin demo_pointer_env (Some 4) (Some 6) True demo_bound)"

lemma demo_callbacks_call: "callbacks_call demo_pointer_env demo_callbacks" "callbacks_leave_buttons demo_callbacks"
proof -
  have "(pointer_call demo_pointer_env)\<^sup>*\<^sup>* s (swc_input_mode_end s)" for s 
    by (rule r_into_rtranclp) (rule pointer_call.Mode_end)
  then show "callbacks_call demo_pointer_env demo_callbacks" by (simp add: callbacks_call_def demo_callbacks_def)
  show "callbacks_leave_buttons demo_callbacks" by (simp add: callbacks_leave_buttons_def demo_callbacks_def swc_input_mode_end_def)
qed

lemma demo_step: "pointer_reachable s \<Longrightarrow> pointer_call demo_pointer_env s t \<Longrightarrow> pointer_reachable t"
  by (rule pointer_reachable.Step [OF _ demo_callbacks_call(1) pointer_event_step.Call])

lemma new_pointer_fields [simp]:
  "pt_focus (new_pointer f x y a) = f"
  "pt_x (new_pointer f x y a) = x"
  "pt_y (new_pointer f x y a) = y"
  "constraint_list (new_pointer f x y a) = []"
  "active_constraint (new_pointer f x y a) = None"
  "swc_active (new_pointer f x y a) = a"
  "pointer_resources (new_pointer f x y a) = []"
  "display_serial (new_pointer f x y a) = 0"
  "cursor_surface (new_pointer f x y a) = None"
  "cursor_hook (new_pointer f x y a) = None"
  "has_cursor_view (new_pointer f x y a) = (\<lambda>_. False)"
  "surface_damaged (new_pointer f x y a) = (\<lambda>_. False)"
  "view_buffer (new_pointer f x y a) = None"
  "cursor_shows (new_pointer f x y a) = None"
  "internal_buffer (new_pointer f x y a) = None"
  "hotspot (new_pointer f x y a) = (0, 0)"
  "cursor_position (new_pointer f x y a) = (0, 0)"
  "frame_pending (new_pointer f x y a) = False"
  "buffer_refs (new_pointer f x y a) = (\<lambda>_. 0)"
  "cursor_images (new_pointer f x y a) = (\<lambda>_. \<lparr>ci_buffer = None, ci_hotspot = (0, 0), ci_active = False\<rparr>)"
  "cursor_override (new_pointer f x y a) = 0"
  "cursor_mode (new_pointer f x y a) = CURSOR_MODE_CLIENT"
  "client_shape (new_pointer f x y a) = 0"
  "client_shape_set (new_pointer f x y a) = False"
  "held_buttons (new_pointer f x y a) = []"
  "pointer_handlers (new_pointer f x y a) = [CLIENT_HANDLER]"
  "handler_pending (new_pointer f x y a) = (\<lambda>_. False)"
  "client_axis_source (new_pointer f x y a) = None"
  "wm_grab (new_pointer f x y a) = None"
  "input_mode (new_pointer f x y a) = None"
  "pointer_inside (new_pointer f x y a) = False"
  "select_state (new_pointer f x y a) = STATE_NONE"
  "pointer_fault (new_pointer f x y a) = False"
  "walk_fault (new_pointer f x y a) = False"
  "pointer_log (new_pointer f x y a) = []"
  by (simp_all add: new_pointer_def)


lemma demo_start_eq: "demo_start = new_pointer (input_focus_initialize (\<lambda>_. 3) (\<lambda>_. 3)) 102400 76800 True"
  by (simp add: demo_start_def pointer_initialize_def pointer_set_cursor_def cursor_source_def demo_pointer_env_def s32_def Let_def)

lemma demo_bound_eq:
  "demo_bound = demo_start\<lparr>pointer_log := pointer_log demo_start @ [Resource_created 7],
     pointer_resources := [\<lparr>pr_resource = 7, enter_serial = 0, entered = False\<rparr>],
     pt_focus := (pt_focus demo_start)\<lparr>fc_inactive := [7]\<rparr>\<rparr>"
  by (simp add: demo_bound_def pointer_bind_def focus_op_def input_focus_add_resource_def pt_emit_def demo_start_eq
      input_focus_initialize_def)

lemma demo_bound_fields:
  "client_shape_set demo_bound = False" "display_serial demo_bound = 0" "pt_x demo_bound = 102400" "pt_y demo_bound = 76800"
  "pointer_resources demo_bound = [\<lparr>pr_resource = 7, enter_serial = 0, entered = False\<rparr>]"
  "pointer_log demo_bound = [Resource_created 7]"
  "pt_focus demo_bound = \<lparr>fc_client = None, fc_view = None, fc_linked = None, fc_active = [], fc_inactive = [7], fc_events = [],
     resource_client = (\<lambda>_. 3), surface_client = (\<lambda>_. 3)\<rparr>"
  "input_mode demo_bound = None" "constraint_list demo_bound = []" "active_constraint demo_bound = None" "swc_active demo_bound"
  "pointer_handlers demo_bound = [CLIENT_HANDLER]" "held_buttons demo_bound = []" "cursor_surface demo_bound = None"
  "cursor_mode demo_bound = CURSOR_MODE_CLIENT" "cursor_override demo_bound = 0"
  by (simp_all add: demo_bound_eq demo_start_eq input_focus_initialize_def)

lemma demo_leave: "leave demo_pointer_env [] v s = s\<lparr>display_serial := u32 (display_serial s + 1)\<rparr>"
  by (simp add: leave_def next_serial_def pt_must_def Let_def)

lemma demo_enter:
  "\<not> client_shape_set s \<Longrightarrow> enter demo_pointer_env [r] (Some v) s = enter_one demo_pointer_env (u32 (display_serial s + 1)) (Some v) r
     (s\<lparr>display_serial := u32 (display_serial s + 1)\<rparr>)"
  by (simp add: enter_def next_serial_def pt_must_def Let_def pointer_clear_shape_def)

text \<open>The pointer enters view 9, whose client has the resource.\<close>

definition demo_entered :: pointer_state where
  "demo_entered = enter_one demo_pointer_env 2 (Some 9) 7 (demo_bound\<lparr>display_serial := 2\<rparr>)"

lemma demo_entered_fields:
  "pointer_resources demo_entered = [\<lparr>pr_resource = 7, enter_serial = 2, entered = True\<rparr>]"
  "last_enter (pointer_log demo_entered) 7 = Some 2" "constraint_list demo_entered = []" "active_constraint demo_entered = None"
  "held_buttons demo_entered = []" "cursor_surface demo_entered = None" "pointer_handlers demo_entered = [CLIENT_HANDLER]"
  "cursor_mode demo_entered = CURSOR_MODE_CLIENT" "cursor_override demo_entered = 0"
  by (simp_all add: demo_entered_def one_told) (simp_all add: enter_one_def pt_emit_def demo_bound_fields)

lemma demo_focus_set:
  "input_focus_set (enter demo_pointer_env) (leave demo_pointer_env) (Some 9) (pt_focus demo_bound, demo_bound) =
    (\<lparr>fc_client = Some 3, fc_view = Some 9, fc_linked = Some 9, fc_active = [7], fc_inactive = [],
      fc_events = [(None, Some 9)], resource_client = (\<lambda>_. 3), surface_client = (\<lambda>_. 3)\<rparr>, demo_entered)"
proof -
  have n: "u32 (u32 (0 + 1) + 1) = 2" "u32 1 = 1" "u32 2 = 2" by (simp_all add: u32_def)
  have "enter demo_pointer_env [7] (Some 9) (leave demo_pointer_env [] None demo_bound) = demo_entered"
    by (simp add: demo_leave demo_enter demo_bound_fields n demo_entered_def)
  then show ?thesis
    by (simp add: input_focus_set_def changed_def focus_def unfocus_def Let_def demo_bound_fields)
qed

lemma demo_focused_eq:
  "demo_focused = demo_entered\<lparr>pt_focus := \<lparr>fc_client = Some 3, fc_view = Some 9, fc_linked = Some 9, fc_active = [7],
     fc_inactive = [], fc_events = [(None, Some 9)], resource_client = (\<lambda>_. 3), surface_client = (\<lambda>_. 3)\<rparr>\<rparr>"
proof -
  let ?t = "demo_entered\<lparr>pt_focus := \<lparr>fc_client = Some 3, fc_view = Some 9, fc_linked = Some 9, fc_active = [7],
     fc_inactive = [], fc_events = [(None, Some 9)], resource_client = (\<lambda>_. 3), surface_client = (\<lambda>_. 3)\<rparr>\<rparr>"
  have f: "focus_op (input_focus_set (enter demo_pointer_env) (leave demo_pointer_env) (Some 9)) demo_bound = ?t"
    by (simp add: focus_op_def demo_focus_set)
  have u: "pointer_constraints_update_focus ce ?t = ?t" for ce
    by (simp add: pointer_constraints_update_focus_def wanted_def demo_entered_fields Let_def)
  then have "handle_focus_changed demo_pointer_env ?t = ?t" by (simp add: handle_focus_changed_def Let_def)
  moreover have "input_mode demo_bound = None" "fc_view (pt_focus demo_bound) = None" by (simp_all add: demo_bound_fields)
  ultimately show ?thesis
    unfolding demo_focused_def pointer_set_focus_def Let_def f using u by (simp add: input_mode_active_def)
qed

lemma demo_focused_facts:
  "record_names demo_focused = [7]" "resource_client (pt_focus demo_focused) 7 = 3"
  "last_enter (pointer_log demo_focused) 7 = Some 2" "held_buttons demo_focused = []"
  "cursor_surface demo_focused = None" "pointer_handlers demo_focused = [CLIENT_HANDLER]"
  "fc_active (pt_focus demo_focused) = [7]" "cursor_mode demo_focused = CURSOR_MODE_CLIENT" "cursor_override demo_focused = 0"
  by (simp_all add: demo_focused_eq record_names_def demo_entered_fields)

lemma demo_pointers: "pointer_reachable demo_focused" "pointer_reachable demo_cursor" "pointer_reachable demo_mode"
proof -
  have "record_names demo_start = []" by (simp add: record_names_def demo_start_eq)
  then have c: "pointer_call demo_pointer_env demo_start demo_bound"
    unfolding demo_bound_def by (intro pointer_call.Bind) simp
  have "pointer_reachable demo_start" unfolding demo_start_def by (rule pointer_reachable.Start)
  then have b: "pointer_reachable demo_bound" using c by (rule demo_step)
  show f: "pointer_reachable demo_focused" unfolding demo_focused_def by (rule demo_step [OF b pointer_call.Focus])
  show c: "pointer_reachable demo_cursor" unfolding demo_cursor_def by (rule demo_step [OF f pointer_call.Request])
  show "pointer_reachable demo_mode" unfolding demo_mode_def by (rule demo_step [OF b pointer_call.Mode_begin])
qed

lemma demo_taker: "taker demo_pointer_env demo_callbacks 0 272 demo_focused = Some CLIENT_HANDLER"
  by (simp add: taker_def next_serial_def Let_def ask_def demo_focused_facts handler_has_def handler_run_def client_call_def
      client_handle_button_def)

lemma given_cursor_surface: "cursor_surface (give_cursor_view e f s) = cursor_surface s"
proof -
  have "link_part (give_cursor_view e f s) = link_part (if has_cursor_view s f then s else s\<lparr>has_cursor_view := (has_cursor_view s)(f := True)\<rparr>)"
    unfolding give_cursor_view_def Let_def by (cases "has_cursor_view s f"; cases "contents_ready e f"; simp)
  then show ?thesis by (simp add: link_part_def split: if_splits)
qed

lemma demo_cursor_surface: "cursor_surface demo_cursor = Some 8"
proof -
  have v: "pointer_cursor_serial_valid 7 3 2 demo_focused"
    by (simp add: pointer_cursor_serial_valid_def find_pointer_resource_def demo_focused_eq demo_entered_fields)
  have c: "demo_cursor = (give_cursor_view demo_pointer_env 8 (update_cursor demo_pointer_env
      (demo_focused\<lparr>cursor_surface := Some 8, hotspot := (5, 5)\<rparr>)))\<lparr>cursor_hook := Some 8\<rparr>"
    unfolding demo_cursor_def set_cursor_def Let_def using v demo_focused_facts(5,8,9) by simp
  show ?thesis unfolding c by (simp add: given_cursor_surface)
qed

lemma demo_mode_facts:
  "pointer_handlers demo_mode = [MODE_HANDLER, CLIENT_HANDLER]" "held_buttons demo_mode = []"
  "input_mode_active demo_pointer_env demo_mode"
proof -
  note b = demo_bound_fields(12,13)
  let ?m = "(pt_emit [Window_focus_cleared] (demo_bound\<lparr>input_mode := Some (6, 4), pointer_inside := True,
      pointer_handlers := MODE_HANDLER # pointer_handlers demo_bound\<rparr>))"
  have m: "demo_mode = ?m"
    unfolding demo_mode_def
    by (simp add: swc_input_mode_begin_def Let_def demo_bound_fields b input_mode_active_def demo_pointer_env_def
        pointer_set_focus_def focus_op_def input_focus_set_def pointer_constraints_update_focus_def wanted_def pt_emit_def)
  show "pointer_handlers demo_mode = [MODE_HANDLER, CLIENT_HANDLER]" "held_buttons demo_mode = []"
    "input_mode_active demo_pointer_env demo_mode"
    unfolding m by (simp_all add: b pt_emit_def input_mode_active_def demo_bound_fields demo_pointer_env_def Let_def)
qed

theorem cursor_kept_witness:
  "pointer_reachable demo_cursor \<and> cursor_surface demo_cursor = Some 8 \<and> cursor_hook demo_cursor = Some 8 \<and>
    has_cursor_view demo_cursor 8 \<and> \<not> pointer_fault demo_cursor"
  using cursor_kept [OF demo_pointers(2)] demo_pointers(2) demo_cursor_surface by simp

theorem cursor_requests_current_witness:
  "pointer_cursor_serial_valid 7 3 2 demo_focused \<and> \<not> pointer_cursor_serial_valid 7 3 1 demo_focused"
  using cursor_requests_current [OF demo_pointers(1)] demo_focused_facts by simp

definition demo_pressed :: pointer_state where
  "demo_pressed = pointer_handle_button demo_pointer_env demo_callbacks True 0 272 True demo_focused"



end
