(* ===== verification/Spec2Isabelle.thy ===== *)
theory Spec2Isabelle
  imports Positioner Window_Safety Toplevel Layer_Shell Popup Lock_Safety Keyboard Bindings Workspace
    Subsurface_Safety Drag_Safety Pointer_Motion_Safety Pointer_Safety
begin

text \<open>
  swc is a library for Wayland compositors: it drives the screens and the input devices, keeps
  the surfaces of the clients, and leaves the policy to a window manager linked with it.  This
  development models the part of it that decides: which window is where, how large and in which
  mode, what a client is told and what its answers mean, where a popup or a panel goes, who has
  the keyboard, what is on the clipboard, and where the pointer may go.

  \<^bold>\<open>Parts and theories.\<close>

  \<^item> \<open>Prelude\<close>: C integers, bit masks and intrusive lists.
  \<^item> \<open>Geometry\<close>: the rectangles of \<open>libswc/util.h\<close> and the views of \<open>libswc/view.c\<close>.
  \<^item> \<open>Window\<close>, \<open>Window_Shell\<close>, \<open>Window_Safety\<close>: \<open>libswc/window.c\<close>.  The locale
    \<open>window_shell\<close> is the interface between a window and the shell it belongs to
    (\<open>struct window_impl\<close>).
  \<^item> \<open>Configure_Queue\<close>: the locale of configure events sent and acknowledged, which toplevels,
    popups and layer surfaces interpret.
  \<^item> \<open>Toplevel\<close>, \<open>Positioner\<close>, \<open>Popup\<close>: \<open>libswc/xdg_shell.c\<close>, with \<open>keyboard_set_focus\<close> of
    \<open>libswc/keyboard.c\<close> and \<open>input_focus_set\<close> of \<open>libswc/input.c\<close>.
  \<^item> \<open>Layer_Geometry\<close>, \<open>Layer_Shell\<close>: \<open>libswc/layer_shell.c\<close> and the usable geometry of
    \<open>libswc/screen.c\<close>.

  \<^item> \<open>View_Stack\<close>, \<open>View_Visibility\<close>: the stack of views of \<open>libswc/compositor.c\<close>: layers, raising,
    parents, showing and hiding, also for the lock.
  \<^item> \<open>Session_Lock\<close>, \<open>Lock_Safety\<close>: \<open>libswc/session_lock.c\<close> over that stack and the popup grab.  The
    steps of \<open>Lock_Safety\<close> are the lock requests, commits and frames, and every change of the stack
    or of the keyboard that the rest of the server can make.
  \<^item> \<open>Input_Focus\<close>: \<open>libswc/input.c\<close>.  The locales \<open>focus_owner\<close> and \<open>focus_frame\<close> are the contract
    between a focus and the device that owns it (\<open>struct input_focus_handler\<close>).
  \<^item> \<open>Keyboard\<close>: \<open>libswc/keyboard.c\<close>, which interprets these locales.
  \<^item> \<open>Bindings\<close>: \<open>libswc/bindings.c\<close>.  A handler of the window manager may add and remove bindings,
    so a release and a removal are split at the call of the handler and any step may come between.
  \<^item> \<open>Workspace\<close>: \<open>libswc/workspace.c\<close>, the groups a client is given for each screen.

  \<^item> \<open>Surface\<close>, \<open>Surface_Commits\<close>, \<open>Surface_Buffers\<close>: one \<open>wl_surface\<close> of \<open>libswc/surface.c\<close>
    with its pending, cached and current state, the regions of \<open>libswc/region.c\<close>, and the pixels of
    scaled and rotated buffers; what cached commits add up to, and who owns which buffer.
  \<^item> \<open>Subsurface\<close>, \<open>Subsurface_Tree\<close>, \<open>Subsurface_Links\<close>, \<open>Subsurface_Safety\<close>: the tree of
    surfaces of \<open>libswc/subsurface.c\<close> and \<open>libswc/subcompositor.c\<close> and the commits that go through it.
    The views, and the memory of the buffers, are an argument: a record of functions on the rest of
    the server.

  \<^item> \<open>Data_Source\<close>: the sources and offers of \<open>libswc/data.c\<close>, with the memory they live in.
  \<^item> \<open>Selection\<close>, \<open>Selection_Safety\<close>: the clipboard of \<open>libswc/data_device.c\<close>, the primary
    selection of \<open>libswc/primary_selection.c\<close>, what \<open>libswc/seat.c\<close> tells the focused client of
    them, and the ownership of the clipboard by the bridge to X in \<open>libswc/xselection.c\<close>.  The
    locale \<open>exclusive_selection\<close> is what both selections promise to their sources.
  \<^item> \<open>Drag\<close>, \<open>Drag_Safety\<close>: \<open>libswc/drag.c\<close>.  A step is one call from outside: a request, an input
    event, or the destruction of an object the drag listens to.
  \<^item> \<open>Pointer_Motion\<close>, \<open>Pointer_Motion_Safety\<close>: the position of the pointer in \<open>libswc/pointer.c\<close>
    and \<open>libswc/screen.c\<close>, and the locks and confinements of \<open>libswc/pointer_constraints.c\<close>.
    Regions are lists of boxes; the intersection of pixman and the floating-point comparison of two
    confined positions are arguments.
  \<^item> \<open>Pointer_Cursor\<close>, \<open>Pointer\<close>, \<open>Pointer_Safety\<close>: the rest of \<open>libswc/pointer.c\<close>: its focus, the
    cursor of clients and of the theme with the buffers it holds, the list of handlers that events
    go through; with \<open>libswc/cursor_shape.c\<close>, \<open>libswc/input_mode.c\<close>, \<open>libswc/select.c\<close> and
    \<open>libswc/relative_pointer.c\<close>.  It interprets the locales of \<open>Input_Focus\<close>, and \<open>focus_keeps\<close> for
    what moving the focus keeps.  The handlers of other parts and the callbacks of the window
    manager are arguments that act through the calls of this part.

  \<^bold>\<open>How the state corresponds to the code.\<close>  A C structure is a record with the fields of the
  structure that the modelled code uses; an object reached through pointers is a natural number
  and the store a function from numbers to records; \<open>NULL\<close> is \<open>None\<close>.  A C integer is an
  \<^typ>\<open>int\<close> with the conversions of the code written out, a bit field a 32-bit word, a
  \<open>wl_list\<close> the list of its elements.  What a function sends to a client or calls in a part that
  is not modelled is appended to a log, so the order of effects is part of the theorems.  The
  results of allocations and the serials of the display are arguments.

  \<^bold>\<open>Bounds.\<close>  The configure queues hold at most 1024 entries, as in the code; the generation
  counter of a toplevel has 64 bits, and the theorem on acknowledgements is about runs of fewer than
  \<open>2 ^ 63\<close> operations.  The walks over the tree of parents in the view stack may not end in the
  code; they are options, and \<open>parent_cycle_hangs\<close> shows when they do not return.  The walks over
  the tree of surfaces and the recursion of a commit are options too, and \<open>commit_returns\<close> shows that
  they return in every state the clients can reach.

  \<^bold>\<open>Not modelled.\<close>  Drawing and the scheduling of frames in \<open>libswc/compositor.c\<close>, the DRM and frame
  buffer back ends, the launcher and the seats are device I/O.  Explicit synchronisation
  of buffers (\<open>libswc/drm_syncobj.c\<close>) is taken as not in use.  The transfers between X and Wayland clients in
  \<open>libswc/xselection.c\<close> are I/O.  The planes that show the cursor, text input, screen capture,
  output management and the smaller protocols are left out so far.
\<close>

end
